(* ===== verification/Prelude.thy ===== *)
theory Prelude
  imports Main "HOL-Library.Word" "HOL-Library.Code_Target_Nat"
begin

text \<open>
  What the components of the firmware model share: the result type of code that can halt the
  system, fault or stay blocked; the memory of the microcontroller as an explicit store of
  bytes; the wrap-around system time; and the contract of a component whose operations keep an
  invariant, stated once as a locale.

  The firmware is built with \<^verbatim>\<open>CH_DBG_ENABLE_CHECKS\<close> and \<^verbatim>\<open>CH_DBG_ENABLE_ASSERTS\<close> set
  (\<^verbatim>\<open>src/src/cfg/stm32f407_discovery/chconf.h\<close>), so \<^verbatim>\<open>osalDbgCheck\<close> and \<^verbatim>\<open>osalDbgAssert\<close>
  stop the system through \<^verbatim>\<open>chSysHalt\<close>: here they are values of the type \<open>halt\<close>.
\<close>

unbundle bit_operations_syntax

section \<open>Results\<close>

text \<open>
  \<open>DbgCheck\<close> and \<open>DbgAssert\<close> are failed debug checks with the name of the function or the
  remark of the assertion; \<open>Fault\<close> is undefined behaviour of C (a null pointer read, an access
  outside an array); \<open>Blocked\<close> says that the calling thread is still asleep when the schedule
  it is run against ends; \<open>OutOfFuel\<close> that a loop with a bound on its turns used them up.
\<close>

datatype halt = DbgCheck string | DbgAssert string | Fault string | Blocked | OutOfFuel

type_synonym 'a result = "halt + 'a"

fun bindE :: "'a result \<Rightarrow> ('a \<Rightarrow> 'b result) \<Rightarrow> 'b result" where
  "bindE (Inl e) f = Inl e"
| "bindE (Inr x) f = f x"

definition dbgCheck :: "string \<Rightarrow> bool \<Rightarrow> 'a result \<Rightarrow> 'a result" where
  "dbgCheck fn c k = (if c then k else Inl (DbgCheck fn))"

definition dbgAssert :: "string \<Rightarrow> bool \<Rightarrow> 'a result \<Rightarrow> 'a result" where
  "dbgAssert remark c k = (if c then k else Inl (DbgAssert remark))"

text \<open>Access through a pointer that may be null.\<close>

definition deref :: "string \<Rightarrow> 'p option \<Rightarrow> 'p result" where
  "deref what p = (case p of None \<Rightarrow> Inl (Fault what) | Some x \<Rightarrow> Inr x)"

named_theorems res_simps \<open>unfolding of the result combinators\<close>

lemma bindE_Inr_iff [res_simps]: "bindE r f = Inr y \<longleftrightarrow> (\<exists>x. r = Inr x \<and> f x = Inr y)"
  by (cases r) auto

lemma dbgCheck_Inr_iff [res_simps]: "dbgCheck fn c k = Inr y \<longleftrightarrow> c \<and> k = Inr y"
  by (simp add: dbgCheck_def)

lemma dbgAssert_Inr_iff [res_simps]: "dbgAssert m c k = Inr y \<longleftrightarrow> c \<and> k = Inr y"
  by (simp add: dbgAssert_def)

lemma deref_Inr_iff [res_simps]: "deref w p = Inr x \<longleftrightarrow> p = Some x"
  by (simp add: deref_def split: option.splits)

lemma dbgCheck_True [simp]: "c \<Longrightarrow> dbgCheck fn c k = k"
  by (simp add: dbgCheck_def)

lemma dbgAssert_True [simp]: "c \<Longrightarrow> dbgAssert m c k = k"
  by (simp add: dbgAssert_def)

lemma deref_simps [simp]: "deref w (Some x) = Inr x" "deref w None = Inl (Fault w)"
  by (simp_all add: deref_def)

text \<open>The error of a result, for evaluation where the state type has no decidable equality.\<close>

fun fault_of :: "'a result \<Rightarrow> halt option" where
  "fault_of (Inl e) = Some e"
| "fault_of (Inr x) = None"

lemma fault_of_iff [simp]: "fault_of r = Some e \<longleftrightarrow> r = Inl e"
  by (cases r) auto

lemma bindE_assoc: "bindE (bindE r f) g = bindE r (\<lambda>x. bindE (f x) g)"
  by (cases r) auto

section \<open>Components whose operations keep an invariant\<close>

fun run_ops :: "('e \<Rightarrow> 's \<Rightarrow> 's result) \<Rightarrow> 'e list \<Rightarrow> 's \<Rightarrow> 's result" where
  "run_ops step [] s = Inr s"
| "run_ops step (e # es) s = bindE (step e s) (run_ops step es)"

lemma run_ops_append:
  "run_ops step (xs @ ys) s = bindE (run_ops step xs s) (run_ops step ys)"
proof (induction xs arbitrary: s)
  case (Cons e es)
  then show ?case by (cases "step e s") simp_all
qed simp

text \<open>
  \<open>keeps\<close> is the contract of a component: what one operation keeps, any sequence of operations
  keeps. \<open>keeps_total\<close> adds that an operation allowed by the component's own guard does not
  halt the system.
\<close>

locale keeps =
  fixes step :: "'e \<Rightarrow> 's \<Rightarrow> 's result"
    and inv :: "'s \<Rightarrow> bool"
  assumes step_keeps: "inv s \<Longrightarrow> step e s = Inr s' \<Longrightarrow> inv s'"
begin

lemma run_keeps: "inv s \<Longrightarrow> run_ops step es s = Inr s' \<Longrightarrow> inv s'"
proof (induction es arbitrary: s)
  case Nil
  then show ?case by simp
next
  case (Cons e es)
  then obtain t where "step e s = Inr t" "run_ops step es t = Inr s'"
    by (auto simp: res_simps)
  with Cons show ?case by (blast intro: step_keeps)
qed

end

fun all_enabled ::
  "('e \<Rightarrow> 's \<Rightarrow> 's result) \<Rightarrow> ('e \<Rightarrow> 's \<Rightarrow> bool) \<Rightarrow> 'e list \<Rightarrow> 's \<Rightarrow> bool" where
  "all_enabled step g [] s = True"
| "all_enabled step g (e # es) s =
     (g e s \<and> (case step e s of Inl _ \<Rightarrow> True | Inr s' \<Rightarrow> all_enabled step g es s'))"

lemma all_enabled_True: "all_enabled step (\<lambda>_ _. True) es s"
  by (induction es arbitrary: s) (auto split: sum.splits)

locale keeps_total = keeps +
  fixes guard :: "'e \<Rightarrow> 's \<Rightarrow> bool"
  assumes step_total: "inv s \<Longrightarrow> guard e s \<Longrightarrow> \<exists>s'. step e s = Inr s'"
begin

lemma run_total:
  "inv s \<Longrightarrow> all_enabled step guard es s \<Longrightarrow> \<exists>s'. run_ops step es s = Inr s' \<and> inv s'"
proof (induction es arbitrary: s)
  case Nil
  then show ?case by simp
next
  case (Cons e es)
  then obtain t where t: "step e s = Inr t"
    using step_total by fastforce
  with Cons.prems have "inv t" "all_enabled step guard es t"
    by (auto intro: step_keeps)
  with Cons.IH t show ?case by auto
qed

end

section \<open>Memory\<close>

text \<open>
  RAM is a function from addresses to bytes. \<open>size_t\<close> is 32 bits and little endian on the
  Cortex-M4.
\<close>

type_synonym byte = "8 word"
type_synonym mem = "nat \<Rightarrow> byte"

definition memcpy :: "mem \<Rightarrow> nat \<Rightarrow> nat \<Rightarrow> nat \<Rightarrow> mem" where
  "memcpy m dst src n = (\<lambda>a. if dst \<le> a \<and> a < dst + n then m (src + (a - dst)) else m a)"

definition store_bytes :: "mem \<Rightarrow> nat \<Rightarrow> byte list \<Rightarrow> mem" where
  "store_bytes m a bs = (\<lambda>x. if a \<le> x \<and> x < a + length bs then bs ! (x - a) else m x)"

definition load_bytes :: "mem \<Rightarrow> nat \<Rightarrow> nat \<Rightarrow> byte list" where
  "load_bytes m a n = map m [a ..< a + n]"

abbreviation (input) sizeof_size_t :: nat where
  "sizeof_size_t \<equiv> 4"

definition store_size :: "mem \<Rightarrow> nat \<Rightarrow> nat \<Rightarrow> mem" where
  "store_size m a n = store_bytes m a
     [word_of_nat n, word_of_nat (n div 256), word_of_nat (n div 65536), word_of_nat (n div 16777216)]"

definition load_size :: "mem \<Rightarrow> nat \<Rightarrow> nat" where
  "load_size m a = unat (m a) + 256 * unat (m (a + 1)) + 65536 * unat (m (a + 2))
     + 16777216 * unat (m (a + 3))"

lemma length_load_bytes [simp]: "length (load_bytes m a n) = n"
  by (simp add: load_bytes_def)

lemma load_bytes_0 [simp]: "load_bytes m a 0 = []"
  by (simp add: load_bytes_def)

lemma load_bytes_nth [simp]: "i < n \<Longrightarrow> load_bytes m a n ! i = m (a + i)"
  by (simp add: load_bytes_def)

lemma load_bytes_split: "k \<le> n \<Longrightarrow> load_bytes m a n = load_bytes m a k @ load_bytes m (a + k) (n - k)"
  by (rule nth_equalityI) (auto simp: nth_append add.assoc)

lemma load_bytes_Suc: "load_bytes m a (Suc n) = m a # load_bytes m (Suc a) n"
  by (simp add: load_bytes_def upt_conv_Cons del: upt_Suc)

lemma load_bytes_cong:
  "(\<And>x. a \<le> x \<Longrightarrow> x < a + n \<Longrightarrow> m x = m' x) \<Longrightarrow> load_bytes m a n = load_bytes m' a n"
  by (auto simp: load_bytes_def)

lemma load_store_bytes [simp]: "length bs = n \<Longrightarrow> load_bytes (store_bytes m a bs) a n = bs"
  by (rule nth_equalityI) (auto simp: store_bytes_def)

lemma store_bytes_frame: "x < a \<or> a + length bs \<le> x \<Longrightarrow> store_bytes m a bs x = m x"
  by (auto simp: store_bytes_def)

lemma memcpy_frame: "x < dst \<or> dst + n \<le> x \<Longrightarrow> memcpy m dst src n x = m x"
  by (auto simp: memcpy_def)

lemma load_memcpy_dst [simp]: "load_bytes (memcpy m dst src n) dst n = load_bytes m src n"
  by (rule nth_equalityI) (auto simp: memcpy_def)

lemma store_size_frame: "x < a \<or> a + 4 \<le> x \<Longrightarrow> store_size m a n x = m x"
  by (auto simp: store_size_def store_bytes_def)

lemma bytes4_split:
  "n mod 256 + 256 * (n div 256 mod 256) + 65536 * (n div 65536 mod 256)
     + 16777216 * (n div 16777216 mod 256) = n mod 2 ^ 32" for n :: nat
proof -
  have "n mod 4294967296 = n mod 16777216 + 16777216 * (n div 16777216 mod 256)"
    using mod_mult2_eq [of n 16777216 256] by simp
  moreover have "n mod 16777216 = n mod 65536 + 65536 * (n div 65536 mod 256)"
    using mod_mult2_eq [of n 65536 256] by simp
  moreover have "n mod 65536 = n mod 256 + 256 * (n div 256 mod 256)"
    using mod_mult2_eq [of n 256 256] by simp
  ultimately show ?thesis by simp
qed

lemma unat_byte_of_nat: "unat (word_of_nat n :: byte) = n mod 256"
  by (simp add: unat_of_nat)

lemma load_store_size [simp]: "load_size (store_size m a n) a = n mod 2 ^ 32"
proof -
  have "load_size (store_size m a n) a = n mod 256 + 256 * (n div 256 mod 256)
      + 65536 * (n div 65536 mod 256) + 16777216 * (n div 16777216 mod 256)"
    by (simp add: load_size_def store_size_def store_bytes_def unat_byte_of_nat numeral_3_eq_3)
  then show ?thesis using bytes4_split [of n] by simp
qed

lemma load_size_cong:
  "(\<And>x. a \<le> x \<Longrightarrow> x < a + 4 \<Longrightarrow> m x = m' x) \<Longrightarrow> load_size m a = load_size m' a"
  by (simp add: load_size_def)

section \<open>System time and messages\<close>

text \<open>
  \<^verbatim>\<open>systime_t\<close> and \<^verbatim>\<open>sysinterval_t\<close> are 32 bit counters (\<^verbatim>\<open>CH_CFG_ST_RESOLUTION\<close> and
  \<^verbatim>\<open>CH_CFG_INTERVALS_SIZE\<close> are 32), \<^verbatim>\<open>msg_t\<close> is a signed 32 bit integer.
\<close>

type_synonym systime = "32 word"
type_synonym sysinterval = "32 word"
type_synonym msg = int
type_synonym tid = nat

definition MSG_OK :: msg where "MSG_OK = 0"
definition MSG_TIMEOUT :: msg where "MSG_TIMEOUT = -1"
definition MSG_RESET :: msg where "MSG_RESET = -2"

lemmas msg_defs = MSG_OK_def MSG_TIMEOUT_def MSG_RESET_def

definition TIME_IMMEDIATE :: sysinterval where "TIME_IMMEDIATE = 0"
definition TIME_INFINITE :: sysinterval where "TIME_INFINITE = -1"

definition chTimeAddX :: "systime \<Rightarrow> sysinterval \<Rightarrow> systime" where
  "chTimeAddX systime interval = systime + interval"

definition chTimeDiffX :: "systime \<Rightarrow> systime \<Rightarrow> sysinterval" where
  "chTimeDiffX start e = e - start"

end
