(* ===== verification/CLib.thy ===== *)
theory CLib
  imports Prelude "HOL-Library.Sublist"
begin

text \<open>
  The part of the C library the firmware calls on character arrays: \<^verbatim>\<open>strtok_r\<close>,
  \<^verbatim>\<open>strstr\<close>, \<^verbatim>\<open>atoi\<close>, \<^verbatim>\<open>sprintf\<close> with \<^verbatim>\<open>%s\<close>, \<^verbatim>\<open>%d\<close> and \<^verbatim>\<open>%ld\<close>, and
  \<^verbatim>\<open>memset\<close>. A character array is a list of characters of fixed length, a pointer into it is an
  index, a null pointer is \<open>None\<close>. Reading or writing outside the array, and a conversion
  whose result \<^verbatim>\<open>int\<close> cannot represent, are undefined in C and give \<open>Fault\<close>.
\<close>

section \<open>Strings in character arrays\<close>

abbreviation NUL :: char where
  "NUL \<equiv> CHR 0x00"

type_synonym carray = "char list"

text \<open>The string that starts at index \<open>i\<close> and ends before the next \<open>NUL\<close>.\<close>

definition cstr :: "carray \<Rightarrow> nat \<Rightarrow> string result" where
  "cstr b i = (let s = takeWhile (\<lambda>c. c \<noteq> NUL) (drop i b) in
     if i + length s < length b then Inr s else Inl (Fault ''string without end''))"

text \<open>The first index from \<open>i\<close> on whose character does not satisfy \<open>P\<close>.\<close>

definition scan :: "(char \<Rightarrow> bool) \<Rightarrow> carray \<Rightarrow> nat \<Rightarrow> nat result" where
  "scan P b i = (let j = i + length (takeWhile P (drop i b)) in
     if j < length b then Inr j else Inl (Fault ''scan outside array''))"

text \<open>
  \<^verbatim>\<open>strtok_r(s, delim, &save)\<close> returns the token, the array with the delimiter after the token
  overwritten, and the new \<open>save\<close> pointer. After the last token \<open>save\<close> is null and every
  further call returns null.
\<close>

definition strtok_r ::
  "carray \<Rightarrow> nat option \<Rightarrow> string \<Rightarrow> nat option \<Rightarrow> (nat option \<times> carray \<times> nat option) result" where
  "strtok_r b s delim save =
     (case (case s of None \<Rightarrow> save | Some p \<Rightarrow> Some p) of
        None \<Rightarrow> Inr (None, b, None)
      | Some p \<Rightarrow>
          bindE (scan (\<lambda>c. c \<in> set delim) b p) (\<lambda>q.
            if b ! q = NUL then Inr (None, b, None)
            else bindE (scan (\<lambda>c. c \<noteq> NUL \<and> c \<notin> set delim) b q) (\<lambda>e.
              if b ! e = NUL then Inr (Some q, b, None)
              else Inr (Some q, b[e := NUL], Some (Suc e)))))"

text \<open>\<^verbatim>\<open>strstr(hay, needle) != NULL\<close>.\<close>

fun strstr :: "string \<Rightarrow> string \<Rightarrow> bool" where
  "strstr [] needle = (needle = [])"
| "strstr (c # cs) needle = (prefix needle (c # cs) \<or> strstr cs needle)"

lemma strstr_iff: "strstr hay needle \<longleftrightarrow> (\<exists>u v. hay = u @ needle @ v)"
proof (induction hay)
  case Nil
  then show ?case by auto
next
  case (Cons c cs)
  have "strstr (c # cs) needle \<longleftrightarrow> (\<exists>v. c # cs = needle @ v) \<or> (\<exists>u v. cs = u @ needle @ v)"
    using Cons.IH by (auto simp: prefix_def)
  also have "\<dots> \<longleftrightarrow> (\<exists>u v. c # cs = u @ needle @ v)"
    by (metis append_Cons append_Nil list.sel(3) tl_append2)
  finally show ?case .
qed

section \<open>Numbers\<close>

definition is_space :: "char \<Rightarrow> bool" where
  "is_space c = (c \<in> set [CHR '' '', CHR 0x09, CHR 0x0A, CHR 0x0B, CHR 0x0C, CHR 0x0D])"

definition digit_val :: "char \<Rightarrow> nat" where
  "digit_val c = of_char c - 48"

definition is_digit :: "char \<Rightarrow> bool" where
  "is_digit c = (48 \<le> (of_char c :: nat) \<and> (of_char c :: nat) \<le> 57)"

fun digits_val :: "nat \<Rightarrow> string \<Rightarrow> nat" where
  "digits_val acc [] = acc"
| "digits_val acc (c # cs) = digits_val (10 * acc + digit_val c) cs"

definition INT_MAX :: int where "INT_MAX = 2147483647"
definition INT_MIN :: int where "INT_MIN = - 2147483648"

definition atoi :: "string \<Rightarrow> int result" where
  "atoi s =
     (let t = dropWhile is_space s;
          neg = (t \<noteq> [] \<and> hd t = CHR ''-'');
          u = (if t \<noteq> [] \<and> (hd t = CHR ''-'' \<or> hd t = CHR ''+'') then tl t else t);
          n = int (digits_val 0 (takeWhile is_digit u));
          v = (if neg then - n else n)
      in if INT_MIN \<le> v \<and> v \<le> INT_MAX then Inr v else Inl (Fault ''atoi out of range''))"

definition digit_chr :: "nat \<Rightarrow> char" where
  "digit_chr d = ''0123456789'' ! (d mod 10)"

fun dec_nat :: "nat \<Rightarrow> string" where
  "dec_nat n = (if n < 10 then [digit_chr n] else dec_nat (n div 10) @ [digit_chr (n mod 10)])"

declare dec_nat.simps [simp del]

text \<open>\<^verbatim>\<open>%d\<close> and \<^verbatim>\<open>%ld\<close>: both are 32 bits wide on this target.\<close>

definition dec :: "int \<Rightarrow> string" where
  "dec i = (if i < 0 then CHR ''-'' # dec_nat (nat (- i)) else dec_nat (nat i))"

section \<open>Writing to character arrays\<close>

text \<open>
  \<^verbatim>\<open>sprintf(buf, ...)\<close> stores the formatted text and its \<open>NUL\<close> and returns the length of the
  text.
\<close>

definition sprintf :: "carray \<Rightarrow> string \<Rightarrow> (carray \<times> nat) result" where
  "sprintf buf txt =
     (if length txt < length buf
      then Inr (txt @ NUL # drop (Suc (length txt)) buf, length txt)
      else Inl (Fault ''sprintf outside array''))"

text \<open>\<^verbatim>\<open>memset(buf, 0, sizeof(buf))\<close>.\<close>

definition memset0 :: "carray \<Rightarrow> carray" where
  "memset0 buf = replicate (length buf) NUL"

lemma length_memset0 [simp]: "length (memset0 b) = length b"
  by (simp add: memset0_def)

section \<open>Lemmas\<close>

lemma digit_chr_props:
  assumes "d < 10"
  shows "is_digit (digit_chr d)" "digit_val (digit_chr d) = d" "\<not> is_space (digit_chr d)"
    "digit_chr d \<noteq> NUL" "digit_chr d \<noteq> CHR '':''" "digit_chr d \<noteq> CHR ''-''"
    "digit_chr d \<noteq> CHR ''+''" "digit_chr d \<noteq> CHR '';''" "digit_chr d \<noteq> CHR ''|''"
proof -
  have "d \<in> set [0, 1, 2, 3, 4, 5, 6, 7, 8, 9]" using assms by auto
  then show "is_digit (digit_chr d)" "digit_val (digit_chr d) = d" "\<not> is_space (digit_chr d)"
    "digit_chr d \<noteq> NUL" "digit_chr d \<noteq> CHR '':''" "digit_chr d \<noteq> CHR ''-''"
    "digit_chr d \<noteq> CHR ''+''" "digit_chr d \<noteq> CHR '';''" "digit_chr d \<noteq> CHR ''|''"
    by (auto simp: is_digit_def digit_val_def digit_chr_def is_space_def)
qed

lemma dec_nat_nonempty [simp]: "dec_nat n \<noteq> []"
  by (subst dec_nat.simps) simp

lemma dec_nat_digits: "c \<in> set (dec_nat n) \<Longrightarrow> \<exists>d<10. c = digit_chr d"
proof (induction n rule: dec_nat.induct)
  case (1 n)
  show ?case
  proof (cases "n < 10")
    case True
    with 1 show ?thesis by (subst (asm) dec_nat.simps) auto
  next
    case False
    with 1 have "c \<in> set (dec_nat (n div 10)) \<or> c = digit_chr (n mod 10)"
      by (subst (asm) (2) dec_nat.simps) auto
    moreover have "n mod 10 < 10" by simp
    ultimately show ?thesis using 1 False by blast
  qed
qed

lemma dec_nat_notin:
  "NUL \<notin> set (dec_nat n)" "CHR '':'' \<notin> set (dec_nat n)" "CHR '';'' \<notin> set (dec_nat n)"
  "CHR ''|'' \<notin> set (dec_nat n)"
  using digit_chr_props(4,5,8,9) by (metis dec_nat_digits)+

lemma digits_val_append: "digits_val a (xs @ ys) = digits_val (digits_val a xs) ys"
  by (induction xs arbitrary: a) auto

lemma digits_val_dec_nat: "digits_val 0 (dec_nat n) = n"
proof (induction n rule: dec_nat.induct)
  case (1 n)
  show ?case
  proof (cases "n < 10")
    case True
    then show ?thesis by (subst dec_nat.simps) (simp add: digit_chr_props)
  next
    case False
    with 1 have "digits_val 0 (dec_nat (n div 10)) = n div 10" by simp
    moreover have "digit_val (digit_chr (n mod 10)) = n mod 10" by (rule digit_chr_props) simp
    ultimately show ?thesis using False
      by (subst dec_nat.simps) (simp add: digits_val_append)
  qed
qed

lemma takeWhile_dec_nat: "takeWhile is_digit (dec_nat n) = dec_nat n"
  by (auto simp: takeWhile_eq_all_conv dest!: dec_nat_digits intro: digit_chr_props)

lemma hd_dec_nat: "\<exists>d<10. hd (dec_nat n) = digit_chr d"
  using dec_nat_digits [of "hd (dec_nat n)" n] by simp

lemma dropWhile_dec_nat: "dropWhile is_space (dec_nat n) = dec_nat n"
proof -
  obtain d where "d < 10" "hd (dec_nat n) = digit_chr d" using hd_dec_nat by blast
  then have "\<not> is_space (hd (dec_nat n))" by (simp add: digit_chr_props)
  then show ?thesis by (cases "dec_nat n") auto
qed

text \<open>Printing a number and reading it back.\<close>

lemma atoi_dec_nat:
  assumes "int n \<le> INT_MAX"
  shows "atoi (dec_nat n) = Inr (int n)"
proof -
  obtain d where "d < 10" "hd (dec_nat n) = digit_chr d" using hd_dec_nat by blast
  then have "hd (dec_nat n) \<noteq> CHR ''-''" "hd (dec_nat n) \<noteq> CHR ''+''"
    by (simp_all add: digit_chr_props)
  with assms show ?thesis
    by (simp add: atoi_def dropWhile_dec_nat takeWhile_dec_nat digits_val_dec_nat INT_MIN_def)
qed

lemma length_dec_nat_le: "n < 10 ^ k \<Longrightarrow> 0 < k \<Longrightarrow> length (dec_nat n) \<le> k"
proof (induction k arbitrary: n)
  case 0
  then show ?case by simp
next
  case (Suc k)
  show ?case
  proof (cases "n < 10")
    case True
    then show ?thesis by (subst dec_nat.simps) simp
  next
    case False
    with Suc.prems have "n div 10 < 10 ^ k" "0 < k"
      by (auto simp: less_mult_imp_div_less mult.commute intro: gr0I)
    with Suc.IH have "length (dec_nat (n div 10)) \<le> k" by blast
    with False show ?thesis by (subst dec_nat.simps) simp
  qed
qed

lemma dec_of_nat [simp]: "dec (int n) = dec_nat n"
  by (simp add: dec_def)

lemma sprintf_ok:
  "length txt < length buf \<Longrightarrow> sprintf buf txt = Inr (txt @ NUL # drop (Suc (length txt)) buf, length txt)"
  by (simp add: sprintf_def)

lemma sprintf_Inr_iff [res_simps]:
  "sprintf buf txt = Inr (b, n) \<longleftrightarrow>
     length txt < length buf \<and> b = txt @ NUL # drop (Suc (length txt)) buf \<and> n = length txt"
  by (auto simp: sprintf_def)

lemma length_sprintf: "sprintf buf txt = Inr (b, n) \<Longrightarrow> length b = length buf"
  by (auto simp: sprintf_Inr_iff)

lemma takeWhile_stop: "(\<And>x. x \<in> set xs \<Longrightarrow> P x) \<Longrightarrow> \<not> P y \<Longrightarrow> takeWhile P (xs @ y # ys) = xs"
  by (subst takeWhile_append2) auto

text \<open>A string stored in an array at a known place.\<close>

lemma cstr_at:
  assumes "NUL \<notin> set s"
  shows "cstr (pre @ s @ NUL # post) (length pre) = Inr s"
proof -
  have "takeWhile (\<lambda>c. c \<noteq> NUL) (s @ NUL # post) = s"
    using assms by (intro takeWhile_stop) auto
  then show ?thesis by (simp add: cstr_def)
qed

lemma cstr_0: "NUL \<notin> set s \<Longrightarrow> cstr (s @ NUL # post) 0 = Inr s"
  using cstr_at [of s "[]" post] by simp

lemma scan_at:
  assumes "\<And>x. x \<in> set s \<Longrightarrow> P x" "\<not> P y"
  shows "scan P (pre @ s @ y # post) (length pre) = Inr (length pre + length s)"
  using assms by (simp add: scan_def takeWhile_stop)

text \<open>
  One step of \<^verbatim>\<open>strtok_r\<close>: the token \<open>tok\<close> is cut off at the delimiter \<open>d\<close>, or reaches
  the end of the string.
\<close>

lemma strtok_r_step:
  assumes tok: "tok \<noteq> []" "NUL \<notin> set tok" "set tok \<inter> set delim = {}"
    and d: "d \<in> set delim" "d \<noteq> NUL"
    and p: "(case s of None \<Rightarrow> save | Some p \<Rightarrow> Some p) = Some (length pre)"
  shows "strtok_r (pre @ tok @ d # post) s delim save =
           Inr (Some (length pre), pre @ tok @ NUL # post, Some (Suc (length pre + length tok)))"
proof -
  obtain t ts where t: "tok = t # ts" using tok(1) by (cases tok) auto
  have s1: "scan (\<lambda>c. c \<in> set delim) (pre @ tok @ d # post) (length pre) = Inr (length pre)"
    using tok(3) by (simp add: scan_def t)
  have s2: "scan (\<lambda>c. c \<noteq> NUL \<and> c \<notin> set delim) (pre @ tok @ d # post) (length pre)
      = Inr (length pre + length tok)"
    using tok d by (intro scan_at) auto
  have "(pre @ tok @ d # post) ! length pre \<noteq> NUL"
    using tok by (auto simp: nth_append t)
  moreover have "(pre @ tok @ d # post) ! (length pre + length tok) = d"
    by (simp add: nth_append)
  ultimately show ?thesis
    using p d s1 s2 by (simp add: strtok_r_def list_update_append)
qed

lemma strtok_r_last:
  assumes tok: "tok \<noteq> []" "NUL \<notin> set tok" "set tok \<inter> set delim = {}" and d: "NUL \<notin> set delim"
    and p: "(case s of None \<Rightarrow> save | Some p \<Rightarrow> Some p) = Some (length pre)"
  shows "strtok_r (pre @ tok @ NUL # post) s delim save =
           Inr (Some (length pre), pre @ tok @ NUL # post, None)"
proof -
  obtain t ts where t: "tok = t # ts" using tok(1) by (cases tok) auto
  have s1: "scan (\<lambda>c. c \<in> set delim) (pre @ tok @ NUL # post) (length pre) = Inr (length pre)"
    using tok(3) by (simp add: scan_def t)
  have s2: "scan (\<lambda>c. c \<noteq> NUL \<and> c \<notin> set delim) (pre @ tok @ NUL # post) (length pre)
      = Inr (length pre + length tok)"
    using tok d by (intro scan_at) auto
  have "(pre @ tok @ NUL # post) ! length pre \<noteq> NUL"
    using tok by (auto simp: nth_append t)
  moreover have "(pre @ tok @ NUL # post) ! (length pre + length tok) = NUL"
    by (simp add: nth_append)
  ultimately show ?thesis
    using p s1 s2 by (simp add: strtok_r_def)
qed

lemma strtok_r_end:
  assumes "NUL \<notin> set delim"
    and p: "(case s of None \<Rightarrow> save | Some p \<Rightarrow> Some p) = Some (length pre)"
  shows "strtok_r (pre @ NUL # post) s delim save = Inr (None, pre @ NUL # post, None)"
  using assms by (simp add: strtok_r_def scan_def)

lemma strtok_r_null: "strtok_r b None delim None = Inr (None, b, None)"
  by (simp add: strtok_r_def)

lemma strtok_r_length:
  "strtok_r b s delim save = Inr (t, b', save') \<Longrightarrow> length b' = length b"
  by (auto simp: strtok_r_def res_simps split: option.splits if_splits)

end
