(* ===== verification/Pal.thy ===== *)
theory Pal
  imports Prelude
begin

text \<open>
  The port abstraction layer on the STM32 GPIO block: \<^verbatim>\<open>os/hal/include/hal_pal.h\<close>,
  \<^verbatim>\<open>os/hal/ports/STM32/LLD/GPIOv2/hal_pal_lld.h\<close> and \<^verbatim>\<open>hal_pal_lld.c\<close>, with the pin names of
  \<^verbatim>\<open>os/hal/boards/ST_STM32F4_DISCOVERY/board.h\<close> that the application uses. A line is a port
  and a pad number (\<^verbatim>\<open>PAL_LINE\<close> packs both into a word).
\<close>

section \<open>Registers\<close>

datatype ioportid = GPIOA | GPIOB | GPIOC | GPIOD | GPIOE

type_synonym ioline = "ioportid \<times> nat"

record stm32_gpio =
  MODER :: "32 word"
  OTYPER :: "32 word"
  OSPEEDR :: "32 word"
  PUPDR :: "32 word"
  IDR :: "32 word"
  ODR :: "32 word"
  AFRL :: "32 word"
  AFRH :: "32 word"

type_synonym gpio = "ioportid \<Rightarrow> stm32_gpio"

text \<open>
  The hardware's reaction to a write of the bit set/reset register: the high half clears output
  bits, the low half sets them, and setting wins.
\<close>

definition write_BSRR :: "32 word \<Rightarrow> stm32_gpio \<Rightarrow> stm32_gpio" where
  "write_BSRR w g = g\<lparr>ODR := (ODR g AND NOT (drop_bit 16 w)) OR take_bit 16 w\<rparr>"

section \<open>Operations\<close>

definition PAL_LOW :: "32 word" where "PAL_LOW = 0"
definition PAL_HIGH :: "32 word" where "PAL_HIGH = 1"

definition PAL_PORT_BIT :: "nat \<Rightarrow> 32 word" where
  "PAL_PORT_BIT n = push_bit n 1"

definition pal_lld_writegroup ::
  "gpio \<Rightarrow> ioportid \<Rightarrow> 32 word \<Rightarrow> nat \<Rightarrow> 32 word \<Rightarrow> gpio" where
  "pal_lld_writegroup g port msk offset bits = g(port := write_BSRR
     (push_bit (16 + offset) (NOT bits AND msk) OR push_bit offset (bits AND msk)) (g port))"

definition pal_lld_writepad :: "gpio \<Rightarrow> ioportid \<Rightarrow> nat \<Rightarrow> 32 word \<Rightarrow> gpio" where
  "pal_lld_writepad g port pad b = pal_lld_writegroup g port 1 pad b"

definition pal_lld_setport :: "gpio \<Rightarrow> ioportid \<Rightarrow> 32 word \<Rightarrow> gpio" where
  "pal_lld_setport g port bits = g(port := write_BSRR (take_bit 16 bits) (g port))"

definition pal_lld_clearport :: "gpio \<Rightarrow> ioportid \<Rightarrow> 32 word \<Rightarrow> gpio" where
  "pal_lld_clearport g port bits =
     g(port := write_BSRR (push_bit 16 (take_bit 16 bits)) (g port))"

definition palWriteLine :: "gpio \<Rightarrow> ioline \<Rightarrow> 32 word \<Rightarrow> gpio" where
  "palWriteLine g line b = pal_lld_writepad g (fst line) (snd line) b"

definition palSetLine :: "gpio \<Rightarrow> ioline \<Rightarrow> gpio" where
  "palSetLine g line = pal_lld_setport g (fst line) (PAL_PORT_BIT (snd line))"

definition palClearLine :: "gpio \<Rightarrow> ioline \<Rightarrow> gpio" where
  "palClearLine g line = pal_lld_clearport g (fst line) (PAL_PORT_BIT (snd line))"

text \<open>There is no low level toggle: the latch is read, changed and written back.\<close>

definition palTogglePad :: "gpio \<Rightarrow> ioportid \<Rightarrow> nat \<Rightarrow> gpio" where
  "palTogglePad g port pad = g(port := (g port)\<lparr>ODR := ODR (g port) XOR PAL_PORT_BIT pad\<rparr>)"

definition palReadLine :: "gpio \<Rightarrow> ioline \<Rightarrow> 32 word" where
  "palReadLine g line = drop_bit (snd line) (IDR (g (fst line))) AND 1"

section \<open>Pad modes\<close>

definition PAL_STM32_MODE_MASK :: "32 word" where "PAL_STM32_MODE_MASK = 3"
definition PAL_STM32_OTYPE_MASK :: "32 word" where "PAL_STM32_OTYPE_MASK = push_bit 2 1"
definition PAL_STM32_OSPEED_MASK :: "32 word" where "PAL_STM32_OSPEED_MASK = push_bit 3 3"
definition PAL_STM32_PUPDR_MASK :: "32 word" where "PAL_STM32_PUPDR_MASK = push_bit 5 3"
definition PAL_STM32_ALTERNATE_MASK :: "32 word" where "PAL_STM32_ALTERNATE_MASK = push_bit 7 15"
definition PAL_STM32_MODE_ALTERNATE :: "32 word" where "PAL_STM32_MODE_ALTERNATE = 2"
definition PAL_STM32_MODE_ANALOG :: "32 word" where "PAL_STM32_MODE_ANALOG = 3"

abbreviation "PAL_MODE_INPUT_ANALOG \<equiv> PAL_STM32_MODE_ANALOG"

lemmas pal_mode_defs = PAL_STM32_MODE_MASK_def PAL_STM32_OTYPE_MASK_def PAL_STM32_OSPEED_MASK_def
  PAL_STM32_PUPDR_MASK_def PAL_STM32_ALTERNATE_MASK_def PAL_STM32_MODE_ALTERNATE_def
  PAL_STM32_MODE_ANALOG_def

text \<open>One pad of the loop of \<^verbatim>\<open>_pal_lld_setgroupmode\<close>.\<close>

definition setmode_pad ::
  "32 word \<Rightarrow> 32 word \<Rightarrow> nat \<Rightarrow> 32 word \<Rightarrow> 32 word \<Rightarrow> 32 word \<Rightarrow> 32 word \<Rightarrow> stm32_gpio \<Rightarrow> stm32_gpio"
where
  "setmode_pad mode altr bit_ix otyper ospeedr pupdr moder g =
     (let altrmask = push_bit ((bit_ix mod 8) * 4) altr;
          m1 = push_bit bit_ix 1;
          m2 = push_bit (bit_ix * 2) 3;
          m4 = push_bit ((bit_ix mod 8) * 4) 15;
          g = g\<lparr>OTYPER := (OTYPER g AND NOT m1) OR otyper,
                OSPEEDR := (OSPEEDR g AND NOT m2) OR ospeedr,
                PUPDR := (PUPDR g AND NOT m2) OR pupdr\<rparr>;
          setaf = (\<lambda>g. if bit_ix < 8 then g\<lparr>AFRL := (AFRL g AND NOT m4) OR altrmask\<rparr>
                       else g\<lparr>AFRH := (AFRH g AND NOT m4) OR altrmask\<rparr>);
          setm = (\<lambda>g. g\<lparr>MODER := (MODER g AND NOT m2) OR moder\<rparr>)
      in if mode AND PAL_STM32_MODE_MASK = PAL_STM32_MODE_ALTERNATE
         then setm (setaf g) else setaf (setm g))"

lemma unat_drop_bit_1_less: "drop_bit (Suc 0) w \<noteq> 0 \<Longrightarrow> unat (drop_bit (Suc 0) w) < unat w"
  for w :: "32 word"
proof -
  assume "drop_bit (Suc 0) w \<noteq> 0"
  then have "0 < unat w" by (metis drop_bit_of_0 unat_gt_0)
  moreover have "unat (drop_bit (Suc 0) w) = unat w div 2"
    by (simp add: drop_bit_Suc unat_div)
  ultimately show ?thesis by simp
qed

function setgroupmode_loop ::
  "32 word \<Rightarrow> 32 word \<Rightarrow> 32 word \<Rightarrow> nat \<Rightarrow> 32 word \<Rightarrow> 32 word \<Rightarrow> 32 word \<Rightarrow> 32 word \<Rightarrow>
     stm32_gpio \<Rightarrow> stm32_gpio"
where
  "setgroupmode_loop msk mode altr bit_ix otyper ospeedr pupdr moder g =
     (let g = (if msk AND 1 \<noteq> 0 then setmode_pad mode altr bit_ix otyper ospeedr pupdr moder g
               else g);
          msk' = drop_bit 1 msk
      in if msk' = 0 then g
         else setgroupmode_loop msk' mode altr (Suc bit_ix) (push_bit 1 otyper)
                (push_bit 2 ospeedr) (push_bit 2 pupdr) (push_bit 2 moder) g)"
  by pat_completeness auto
termination
  by (relation "measure (\<lambda>(msk, _). unat msk)") (auto intro!: unat_drop_bit_1_less)

declare setgroupmode_loop.simps [simp del]

definition pal_lld_setgroupmode :: "gpio \<Rightarrow> ioportid \<Rightarrow> 32 word \<Rightarrow> 32 word \<Rightarrow> gpio" where
  "pal_lld_setgroupmode g port msk mode = g(port := setgroupmode_loop msk mode
     (drop_bit 7 (mode AND PAL_STM32_ALTERNATE_MASK)) 0
     (drop_bit 2 (mode AND PAL_STM32_OTYPE_MASK))
     (drop_bit 3 (mode AND PAL_STM32_OSPEED_MASK))
     (drop_bit 5 (mode AND PAL_STM32_PUPDR_MASK))
     (mode AND PAL_STM32_MODE_MASK) (g port))"

definition palSetGroupMode :: "gpio \<Rightarrow> ioportid \<Rightarrow> 32 word \<Rightarrow> nat \<Rightarrow> 32 word \<Rightarrow> gpio" where
  "palSetGroupMode g port msk offset mode =
     pal_lld_setgroupmode g port (push_bit offset msk) mode"

section \<open>The lines of the board\<close>

definition LINE_ASMS_READ :: ioline where "LINE_ASMS_READ = (GPIOC, 13)"
definition LINE_CLAMPED_SENS_READ :: ioline where "LINE_CLAMPED_SENS_READ = (GPIOC, 14)"
definition LINE_EBS_OK_READ :: ioline where "LINE_EBS_OK_READ = (GPIOC, 15)"
definition LINE_HEART_BEAT :: ioline where "LINE_HEART_BEAT = (GPIOD, 0)"
definition LINE_RACK_RIGHT :: ioline where "LINE_RACK_RIGHT = (GPIOD, 1)"
definition LINE_RACK_LEFT :: ioline where "LINE_RACK_LEFT = (GPIOD, 2)"
definition LINE_SERVICE_BREAK :: ioline where "LINE_SERVICE_BREAK = (GPIOD, 3)"
definition LINE_REDUNDENCY :: ioline where "LINE_REDUNDENCY = (GPIOD, 4)"
definition LINE_SHUTDOWN :: ioline where "LINE_SHUTDOWN = (GPIOD, 6)"
definition LINE_SPARE :: ioline where "LINE_SPARE = (GPIOD, 7)"
definition LINE_CLAMP_SET :: ioline where "LINE_CLAMP_SET = (GPIOD, 8)"
definition LINE_COMPRESSOR :: ioline where "LINE_COMPRESSOR = (GPIOD, 9)"
definition LINE_EBS_RELIEF :: ioline where "LINE_EBS_RELIEF = (GPIOD, 10)"
definition LINE_EBS_SPEAKER :: ioline where "LINE_EBS_SPEAKER = (GPIOD, 11)"
definition LINE_FINISHED :: ioline where "LINE_FINISHED = (GPIOD, 12)"
definition LINE_LED3 :: ioline where "LINE_LED3 = (GPIOD, 13)"
definition LINE_LED5 :: ioline where "LINE_LED5 = (GPIOD, 14)"
definition LINE_LED6 :: ioline where "LINE_LED6 = (GPIOD, 15)"

lemmas line_defs = LINE_ASMS_READ_def LINE_CLAMPED_SENS_READ_def LINE_EBS_OK_READ_def
  LINE_HEART_BEAT_def LINE_RACK_RIGHT_def LINE_RACK_LEFT_def LINE_SERVICE_BREAK_def
  LINE_REDUNDENCY_def LINE_SHUTDOWN_def LINE_SPARE_def LINE_CLAMP_SET_def LINE_COMPRESSOR_def
  LINE_EBS_RELIEF_def LINE_EBS_SPEAKER_def LINE_FINISHED_def LINE_LED3_def LINE_LED5_def
  LINE_LED6_def

section \<open>What a line write does\<close>

text \<open>A driven line: the output latch bit of the pad.\<close>

definition line_out :: "gpio \<Rightarrow> ioline \<Rightarrow> bool" where
  "line_out g line = bit (ODR (g (fst line))) (snd line)"

lemma line_out_palWriteLine:
  assumes "snd line < 16" "snd line' < 16"
  shows "line_out (palWriteLine g line b) line' =
           (if line' = line then bit b 0 else line_out g line')"
  using assms
  by (cases line; cases line')
    (auto simp: line_out_def palWriteLine_def pal_lld_writepad_def pal_lld_writegroup_def
      write_BSRR_def bit_simps not_le)

lemma line_out_palSetLine:
  assumes "snd line < 16" "snd line' < 16"
  shows "line_out (palSetLine g line) line' = (line' = line \<or> line_out g line')"
  using assms
  by (cases line; cases line')
    (auto simp: line_out_def palSetLine_def pal_lld_setport_def PAL_PORT_BIT_def write_BSRR_def
      bit_simps)

lemma line_out_palClearLine:
  assumes "snd line < 16" "snd line' < 16"
  shows "line_out (palClearLine g line) line' = (line' \<noteq> line \<and> line_out g line')"
  using assms
  by (cases line; cases line')
    (auto simp: line_out_def palClearLine_def pal_lld_clearport_def PAL_PORT_BIT_def write_BSRR_def
      bit_simps)

lemma line_out_palTogglePad:
  assumes "pad < 16" "snd line' < 16"
  shows "line_out (palTogglePad g port pad) line' =
           (if line' = (port, pad) then \<not> line_out g line' else line_out g line')"
  using assms
  by (cases line')
    (auto simp: line_out_def palTogglePad_def PAL_PORT_BIT_def bit_simps)

lemma IDR_palWriteLine [simp]: "IDR (palWriteLine g line b p) = IDR (g p)"
  by (simp add: palWriteLine_def pal_lld_writepad_def pal_lld_writegroup_def write_BSRR_def)

lemma palReadLine_palWriteLine [simp]: "palReadLine (palWriteLine g l b) l' = palReadLine g l'"
  by (simp add: palReadLine_def)

lemma palReadLine_cases: "palReadLine g l = 0 \<or> palReadLine g l = 1"
  by (auto simp: palReadLine_def and_one_eq)

end
