(* ===== verification/Pwm.thy ===== *)
theory Pwm
  imports Prelude
begin

text \<open>
  The PWM driver: \<^verbatim>\<open>os/hal/src/hal_pwm.c\<close>, the macros of \<^verbatim>\<open>os/hal/include/hal_pwm.h\<close> and the
  STM32 timer back end \<^verbatim>\<open>os/hal/ports/STM32/LLD/TIMv1/hal_pwm_lld.c\<close> as this build configures
  it: timers 3 and 4 only, four channels, no advanced mode. Registers hold the value last written,
  except that a write to the status register can only clear bits; the clock of both timers is the constant the clock tree of \<^verbatim>\<open>mcuconf.h\<close> gives.
\<close>

section \<open>Data\<close>

datatype pwmstate = PWM_UNINIT | PWM_STOP | PWM_READY

text \<open>A callback pointer is \<open>None\<close> for null, or the identity of the function.\<close>

type_synonym pwmcallback = "nat option"

record PWMChannelConfig =
  ch_mode :: "32 word"
  ch_callback :: pwmcallback

record PWMConfig =
  frequency :: "32 word"
  cfg_period :: "32 word"
  cfg_callback :: pwmcallback
  cfg_channels :: "PWMChannelConfig list"
  cfg_cr2 :: "32 word"
  cfg_dier :: "32 word"

record stm32_tim =
  CR1 :: "32 word"
  CR2 :: "32 word"
  DIER :: "32 word"
  SR :: "32 word"
  EGR :: "32 word"
  CCMR1 :: "32 word"
  CCMR2 :: "32 word"
  CCER :: "32 word"
  CNT :: "32 word"
  PSC :: "32 word"
  ARR :: "32 word"
  CCR :: "nat \<Rightarrow> 32 word"

record PWMDriver =
  pwm_state :: pwmstate
  pwm_config :: "PWMConfig option"
  period :: "32 word"
  enabled :: "32 word"
  channels :: nat
  clock :: "32 word"
  tim :: stm32_tim

section \<open>Constants\<close>

definition PWM_OUTPUT_MASK :: "32 word" where "PWM_OUTPUT_MASK = 15"
definition PWM_OUTPUT_ACTIVE_HIGH :: "32 word" where "PWM_OUTPUT_ACTIVE_HIGH = 1"
definition PWM_OUTPUT_ACTIVE_LOW :: "32 word" where "PWM_OUTPUT_ACTIVE_LOW = 2"

text \<open>
  \<^verbatim>\<open>STM32_TIMCLK1\<close>: 8 MHz crystal, PLL factors 8, 336 and 2, APB1 divided by 4 and doubled for
  the timers.
\<close>

definition STM32_TIMCLK1 :: "32 word" where "STM32_TIMCLK1 = 84000000"

definition STM32_TIM_DIER_UIE :: "32 word" where "STM32_TIM_DIER_UIE = 1"
definition STM32_TIM_DIER_IRQ_MASK :: "32 word" where "STM32_TIM_DIER_IRQ_MASK = 255"

lemmas pwm_consts = PWM_OUTPUT_MASK_def PWM_OUTPUT_ACTIVE_HIGH_def PWM_OUTPUT_ACTIVE_LOW_def
  STM32_TIMCLK1_def STM32_TIM_DIER_UIE_def STM32_TIM_DIER_IRQ_MASK_def

text \<open>The registers after \<^verbatim>\<open>rccResetTIMx\<close>.\<close>

definition tim_reset :: stm32_tim where
  "tim_reset = \<lparr>CR1 = 0, CR2 = 0, DIER = 0, SR = 0, EGR = 0, CCMR1 = 0, CCMR2 = 0, CCER = 0,
     CNT = 0, PSC = 0, ARR = 65535, CCR = (\<lambda>_. 0)\<rparr>"

text \<open>A bit of the status register is cleared by writing 0 and kept by writing 1.\<close>

definition write_SR :: "32 word \<Rightarrow> 32 word \<Rightarrow> 32 word" where
  "write_SR old w = old AND w"

section \<open>Low level driver\<close>

definition pwmObjectInit :: "PWMDriver \<Rightarrow> PWMDriver" where
  "pwmObjectInit d = d\<lparr>pwm_state := PWM_STOP, pwm_config := None, enabled := 0, channels := 0\<rparr>"

text \<open>\<^verbatim>\<open>pwm_lld_init\<close> for one of the two timers in use: both have four channels.\<close>

definition pwm_lld_init :: "PWMDriver \<Rightarrow> PWMDriver" where
  "pwm_lld_init d = (pwmObjectInit d)\<lparr>channels := 4\<rparr>"

definition ccer_bits :: "32 word \<Rightarrow> 32 word \<Rightarrow> 32 word \<Rightarrow> 32 word" where
  "ccer_bits mode p e =
     (if mode AND PWM_OUTPUT_MASK = PWM_OUTPUT_ACTIVE_LOW then p OR e
      else if mode AND PWM_OUTPUT_MASK = PWM_OUTPUT_ACTIVE_HIGH then e else 0)"

definition pwm_lld_start :: "PWMDriver \<Rightarrow> PWMDriver result" where
  "pwm_lld_start d =
     (let d = (if pwm_state d = PWM_STOP
               then d\<lparr>clock := STM32_TIMCLK1,
                      tim := tim_reset
                        \<lparr>CCMR1 := push_bit 4 6 OR push_bit 3 1 OR push_bit 12 6 OR push_bit 11 1,
                         CCMR2 := push_bit 4 6 OR push_bit 3 1 OR push_bit 12 6 OR push_bit 11 1\<rparr>\<rparr>
               else d\<lparr>tim := (tim d)\<lparr>CR1 := 0, CCR := (CCR (tim d))(0 := 0, 1 := 0, 2 := 0, 3 := 0),
                                     CNT := 0\<rparr>\<rparr>)
      in bindE (deref ''config'' (pwm_config d)) (\<lambda>c.
         if frequency c = 0 then Inl (Fault ''division by zero'') else
         let psc = clock d div frequency c - 1 in
         dbgAssert ''invalid frequency''
           (psc \<le> 65535 \<and> (psc + 1) * frequency c = clock d)
           (let m = (\<lambda>i. ch_mode (cfg_channels c ! i));
                ccer = ccer_bits (m 0) (push_bit 1 1) (push_bit 0 1)
                    OR ccer_bits (m 1) (push_bit 5 1) (push_bit 4 1)
                    OR ccer_bits (m 2) (push_bit 9 1) (push_bit 8 1)
                    OR ccer_bits (m 3) (push_bit 13 1) (push_bit 12 1)
            in Inr (d\<lparr>tim := (tim d)\<lparr>PSC := psc, ARR := period d - 1, CR2 := cfg_cr2 c,
                 CCER := ccer, EGR := 1, SR := write_SR (SR (tim d)) 0,
                 DIER := cfg_dier c AND NOT STM32_TIM_DIER_IRQ_MASK,
                 CR1 := push_bit 7 1 OR push_bit 2 1 OR push_bit 0 1\<rparr>\<rparr>))))"

definition pwm_lld_stop :: "PWMDriver \<Rightarrow> PWMDriver" where
  "pwm_lld_stop d = (if pwm_state d = PWM_READY
     then d\<lparr>tim := (tim d)\<lparr>CR1 := 0, DIER := 0, SR := write_SR (SR (tim d)) 0\<rparr>\<rparr> else d)"

definition pwm_lld_change_period :: "PWMDriver \<Rightarrow> 32 word \<Rightarrow> PWMDriver" where
  "pwm_lld_change_period d p = d\<lparr>tim := (tim d)\<lparr>ARR := p - 1\<rparr>\<rparr>"

definition pwm_lld_enable_channel :: "PWMDriver \<Rightarrow> nat \<Rightarrow> 32 word \<Rightarrow> PWMDriver" where
  "pwm_lld_enable_channel d ch width = d\<lparr>tim := (tim d)\<lparr>CCR := (CCR (tim d))(ch := width)\<rparr>\<rparr>"

definition pwm_lld_disable_channel :: "PWMDriver \<Rightarrow> nat \<Rightarrow> PWMDriver" where
  "pwm_lld_disable_channel d ch = d\<lparr>tim := (tim d)\<lparr>CCR := (CCR (tim d))(ch := 0),
     DIER := DIER (tim d) AND NOT (push_bit ch 2)\<rparr>\<rparr>"

definition pwm_lld_enable_periodic_notification :: "PWMDriver \<Rightarrow> PWMDriver" where
  "pwm_lld_enable_periodic_notification d =
     (let dier = DIER (tim d) in
      if dier AND STM32_TIM_DIER_UIE = 0
      then d\<lparr>tim := (tim d)\<lparr>SR := write_SR (SR (tim d)) (NOT 1), DIER := dier OR STM32_TIM_DIER_UIE\<rparr>\<rparr> else d)"

definition pwm_lld_disable_periodic_notification :: "PWMDriver \<Rightarrow> PWMDriver" where
  "pwm_lld_disable_periodic_notification d =
     d\<lparr>tim := (tim d)\<lparr>DIER := DIER (tim d) AND NOT STM32_TIM_DIER_UIE\<rparr>\<rparr>"

definition pwm_lld_enable_channel_notification :: "PWMDriver \<Rightarrow> nat \<Rightarrow> PWMDriver" where
  "pwm_lld_enable_channel_notification d ch =
     (let dier = DIER (tim d) in
      if dier AND push_bit ch 2 = 0
      then d\<lparr>tim := (tim d)\<lparr>SR := write_SR (SR (tim d)) (NOT (push_bit ch 2)), DIER := dier OR push_bit ch 2\<rparr>\<rparr> else d)"

definition pwm_lld_disable_channel_notification :: "PWMDriver \<Rightarrow> nat \<Rightarrow> PWMDriver" where
  "pwm_lld_disable_channel_notification d ch =
     d\<lparr>tim := (tim d)\<lparr>DIER := DIER (tim d) AND NOT (push_bit ch 2)\<rparr>\<rparr>"

text \<open>The interrupt handler, with the callbacks it calls in order.\<close>

definition pwm_lld_serve_interrupt :: "PWMDriver \<Rightarrow> (PWMDriver \<times> nat list) result" where
  "pwm_lld_serve_interrupt d =
     (let sr = SR (tim d) AND (DIER (tim d) AND STM32_TIM_DIER_IRQ_MASK);
          d' = d\<lparr>tim := (tim d)\<lparr>SR := write_SR (SR (tim d)) (NOT sr)\<rparr>\<rparr>
      in if sr AND 31 = 0 then Inr (d', []) else
         bindE (deref ''config'' (pwm_config d)) (\<lambda>c.
           let call = (\<lambda>b cb. if bit sr b then (case cb of None \<Rightarrow> [] | Some f \<Rightarrow> [f]) else [])
           in Inr (d', call 1 (ch_callback (cfg_channels c ! 0)) @
                       call 2 (ch_callback (cfg_channels c ! 1)) @
                       call 3 (ch_callback (cfg_channels c ! 2)) @
                       call 4 (ch_callback (cfg_channels c ! 3)) @ call 0 (cfg_callback c))))"

section \<open>Driver\<close>

definition PWM_FRACTION_TO_WIDTH :: "PWMDriver \<Rightarrow> 32 word \<Rightarrow> 32 word \<Rightarrow> 32 word" where
  "PWM_FRACTION_TO_WIDTH d denominator numerator = (period d * numerator) div denominator"

text \<open>The argument is an \<^verbatim>\<open>int\<close>, converted to \<^verbatim>\<open>pwmcnt_t\<close>.\<close>

definition PWM_PERCENTAGE_TO_WIDTH :: "PWMDriver \<Rightarrow> int \<Rightarrow> 32 word" where
  "PWM_PERCENTAGE_TO_WIDTH d percentage = PWM_FRACTION_TO_WIDTH d 10000 (word_of_int percentage)"

definition pwmStart :: "PWMDriver \<Rightarrow> PWMConfig \<Rightarrow> PWMDriver result" where
  "pwmStart d config =
     dbgAssert ''invalid state'' (pwm_state d = PWM_STOP \<or> pwm_state d = PWM_READY)
       (bindE (pwm_lld_start (d\<lparr>pwm_config := Some config, period := cfg_period config\<rparr>)) (\<lambda>d.
          Inr (d\<lparr>enabled := 0, pwm_state := PWM_READY\<rparr>)))"

definition pwmStop :: "PWMDriver \<Rightarrow> PWMDriver result" where
  "pwmStop d =
     dbgAssert ''invalid state'' (pwm_state d = PWM_STOP \<or> pwm_state d = PWM_READY)
       (Inr ((pwm_lld_stop d)\<lparr>enabled := 0, pwm_config := None, pwm_state := PWM_STOP\<rparr>))"

definition pwmChangePeriodI :: "PWMDriver \<Rightarrow> 32 word \<Rightarrow> PWMDriver" where
  "pwmChangePeriodI d v = pwm_lld_change_period (d\<lparr>period := v\<rparr>) v"

definition pwmChangePeriod :: "PWMDriver \<Rightarrow> 32 word \<Rightarrow> PWMDriver result" where
  "pwmChangePeriod d v =
     dbgAssert ''invalid state'' (pwm_state d = PWM_READY) (Inr (pwmChangePeriodI d v))"

definition pwmEnableChannelI :: "PWMDriver \<Rightarrow> nat \<Rightarrow> 32 word \<Rightarrow> PWMDriver" where
  "pwmEnableChannelI d ch width =
     pwm_lld_enable_channel (d\<lparr>enabled := enabled d OR push_bit ch 1\<rparr>) ch width"

definition pwmEnableChannel :: "PWMDriver \<Rightarrow> nat \<Rightarrow> 32 word \<Rightarrow> PWMDriver result" where
  "pwmEnableChannel d ch width =
     dbgCheck ''pwmEnableChannel'' (ch < channels d)
       (dbgAssert ''not ready'' (pwm_state d = PWM_READY) (Inr (pwmEnableChannelI d ch width)))"

definition pwmDisableChannelI :: "PWMDriver \<Rightarrow> nat \<Rightarrow> PWMDriver" where
  "pwmDisableChannelI d ch =
     pwm_lld_disable_channel (d\<lparr>enabled := enabled d AND NOT (push_bit ch 1)\<rparr>) ch"

definition pwmDisableChannel :: "PWMDriver \<Rightarrow> nat \<Rightarrow> PWMDriver result" where
  "pwmDisableChannel d ch =
     dbgCheck ''pwmDisableChannel'' (ch < channels d)
       (dbgAssert ''not ready'' (pwm_state d = PWM_READY) (Inr (pwmDisableChannelI d ch)))"

definition pwmIsChannelEnabledI :: "PWMDriver \<Rightarrow> nat \<Rightarrow> bool" where
  "pwmIsChannelEnabledI d ch = (enabled d AND push_bit ch 1 \<noteq> 0)"

definition pwmEnablePeriodicNotification :: "PWMDriver \<Rightarrow> PWMDriver result" where
  "pwmEnablePeriodicNotification d =
     dbgAssert ''not ready'' (pwm_state d = PWM_READY)
       (bindE (deref ''config'' (pwm_config d)) (\<lambda>c.
          dbgAssert ''undefined periodic callback'' (cfg_callback c \<noteq> None)
            (Inr (pwm_lld_enable_periodic_notification d))))"

definition pwmDisablePeriodicNotification :: "PWMDriver \<Rightarrow> PWMDriver result" where
  "pwmDisablePeriodicNotification d =
     dbgAssert ''not ready'' (pwm_state d = PWM_READY)
       (bindE (deref ''config'' (pwm_config d)) (\<lambda>c.
          dbgAssert ''undefined periodic callback'' (cfg_callback c \<noteq> None)
            (Inr (pwm_lld_disable_periodic_notification d))))"

definition pwmEnableChannelNotification :: "PWMDriver \<Rightarrow> nat \<Rightarrow> PWMDriver result" where
  "pwmEnableChannelNotification d ch =
     dbgCheck ''pwmEnableChannelNotification'' (ch < channels d)
       (dbgAssert ''not ready'' (pwm_state d = PWM_READY)
         (dbgAssert ''channel not enabled'' (enabled d AND push_bit ch 1 \<noteq> 0)
           (bindE (deref ''config'' (pwm_config d)) (\<lambda>c.
              dbgAssert ''undefined channel callback'' (ch_callback (cfg_channels c ! ch) \<noteq> None)
                (Inr (pwm_lld_enable_channel_notification d ch))))))"

definition pwmDisableChannelNotification :: "PWMDriver \<Rightarrow> nat \<Rightarrow> PWMDriver result" where
  "pwmDisableChannelNotification d ch =
     dbgCheck ''pwmDisableChannelNotification'' (ch < channels d)
       (dbgAssert ''not ready'' (pwm_state d = PWM_READY)
         (dbgAssert ''channel not enabled'' (enabled d AND push_bit ch 1 \<noteq> 0)
           (bindE (deref ''config'' (pwm_config d)) (\<lambda>c.
              dbgAssert ''undefined channel callback'' (ch_callback (cfg_channels c ! ch) \<noteq> None)
                (Inr (pwm_lld_disable_channel_notification d ch))))))"

section \<open>Invariant of the driver\<close>

datatype pwm_op =
    PwmStart PWMConfig
  | PwmStop
  | PwmChangePeriod "32 word"
  | PwmEnableChannel nat "32 word"
  | PwmDisableChannel nat
  | PwmEnablePeriodic
  | PwmDisablePeriodic
  | PwmEnableNotification nat
  | PwmDisableNotification nat

fun pwm_step :: "pwm_op \<Rightarrow> PWMDriver \<Rightarrow> PWMDriver result" where
  "pwm_step (PwmStart c) d = pwmStart d c"
| "pwm_step PwmStop d = pwmStop d"
| "pwm_step (PwmChangePeriod v) d = pwmChangePeriod d v"
| "pwm_step (PwmEnableChannel ch w) d = pwmEnableChannel d ch w"
| "pwm_step (PwmDisableChannel ch) d = pwmDisableChannel d ch"
| "pwm_step PwmEnablePeriodic d = pwmEnablePeriodicNotification d"
| "pwm_step PwmDisablePeriodic d = pwmDisablePeriodicNotification d"
| "pwm_step (PwmEnableNotification ch) d = pwmEnableChannelNotification d ch"
| "pwm_step (PwmDisableNotification ch) d = pwmDisableChannelNotification d ch"

text \<open>
  A ready driver has a configuration, its prescaler divides the timer clock to exactly the
  configured frequency and its reload register is the period less one; a stopped driver has none
  and no enabled channel; only channels the timer has are enabled.
\<close>

definition pwm_inv :: "PWMDriver \<Rightarrow> bool" where
  "pwm_inv d \<longleftrightarrow>
     channels d = 4 \<and> pwm_state d \<noteq> PWM_UNINIT \<and>
     (\<forall>n. bit (enabled d) n \<longrightarrow> n < 4) \<and>
     (pwm_state d = PWM_STOP \<longrightarrow> pwm_config d = None \<and> enabled d = 0) \<and>
     (pwm_state d = PWM_READY \<longrightarrow>
        (\<exists>c. pwm_config d = Some c \<and> clock d = STM32_TIMCLK1 \<and>
          (PSC (tim d) + 1) * frequency c = clock d \<and> ARR (tim d) = period d - 1))"

lemma pwm_inv_init: "pwm_inv (pwm_lld_init d)"
  by (simp add: pwm_inv_def pwm_lld_init_def pwmObjectInit_def)

lemmas pwm_op_defs = pwmStart_def pwmStop_def pwmChangePeriod_def pwmChangePeriodI_def
  pwmEnableChannel_def pwmEnableChannelI_def pwmDisableChannel_def pwmDisableChannelI_def
  pwmEnablePeriodicNotification_def pwmDisablePeriodicNotification_def
  pwmEnableChannelNotification_def pwmDisableChannelNotification_def
  pwm_lld_stop_def pwm_lld_change_period_def pwm_lld_enable_channel_def
  pwm_lld_disable_channel_def pwm_lld_enable_periodic_notification_def
  pwm_lld_disable_periodic_notification_def pwm_lld_enable_channel_notification_def
  pwm_lld_disable_channel_notification_def

lemma pwmStart_inv:
  assumes "pwm_inv d" "pwmStart d c = Inr d'"
  shows "pwm_inv d'"
  using assms
  by (auto simp: pwmStart_def pwm_lld_start_def pwm_inv_def Let_def res_simps split: if_splits)

lemma pwm_step_inv: "pwm_inv d \<Longrightarrow> pwm_step e d = Inr d' \<Longrightarrow> pwm_inv d'"
proof (cases e)
  case (PwmStart c)
  then show "pwm_inv d \<Longrightarrow> pwm_step e d = Inr d' \<Longrightarrow> pwm_inv d'" by (simp add: pwmStart_inv)
qed (auto simp: pwm_op_defs pwm_inv_def res_simps Let_def bit_simps split: if_splits)

interpretation pwmk: keeps pwm_step pwm_inv
  by unfold_locales (rule pwm_step_inv)

section \<open>Pulse widths\<close>

lemma unat_PWM_PERCENTAGE_TO_WIDTH:
  assumes "0 \<le> p" "unat (period d) * nat p < 2 ^ 32"
  shows "unat (PWM_PERCENTAGE_TO_WIDTH d p) = unat (period d) * nat p div 10000"
proof (cases "period d = 0")
  case True
  then show ?thesis by (simp add: PWM_PERCENTAGE_TO_WIDTH_def PWM_FRACTION_TO_WIDTH_def)
next
  case False
  then have "1 \<le> unat (period d)" by (simp add: unat_gt_0 Suc_leI)
  with assms(2) have "nat p < 2 ^ 32" by (metis le_less_trans mult.commute mult_le_mono2 nat_mult_1_right)
  with assms(1) have "unat (word_of_int p :: 32 word) = nat p"
    by (simp add: unat_eq_nat_uint uint_word_of_int nat_less_iff)
  with assms(2) show ?thesis
    by (simp add: PWM_PERCENTAGE_TO_WIDTH_def PWM_FRACTION_TO_WIDTH_def unat_div
        unat_mult_lem [THEN iffD1])
qed

end
