(* ===== verification/Comm.thy ===== *)
theory Comm
  imports CLib Pal Pwm
begin

text \<open>
  The communication thread of the application: \<^verbatim>\<open>src/src/source/communicationThread.c\<close> with the
  vocabulary of \<^verbatim>\<open>src/src/source/protocol.h\<close>. The static buffers, the ports, the two PWM drivers and
  the sample array that its functions reach are the record \<open>app\<close>; \<open>sent\<close> is the list of
  messages handed to \<^verbatim>\<open>chnWrite\<close>, oldest first. Pointers into \<^verbatim>\<open>readBuffer\<close> are indices.
\<close>

section \<open>protocol.h\<close>

definition DELIMITER :: string where "DELIMITER = ''|''"
definition MSG_END :: string where "MSG_END = '';''"
definition SET :: string where "SET = ''set''"
definition GET :: string where "GET = ''get''"
definition STATUS_DELIMITER :: string where "STATUS_DELIMITER = '':''"
definition ACK :: string where "ACK = ''ACK''"
definition NACK :: string where "NACK = ''NACK''"

definition CLAMP_SET :: string where "CLAMP_SET = ''clamp_set''"
definition COMPRESSOR :: string where "COMPRESSOR = ''compressor''"
definition EBS_RELIEF :: string where "EBS_RELIEF = ''ebs_relief''"
definition EBS_SPEAKER :: string where "EBS_SPEAKER = ''ebs_speaker''"
definition FINISHED :: string where "FINISHED = ''finished''"
definition HEART_BEAT :: string where "HEART_BEAT = ''heart_beat''"
definition SERVICE_BREAK :: string where "SERVICE_BREAK = ''service_break''"
definition SHUTDOWN :: string where "SHUTDOWN = ''shutdown''"
definition RACK_LEFT :: string where "RACK_LEFT = ''rack_left''"
definition RACK_RIGHT :: string where "RACK_RIGHT = ''rack_right''"
definition REDUNDENCY :: string where "REDUNDENCY = ''redundency''"
definition SPARE :: string where "SPARE = ''spare''"
definition STEER_SPEED :: string where "STEER_SPEED = ''steer_speed''"
definition BRAKE_PRESSURE :: string where "BRAKE_PRESSURE = ''brake_pressure''"
definition ASSI_BLUE :: string where "ASSI_BLUE = ''assi_blue''"
definition ASSI_RED :: string where "ASSI_RED = ''assi_red''"
definition ASSI_GREEN :: string where "ASSI_GREEN = ''assi_green''"

lemmas protocol_defs = DELIMITER_def MSG_END_def SET_def GET_def STATUS_DELIMITER_def ACK_def
  NACK_def CLAMP_SET_def COMPRESSOR_def EBS_RELIEF_def EBS_SPEAKER_def FINISHED_def
  HEART_BEAT_def SERVICE_BREAK_def SHUTDOWN_def RACK_LEFT_def RACK_RIGHT_def REDUNDENCY_def
  SPARE_def STEER_SPEED_def BRAKE_PRESSURE_def ASSI_BLUE_def ASSI_RED_def ASSI_GREEN_def

section \<open>State\<close>

record app =
  readBuffer :: carray
  writeBuffer :: carray
  ports :: gpio
  PWMD3 :: PWMDriver
  PWMD4 :: PWMDriver
  samples :: "16 word list"
  sent :: "string list"

section \<open>Commands\<close>

text \<open>The write of a line and the setting of a PWM channel, as the branches of the chain do them.\<close>

definition set_line :: "app \<Rightarrow> ioline \<Rightarrow> 32 word \<Rightarrow> (int \<times> app) result" where
  "set_line a line b = Inr (0, a\<lparr>ports := palWriteLine (ports a) line b\<rparr>)"

definition set_pwm3 :: "app \<Rightarrow> nat \<Rightarrow> int \<Rightarrow> (int \<times> app) result" where
  "set_pwm3 a ch v =
     bindE (pwmEnableChannel (PWMD3 a) ch (PWM_PERCENTAGE_TO_WIDTH (PWMD3 a) v)) (\<lambda>d.
       Inr (0, a\<lparr>PWMD3 := d\<rparr>))"

definition set_pwm4 :: "app \<Rightarrow> nat \<Rightarrow> int \<Rightarrow> (int \<times> app) result" where
  "set_pwm4 a ch v =
     bindE (pwmEnableChannel (PWMD4 a) ch (PWM_PERCENTAGE_TO_WIDTH (PWMD4 a) v)) (\<lambda>d.
       Inr (0, a\<lparr>PWMD4 := d\<rparr>))"

definition process_sensor :: "app \<Rightarrow> string \<Rightarrow> int \<Rightarrow> (int \<times> app) result" where
  "process_sensor a sensor intValue =
     (let bitValue = (if intValue = 0 then PAL_LOW else PAL_HIGH) in
      if strstr sensor HEART_BEAT then set_line a LINE_HEART_BEAT bitValue
      else if strstr sensor RACK_RIGHT then set_line a LINE_RACK_RIGHT bitValue
      else if strstr sensor RACK_LEFT then set_line a LINE_RACK_LEFT bitValue
      else if strstr sensor SERVICE_BREAK then set_line a LINE_SERVICE_BREAK bitValue
      else if strstr sensor REDUNDENCY then set_line a LINE_REDUNDENCY bitValue
      else if strstr sensor SHUTDOWN then set_line a LINE_SHUTDOWN bitValue
      else if strstr sensor SPARE then set_line a LINE_SPARE bitValue
      else if strstr sensor CLAMP_SET then set_line a LINE_CLAMP_SET bitValue
      else if strstr sensor COMPRESSOR then set_line a LINE_COMPRESSOR bitValue
      else if strstr sensor EBS_RELIEF then set_line a LINE_EBS_RELIEF bitValue
      else if strstr sensor EBS_SPEAKER then set_line a LINE_EBS_SPEAKER bitValue
      else if strstr sensor FINISHED then set_line a LINE_FINISHED bitValue
      else if strstr sensor STEER_SPEED then set_pwm3 a 2 intValue
      else if strstr sensor BRAKE_PRESSURE then set_pwm3 a 3 intValue
      else if strstr sensor ASSI_BLUE then set_pwm4 a 1 intValue
      else if strstr sensor ASSI_RED then set_pwm3 a 1 intValue
      else if strstr sensor ASSI_GREEN then set_pwm4 a 0 intValue
      else Inr (-1, a))"

definition processCommand :: "app \<Rightarrow> nat option \<Rightarrow> nat option \<Rightarrow> (int \<times> app) result" where
  "processCommand a sensor val =
     bindE (deref ''value'' val) (\<lambda>v.
     bindE (cstr (readBuffer a) v) (\<lambda>vs.
     bindE (atoi vs) (\<lambda>intValue.
     bindE (deref ''sensor'' sensor) (\<lambda>s.
     bindE (cstr (readBuffer a) s) (\<lambda>sn. process_sensor a sn intValue)))))"

section \<open>Status\<close>

text \<open>
  The mean of the four samples of a channel: the 16 bit samples are promoted to \<^verbatim>\<open>int\<close>, added,
  converted to \<^verbatim>\<open>uint32_t\<close> and divided. Channel \<open>k\<close> is sampled at \<open>k\<close>, \<open>k + 6\<close>,
  \<open>k + 12\<close> and \<open>k + 18\<close>.
\<close>

definition sample_mean :: "16 word list \<Rightarrow> nat \<Rightarrow> 32 word" where
  "sample_mean ss k = word_of_int (uint (ss ! k) + uint (ss ! (k + 6)) + uint (ss ! (k + 12))
     + uint (ss ! (k + 18))) div 4"

definition status_text :: "16 word list \<Rightarrow> gpio \<Rightarrow> string" where
  "status_text ss g =
     (let num = (\<lambda>k. dec (sint (sample_mean ss k)));
          inp = (\<lambda>line. dec (uint (palReadLine g line)))
      in ''get|status|ACK''
         @ ''|ebs_line|'' @ num 0 @ ''|ebs_actuator|'' @ num 1 @ ''|pressure_rag|'' @ num 2
         @ ''|service_tank|'' @ num 3 @ ''|position_rack|'' @ num 4 @ ''|steer_pos|'' @ num 5
         @ ''|asms|'' @ inp LINE_ASMS_READ @ ''|clamped_sensor|'' @ inp LINE_CLAMPED_SENS_READ
         @ ''|ebs_ok|'' @ inp LINE_EBS_OK_READ)"

definition processStatus :: "app \<Rightarrow> (nat \<times> app) result" where
  "processStatus a =
     (if length (samples a) < 24 then Inl (Fault ''samples'') else
      bindE (sprintf (writeBuffer a) (status_text (samples a) (ports a))) (\<lambda>(wb, n).
        Inr (n, a\<lparr>writeBuffer := wb\<rparr>)))"

section \<open>Requests\<close>

definition sendMessage :: "app \<Rightarrow> nat \<Rightarrow> app result" where
  "sendMessage a sz =
     bindE (cstr (writeBuffer a) 0) (\<lambda>msg.
     bindE (sprintf (replicate 256 NUL) (dec (int sz) @ '':'' @ msg @ '';'')) (\<lambda>(temp, n).
       Inr (a\<lparr>sent := sent a @ [take n temp]\<rparr>)))"

definition decodeNetstring :: "app \<Rightarrow> nat option \<Rightarrow> app result" where
  "decodeNetstring a msg =
     bindE (strtok_r (readBuffer a) msg DELIMITER msg) (\<lambda>(command, rb, save).
     bindE (strtok_r rb None DELIMITER save) (\<lambda>(sensor, rb, save).
     bindE (strtok_r rb None DELIMITER save) (\<lambda>(val, rb, save).
     let a = a\<lparr>readBuffer := rb\<rparr> in
     bindE (deref ''command'' command) (\<lambda>c.
     bindE (cstr rb c) (\<lambda>cmd.
     bindE (if strstr cmd SET then
              bindE (processCommand a sensor val) (\<lambda>(result, a).
              bindE (deref ''sensor'' sensor) (\<lambda>s.
              bindE (cstr rb s) (\<lambda>sn.
              bindE (deref ''value'' val) (\<lambda>v.
              bindE (cstr rb v) (\<lambda>vs.
              bindE (sprintf (writeBuffer a) (cmd @ ''|'' @ sn @ ''|'' @ vs @ ''|'' @
                       (if result = 0 then ACK else NACK))) (\<lambda>(wb, n).
                Inr (n, a\<lparr>writeBuffer := wb\<rparr>)))))))
            else if strstr cmd GET then processStatus a
            else Inr (0, a)) (\<lambda>(msgLength, a).
       sendMessage a msgLength))))))"

definition decodeMessage :: "app \<Rightarrow> nat \<Rightarrow> app result" where
  "decodeMessage a sz =
     bindE (strtok_r (readBuffer a) (Some 0) STATUS_DELIMITER (Some 0)) (\<lambda>(msg_length_ptr, rb, save).
     bindE (strtok_r rb None MSG_END save) (\<lambda>(msg_ptr, rb, save).
     let a = a\<lparr>readBuffer := rb\<rparr> in
     bindE (deref ''msg_length_ptr'' msg_length_ptr) (\<lambda>l.
     bindE (cstr rb l) (\<lambda>ls.
     bindE (atoi ls) (\<lambda>msg_length.
       if msg_length \<noteq> -1 \<and> msg_length < int sz then decodeNetstring a msg_ptr
       else Inr a)))))"

text \<open>
  One turn of the loop of \<^verbatim>\<open>communicationThrFunction\<close>: \<open>bs\<close> are the bytes
  \<^verbatim>\<open>chnReadTimeout\<close> stored, at most as many as the buffer holds.
\<close>

definition communicationThr_step :: "string \<Rightarrow> app \<Rightarrow> app result" where
  "communicationThr_step bs a =
     (if length (readBuffer a) < length bs then Inl (Fault ''readBuffer'') else
      let a = a\<lparr>readBuffer := bs @ drop (length bs) (readBuffer a)\<rparr> in
      if 3 < length bs then
        bindE (decodeMessage a (length bs)) (\<lambda>a.
          Inr (a\<lparr>readBuffer := memset0 (readBuffer a), writeBuffer := memset0 (writeBuffer a)\<rparr>))
      else Inr a)"

end
