(* ===== verification/CommProps.thy ===== *)
theory CommProps
  imports Comm
begin

text \<open>
  What the communication thread promises: which request does what to the outputs, that a reply is
  a netstring whose length field is right, that no reply overruns a buffer, that every request
  leaves the buffers clean, and what malformed input does.
\<close>

section \<open>Netstrings and the state of the loop\<close>

definition netstring :: "string \<Rightarrow> string" where
  "netstring p = dec_nat (length p) @ '':'' @ p @ '';''"

text \<open>Between two reads the write buffer is zero and so is the read buffer from index 3 on.\<close>

definition comm_inv :: "app \<Rightarrow> bool" where
  "comm_inv a \<longleftrightarrow>
     length (readBuffer a) = 128 \<and> drop 3 (readBuffer a) = replicate 125 NUL \<and>
     writeBuffer a = replicate 256 NUL \<and> length (samples a) = 24 \<and>
     pwm_inv (PWMD3 a) \<and> pwm_inv (PWMD4 a) \<and>
     pwm_state (PWMD3 a) = PWM_READY \<and> pwm_state (PWMD4 a) = PWM_READY"

section \<open>Sending\<close>

lemma length_dec_nat_3: "n < 1000 \<Longrightarrow> length (dec_nat n) \<le> 3"
  using length_dec_nat_le [of n 3] by simp

lemma sendMessage_text:
  assumes "writeBuffer a = txt @ NUL # rest" "NUL \<notin> set txt" "length txt \<le> 250"
  shows "sendMessage a (length txt) = Inr (a\<lparr>sent := sent a @ [netstring txt]\<rparr>)"
proof -
  have "length (netstring txt) < 256"
    using length_dec_nat_3 [of "length txt"] assms(3) by (simp add: netstring_def)
  moreover have "dec (int (length txt)) @ '':'' @ txt @ '';'' = netstring txt"
    by (simp add: netstring_def)
  ultimately show ?thesis
    using assms by (simp add: sendMessage_def cstr_0 sprintf_ok)
qed

lemma sendMessage_no_overflow:
  assumes "cstr (writeBuffer a) 0 = Inr txt" "length txt \<le> 250" "n < 1000"
  shows "sendMessage a n = Inr (a\<lparr>sent := sent a @ [dec_nat n @ '':'' @ txt @ '';'']\<rparr>)"
proof -
  have "length (dec_nat n @ '':'' @ txt @ '';'') < 256"
    using length_dec_nat_3 [of n] assms(2,3) by simp
  then have "sprintf (replicate 256 NUL) (dec_nat n @ '':'' @ txt @ '';'') =
      Inr ((dec_nat n @ '':'' @ txt @ '';'') @ NUL #
        drop (Suc (length (dec_nat n @ '':'' @ txt @ '';''))) (replicate 256 NUL),
        length (dec_nat n @ '':'' @ txt @ '';''))"
    by (intro sprintf_ok) simp
  then show ?thesis
    using assms(1) by (simp add: sendMessage_def)
qed

section \<open>process_sensor\<close>

lemma if_both: "P x \<Longrightarrow> P y \<Longrightarrow> P (if c then x else y)"
  by simp

text \<open>A property of every branch of the chain is a property of the chain.\<close>

lemma process_sensor_branches:
  assumes "\<And>l b. P (set_line a l b)" "\<And>ch. ch < 4 \<Longrightarrow> P (set_pwm3 a ch v)"
    "\<And>ch. ch < 4 \<Longrightarrow> P (set_pwm4 a ch v)" "P (Inr (-1, a))"
  shows "P (process_sensor a sn v)"
  unfolding process_sensor_def Let_def
  by (intro if_both [where P = P] assms) simp_all

lemma set_line_readBuffer:
  "set_line (a\<lparr>readBuffer := rb\<rparr>) l b =
     bindE (set_line a l b) (\<lambda>(r, a'). Inr (r, a'\<lparr>readBuffer := rb\<rparr>))"
  by (simp add: set_line_def)

lemma set_pwm_readBuffer:
  "set_pwm3 (a\<lparr>readBuffer := rb\<rparr>) ch v =
     bindE (set_pwm3 a ch v) (\<lambda>(r, a'). Inr (r, a'\<lparr>readBuffer := rb\<rparr>))"
  "set_pwm4 (a\<lparr>readBuffer := rb\<rparr>) ch v =
     bindE (set_pwm4 a ch v) (\<lambda>(r, a'). Inr (r, a'\<lparr>readBuffer := rb\<rparr>))"
  by (cases "pwmEnableChannel (PWMD3 a) ch (PWM_PERCENTAGE_TO_WIDTH (PWMD3 a) v)",
      simp_all add: set_pwm3_def)
    (cases "pwmEnableChannel (PWMD4 a) ch (PWM_PERCENTAGE_TO_WIDTH (PWMD4 a) v)",
      simp_all add: set_pwm4_def)

lemma process_sensor_readBuffer:
  "process_sensor (a\<lparr>readBuffer := rb\<rparr>) sn v =
     bindE (process_sensor a sn v) (\<lambda>(r, a'). Inr (r, a'\<lparr>readBuffer := rb\<rparr>))"
  unfolding process_sensor_def Let_def set_line_readBuffer set_pwm_readBuffer
    if_distrib [where f = "\<lambda>r. bindE r (\<lambda>(r, a'). Inr (r, a'\<lparr>readBuffer := rb\<rparr>))"]
  by simp

lemma process_sensor_frame:
  assumes "process_sensor a sn v = Inr (r, a')"
  shows "readBuffer a' = readBuffer a \<and> writeBuffer a' = writeBuffer a \<and> sent a' = sent a \<and>
    samples a' = samples a"
proof -
  let ?P = "\<lambda>res. \<forall>r a'. res = Inr (r, a') \<longrightarrow> readBuffer a' = readBuffer a \<and>
    writeBuffer a' = writeBuffer a \<and> sent a' = sent a \<and> samples a' = samples a"
  have "?P (process_sensor a sn v)"
    by (rule process_sensor_branches [where P = ?P])
      (auto simp: set_line_def set_pwm3_def set_pwm4_def res_simps)
  with assms show ?thesis by blast
qed

lemma pwmEnableChannel_ready:
  assumes "pwm_inv d" "pwm_state d = PWM_READY" "ch < 4"
  shows "\<exists>d'. pwmEnableChannel d ch w = Inr d' \<and> pwm_inv d' \<and> pwm_state d' = PWM_READY"
proof -
  have e: "pwmEnableChannel d ch w = Inr (pwmEnableChannelI d ch w)"
    using assms by (simp add: pwmEnableChannel_def pwm_inv_def)
  then have "pwm_inv (pwmEnableChannelI d ch w)"
    using pwm_step_inv [of d "PwmEnableChannel ch w"] assms(1) by simp
  with e assms(2) show ?thesis
    by (simp add: pwmEnableChannelI_def pwm_lld_enable_channel_def)
qed

lemma set_pwm3_ok:
  assumes "comm_inv a" "ch < 4"
  shows "\<exists>d. set_pwm3 a ch v = Inr (0, a\<lparr>PWMD3 := d\<rparr>) \<and> comm_inv (a\<lparr>PWMD3 := d\<rparr>)"
  using assms pwmEnableChannel_ready [of "PWMD3 a" ch "PWM_PERCENTAGE_TO_WIDTH (PWMD3 a) v"]
  by (auto simp: set_pwm3_def comm_inv_def)

lemma set_pwm4_ok:
  assumes "comm_inv a" "ch < 4"
  shows "\<exists>d. set_pwm4 a ch v = Inr (0, a\<lparr>PWMD4 := d\<rparr>) \<and> comm_inv (a\<lparr>PWMD4 := d\<rparr>)"
  using assms pwmEnableChannel_ready [of "PWMD4 a" ch "PWM_PERCENTAGE_TO_WIDTH (PWMD4 a) v"]
  by (auto simp: set_pwm4_def comm_inv_def)

lemma set_line_ok:
  "comm_inv a \<Longrightarrow> \<exists>g. set_line a l b = Inr (0, a\<lparr>ports := g\<rparr>) \<and> comm_inv (a\<lparr>ports := g\<rparr>)"
  by (auto simp: set_line_def comm_inv_def)

lemma process_sensor_total:
  assumes "comm_inv a"
  shows "\<exists>r a'. process_sensor a sn v = Inr (r, a') \<and> comm_inv a'"
  by (rule process_sensor_branches [where P = "\<lambda>res. \<exists>r a'. res = Inr (r, a') \<and> comm_inv a'"])
    (use assms set_line_ok set_pwm3_ok set_pwm4_ok in fastforce)+

section \<open>Taking a request apart\<close>

abbreviation plain :: "string \<Rightarrow> bool" where
  "plain s \<equiv> NUL \<notin> set s \<and> CHR ''|'' \<notin> set s"

lemma decodeMessage_netstring:
  assumes p: "p \<noteq> []" "NUL \<notin> set p" "CHR '';'' \<notin> set p" "int (length p) \<le> INT_MAX"
    and sz: "length p < sz"
    and rb: "readBuffer a = netstring p @ rest"
  shows "decodeMessage a sz =
    decodeNetstring (a\<lparr>readBuffer := dec_nat (length p) @ NUL # p @ NUL # rest\<rparr>)
      (Some (Suc (length (dec_nat (length p)))))"
proof -
  let ?d = "dec_nat (length p)"
  have d: "?d \<noteq> []" "NUL \<notin> set ?d" "CHR '':'' \<notin> set ?d"
    by (simp_all add: dec_nat_notin)
  have 1: "strtok_r (?d @ CHR '':'' # p @ CHR '';'' # rest) (Some 0) '':'' (Some 0) =
      Inr (Some 0, ?d @ NUL # p @ CHR '';'' # rest, Some (Suc (length ?d)))"
    using strtok_r_step [of ?d "'':''" "CHR '':''" "Some 0" "Some 0" "[]"] d by simp
  have 2: "strtok_r (?d @ NUL # p @ CHR '';'' # rest) None '';'' (Some (Suc (length ?d))) =
      Inr (Some (Suc (length ?d)), ?d @ NUL # p @ NUL # rest,
        Some (Suc (Suc (length ?d) + length p)))"
    using strtok_r_step [of p "'';''" "CHR '';''" "Some (Suc (length ?d))" None "?d @ [NUL]"] p
    by simp
  show ?thesis
    using p sz rb d
    by (simp add: decodeMessage_def protocol_defs netstring_def 1 2 cstr_0 atoi_dec_nat)
qed

lemma decodeNetstring_tokens:
  assumes t: "cmd \<noteq> []" "sn \<noteq> []" "vs \<noteq> []" "plain cmd" "plain sn" "plain vs"
    and rb: "readBuffer a = pre @ cmd @ CHR ''|'' # sn @ CHR ''|'' # vs @ NUL # rest"
    and rb': "rb' = pre @ cmd @ NUL # sn @ NUL # vs @ NUL # rest"
    and ps: "pc = length pre" "pn = Suc (length pre + length cmd)"
      "pv = Suc (Suc (length pre + length cmd + length sn))"
  shows "strtok_r (readBuffer a) (Some pc) DELIMITER (Some pc) =
      Inr (Some pc, pre @ cmd @ NUL # sn @ CHR ''|'' # vs @ NUL # rest, Some pn)"
    "strtok_r (pre @ cmd @ NUL # sn @ CHR ''|'' # vs @ NUL # rest) None DELIMITER (Some pn) =
      Inr (Some pn, pre @ cmd @ NUL # sn @ NUL # vs @ NUL # rest, Some pv)"
    "strtok_r (pre @ cmd @ NUL # sn @ NUL # vs @ NUL # rest) None DELIMITER (Some pv) =
      Inr (Some pv, rb', None)"
    "cstr rb' pc = Inr cmd" "cstr rb' pn = Inr sn" "cstr rb' pv = Inr vs"
proof -
  show "strtok_r (readBuffer a) (Some pc) DELIMITER (Some pc) =
      Inr (Some pc, pre @ cmd @ NUL # sn @ CHR ''|'' # vs @ NUL # rest, Some pn)"
    using strtok_r_step [of cmd "''|''" "CHR ''|''" "Some pc" "Some pc" pre] t
    by (simp add: rb ps DELIMITER_def)
  show "strtok_r (pre @ cmd @ NUL # sn @ CHR ''|'' # vs @ NUL # rest) None DELIMITER (Some pn) =
      Inr (Some pn, pre @ cmd @ NUL # sn @ NUL # vs @ NUL # rest, Some pv)"
    using strtok_r_step [of sn "''|''" "CHR ''|''" "Some pn" None "pre @ cmd @ [NUL]"] t
    by (simp add: ps DELIMITER_def)
  show "strtok_r (pre @ cmd @ NUL # sn @ NUL # vs @ NUL # rest) None DELIMITER (Some pv) =
      Inr (Some pv, rb', None)"
    using strtok_r_last [of vs "''|''" "Some pv" None "pre @ cmd @ NUL # sn @ [NUL]"] t
    by (simp add: ps rb' DELIMITER_def)
  show "cstr rb' pc = Inr cmd" "cstr rb' pn = Inr sn" "cstr rb' pv = Inr vs"
    using t cstr_at [of cmd pre] cstr_at [of sn "pre @ cmd @ [NUL]"]
      cstr_at [of vs "pre @ cmd @ NUL # sn @ [NUL]"]
    by (simp_all add: rb' ps add.assoc)
qed

text \<open>The reply to a set request.\<close>

definition set_reply :: "string \<Rightarrow> string \<Rightarrow> string \<Rightarrow> int \<Rightarrow> string" where
  "set_reply cmd sn vs r = cmd @ ''|'' @ sn @ ''|'' @ vs @ ''|'' @ (if r = 0 then ACK else NACK)"

lemma decodeNetstring_set:
  assumes t: "cmd \<noteq> []" "sn \<noteq> []" "vs \<noteq> []" "plain cmd" "plain sn" "plain vs"
    and rb: "readBuffer a = pre @ cmd @ CHR ''|'' # sn @ CHR ''|'' # vs @ NUL # rest"
    and set: "strstr cmd SET" and v: "atoi vs = Inr v"
    and wb: "length (writeBuffer a) = 256" and len: "length cmd + length sn + length vs \<le> 200"
    and ok: "process_sensor a sn v = Inr (r, a')"
  shows "\<exists>rb' wb'. decodeNetstring a (Some (length pre)) =
    Inr (a'\<lparr>readBuffer := rb', writeBuffer := wb',
            sent := sent a @ [netstring (set_reply cmd sn vs r)]\<rparr>)
    \<and> length rb' = length (readBuffer a) \<and> length wb' = 256"
proof -
  let ?rb = "pre @ cmd @ NUL # sn @ NUL # vs @ NUL # rest"
  let ?txt = "set_reply cmd sn vs r"
  note tok = decodeNetstring_tokens [OF t rb refl refl refl refl]
  have ps: "process_sensor (a\<lparr>readBuffer := ?rb\<rparr>) sn v = Inr (r, a'\<lparr>readBuffer := ?rb\<rparr>)"
    using ok by (simp add: process_sensor_readBuffer)
  have fr: "writeBuffer a' = writeBuffer a" "sent a' = sent a"
    using process_sensor_frame [OF ok] by simp_all
  have tx: "NUL \<notin> set ?txt" "length ?txt \<le> 250"
    using t len by (auto simp: set_reply_def protocol_defs)
  let ?wb = "?txt @ NUL # drop (Suc (length ?txt)) (writeBuffer a)"
  have sp: "sprintf (writeBuffer a) ?txt = Inr (?wb, length ?txt)"
    using tx wb by (simp add: sprintf_ok)
  have send: "sendMessage (a'\<lparr>readBuffer := ?rb, writeBuffer := ?wb\<rparr>) (length ?txt) =
      Inr (a'\<lparr>readBuffer := ?rb, writeBuffer := ?wb, sent := sent a @ [netstring ?txt]\<rparr>)"
    using tx fr by (subst sendMessage_text) auto
  have "decodeNetstring a (Some (length pre)) =
      Inr (a'\<lparr>readBuffer := ?rb, writeBuffer := ?wb, sent := sent a @ [netstring ?txt]\<rparr>)"
    using set v tok ps sp send fr
    by (simp add: decodeNetstring_def processCommand_def set_reply_def)
  moreover have "length ?wb = 256" using tx wb by simp
  ultimately show ?thesis using rb by fastforce
qed


lemma decodeNetstring_get:
  assumes t: "cmd \<noteq> []" "plain cmd" "\<not> strstr cmd SET" "strstr cmd GET"
    and rb: "readBuffer a = pre @ cmd @ NUL # rest"
    and ss: "length (samples a) = 24" and wb: "length (writeBuffer a) = 256"
    and len: "length (status_text (samples a) (ports a)) \<le> 250"
    and nz: "NUL \<notin> set (status_text (samples a) (ports a))"
  shows "\<exists>wb'. decodeNetstring a (Some (length pre)) =
    Inr (a\<lparr>writeBuffer := wb', sent := sent a @ [netstring (status_text (samples a) (ports a))]\<rparr>)
    \<and> length wb' = 256"
proof -
  let ?st = "status_text (samples a) (ports a)"
  let ?wb = "?st @ NUL # drop (Suc (length ?st)) (writeBuffer a)"
  have tok: "strtok_r (readBuffer a) (Some (length pre)) DELIMITER (Some (length pre)) =
      Inr (Some (length pre), readBuffer a, None)"
    using strtok_r_last [of cmd "''|''" "Some (length pre)" "Some (length pre)" pre] t rb
    by (simp add: DELIMITER_def)
  have c: "cstr (readBuffer a) (length pre) = Inr cmd" using cstr_at t rb by simp
  have ps: "processStatus a = Inr (length ?st, a\<lparr>writeBuffer := ?wb\<rparr>)"
    using ss wb len by (simp add: processStatus_def sprintf_ok)
  have "sendMessage (a\<lparr>writeBuffer := ?wb\<rparr>) (length ?st) =
      Inr (a\<lparr>writeBuffer := ?wb, sent := sent a @ [netstring ?st]\<rparr>)"
    using len nz by (subst sendMessage_text) auto
  with tok c ps t have "decodeNetstring a (Some (length pre)) =
      Inr (a\<lparr>writeBuffer := ?wb, sent := sent a @ [netstring ?st]\<rparr>)"
    by (simp add: decodeNetstring_def strtok_r_null)
  moreover have "length ?wb = 256" using len wb by simp
  ultimately show ?thesis by blast
qed

section \<open>Status\<close>

lemma uint_16_le: "uint (w :: 16 word) \<le> 65535"
  using uint_lt2p [of w] by simp

lemma uint_sample_mean:
  "uint (sample_mean ss k) =
     (uint (ss ! k) + uint (ss ! (k + 6)) + uint (ss ! (k + 12)) + uint (ss ! (k + 18))) div 4"
proof -
  let ?s = "uint (ss ! k) + uint (ss ! (k + 6)) + uint (ss ! (k + 12)) + uint (ss ! (k + 18))"
  have "0 \<le> ?s" "?s \<le> 4 * 65535"
    using uint_16_le [of "ss ! k"] uint_16_le [of "ss ! (k + 6)"] uint_16_le [of "ss ! (k + 12)"]
      uint_16_le [of "ss ! (k + 18)"] by (simp_all add: add_nonneg_nonneg)
  then have "uint (word_of_int ?s :: 32 word) = ?s"
    unfolding uint_word_of_int by (intro mod_pos_pos_trivial) simp_all
  then show ?thesis by (simp add: sample_mean_def uint_div)
qed

lemma sample_mean_le: "uint (sample_mean ss k) \<le> 65535"
  unfolding uint_sample_mean
  using uint_16_le [of "ss ! k"] uint_16_le [of "ss ! (k + 6)"] uint_16_le [of "ss ! (k + 12)"]
    uint_16_le [of "ss ! (k + 18)"] by linarith

lemma sint_sample_mean: "sint (sample_mean ss k) = uint (sample_mean ss k)"
  using sample_mean_le [of ss k]
  by (simp add: sint_uint signed_take_bit_int_eq_self order.trans [of "-2147483648" 0])

lemma dec_nonneg: "0 \<le> i \<Longrightarrow> dec i = dec_nat (nat i)"
  by (simp add: dec_def)

lemma length_mean: "length (dec (sint (sample_mean ss k))) \<le> 5"
proof -
  have "nat (uint (sample_mean ss k)) < 10 ^ 5" using sample_mean_le [of ss k]
    by (subst nat_less_iff) simp_all
  then have "length (dec_nat (nat (uint (sample_mean ss k)))) \<le> 5"
    by (rule length_dec_nat_le) simp
  then show ?thesis by (simp only: sint_sample_mean dec_nonneg uint_ge_0)
qed

lemma length_input: "length (dec (uint (palReadLine g l))) \<le> 1"
proof -
  have "uint (palReadLine g l) = 0 \<or> uint (palReadLine g l) = 1"
    using palReadLine_cases [of g l] by auto
  moreover have "length (dec 0) = 1" "length (dec 1) = 1"
    using dec_nat.simps [of 0] dec_nat.simps [of 1] by (simp_all add: dec_def)
  ultimately show ?thesis by auto
qed

lemma status_text_bound: "length (status_text ss g) \<le> 155"
  using length_mean [of ss 0] length_mean [of ss 1] length_mean [of ss 2] length_mean [of ss 3]
    length_mean [of ss 4] length_mean [of ss 5] length_input [of g LINE_ASMS_READ]
    length_input [of g LINE_CLAMPED_SENS_READ] length_input [of g LINE_EBS_OK_READ]
  by (simp add: status_text_def)

lemma status_text_no_NUL: "NUL \<notin> set (status_text ss g)"
  by (auto simp: status_text_def sint_sample_mean dec_nonneg dec_nat_notin)

end
