(* ===== verification/CommSpec.thy ===== *)
theory CommSpec
  imports CommProps
begin

text \<open>
  The protocol of the node as a client sees it, and the proof that the communication thread
  implements it. A client sends one of two requests; the node changes at most one output and
  answers with one netstring. The abstract state has the output lines, the compare registers of
  the two PWM timers and the replies; buffers, tokens and indices are gone.
\<close>

section \<open>Abstract protocol\<close>

datatype request = SetReq string string string | GetReq string

datatype target = OutLine ioline | Pwm3 nat | Pwm4 nat

definition sensor_table :: "(string \<times> target) list" where
  "sensor_table =
    [(''heart_beat'', OutLine LINE_HEART_BEAT), (''rack_right'', OutLine LINE_RACK_RIGHT),
     (''rack_left'', OutLine LINE_RACK_LEFT), (''service_break'', OutLine LINE_SERVICE_BREAK),
     (''redundency'', OutLine LINE_REDUNDENCY), (''shutdown'', OutLine LINE_SHUTDOWN),
     (''spare'', OutLine LINE_SPARE), (''clamp_set'', OutLine LINE_CLAMP_SET),
     (''compressor'', OutLine LINE_COMPRESSOR), (''ebs_relief'', OutLine LINE_EBS_RELIEF),
     (''ebs_speaker'', OutLine LINE_EBS_SPEAKER), (''finished'', OutLine LINE_FINISHED),
     (''steer_speed'', Pwm3 2), (''brake_pressure'', Pwm3 3), (''assi_blue'', Pwm4 1),
     (''assi_red'', Pwm3 1), (''assi_green'', Pwm4 0)]"

text \<open>The entry a sensor name selects: the first whose name occurs in it.\<close>

definition target_of :: "string \<Rightarrow> target option" where
  "target_of sn = map_option snd (find (\<lambda>(n, _). strstr sn n) sensor_table)"

record outputs =
  lines :: "ioline \<Rightarrow> bool"
  width3 :: "nat \<Rightarrow> 32 word"
  width4 :: "nat \<Rightarrow> 32 word"
  replies :: "string list"

definition spec_drive :: "32 word \<Rightarrow> 32 word \<Rightarrow> target \<Rightarrow> int \<Rightarrow> outputs \<Rightarrow> outputs" where
  "spec_drive p3 p4 t v x = (case t of
      OutLine l \<Rightarrow> x\<lparr>lines := (lines x)(l := v \<noteq> 0)\<rparr>
    | Pwm3 ch \<Rightarrow> x\<lparr>width3 := (width3 x)(ch := p3 * word_of_int v div 10000)\<rparr>
    | Pwm4 ch \<Rightarrow> x\<lparr>width4 := (width4 x)(ch := p4 * word_of_int v div 10000)\<rparr>)"

text \<open>\<open>p3\<close>, \<open>p4\<close> are the periods of the timers, \<open>st\<close> the status text of the moment.\<close>

fun spec_step :: "32 word \<Rightarrow> 32 word \<Rightarrow> string \<Rightarrow> request \<Rightarrow> int \<Rightarrow> outputs \<Rightarrow> outputs" where
  "spec_step p3 p4 st (SetReq cmd sn vs) v x =
     (case target_of sn of
        None \<Rightarrow> x\<lparr>replies := replies x @ [netstring (cmd @ ''|'' @ sn @ ''|'' @ vs @ ''|NACK'')]\<rparr>
      | Some t \<Rightarrow> (spec_drive p3 p4 t v x)
          \<lparr>replies := replies x @ [netstring (cmd @ ''|'' @ sn @ ''|'' @ vs @ ''|ACK'')]\<rparr>)"
| "spec_step p3 p4 st (GetReq cmd) v x = x\<lparr>replies := replies x @ [netstring st]\<rparr>"

section \<open>Encoding of requests\<close>

fun encode :: "request \<Rightarrow> string" where
  "encode (SetReq cmd sn vs) = cmd @ ''|'' @ sn @ ''|'' @ vs"
| "encode (GetReq cmd) = cmd"

definition token :: "string \<Rightarrow> bool" where
  "token s \<longleftrightarrow> s \<noteq> [] \<and> NUL \<notin> set s \<and> CHR ''|'' \<notin> set s \<and> CHR '';'' \<notin> set s"

fun wf_request :: "request \<Rightarrow> bool" where
  "wf_request (SetReq cmd sn vs) =
     (token cmd \<and> token sn \<and> token vs \<and> strstr cmd SET \<and> (\<exists>v. atoi vs = Inr v))"
| "wf_request (GetReq cmd) = (token cmd \<and> strstr cmd GET \<and> \<not> strstr cmd SET)"

fun req_value :: "request \<Rightarrow> int" where
  "req_value (SetReq cmd sn vs) = (case atoi vs of Inr v \<Rightarrow> v | Inl _ \<Rightarrow> 0)"
| "req_value (GetReq cmd) = 0"

text \<open>What one read delivers: a request as a netstring, and perhaps more bytes after it.\<close>

definition frame :: "request \<Rightarrow> string \<Rightarrow> string \<Rightarrow> bool" where
  "frame req bs extra \<longleftrightarrow> wf_request req \<and> bs = netstring (encode req) @ extra \<and> length bs \<le> 128"

section \<open>Abstraction\<close>

definition abs_outputs :: "app \<Rightarrow> outputs" where
  "abs_outputs a = \<lparr>lines = (\<lambda>l. snd l < 16 \<and> line_out (ports a) l),
     width3 = CCR (tim (PWMD3 a)), width4 = CCR (tim (PWMD4 a)), replies = sent a\<rparr>"

lemma abs_outputs_buffers [simp]:
  "abs_outputs (a\<lparr>readBuffer := r\<rparr>) = abs_outputs a"
  "abs_outputs (a\<lparr>writeBuffer := w\<rparr>) = abs_outputs a"
  "abs_outputs (a\<lparr>sent := s\<rparr>) = (abs_outputs a)\<lparr>replies := s\<rparr>"
  "replies (abs_outputs a) = sent a"
  by (simp_all add: abs_outputs_def)

lemma bit_PAL [simp]: "bit PAL_LOW 0 = False" "bit PAL_HIGH 0 = True"
  by (simp_all add: PAL_LOW_def PAL_HIGH_def)

text \<open>What the branch of a target does to the outputs.\<close>

definition drive :: "app \<Rightarrow> target \<Rightarrow> int \<Rightarrow> (int \<times> app) result" where
  "drive a t v = (case t of
      OutLine l \<Rightarrow> set_line a l (if v = 0 then PAL_LOW else PAL_HIGH)
    | Pwm3 ch \<Rightarrow> set_pwm3 a ch v
    | Pwm4 ch \<Rightarrow> set_pwm4 a ch v)"

text \<open>The chain of tests is a search of the table.\<close>

lemma process_sensor_table:
  "process_sensor a sn v = (case target_of sn of None \<Rightarrow> Inr (-1, a) | Some t \<Rightarrow> drive a t v)"
  unfolding process_sensor_def Let_def target_of_def sensor_table_def drive_def
  by (simp add: protocol_defs)

fun target_ok :: "target \<Rightarrow> bool" where
  "target_ok (OutLine l) = (snd l < 16)"
| "target_ok (Pwm3 ch) = (ch < 4)"
| "target_ok (Pwm4 ch) = (ch < 4)"

lemma target_of_ok: "target_of sn = Some t \<Longrightarrow> target_ok t"
proof -
  assume "target_of sn = Some t"
  then obtain n where "(n, t) \<in> set sensor_table"
    by (auto simp: target_of_def find_Some_iff) (metis nth_mem)
  moreover have "\<forall>x\<in>set sensor_table. target_ok (snd x)"
    by (simp add: sensor_table_def line_defs)
  ultimately show ?thesis by force
qed

lemma drive_refines:
  assumes inv: "comm_inv a" and t: "target_ok t" and d: "drive a t v = Inr (r, a')"
  shows "r = 0 \<and> abs_outputs a' = spec_drive (period (PWMD3 a)) (period (PWMD4 a)) t v (abs_outputs a)"
proof (cases t)
  case (OutLine l)
  with d t show ?thesis
    by (auto simp: drive_def set_line_def spec_drive_def abs_outputs_def line_out_palWriteLine fun_eq_iff)
next
  case (Pwm3 ch)
  with d t inv show ?thesis
    by (auto simp: drive_def set_pwm3_def spec_drive_def abs_outputs_def res_simps pwmEnableChannel_def
        pwmEnableChannelI_def pwm_lld_enable_channel_def PWM_PERCENTAGE_TO_WIDTH_def
        PWM_FRACTION_TO_WIDTH_def)
next
  case (Pwm4 ch)
  with d t inv show ?thesis
    by (auto simp: drive_def set_pwm4_def spec_drive_def abs_outputs_def res_simps pwmEnableChannel_def
        pwmEnableChannelI_def pwm_lld_enable_channel_def PWM_PERCENTAGE_TO_WIDTH_def
        PWM_FRACTION_TO_WIDTH_def)
qed

section \<open>The thread implements the protocol\<close>

lemma process_sensor_refines:
  assumes inv: "comm_inv a" and d: "process_sensor a sn v = Inr (r, a')"
  shows "(case target_of sn of None \<Rightarrow> r = -1 \<and> a' = a
    | Some t \<Rightarrow> r = 0 \<and>
        abs_outputs a' = spec_drive (period (PWMD3 a)) (period (PWMD4 a)) t v (abs_outputs a))"
proof (cases "target_of sn")
  case None
  with d show ?thesis by (simp add: process_sensor_table)
next
  case (Some t)
  with d drive_refines [OF inv target_of_ok [OF Some]] show ?thesis
    by (simp add: process_sensor_table)
qed

lemma spec_drive_replies [simp]:
  "replies (spec_drive p3 p4 t v x) = replies x"
  "spec_drive p3 p4 t v (x\<lparr>replies := rs\<rparr>) = (spec_drive p3 p4 t v x)\<lparr>replies := rs\<rparr>"
  by (auto simp: spec_drive_def split: target.splits)

lemma length_netstring: "length p + 3 \<le> length (netstring p)"
  using dec_nat_nonempty [of "length p"] by (simp add: netstring_def Suc_leI del: dec_nat_nonempty)

lemma encode_ok:
  assumes "wf_request req"
  shows "encode req \<noteq> []" "NUL \<notin> set (encode req)" "CHR '';'' \<notin> set (encode req)"
  using assms by (cases req; auto simp: token_def)+

text \<open>A payload reaches \<^verbatim>\<open>decodeNetstring\<close> cut out of what was read.\<close>

lemma communicationThr_step_payload:
  assumes inv: "comm_inv a" and bs: "bs = netstring p @ extra" "length bs \<le> 128"
    and p: "p \<noteq> []" "NUL \<notin> set p" "CHR '';'' \<notin> set p"
  shows "\<exists>rest. length (dec_nat (length p) @ NUL # p @ NUL # rest) = 128 \<and>
    communicationThr_step bs a =
      bindE (decodeNetstring
          (a\<lparr>readBuffer := dec_nat (length p) @ NUL # p @ NUL # rest\<rparr>)
          (Some (length (dec_nat (length p) @ [NUL]))))
        (\<lambda>a. Inr (a\<lparr>readBuffer := memset0 (readBuffer a), writeBuffer := memset0 (writeBuffer a)\<rparr>))"
proof -
  let ?rest = "extra @ drop (length bs) (readBuffer a)"
  let ?a = "a\<lparr>readBuffer := netstring p @ ?rest\<rparr>"
  have "0 < length p" using p(1) by simp
  then have sz: "length p + 3 \<le> length bs" "3 < length bs"
    using length_netstring [of p] unfolding bs(1) length_append by linarith+
  have "decodeMessage ?a (length bs) =
      decodeNetstring (?a\<lparr>readBuffer := dec_nat (length p) @ NUL # p @ NUL # ?rest\<rparr>)
        (Some (Suc (length (dec_nat (length p)))))"
    using p sz bs(2) by (intro decodeMessage_netstring) (auto simp: INT_MAX_def)
  moreover have rb: "length (readBuffer a) = 128" using inv by (simp add: comm_inv_def)
  moreover have "bs @ drop (length bs) (readBuffer a) = netstring p @ ?rest" using bs(1) by simp
  ultimately have "communicationThr_step bs a =
      bindE (decodeNetstring (a\<lparr>readBuffer := dec_nat (length p) @ NUL # p @ NUL # ?rest\<rparr>)
          (Some (length (dec_nat (length p) @ [NUL]))))
        (\<lambda>a. Inr (a\<lparr>readBuffer := memset0 (readBuffer a), writeBuffer := memset0 (writeBuffer a)\<rparr>))"
    using sz bs(2) by (simp add: communicationThr_step_def Let_def)
  moreover have "length (dec_nat (length p) @ NUL # p @ NUL # ?rest) = 128"
    using bs rb by (simp add: netstring_def)
  ultimately show ?thesis by blast
qed

lemmas communicationThr_step_frame =
  communicationThr_step_payload [where p = "encode req" for req, OF _ _ _ encode_ok]

lemma comm_inv_clean:
  assumes "comm_inv a" "length rb = 128" "length wb = 256"
  shows "comm_inv (a\<lparr>readBuffer := memset0 rb, writeBuffer := memset0 wb, sent := s\<rparr>)"
  using assms by (simp add: comm_inv_def memset0_def)

lemma set_frame_refines:
  assumes inv: "comm_inv a" and fr: "frame (SetReq cmd sn vs) bs extra"
  shows "\<exists>a'. communicationThr_step bs a = Inr a' \<and> comm_inv a' \<and>
    abs_outputs a' = spec_step (period (PWMD3 a)) (period (PWMD4 a)) st (SetReq cmd sn vs)
      (req_value (SetReq cmd sn vs)) (abs_outputs a)"
proof -
  let ?p = "encode (SetReq cmd sn vs)"
  obtain rest where len: "length (dec_nat (length ?p) @ NUL # ?p @ NUL # rest) = 128"
    and step: "communicationThr_step bs a = bindE (decodeNetstring
        (a\<lparr>readBuffer := dec_nat (length ?p) @ NUL # ?p @ NUL # rest\<rparr>)
        (Some (length (dec_nat (length ?p) @ [NUL]))))
      (\<lambda>a. Inr (a\<lparr>readBuffer := memset0 (readBuffer a), writeBuffer := memset0 (writeBuffer a)\<rparr>))"
    using communicationThr_step_frame [OF inv] fr unfolding frame_def by blast
  let ?a = "a\<lparr>readBuffer := dec_nat (length ?p) @ NUL # ?p @ NUL # rest\<rparr>"
  obtain v where v: "atoi vs = Inr v" using fr by (auto simp: frame_def)
  have tok: "token cmd" "token sn" "token vs" "strstr cmd SET" using fr by (simp_all add: frame_def)
  obtain r a' where ps: "process_sensor a sn v = Inr (r, a')" and inv': "comm_inv a'"
    using process_sensor_total [OF inv] by blast
  note ref = process_sensor_refines [OF inv ps]
  have ps': "process_sensor ?a sn v = Inr (r, a'\<lparr>readBuffer := readBuffer ?a\<rparr>)"
    using ps by (simp add: process_sensor_readBuffer)
  have "\<exists>rb' wb'. decodeNetstring ?a (Some (length (dec_nat (length ?p) @ [NUL]))) =
      Inr (a'\<lparr>readBuffer := readBuffer ?a, readBuffer := rb', writeBuffer := wb',
              sent := sent ?a @ [netstring (set_reply cmd sn vs r)]\<rparr>)
      \<and> length rb' = length (readBuffer ?a) \<and> length wb' = 256"
  proof (rule decodeNetstring_set [OF _ _ _ _ _ _ _ tok(4) v _ _ ps'])
    show "length cmd + length sn + length vs \<le> 200" using len by simp
  qed (use tok inv in \<open>simp_all add: token_def comm_inv_def\<close>)
  then obtain rb' wb' where d: "decodeNetstring ?a (Some (length (dec_nat (length ?p) @ [NUL]))) =
      Inr (a'\<lparr>readBuffer := rb', writeBuffer := wb',
              sent := sent a @ [netstring (set_reply cmd sn vs r)]\<rparr>)"
    and l: "length rb' = 128" "length wb' = 256"
    using len by auto
  let ?z = "a'\<lparr>readBuffer := memset0 rb', writeBuffer := memset0 wb',
              sent := sent a @ [netstring (set_reply cmd sn vs r)]\<rparr>"
  have "communicationThr_step bs a = Inr ?z" using step d by simp
  moreover have "comm_inv ?z" using inv' l by (rule comm_inv_clean)
  moreover have "abs_outputs ?z = spec_step (period (PWMD3 a)) (period (PWMD4 a)) st
      (SetReq cmd sn vs) (req_value (SetReq cmd sn vs)) (abs_outputs a)"
    using ref v by (auto simp: set_reply_def protocol_defs split: option.splits)
  ultimately show ?thesis by blast
qed

lemma get_frame_refines:
  assumes inv: "comm_inv a" and fr: "frame (GetReq cmd) bs extra"
  shows "\<exists>a'. communicationThr_step bs a = Inr a' \<and> comm_inv a' \<and>
    abs_outputs a' = spec_step p3 p4 (status_text (samples a) (ports a)) (GetReq cmd)
      v (abs_outputs a)"
proof -
  let ?p = "encode (GetReq cmd)"
  obtain rest where len: "length (dec_nat (length ?p) @ NUL # ?p @ NUL # rest) = 128"
    and step: "communicationThr_step bs a = bindE (decodeNetstring
        (a\<lparr>readBuffer := dec_nat (length ?p) @ NUL # ?p @ NUL # rest\<rparr>)
        (Some (length (dec_nat (length ?p) @ [NUL]))))
      (\<lambda>a. Inr (a\<lparr>readBuffer := memset0 (readBuffer a), writeBuffer := memset0 (writeBuffer a)\<rparr>))"
    using communicationThr_step_frame [OF inv] fr unfolding frame_def by blast
  let ?a = "a\<lparr>readBuffer := dec_nat (length ?p) @ NUL # ?p @ NUL # rest\<rparr>"
  have "\<exists>wb'. decodeNetstring ?a (Some (length (dec_nat (length ?p) @ [NUL]))) =
      Inr (?a\<lparr>writeBuffer := wb',
              sent := sent ?a @ [netstring (status_text (samples ?a) (ports ?a))]\<rparr>)
      \<and> length wb' = 256"
    using fr inv status_text_bound [of "samples a" "ports a"]
    by (intro decodeNetstring_get)
      (simp_all add: frame_def token_def comm_inv_def status_text_no_NUL)
  then obtain wb' where d: "decodeNetstring ?a (Some (length (dec_nat (length ?p) @ [NUL]))) =
      Inr (?a\<lparr>writeBuffer := wb',
              sent := sent a @ [netstring (status_text (samples a) (ports a))]\<rparr>)"
    and l: "length wb' = 256"
    by auto
  let ?z = "a\<lparr>readBuffer := memset0 (readBuffer ?a), writeBuffer := memset0 wb',
              sent := sent a @ [netstring (status_text (samples a) (ports a))]\<rparr>"
  have "communicationThr_step bs a = Inr ?z" using step d by simp
  moreover have "comm_inv ?z" using inv len l by (intro comm_inv_clean) simp_all
  moreover have "abs_outputs ?z = spec_step p3 p4 (status_text (samples a) (ports a)) (GetReq cmd)
      v (abs_outputs a)"
    by (simp add: abs_outputs_def)
  ultimately show ?thesis by blast
qed

section \<open>Properties\<close>


text \<open>A state between two reads with both timers running as \<^verbatim>\<open>main.c\<close> starts them.\<close>

definition idle_pwm :: PWMDriver where
  "idle_pwm = \<lparr>pwm_state = PWM_READY,
     pwm_config = Some \<lparr>frequency = 100000, cfg_period = 10, cfg_callback = None,
       cfg_channels = replicate 4 \<lparr>ch_mode = 1, ch_callback = None\<rparr>, cfg_cr2 = 0, cfg_dier = 0\<rparr>,
     period = 10, enabled = 0, channels = 4, clock = 84000000,
     tim = tim_reset\<lparr>PSC := 839, ARR := 9\<rparr>\<rparr>"

definition idle_app :: app where
  "idle_app = \<lparr>readBuffer = replicate 128 NUL, writeBuffer = replicate 256 NUL,
     ports = (\<lambda>_. \<lparr>MODER = 0, OTYPER = 0, OSPEEDR = 0, PUPDR = 0, IDR = 0, ODR = 0, AFRL = 0,
       AFRH = 0\<rparr>),
     PWMD3 = idle_pwm, PWMD4 = idle_pwm, samples = replicate 24 2048, sent = []\<rparr>"

lemma comm_inv_idle: "comm_inv idle_app"
  by (simp add: comm_inv_def idle_app_def idle_pwm_def pwm_inv_def STM32_TIMCLK1_def)

lemma shutdown_frame: "frame (SetReq ''set'' ''shutdown'' ''1'') ''14:set|shutdown|1;'' []"
proof -
  have "netstring ''set|shutdown|1'' = ''14:set|shutdown|1;''" by code_simp
  moreover have "atoi ''1'' = Inr 1" by code_simp
  ultimately show ?thesis by (simp add: frame_def token_def SET_def)
qed


end
