(* ===== verification/CommSafe.thy ===== *)
theory CommSafe
  imports CommSpec
begin

text \<open>
  What the communication thread does with any bytes at all: which inputs it survives, which it
  does not, and that the only faults a read of less than a full buffer can cause are the missing
  tokens and the number out of range listed here. In particular no \<^verbatim>\<open>sprintf\<close> leaves its buffer.
\<close>

section \<open>Tokens of any input\<close>

text \<open>A string ends somewhere from \<open>p\<close> on.\<close>

definition ends_from :: "carray \<Rightarrow> nat \<Rightarrow> bool" where
  "ends_from b p \<longleftrightarrow> (\<exists>j\<ge>p. j < length b \<and> b ! j = NUL)"

lemma scan_total:
  assumes "j < length b" "p \<le> j" "\<not> P (b ! j)"
  shows "\<exists>q. scan P b p = Inr q \<and> p \<le> q \<and> q \<le> j \<and> \<not> P (b ! q)"
proof -
  let ?t = "takeWhile P (drop p b)"
  have le: "length ?t \<le> j - p"
  proof (rule ccontr)
    assume "\<not> length ?t \<le> j - p"
    then have "j - p < length ?t" by simp
    then have "P (?t ! (j - p))" by (metis nth_mem set_takeWhileD)
    moreover have "?t ! (j - p) = b ! j"
      using assms \<open>j - p < length ?t\<close> by (simp add: takeWhile_nth)
    ultimately show False using assms(3) by simp
  qed
  then have lt: "length ?t < length (drop p b)" using assms by simp
  have "\<not> P (drop p b ! length ?t)" using lt by (rule nth_length_takeWhile)
  then have "\<not> P (b ! (p + length ?t))" using lt by (simp add: add.commute)
  moreover have "p + length ?t \<le> j" using le assms(2) by simp
  ultimately show ?thesis using assms(1) by (auto simp: scan_def)
qed

lemma strtok_r_total:
  assumes p: "(case s of None \<Rightarrow> save | Some p \<Rightarrow> Some p) = Some p" and e: "ends_from b p"
    and d: "NUL \<notin> set delim"
  shows "strtok_r b s delim save = Inr (None, b, None) \<or>
    (\<exists>q\<ge>p. strtok_r b s delim save = Inr (Some q, b, None) \<and> ends_from b q) \<or>
    (\<exists>q\<ge>p. \<exists>e\<ge>q. strtok_r b s delim save = Inr (Some q, b[e := NUL], Some (Suc e)) \<and>
       e < length b \<and> ends_from (b[e := NUL]) (Suc e))"
proof -
  obtain j where j: "p \<le> j" "j < length b" "b ! j = NUL" using e by (auto simp: ends_from_def)
  obtain q where q: "scan (\<lambda>c. c \<in> set delim) b p = Inr q" "p \<le> q" "q \<le> j"
    using scan_total [of j b p "\<lambda>c. c \<in> set delim"] j d by auto
  show ?thesis
  proof (cases "b ! q = NUL")
    case True
    with p q show ?thesis by (simp add: strtok_r_def)
  next
    case False
    obtain e where e: "scan (\<lambda>c. c \<noteq> NUL \<and> c \<notin> set delim) b q = Inr e" "q \<le> e" "e \<le> j"
      using scan_total [of j b q "\<lambda>c. c \<noteq> NUL \<and> c \<notin> set delim"] j q(3) by auto
    show ?thesis
    proof (cases "b ! e = NUL")
      case True
      with p q e False j have "strtok_r b s delim save = Inr (Some q, b, None)" "ends_from b q"
        by (auto simp: strtok_r_def ends_from_def)
      with q show ?thesis by blast
    next
      case F: False
      then have "e < j" using e(3) j(3) by (metis le_neq_implies_less)
      then have "ends_from (b[e := NUL]) (Suc e)"
        using j by (auto simp: ends_from_def intro!: exI [of _ j])
      moreover have "strtok_r b s delim save = Inr (Some q, b[e := NUL], Some (Suc e))"
        using p q e False F by (simp add: strtok_r_def)
      ultimately show ?thesis using q e \<open>e < j\<close> j by auto
    qed
  qed
qed

lemma cstr_total:
  assumes "j < length b" "p \<le> j" "b ! j = NUL"
  shows "\<exists>s. cstr b p = Inr s \<and> length s \<le> j - p \<and> NUL \<notin> set s"
proof -
  obtain q where q: "scan (\<lambda>c. c \<noteq> NUL) b p = Inr q" "q \<le> j"
    using scan_total [of j b p "\<lambda>c. c \<noteq> NUL"] assms by auto
  then have "q = p + length (takeWhile (\<lambda>c. c \<noteq> NUL) (drop p b))"
    by (auto simp: scan_def Let_def split: if_splits)
  with q assms show ?thesis by (auto simp: cstr_def dest: set_takeWhileD)
qed

lemma ends_from_cstr: "ends_from b p \<Longrightarrow> \<exists>s. cstr b p = Inr s"
  unfolding ends_from_def using cstr_total by blast

text \<open>The three calls at the head of \<^verbatim>\<open>decodeNetstring\<close>.\<close>

definition tokens :: "carray \<Rightarrow> nat option \<Rightarrow> (nat option \<times> nat option \<times> nat option \<times> carray) result" where
  "tokens b msg =
     bindE (strtok_r b msg DELIMITER msg) (\<lambda>(c, b, save).
     bindE (strtok_r b None DELIMITER save) (\<lambda>(s, b, save).
     bindE (strtok_r b None DELIMITER save) (\<lambda>(v, b, save). Inr (c, s, v, b))))"

text \<open>The rest of it.\<close>

definition dispatch :: "app \<Rightarrow> nat option \<Rightarrow> nat option \<Rightarrow> nat option \<Rightarrow> (nat \<times> app) result" where
  "dispatch a command sensor val =
     bindE (deref ''command'' command) (\<lambda>c.
     bindE (cstr (readBuffer a) c) (\<lambda>cmd.
       if strstr cmd SET then
         bindE (processCommand a sensor val) (\<lambda>(result, a').
         bindE (deref ''sensor'' sensor) (\<lambda>s.
         bindE (cstr (readBuffer a) s) (\<lambda>sn.
         bindE (deref ''value'' val) (\<lambda>v.
         bindE (cstr (readBuffer a) v) (\<lambda>vs.
         bindE (sprintf (writeBuffer a') (cmd @ ''|'' @ sn @ ''|'' @ vs @ ''|'' @
                  (if result = 0 then ACK else NACK))) (\<lambda>(wb, n).
           Inr (n, a'\<lparr>writeBuffer := wb\<rparr>)))))))
       else if strstr cmd GET then processStatus a
       else Inr (0, a)))"

lemma decodeNetstring_dispatch:
  "decodeNetstring a msg =
     bindE (tokens (readBuffer a) msg) (\<lambda>(c, s, v, rb).
     bindE (dispatch (a\<lparr>readBuffer := rb\<rparr>) c s v) (\<lambda>(n, a). sendMessage a n))"
  by (simp add: decodeNetstring_def tokens_def dispatch_def bindE_assoc Let_def case_prod_unfold
      app.defs cong: if_cong)

text \<open>The tokens lie one after the other, each ended by its own \<open>NUL\<close>.\<close>

definition tokens_ok :: "carray \<Rightarrow> nat option \<Rightarrow> nat option \<Rightarrow> nat option \<Rightarrow> bool" where
  "tokens_ok b c s v \<longleftrightarrow> c = None \<or>
     (\<exists>p. c = Some p \<and> ends_from b p \<and>
       (v = None \<or> (\<exists>q r e f. s = Some q \<and> v = Some r \<and> p \<le> e \<and> e < q \<and> q \<le> f \<and> f < r \<and>
          b ! e = NUL \<and> b ! f = NUL \<and> ends_from b r)))"

lemma ends_from_mono: "ends_from b p \<Longrightarrow> q \<le> p \<Longrightarrow> ends_from b q"
  unfolding ends_from_def using order_trans by blast

lemma ends_from_lt: "ends_from b p \<Longrightarrow> p < length b"
  by (auto simp: ends_from_def)

lemma ends_from_update: "ends_from b p \<Longrightarrow> ends_from (b[e := NUL]) p"
  unfolding ends_from_def by (metis length_list_update nth_list_update nth_list_update_neq)

text \<open>
  What one call promises when the rest of the string ends inside the array: the token starts
  where the search started or later, is ended by a \<open>NUL\<close> before the rest, and no end of an
  earlier token is lost.
\<close>

definition next_ok ::
  "carray \<Rightarrow> nat option \<Rightarrow> nat option \<Rightarrow> carray \<Rightarrow> nat option \<Rightarrow> bool" where
  "next_ok b save t b' save' \<longleftrightarrow>
     length b' = length b \<and> (\<forall>i<length b. b ! i = NUL \<longrightarrow> b' ! i = NUL) \<and>
     (case t of None \<Rightarrow> save' = None
      | Some q \<Rightarrow> (\<exists>p. save = Some p \<and> p \<le> q) \<and> ends_from b' q \<and>
          (case save' of None \<Rightarrow> True
           | Some r \<Rightarrow> (\<exists>e. r = Suc e \<and> q \<le> e \<and> b' ! e = NUL \<and> ends_from b' r)))"

definition rest_ok :: "carray \<Rightarrow> nat option \<Rightarrow> bool" where
  "rest_ok b save \<longleftrightarrow> (case save of None \<Rightarrow> True | Some p \<Rightarrow> ends_from b p)"

lemma next_ok_rest: "next_ok b save t b' save' \<Longrightarrow> rest_ok b' save'"
  by (auto simp: next_ok_def rest_ok_def split: option.splits)

lemma next_ok_ends: "next_ok b save t b' save' \<Longrightarrow> ends_from b p \<Longrightarrow> ends_from b' p"
  by (auto simp: next_ok_def ends_from_def)

lemma strtok_r_next:
  assumes "rest_ok b save" and nd: "NUL \<notin> set delim"
  shows "\<exists>t b' save'. strtok_r b None delim save = Inr (t, b', save') \<and> next_ok b save t b' save'"
proof (cases save)
  case None
  then show ?thesis by (simp add: strtok_r_null next_ok_def)
next
  case (Some p)
  then have "ends_from b p" using assms(1) by (simp add: rest_ok_def)
  from strtok_r_total [of save None p b, OF _ this nd] Some consider
      "strtok_r b None delim save = Inr (None, b, None)"
    | q where "p \<le> q" "strtok_r b None delim save = Inr (Some q, b, None)" "ends_from b q"
    | q e where "p \<le> q" "q \<le> e" "strtok_r b None delim save = Inr (Some q, b[e := NUL], Some (Suc e))"
        "e < length b" "ends_from (b[e := NUL]) (Suc e)"
    by auto
  then show ?thesis
  proof cases
    case (3 q e)
    then have "ends_from (b[e := NUL]) q" using ends_from_mono by fastforce
    with 3 Some have "next_ok b save (Some q) (b[e := NUL]) (Some (Suc e))"
      by (auto simp: next_ok_def nth_list_update)
    with 3 show ?thesis by blast
  qed (use Some in \<open>auto simp: next_ok_def\<close>)
qed

lemma tokens_total:
  assumes "ends_from b p"
  shows "\<exists>c s v b'. tokens b (Some p) = Inr (c, s, v, b') \<and> length b' = length b \<and> tokens_ok b' c s v"
proof -
  have nd: "NUL \<notin> set DELIMITER" by (simp add: DELIMITER_def)
  note next_tok = strtok_r_next [OF _ nd]
  have r0: "rest_ok b (Some p)" using assms by (simp add: rest_ok_def)
  have first: "strtok_r b (Some p) DELIMITER (Some p) = strtok_r b None DELIMITER (Some p)"
    by (simp add: strtok_r_def)
  obtain c b1 s1 where 1: "strtok_r b None DELIMITER (Some p) = Inr (c, b1, s1)"
      "next_ok b (Some p) c b1 s1" using next_tok [OF r0] by blast
  obtain s b2 s2 where 2: "strtok_r b1 None DELIMITER s1 = Inr (s, b2, s2)" "next_ok b1 s1 s b2 s2"
    using next_tok [OF next_ok_rest [OF 1(2)]] by blast
  obtain v b3 s3 where 3: "strtok_r b2 None DELIMITER s2 = Inr (v, b3, s3)" "next_ok b2 s2 v b3 s3"
    using next_tok [OF next_ok_rest [OF 2(2)]] by blast
  have "tokens b (Some p) = Inr (c, s, v, b3)" using first 1 2 3 by (simp add: tokens_def)
  moreover have len: "length b3 = length b" using 1 2 3 by (simp add: next_ok_def)
  moreover have "tokens_ok b3 c s v"
  proof (cases c)
    case None
    then show ?thesis by (simp add: tokens_ok_def)
  next
    case (Some q)
    then have q: "ends_from b3 q"
      using 1(2) next_ok_ends [OF 3(2) next_ok_ends [OF 2(2)]] by (simp add: next_ok_def)
    show ?thesis
    proof (cases v)
      case None
      with Some q show ?thesis by (simp add: tokens_ok_def)
    next
      case v: (Some r)
      then obtain f where f: "s2 = Some (Suc f)" "Suc f \<le> r" "ends_from b3 r" "b2 ! f = NUL"
        using 3(2) 2(2) by (auto simp: next_ok_def split: option.splits)
      then obtain q2 e where e: "s = Some q2" "q2 \<le> f" "s1 = Some (Suc e)" "Suc e \<le> q2" "q \<le> e"
          "b1 ! e = NUL"
        using 2(2) 1(2) Some by (auto simp: next_ok_def split: option.splits)
      have "r < length b" using f(3) len ends_from_lt by fastforce
      then have "b3 ! e = NUL" "b3 ! f = NUL"
        using e f 1(2) 2(2) 3(2) by (simp_all add: next_ok_def)
      with Some v q e f show ?thesis
        unfolding tokens_ok_def using Suc_le_lessD by blast
    qed
  qed
  ultimately show ?thesis by blast
qed

section \<open>Every read\<close>

text \<open>What is left of \<open>comm_inv\<close> while a request is being handled.\<close>

definition comm_core :: "app \<Rightarrow> bool" where
  "comm_core a \<longleftrightarrow> length (readBuffer a) = 128 \<and> length (writeBuffer a) = 256 \<and>
     length (samples a) = 24 \<and> pwm_inv (PWMD3 a) \<and> pwm_inv (PWMD4 a) \<and>
     pwm_state (PWMD3 a) = PWM_READY \<and> pwm_state (PWMD4 a) = PWM_READY"

definition input_faults :: "halt set" where
  "input_faults = {Fault ''command'', Fault ''value'', Fault ''atoi out of range'',
     Fault ''msg_length_ptr''}"

lemma comm_core_clean: "comm_core a \<Longrightarrow>
    comm_inv (a\<lparr>readBuffer := memset0 (readBuffer a), writeBuffer := memset0 (writeBuffer a)\<rparr>)"
  by (simp add: comm_core_def comm_inv_def memset0_def)

lemma comm_inv_core: "comm_inv a \<Longrightarrow> length rb = 128 \<Longrightarrow> comm_core (a\<lparr>readBuffer := rb\<rparr>)"
  by (simp add: comm_core_def comm_inv_def)

lemma comm_inv_nth:
  assumes "comm_inv a" "3 \<le> i" "i < 128"
  shows "readBuffer a ! i = NUL"
proof -
  have "readBuffer a ! i = drop 3 (readBuffer a) ! (i - 3)"
    using assms by (subst nth_drop) (auto simp: comm_inv_def)
  also have "\<dots> = replicate 125 NUL ! (i - 3)" using assms(1) by (simp only: comm_inv_def)
  also have "\<dots> = NUL" using assms by (subst nth_replicate) auto
  finally show ?thesis .
qed

lemma process_sensor_core:
  assumes "comm_core a"
  shows "\<exists>r a'. process_sensor a sn v = Inr (r, a') \<and> comm_core a'"
proof (rule process_sensor_branches)
  fix l b
  show "\<exists>r a'. set_line a l b = Inr (r, a') \<and> comm_core a'"
    using assms by (simp add: set_line_def comm_core_def)
next
  fix ch :: nat
  assume ch: "ch < 4"
  show "\<exists>r a'. set_pwm3 a ch v = Inr (r, a') \<and> comm_core a'"
    using assms ch pwmEnableChannel_ready [of "PWMD3 a" ch "PWM_PERCENTAGE_TO_WIDTH (PWMD3 a) v"]
    by (auto simp: set_pwm3_def comm_core_def)
  show "\<exists>r a'. set_pwm4 a ch v = Inr (r, a') \<and> comm_core a'"
    using assms ch pwmEnableChannel_ready [of "PWMD4 a" ch "PWM_PERCENTAGE_TO_WIDTH (PWMD4 a) v"]
    by (auto simp: set_pwm4_def comm_core_def)
qed (use assms in simp)

lemma atoi_cases: "(\<exists>v. atoi s = Inr v) \<or> atoi s = Inl (Fault ''atoi out of range'')"
  by (auto simp: atoi_def Let_def)

text \<open>A reply is in the write buffer, its length is the one returned, and it fits.\<close>

definition reply_ready :: "app \<Rightarrow> (nat \<times> app) result \<Rightarrow> bool" where
  "reply_ready a res \<longleftrightarrow> (\<exists>a' t w. res = Inr (length t, a'\<lparr>writeBuffer := t @ NUL # w\<rparr>) \<and>
     comm_core (a'\<lparr>writeBuffer := t @ NUL # w\<rparr>) \<and> sent a' = sent a \<and>
     length t \<le> 250 \<and> NUL \<notin> set t)"

lemma reply_readyI:
  assumes "res = Inr (length t, a'\<lparr>writeBuffer := t @ NUL # drop (Suc (length t)) (writeBuffer a')\<rparr>)"
    "comm_core a'" "sent a' = sent a" "length t \<le> 250" "NUL \<notin> set t"
  shows "reply_ready a res"
  unfolding reply_ready_def using assms
  by (intro exI [of _ a'] exI [of _ t] exI [of _ "drop (Suc (length t)) (writeBuffer a')"])
    (simp add: comm_core_def)

lemma processStatus_ready:
  assumes "comm_core a"
  shows "reply_ready a (processStatus a)"
proof (rule reply_readyI)
  let ?t = "status_text (samples a) (ports a)"
  show len: "length ?t \<le> 250" using status_text_bound [of "samples a" "ports a"] by simp
  show "processStatus a =
      Inr (length ?t, a\<lparr>writeBuffer := ?t @ NUL # drop (Suc (length ?t)) (writeBuffer a)\<rparr>)"
    using assms len by (simp add: processStatus_def sprintf_ok comm_core_def)
qed (use assms status_text_no_NUL in auto)

lemma no_reply_ready:
  assumes "comm_core a" "writeBuffer a = replicate 256 NUL"
  shows "reply_ready a (Inr (0, a))"
proof (rule reply_readyI [where t = "[]" and a' = a])
  have "NUL # drop 1 (writeBuffer a) = writeBuffer a" using assms(2) by (simp add: Cons_replicate_eq)
  then show "Inr (0, a) = Inr (length ([] :: string),
      a\<lparr>writeBuffer := [] @ NUL # drop (Suc (length ([] :: string))) (writeBuffer a)\<rparr>)"
    by simp
qed (use assms in auto)

text \<open>The set branch with all three tokens.\<close>

lemma dispatch_set_ready:
  assumes core: "comm_core a" and cmd: "cstr (readBuffer a) p = Inr cmd" "strstr cmd SET"
    and o: "p \<le> e" "e < q" "q \<le> f" "f < r" "readBuffer a ! e = NUL"
      "readBuffer a ! f = NUL" "ends_from (readBuffer a) r"
  shows "reply_ready a (dispatch a (Some p) (Some q) (Some r)) \<or>
    dispatch a (Some p) (Some q) (Some r) = Inl (Fault ''atoi out of range'')"
proof -
  let ?b = "readBuffer a"
  have lb: "length ?b = 128" using core by (simp add: comm_core_def)
  obtain j where j: "r \<le> j" "j < 128" "?b ! j = NUL" using o lb by (auto simp: ends_from_def)
  obtain sn where sn: "cstr ?b q = Inr sn" "length sn \<le> f - q" "NUL \<notin> set sn"
    using cstr_total [of f ?b q] o j lb by auto
  obtain vs where vs: "cstr ?b r = Inr vs" "length vs \<le> j - r" "NUL \<notin> set vs"
    using cstr_total [of j ?b r] o j lb by auto
  have cm: "length cmd \<le> e - p" "NUL \<notin> set cmd"
    using cstr_total [of e ?b p] o j lb cmd by auto
  show ?thesis
  proof (cases "atoi vs")
    case (Inl x)
    then show ?thesis using atoi_cases [of vs] cmd vs
      by (auto simp: dispatch_def processCommand_def)
  next
    case (Inr i)
    obtain res a' where ps: "process_sensor a sn i = Inr (res, a')" "comm_core a'"
      using process_sensor_core [OF core] by blast
    note fr = process_sensor_frame [OF ps(1)]
    let ?t = "cmd @ ''|'' @ sn @ ''|'' @ vs @ ''|'' @ (if res = 0 then ACK else NACK)"
    have t: "length ?t \<le> 250" "NUL \<notin> set ?t"
      using cm sn vs o j by (auto simp: protocol_defs)
    have "dispatch a (Some p) (Some q) (Some r) = Inr (length ?t,
        a'\<lparr>writeBuffer := ?t @ NUL # drop (Suc (length ?t)) (writeBuffer a')\<rparr>)"
      using cmd vs sn Inr ps t core fr
      by (simp add: dispatch_def processCommand_def sprintf_ok comm_core_def)
    then have "reply_ready a (dispatch a (Some p) (Some q) (Some r))"
      using reply_readyI [OF _ ps(2) _ t] fr by blast
    then show ?thesis ..
  qed
qed

lemma dispatch_total:
  assumes core: "comm_core a" and tok: "tokens_ok (readBuffer a) c s v"
    and wb: "writeBuffer a = replicate 256 NUL"
  shows "reply_ready a (dispatch a c s v) \<or> (\<exists>e\<in>input_faults. dispatch a c s v = Inl e)"
proof (cases c)
  case None
  then show ?thesis by (simp add: dispatch_def input_faults_def)
next
  case (Some p)
  then obtain cmd where cmd: "cstr (readBuffer a) p = Inr cmd"
    using tok ends_from_cstr by (auto simp: tokens_ok_def)
  consider "\<not> strstr cmd SET" | "strstr cmd SET" "v = None" | r where "strstr cmd SET" "v = Some r"
    by blast
  then show ?thesis
  proof cases
    case 1
    with Some cmd show ?thesis using processStatus_ready [OF core] no_reply_ready [OF core wb]
      by (simp add: dispatch_def)
  next
    case 2
    with Some cmd show ?thesis by (simp add: dispatch_def processCommand_def input_faults_def)
  next
    case (3 r)
    then obtain q e f where "s = Some q" "p \<le> e" "e < q" "q \<le> f" "f < r" "readBuffer a ! e = NUL"
        "readBuffer a ! f = NUL" "ends_from (readBuffer a) r"
      using tok Some by (auto simp: tokens_ok_def)
    with 3 Some show ?thesis using dispatch_set_ready [OF core cmd] by (auto simp: input_faults_def)
  qed
qed

lemma decodeNetstring_total:
  assumes core: "comm_core a" and wb: "writeBuffer a = replicate 256 NUL"
    and msg: "\<And>p. msg = Some p \<Longrightarrow> ends_from (readBuffer a) p"
  shows "(\<exists>a'. decodeNetstring a msg = Inr a' \<and> comm_core a' \<and>
      (\<exists>t. sent a' = sent a @ [netstring t] \<and> length t \<le> 250))
    \<or> (\<exists>e\<in>input_faults. decodeNetstring a msg = Inl e)"
proof (cases msg)
  case None
  then show ?thesis
    by (simp add: decodeNetstring_dispatch tokens_def strtok_r_null dispatch_def input_faults_def)
next
  case (Some p)
  obtain c s v b where t: "tokens (readBuffer a) msg = Inr (c, s, v, b)"
      "length b = length (readBuffer a)" "tokens_ok b c s v"
    using tokens_total [OF msg [OF Some]] Some by blast
  let ?a = "a\<lparr>readBuffer := b\<rparr>"
  have "comm_core ?a" using core t(2) by (simp add: comm_core_def)
  then consider "reply_ready ?a (dispatch ?a c s v)" | e where "e \<in> input_faults" "dispatch ?a c s v = Inl e"
    using dispatch_total [of ?a c s v] t(3) wb by auto
  then show ?thesis
  proof cases
    case 1
    then obtain a' x w where d: "dispatch ?a c s v = Inr (length x, a'\<lparr>writeBuffer := x @ NUL # w\<rparr>)"
      "comm_core (a'\<lparr>writeBuffer := x @ NUL # w\<rparr>)" "sent a' = sent a" "length x \<le> 250" "NUL \<notin> set x"
      by (auto simp: reply_ready_def)
    let ?z = "a'\<lparr>writeBuffer := x @ NUL # w, sent := sent a @ [netstring x]\<rparr>"
    have "decodeNetstring a msg = Inr ?z"
      using t d by (simp add: decodeNetstring_dispatch sendMessage_text)
    moreover have "comm_core ?z" using d(2) by (simp add: comm_core_def)
    ultimately show ?thesis using d(4) by fastforce
  qed (use t in \<open>simp add: decodeNetstring_dispatch\<close>)
qed

lemma decodeMessage_total:
  assumes core: "comm_core a" and wb: "writeBuffer a = replicate 256 NUL"
    and e: "ends_from (readBuffer a) 0"
  shows "(\<exists>a'. decodeMessage a n = Inr a' \<and> comm_core a' \<and>
      (sent a' = sent a \<or> (\<exists>t. sent a' = sent a @ [netstring t] \<and> length t \<le> 250)))
    \<or> (\<exists>e\<in>input_faults. decodeMessage a n = Inl e)"
proof -
  let ?b = "readBuffer a"
  have first: "strtok_r ?b (Some 0) STATUS_DELIMITER (Some 0) =
      strtok_r ?b None STATUS_DELIMITER (Some 0)"
    by (simp add: strtok_r_def)
  have r0: "rest_ok ?b (Some 0)" using e by (simp add: rest_ok_def)
  obtain l b1 s1 where 1: "strtok_r ?b None STATUS_DELIMITER (Some 0) = Inr (l, b1, s1)"
      "next_ok ?b (Some 0) l b1 s1"
    using strtok_r_next [OF r0, of STATUS_DELIMITER] by (auto simp: STATUS_DELIMITER_def)
  obtain m b2 s2 where 2: "strtok_r b1 None MSG_END s1 = Inr (m, b2, s2)" "next_ok b1 s1 m b2 s2"
    using strtok_r_next [OF next_ok_rest [OF 1(2)], of MSG_END] by (auto simp: MSG_END_def)
  let ?a = "a\<lparr>readBuffer := b2\<rparr>"
  have c2: "comm_core ?a" using core 1(2) 2(2) by (simp add: comm_core_def next_ok_def)
  show ?thesis
  proof (cases l)
    case None
    then show ?thesis using first 1 2 by (simp add: decodeMessage_def input_faults_def)
  next
    case (Some p)
    then have "ends_from b2 p" using 1(2) next_ok_ends [OF 2(2)] by (simp add: next_ok_def)
    then obtain ls where ls: "cstr b2 p = Inr ls" using ends_from_cstr by blast
    have dm: "decodeMessage a n = bindE (atoi ls) (\<lambda>k.
        if k \<noteq> -1 \<and> k < int n then decodeNetstring ?a m else Inr ?a)"
      using first 1 2 Some ls by (simp add: decodeMessage_def Let_def)
    have msg: "ends_from (readBuffer ?a) q" if "m = Some q" for q
      using 2(2) that by (simp add: next_ok_def)
    show ?thesis
    proof (cases "atoi ls")
      case (Inl x)
      then show ?thesis using atoi_cases [of ls] dm by (auto simp: input_faults_def)
    next
      case (Inr k)
      have t: "(\<exists>a'. decodeNetstring ?a m = Inr a' \<and> comm_core a' \<and>
          (\<exists>t. sent a' = sent ?a @ [netstring t] \<and> length t \<le> 250))
        \<or> (\<exists>e\<in>input_faults. decodeNetstring ?a m = Inl e)"
        using decodeNetstring_total [OF c2 _ msg] wb by simp
      show ?thesis
      proof (cases "k \<noteq> -1 \<and> k < int n")
        case True
        with t Inr dm show ?thesis by auto
      next
        case False
        with Inr dm c2 show ?thesis by auto
      qed
    qed
  qed
qed

section \<open>The loop keeps its invariant\<close>

lemma dispatch_core:
  assumes "comm_core a" "dispatch a c s v = Inr (n, a')"
  shows "comm_core a'"
proof -
  have "comm_core a''" if "processCommand a s v = Inr (r, a'')" for r a''
    using that process_sensor_core [OF assms(1)]
    by (auto simp: processCommand_def res_simps) (metis prod.inject sum.inject(2))
  then show ?thesis
    using assms by (auto simp: dispatch_def res_simps processStatus_def comm_core_def split: if_splits)
qed

lemma decodeNetstring_core:
  assumes "comm_core a" "decodeNetstring a msg = Inr a'"
  shows "comm_core a'"
proof -
  obtain c s v b n a'' where t: "tokens (readBuffer a) msg = Inr (c, s, v, b)"
    "dispatch (a\<lparr>readBuffer := b\<rparr>) c s v = Inr (n, a'')" "sendMessage a'' n = Inr a'"
    using assms(2) by (auto simp: decodeNetstring_dispatch res_simps)
  have "length b = length (readBuffer a)"
    using t(1) by (auto simp: tokens_def res_simps dest!: strtok_r_length)
  then have "comm_core (a\<lparr>readBuffer := b\<rparr>)" using assms(1) by (simp add: comm_core_def)
  then have "comm_core a''" using t(2) by (rule dispatch_core)
  then show ?thesis using t(3) by (auto simp: sendMessage_def res_simps comm_core_def)
qed

lemma decodeMessage_core:
  assumes "comm_core a" "decodeMessage a n = Inr a'"
  shows "comm_core a'"
proof -
  have "comm_core (a\<lparr>readBuffer := b\<rparr>)" if "length b = length (readBuffer a)" for b
    using assms(1) that by (simp add: comm_core_def)
  then show ?thesis
    using assms(2) decodeNetstring_core
    by (fastforce simp: decodeMessage_def res_simps Let_def dest!: strtok_r_length split: if_splits)
qed

lemma communicationThr_step_keeps:
  assumes inv: "comm_inv a" and s: "communicationThr_step bs a = Inr a'"
  shows "comm_inv a'"
proof -
  let ?a = "a\<lparr>readBuffer := bs @ drop (length bs) (readBuffer a)\<rparr>"
  have len: "length bs \<le> 128" using inv s by (auto simp: communicationThr_step_def comm_inv_def split: if_splits)
  have core: "comm_core ?a" using inv len by (intro comm_inv_core) (auto simp: comm_inv_def)
  show ?thesis
  proof (cases "3 < length bs")
    case True
    then obtain z where "decodeMessage ?a (length bs) = Inr z"
      "a' = z\<lparr>readBuffer := memset0 (readBuffer z), writeBuffer := memset0 (writeBuffer z)\<rparr>"
      using s len inv by (auto simp: communicationThr_step_def res_simps comm_inv_def)
    then show ?thesis using decodeMessage_core [OF core] comm_core_clean by blast
  next
    case False
    then have "a' = ?a" using s len inv by (auto simp: communicationThr_step_def comm_inv_def)
    moreover have "drop 3 (bs @ drop (length bs) (readBuffer a)) = drop 3 (readBuffer a)"
      using False by simp
    ultimately show ?thesis using inv len by (simp add: comm_inv_def)
  qed
qed

definition request_frame :: "string \<Rightarrow> app \<Rightarrow> bool" where
  "request_frame bs a \<longleftrightarrow> (\<exists>req extra. frame req bs extra)"

lemma request_frame_total:
  assumes "comm_inv a" "request_frame bs a"
  shows "\<exists>a'. communicationThr_step bs a = Inr a'"
proof -
  obtain req extra where "frame req bs extra" using assms(2) by (auto simp: request_frame_def)
  then show ?thesis
    using assms(1) set_frame_refines get_frame_refines by (cases req) blast+
qed

interpretation commk: keeps_total communicationThr_step comm_inv request_frame
  by unfold_locales (rule communicationThr_step_keeps, assumption+, rule request_frame_total)

section \<open>Properties\<close>

text \<open>
  C2. No bytes received break the buffers. From any state between two reads, a read of less than
  128 arbitrary bytes either ends the turn in such a state again, with at most one reply, a
  netstring of a text of at most 250 characters; or it stops with one of four faults, each the use
  of a token that is not there or of a number \<^verbatim>\<open>int\<close> cannot hold. A write outside
  \<^verbatim>\<open>writeBuffer\<close> or the temporary buffer of \<^verbatim>\<open>sendMessage\<close>, a read outside \<^verbatim>\<open>readBuffer\<close>,
  a string without end and a halt in the PWM driver are not among them.
\<close>

theorem any_read_is_contained:
  assumes inv: "comm_inv a" and len: "length bs < 128"
  shows "(\<exists>a'. communicationThr_step bs a = Inr a' \<and> comm_inv a' \<and>
      (sent a' = sent a \<or> (\<exists>t. sent a' = sent a @ [netstring t] \<and> length t \<le> 250)))
    \<or> (\<exists>e\<in>input_faults. communicationThr_step bs a = Inl e)"
proof (cases "3 < length bs")
  case False
  let ?a = "a\<lparr>readBuffer := bs @ drop (length bs) (readBuffer a)\<rparr>"
  have "communicationThr_step bs a = Inr ?a"
    using False inv by (simp add: communicationThr_step_def comm_inv_def)
  with communicationThr_step_keeps [OF inv this] show ?thesis by simp
next
  case True
  let ?a = "a\<lparr>readBuffer := bs @ drop (length bs) (readBuffer a)\<rparr>"
  have rb: "length (readBuffer a) = 128" "writeBuffer a = replicate 256 NUL"
    using inv by (simp_all add: comm_inv_def)
  have "readBuffer ?a ! 127 = NUL" using True len rb comm_inv_nth [OF inv, of 127] by (simp add: nth_append)
  then have e: "ends_from (readBuffer ?a) 0"
    using True len rb by (auto simp: ends_from_def intro!: exI [of _ 127])
  have core: "comm_core ?a" using inv len rb by (intro comm_inv_core) auto
  have step: "communicationThr_step bs a = bindE (decodeMessage ?a (length bs)) (\<lambda>a.
      Inr (a\<lparr>readBuffer := memset0 (readBuffer a), writeBuffer := memset0 (writeBuffer a)\<rparr>))"
    using True len rb by (simp add: communicationThr_step_def Let_def)
  from decodeMessage_total [OF core _ e, of "length bs"] rb(2) consider
      z where "decodeMessage ?a (length bs) = Inr z" "comm_core z"
        "sent z = sent a \<or> (\<exists>t. sent z = sent a @ [netstring t] \<and> length t \<le> 250)"
    | x where "x \<in> input_faults" "decodeMessage ?a (length bs) = Inl x"
    by auto
  then show ?thesis
  proof cases
    case (1 z)
    with step comm_core_clean [OF 1(2)] show ?thesis by auto
  qed (use step in auto)
qed

theorem any_read_is_contained_witness:
  "comm_inv idle_app \<and> length ''abcd'' < 128 \<and>
   communicationThr_step ''abcd'' idle_app = Inl (Fault ''command'') \<and>
   ((\<exists>a'. communicationThr_step ''abcd'' idle_app = Inr a' \<and> comm_inv a' \<and>
      (sent a' = sent idle_app \<or> (\<exists>t. sent a' = sent idle_app @ [netstring t] \<and> length t \<le> 250)))
    \<or> (\<exists>e\<in>input_faults. communicationThr_step ''abcd'' idle_app = Inl e))"
proof -
  have l: "length ''abcd'' < 128" by simp
  have "fault_of (communicationThr_step ''abcd'' idle_app) = Some (Fault ''command'')" by code_simp
  then have "communicationThr_step ''abcd'' idle_app = Inl (Fault ''command'')" by simp
  with any_read_is_contained [OF comm_inv_idle l] show ?thesis using comm_inv_idle l by blast
qed



section \<open>Input that stops the node\<close>

lemma no_colon_faults:
  assumes inv: "comm_inv a" and bs: "3 < length bs" "length bs < 128" "NUL \<notin> set bs" "CHR '':'' \<notin> set bs"
    and k: "atoi bs = Inr k" "k \<noteq> -1" "k < int (length bs)"
  shows "communicationThr_step bs a = Inl (Fault ''command'')"
proof -
  have "readBuffer a ! length bs = NUL" using comm_inv_nth [OF inv] bs by simp
  then have rb: "drop (length bs) (readBuffer a) = NUL # drop (Suc (length bs)) (readBuffer a)"
    using bs inv by (simp add: Cons_nth_drop_Suc [symmetric] comm_inv_def)
  have tok: "strtok_r (bs @ NUL # rest) (Some 0) '':'' (Some 0) = Inr (Some 0, bs @ NUL # rest, None)"
    for rest
    using strtok_r_last [of bs "'':''" "Some 0" "Some 0" "[]" rest] bs by (cases bs) auto
  have "decodeMessage (a\<lparr>readBuffer := bs @ NUL # rest\<rparr>) (length bs) = Inl (Fault ''command'')" for rest
    using tok [of rest] k bs
    by (simp add: decodeMessage_def STATUS_DELIMITER_def strtok_r_null cstr_0 decodeNetstring_def)
  then show ?thesis using rb bs inv by (simp add: communicationThr_step_def comm_inv_def)
qed

lemma set_without_value_faults:
  assumes inv: "comm_inv a" and c: "token cmd" "strstr cmd SET"
    and len: "length (netstring cmd @ extra) \<le> 128"
  shows "communicationThr_step (netstring cmd @ extra) a = Inl (Fault ''value'')"
proof -
  let ?d = "dec_nat (length cmd)"
  obtain rest where s: "communicationThr_step (netstring cmd @ extra) a =
      bindE (decodeNetstring (a\<lparr>readBuffer := ?d @ NUL # cmd @ NUL # rest\<rparr>) (Some (length (?d @ [NUL]))))
        (\<lambda>a. Inr (a\<lparr>readBuffer := memset0 (readBuffer a), writeBuffer := memset0 (writeBuffer a)\<rparr>))"
    using communicationThr_step_payload [OF inv refl len] c unfolding token_def by blast
  have "strtok_r (?d @ NUL # cmd @ NUL # rest) (Some (Suc (length ?d))) ''|'' (Some (Suc (length ?d))) =
      Inr (Some (Suc (length ?d)), ?d @ NUL # cmd @ NUL # rest, None)"
    using strtok_r_last [of cmd "''|''" "Some (Suc (length ?d))" "Some (Suc (length ?d))" "?d @ [NUL]" rest] c
    by (auto simp: token_def)
  moreover have "cstr (?d @ NUL # cmd @ NUL # rest) (Suc (length ?d)) = Inr cmd"
    using cstr_at [of cmd "?d @ [NUL]" rest] c by (simp add: token_def)
  ultimately show ?thesis
    using s c by (simp add: decodeNetstring_def DELIMITER_def strtok_r_null processCommand_def)
qed

lemma full_buffer_faults:
  assumes inv: "comm_inv a" and bs: "length bs = 128" "NUL \<notin> set bs" "CHR '':'' \<notin> set bs"
  shows "communicationThr_step bs a = Inl (Fault ''scan outside array'')"
proof -
  obtain b0 bs' where b: "bs = b0 # bs'" using bs(1) by (cases bs) auto
  have "length (takeWhile (\<lambda>c. c \<noteq> NUL \<and> c \<notin> set '':'') bs) = length bs"
    using bs by (subst takeWhile_eq_all_conv [THEN iffD2]) auto
  then have "scan (\<lambda>c. c \<noteq> NUL \<and> c \<notin> set '':'') bs 0 = Inl (Fault ''scan outside array'')"
    by (simp add: scan_def)
  moreover have "scan (\<lambda>c. c \<in> set '':'') bs 0 = Inr 0" "bs ! 0 \<noteq> NUL"
    using bs b by (auto simp: scan_def)
  ultimately have "strtok_r bs (Some 0) '':'' (Some 0) = Inl (Fault ''scan outside array'')"
    by (simp add: strtok_r_def)
  then show ?thesis
    using bs(1) inv by (simp add: communicationThr_step_def decodeMessage_def STATUS_DELIMITER_def comm_inv_def)
qed

text \<open>
  C4. What stops the node. A read of 4 to 127 bytes without a colon, whose number (0 when it starts
  with none) is below its length, makes \<^verbatim>\<open>decodeNetstring\<close> search a null pointer; a set command
  with no sensor and value makes \<^verbatim>\<open>processCommand\<close> convert a null pointer; a read that fills all
  128 bytes with neither colon nor zero byte makes \<^verbatim>\<open>strtok_r\<close> read past the end of the buffer.
\<close>

theorem malformed_input_faults:
  assumes "comm_inv a"
  shows "(3 < length bs \<and> length bs < 128 \<and> NUL \<notin> set bs \<and> CHR '':'' \<notin> set bs \<and>
      atoi bs = Inr k \<and> k \<noteq> -1 \<and> k < int (length bs) \<longrightarrow>
        communicationThr_step bs a = Inl (Fault ''command'')) \<and>
    (token cmd \<and> strstr cmd SET \<and> length (netstring cmd @ extra) \<le> 128 \<longrightarrow>
        communicationThr_step (netstring cmd @ extra) a = Inl (Fault ''value'')) \<and>
    (length bs = 128 \<and> NUL \<notin> set bs \<and> CHR '':'' \<notin> set bs \<longrightarrow>
        communicationThr_step bs a = Inl (Fault ''scan outside array''))"
  using no_colon_faults [OF assms] set_without_value_faults [OF assms] full_buffer_faults [OF assms]
  by blast

theorem malformed_input_faults_witness:
  "communicationThr_step ''abcd'' idle_app = Inl (Fault ''command'') \<and>
   communicationThr_step (netstring ''set'') idle_app = Inl (Fault ''value'') \<and>
   communicationThr_step (replicate 128 (CHR ''x'')) idle_app = Inl (Fault ''scan outside array'')"
proof (intro conjI)
  note m = malformed_input_faults [OF comm_inv_idle]
  have "atoi ''abcd'' = Inr 0" by code_simp
  then show "communicationThr_step ''abcd'' idle_app = Inl (Fault ''command'')"
    using m [of "''abcd''" 0] by simp
  have "length (netstring ''set'' @ []) \<le> 128" by code_simp
  then show "communicationThr_step (netstring ''set'') idle_app = Inl (Fault ''value'')"
    using m [where cmd = "''set''" and extra = "[]"] by (simp add: token_def SET_def)
  show "communicationThr_step (replicate 128 (CHR ''x'')) idle_app = Inl (Fault ''scan outside array'')"
    using m [where bs = "replicate 128 (CHR ''x'')"] by simp
qed

end
