(* ===== verification/UsbDriver.thy ===== *)
theory UsbDriver
  imports Prelude
begin

text \<open>
  The USB device driver: \<^verbatim>\<open>os/hal/src/hal_usb.c\<close>, the macros of \<^verbatim>\<open>os/hal/include/hal_usb.h\<close>
  and, of the STM32 back end \<^verbatim>\<open>OTGv1/hal_usb_lld.c\<close>, what it does to the driver's own data: the
  split of endpoint 0 transfers, the completion handlers, the endpoint 0 configuration. The calls
  that only write peripheral registers are kept as a trace, \<open>lld\<close>. The build has
  \<^verbatim>\<open>USB_USE_WAIT\<close> off, early address setting and software status stages.

  The driver record is extensible: what the callbacks reach (the serial driver, its queues) is the
  rest of the record. A pointer to a callback is an identifier; the functions themselves are the
  parameter \<open>cfg\<close>, which stands for the \<^verbatim>\<open>USBConfig\<close> structure and the endpoint callbacks.
\<close>

section \<open>Constants\<close>

definition USB_RTYPE_DIR_MASK :: byte where "USB_RTYPE_DIR_MASK = 0x80"
definition USB_RTYPE_DIR_DEV2HOST :: byte where "USB_RTYPE_DIR_DEV2HOST = 0x80"
definition USB_RTYPE_TYPE_MASK :: byte where "USB_RTYPE_TYPE_MASK = 0x60"
definition USB_RTYPE_TYPE_STD :: byte where "USB_RTYPE_TYPE_STD = 0x00"
definition USB_RTYPE_TYPE_CLASS :: byte where "USB_RTYPE_TYPE_CLASS = 0x20"
definition USB_RTYPE_RECIPIENT_MASK :: byte where "USB_RTYPE_RECIPIENT_MASK = 0x1F"
definition USB_RTYPE_RECIPIENT_DEVICE :: byte where "USB_RTYPE_RECIPIENT_DEVICE = 0"
definition USB_RTYPE_RECIPIENT_INTERFACE :: byte where "USB_RTYPE_RECIPIENT_INTERFACE = 1"
definition USB_RTYPE_RECIPIENT_ENDPOINT :: byte where "USB_RTYPE_RECIPIENT_ENDPOINT = 2"

definition USB_REQ_GET_STATUS :: byte where "USB_REQ_GET_STATUS = 0"
definition USB_REQ_CLEAR_FEATURE :: byte where "USB_REQ_CLEAR_FEATURE = 1"
definition USB_REQ_SET_FEATURE :: byte where "USB_REQ_SET_FEATURE = 3"
definition USB_REQ_SET_ADDRESS :: byte where "USB_REQ_SET_ADDRESS = 5"
definition USB_REQ_GET_DESCRIPTOR :: byte where "USB_REQ_GET_DESCRIPTOR = 6"
definition USB_REQ_GET_CONFIGURATION :: byte where "USB_REQ_GET_CONFIGURATION = 8"
definition USB_REQ_SET_CONFIGURATION :: byte where "USB_REQ_SET_CONFIGURATION = 9"
definition USB_REQ_SYNCH_FRAME :: byte where "USB_REQ_SYNCH_FRAME = 12"

definition USB_FEATURE_ENDPOINT_HALT :: byte where "USB_FEATURE_ENDPOINT_HALT = 0"
definition USB_FEATURE_DEVICE_REMOTE_WAKEUP :: byte where "USB_FEATURE_DEVICE_REMOTE_WAKEUP = 1"

definition USB_EP_MODE_TYPE_CTRL :: "32 word" where "USB_EP_MODE_TYPE_CTRL = 0"
definition USB_EP_MODE_TYPE_BULK :: "32 word" where "USB_EP_MODE_TYPE_BULK = 2"
definition USB_EP_MODE_TYPE_INTR :: "32 word" where "USB_EP_MODE_TYPE_INTR = 3"

text \<open>The larger of the two controllers of the chip has five endpoints besides endpoint 0.\<close>

definition USB_MAX_ENDPOINTS :: nat where "USB_MAX_ENDPOINTS = 5"
definition EP0_MAX_INSIZE :: nat where "EP0_MAX_INSIZE = 64"
definition EP0_MAX_OUTSIZE :: nat where "EP0_MAX_OUTSIZE = 64"

lemmas usb_consts = USB_RTYPE_DIR_MASK_def USB_RTYPE_DIR_DEV2HOST_def USB_RTYPE_TYPE_MASK_def
  USB_RTYPE_TYPE_STD_def USB_RTYPE_TYPE_CLASS_def USB_RTYPE_RECIPIENT_MASK_def
  USB_RTYPE_RECIPIENT_DEVICE_def USB_RTYPE_RECIPIENT_INTERFACE_def USB_RTYPE_RECIPIENT_ENDPOINT_def
  USB_REQ_GET_STATUS_def USB_REQ_CLEAR_FEATURE_def USB_REQ_SET_FEATURE_def USB_REQ_SET_ADDRESS_def
  USB_REQ_GET_DESCRIPTOR_def USB_REQ_GET_CONFIGURATION_def USB_REQ_SET_CONFIGURATION_def
  USB_REQ_SYNCH_FRAME_def USB_FEATURE_ENDPOINT_HALT_def USB_FEATURE_DEVICE_REMOTE_WAKEUP_def
  USB_EP_MODE_TYPE_CTRL_def USB_EP_MODE_TYPE_BULK_def USB_EP_MODE_TYPE_INTR_def
  USB_MAX_ENDPOINTS_def EP0_MAX_INSIZE_def EP0_MAX_OUTSIZE_def

section \<open>Data\<close>

datatype usbstate = USB_UNINIT | USB_STOP | USB_READY | USB_SELECTED | USB_ACTIVE | USB_SUSPENDED

datatype usbepstatus = EP_STATUS_DISABLED | EP_STATUS_STALLED | EP_STATUS_ACTIVE

datatype usbep0state = USB_EP0_STP_WAITING | USB_EP0_IN_TX | USB_EP0_IN_WAITING_TX0
  | USB_EP0_IN_SENDING_STS | USB_EP0_OUT_WAITING_STS | USB_EP0_OUT_RX | USB_EP0_ERROR

datatype usbevent = USB_EVENT_RESET | USB_EVENT_ADDRESS | USB_EVENT_CONFIGURED
  | USB_EVENT_UNCONFIGURED | USB_EVENT_SUSPEND | USB_EVENT_WAKEUP | USB_EVENT_STALLED

text \<open>
  What a transfer buffer pointer refers to: nothing, an address in RAM, constant data, or an offset in
  a named variable of the driver structure.
\<close>

datatype usbptr = NullPtr | Ram nat | Rom "byte list" | Var string nat

type_synonym fnptr = nat
type_synonym usbep = nat

record USBDescriptor =
  ud_size :: nat
  ud_string :: "byte list"

record USBInEndpointState =
  txsize :: nat
  txcnt :: nat
  txbuf :: usbptr
  tx_totsize :: nat

record USBOutEndpointState =
  rxsize :: nat
  rxcnt :: nat
  rxbuf :: usbptr
  rx_totsize :: nat

record USBEndpointConfig =
  ep_mode :: "32 word"
  setup_cb :: "fnptr option"
  in_cb :: "fnptr option"
  out_cb :: "fnptr option"
  in_maxsize :: nat
  out_maxsize :: nat
  in_state :: bool
  out_state :: bool
  in_multiplier :: nat
  has_setup_buf :: bool

datatype lld_call = LldStart | LldStop | LldReset | LldSetAddress byte | LldInitEndpoint usbep
  | LldDisableEndpoints | LldStartOut usbep | LldStartIn usbep | LldStallOut usbep | LldStallIn usbep
  | LldClearOut usbep | LldClearIn usbep | LldWakeupHost | LldConnectBus | LldDisconnectBus

text \<open>
  The state structures the endpoint configurations point to are one per endpoint and direction; they
  are kept in the driver, \<open>ep_in\<close> and \<open>ep_out\<close>. \<open>setup_buf\<close> is the buffer the
  interrupt handler fills with a SETUP packet. \<open>umem\<close> is the RAM the FIFO handlers copy from and
  to; \<open>fifo_out\<close> and \<open>fifo_in\<close> are the logs of data packets pushed into the transmit FIFOs and
  popped from the receive FIFO: endpoint, size, words.
\<close>

record USBDriver =
  usb_state :: usbstate
  usb_config :: bool
  transmitting :: "16 word"
  receiving :: "16 word"
  epc :: "usbep \<Rightarrow> USBEndpointConfig option"
  in_params :: "nat \<Rightarrow> bool"
  out_params :: "nat \<Rightarrow> bool"
  ep0state :: usbep0state
  ep0next :: usbptr
  ep0n :: nat
  ep0endcb :: "fnptr option"
  setup_pkt :: "byte list"
  status :: "16 word"
  address :: byte
  configuration :: byte
  saved_state :: usbstate
  ep_in :: "usbep \<Rightarrow> USBInEndpointState"
  ep_out :: "usbep \<Rightarrow> USBOutEndpointState"
  setup_buf :: "byte list"
  umem :: mem
  fifo_out :: "(usbep \<times> nat \<times> 32 word list) list"
  fifo_in :: "(usbep \<times> nat \<times> 32 word list) list"
  lld :: "lld_call list"

type_synonym 'a uop = "'a USBDriver_scheme \<Rightarrow> 'a USBDriver_scheme result"

text \<open>
  \<^verbatim>\<open>USBConfig\<close>, the functions behind the endpoint callback and transfer end pointers, and what
  the endpoint control registers say when they are read.
\<close>

record 'a USBConfig =
  event_cb :: "(usbevent \<Rightarrow> 'a uop) option"
  get_descriptor_cb :: "byte \<Rightarrow> byte \<Rightarrow> 16 word \<Rightarrow> USBDescriptor option"
  requests_hook_cb :: "('a USBDriver_scheme \<Rightarrow> (bool \<times> 'a USBDriver_scheme) result) option"
  sof_cb :: "'a uop option"
  ep_callback :: "fnptr \<Rightarrow> usbep \<Rightarrow> 'a uop"
  end_callback :: "fnptr \<Rightarrow> 'a uop"
  status_in :: "usbep \<Rightarrow> usbepstatus"
  status_out :: "usbep \<Rightarrow> usbepstatus"

section \<open>Low level driver\<close>

definition zero_in :: USBInEndpointState where
  "zero_in = \<lparr>txsize = 0, txcnt = 0, txbuf = NullPtr, tx_totsize = 0\<rparr>"

definition zero_out :: USBOutEndpointState where
  "zero_out = \<lparr>rxsize = 0, rxcnt = 0, rxbuf = NullPtr, rx_totsize = 0\<rparr>"

text \<open>The functions endpoint 0 is configured with.\<close>

definition fn_ep0setup :: fnptr where "fn_ep0setup = 0"
definition fn_ep0in :: fnptr where "fn_ep0in = 1"
definition fn_ep0out :: fnptr where "fn_ep0out = 2"

lemmas fn_ep0_defs = fn_ep0setup_def fn_ep0in_def fn_ep0out_def

definition ep0config :: USBEndpointConfig where
  "ep0config = \<lparr>ep_mode = USB_EP_MODE_TYPE_CTRL, setup_cb = Some fn_ep0setup, in_cb = Some fn_ep0in,
     out_cb = Some fn_ep0out, in_maxsize = 64, out_maxsize = 64, in_state = True, out_state = True,
     in_multiplier = 1, has_setup_buf = True\<rparr>"

definition call_lld :: "lld_call \<Rightarrow> 'a USBDriver_scheme \<Rightarrow> 'a USBDriver_scheme" where
  "call_lld c d = d\<lparr>lld := lld d @ [c]\<rparr>"

definition usb_lld_reset :: "'a USBDriver_scheme \<Rightarrow> 'a USBDriver_scheme" where
  "usb_lld_reset d = call_lld LldReset (d\<lparr>epc := (epc d)(0 := Some ep0config)\<rparr>)"

definition usb_lld_set_address :: "'a USBDriver_scheme \<Rightarrow> 'a USBDriver_scheme" where
  "usb_lld_set_address d = call_lld (LldSetAddress (address d)) d"

text \<open>
  The two state structures of endpoint 0 are the members of one union and have the same layout, so
  a write to one is a write to the other.
\<close>

definition as_out :: "USBInEndpointState \<Rightarrow> USBOutEndpointState" where
  "as_out i = \<lparr>rxsize = txsize i, rxcnt = txcnt i, rxbuf = txbuf i, rx_totsize = tx_totsize i\<rparr>"

definition as_in :: "USBOutEndpointState \<Rightarrow> USBInEndpointState" where
  "as_in x = \<lparr>txsize = rxsize x, txcnt = rxcnt x, txbuf = rxbuf x, tx_totsize = rx_totsize x\<rparr>"

definition put_in :: "usbep \<Rightarrow> USBInEndpointState \<Rightarrow> 'a USBDriver_scheme \<Rightarrow> 'a USBDriver_scheme" where
  "put_in ep i d = d\<lparr>ep_in := (ep_in d)(ep := i),
     ep_out := (if ep = 0 then (ep_out d)(0 := as_out i) else ep_out d)\<rparr>"

definition put_out :: "usbep \<Rightarrow> USBOutEndpointState \<Rightarrow> 'a USBDriver_scheme \<Rightarrow> 'a USBDriver_scheme" where
  "put_out ep x d = d\<lparr>ep_out := (ep_out d)(ep := x),
     ep_in := (if ep = 0 then (ep_in d)(0 := as_in x) else ep_in d)\<rparr>"

definition usb_lld_start_out :: "usbep \<Rightarrow> 'a USBDriver_scheme \<Rightarrow> 'a USBDriver_scheme" where
  "usb_lld_start_out ep d =
     (let o1 = (ep_out d ep)\<lparr>rx_totsize := rxsize (ep_out d ep)\<rparr>;
          o2 = (if ep = 0 \<and> EP0_MAX_OUTSIZE < rxsize o1 then o1\<lparr>rxsize := EP0_MAX_OUTSIZE\<rparr> else o1)
      in call_lld (LldStartOut ep) (put_out ep o2 d))"

definition usb_lld_start_in :: "usbep \<Rightarrow> 'a USBDriver_scheme \<Rightarrow> 'a USBDriver_scheme" where
  "usb_lld_start_in ep d =
     (let i1 = (ep_in d ep)\<lparr>tx_totsize := txsize (ep_in d ep)\<rparr>;
          i2 = (if ep = 0 \<and> EP0_MAX_INSIZE < txsize i1 then i1\<lparr>txsize := EP0_MAX_INSIZE\<rparr> else i1)
      in call_lld (LldStartIn ep) (put_in ep i2 d))"

definition usb_lld_read_setup :: "usbep \<Rightarrow> 'a uop" where
  "usb_lld_read_setup ep d = bindE (deref ''epc'' (epc d ep)) (\<lambda>c.
     if has_setup_buf c then Inr (d\<lparr>setup_pkt := setup_buf d\<rparr>) else Inl (Fault ''setup_buf''))"

definition usb_lld_get_transaction_size :: "usbep \<Rightarrow> 'a USBDriver_scheme \<Rightarrow> nat" where
  "usb_lld_get_transaction_size ep d = rxcnt (ep_out d ep)"

section \<open>Macros\<close>

definition ep_bit :: "usbep \<Rightarrow> 16 word" where "ep_bit ep = push_bit ep 1"

definition usbGetTransmitStatusI :: "'a USBDriver_scheme \<Rightarrow> usbep \<Rightarrow> bool" where
  "usbGetTransmitStatusI d ep = (transmitting d AND ep_bit ep \<noteq> 0)"

definition usbGetReceiveStatusI :: "'a USBDriver_scheme \<Rightarrow> usbep \<Rightarrow> bool" where
  "usbGetReceiveStatusI d ep = (receiving d AND ep_bit ep \<noteq> 0)"

definition usbSetupTransfer ::
  "usbptr \<Rightarrow> nat \<Rightarrow> fnptr option \<Rightarrow> 'a USBDriver_scheme \<Rightarrow> 'a USBDriver_scheme" where
  "usbSetupTransfer buf n endcb d = d\<lparr>ep0next := buf, ep0n := n, ep0endcb := endcb\<rparr>"

definition usb_isr_invoke_event_cb :: "'a USBConfig \<Rightarrow> usbevent \<Rightarrow> 'a uop" where
  "usb_isr_invoke_event_cb cfg evt d =
     (if \<not> usb_config d then Inl (Fault ''config'')
      else case event_cb cfg of None \<Rightarrow> Inr d | Some f \<Rightarrow> f evt d)"

definition usb_isr_invoke_sof_cb :: "'a USBConfig \<Rightarrow> 'a uop" where
  "usb_isr_invoke_sof_cb cfg d =
     (if \<not> usb_config d then Inl (Fault ''config'')
      else case sof_cb cfg of None \<Rightarrow> Inr d | Some f \<Rightarrow> f d)"

section \<open>Starting transfers\<close>

text \<open>The state structure pointer of an endpoint's configuration, for either direction.\<close>

definition in_state_of :: "usbep \<Rightarrow> 'a uop" where
  "in_state_of ep d = bindE (deref ''epc'' (epc d ep)) (\<lambda>c.
     if in_state c then Inr d else Inl (Fault ''in_state''))"

definition out_state_of :: "usbep \<Rightarrow> 'a uop" where
  "out_state_of ep d = bindE (deref ''epc'' (epc d ep)) (\<lambda>c.
     if out_state c then Inr d else Inl (Fault ''out_state''))"

definition usbStartReceiveI :: "usbep \<Rightarrow> usbptr \<Rightarrow> nat \<Rightarrow> 'a uop" where
  "usbStartReceiveI ep buf n d =
     dbgCheck ''usbStartReceiveI'' (ep \<le> USB_MAX_ENDPOINTS)
     (dbgAssert ''already receiving'' (\<not> usbGetReceiveStatusI d ep)
       (bindE (out_state_of ep (d\<lparr>receiving := receiving d OR ep_bit ep\<rparr>)) (\<lambda>d.
          Inr (usb_lld_start_out ep (put_out ep ((ep_out d ep)\<lparr>rxbuf := buf, rxsize := n, rxcnt := 0\<rparr>) d)))))"

definition usbStartTransmitI :: "usbep \<Rightarrow> usbptr \<Rightarrow> nat \<Rightarrow> 'a uop" where
  "usbStartTransmitI ep buf n d =
     dbgCheck ''usbStartTransmitI'' (ep \<le> USB_MAX_ENDPOINTS)
     (dbgAssert ''already transmitting'' (\<not> usbGetTransmitStatusI d ep)
       (bindE (in_state_of ep (d\<lparr>transmitting := transmitting d OR ep_bit ep\<rparr>)) (\<lambda>d.
          Inr (usb_lld_start_in ep (put_in ep ((ep_in d ep)\<lparr>txbuf := buf, txsize := n, txcnt := 0\<rparr>) d)))))"

definition usbStallReceiveI :: "usbep \<Rightarrow> 'a USBDriver_scheme \<Rightarrow> bool \<times> 'a USBDriver_scheme" where
  "usbStallReceiveI ep d =
     (if usbGetReceiveStatusI d ep then (True, d) else (False, call_lld (LldStallOut ep) d))"

definition usbStallTransmitI :: "usbep \<Rightarrow> 'a USBDriver_scheme \<Rightarrow> bool \<times> 'a USBDriver_scheme" where
  "usbStallTransmitI ep d =
     (if usbGetTransmitStatusI d ep then (True, d) else (False, call_lld (LldStallIn ep) d))"

section \<open>Driver life cycle\<close>

definition usbObjectInit :: "'a USBDriver_scheme \<Rightarrow> 'a USBDriver_scheme" where
  "usbObjectInit d = d\<lparr>usb_state := USB_STOP, usb_config := False,
     in_params := (\<lambda>i. if i < USB_MAX_ENDPOINTS then False else in_params d i),
     out_params := (\<lambda>i. if i < USB_MAX_ENDPOINTS then False else out_params d i),
     transmitting := 0, receiving := 0\<rparr>"

text \<open>The loop that clears the endpoint pointers from \<open>first\<close> on.\<close>

definition clear_epc :: "nat \<Rightarrow> 'a USBDriver_scheme \<Rightarrow> 'a USBDriver_scheme" where
  "clear_epc first d =
     d\<lparr>epc := (\<lambda>i. if first \<le> i \<and> i \<le> USB_MAX_ENDPOINTS then None else epc d i)\<rparr>"

definition usbStart :: "'a uop" where
  "usbStart d =
     dbgAssert ''invalid state'' (usb_state d = USB_STOP \<or> usb_state d = USB_READY)
       (Inr ((call_lld LldStart (clear_epc 0 (d\<lparr>usb_config := True\<rparr>)))\<lparr>usb_state := USB_READY\<rparr>))"

definition usbStop :: "'a uop" where
  "usbStop d =
     dbgAssert ''invalid state'' (usb_state d \<in> {USB_STOP, USB_READY, USB_SELECTED, USB_ACTIVE, USB_SUSPENDED})
       (Inr (clear_epc 0 ((call_lld LldStop d)\<lparr>usb_config := False, usb_state := USB_STOP\<rparr>)))"

definition usbInitEndpointI :: "usbep \<Rightarrow> USBEndpointConfig \<Rightarrow> 'a uop" where
  "usbInitEndpointI ep c d =
     dbgAssert ''invalid state'' (usb_state d = USB_ACTIVE)
     (dbgAssert ''already initialized'' (epc d ep = None)
       (let d = d\<lparr>epc := (epc d)(ep := Some c)\<rparr>;
            d = (if in_state c then put_in ep zero_in d else d);
            d = (if out_state c then put_out ep zero_out d else d)
        in Inr (call_lld (LldInitEndpoint ep) d)))"

definition usbDisableEndpointsI :: "'a uop" where
  "usbDisableEndpointsI d =
     dbgAssert ''invalid state'' (usb_state d = USB_ACTIVE)
       (Inr (call_lld LldDisableEndpoints (clear_epc 1
          (d\<lparr>transmitting := transmitting d AND 1, receiving := receiving d AND 1\<rparr>))))"

definition usbWakeupHost :: "'a USBDriver_scheme \<Rightarrow> 'a USBDriver_scheme" where
  "usbWakeupHost d = (if usb_state d = USB_SUSPENDED then call_lld LldWakeupHost d else d)"

section \<open>Bus events\<close>

definition usb_reset :: "'a USBConfig \<Rightarrow> 'a uop" where
  "usb_reset cfg d =
     usb_isr_invoke_event_cb cfg USB_EVENT_RESET
       (usb_lld_reset ((clear_epc 0 (d\<lparr>usb_state := USB_READY, status := 0, address := 0,
          configuration := 0, transmitting := 0, receiving := 0\<rparr>))\<lparr>ep0state := USB_EP0_STP_WAITING\<rparr>))"

definition usb_suspend :: "'a USBConfig \<Rightarrow> 'a uop" where
  "usb_suspend cfg d =
     usb_isr_invoke_event_cb cfg USB_EVENT_SUSPEND
       (d\<lparr>saved_state := usb_state d, usb_state := USB_SUSPENDED\<rparr>)"

definition usb_wakeup :: "'a USBConfig \<Rightarrow> 'a uop" where
  "usb_wakeup cfg d = usb_isr_invoke_event_cb cfg USB_EVENT_WAKEUP (d\<lparr>usb_state := saved_state d\<rparr>)"

section \<open>Standard requests\<close>

definition get_hword :: "byte list \<Rightarrow> nat \<Rightarrow> 16 word" where
  "get_hword p i = ucast (p ! i) OR push_bit 8 (ucast (p ! (i + 1)))"

definition zero_status :: "byte list" where "zero_status = [0, 0]"
definition active_status :: "byte list" where "active_status = [0, 0]"
definition halted_status :: "byte list" where "halted_status = [1, 0]"

definition set_address :: "'a USBConfig \<Rightarrow> 'a uop" where
  "set_address cfg d =
     bindE (usb_isr_invoke_event_cb cfg USB_EVENT_ADDRESS
       (usb_lld_set_address (d\<lparr>address := setup_pkt d ! 2\<rparr>))) (\<lambda>d. Inr (d\<lparr>usb_state := USB_SELECTED\<rparr>))"

text \<open>The SET\_CONFIGURATION branch.\<close>

definition set_configuration :: "'a USBConfig \<Rightarrow> 'a uop" where
  "set_configuration cfg d =
     bindE (if usb_state d = USB_ACTIVE then
              bindE (usbDisableEndpointsI d) (\<lambda>d.
                usb_isr_invoke_event_cb cfg USB_EVENT_UNCONFIGURED
                  (d\<lparr>configuration := 0, usb_state := USB_SELECTED\<rparr>))
            else Inr d) (\<lambda>d.
       if setup_pkt d ! 2 \<noteq> 0 then
         usb_isr_invoke_event_cb cfg USB_EVENT_CONFIGURED
           (d\<lparr>configuration := setup_pkt d ! 2, usb_state := USB_ACTIVE\<rparr>)
       else Inr d)"

text \<open>The answer to GET\_STATUS of an endpoint.\<close>

definition endpoint_status :: "usbepstatus \<Rightarrow> 'a USBDriver_scheme \<Rightarrow> bool \<times> 'a USBDriver_scheme" where
  "endpoint_status st d = (case st of
      EP_STATUS_STALLED \<Rightarrow> (True, usbSetupTransfer (Rom halted_status) 2 None d)
    | EP_STATUS_ACTIVE \<Rightarrow> (True, usbSetupTransfer (Rom active_status) 2 None d)
    | EP_STATUS_DISABLED \<Rightarrow> (False, d))"

definition default_handler :: "'a USBConfig \<Rightarrow> 'a USBDriver_scheme \<Rightarrow> (bool \<times> 'a USBDriver_scheme) result" where
  "default_handler cfg d =
     (let p = setup_pkt d;
          rcpt = p ! 0 AND (USB_RTYPE_RECIPIENT_MASK OR USB_RTYPE_TYPE_MASK);
          req = p ! 1;
          ep = unat (p ! 4 AND 15);
          is_in = (p ! 4 AND 0x80 \<noteq> 0);
          ack = (\<lambda>d. Inr (True, usbSetupTransfer NullPtr 0 None d))
      in
      if rcpt = USB_RTYPE_RECIPIENT_DEVICE \<and> req = USB_REQ_GET_STATUS then
        Inr (True, usbSetupTransfer (Var ''status'' 0) 2 None d)
      else if rcpt = USB_RTYPE_RECIPIENT_DEVICE \<and> req = USB_REQ_CLEAR_FEATURE then
        if p ! 2 = USB_FEATURE_DEVICE_REMOTE_WAKEUP then ack (d\<lparr>status := status d AND NOT 2\<rparr>)
        else Inr (False, d)
      else if rcpt = USB_RTYPE_RECIPIENT_DEVICE \<and> req = USB_REQ_SET_FEATURE then
        if p ! 2 = USB_FEATURE_DEVICE_REMOTE_WAKEUP then ack (d\<lparr>status := status d OR 2\<rparr>)
        else Inr (False, d)
      else if rcpt = USB_RTYPE_RECIPIENT_DEVICE \<and> req = USB_REQ_SET_ADDRESS then
        if p ! 0 = USB_RTYPE_RECIPIENT_DEVICE \<and> p ! 1 = USB_REQ_SET_ADDRESS
        then bindE (set_address cfg d) ack else ack d
      else if (rcpt = USB_RTYPE_RECIPIENT_DEVICE \<or> rcpt = USB_RTYPE_RECIPIENT_INTERFACE) \<and>
              req = USB_REQ_GET_DESCRIPTOR then
        if \<not> usb_config d then Inl (Fault ''config'') else
        (case get_descriptor_cb cfg (p ! 3) (p ! 2) (get_hword p 4) of
           None \<Rightarrow> Inr (False, d)
         | Some dp \<Rightarrow> Inr (True, usbSetupTransfer (Rom (ud_string dp)) (ud_size dp) None d))
      else if rcpt = USB_RTYPE_RECIPIENT_DEVICE \<and> req = USB_REQ_GET_CONFIGURATION then
        Inr (True, usbSetupTransfer (Var ''configuration'' 0) 1 None d)
      else if rcpt = USB_RTYPE_RECIPIENT_DEVICE \<and> req = USB_REQ_SET_CONFIGURATION then
        bindE (set_configuration cfg d) ack
      else if rcpt = USB_RTYPE_RECIPIENT_INTERFACE \<and> req = USB_REQ_GET_STATUS \<or>
              rcpt = USB_RTYPE_RECIPIENT_ENDPOINT \<and> req = USB_REQ_SYNCH_FRAME then
        Inr (True, usbSetupTransfer (Rom zero_status) 2 None d)
      else if rcpt = USB_RTYPE_RECIPIENT_ENDPOINT \<and> req = USB_REQ_GET_STATUS then
        Inr (endpoint_status (if is_in then status_in cfg ep else status_out cfg ep) d)
      else if rcpt = USB_RTYPE_RECIPIENT_ENDPOINT \<and> req = USB_REQ_CLEAR_FEATURE then
        if p ! 2 \<noteq> USB_FEATURE_ENDPOINT_HALT then Inr (False, d)
        else if ep \<noteq> 0 then ack (call_lld (if is_in then LldClearIn ep else LldClearOut ep) d)
        else ack d
      else if rcpt = USB_RTYPE_RECIPIENT_ENDPOINT \<and> req = USB_REQ_SET_FEATURE then
        if p ! 2 \<noteq> USB_FEATURE_ENDPOINT_HALT then Inr (False, d)
        else if ep \<noteq> 0 then ack (call_lld (if is_in then LldStallIn ep else LldStallOut ep) d)
        else ack d
      else Inr (False, d))"

section \<open>Endpoint 0\<close>

text \<open>The error response the three handlers of endpoint 0 share.\<close>

definition ep0_error :: "'a USBConfig \<Rightarrow> 'a uop" where
  "ep0_error cfg d =
     bindE (usb_isr_invoke_event_cb cfg USB_EVENT_STALLED (call_lld (LldStallOut 0) (call_lld (LldStallIn 0) d)))
       (\<lambda>d. Inr (d\<lparr>ep0state := USB_EP0_ERROR\<rparr>))"

text \<open>Whether the requests hook or the default handler took the request.\<close>

definition handle_request :: "'a USBConfig \<Rightarrow> 'a USBDriver_scheme \<Rightarrow> (bool \<times> 'a USBDriver_scheme) result" where
  "handle_request cfg d =
     (if \<not> usb_config d then Inl (Fault ''config'') else
      bindE (case requests_hook_cb cfg of None \<Rightarrow> Inr (False, d) | Some f \<Rightarrow> f d) (\<lambda>(done, d).
        if done then Inr (True, d)
        else if setup_pkt d ! 0 AND USB_RTYPE_TYPE_MASK \<noteq> USB_RTYPE_TYPE_STD then Inr (False, d)
        else default_handler cfg d))"

text \<open>The data or status stage after an accepted request.\<close>

definition ep0_start_stage :: "'a uop" where
  "ep0_start_stage d =
     (let max = unat (get_hword (setup_pkt d) 6);
          d = (if max < ep0n d then d\<lparr>ep0n := max\<rparr> else d)
      in if setup_pkt d ! 0 AND USB_RTYPE_DIR_MASK = USB_RTYPE_DIR_DEV2HOST then
           if ep0n d \<noteq> 0 then usbStartTransmitI 0 (ep0next d) (ep0n d) (d\<lparr>ep0state := USB_EP0_IN_TX\<rparr>)
           else usbStartReceiveI 0 NullPtr 0 (d\<lparr>ep0state := USB_EP0_OUT_WAITING_STS\<rparr>)
         else
           if ep0n d \<noteq> 0 then usbStartReceiveI 0 (ep0next d) (ep0n d) (d\<lparr>ep0state := USB_EP0_OUT_RX\<rparr>)
           else usbStartTransmitI 0 NullPtr 0 (d\<lparr>ep0state := USB_EP0_IN_SENDING_STS\<rparr>))"

definition usb_ep0setup :: "'a USBConfig \<Rightarrow> usbep \<Rightarrow> 'a uop" where
  "usb_ep0setup cfg ep d =
     (let d = (if ep0state d \<noteq> USB_EP0_STP_WAITING then d\<lparr>ep0state := USB_EP0_STP_WAITING\<rparr> else d)
      in bindE (usb_lld_read_setup ep d) (\<lambda>d.
         bindE (handle_request cfg d) (\<lambda>(done, d).
           if \<not> done then ep0_error cfg d else ep0_start_stage d)))"

text \<open>The callback of the transfer, then back to waiting for a SETUP packet.\<close>

definition ep0_end :: "'a USBConfig \<Rightarrow> 'a uop" where
  "ep0_end cfg d =
     bindE (case ep0endcb d of None \<Rightarrow> Inr d | Some f \<Rightarrow> end_callback cfg f d)
       (\<lambda>d. Inr (d\<lparr>ep0state := USB_EP0_STP_WAITING\<rparr>))"

text \<open>Whether a data stage must end with an empty packet: all of it sent in full packets, less than asked.\<close>

definition needs_zlp :: "'a USBDriver_scheme \<Rightarrow> bool result" where
  "needs_zlp d =
     (if ep0n d < unat (get_hword (setup_pkt d) 6) then
        bindE (deref ''epc'' (epc d 0)) (\<lambda>c.
          if in_maxsize c = 0 then Inl (Fault ''division'') else Inr (ep0n d mod in_maxsize c = 0))
      else Inr False)"

definition usb_ep0in :: "'a USBConfig \<Rightarrow> usbep \<Rightarrow> 'a uop" where
  "usb_ep0in cfg ep d =
     (let wait_status = (\<lambda>d. usbStartReceiveI 0 NullPtr 0 (d\<lparr>ep0state := USB_EP0_OUT_WAITING_STS\<rparr>))
      in case ep0state d of
        USB_EP0_IN_TX \<Rightarrow>
          bindE (needs_zlp d) (\<lambda>z.
            if z then bindE (usbStartTransmitI 0 NullPtr 0 d) (\<lambda>d. Inr (d\<lparr>ep0state := USB_EP0_IN_WAITING_TX0\<rparr>))
            else wait_status d)
      | USB_EP0_IN_WAITING_TX0 \<Rightarrow> wait_status d
      | USB_EP0_IN_SENDING_STS \<Rightarrow> ep0_end cfg d
      | USB_EP0_ERROR \<Rightarrow> ep0_error cfg d
      | _ \<Rightarrow> Inl (DbgAssert ''EP0 state machine error''))"

definition usb_ep0out :: "'a USBConfig \<Rightarrow> usbep \<Rightarrow> 'a uop" where
  "usb_ep0out cfg ep d =
     (case ep0state d of
        USB_EP0_OUT_RX \<Rightarrow> usbStartTransmitI 0 NullPtr 0 (d\<lparr>ep0state := USB_EP0_IN_SENDING_STS\<rparr>)
      | USB_EP0_OUT_WAITING_STS \<Rightarrow>
          if usb_lld_get_transaction_size 0 d \<noteq> 0 then Inr d else ep0_end cfg d
      | USB_EP0_ERROR \<Rightarrow> ep0_error cfg d
      | _ \<Rightarrow> Inl (DbgAssert ''EP0 state machine error''))"

end
