(* ===== verification/UsbIsr.thy ===== *)
theory UsbIsr
  imports UsbDriver
begin

text \<open>
  The interrupt side of the USB driver: the endpoint callback macros of \<^verbatim>\<open>hal_usb.h\<close> and, of
  \<^verbatim>\<open>OTGv1/hal_usb_lld.c\<close>, the copy loops between memory and the packet FIFOs, the handlers of the
  FIFOs and of the endpoints, and the shared interrupt routine. What the hardware presents in its
  registers when the routine runs is the record \<open>otg_irq\<close>.
\<close>

section \<open>Endpoint callbacks\<close>

text \<open>A callback pointer is one of the three handlers of endpoint 0 or a function of the client.\<close>

definition call_ep :: "'a USBConfig \<Rightarrow> fnptr \<Rightarrow> usbep \<Rightarrow> 'a uop" where
  "call_ep cfg f ep =
     (if f = fn_ep0setup then usb_ep0setup cfg ep
      else if f = fn_ep0in then usb_ep0in cfg ep
      else if f = fn_ep0out then usb_ep0out cfg ep
      else ep_callback cfg f ep)"

definition usb_isr_invoke_setup_cb :: "'a USBConfig \<Rightarrow> usbep \<Rightarrow> 'a uop" where
  "usb_isr_invoke_setup_cb cfg ep d =
     bindE (deref ''epc'' (epc d ep)) (\<lambda>c.
     bindE (deref ''setup_cb'' (setup_cb c)) (\<lambda>f. call_ep cfg f ep d))"

definition usb_isr_invoke_in_cb :: "'a USBConfig \<Rightarrow> usbep \<Rightarrow> 'a uop" where
  "usb_isr_invoke_in_cb cfg ep d =
     (let d = d\<lparr>transmitting := transmitting d AND NOT (ep_bit ep)\<rparr> in
      bindE (deref ''epc'' (epc d ep)) (\<lambda>c.
        case in_cb c of None \<Rightarrow> Inr d | Some f \<Rightarrow> call_ep cfg f ep d))"

definition usb_isr_invoke_out_cb :: "'a USBConfig \<Rightarrow> usbep \<Rightarrow> 'a uop" where
  "usb_isr_invoke_out_cb cfg ep d =
     (let d = d\<lparr>receiving := receiving d AND NOT (ep_bit ep)\<rparr> in
      bindE (deref ''epc'' (epc d ep)) (\<lambda>c.
        case out_cb c of None \<Rightarrow> Inr d | Some f \<Rightarrow> call_ep cfg f ep d))"

section \<open>Packet FIFOs\<close>

text \<open>A word of memory, little endian; the bytes of a word.\<close>

definition word_at :: "(nat \<Rightarrow> byte) \<Rightarrow> nat \<Rightarrow> 32 word" where
  "word_at f i = ucast (f i) OR push_bit 8 (ucast (f (i + 1))) OR push_bit 16 (ucast (f (i + 2))) OR
     push_bit 24 (ucast (f (i + 3)))"

text \<open>
  \<^verbatim>\<open>otg_fifo_write_from_buffer\<close>: the words it pushes for \<open>n\<close> bytes from offset \<open>i\<close> of the
  buffer. The last word may read up to three bytes past the end.
\<close>

fun fifo_write_loop :: "(nat \<Rightarrow> byte) \<Rightarrow> nat \<Rightarrow> nat \<Rightarrow> 32 word list" where
  "fifo_write_loop buf i n = word_at buf i # (if n \<le> 4 then [] else fifo_write_loop buf (i + 4) (n - 4))"

declare fifo_write_loop.simps [simp del]

definition otg_fifo_write_from_buffer :: "(nat \<Rightarrow> byte) \<Rightarrow> nat \<Rightarrow> 32 word list result" where
  "otg_fifo_write_from_buffer buf n = dbgAssert ''is zero'' (0 < n) (Inr (fifo_write_loop buf 0 n))"

text \<open>
  \<^verbatim>\<open>otg_fifo_read_to_buffer\<close>: the bytes it stores, from the words in the FIFO; \<open>w\<close> is the word
  being consumed. A FIFO with fewer words than the packet needs is not something the controller
  presents.
\<close>

function fifo_read_loop :: "32 word \<Rightarrow> nat \<Rightarrow> 32 word list \<Rightarrow> nat \<Rightarrow> nat \<Rightarrow> byte list result" where
  "fifo_read_loop w i ws n mx =
     (if \<not> i < n then Inr [] else
      bindE (if i mod 4 = 0 then (case ws of [] \<Rightarrow> Inl (Fault ''fifo'') | v # vs \<Rightarrow> Inr (v, vs)) else Inr (w, ws))
        (\<lambda>(w, ws).
          if i < mx then bindE (fifo_read_loop (drop_bit 8 w) (i + 1) ws n mx) (\<lambda>bs. Inr (ucast w # bs))
          else fifo_read_loop w (i + 1) ws n mx))"
  by pat_completeness auto
termination by (relation "measure (\<lambda>(w, i, ws, n, mx). n - i)") auto

declare fifo_read_loop.simps [simp del]

definition otg_fifo_read_to_buffer :: "32 word list \<Rightarrow> nat \<Rightarrow> nat \<Rightarrow> byte list result" where
  "otg_fifo_read_to_buffer ws n mx = fifo_read_loop 0 0 ws n mx"

text \<open>What a buffer pointer reads, byte by byte; the pointer arithmetic; a store through it.\<close>

definition var_bytes :: "'a USBDriver_scheme \<Rightarrow> string \<Rightarrow> byte list" where
  "var_bytes d v =
     (if v = ''status'' then [ucast (status d), ucast (drop_bit 8 (status d))]
      else if v = ''configuration'' then [configuration d]
      else setup_pkt d)"

definition ptr_byte :: "'a USBDriver_scheme \<Rightarrow> usbptr \<Rightarrow> nat \<Rightarrow> byte" where
  "ptr_byte d p i = (case p of
      Ram a \<Rightarrow> umem d (a + i)
    | Rom bs \<Rightarrow> if i < length bs then bs ! i else 0
    | Var v k \<Rightarrow> if k + i < length (var_bytes d v) then var_bytes d v ! (k + i) else 0
    | NullPtr \<Rightarrow> 0)"

fun ptr_add :: "usbptr \<Rightarrow> nat \<Rightarrow> usbptr" where
  "ptr_add NullPtr n = (if n = 0 then NullPtr else Ram n)"
| "ptr_add (Ram a) n = Ram (a + n)"
| "ptr_add (Rom bs) n = Rom (drop n bs)"
| "ptr_add (Var v k) n = Var v (k + n)"

definition var_store :: "string \<Rightarrow> byte list \<Rightarrow> 'a USBDriver_scheme \<Rightarrow> 'a USBDriver_scheme" where
  "var_store v bs d =
     (if v = ''status'' then d\<lparr>status := ucast (bs ! 0) OR push_bit 8 (ucast (bs ! 1))\<rparr>
      else if v = ''configuration'' then d\<lparr>configuration := bs ! 0\<rparr>
      else d\<lparr>setup_pkt := bs\<rparr>)"

definition ptr_store :: "usbptr \<Rightarrow> byte list \<Rightarrow> 'a uop" where
  "ptr_store p bs d =
     (if bs = [] then Inr d else case p of
        Ram a \<Rightarrow> Inr (d\<lparr>umem := store_bytes (umem d) a bs\<rparr>)
      | Var v k \<Rightarrow>
          if length (var_bytes d v) < k + length bs then Inl (Fault ''rxbuf'')
          else Inr (var_store v (take k (var_bytes d v) @ bs @ drop (k + length bs) (var_bytes d v)) d)
      | _ \<Rightarrow> Inl (Fault ''rxbuf''))"

datatype pktsts = SETUP_DATA | SETUP_COMP | OUT_DATA | OUT_COMP | OUT_GLOBAL_NAK

text \<open>The difference of two sizes wraps at 32 bits.\<close>

definition size_minus :: "nat \<Rightarrow> nat \<Rightarrow> nat" where
  "size_minus a b = nat ((int a - int b) mod 2 ^ 32)"

definition otg_rxfifo_handler :: "pktsts \<Rightarrow> usbep \<Rightarrow> nat \<Rightarrow> 32 word list \<Rightarrow> 'a uop" where
  "otg_rxfifo_handler sts ep cnt ws d = (case sts of
      SETUP_DATA \<Rightarrow>
        bindE (deref ''epc'' (epc d ep)) (\<lambda>c.
        bindE (otg_fifo_read_to_buffer ws cnt 8) (\<lambda>bs.
          if \<not> has_setup_buf c then Inl (Fault ''setup_buf'')
          else Inr (d\<lparr>setup_buf := bs @ drop (length bs) (setup_buf d)\<rparr>)))
    | OUT_DATA \<Rightarrow>
        bindE (out_state_of ep d) (\<lambda>d.
          let osp = ep_out d ep in
          bindE (otg_fifo_read_to_buffer ws cnt (size_minus (rxsize osp) (rxcnt osp))) (\<lambda>bs.
          bindE (ptr_store (rxbuf osp) bs d) (\<lambda>d.
            Inr (put_out ep (osp\<lparr>rxbuf := ptr_add (rxbuf osp) cnt, rxcnt := rxcnt osp + cnt\<rparr>)
              (d\<lparr>fifo_in := fifo_in d @ [(ep, cnt, ws)]\<rparr>)))))
    | _ \<Rightarrow> Inr d)"

text \<open>
  The loop of \<^verbatim>\<open>otg_txfifo_handler\<close>. \<open>space\<close> are the successive readings of the free FIFO words;
  when the readings end there is no space.
\<close>

fun otg_txfifo_handler :: "nat list \<Rightarrow> usbep \<Rightarrow> 'a uop" where
  "otg_txfifo_handler space ep d =
     bindE (deref ''epc'' (epc d ep)) (\<lambda>c.
     bindE (in_state_of ep d) (\<lambda>d.
       let isp = ep_in d ep in
       if txsize isp \<le> txcnt isp then Inr d else
       let n = min (txsize isp - txcnt isp) (in_maxsize c) in
       case space of
         [] \<Rightarrow> Inr d
       | sp # space' \<Rightarrow>
           if sp * 4 < n then Inr d else
           bindE (otg_fifo_write_from_buffer (ptr_byte d (txbuf isp)) n) (\<lambda>ws.
             otg_txfifo_handler space' ep
               (put_in ep (isp\<lparr>txbuf := ptr_add (txbuf isp) n, txcnt := txcnt isp + n\<rparr>)
                 (d\<lparr>fifo_out := fifo_out d @ [(ep, n, ws)]\<rparr>)))))"

declare otg_txfifo_handler.simps [simp del]

section \<open>Endpoint handlers\<close>

text \<open>
  The flags are those of \<^verbatim>\<open>DIEPINT\<close> and \<^verbatim>\<open>DOEPINT\<close> that are enabled: transfer complete, FIFO
  empty with the space readings, SETUP received.
\<close>

definition otg_epin_handler :: "'a USBConfig \<Rightarrow> bool \<Rightarrow> nat list option \<Rightarrow> usbep \<Rightarrow> 'a uop" where
  "otg_epin_handler cfg xfrc txfe ep d =
     bindE
       (if xfrc then
          bindE (in_state_of ep d) (\<lambda>d.
            let isp = ep_in d ep in
            if txsize isp < tx_totsize isp
            then Inr (usb_lld_start_in ep (put_in ep (isp\<lparr>txsize := tx_totsize isp - txsize isp, txcnt := 0\<rparr>) d))
            else usb_isr_invoke_in_cb cfg ep d)
        else Inr d)
       (\<lambda>d. case txfe of None \<Rightarrow> Inr d | Some space \<Rightarrow> otg_txfifo_handler space ep d)"

definition otg_epout_handler :: "'a USBConfig \<Rightarrow> bool \<Rightarrow> bool \<Rightarrow> usbep \<Rightarrow> 'a uop" where
  "otg_epout_handler cfg stup xfrc ep d =
     bindE (if stup then usb_isr_invoke_setup_cb cfg ep d else Inr d) (\<lambda>d.
       if \<not> xfrc then Inr d else
       bindE (deref ''epc'' (epc d ep)) (\<lambda>c.
         if ep \<noteq> 0 then usb_isr_invoke_out_cb cfg ep d
         else if out_maxsize c = 0 then Inl (Fault ''division'')
         else bindE (out_state_of ep d) (\<lambda>d.
           let osp = ep_out d ep in
           if rxcnt osp mod out_maxsize c = 0 \<and> rxsize osp < rx_totsize osp
           then Inr (usb_lld_start_out ep (put_out ep (osp\<lparr>rxsize := rx_totsize osp - rxsize osp, rxcnt := 0\<rparr>) d))
           else usb_isr_invoke_out_cb cfg ep d)))"

section \<open>The interrupt routine\<close>

text \<open>
  The enabled interrupt flags and, for each, what its handler reads: the status word and the words of
  the receive FIFO; per endpoint the flags of its interrupt register, \<open>None\<close> when the endpoint is not
  in \<^verbatim>\<open>DAINT\<close>; the endpoints found isochronous and still enabled.
\<close>

record otg_irq =
  usbrst :: bool
  wkupint :: bool
  usbsusp :: bool
  sofint :: bool
  iso_in :: "usbep \<Rightarrow> nat list option"
  iso_out :: "usbep \<Rightarrow> bool"
  rxflvl :: "(pktsts \<times> usbep \<times> nat \<times> 32 word list) option"
  oepint :: "usbep \<Rightarrow> (bool \<times> bool) option"
  iepint :: "usbep \<Rightarrow> (bool \<times> nat list option) option"

definition otg_isoc_in_failed_handler :: "'a USBConfig \<Rightarrow> nat \<Rightarrow> (usbep \<Rightarrow> nat list option) \<Rightarrow> 'a uop" where
  "otg_isoc_in_failed_handler cfg num isoc =
     run_ops (\<lambda>ep d. case isoc ep of None \<Rightarrow> Inr d
       | Some space \<Rightarrow> bindE (usb_isr_invoke_in_cb cfg ep d) (otg_txfifo_handler space ep)) [0 ..< num + 1]"

definition otg_isoc_out_failed_handler :: "'a USBConfig \<Rightarrow> nat \<Rightarrow> (usbep \<Rightarrow> bool) \<Rightarrow> 'a uop" where
  "otg_isoc_out_failed_handler cfg num isoc =
     run_ops (\<lambda>ep d. if isoc ep then usb_isr_invoke_out_cb cfg ep d else Inr d) [0 ..< num + 1]"

definition usb_lld_serve_interrupt :: "'a USBConfig \<Rightarrow> nat \<Rightarrow> otg_irq \<Rightarrow> 'a uop" where
  "usb_lld_serve_interrupt cfg num q d =
     (if usbrst q then usb_reset cfg d else
      bindE (if wkupint q then usb_wakeup cfg d else Inr d) (\<lambda>d.
      bindE (if usbsusp q then usb_suspend cfg d else Inr d) (\<lambda>d.
      bindE (if sofint q then usb_isr_invoke_sof_cb cfg d else Inr d) (\<lambda>d.
      bindE (otg_isoc_in_failed_handler cfg num (iso_in q) d) (\<lambda>d.
      bindE (otg_isoc_out_failed_handler cfg num (iso_out q) d) (\<lambda>d.
      bindE (case rxflvl q of None \<Rightarrow> Inr d | Some (sts, ep, cnt, ws) \<Rightarrow> otg_rxfifo_handler sts ep cnt ws d) (\<lambda>d.
      bindE (run_ops (\<lambda>ep d. case oepint q ep of None \<Rightarrow> Inr d
               | Some (stup, xfrc) \<Rightarrow> otg_epout_handler cfg stup xfrc ep d) [0 ..< USB_MAX_ENDPOINTS + 1] d) (\<lambda>d.
        run_ops (\<lambda>ep d. case iepint q ep of None \<Rightarrow> Inr d
               | Some (xfrc, txfe) \<Rightarrow> otg_epin_handler cfg xfrc txfe ep d) [0 ..< USB_MAX_ENDPOINTS + 1] d))))))))"

text \<open>The interrupts with a single cause.\<close>

definition no_irq :: otg_irq where
  "no_irq = \<lparr>usbrst = False, wkupint = False, usbsusp = False, sofint = False, iso_in = (\<lambda>_. None),
     iso_out = (\<lambda>_. False), rxflvl = None, oepint = (\<lambda>_. None), iepint = (\<lambda>_. None)\<rparr>"

definition irq_out :: "usbep \<Rightarrow> bool \<Rightarrow> bool \<Rightarrow> otg_irq" where
  "irq_out ep stup xfrc = no_irq\<lparr>oepint := (\<lambda>_. None)(ep := Some (stup, xfrc))\<rparr>"

definition irq_in :: "usbep \<Rightarrow> bool \<Rightarrow> nat list option \<Rightarrow> otg_irq" where
  "irq_in ep xfrc txfe = no_irq\<lparr>iepint := (\<lambda>_. None)(ep := Some (xfrc, txfe))\<rparr>"

definition irq_rx :: "pktsts \<Rightarrow> usbep \<Rightarrow> nat \<Rightarrow> 32 word list \<Rightarrow> otg_irq" where
  "irq_rx sts ep cnt ws = no_irq\<lparr>rxflvl := Some (sts, ep, cnt, ws)\<rparr>"

lemma run_ops_idle: "\<forall>x \<in> set xs. \<forall>s. f x s = Inr s \<Longrightarrow> run_ops f xs s = Inr s"
  by (induction xs) auto

lemma run_ops_one:
  assumes "distinct xs" "x \<in> set xs" "\<And>y s. y \<noteq> x \<Longrightarrow> f y s = Inr s"
  shows "run_ops f xs s = f x s"
  using assms
proof (induction xs arbitrary: s)
  case (Cons y ys)
  show ?case
  proof (cases "y = x")
    case True
    have "run_ops f ys s = Inr s" for s using Cons.prems(1,3) True by (intro run_ops_idle ballI allI) (metis distinct.simps(2))
    then show ?thesis using True by (cases "f x s") auto
  next
    case False
    then show ?thesis using Cons by auto
  qed
qed simp

lemma serve_idle [simp]:
  "otg_isoc_in_failed_handler cfg num (\<lambda>_. None) d = Inr d" "otg_isoc_out_failed_handler cfg num (\<lambda>_. False) d = Inr d"
  by (auto simp: otg_isoc_in_failed_handler_def otg_isoc_out_failed_handler_def intro!: run_ops_idle)

lemma serve_single:
  "ep \<le> USB_MAX_ENDPOINTS \<Longrightarrow> usb_lld_serve_interrupt cfg num (irq_out ep stup xfrc) d = otg_epout_handler cfg stup xfrc ep d"
  "ep \<le> USB_MAX_ENDPOINTS \<Longrightarrow> usb_lld_serve_interrupt cfg num (irq_in ep xfrc txfe) d = otg_epin_handler cfg xfrc txfe ep d"
  "usb_lld_serve_interrupt cfg num (irq_rx sts ep cnt ws) d = otg_rxfifo_handler sts ep cnt ws d"
  "usb_lld_serve_interrupt cfg num (no_irq\<lparr>usbrst := True\<rparr>) d = usb_reset cfg d"
  "usb_lld_serve_interrupt cfg num (no_irq\<lparr>wkupint := True\<rparr>) d = usb_wakeup cfg d"
  "usb_lld_serve_interrupt cfg num (no_irq\<lparr>usbsusp := True\<rparr>) d = usb_suspend cfg d"
  "usb_lld_serve_interrupt cfg num (no_irq\<lparr>sofint := True\<rparr>) d = usb_isr_invoke_sof_cb cfg d"
proof -
  have idle: "run_ops (\<lambda>ep d. Inr d) xs = (Inr :: 'a USBDriver_scheme \<Rightarrow> _)" for xs
    by (rule ext, rule run_ops_idle) auto
  have bind: "bindE r Inr = r" for r :: "'a USBDriver_scheme result" by (cases r) auto
  have one: "run_ops (\<lambda>i d. case ((\<lambda>_. None)(ep := Some v)) i of None \<Rightarrow> Inr d | Some w \<Rightarrow> h w i d)
      [0 ..< USB_MAX_ENDPOINTS + 1] d = h v ep d" if "ep \<le> USB_MAX_ENDPOINTS" for h v and d :: "'a USBDriver_scheme"
    using that by (subst run_ops_one [of _ ep]) auto
  note defs = usb_lld_serve_interrupt_def irq_out_def irq_in_def irq_rx_def no_irq_def
  show "usb_lld_serve_interrupt cfg num (irq_out ep stup xfrc) d = otg_epout_handler cfg stup xfrc ep d"
    if "ep \<le> USB_MAX_ENDPOINTS"
    using one [OF that, of "\<lambda>w ep d. case w of (stup, xfrc) \<Rightarrow> otg_epout_handler cfg stup xfrc ep d" "(stup, xfrc)" d]
    by (simp add: defs idle bind del: upt_Suc fun_upd_apply)
  show "usb_lld_serve_interrupt cfg num (irq_in ep xfrc txfe) d = otg_epin_handler cfg xfrc txfe ep d"
    if "ep \<le> USB_MAX_ENDPOINTS"
    using one [OF that, of "\<lambda>w ep d. case w of (xfrc, txfe) \<Rightarrow> otg_epin_handler cfg xfrc txfe ep d" "(xfrc, txfe)" d]
    by (simp add: defs idle bind del: upt_Suc fun_upd_apply)
  show "usb_lld_serve_interrupt cfg num (irq_rx sts ep cnt ws) d = otg_rxfifo_handler sts ep cnt ws d"
    "usb_lld_serve_interrupt cfg num (no_irq\<lparr>usbrst := True\<rparr>) d = usb_reset cfg d"
    "usb_lld_serve_interrupt cfg num (no_irq\<lparr>wkupint := True\<rparr>) d = usb_wakeup cfg d"
    "usb_lld_serve_interrupt cfg num (no_irq\<lparr>usbsusp := True\<rparr>) d = usb_suspend cfg d"
    "usb_lld_serve_interrupt cfg num (no_irq\<lparr>sofint := True\<rparr>) d = usb_isr_invoke_sof_cb cfg d"
    by (simp_all add: defs idle bind del: upt_Suc)
qed

end
