(* ===== verification/UsbFifo.thy ===== *)
theory UsbFifo
  imports UsbIsr
begin

text \<open>
  The copy loops between memory and the packet FIFOs: the words pushed for a buffer carry its bytes,
  little endian, and reading them back stores as many of them as fit.
\<close>

definition word_bytes :: "32 word \<Rightarrow> byte list" where
  "word_bytes w = [ucast w, ucast (drop_bit 8 w), ucast (drop_bit 16 w), ucast (drop_bit 24 w)]"

lemma length_word_bytes [simp]: "length (word_bytes w) = 4"
  by (simp add: word_bytes_def)

lemma word_bytes_word_at: "word_bytes (word_at f i) = [f i, f (i + 1), f (i + 2), f (i + 3)]"
proof -
  have hi: "\<not> bit (f j) (8 + k)" "\<not> bit (f j) (16 + k)" "\<not> bit (f j) (24 + k)" for j k
    using bit_imp_le_length by fastforce+
  show ?thesis
    by (auto simp: word_bytes_def word_at_def hi bit_simps intro!: bit_word_eqI)
qed

lemma word_bytes_nth: "i < 4 \<Longrightarrow> word_bytes w ! i = ucast (drop_bit (8 * i) w)"
  by (auto simp: word_bytes_def less_Suc_eq numeral_eq_Suc)

text \<open>The bytes of a packet of \<open>n\<close> bytes in the FIFO.\<close>

definition packet_bytes :: "nat \<Rightarrow> 32 word list \<Rightarrow> byte list" where
  "packet_bytes n ws = take n (concat (map word_bytes ws))"

lemma concat_word_bytes_nth:
  "k < 4 * length ws \<Longrightarrow> concat (map word_bytes ws) ! k = word_bytes (ws ! (k div 4)) ! (k mod 4)"
proof (induction ws arbitrary: k)
  case (Cons w ws)
  show ?case
  proof (cases "k < 4")
    case False
    then have "(k - 4) div 4 = k div 4 - 1" "(k - 4) mod 4 = k mod 4" "0 < k div 4"
      by (auto simp: le_mod_geq le_div_geq)
    with False Cons show ?thesis by (simp add: nth_append nth_Cons')
  qed (simp add: nth_append)
qed simp

lemma length_concat_word_bytes [simp]: "length (concat (map word_bytes ws)) = 4 * length ws"
  by (induction ws) auto

lemma length_packet_bytes: "n \<le> 4 * length ws \<Longrightarrow> length (packet_bytes n ws) = n"
  by (simp add: packet_bytes_def)

section \<open>Writing\<close>

lemma fifo_write_words: "concat (map word_bytes (fifo_write_loop f i n)) =
    map f [i ..< i + 4 * length (fifo_write_loop f i n)]"
proof (induction f i n rule: fifo_write_loop.induct)
  case (1 f i n)
  have w: "word_bytes (word_at f i) = map f [i ..< i + 4]"
    by (simp add: word_bytes_word_at upt_rec numeral_eq_Suc)
  show ?case
  proof (cases "n \<le> 4")
    case True
    then show ?thesis using w by (simp add: fifo_write_loop.simps [of f i n])
  next
    case False
    let ?r = "fifo_write_loop f (i + 4) (n - 4)"
    have "map f [i ..< i + 4] @ map f [i + 4 ..< i + 4 + 4 * length ?r] = map f [i ..< i + (4 + 4 * length ?r)]"
      using upt_add_eq_append [of i "i + 4" "4 * length ?r"]
      by (simp flip: map_append add: add.assoc)
    then show ?thesis using False 1 w by (simp add: fifo_write_loop.simps [of f i n])
  qed
qed

lemma fifo_write_length: "0 < n \<Longrightarrow> length (fifo_write_loop f i n) = (n + 3) div 4"
proof (induction f i n rule: fifo_write_loop.induct)
  case (1 f i n)
  show ?case
  proof (cases "n \<le> 4")
    case True
    then have "n = 1 \<or> n = 2 \<or> n = 3 \<or> n = 4" using 1(2) by auto
    then show ?thesis by (auto simp: fifo_write_loop.simps [of f i n])
  next
    case False
    have "(n + 3) div 4 = Suc ((n - 4 + 3) div 4)" using False by presburger
    then show ?thesis using False 1 by (simp add: fifo_write_loop.simps [of f i n])
  qed
qed

lemma packet_written:
  assumes "otg_fifo_write_from_buffer f n = Inr ws"
  shows "packet_bytes n ws = map f [0 ..< n]" "length ws = (n + 3) div 4" "0 < n"
proof -
  have n: "0 < n" and ws: "ws = fifo_write_loop f 0 n"
    using assms by (auto simp: otg_fifo_write_from_buffer_def res_simps)
  show "0 < n" by (fact n)
  show len: "length ws = (n + 3) div 4" using n ws by (simp add: fifo_write_length)
  have "n \<le> 4 * length ws" using len by simp
  then show "packet_bytes n ws = map f [0 ..< n]"
    using fifo_write_words [of f 0 n] by (simp add: packet_bytes_def ws take_map)
qed

section \<open>Reading\<close>

text \<open>
  The state of the read loop at byte \<open>i\<close>: \<open>ws\<close> are the words of the packet, \<open>vs\<close> those not
  yet popped; while bytes are being stored the current word is shifted to byte \<open>i\<close>.
\<close>

lemma fifo_read_ok:
  assumes "n \<le> 4 * length ws" "i \<le> n" "vs = drop ((i + 3) div 4) ws"
    "i mod 4 \<noteq> 0 \<Longrightarrow> i < mx \<Longrightarrow> w = drop_bit (8 * (i mod 4)) (ws ! (i div 4))"
  shows "fifo_read_loop w i vs n mx = Inr (drop i (take (min n mx) (concat (map word_bytes ws))))"
  using assms
proof (induction w i vs n mx rule: fifo_read_loop.induct)
  case (1 w i vs n mx)
  let ?b = "concat (map word_bytes ws)"
  show ?case
  proof (cases "i < n")
    case False
    then show ?thesis using 1(4) by (simp add: fifo_read_loop.simps)
  next
    case True
    define w' where "w' = drop_bit (8 * (i mod 4)) (ws ! (i div 4))"
    have il: "i div 4 < length ws" using True 1(3) by auto
    have next_div: "(i + 4) div 4 = Suc (i div 4)" by simp
    have vs: "vs = (if i mod 4 = 0 then ws ! (i div 4) # drop (Suc (i div 4)) ws else drop (Suc (i div 4)) ws)"
    proof (cases "i mod 4 = 0")
      case True
      then have "(i + 3) div 4 = i div 4" by presburger
      then show ?thesis using 1(5) il True by (simp add: Cons_nth_drop_Suc)
    next
      case False
      then have "(i + 3) div 4 = Suc (i div 4)" by presburger
      then show ?thesis using 1(5) False by simp
    qed
    show ?thesis
    proof (cases "i < mx")
      case True
      have bi: "?b ! i = ucast w'" using \<open>i < n\<close> 1(3)
        by (simp add: concat_word_bytes_nth word_bytes_nth w'_def)
      have sh: "drop_bit 8 w' = drop_bit (8 * ((i + 1) mod 4)) (ws ! ((i + 1) div 4))" if "(i + 1) mod 4 \<noteq> 0"
      proof -
        have "(i + 1) mod 4 = i mod 4 + 1" "(i + 1) div 4 = i div 4" using that by presburger+
        then show ?thesis by (simp add: w'_def drop_bit_drop_bit add.commute)
      qed
      have "fifo_read_loop (drop_bit 8 w') (i + 1) (drop (Suc (i div 4)) ws) n mx = Inr (drop (i + 1) (take (min n mx) ?b))"
        using 1(1) [of "drop (Suc (i div 4)) ws" w'] 1(3,6) vs sh \<open>i < n\<close> True next_div w'_def
        by (cases "i mod 4 = 0") (auto simp: add.commute)
      moreover have "drop i (take (min n mx) ?b) = ucast w' # drop (i + 1) (take (min n mx) ?b)"
        using \<open>i < n\<close> True 1(3) bi by (simp add: Cons_nth_drop_Suc [symmetric])
      moreover have "w = w'" if "i mod 4 \<noteq> 0" using that 1(6) True w'_def by simp
      moreover have "ws ! (i div 4) = w'" if "i mod 4 = 0" using that w'_def by simp
      ultimately show ?thesis using \<open>i < n\<close> True vs
        by (cases "i mod 4 = 0") (simp_all add: fifo_read_loop.simps [of w i] fifo_read_loop.simps [of w' i])
    next
      case False
      have "fifo_read_loop v (i + 1) (drop (Suc (i div 4)) ws) n mx = Inr (drop (i + 1) (take (min n mx) ?b))"
        if "v = (if i mod 4 = 0 then ws ! (i div 4) else w)" for v
        using 1(2) [of "drop (Suc (i div 4)) ws" v] 1(3) vs \<open>i < n\<close> False next_div that
        by (cases "i mod 4 = 0") (auto simp: add.commute)
      then show ?thesis using \<open>i < n\<close> False vs
        by (cases "i mod 4 = 0") (simp_all add: fifo_read_loop.simps [of w i])
    qed
  qed
qed

lemma packet_read:
  assumes "n \<le> 4 * length ws"
  shows "otg_fifo_read_to_buffer ws n mx = Inr (take mx (packet_bytes n ws))"
  using fifo_read_ok [of n ws 0 ws mx 0] assms
  by (simp add: otg_fifo_read_to_buffer_def packet_bytes_def min.commute)

section \<open>The FIFO handlers\<close>

text \<open>The bytes an endpoint has sent, according to the log of pushed packets.\<close>

definition sent_on :: "usbep \<Rightarrow> (usbep \<times> nat \<times> 32 word list) list \<Rightarrow> byte list" where
  "sent_on ep log = concat (map (\<lambda>(e, n, ws). if e = ep then packet_bytes n ws else []) log)"

lemma sent_on_simps [simp]:
  "sent_on ep [] = []" "sent_on ep (xs @ ys) = sent_on ep xs @ sent_on ep ys"
  "sent_on ep ((e, n, ws) # xs) = (if e = ep then packet_bytes n ws else []) @ sent_on ep xs"
  by (simp_all add: sent_on_def)

lemma ptr_add_add [simp]: "ptr_add (ptr_add p a) b = ptr_add p (a + b)"
  by (cases p) (auto simp: add.commute)

lemma ptr_add_0 [simp]: "ptr_add p 0 = p"
  by (cases p) auto

lemma ptr_byte_add: "p \<noteq> NullPtr \<Longrightarrow> ptr_byte d (ptr_add p a) i = ptr_byte d p (a + i)"
  by (cases p) (auto simp: ptr_byte_def add.assoc)

lemma ptr_add_null: "p \<noteq> NullPtr \<Longrightarrow> ptr_add p a \<noteq> NullPtr"
  by (cases p) auto

lemma put_in_simps [simp]:
  "ep_in (put_in ep i d) ep = i" "epc (put_in ep i d) = epc d" "fifo_out (put_in ep i d) = fifo_out d"
  "(put_in ep i d)\<lparr>fifo_out := l\<rparr> = put_in ep i (d\<lparr>fifo_out := l\<rparr>)"
  "put_in ep j (put_in ep i d) = put_in ep j d" "ptr_byte (put_in ep i d) p = ptr_byte d p"
  "ptr_byte (d\<lparr>fifo_out := l\<rparr>) p = ptr_byte d p"
  by (auto simp: put_in_def ptr_byte_def var_bytes_def fun_eq_iff split: usbptr.splits)

definition union_ok :: "'a USBDriver_scheme \<Rightarrow> bool" where
  "union_ok d \<longleftrightarrow> ep_out d 0 = as_out (ep_in d 0)"

lemma union_put [simp]: "union_ok (put_in 0 i d)" "union_ok (put_out 0 x d)"
  "ep \<noteq> 0 \<Longrightarrow> union_ok (put_in ep i d) = union_ok d" "ep \<noteq> 0 \<Longrightarrow> union_ok (put_out ep x d) = union_ok d"
  by (auto simp: union_ok_def put_in_def put_out_def as_in_def as_out_def)

lemma put_in_same: "ep = 0 \<Longrightarrow> union_ok d \<Longrightarrow> put_in ep (ep_in d ep) d = d" "ep \<noteq> 0 \<Longrightarrow> put_in ep (ep_in d ep) d = d"
  by (auto simp: put_in_def union_ok_def fun_upd_idem)

text \<open>
  What the transmit FIFO handler does: it pushes the next \<open>k\<close> bytes of the transfer, in order, in
  packets of at most the maximum size; all that is left when the space readings allow it.
\<close>

lemma otg_txfifo_ok:
  assumes "epc d ep = Some c" "in_state c" "0 < in_maxsize c" "ep = 0 \<Longrightarrow> union_ok d"
    "txbuf (ep_in d ep) \<noteq> NullPtr \<or> txsize (ep_in d ep) \<le> txcnt (ep_in d ep)"
  shows "\<exists>k pk. otg_txfifo_handler space ep d = Inr (put_in ep ((ep_in d ep)\<lparr>
        txbuf := ptr_add (txbuf (ep_in d ep)) k, txcnt := txcnt (ep_in d ep) + k\<rparr>) (d\<lparr>fifo_out := fifo_out d @ pk\<rparr>)) \<and>
      k \<le> txsize (ep_in d ep) - txcnt (ep_in d ep) \<and>
      sent_on ep pk = map (ptr_byte d (txbuf (ep_in d ep))) [0 ..< k] \<and>
      (\<forall>(e, n, ws) \<in> set pk. e = ep \<and> 0 < n \<and> n \<le> in_maxsize c \<and> length (packet_bytes n ws) = n) \<and>
      (txsize (ep_in d ep) - txcnt (ep_in d ep) \<le> length space * in_maxsize c \<and>
        (\<forall>sp \<in> set space. in_maxsize c \<le> sp * 4) \<longrightarrow> k = txsize (ep_in d ep) - txcnt (ep_in d ep))"
  using assms
proof (induction space arbitrary: d)
  case Nil
  have "put_in ep ((ep_in d ep)\<lparr>txbuf := ptr_add (txbuf (ep_in d ep)) 0, txcnt := txcnt (ep_in d ep) + 0\<rparr>)
      (d\<lparr>fifo_out := fifo_out d @ []\<rparr>) = d"
    using Nil.prems(4) put_in_same [of ep d] by auto
  with Nil.prems show ?case
    by (intro exI [of _ 0] exI [of _ "[]"]) (auto simp: otg_txfifo_handler.simps in_state_of_def Let_def)
next
  case (Cons sp space)
  let ?i = "ep_in d ep" and ?n = "min (txsize (ep_in d ep) - txcnt (ep_in d ep)) (in_maxsize c)"
  have stop: "put_in ep (?i\<lparr>txbuf := ptr_add (txbuf ?i) 0, txcnt := txcnt ?i + 0\<rparr>) (d\<lparr>fifo_out := fifo_out d @ []\<rparr>) = d"
    using Cons.prems(4) put_in_same [of ep d] by auto
  show ?case
  proof (cases "txsize ?i \<le> txcnt ?i \<or> sp * 4 < ?n")
    case True
    then have "otg_txfifo_handler (sp # space) ep d = Inr d"
      using Cons.prems by (auto simp: otg_txfifo_handler.simps [of "sp # space"] in_state_of_def Let_def)
    then show ?thesis using True stop Cons.prems(3)
      by (intro exI [of _ 0] exI [of _ "[]"]) auto
  next
    case False
    define n where "n = ?n"
    have n: "0 < n" "txbuf ?i \<noteq> NullPtr" "\<not> sp * 4 < n" "\<not> txsize ?i \<le> txcnt ?i" "n \<le> in_maxsize c"
        "n \<le> txsize ?i - txcnt ?i" "n = in_maxsize c \<or> n = txsize ?i - txcnt ?i"
      using False Cons.prems(3,5) unfolding n_def by auto
    obtain ws where ws: "otg_fifo_write_from_buffer (ptr_byte d (txbuf ?i)) n = Inr ws"
      using n(1) by (simp add: otg_fifo_write_from_buffer_def)
    note w = packet_written [OF ws]
    define j where "j = ?i\<lparr>txbuf := ptr_add (txbuf ?i) n, txcnt := txcnt ?i + n\<rparr>"
    define d1 where "d1 = put_in ep j (d\<lparr>fifo_out := fifo_out d @ [(ep, n, ws)]\<rparr>)"
    have step: "otg_txfifo_handler (sp # space) ep d = otg_txfifo_handler space ep d1"
      using Cons.prems ws n(3,4) unfolding n_def d1_def j_def
      by (simp add: otg_txfifo_handler.simps [of "sp # space"] in_state_of_def Let_def del: min_less_iff_conj)
    have d1: "epc d1 ep = Some c" "ep = 0 \<Longrightarrow> union_ok d1" "ep_in d1 ep = j" "txbuf j \<noteq> NullPtr"
        "fifo_out d1 = fifo_out d @ [(ep, n, ws)]" "ptr_byte d1 = ptr_byte d" "txsize j = txsize ?i"
        "txcnt j = txcnt ?i + n" "txbuf j = ptr_add (txbuf ?i) n"
      using Cons.prems(1) ptr_add_null [OF n(2)] by (auto simp: d1_def j_def fun_eq_iff)
    have put: "put_in ep (j\<lparr>txbuf := p, txcnt := x\<rparr>) (d1\<lparr>fifo_out := l\<rparr>) =
        put_in ep (?i\<lparr>txbuf := p, txcnt := x\<rparr>) (d\<lparr>fifo_out := l\<rparr>)" for p x l
      by (simp add: d1_def j_def)
    from Cons.IH [OF d1(1) Cons.prems(2,3) d1(2), unfolded d1(3), OF _ disjI1 [OF d1(4)]] obtain k pk where IH:
        "otg_txfifo_handler space ep d1 = Inr (put_in ep (j\<lparr>txbuf := ptr_add (txbuf j) k, txcnt := txcnt j + k\<rparr>)
          (d1\<lparr>fifo_out := fifo_out d1 @ pk\<rparr>))"
        "k \<le> txsize j - txcnt j" "sent_on ep pk = map (ptr_byte d1 (txbuf j)) [0 ..< k]"
        "\<forall>(e, n, ws) \<in> set pk. e = ep \<and> 0 < n \<and> n \<le> in_maxsize c \<and> length (packet_bytes n ws) = n"
        "txsize j - txcnt j \<le> length space * in_maxsize c \<and> (\<forall>sp \<in> set space. in_maxsize c \<le> sp * 4) \<longrightarrow>
           k = txsize j - txcnt j"
      by blast
    have bytes: "map (ptr_byte d (txbuf ?i)) [0 ..< n] @ map (ptr_byte d (ptr_add (txbuf ?i) n)) [0 ..< k] =
        map (ptr_byte d (txbuf ?i)) [0 ..< n + k]"
      using ptr_byte_add [OF n(2), of d n] by (auto intro!: nth_equalityI simp: nth_append)
    have all: "n + k = txsize ?i - txcnt ?i" if "txsize ?i - txcnt ?i \<le> length (sp # space) * in_maxsize c"
        "\<forall>sp \<in> set (sp # space). in_maxsize c \<le> sp * 4"
      using that IH(2,5) n(5-7) d1(7,8) by auto
    show ?thesis
      using step IH(1-4) w(1) bytes all n(1,5,6) d1(5-9) put
      by (intro exI [of _ "n + k"] exI [of _ "(ep, n, ws) # pk"]) (simp add: add.assoc)
  qed
qed

lemma store_bytes_Nil [simp]: "store_bytes m a [] = m"
  by (auto simp: store_bytes_def fun_eq_iff)

lemma size_minus_le: "b \<le> a \<Longrightarrow> a < 2 ^ 32 \<Longrightarrow> size_minus a b = a - b"
  by (simp add: size_minus_def nat_mod_as_int of_nat_diff [symmetric] del: of_nat_diff)

text \<open>What the receive FIFO handler does with a data packet: it stores the part that fits.\<close>

lemma otg_rxfifo_out_ok:
  assumes "epc d ep = Some c" "out_state c" "n \<le> 4 * length ws" "rxcnt (ep_out d ep) \<le> rxsize (ep_out d ep)"
    "rxsize (ep_out d ep) < 2 ^ 32" "rxbuf (ep_out d ep) = Ram a"
  shows "otg_rxfifo_handler OUT_DATA ep n ws d = Inr (put_out ep
      ((ep_out d ep)\<lparr>rxbuf := Ram (a + n), rxcnt := rxcnt (ep_out d ep) + n\<rparr>)
      (d\<lparr>umem := store_bytes (umem d) a
        (take (rxsize (ep_out d ep) - rxcnt (ep_out d ep)) (packet_bytes n ws)), fifo_in := fifo_in d @ [(ep, n, ws)]\<rparr>))"
  using assms by (simp add: otg_rxfifo_handler_def out_state_of_def Let_def packet_read size_minus_le ptr_store_def)

text \<open>
  C7. The copy loops of the packet FIFOs are inverse to each other: the words pushed for \<open>n\<close> bytes of
  a buffer, popped again, give back those bytes, cut at the size of the receiving buffer; the words
  are as many as the bytes need.
\<close>

theorem fifo_roundtrip:
  assumes "0 < n"
  shows "\<exists>ws. otg_fifo_write_from_buffer buf n = Inr ws \<and> length ws = (n + 3) div 4 \<and>
    otg_fifo_read_to_buffer ws n mx = Inr (map buf [0 ..< min n mx])"
proof -
  obtain ws where ws: "otg_fifo_write_from_buffer buf n = Inr ws"
    using assms by (simp add: otg_fifo_write_from_buffer_def)
  note w = packet_written [OF ws]
  have "otg_fifo_read_to_buffer ws n mx = Inr (map buf [0 ..< min n mx])"
    using packet_read [of n ws mx] w by (cases "mx \<le> n") (simp_all add: take_map)
  then show ?thesis using ws w by blast
qed

theorem fifo_roundtrip_witness:
  "\<exists>ws. otg_fifo_write_from_buffer (\<lambda>i. word_of_nat (i * 3)) 6 = Inr ws \<and> length ws = 2 \<and>
    otg_fifo_read_to_buffer ws 6 5 = Inr [0, 3, 6, 9, 12]"
proof -
  have "map (\<lambda>i. word_of_nat (i * 3)) [0 ..< min 6 5] = ([0, 3, 6, 9, 12] :: byte list)" by code_simp
  with fifo_roundtrip [of 6 "\<lambda>i. word_of_nat (i * 3)" 5] show ?thesis by simp
qed

text \<open>Whatever the buffer, the transmit handler returns and changes only the transfer's own state.\<close>

lemma otg_txfifo_total:
  assumes "epc d ep = Some c" "in_state c" "0 < in_maxsize c"
  shows "\<exists>d'. otg_txfifo_handler space ep d = Inr d' \<and> (d' = d \<or> (\<exists>i l. d' = put_in ep i (d\<lparr>fifo_out := l\<rparr>)))"
  using assms
proof (induction space arbitrary: d)
  case Nil
  then show ?case by (simp add: otg_txfifo_handler.simps in_state_of_def Let_def)
next
  case (Cons sp space)
  let ?i = "ep_in d ep"
  define n where "n = min (txsize ?i - txcnt ?i) (in_maxsize c)"
  show ?case
  proof (cases "txsize ?i \<le> txcnt ?i \<or> sp * 4 < n")
    case True
    then show ?thesis
      using Cons.prems unfolding n_def by (auto simp: otg_txfifo_handler.simps [of "sp # space"] in_state_of_def Let_def)
  next
    case False
    then have n: "0 < n" using Cons.prems(3) by (auto simp: n_def)
    obtain ws where ws: "otg_fifo_write_from_buffer (ptr_byte d (txbuf ?i)) n = Inr ws"
      using n by (simp add: otg_fifo_write_from_buffer_def)
    define d1 where "d1 = put_in ep (?i\<lparr>txbuf := ptr_add (txbuf ?i) n, txcnt := txcnt ?i + n\<rparr>)
        (d\<lparr>fifo_out := fifo_out d @ [(ep, n, ws)]\<rparr>)"
    have "otg_txfifo_handler (sp # space) ep d = otg_txfifo_handler space ep d1"
      using Cons.prems ws False unfolding n_def d1_def
      by (simp add: otg_txfifo_handler.simps [of "sp # space"] in_state_of_def Let_def del: min_less_iff_conj)
    moreover have "epc d1 ep = Some c" using Cons.prems(1) by (simp add: d1_def)
    ultimately show ?thesis using Cons.IH [of d1] Cons.prems(2,3) by (auto simp: d1_def)
  qed
qed

end
