(* ===== verification/UsbEp0.thy ===== *)
theory UsbEp0
  imports UsbFifo
begin

text \<open>
  Endpoint 0 and the device states. \<open>usb_client\<close> is the contract between the USB driver and the
  client it calls back: the client's callbacks neither fail nor touch endpoint 0. Under it the
  control state machine never reaches one of its error assertions and keeps its invariant, as long
  as the host starts no new control transfer in the middle of one and gives no new address to a
  configured device; the two exceptions are shown to stop the system.
\<close>

section \<open>Status bits\<close>

lemma transmit_bit: "usbGetTransmitStatusI d ep \<longleftrightarrow> bit (transmitting d) ep"
  by (simp add: usbGetTransmitStatusI_def ep_bit_def bit_iff_and_push_bit_not_eq_0)

lemma receive_bit: "usbGetReceiveStatusI d ep \<longleftrightarrow> bit (receiving d) ep"
  by (simp add: usbGetReceiveStatusI_def ep_bit_def bit_iff_and_push_bit_not_eq_0)

lemma bit_ep_bit: "bit (ep_bit ep) n \<longleftrightarrow> n = ep \<and> n < 16"
  by (auto simp: ep_bit_def bit_simps)

lemma bit_clear_ep: "bit (w AND NOT (ep_bit ep)) i \<longleftrightarrow> bit w i \<and> i \<noteq> ep" for w :: "16 word"
  using bit_imp_le_length [of w i] by (auto simp: bit_simps bit_ep_bit)

lemmas ep_bits = bit_clear_ep transmit_bit receive_bit bit_ep_bit bit_or_iff

section \<open>Invariant\<close>

definition eff_state :: "'a USBDriver_scheme \<Rightarrow> usbstate" where
  "eff_state d = (if usb_state d = USB_SUSPENDED then saved_state d else usb_state d)"

definition endpoints_off :: "'a USBDriver_scheme \<Rightarrow> bool" where
  "endpoints_off d \<longleftrightarrow> (\<forall>i \<in> {1 .. USB_MAX_ENDPOINTS}. epc d i = None)"

text \<open>The state of the control machine and the busy bits of endpoint 0.\<close>

definition phase_ok :: "'a USBDriver_scheme \<Rightarrow> bool" where
  "phase_ok d \<longleftrightarrow> (case ep0state d of
      USB_EP0_STP_WAITING \<Rightarrow> \<not> bit (transmitting d) 0 \<and> \<not> bit (receiving d) 0
    | USB_EP0_ERROR \<Rightarrow> \<not> bit (transmitting d) 0 \<and> \<not> bit (receiving d) 0
    | USB_EP0_OUT_WAITING_STS \<Rightarrow> \<not> bit (transmitting d) 0
    | USB_EP0_OUT_RX \<Rightarrow> \<not> bit (transmitting d) 0 \<and> bit (receiving d) 0
    | _ \<Rightarrow> bit (transmitting d) 0 \<and> \<not> bit (receiving d) 0)"

definition core_inv :: "'a USBDriver_scheme \<Rightarrow> bool" where
  "core_inv d \<longleftrightarrow> usb_config d \<and> epc d 0 = Some ep0config \<and> ep0endcb d = None \<and>
     eff_state d \<in> {USB_READY, USB_SELECTED, USB_ACTIVE} \<and> (eff_state d \<noteq> USB_ACTIVE \<longrightarrow> endpoints_off d)"

text \<open>Two states that agree on endpoint 0 and on the device state.\<close>

definition ep0_same :: "'a USBDriver_scheme \<Rightarrow> 'a USBDriver_scheme \<Rightarrow> bool" where
  "ep0_same d d' \<longleftrightarrow> ep0state d' = ep0state d \<and> ep0endcb d' = ep0endcb d \<and> usb_config d' = usb_config d \<and>
     epc d' 0 = epc d 0 \<and> setup_pkt d' = setup_pkt d \<and> usb_state d' = usb_state d \<and>
     saved_state d' = saved_state d \<and> bit (transmitting d') 0 = bit (transmitting d) 0 \<and>
     bit (receiving d') 0 = bit (receiving d) 0"

definition driver_same :: "'a USBDriver_scheme \<Rightarrow> 'a USBDriver_scheme \<Rightarrow> bool" where
  "driver_same d d' \<longleftrightarrow> USBDriver.truncate d' = USBDriver.truncate d"

lemma driver_same_cases:
  assumes "driver_same d d'"
  obtains x where "d' = d\<lparr>USBDriver.more := x\<rparr>"
  using assms by (cases d; cases d') (auto simp: driver_same_def USBDriver.defs)

section \<open>Starting a transfer\<close>

definition tx_limit :: "usbep \<Rightarrow> nat \<Rightarrow> nat" where
  "tx_limit ep n = (if ep = 0 then min n 64 else n)"

lemma usbStartTransmitI_ok:
  assumes "epc d ep = Some c" "in_state c" "\<not> bit (transmitting d) ep" "ep \<le> USB_MAX_ENDPOINTS"
  shows "usbStartTransmitI ep p n d = Inr (call_lld (LldStartIn ep)
    (put_in ep \<lparr>txsize = tx_limit ep n, txcnt = 0, txbuf = p, tx_totsize = n\<rparr>
      (d\<lparr>transmitting := transmitting d OR ep_bit ep\<rparr>)))"
  using assms
  by (cases "ep_in d ep")
    (auto simp: usbStartTransmitI_def transmit_bit in_state_of_def usb_lld_start_in_def Let_def tx_limit_def
      EP0_MAX_INSIZE_def min_def)

lemma put_out_simps [simp]:
  "ep_out (put_out ep x d) ep = x" "epc (put_out ep x d) = epc d"
  "put_out ep y (put_out ep x d) = put_out ep y d"
  by (auto simp: put_out_def)

lemma usbStartReceiveI_ok:
  assumes "epc d ep = Some c" "out_state c" "\<not> bit (receiving d) ep" "ep \<le> USB_MAX_ENDPOINTS"
  shows "usbStartReceiveI ep p n d = Inr (call_lld (LldStartOut ep)
    (put_out ep \<lparr>rxsize = tx_limit ep n, rxcnt = 0, rxbuf = p, rx_totsize = n\<rparr>
      (d\<lparr>receiving := receiving d OR ep_bit ep\<rparr>)))"
  using assms
  by (cases "ep_out d ep")
    (auto simp: usbStartReceiveI_def receive_bit out_state_of_def usb_lld_start_out_def Let_def tx_limit_def
      EP0_MAX_OUTSIZE_def min_def)

lemma ep0config_simps [simp]:
  "in_state ep0config" "out_state ep0config" "in_maxsize ep0config = 64" "out_maxsize ep0config = 64"
  "setup_cb ep0config = Some fn_ep0setup" "in_cb ep0config = Some fn_ep0in" "out_cb ep0config = Some fn_ep0out"
  "has_setup_buf ep0config"
  by (simp_all add: ep0config_def)

lemma call_ep0 [simp]:
  "call_ep cfg fn_ep0setup = usb_ep0setup cfg" "call_ep cfg fn_ep0in = usb_ep0in cfg"
  "call_ep cfg fn_ep0out = usb_ep0out cfg"
  by (auto simp: call_ep_def fn_ep0_defs)

lemma driver_updates [simp]:
  "epc (call_lld x d) = epc d" "usb_state (call_lld x d) = usb_state d" "saved_state (call_lld x d) = saved_state d"
  "usb_config (call_lld x d) = usb_config d" "ep0state (call_lld x d) = ep0state d" "ep0endcb (call_lld x d) = ep0endcb d"
  "transmitting (call_lld x d) = transmitting d" "receiving (call_lld x d) = receiving d" "setup_pkt (call_lld x d) = setup_pkt d"
  "ep0n (call_lld x d) = ep0n d" "ep0next (call_lld x d) = ep0next d" "ep_in (call_lld x d) = ep_in d"
  "ep_out (call_lld x d) = ep_out d" "umem (call_lld x d) = umem d" "fifo_out (call_lld x d) = fifo_out d"
  "USBDriver.more (call_lld x d) = USBDriver.more d" "union_ok (call_lld x d) = union_ok d"
  "address (call_lld x d) = address d" "configuration (call_lld x d) = configuration d"
  by (simp_all add: call_lld_def union_ok_def)

lemma put_updates [simp]:
  "usb_state (put_in ep i d) = usb_state d" "saved_state (put_in ep i d) = saved_state d"
  "usb_config (put_in ep i d) = usb_config d" "ep0state (put_in ep i d) = ep0state d" "ep0endcb (put_in ep i d) = ep0endcb d"
  "transmitting (put_in ep i d) = transmitting d" "receiving (put_in ep i d) = receiving d"
  "setup_pkt (put_in ep i d) = setup_pkt d" "ep0n (put_in ep i d) = ep0n d" "umem (put_in ep i d) = umem d"
  "USBDriver.more (put_in ep i d) = USBDriver.more d" "configuration (put_in ep i d) = configuration d"
  "usb_state (put_out ep x d) = usb_state d" "saved_state (put_out ep x d) = saved_state d"
  "usb_config (put_out ep x d) = usb_config d" "ep0state (put_out ep x d) = ep0state d" "ep0endcb (put_out ep x d) = ep0endcb d"
  "transmitting (put_out ep x d) = transmitting d" "receiving (put_out ep x d) = receiving d"
  "setup_pkt (put_out ep x d) = setup_pkt d" "ep0n (put_out ep x d) = ep0n d" "umem (put_out ep x d) = umem d"
  "USBDriver.more (put_out ep x d) = USBDriver.more d" "configuration (put_out ep x d) = configuration d"
  "fifo_out (put_out ep x d) = fifo_out d" "address (put_in ep i d) = address d" "address (put_out ep x d) = address d"
  by (simp_all add: put_in_def put_out_def)

lemmas core_defs = core_inv_def eff_state_def endpoints_off_def

text \<open>Starting a stage of endpoint 0 keeps the invariant of the device.\<close>

lemma core_upd [simp]:
  "core_inv (call_lld x d) = core_inv d" "core_inv (put_in ep i d) = core_inv d" "core_inv (put_out ep y d) = core_inv d"
  "core_inv (d\<lparr>transmitting := t\<rparr>) = core_inv d" "core_inv (d\<lparr>receiving := r\<rparr>) = core_inv d"
  "core_inv (d\<lparr>ep0state := e\<rparr>) = core_inv d" "core_inv (d\<lparr>ep0next := p\<rparr>) = core_inv d" "core_inv (d\<lparr>ep0n := n\<rparr>) = core_inv d"
  "core_inv (d\<lparr>setup_pkt := sp\<rparr>) = core_inv d" "core_inv (d\<lparr>setup_buf := sb\<rparr>) = core_inv d"
  "core_inv (d\<lparr>umem := m\<rparr>) = core_inv d" "core_inv (d\<lparr>fifo_out := fo\<rparr>) = core_inv d"
  "core_inv (d\<lparr>fifo_in := fi\<rparr>) = core_inv d"
  "core_inv (d\<lparr>status := st\<rparr>) = core_inv d" "core_inv (d\<lparr>address := ad\<rparr>) = core_inv d"
  "core_inv (d\<lparr>configuration := c\<rparr>) = core_inv d" "core_inv (usbSetupTransfer p n None d) \<longleftrightarrow> core_inv (d\<lparr>ep0endcb := None\<rparr>)"
  by (simp_all add: core_defs usbSetupTransfer_def)

lemma core_ep0: "core_inv d \<Longrightarrow> epc d 0 = Some ep0config" "core_inv d \<Longrightarrow> usb_config d" "core_inv d \<Longrightarrow> ep0endcb d = None"
  by (simp_all add: core_inv_def)

text \<open>What a request leaves alone.\<close>

definition bits_same :: "'a USBDriver_scheme \<Rightarrow> 'a USBDriver_scheme \<Rightarrow> bool" where
  "bits_same d d' \<longleftrightarrow> bit (transmitting d') 0 = bit (transmitting d) 0 \<and> bit (receiving d') 0 = bit (receiving d) 0 \<and>
     setup_pkt d' = setup_pkt d"

text \<open>
  The direction of a request, and the requests a conforming host sends: a standard request from host
  to device is one of the four that carry no data.
\<close>

definition out_dir :: "byte list \<Rightarrow> bool" where
  "out_dir p \<longleftrightarrow> p ! 0 AND USB_RTYPE_DIR_MASK \<noteq> USB_RTYPE_DIR_DEV2HOST"

definition well_directed :: "byte list \<Rightarrow> bool" where
  "well_directed p \<longleftrightarrow> (out_dir p \<and> p ! 0 AND USB_RTYPE_TYPE_MASK = USB_RTYPE_TYPE_STD \<longrightarrow>
     p ! 1 \<in> {USB_REQ_CLEAR_FEATURE, USB_REQ_SET_FEATURE, USB_REQ_SET_ADDRESS, USB_REQ_SET_CONFIGURATION})"

section \<open>The contract of a client\<close>

text \<open>Two states that agree on every endpoint but endpoint 0, and on the endpoint parameters.\<close>

definition upper_same :: "'a USBDriver_scheme \<Rightarrow> 'a USBDriver_scheme \<Rightarrow> bool" where
  "upper_same d d' \<longleftrightarrow> in_params d' = in_params d \<and> out_params d' = out_params d \<and> (\<forall>i > 0. epc d' i = epc d i \<and> bit (transmitting d') i = bit (transmitting d) i \<and>
     bit (receiving d') i = bit (receiving d) i \<and> ep_in d' i = ep_in d i \<and> ep_out d' i = ep_out d i)"

text \<open>
  The receive transaction of a control data stage: its buffer, as far as it is not yet filled, is
  memory the client has given away.
\<close>

definition rx0_ok :: "(nat \<Rightarrow> nat \<Rightarrow> bool) \<Rightarrow> 'a USBDriver_scheme \<Rightarrow> bool" where
  "rx0_ok owns d \<longleftrightarrow> (ep0state d = USB_EP0_OUT_RX \<longrightarrow> (\<exists>a. rxbuf (ep_out d 0) = Ram a \<and>
     owns a (rx_totsize (ep_out d 0) - rxcnt (ep_out d 0)) \<and>
     rxsize (ep_out d 0) = min (rx_totsize (ep_out d 0)) 64 \<and> rx_totsize (ep_out d 0) < 2 ^ 32)) \<and>
     (ep0state d = USB_EP0_OUT_WAITING_STS \<and> bit (receiving d) 0 \<longrightarrow>
       rxsize (ep_out d 0) = 0 \<and> rx_totsize (ep_out d 0) = 0) \<and>
     (bit (receiving d) 0 \<longrightarrow> rxcnt (ep_out d 0) \<le> 64)"

lemma phase_cong:
  "ep0state d' = ep0state d \<Longrightarrow> bit (transmitting d') 0 = bit (transmitting d) 0 \<Longrightarrow>
   bit (receiving d') 0 = bit (receiving d) 0 \<Longrightarrow> phase_ok d' = phase_ok d"
  by (simp add: phase_ok_def split: usbep0state.split)

lemma rx0_cong:
  "ep0state d' = ep0state d \<Longrightarrow> bit (receiving d') 0 = bit (receiving d) 0 \<Longrightarrow> ep_out d' 0 = ep_out d 0 \<Longrightarrow>
   rx0_ok owns d' = rx0_ok owns d"
  by (simp add: rx0_ok_def)

definition ctl_inv :: "('a USBDriver_scheme \<Rightarrow> bool) \<Rightarrow> (nat \<Rightarrow> nat \<Rightarrow> bool) \<Rightarrow> 'a USBDriver_scheme \<Rightarrow> bool" where
  "ctl_inv ok owns d \<longleftrightarrow> core_inv d \<and> phase_ok d \<and> rx0_ok owns d \<and> ok d"

text \<open>
  \<open>ok\<close> is the invariant of the client. It depends on the client's part of the state, the memory, the
  endpoints other than endpoint 0 and whether the device is configured; it holds in particular when
  these endpoints are idle and the device is not configured. \<open>owns a n\<close>: the \<open>n\<close> bytes at \<open>a\<close>
  are memory the client gives to control transfers.
\<close>

locale usb_client =
  fixes cfg :: "'a USBConfig" and ok :: "'a USBDriver_scheme \<Rightarrow> bool" and owns :: "nat \<Rightarrow> nat \<Rightarrow> bool"
  assumes ok_frame: "ok d \<Longrightarrow> umem d' = umem d \<Longrightarrow> USBDriver.more d' = USBDriver.more d \<Longrightarrow> upper_same d d' \<Longrightarrow>
      (eff_state d' = USB_ACTIVE \<longrightarrow> eff_state d = USB_ACTIVE) \<Longrightarrow> ok d'"
    and ok_quiet: "ok d \<Longrightarrow> umem d' = umem d \<Longrightarrow> USBDriver.more d' = USBDriver.more d \<Longrightarrow>
      in_params d' = in_params d \<Longrightarrow> out_params d' = out_params d \<Longrightarrow>
      \<forall>i > 0. \<not> bit (transmitting d') i \<and> \<not> bit (receiving d') i \<Longrightarrow> eff_state d' \<noteq> USB_ACTIVE \<Longrightarrow> ok d'"
    and event_ok: "ok d \<Longrightarrow> usb_config d \<Longrightarrow> e \<noteq> USB_EVENT_CONFIGURED \<Longrightarrow>
      \<exists>d'. usb_isr_invoke_event_cb cfg e d = Inr d' \<and> ok d' \<and> driver_same d d'"
    and configured_ok: "ok d \<Longrightarrow> usb_config d \<Longrightarrow> endpoints_off d \<Longrightarrow> eff_state d \<noteq> USB_ACTIVE \<Longrightarrow>
      \<exists>d'. usb_isr_invoke_event_cb cfg USB_EVENT_CONFIGURED (d\<lparr>configuration := c, usb_state := USB_ACTIVE\<rparr>) = Inr d' \<and>
        ok d' \<and> ep0_same (d\<lparr>usb_state := USB_ACTIVE\<rparr>) d'"
    and hook_ok: "ok d \<Longrightarrow> ep0endcb d = None \<Longrightarrow>
      \<exists>b d'. (case requests_hook_cb cfg of None \<Rightarrow> Inr (False, d) | Some f \<Rightarrow> f d) = Inr (b, d') \<and> ok d' \<and>
        (\<exists>p n. driver_same (d\<lparr>ep0next := p, ep0n := n\<rparr>) d' \<and>
          (b \<longrightarrow> n = 0 \<or> n < 2 ^ 32 \<and> (\<exists>a. p = Ram a \<and> owns a n)))"
    and owns_0: "owns a 0"
    and owns_part: "owns a n \<Longrightarrow> k + m \<le> n \<Longrightarrow> owns (a + k) m"
    and store_ok: "ok d \<Longrightarrow> owns a (length bs) \<Longrightarrow> ok (d\<lparr>umem := store_bytes (umem d) a bs\<rparr>)"
begin

lemma ok_core [simp]:
  "ok (d\<lparr>ep0state := a\<rparr>) = ok d" "ok (d\<lparr>ep0next := p\<rparr>) = ok d" "ok (d\<lparr>ep0n := n\<rparr>) = ok d"
  "ok (d\<lparr>ep0endcb := f\<rparr>) = ok d" "ok (d\<lparr>status := st\<rparr>) = ok d" "ok (d\<lparr>address := ad\<rparr>) = ok d"
  "ok (d\<lparr>configuration := co\<rparr>) = ok d"
  "ok (d\<lparr>setup_pkt := sp\<rparr>) = ok d" "ok (d\<lparr>setup_buf := sb\<rparr>) = ok d" "ok (d\<lparr>lld := l\<rparr>) = ok d"
  "ok (d\<lparr>fifo_out := fo\<rparr>) = ok d" "ok (d\<lparr>fifo_in := fi\<rparr>) = ok d" "ok (put_in 0 i d) = ok d" "ok (put_out 0 x d) = ok d"
  by (rule iffI; erule ok_frame; auto simp: upper_same_def eff_state_def put_in_def put_out_def)+

lemma ok_bits [simp]:
  "\<forall>i > 0. bit t i = bit (transmitting d) i \<Longrightarrow> ok (d\<lparr>transmitting := t\<rparr>) = ok d"
  "\<forall>i > 0. bit r i = bit (receiving d) i \<Longrightarrow> ok (d\<lparr>receiving := r\<rparr>) = ok d"
  by (rule iffI; erule ok_frame; auto simp: upper_same_def eff_state_def)+

lemma ok_state:
  "ok d \<Longrightarrow> (eff_state (d\<lparr>usb_state := u\<rparr>) = USB_ACTIVE \<longrightarrow> eff_state d = USB_ACTIVE) \<Longrightarrow> ok (d\<lparr>usb_state := u\<rparr>)"
  "ok d \<Longrightarrow> (eff_state (d\<lparr>saved_state := v, usb_state := u\<rparr>) = USB_ACTIVE \<longrightarrow> eff_state d = USB_ACTIVE) \<Longrightarrow>
    ok (d\<lparr>saved_state := v, usb_state := u\<rparr>)"
  by (erule ok_frame; auto simp: upper_same_def)+

lemma ok_ops [simp]:
  "ok (call_lld c d) = ok d" "ok (usbSetupTransfer p n f d) = ok d" "ok (usb_lld_set_address d) = ok d"
  by (simp_all add: call_lld_def usbSetupTransfer_def usb_lld_set_address_def)

lemma event_frame:
  assumes "ok d" "core_inv d" "e \<noteq> USB_EVENT_CONFIGURED"
  obtains x where "usb_isr_invoke_event_cb cfg e d = Inr (d\<lparr>USBDriver.more := x\<rparr>)" "ok (d\<lparr>USBDriver.more := x\<rparr>)"
proof -
  obtain d' where d': "usb_isr_invoke_event_cb cfg e d = Inr d'" "ok d'" "driver_same d d'"
    using event_ok [OF assms(1) core_ep0(2) [OF assms(2)] assms(3)] by blast
  then obtain x where "d' = d\<lparr>USBDriver.more := x\<rparr>" using driver_same_cases by blast
  with d' that show ?thesis by blast
qed

lemma core_more [simp]: "core_inv (d\<lparr>USBDriver.more := x\<rparr>) = core_inv d"
  by (simp add: core_defs)

lemma start_stage_ok:
  assumes "core_inv d" "ok d" "\<not> bit (transmitting d) 0" "\<not> bit (receiving d) 0"
    "out_dir (setup_pkt d) \<longrightarrow> ep0n d = 0 \<or> ep0n d < 2 ^ 32 \<and> (\<exists>a. ep0next d = Ram a \<and> owns a (ep0n d))"
  shows "\<exists>d'. ep0_start_stage d = Inr d' \<and> ctl_inv ok owns d'"
proof -
  let ?m = "unat (get_hword (setup_pkt d) 6)"
  define e where "e = (if ?m < ep0n d then d\<lparr>ep0n := ?m\<rparr> else d)"
  have inv: "core_inv e" "ok e" "\<not> bit (transmitting e) 0" "\<not> bit (receiving e) 0"
    "setup_pkt e = setup_pkt d" "ep0next e = ep0next d" "ep0n e \<le> ep0n d"
    using assms unfolding e_def by auto
  then have d: "epc e 0 = Some ep0config" by (simp add: core_ep0)
  have tx: "\<exists>d'. usbStartTransmitI 0 p n (e\<lparr>ep0state := s\<rparr>) = Inr d' \<and> ctl_inv ok owns d'"
    if "s \<in> {USB_EP0_IN_TX, USB_EP0_IN_SENDING_STS}" for p n s
    using that inv d usbStartTransmitI_ok [of "e\<lparr>ep0state := s\<rparr>" 0 ep0config p n]
    by (auto simp: ctl_inv_def rx0_ok_def phase_ok_def ep_bits simp del: split_paired_Ex)
  have sts: "\<exists>d'. usbStartReceiveI 0 NullPtr 0 (e\<lparr>ep0state := USB_EP0_OUT_WAITING_STS\<rparr>) = Inr d' \<and> ctl_inv ok owns d'"
    using inv d usbStartReceiveI_ok [of "e\<lparr>ep0state := USB_EP0_OUT_WAITING_STS\<rparr>" 0 ep0config NullPtr 0]
    by (auto simp: ctl_inv_def rx0_ok_def phase_ok_def ep_bits tx_limit_def)
  have rx: "\<exists>d'. usbStartReceiveI 0 (ep0next e) (ep0n e) (e\<lparr>ep0state := USB_EP0_OUT_RX\<rparr>) = Inr d' \<and> ctl_inv ok owns d'"
    if dir: "out_dir (setup_pkt d)" and n: "ep0n e \<noteq> 0"
  proof -
    obtain a where a: "ep0next e = Ram a" "owns a (ep0n e)" "ep0n e < 2 ^ 32"
      using assms(5) dir n inv(6,7) owns_part [of _ "ep0n d" 0 "ep0n e"] by (auto split: if_splits)
    then show ?thesis
      using inv d usbStartReceiveI_ok [of "e\<lparr>ep0state := USB_EP0_OUT_RX\<rparr>" 0 ep0config "Ram a" "ep0n e"]
      by (auto simp: ctl_inv_def rx0_ok_def phase_ok_def ep_bits tx_limit_def)
  qed
  have "ep0_start_stage d = (if \<not> out_dir (setup_pkt e) then
      if ep0n e \<noteq> 0 then usbStartTransmitI 0 (ep0next e) (ep0n e) (e\<lparr>ep0state := USB_EP0_IN_TX\<rparr>)
      else usbStartReceiveI 0 NullPtr 0 (e\<lparr>ep0state := USB_EP0_OUT_WAITING_STS\<rparr>)
    else if ep0n e \<noteq> 0 then usbStartReceiveI 0 (ep0next e) (ep0n e) (e\<lparr>ep0state := USB_EP0_OUT_RX\<rparr>)
      else usbStartTransmitI 0 NullPtr 0 (e\<lparr>ep0state := USB_EP0_IN_SENDING_STS\<rparr>))"
    unfolding ep0_start_stage_def Let_def e_def out_dir_def not_not ..
  then show ?thesis
    using tx [of USB_EP0_IN_TX "ep0next e" "ep0n e"] tx [of USB_EP0_IN_SENDING_STS NullPtr 0] sts rx inv(5) by auto
qed

lemma error_ok:
  assumes "core_inv d" "ok d" "\<not> bit (transmitting d) 0" "\<not> bit (receiving d) 0"
  shows "\<exists>d'. ep0_error cfg d = Inr d' \<and> ctl_inv ok owns d'"
proof -
  let ?d = "call_lld (LldStallOut 0) (call_lld (LldStallIn 0) d)"
  obtain x where "usb_isr_invoke_event_cb cfg USB_EVENT_STALLED ?d = Inr (?d\<lparr>USBDriver.more := x\<rparr>)"
    "ok (?d\<lparr>USBDriver.more := x\<rparr>)"
    using event_frame [of ?d USB_EVENT_STALLED] assms by auto
  then show ?thesis using assms by (auto simp: ep0_error_def ctl_inv_def rx0_ok_def phase_ok_def)
qed

lemma set_configuration_ok:
  assumes "core_inv d" "ok d" "usb_state d \<noteq> USB_SUSPENDED"
  shows "\<exists>d'. set_configuration cfg d = Inr d' \<and> core_inv d' \<and> ok d' \<and> bits_same d d'"
proof -
  let ?un = "if usb_state d = USB_ACTIVE then bindE (usbDisableEndpointsI d) (\<lambda>d.
      usb_isr_invoke_event_cb cfg USB_EVENT_UNCONFIGURED (d\<lparr>configuration := 0, usb_state := USB_SELECTED\<rparr>)) else Inr d"
  have "\<exists>d1. ?un = Inr d1 \<and> core_inv d1 \<and> ok d1 \<and> bits_same d d1 \<and> endpoints_off d1 \<and> eff_state d1 \<noteq> USB_ACTIVE"
  proof (cases "usb_state d = USB_ACTIVE")
    case False
    then show ?thesis using assms by (simp add: core_defs bits_same_def)
  next
    case True
    let ?d = "(call_lld LldDisableEndpoints (clear_epc 1 (d\<lparr>transmitting := transmitting d AND 1,
        receiving := receiving d AND 1\<rparr>)))\<lparr>configuration := 0, usb_state := USB_SELECTED\<rparr>"
    have c: "core_inv ?d" "endpoints_off ?d" using assms(1) by (simp_all add: core_defs clear_epc_def)
    have "ok ?d" by (rule ok_quiet [OF assms(2)]) (auto simp: clear_epc_def call_lld_def bit_simps eff_state_def)
    then obtain x where "usb_isr_invoke_event_cb cfg USB_EVENT_UNCONFIGURED ?d = Inr (?d\<lparr>USBDriver.more := x\<rparr>)"
      "ok (?d\<lparr>USBDriver.more := x\<rparr>)"
      using event_frame [of ?d USB_EVENT_UNCONFIGURED] c by auto
    then show ?thesis using True c
      by (simp add: usbDisableEndpointsI_def bits_same_def endpoints_off_def clear_epc_def bit_simps eff_state_def)
  qed
  then obtain d1 where d1: "?un = Inr d1" "core_inv d1" "ok d1" "bits_same d d1" "endpoints_off d1"
    "eff_state d1 \<noteq> USB_ACTIVE" by blast
  show ?thesis
  proof (cases "setup_pkt d1 ! 2 = 0")
    case True
    then show ?thesis using d1 by (simp add: set_configuration_def)
  next
    case False
    let ?d = "d1\<lparr>configuration := setup_pkt d1 ! 2, usb_state := USB_ACTIVE\<rparr>"
    obtain d' where d': "usb_isr_invoke_event_cb cfg USB_EVENT_CONFIGURED ?d = Inr d'" "ok d'"
        "ep0_same (d1\<lparr>usb_state := USB_ACTIVE\<rparr>) d'"
      using configured_ok [OF d1(3) core_ep0(2) [OF d1(2)] d1(5,6)] by blast
    have "core_inv d'" "bits_same d d'"
      using d1(2,4) d'(3) by (auto simp: core_defs ep0_same_def bits_same_def)
    then show ?thesis using d1(1) d' False by (simp add: set_configuration_def)
  qed
qed

lemma set_address_ok:
  assumes "core_inv d" "ok d" "usb_state d \<noteq> USB_SUSPENDED" "usb_state d \<noteq> USB_ACTIVE"
  shows "\<exists>d'. set_address cfg d = Inr d' \<and> core_inv d' \<and> ok d' \<and> bits_same d d'"
proof -
  let ?d = "usb_lld_set_address (d\<lparr>address := setup_pkt d ! 2\<rparr>)"
  obtain x where "usb_isr_invoke_event_cb cfg USB_EVENT_ADDRESS ?d = Inr (?d\<lparr>USBDriver.more := x\<rparr>)"
    "ok (?d\<lparr>USBDriver.more := x\<rparr>)"
    using event_frame [of ?d USB_EVENT_ADDRESS] assms by (auto simp: usb_lld_set_address_def)
  then show ?thesis using assms ok_state(1) [of "?d\<lparr>USBDriver.more := x\<rparr>" USB_SELECTED]
    by (auto simp: set_address_def usb_lld_set_address_def core_defs bits_same_def)
qed

lemma transfer_ok:
  "core_inv d \<Longrightarrow> ok d \<Longrightarrow> core_inv (usbSetupTransfer p n None d) \<and> ok (usbSetupTransfer p n None d)"
  by (auto simp: core_defs usbSetupTransfer_def simp del: core_upd)

lemma default_handler_ok:
  assumes "core_inv d" "ok d" "usb_state d \<noteq> USB_SUSPENDED"
    "\<not> (setup_pkt d ! 1 = USB_REQ_SET_ADDRESS \<and> usb_state d = USB_ACTIVE)"
    "out_dir (setup_pkt d) \<Longrightarrow> setup_pkt d ! 1 \<in>
      {USB_REQ_CLEAR_FEATURE, USB_REQ_SET_FEATURE, USB_REQ_SET_ADDRESS, USB_REQ_SET_CONFIGURATION}"
  shows "\<exists>b d'. default_handler cfg d = Inr (b, d') \<and> core_inv d' \<and> ok d' \<and> bits_same d d' \<and>
    (b \<and> out_dir (setup_pkt d) \<longrightarrow> ep0n d' = 0)"
proof -
  define P where "P r \<longleftrightarrow> (\<exists>b d'. r = Inr (b, d') \<and> core_inv d' \<and> ok d' \<and> bits_same d d' \<and>
      (b \<and> out_dir (setup_pkt d) \<longrightarrow> ep0n d' = 0))" for r :: "(bool \<times> 'a USBDriver_scheme) result"
  have pif: "(c \<Longrightarrow> P a) \<Longrightarrow> (\<not> c \<Longrightarrow> P b) \<Longrightarrow> P (if c then a else b)" for c a b by simp
  have keep: "P (Inr (False, d1))" if "core_inv d1" "ok d1" "bits_same d d1" for d1
    using that by (auto simp: P_def)
  have tr: "core_inv d1 \<Longrightarrow> ok d1 \<Longrightarrow> bits_same d d1 \<Longrightarrow> n = 0 \<or> \<not> out_dir (setup_pkt d) \<Longrightarrow>
      P (Inr (v, usbSetupTransfer p n None d1))" for v p n d1
    using transfer_ok [of d1] by (auto simp: P_def bits_same_def usbSetupTransfer_def)
  have ack: "P (bindE r (\<lambda>d. Inr (True, usbSetupTransfer NullPtr 0 None d)))"
    if "\<exists>d'. r = Inr d' \<and> core_inv d' \<and> ok d' \<and> bits_same d d'" for r
    using that tr by fastforce
  have d: "core_inv d" "ok d" "bits_same d d" using assms by (simp_all add: bits_same_def)
  have ep: "P (Inr (endpoint_status st d))" if "\<not> out_dir (setup_pkt d)" for st
    using d tr keep that by (cases st) (auto simp: endpoint_status_def)
  have desc: "P (case v of None \<Rightarrow> Inr (False, d)
      | Some dp \<Rightarrow> Inr (True, usbSetupTransfer (Rom (ud_string dp)) (ud_size dp) None d))"
    if "\<not> out_dir (setup_pkt d)" for v
    using d tr keep that by (cases v) auto
  have fault: "P (Inl e)" if "\<not> usb_config d" for e using that core_ep0(2) [OF d(1)] by simp
  have st: "P (Inr (v, usbSetupTransfer p 0 None (d\<lparr>status := x\<rparr>)))" for v p x
    using d tr [of "d\<lparr>status := x\<rparr>"] by (simp add: bits_same_def)
  have lc: "P (Inr (v, usbSetupTransfer p 0 None (call_lld c d)))" for v p c
    using d tr [of "call_lld c d"] by (simp add: bits_same_def)
  have "P (default_handler cfg d)"
    unfolding default_handler_def Let_def
    by (intro pif; (rule st lc ep desc keep [OF d] tr [OF d] | erule fault
        | rule ack, rule set_configuration_ok set_address_ok); (use assms in \<open>auto simp: usb_consts\<close>)?)
  then show ?thesis by (simp add: P_def)
qed

lemma handle_request_ok:
  assumes "core_inv d" "ok d" "usb_state d \<noteq> USB_SUSPENDED" "well_directed (setup_pkt d)"
    "\<not> (setup_pkt d ! 1 = USB_REQ_SET_ADDRESS \<and> usb_state d = USB_ACTIVE)"
  shows "\<exists>b d'. handle_request cfg d = Inr (b, d') \<and> core_inv d' \<and> ok d' \<and> bits_same d d' \<and>
    (b \<and> out_dir (setup_pkt d) \<longrightarrow> ep0n d' = 0 \<or> ep0n d' < 2 ^ 32 \<and> (\<exists>a. ep0next d' = Ram a \<and> owns a (ep0n d')))"
proof -
  obtain b d1 p n where h: "(case requests_hook_cb cfg of None \<Rightarrow> Inr (False, d) | Some f \<Rightarrow> f d) = Inr (b, d1)"
      "ok d1" "driver_same (d\<lparr>ep0next := p, ep0n := n\<rparr>) d1" "b \<longrightarrow> n = 0 \<or> n < 2 ^ 32 \<and> (\<exists>a. p = Ram a \<and> owns a n)"
    using hook_ok [OF assms(2) core_ep0(3) [OF assms(1)]] by blast
  from driver_same_cases [OF h(3)] obtain x where "d1 = d\<lparr>ep0next := p, ep0n := n, USBDriver.more := x\<rparr>"
    by blast
  then have d1: "core_inv d1" "usb_state d1 = usb_state d" "setup_pkt d1 = setup_pkt d" "bits_same d d1"
      "ep0next d1 = p" "ep0n d1 = n"
    using assms(1) by (simp_all add: bits_same_def)
  show ?thesis
  proof (cases "b \<or> setup_pkt d1 ! 0 AND USB_RTYPE_TYPE_MASK \<noteq> USB_RTYPE_TYPE_STD")
    case True
    then show ?thesis using h d1 core_ep0(2) [OF assms(1)] by (auto simp: handle_request_def)
  next
    case False
    then have "\<exists>b d'. default_handler cfg d1 = Inr (b, d') \<and> core_inv d' \<and> ok d' \<and> bits_same d1 d' \<and>
        (b \<and> out_dir (setup_pkt d1) \<longrightarrow> ep0n d' = 0)"
      using assms(3-5) d1 h(2) by (intro default_handler_ok) (auto simp: well_directed_def)
    then show ?thesis using False h d1 core_ep0(2) [OF assms(1)]
      by (auto simp: handle_request_def bits_same_def)
  qed
qed

end

section \<open>Interrupts of endpoint 0\<close>

context usb_client
begin

lemma setup_ok:
  assumes "ctl_inv ok owns d" "usb_state d \<noteq> USB_SUSPENDED" "\<not> bit (transmitting d) 0" "\<not> bit (receiving d) 0"
    "well_directed (setup_buf d)" "\<not> (setup_buf d ! 1 = USB_REQ_SET_ADDRESS \<and> usb_state d = USB_ACTIVE)"
  shows "\<exists>d'. usb_isr_invoke_setup_cb cfg 0 d = Inr d' \<and> ctl_inv ok owns d'"
proof -
  define e where "e = (if ep0state d \<noteq> USB_EP0_STP_WAITING then d\<lparr>ep0state := USB_EP0_STP_WAITING\<rparr> else d)
      \<lparr>setup_pkt := setup_buf d\<rparr>"
  have e: "core_inv e" "ok e" "usb_state e \<noteq> USB_SUSPENDED" "well_directed (setup_pkt e)"
    "\<not> (setup_pkt e ! 1 = USB_REQ_SET_ADDRESS \<and> usb_state e = USB_ACTIVE)"
    "\<not> bit (transmitting e) 0" "\<not> bit (receiving e) 0"
    using assms by (auto simp: e_def ctl_inv_def)
  have ep: "epc d 0 = Some ep0config" using assms(1) by (simp add: ctl_inv_def core_ep0)
  from handle_request_ok [OF e(1-5)] obtain b d1 where r: "handle_request cfg e = Inr (b, d1)" "core_inv d1" "ok d1"
      "bits_same e d1" "b \<and> out_dir (setup_pkt e) \<longrightarrow> ep0n d1 = 0 \<or> ep0n d1 < 2 ^ 32 \<and> (\<exists>a. ep0next d1 = Ram a \<and> owns a (ep0n d1))"
    by blast
  have eq: "usb_isr_invoke_setup_cb cfg 0 d = bindE (handle_request cfg e) (\<lambda>(done, d).
      if \<not> done then ep0_error cfg d else ep0_start_stage d)"
    using ep by (simp add: usb_isr_invoke_setup_cb_def usb_ep0setup_def usb_lld_read_setup_def e_def)
  have "\<not> bit (transmitting d1) 0" "\<not> bit (receiving d1) 0" "setup_pkt d1 = setup_pkt e"
    using r(4) e(6,7) by (simp_all add: bits_same_def)
  then show ?thesis unfolding eq
    using start_stage_ok [of d1] error_ok [of d1] r by (cases b) auto
qed

lemma wait_status_ok:
  assumes "core_inv d" "ok d" "\<not> bit (transmitting d) 0" "\<not> bit (receiving d) 0"
  shows "\<exists>d'. usbStartReceiveI 0 NullPtr 0 (d\<lparr>ep0state := USB_EP0_OUT_WAITING_STS\<rparr>) = Inr d' \<and> ctl_inv ok owns d'"
  using assms usbStartReceiveI_ok [of "d\<lparr>ep0state := USB_EP0_OUT_WAITING_STS\<rparr>" 0 ep0config NullPtr 0]
  by (auto simp: ctl_inv_def rx0_ok_def phase_ok_def ep_bits core_ep0 tx_limit_def)

lemma send_empty_ok:
  assumes "core_inv d" "ok d" "\<not> bit (transmitting d) 0" "\<not> bit (receiving d) 0"
    "s \<in> {USB_EP0_IN_WAITING_TX0, USB_EP0_IN_SENDING_STS}"
  shows "\<exists>d'. usbStartTransmitI 0 NullPtr 0 d = Inr d' \<and> ctl_inv ok owns (d'\<lparr>ep0state := s\<rparr>)"
  using assms usbStartTransmitI_ok [of d 0 ep0config NullPtr 0]
  by (auto simp: ctl_inv_def rx0_ok_def phase_ok_def ep_bits core_ep0)

lemma transfer_end_ok:
  assumes "core_inv d" "ok d" "\<not> bit (transmitting d) 0" "\<not> bit (receiving d) 0"
  shows "\<exists>d'. ep0_end cfg d = Inr d' \<and> ctl_inv ok owns d'"
  using assms by (simp add: ep0_end_def core_ep0 ctl_inv_def rx0_ok_def phase_ok_def)

text \<open>The completion of an IN transaction, when one is under way.\<close>

lemma in_done_ok:
  assumes "ctl_inv ok owns d" "bit (transmitting d) 0"
  shows "\<exists>d'. otg_epin_handler cfg True None 0 d = Inr d' \<and> ctl_inv ok owns d'"
proof -
  have d: "core_inv d" "ok d" "epc d 0 = Some ep0config" "\<not> bit (receiving d) 0"
    "ep0state d \<in> {USB_EP0_IN_TX, USB_EP0_IN_WAITING_TX0, USB_EP0_IN_SENDING_STS}"
    using assms by (auto simp: ctl_inv_def core_ep0 phase_ok_def split: usbep0state.splits)
  show ?thesis
  proof (cases "txsize (ep_in d 0) < tx_totsize (ep_in d 0)")
    case True
    then show ?thesis using assms d
      by (auto simp: otg_epin_handler_def in_state_of_def Let_def usb_lld_start_in_def ctl_inv_def phase_ok_def rx0_ok_def)
  next
    case False
    define e where "e = d\<lparr>transmitting := transmitting d AND NOT (ep_bit 0)\<rparr>"
    have e: "core_inv e" "ok e" "\<not> bit (transmitting e) 0" "\<not> bit (receiving e) 0" "ep0state e = ep0state d"
      using d by (auto simp: e_def ep_bits)
    have eq: "otg_epin_handler cfg True None 0 d = usb_ep0in cfg 0 e"
      using False d by (cases "usb_ep0in cfg 0 e") (simp_all add: otg_epin_handler_def in_state_of_def
          usb_isr_invoke_in_cb_def e_def Let_def)
    obtain z where z: "needs_zlp e = Inr z"
      using core_ep0(1) [OF e(1)] by (cases "ep0n e < unat (get_hword (setup_pkt e) 6)") (simp_all add: needs_zlp_def)
    note ok = wait_status_ok [OF e(1-4)] transfer_end_ok [OF e(1-4)] send_empty_ok [OF e(1-4), of USB_EP0_IN_WAITING_TX0]
    show ?thesis unfolding eq usb_ep0in_def Let_def using d(5) ok z e(5) by (cases z) auto
  qed
qed

text \<open>The completion of an OUT transaction.\<close>

lemma out_done_ok:
  assumes "ctl_inv ok owns d" "bit (receiving d) 0"
  shows "\<exists>d'. otg_epout_handler cfg False True 0 d = Inr d' \<and> ctl_inv ok owns d'"
proof -
  let ?o = "ep_out d 0"
  have d: "core_inv d" "ok d" "epc d 0 = Some ep0config" "\<not> bit (transmitting d) 0"
    "ep0state d \<in> {USB_EP0_OUT_RX, USB_EP0_OUT_WAITING_STS}"
    using assms by (auto simp: ctl_inv_def core_ep0 phase_ok_def split: usbep0state.splits)
  show ?thesis
  proof (cases "rxcnt ?o mod 64 = 0 \<and> rxsize ?o < rx_totsize ?o")
    case True
    let ?n = "rx_totsize ?o - rxsize ?o"
    have "rxcnt ?o = 0 \<or> rxcnt ?o = 64" using True assms by (metis ctl_inv_def rx0_ok_def le_neq_implies_less mod_less)
    moreover have "ep0state d = USB_EP0_OUT_RX \<Longrightarrow> rxsize ?o = 64"
      using assms(1) True by (auto simp: ctl_inv_def rx0_ok_def)
    ultimately have "\<exists>a. rxbuf ?o = Ram a \<and> owns a ?n \<and> ?n < 2 ^ 32" if "ep0state d = USB_EP0_OUT_RX"
      using assms(1) that owns_part [of _ "rx_totsize ?o" 0 ?n]
      by (auto simp: ctl_inv_def rx0_ok_def)
    then show ?thesis using assms d True
      by (auto simp: otg_epout_handler_def out_state_of_def Let_def usb_lld_start_out_def ctl_inv_def phase_ok_def
          rx0_ok_def EP0_MAX_OUTSIZE_def min_def)
  next
    case False
    define e where "e = d\<lparr>receiving := receiving d AND NOT (ep_bit 0)\<rparr>"
    have e: "core_inv e" "ok e" "\<not> bit (transmitting e) 0" "\<not> bit (receiving e) 0" "ep0state e = ep0state d"
      using d by (auto simp: e_def ep_bits)
    have eq: "otg_epout_handler cfg False True 0 d = usb_ep0out cfg 0 e"
      using False d by (auto simp add: otg_epout_handler_def out_state_of_def usb_isr_invoke_out_cb_def e_def Let_def)
    have tx: "\<exists>d'. usbStartTransmitI 0 NullPtr 0 (e\<lparr>ep0state := USB_EP0_IN_SENDING_STS\<rparr>) = Inr d' \<and> ctl_inv ok owns d'"
      using e usbStartTransmitI_ok [of "e\<lparr>ep0state := USB_EP0_IN_SENDING_STS\<rparr>" 0 ep0config NullPtr 0]
      by (auto simp: ctl_inv_def rx0_ok_def phase_ok_def ep_bits core_ep0)
    have "ctl_inv ok owns e" if "ep0state e = USB_EP0_OUT_WAITING_STS"
      using e that by (simp add: ctl_inv_def phase_ok_def rx0_ok_def)
    then show ?thesis unfolding eq usb_ep0out_def using d(5) e(5) tx transfer_end_ok [OF e(1-4)] by auto
  qed
qed

text \<open>A data packet: one per transaction on endpoint 0.\<close>

lemma out_data_ok:
  assumes "ctl_inv ok owns d" "bit (receiving d) 0" "rxcnt (ep_out d 0) = 0" "n \<le> 4 * length ws" "n \<le> 64"
  shows "\<exists>d'. otg_rxfifo_handler OUT_DATA 0 n ws d = Inr d' \<and> ctl_inv ok owns d' \<and> rxcnt (ep_out d' 0) = n"
proof -
  let ?o = "ep_out d 0" and ?b = "take (rxsize (ep_out d 0)) (packet_bytes n ws)"
  have d: "core_inv d" "ok d" "epc d 0 = Some ep0config" "\<not> bit (transmitting d) 0"
    "ep0state d \<in> {USB_EP0_OUT_RX, USB_EP0_OUT_WAITING_STS}"
    using assms by (auto simp: ctl_inv_def core_ep0 phase_ok_def split: usbep0state.splits)
  show ?thesis
  proof (cases "ep0state d = USB_EP0_OUT_RX")
    case True
    then obtain a where a: "rxbuf ?o = Ram a" "owns a (rx_totsize ?o)" "rxsize ?o = min (rx_totsize ?o) 64"
        "rx_totsize ?o < 2 ^ 32"
      using assms(1,3) by (auto simp: ctl_inv_def rx0_ok_def)
    let ?m = "d\<lparr>umem := store_bytes (umem d) a ?b\<rparr>"
    have "owns a (length ?b)" using owns_part [OF a(2), of 0 "length ?b"] a(3) by simp
    then have "ok ?m" by (rule store_ok [OF d(2)])
    moreover have "owns (a + n) (rx_totsize ?o - n)"
      using owns_part [OF a(2), of n "rx_totsize ?o - n"] owns_0 by (cases "n \<le> rx_totsize ?o") auto
    ultimately show ?thesis
      using otg_rxfifo_out_ok [of d 0 ep0config n ws a] d assms a True
      by (auto simp: ctl_inv_def phase_ok_def rx0_ok_def)
  next
    case False
    then have "rxsize ?o = 0" "ep0state d = USB_EP0_OUT_WAITING_STS"
      using assms(1,2) d(5) by (auto simp: ctl_inv_def rx0_ok_def)
    then show ?thesis using d assms
      by (auto simp: otg_rxfifo_handler_def out_state_of_def Let_def packet_read size_minus_def ptr_store_def
          ctl_inv_def phase_ok_def rx0_ok_def)
  qed
qed

text \<open>The FIFO of an IN transaction is refilled.\<close>

lemma tx_space_ok:
  assumes "ctl_inv ok owns d" "bit (transmitting d) 0"
  shows "\<exists>d'. otg_epin_handler cfg False (Some space) 0 d = Inr d' \<and> ctl_inv ok owns d'"
proof -
  have ep: "epc d 0 = Some ep0config" using assms(1) by (simp add: ctl_inv_def core_ep0)
  have st: "ep0state d \<in> {USB_EP0_IN_TX, USB_EP0_IN_WAITING_TX0, USB_EP0_IN_SENDING_STS}"
    using assms by (auto simp: ctl_inv_def phase_ok_def split: usbep0state.splits)
  obtain d' where d': "otg_txfifo_handler space 0 d = Inr d'" "d' = d \<or> (\<exists>i l. d' = put_in 0 i (d\<lparr>fifo_out := l\<rparr>))"
    using otg_txfifo_total [OF ep, of space] by auto
  have "ctl_inv ok owns (put_in 0 i (d\<lparr>fifo_out := l\<rparr>))" for i l
    using assms(1) st by (auto simp: ctl_inv_def phase_ok_def rx0_ok_def)
  with d' assms(1) show ?thesis by (auto simp: otg_epin_handler_def)
qed

section \<open>Bus events\<close>

lemma reset_ok:
  assumes "usb_config d" "ok d" "ep0endcb d = None"
  shows "\<exists>d'. usb_reset cfg d = Inr d' \<and> ctl_inv ok owns d' \<and> usb_state d' = USB_READY"
proof -
  let ?d = "usb_lld_reset ((clear_epc 0 (d\<lparr>usb_state := USB_READY, status := 0, address := 0,
          configuration := 0, transmitting := 0, receiving := 0\<rparr>))\<lparr>ep0state := USB_EP0_STP_WAITING\<rparr>)"
  have "core_inv ?d" "phase_ok ?d" "ep0state ?d = USB_EP0_STP_WAITING"
    using assms by (auto simp: core_defs usb_lld_reset_def clear_epc_def phase_ok_def call_lld_def)
  moreover have "ok ?d" by (rule ok_quiet [OF assms(2)]) (auto simp: usb_lld_reset_def clear_epc_def call_lld_def eff_state_def)
  ultimately obtain x where x: "usb_isr_invoke_event_cb cfg USB_EVENT_RESET ?d = Inr (?d\<lparr>USBDriver.more := x\<rparr>)"
    "ok (?d\<lparr>USBDriver.more := x\<rparr>)"
    using event_frame [of ?d USB_EVENT_RESET] by auto
  have "usb_state ?d = USB_READY" by (simp add: usb_lld_reset_def call_lld_def clear_epc_def)
  with x show ?thesis using \<open>core_inv ?d\<close> \<open>phase_ok ?d\<close> \<open>ep0state ?d = USB_EP0_STP_WAITING\<close>
    by (auto simp: usb_reset_def ctl_inv_def rx0_ok_def phase_ok_def)
qed

lemma ctl_more: "ctl_inv ok owns d \<Longrightarrow> ok (d\<lparr>USBDriver.more := x\<rparr>) \<Longrightarrow> ctl_inv ok owns (d\<lparr>USBDriver.more := x\<rparr>)"
  using phase_cong [of "d\<lparr>USBDriver.more := x\<rparr>" d] rx0_cong [of "d\<lparr>USBDriver.more := x\<rparr>" d]
  by (simp add: ctl_inv_def)

lemma suspend_ok:
  assumes "ctl_inv ok owns d" "usb_state d \<noteq> USB_SUSPENDED"
  shows "\<exists>d'. usb_suspend cfg d = Inr d' \<and> ctl_inv ok owns d'"
proof -
  let ?d = "d\<lparr>saved_state := usb_state d, usb_state := USB_SUSPENDED\<rparr>"
  have c: "ctl_inv ok owns ?d" using assms phase_cong [of ?d d] rx0_cong [of ?d d] ok_state(2) [where d = d and v = "usb_state d" and u = USB_SUSPENDED]
    by (simp add: ctl_inv_def core_defs)
  then obtain x where "usb_isr_invoke_event_cb cfg USB_EVENT_SUSPEND ?d = Inr (?d\<lparr>USBDriver.more := x\<rparr>)"
    "ok (?d\<lparr>USBDriver.more := x\<rparr>)"
    using event_frame [of ?d USB_EVENT_SUSPEND] by (auto simp: ctl_inv_def)
  then show ?thesis using ctl_more [OF c] by (auto simp: usb_suspend_def)
qed

lemma wakeup_ok:
  assumes "ctl_inv ok owns d" "usb_state d = USB_SUSPENDED"
  shows "\<exists>d'. usb_wakeup cfg d = Inr d' \<and> ctl_inv ok owns d'"
proof -
  let ?d = "d\<lparr>usb_state := saved_state d\<rparr>"
  have c: "ctl_inv ok owns ?d" using assms phase_cong [of ?d d] rx0_cong [of ?d d] ok_state(1) [of d "saved_state d"]
    by (auto simp: ctl_inv_def core_defs)
  then obtain x where "usb_isr_invoke_event_cb cfg USB_EVENT_WAKEUP ?d = Inr (?d\<lparr>USBDriver.more := x\<rparr>)"
    "ok (?d\<lparr>USBDriver.more := x\<rparr>)"
    using event_frame [of ?d USB_EVENT_WAKEUP] by (auto simp: ctl_inv_def)
  then show ?thesis using ctl_more [OF c] by (auto simp: usb_wakeup_def)
qed

end

end
