(* ===== verification/BufferQueues.thy ===== *)
theory BufferQueues
  imports Prelude
begin

text \<open>
  The queues of buffers between a driver's interrupt side and the threads:
  \<^verbatim>\<open>os/hal/src/hal_buffers.c\<close> and the macros of \<^verbatim>\<open>os/hal/include/hal_buffers.h\<close>, with the
  thread queue operations of \<^verbatim>\<open>os/rt/src/chthreads.c\<close> they call. The buffers live in the memory
  of the model: each slot is a size field of four bytes and then the data. Addresses are natural
  numbers, a null pointer is \<open>None\<close>.

  What the rest of the system does while the calling thread sleeps or has released the lock is
  part of the state as a script of events: \<open>naps\<close> are the events of the sleeps (\<open>Expire\<close>
  is the expiry of the timeout), \<open>pre\<close> the groups of events at the successive points where the
  lock is released and taken again. The parameter \<open>env\<close> says what an event does, so the
  definitions fix neither the device nor the other threads. \<open>dev\<close> is the rest of the state.
\<close>

section \<open>Data\<close>

record io_buffers_queue =
  waiting :: "tid list"
  suspended :: bool
  bcounter :: nat
  bwrptr :: nat
  brdptr :: nat
  btop :: nat
  bsize :: nat
  bn :: nat
  buffers :: nat
  ptr :: "nat option"
  top :: "nat option"

datatype 'e nap = Ev 'e | Expire

record ('e, 'w) bqstate =
  bq :: io_buffers_queue
  ram :: mem
  now :: systime
  self :: tid
  readied :: "(tid \<times> msg) list"
  naps :: "'e nap list"
  pre :: "'e list list"
  dev :: 'w

type_synonym ('e, 'w) bqop = "('e, 'w) bqstate \<Rightarrow> ('e, 'w) bqstate result"

text \<open>Difference of two addresses as \<^verbatim>\<open>size_t\<close>.\<close>

definition size_diff :: "nat \<Rightarrow> nat \<Rightarrow> nat" where
  "size_diff a b = nat ((int a - int b) mod 2 ^ 32)"

lemma size_diff_le: "b \<le> a \<Longrightarrow> a < 2 ^ 32 \<Longrightarrow> size_diff a b = a - b"
  by (simp add: size_diff_def nat_mod_as_int of_nat_diff [symmetric] del: of_nat_diff)

section \<open>Queues of threads\<close>

definition upd_bq :: "(io_buffers_queue \<Rightarrow> io_buffers_queue) \<Rightarrow> ('e, 'w) bqstate \<Rightarrow> ('e, 'w) bqstate" where
  "upd_bq f s = s\<lparr>bq := f (bq s)\<rparr>"

definition chThdDequeueNextI :: "msg \<Rightarrow> ('e, 'w) bqstate \<Rightarrow> ('e, 'w) bqstate" where
  "chThdDequeueNextI m s = (case waiting (bq s) of
      [] \<Rightarrow> s
    | t # ts \<Rightarrow> s\<lparr>bq := (bq s)\<lparr>waiting := ts\<rparr>, readied := readied s @ [(t, m)]\<rparr>)"

definition chThdDequeueAllI :: "msg \<Rightarrow> ('e, 'w) bqstate \<Rightarrow> ('e, 'w) bqstate" where
  "chThdDequeueAllI m s = s\<lparr>bq := (bq s)\<lparr>waiting := []\<rparr>,
     readied := readied s @ map (\<lambda>t. (t, m)) (waiting (bq s))\<rparr>"

text \<open>
  The sleep of \<^verbatim>\<open>chSchGoSleepTimeoutS\<close>: events happen until one of them takes the thread out of
  the queue, the thread then gets the message it was readied with; or until the timer expires, which
  takes it out with \<^verbatim>\<open>MSG_TIMEOUT\<close>.
\<close>

fun sleep_loop ::
  "('e \<Rightarrow> ('e, 'w) bqop) \<Rightarrow> sysinterval \<Rightarrow> 'e nap list \<Rightarrow> ('e, 'w) bqstate \<Rightarrow> (msg \<times> ('e, 'w) bqstate) result"
where
  "sleep_loop env timeout [] s = Inl Blocked"
| "sleep_loop env timeout (Expire # ns) s =
     (if timeout = TIME_INFINITE then sleep_loop env timeout ns s
      else Inr (MSG_TIMEOUT, s\<lparr>bq := (bq s)\<lparr>waiting := remove1 (self s) (waiting (bq s))\<rparr>, naps := ns\<rparr>))"
| "sleep_loop env timeout (Ev e # ns) s =
     bindE (env e s) (\<lambda>s.
       if self s \<in> set (waiting (bq s)) then sleep_loop env timeout ns s
       else case map_of (rev (readied s)) (self s) of
              None \<Rightarrow> Inl Blocked
            | Some m \<Rightarrow> Inr (m, s\<lparr>naps := ns\<rparr>))"

definition chThdEnqueueTimeoutS ::
  "('e \<Rightarrow> ('e, 'w) bqop) \<Rightarrow> sysinterval \<Rightarrow> ('e, 'w) bqstate \<Rightarrow> (msg \<times> ('e, 'w) bqstate) result" where
  "chThdEnqueueTimeoutS env timeout s =
     (if timeout = TIME_IMMEDIATE then Inr (MSG_TIMEOUT, s)
      else sleep_loop env timeout (naps s)
             (s\<lparr>bq := (bq s)\<lparr>waiting := waiting (bq s) @ [self s]\<rparr>\<rparr>))"

text \<open>\<^verbatim>\<open>osalSysUnlock(); ... osalSysLock();\<close>: a preemption chance.\<close>

definition preempt :: "('e \<Rightarrow> ('e, 'w) bqop) \<Rightarrow> ('e, 'w) bqop" where
  "preempt env s = (case pre s of
      [] \<Rightarrow> Inr s
    | es # rest \<Rightarrow> run_ops env es (s\<lparr>pre := rest\<rparr>))"

section \<open>Macros\<close>

definition BQ_BUFFER_SIZE :: "nat \<Rightarrow> nat \<Rightarrow> nat" where
  "BQ_BUFFER_SIZE n sz = (sz + sizeof_size_t) * n"

definition bqSizeX :: "io_buffers_queue \<Rightarrow> nat" where "bqSizeX q = bn q"
definition bqSpaceI :: "io_buffers_queue \<Rightarrow> nat" where "bqSpaceI q = bcounter q"

definition bqSuspendI :: "('e, 'w) bqstate \<Rightarrow> ('e, 'w) bqstate" where
  "bqSuspendI s = chThdDequeueAllI MSG_RESET (s\<lparr>bq := (bq s)\<lparr>suspended := True\<rparr>\<rparr>)"

definition bqResumeX :: "('e, 'w) bqstate \<Rightarrow> ('e, 'w) bqstate" where
  "bqResumeX s = s\<lparr>bq := (bq s)\<lparr>suspended := False\<rparr>\<rparr>"

definition ibqIsEmptyI :: "io_buffers_queue \<Rightarrow> bool" where
  "ibqIsEmptyI q = (bqSpaceI q = 0)"

definition ibqIsFullI :: "io_buffers_queue \<Rightarrow> bool" where
  "ibqIsFullI q = (bwrptr q = brdptr q \<and> bcounter q \<noteq> 0)"

definition obqIsEmptyI :: "io_buffers_queue \<Rightarrow> bool" where
  "obqIsEmptyI q = (bwrptr q = brdptr q \<and> bcounter q \<noteq> 0)"

definition obqIsFullI :: "io_buffers_queue \<Rightarrow> bool" where
  "obqIsFullI q = (bqSpaceI q = 0)"

section \<open>Input queues\<close>

text \<open>The advance of a slot pointer, with its wrap to the first slot.\<close>

definition bump :: "io_buffers_queue \<Rightarrow> nat \<Rightarrow> nat" where
  "bump q p = (if btop q \<le> p + bsize q then buffers q else p + bsize q)"

definition ibqObjectInit :: "bool \<Rightarrow> nat option \<Rightarrow> nat \<Rightarrow> nat \<Rightarrow> io_buffers_queue result" where
  "ibqObjectInit susp bp sz n =
     (case bp of None \<Rightarrow> Inl (DbgCheck ''ibqObjectInit'')
      | Some p \<Rightarrow> dbgCheck ''ibqObjectInit'' (2 \<le> sz)
          (Inr \<lparr>waiting = [], suspended = susp, bcounter = 0, bwrptr = p, brdptr = p,
             btop = p + (sz + sizeof_size_t) * n, bsize = sz + sizeof_size_t, bn = n, buffers = p,
             ptr = None, top = None\<rparr>))"

definition ibqResetI :: "('e, 'w) bqstate \<Rightarrow> ('e, 'w) bqstate" where
  "ibqResetI s = chThdDequeueAllI MSG_RESET (s\<lparr>bq := (bq s)\<lparr>bcounter := 0,
     brdptr := buffers (bq s), bwrptr := buffers (bq s), ptr := None, top := None\<rparr>\<rparr>)"

definition ibqGetEmptyBufferI :: "io_buffers_queue \<Rightarrow> nat option" where
  "ibqGetEmptyBufferI q = (if ibqIsFullI q then None else Some (bwrptr q + sizeof_size_t))"

definition ibqPostFullBufferI :: "nat \<Rightarrow> ('e, 'w) bqop" where
  "ibqPostFullBufferI sz s =
     dbgCheck ''ibqPostFullBufferI'' (0 < sz \<and> sz \<le> bsize (bq s) - sizeof_size_t)
     (dbgAssert ''buffers queue full'' (\<not> ibqIsFullI (bq s))
       (Inr (chThdDequeueNextI MSG_OK
         (s\<lparr>ram := store_size (ram s) (bwrptr (bq s)) sz,
            bq := (bq s)\<lparr>bcounter := bcounter (bq s) + 1, bwrptr := bump (bq s) (bwrptr (bq s))\<rparr>\<rparr>))))"

text \<open>
  The loop at the head of \<^verbatim>\<open>ibqGetFullBufferTimeoutS\<close> and \<^verbatim>\<open>obqGetEmptyBufferTimeoutS\<close>:
  sleep as long as the queue is \<open>stuck\<close>, that is empty for a reader and full for a writer. Each
  turn uses up part of the script, so the number of events left bounds the turns.
\<close>

fun bqWait :: "(io_buffers_queue \<Rightarrow> bool) \<Rightarrow> nat \<Rightarrow> ('e \<Rightarrow> ('e, 'w) bqop) \<Rightarrow> sysinterval \<Rightarrow>
    ('e, 'w) bqstate \<Rightarrow> (msg \<times> ('e, 'w) bqstate) result" where
  "bqWait stuck 0 env timeout s = Inl OutOfFuel"
| "bqWait stuck (Suc k) env timeout s =
     (if stuck (bq s) then
        if suspended (bq s) then Inr (MSG_RESET, s)
        else bindE (chThdEnqueueTimeoutS env timeout s) (\<lambda>(m, s).
               if m < MSG_OK then Inr (m, s) else bqWait stuck k env timeout s)
      else Inr (MSG_OK, s))"

definition ibqGetFullBufferTimeoutS ::
  "('e \<Rightarrow> ('e, 'w) bqop) \<Rightarrow> sysinterval \<Rightarrow> ('e, 'w) bqstate \<Rightarrow> (msg \<times> ('e, 'w) bqstate) result" where
  "ibqGetFullBufferTimeoutS env timeout s =
     bindE (bqWait ibqIsEmptyI (Suc (length (naps s))) env timeout s) (\<lambda>(m, s).
       if m < MSG_OK then Inr (m, s) else
       dbgAssert ''still empty'' (\<not> ibqIsEmptyI (bq s))
         (let p = brdptr (bq s) + sizeof_size_t in
          Inr (MSG_OK, s\<lparr>bq := (bq s)\<lparr>ptr := Some p,
            top := Some (p + load_size (ram s) (brdptr (bq s)))\<rparr>\<rparr>)))"

definition ibqGetFullBufferTimeout ::
  "('e \<Rightarrow> ('e, 'w) bqop) \<Rightarrow> sysinterval \<Rightarrow> ('e, 'w) bqstate \<Rightarrow> (msg \<times> ('e, 'w) bqstate) result" where
  "ibqGetFullBufferTimeout env timeout s = ibqGetFullBufferTimeoutS env timeout s"

definition notify_call :: "('e, 'w) bqop option \<Rightarrow> ('e, 'w) bqop" where
  "notify_call nfy s = (case nfy of None \<Rightarrow> Inr s | Some f \<Rightarrow> f s)"

definition ibqReleaseEmptyBufferS :: "('e, 'w) bqop option \<Rightarrow> ('e, 'w) bqop" where
  "ibqReleaseEmptyBufferS nfy s =
     dbgAssert ''buffers queue empty'' (\<not> ibqIsEmptyI (bq s))
       (notify_call nfy (s\<lparr>bq := (bq s)\<lparr>bcounter := bcounter (bq s) - 1,
          brdptr := bump (bq s) (brdptr (bq s)), ptr := None\<rparr>\<rparr>))"

definition ibqReleaseEmptyBuffer :: "('e, 'w) bqop option \<Rightarrow> ('e, 'w) bqop" where
  "ibqReleaseEmptyBuffer nfy s = ibqReleaseEmptyBufferS nfy s"

text \<open>\<^verbatim>\<open>ibqGetTimeout\<close> returns the byte as a message value.\<close>

definition ibqGetTimeout :: "('e \<Rightarrow> ('e, 'w) bqop) \<Rightarrow> ('e, 'w) bqop option \<Rightarrow> sysinterval \<Rightarrow>
    ('e, 'w) bqstate \<Rightarrow> (msg \<times> ('e, 'w) bqstate) result" where
  "ibqGetTimeout env nfy timeout s =
     bindE (if ptr (bq s) = None then ibqGetFullBufferTimeoutS env timeout s else Inr (MSG_OK, s))
       (\<lambda>(m, s).
          if m \<noteq> MSG_OK then Inr (m, s) else
          bindE (deref ''ptr'' (ptr (bq s))) (\<lambda>p.
          bindE (deref ''top'' (top (bq s))) (\<lambda>t.
            let b = uint (ram s p);
                s = s\<lparr>bq := (bq s)\<lparr>ptr := Some (p + 1)\<rparr>\<rparr>
            in if t \<le> p + 1 then bindE (ibqReleaseEmptyBufferS nfy s) (\<lambda>s. Inr (b, s))
               else Inr (b, s))))"

text \<open>
  The turn of the loop of \<^verbatim>\<open>ibqReadTimeout\<close> after a buffer is there: copy at most 64 bytes to
  \<open>bp\<close>, release the buffer when it is used up. Returns the number of bytes copied.
\<close>

definition ibqRead_chunk :: "('e, 'w) bqop option \<Rightarrow> nat \<Rightarrow> nat \<Rightarrow> ('e, 'w) bqstate \<Rightarrow>
    (nat \<times> ('e, 'w) bqstate) result" where
  "ibqRead_chunk nfy bp left s =
     bindE (deref ''ptr'' (ptr (bq s))) (\<lambda>p.
     bindE (deref ''top'' (top (bq s))) (\<lambda>t.
       let sz = min (min (size_diff t p) left) 64;
           s = s\<lparr>ram := memcpy (ram s) bp p sz, bq := (bq s)\<lparr>ptr := Some (p + sz)\<rparr>\<rparr>
       in bindE (if t \<le> p + sz then ibqReleaseEmptyBufferS nfy s else Inr s) (\<lambda>s. Inr (sz, s))))"

text \<open>The buffer acquisition of a turn: whether the loop goes on, and the state.\<close>

definition ibqRead_acquire :: "('e \<Rightarrow> ('e, 'w) bqop) \<Rightarrow> sysinterval \<Rightarrow> systime \<Rightarrow> ('e, 'w) bqstate \<Rightarrow>
    (bool \<times> ('e, 'w) bqstate) result" where
  "ibqRead_acquire env timeout deadline s =
     (if ptr (bq s) \<noteq> None then Inr (True, s)
      else if timeout = TIME_INFINITE \<or> timeout = TIME_IMMEDIATE then
        bindE (ibqGetFullBufferTimeoutS env timeout s) (\<lambda>(m, s). Inr (m = MSG_OK, s))
      else
        let next_timeout = chTimeDiffX (now s) deadline in
        if timeout < next_timeout then Inr (False, s)
        else bindE (ibqGetFullBufferTimeoutS env next_timeout s) (\<lambda>(m, s). Inr (m = MSG_OK, s)))"

fun ibqRead_loop :: "nat \<Rightarrow> ('e \<Rightarrow> ('e, 'w) bqop) \<Rightarrow> ('e, 'w) bqop option \<Rightarrow> sysinterval \<Rightarrow> systime \<Rightarrow>
    nat \<Rightarrow> nat \<Rightarrow> nat \<Rightarrow> ('e, 'w) bqstate \<Rightarrow> (nat \<times> ('e, 'w) bqstate) result" where
  "ibqRead_loop 0 env nfy timeout deadline bp n r s = Inl OutOfFuel"
| "ibqRead_loop (Suc k) env nfy timeout deadline bp n r s =
     bindE (ibqRead_acquire env timeout deadline s) (\<lambda>(go, s).
       if \<not> go then Inr (r, s) else
       bindE (ibqRead_chunk nfy bp (n - r) s) (\<lambda>(sz, s).
         if n \<le> r + sz then Inr (r + sz, s) else
         bindE (preempt env s) (\<lambda>s.
           ibqRead_loop k env nfy timeout deadline (bp + sz) n (r + sz) s)))"

text \<open>Every turn but the last copies a byte, so \<open>n\<close> turns are enough.\<close>

definition ibqReadTimeout :: "('e \<Rightarrow> ('e, 'w) bqop) \<Rightarrow> ('e, 'w) bqop option \<Rightarrow> nat \<Rightarrow> nat \<Rightarrow> sysinterval \<Rightarrow>
    ('e, 'w) bqstate \<Rightarrow> (nat \<times> ('e, 'w) bqstate) result" where
  "ibqReadTimeout env nfy bp n timeout s =
     dbgCheck ''ibqReadTimeout'' (0 < n)
       (ibqRead_loop n env nfy timeout (chTimeAddX (now s) timeout) bp n 0 s)"

section \<open>Output queues\<close>

definition obqObjectInit :: "bool \<Rightarrow> nat option \<Rightarrow> nat \<Rightarrow> nat \<Rightarrow> io_buffers_queue result" where
  "obqObjectInit susp bp sz n =
     (case bp of None \<Rightarrow> Inl (DbgCheck ''obqObjectInit'')
      | Some p \<Rightarrow> dbgCheck ''obqObjectInit'' (2 \<le> sz)
          (Inr \<lparr>waiting = [], suspended = susp, bcounter = n, bwrptr = p, brdptr = p,
             btop = p + (sz + sizeof_size_t) * n, bsize = sz + sizeof_size_t, bn = n, buffers = p,
             ptr = None, top = None\<rparr>))"

definition obqResetI :: "('e, 'w) bqstate \<Rightarrow> ('e, 'w) bqstate" where
  "obqResetI s = chThdDequeueAllI MSG_RESET (s\<lparr>bq := (bq s)\<lparr>bcounter := bqSizeX (bq s),
     brdptr := buffers (bq s), bwrptr := buffers (bq s), ptr := None, top := None\<rparr>\<rparr>)"

text \<open>The buffer and its size, or null.\<close>

definition obqGetFullBufferI :: "('e, 'w) bqstate \<Rightarrow> (nat \<times> nat) option" where
  "obqGetFullBufferI s = (if obqIsEmptyI (bq s) then None
     else Some (brdptr (bq s) + sizeof_size_t, load_size (ram s) (brdptr (bq s))))"

definition obqReleaseEmptyBufferI :: "('e, 'w) bqop" where
  "obqReleaseEmptyBufferI s =
     dbgAssert ''buffers queue empty'' (\<not> obqIsEmptyI (bq s))
       (Inr (chThdDequeueNextI MSG_OK (s\<lparr>bq := (bq s)\<lparr>bcounter := bcounter (bq s) + 1,
          brdptr := bump (bq s) (brdptr (bq s))\<rparr>\<rparr>)))"

definition obqGetEmptyBufferTimeoutS ::
  "('e \<Rightarrow> ('e, 'w) bqop) \<Rightarrow> sysinterval \<Rightarrow> ('e, 'w) bqstate \<Rightarrow> (msg \<times> ('e, 'w) bqstate) result" where
  "obqGetEmptyBufferTimeoutS env timeout s =
     bindE (bqWait obqIsFullI (Suc (length (naps s))) env timeout s) (\<lambda>(m, s).
       if m < MSG_OK then Inr (m, s) else
       dbgAssert ''still full'' (\<not> obqIsFullI (bq s))
         (Inr (MSG_OK, s\<lparr>bq := (bq s)\<lparr>ptr := Some (bwrptr (bq s) + sizeof_size_t),
            top := Some (bwrptr (bq s) + bsize (bq s))\<rparr>\<rparr>)))"

definition obqGetEmptyBufferTimeout ::
  "('e \<Rightarrow> ('e, 'w) bqop) \<Rightarrow> sysinterval \<Rightarrow> ('e, 'w) bqstate \<Rightarrow> (msg \<times> ('e, 'w) bqstate) result" where
  "obqGetEmptyBufferTimeout env timeout s = obqGetEmptyBufferTimeoutS env timeout s"

text \<open>The size field, the counter and the write pointer of a posted buffer.\<close>

definition obq_post :: "nat \<Rightarrow> ('e, 'w) bqstate \<Rightarrow> ('e, 'w) bqstate" where
  "obq_post sz s = s\<lparr>ram := store_size (ram s) (bwrptr (bq s)) sz,
     bq := (bq s)\<lparr>bcounter := bcounter (bq s) - 1, bwrptr := bump (bq s) (bwrptr (bq s)), ptr := None\<rparr>\<rparr>"

definition obqPostFullBufferS :: "('e, 'w) bqop option \<Rightarrow> nat \<Rightarrow> ('e, 'w) bqop" where
  "obqPostFullBufferS nfy sz s =
     dbgCheck ''obqPostFullBufferS'' (0 < sz \<and> sz \<le> bsize (bq s) - sizeof_size_t)
     (dbgAssert ''buffers queue full'' (\<not> obqIsFullI (bq s)) (notify_call nfy (obq_post sz s)))"

definition obqPostFullBuffer :: "('e, 'w) bqop option \<Rightarrow> nat \<Rightarrow> ('e, 'w) bqop" where
  "obqPostFullBuffer nfy sz s = obqPostFullBufferS nfy sz s"

definition obqPutTimeout :: "('e \<Rightarrow> ('e, 'w) bqop) \<Rightarrow> ('e, 'w) bqop option \<Rightarrow> byte \<Rightarrow> sysinterval \<Rightarrow>
    ('e, 'w) bqstate \<Rightarrow> (msg \<times> ('e, 'w) bqstate) result" where
  "obqPutTimeout env nfy b timeout s =
     bindE (if ptr (bq s) = None then obqGetEmptyBufferTimeoutS env timeout s else Inr (MSG_OK, s))
       (\<lambda>(m, s).
          if m \<noteq> MSG_OK then Inr (m, s) else
          bindE (deref ''ptr'' (ptr (bq s))) (\<lambda>p.
          bindE (deref ''top'' (top (bq s))) (\<lambda>t.
            let s = s\<lparr>ram := (ram s)(p := b), bq := (bq s)\<lparr>ptr := Some (p + 1)\<rparr>\<rparr>
            in bindE (if t \<le> p + 1 then obqPostFullBufferS nfy (bsize (bq s) - sizeof_size_t) s
                      else Inr s) (\<lambda>s. Inr (MSG_OK, s)))))"

definition obqWrite_chunk :: "('e, 'w) bqop option \<Rightarrow> nat \<Rightarrow> nat \<Rightarrow> ('e, 'w) bqstate \<Rightarrow>
    (nat \<times> ('e, 'w) bqstate) result" where
  "obqWrite_chunk nfy bp left s =
     bindE (deref ''ptr'' (ptr (bq s))) (\<lambda>p.
     bindE (deref ''top'' (top (bq s))) (\<lambda>t.
       let sz = min (min (size_diff t p) left) 64;
           s = s\<lparr>ram := memcpy (ram s) p bp sz, bq := (bq s)\<lparr>ptr := Some (p + sz)\<rparr>\<rparr>
       in bindE (if t \<le> p + sz then obqPostFullBufferS nfy (bsize (bq s) - sizeof_size_t) s
                 else Inr s) (\<lambda>s. Inr (sz, s))))"

definition obqWrite_acquire :: "('e \<Rightarrow> ('e, 'w) bqop) \<Rightarrow> sysinterval \<Rightarrow> systime \<Rightarrow> ('e, 'w) bqstate \<Rightarrow>
    (bool \<times> ('e, 'w) bqstate) result" where
  "obqWrite_acquire env timeout deadline s =
     (if ptr (bq s) \<noteq> None then Inr (True, s)
      else if timeout = TIME_INFINITE \<or> timeout = TIME_IMMEDIATE then
        bindE (obqGetEmptyBufferTimeoutS env timeout s) (\<lambda>(m, s). Inr (m = MSG_OK, s))
      else
        let next_timeout = chTimeDiffX (now s) deadline in
        if timeout < next_timeout then Inr (False, s)
        else bindE (obqGetEmptyBufferTimeoutS env next_timeout s) (\<lambda>(m, s). Inr (m = MSG_OK, s)))"

fun obqWrite_loop :: "nat \<Rightarrow> ('e \<Rightarrow> ('e, 'w) bqop) \<Rightarrow> ('e, 'w) bqop option \<Rightarrow> sysinterval \<Rightarrow> systime \<Rightarrow>
    nat \<Rightarrow> nat \<Rightarrow> nat \<Rightarrow> ('e, 'w) bqstate \<Rightarrow> (nat \<times> ('e, 'w) bqstate) result" where
  "obqWrite_loop 0 env nfy timeout deadline bp n w s = Inl OutOfFuel"
| "obqWrite_loop (Suc k) env nfy timeout deadline bp n w s =
     bindE (obqWrite_acquire env timeout deadline s) (\<lambda>(go, s).
       if \<not> go then Inr (w, s) else
       bindE (obqWrite_chunk nfy bp (n - w) s) (\<lambda>(sz, s).
         if n \<le> w + sz then Inr (w + sz, s) else
         bindE (preempt env s) (\<lambda>s.
           obqWrite_loop k env nfy timeout deadline (bp + sz) n (w + sz) s)))"

definition obqWriteTimeout :: "('e \<Rightarrow> ('e, 'w) bqop) \<Rightarrow> ('e, 'w) bqop option \<Rightarrow> nat \<Rightarrow> nat \<Rightarrow> sysinterval \<Rightarrow>
    ('e, 'w) bqstate \<Rightarrow> (nat \<times> ('e, 'w) bqstate) result" where
  "obqWriteTimeout env nfy bp n timeout s =
     dbgCheck ''obqWriteTimeout'' (0 < n)
       (obqWrite_loop n env nfy timeout (chTimeAddX (now s) timeout) bp n 0 s)"

definition obqTryFlushI :: "('e, 'w) bqstate \<Rightarrow> bool \<times> ('e, 'w) bqstate" where
  "obqTryFlushI s = (case ptr (bq s) of
      None \<Rightarrow> (False, s)
    | Some p \<Rightarrow>
        let sz = size_diff p (bwrptr (bq s) + sizeof_size_t) in
        if obqIsEmptyI (bq s) \<and> 0 < sz then (True, obq_post sz s) else (False, s))"

definition obqFlush :: "('e, 'w) bqop option \<Rightarrow> ('e, 'w) bqop" where
  "obqFlush nfy s = (case ptr (bq s) of
      None \<Rightarrow> Inr s
    | Some p \<Rightarrow>
        let sz = size_diff p (bwrptr (bq s) + sizeof_size_t) in
        if 0 < sz then obqPostFullBufferS nfy sz s else Inr s)"

end
