(* ===== verification/BufferRing.thy ===== *)
theory BufferRing
  imports BufferQueues
begin

text \<open>
  The ring of slots both kinds of queue are built on: where the slots are, that the pointers go
  round them, and what writing one slot leaves alone. \<open>c\<close> is the number of full slots, which an
  input queue counts in \<^verbatim>\<open>bcounter\<close> and an output queue counts down.
\<close>

section \<open>Layout\<close>

definition slot :: "io_buffers_queue \<Rightarrow> nat \<Rightarrow> nat" where
  "slot q i = buffers q + (i mod bn q) * bsize q"

definition ridx :: "io_buffers_queue \<Rightarrow> nat" where
  "ridx q = (brdptr q - buffers q) div bsize q"

definition ring :: "io_buffers_queue \<Rightarrow> nat \<Rightarrow> bool" where
  "ring q c \<longleftrightarrow> 0 < bn q \<and> 6 \<le> bsize q \<and> btop q = buffers q + bn q * bsize q \<and> btop q < 2 ^ 32 \<and>
     c \<le> bn q \<and> brdptr q = slot q (ridx q) \<and> bwrptr q = slot q (ridx q + c)"

lemma slot_bounds:
  assumes "ring q c"
  shows "buffers q \<le> slot q i" "slot q i + bsize q \<le> btop q"
proof -
  have "i mod bn q + 1 \<le> bn q" using assms by (simp add: ring_def Suc_le_eq)
  then have "(i mod bn q + 1) * bsize q \<le> bn q * bsize q" by (rule mult_le_mono1)
  then show "buffers q \<le> slot q i" "slot q i + bsize q \<le> btop q"
    using assms by (simp_all add: slot_def ring_def)
qed

lemma slot_disjoint:
  assumes "i mod bn q \<noteq> j mod bn q"
  shows "slot q i + bsize q \<le> slot q j \<or> slot q j + bsize q \<le> slot q i"
proof -
  have *: "slot q a + bsize q \<le> slot q b" if "a mod bn q < b mod bn q" for a b
  proof -
    have "(a mod bn q + 1) * bsize q \<le> (b mod bn q) * bsize q"
      using that by (intro mult_le_mono1) simp
    then show ?thesis by (simp add: slot_def)
  qed
  then show ?thesis using assms by (meson linorder_neqE_nat)
qed

lemma ring_index_neq: "i < j \<Longrightarrow> j < i + n \<Longrightarrow> (r + i) mod n \<noteq> (r + j) mod n" for n :: nat
proof
  assume a: "i < j" "j < i + n" "(r + i) mod n = (r + j) mod n"
  then have "n dvd (r + j) - (r + i)" by (metis mod_eq_dvd_iff_nat add_le_cancel_left less_imp_le)
  then have "n dvd j - i" by simp
  with a show False by (auto dest: dvd_imp_le)
qed

lemma bump_slot:
  assumes "ring q c"
  shows "bump q (slot q i) = slot q (Suc i)"
proof (cases "Suc (i mod bn q) = bn q")
  case True
  have "bn q * bsize q = Suc (i mod bn q) * bsize q" by (simp only: True)
  then have "slot q i + bsize q = btop q" using assms by (simp add: slot_def ring_def)
  moreover have "Suc i mod bn q = 0" using True by (simp add: mod_Suc)
  ultimately show ?thesis by (simp add: bump_def slot_def)
next
  case False
  then have lt: "Suc (i mod bn q) < bn q" using assms by (simp add: ring_def Suc_lessI)
  then have m: "Suc i mod bn q = Suc (i mod bn q)" by (simp add: mod_Suc)
  have "Suc (i mod bn q) * bsize q < bn q * bsize q"
    using lt assms by (intro mult_strict_right_mono) (auto simp: ring_def)
  then show ?thesis using assms m by (simp add: bump_def slot_def ring_def)
qed

lemma ridx_slot: "0 < bsize q \<Longrightarrow> (slot q i - buffers q) div bsize q = i mod bn q"
  by (simp add: slot_def)

lemma slot_cong: "i mod bn q = j mod bn q \<Longrightarrow> slot q i = slot q j"
  by (simp add: slot_def)

lemma slot_update [simp]:
  "slot (q\<lparr>bcounter := x\<rparr>) = slot q" "slot (q\<lparr>bwrptr := y\<rparr>) = slot q" "slot (q\<lparr>brdptr := y\<rparr>) = slot q"
  "slot (q\<lparr>ptr := p\<rparr>) = slot q" "slot (q\<lparr>top := p\<rparr>) = slot q" "slot (q\<lparr>waiting := w\<rparr>) = slot q"
  "slot (q\<lparr>suspended := b\<rparr>) = slot q"
  by (simp_all add: slot_def fun_eq_iff)

lemma ridx_update [simp]:
  "ridx (q\<lparr>bcounter := x\<rparr>) = ridx q" "ridx (q\<lparr>bwrptr := y\<rparr>) = ridx q"
  "ridx (q\<lparr>ptr := p\<rparr>) = ridx q" "ridx (q\<lparr>top := p\<rparr>) = ridx q" "ridx (q\<lparr>waiting := w\<rparr>) = ridx q"
  "ridx (q\<lparr>suspended := b\<rparr>) = ridx q"
  by (simp_all add: ridx_def)

lemma ring_update [simp]:
  "ring (q\<lparr>bcounter := x\<rparr>) c = ring q c" "ring (q\<lparr>ptr := p\<rparr>) c = ring q c"
  "ring (q\<lparr>top := p\<rparr>) c = ring q c" "ring (q\<lparr>waiting := w\<rparr>) c = ring q c"
  "ring (q\<lparr>suspended := b\<rparr>) c = ring q c"
  "ring (q\<lparr>bcounter := x, bwrptr := y\<rparr>) c = ring (q\<lparr>bwrptr := y\<rparr>) c"
  "ring (q\<lparr>bcounter := x, brdptr := y\<rparr>) c = ring (q\<lparr>brdptr := y\<rparr>) c"
  by (simp_all add: ring_def ridx_def)

lemma bump_update [simp]:
  "bump (q\<lparr>bcounter := x\<rparr>) = bump q" "bump (q\<lparr>ptr := p\<rparr>) = bump q" "bump (q\<lparr>waiting := w\<rparr>) = bump q"
  by (simp_all add: bump_def fun_eq_iff)

lemma ring_write:
  assumes "ring q c" "c < bn q"
  shows "ring (q\<lparr>bwrptr := bump q (bwrptr q)\<rparr>) (Suc c)"
  using assms bump_slot [OF assms(1), of "ridx q + c"] by (simp add: ring_def)

lemma ring_read:
  assumes "ring q c" "0 < c"
  shows "ring (q\<lparr>brdptr := bump q (brdptr q)\<rparr>) (c - 1)"
    "\<And>i. slot q (ridx (q\<lparr>brdptr := bump q (brdptr q)\<rparr>) + i) = slot q (ridx q + Suc i)"
proof -
  let ?q = "q\<lparr>brdptr := bump q (brdptr q)\<rparr>"
  have b: "brdptr ?q = slot q (Suc (ridx q))" using bump_slot [OF assms(1)] assms(1) by (simp add: ring_def)
  then have r: "ridx ?q = Suc (ridx q) mod bn q"
    using assms(1) ridx_slot [of q] by (simp add: ridx_def ring_def)
  show sl: "slot q (ridx ?q + i) = slot q (ridx q + Suc i)" for i
    unfolding r by (rule slot_cong) (simp add: mod_simps)
  have "bwrptr ?q = slot q (ridx ?q + (c - 1))"
    using sl [of "c - 1"] assms by (simp add: ring_def)
  moreover have "brdptr ?q = slot q (ridx ?q)" using b sl [of 0] by simp
  ultimately show "ring ?q (c - 1)" using assms unfolding ring_def by auto
qed

lemma ring_reset:
  assumes "ring q c"
  shows "ring (q\<lparr>brdptr := buffers q, bwrptr := buffers q\<rparr>) 0"
  using assms by (simp add: ring_def slot_def ridx_def)

lemma ring_full_iff: "ring q c \<Longrightarrow> bwrptr q = brdptr q \<longleftrightarrow> c = 0 \<or> c = bn q"
proof
  assume r: "ring q c" and e: "bwrptr q = brdptr q"
  show "c = 0 \<or> c = bn q"
  proof (rule ccontr)
    assume "\<not> (c = 0 \<or> c = bn q)"
    then have "(ridx q + 0) mod bn q \<noteq> (ridx q + c) mod bn q"
      using r by (intro ring_index_neq) (auto simp: ring_def)
    then have "slot q (ridx q + 0) \<noteq> slot q (ridx q + c)"
      using r by (auto simp: slot_def ring_def)
    with r e show False by (simp add: ring_def)
  qed
next
  assume r: "ring q c" and e: "c = 0 \<or> c = bn q"
  then have "slot q (ridx q + c) = slot q (ridx q)" by (intro slot_cong) auto
  with r show "bwrptr q = brdptr q" by (simp add: ring_def)
qed

section \<open>Contents\<close>

definition bufdata :: "mem \<Rightarrow> nat \<Rightarrow> byte list" where
  "bufdata m a = load_bytes m (a + 4) (load_size m a)"

definition bufs :: "mem \<Rightarrow> io_buffers_queue \<Rightarrow> nat \<Rightarrow> byte list list" where
  "bufs m q c = map (\<lambda>i. bufdata m (slot q (ridx q + i))) [0..<c]"

definition bufs_ok :: "mem \<Rightarrow> io_buffers_queue \<Rightarrow> nat \<Rightarrow> bool" where
  "bufs_ok m q c \<longleftrightarrow> (\<forall>i<c. 0 < load_size m (slot q (ridx q + i)) \<and>
     load_size m (slot q (ridx q + i)) \<le> bsize q - 4)"

text \<open>Two memories agree on the full slots.\<close>

definition agree :: "mem \<Rightarrow> mem \<Rightarrow> io_buffers_queue \<Rightarrow> nat \<Rightarrow> bool" where
  "agree m m' q c \<longleftrightarrow> (\<forall>i<c. \<forall>x. slot q (ridx q + i) \<le> x \<and> x < slot q (ridx q + i) + bsize q \<longrightarrow> m' x = m x)"

lemma agree_bufs:
  assumes "ring q c" "agree m m' q c" "bufs_ok m q c"
  shows "bufs m' q c = bufs m q c" "bufs_ok m' q c"
proof -
  have b: "6 \<le> bsize q" using assms(1) by (simp add: ring_def)
  have sz: "load_size m' (slot q (ridx q + i)) = load_size m (slot q (ridx q + i))" if "i < c" for i
    using that assms(2) b by (intro load_size_cong) (auto simp: agree_def)
  have "bufdata m' (slot q (ridx q + i)) = bufdata m (slot q (ridx q + i))" if i: "i < c" for i
  proof -
    have "load_size m (slot q (ridx q + i)) \<le> bsize q - 4" using assms(3) i by (simp add: bufs_ok_def)
    then show ?thesis unfolding bufdata_def sz [OF i]
      using assms(2) i b by (intro load_bytes_cong) (auto simp: agree_def)
  qed
  then show "bufs m' q c = bufs m q c" by (simp add: bufs_def)
  show "bufs_ok m' q c" using assms(3) sz by (simp add: bufs_ok_def)
qed

lemma agree_outside:
  assumes "ring q c" "\<And>x. buffers q \<le> x \<Longrightarrow> x < btop q \<Longrightarrow> m' x = m x"
  shows "agree m m' q c"
proof -
  have "m' x = m x" if "slot q j \<le> x" "x < slot q j + bsize q" for j x
    using that assms(2) slot_bounds [OF assms(1), of j] by simp
  then show ?thesis unfolding agree_def by blast
qed

lemma agree_free_slot:
  assumes "ring q c" "c < bn q"
    and "\<And>x. x < bwrptr q \<or> bwrptr q + bsize q \<le> x \<Longrightarrow> m' x = m x"
  shows "agree m m' q c"
  unfolding agree_def
proof (intro allI impI)
  fix i x
  assume i: "i < c" and x: "slot q (ridx q + i) \<le> x \<and> x < slot q (ridx q + i) + bsize q"
  have "(ridx q + i) mod bn q \<noteq> (ridx q + c) mod bn q"
    using i assms(2) by (intro ring_index_neq) auto
  from slot_disjoint [OF this] have "x < bwrptr q \<or> bwrptr q + bsize q \<le> x"
    using x assms(1) by (auto simp: ring_def)
  then show "m' x = m x" by (rule assms(3))
qed

lemma bufs_Suc: "bufs m q (Suc c) = bufs m q c @ [bufdata m (slot q (ridx q + c))]"
  by (simp add: bufs_def)

lemma bufs_Cons: "0 < c \<Longrightarrow> bufs m q c = bufdata m (slot q (ridx q)) # tl (bufs m q c)"
  by (simp add: bufs_def upt_conv_Cons)

lemma bufs_read:
  assumes "ring q c" "0 < c"
  shows "bufs m (q\<lparr>brdptr := bump q (brdptr q)\<rparr>) (c - 1) = tl (bufs m q c)"
    "bufs_ok m q c \<Longrightarrow> bufs_ok m (q\<lparr>brdptr := bump q (brdptr q)\<rparr>) (c - 1)"
proof -
  note sl = ring_read(2) [OF assms]
  show "bufs m (q\<lparr>brdptr := bump q (brdptr q)\<rparr>) (c - 1) = tl (bufs m q c)"
    using assms(2) by (intro nth_equalityI) (auto simp: bufs_def sl nth_tl)
  show "bufs_ok m q c \<Longrightarrow> bufs_ok m (q\<lparr>brdptr := bump q (brdptr q)\<rparr>) (c - 1)"
    by (simp add: bufs_ok_def sl del: add_Suc_right)
qed

lemma bufs_update [simp]:
  "bufs m (q\<lparr>bcounter := x\<rparr>) = bufs m q" "bufs m (q\<lparr>bwrptr := y\<rparr>) = bufs m q"
  "bufs m (q\<lparr>ptr := p\<rparr>) = bufs m q" "bufs m (q\<lparr>top := p\<rparr>) = bufs m q"
  "bufs m (q\<lparr>waiting := w\<rparr>) = bufs m q" "bufs m (q\<lparr>suspended := b\<rparr>) = bufs m q"
  "bufs_ok m (q\<lparr>bcounter := x\<rparr>) = bufs_ok m q" "bufs_ok m (q\<lparr>bwrptr := y\<rparr>) = bufs_ok m q"
  "bufs_ok m (q\<lparr>ptr := p\<rparr>) = bufs_ok m q" "bufs_ok m (q\<lparr>top := p\<rparr>) = bufs_ok m q"
  "bufs_ok m (q\<lparr>waiting := w\<rparr>) = bufs_ok m q" "bufs_ok m (q\<lparr>suspended := b\<rparr>) = bufs_ok m q"
  "bufs m (q\<lparr>bcounter := x, brdptr := y\<rparr>) = bufs m (q\<lparr>brdptr := y\<rparr>)"
  "bufs_ok m (q\<lparr>bcounter := x, brdptr := y\<rparr>) = bufs_ok m (q\<lparr>brdptr := y\<rparr>)"
  by (simp_all add: bufs_def bufs_ok_def fun_eq_iff ridx_def)

text \<open>Posting the free slot: its size field is written, the slots already full stay.\<close>

lemma bufs_post:
  assumes r: "ring q c" "c < bn q" and ok: "bufs_ok m q c" and sz: "0 < sz" "sz \<le> bsize q - 4"
  shows "bufs (store_size m (bwrptr q) sz) (q\<lparr>bwrptr := bump q (bwrptr q)\<rparr>) (Suc c) =
      bufs m q c @ [load_bytes m (bwrptr q + 4) sz]"
    "bufs_ok (store_size m (bwrptr q) sz) (q\<lparr>bwrptr := bump q (bwrptr q)\<rparr>) (Suc c)"
proof -
  let ?m = "store_size m (bwrptr q) sz"
  have b: "6 \<le> bsize q" "btop q < 2 ^ 32" using r by (simp_all add: ring_def)
  have w: "slot q (ridx q + c) = bwrptr q" using r by (simp add: ring_def)
  have ag: "agree m ?m q c" using b by (intro agree_free_slot [OF r]) (auto simp: store_size_frame)
  note ab = agree_bufs [OF r(1) ag ok]
  have "bsize q \<le> btop q" using slot_bounds(2) [OF r(1), of 0] by simp
  then have "sz < 2 ^ 32" using sz b by simp
  then have ls: "load_size ?m (bwrptr q) = sz" by simp
  have bd: "bufdata ?m (bwrptr q) = load_bytes m (bwrptr q + 4) sz"
    unfolding bufdata_def ls by (intro load_bytes_cong) (auto simp: store_size_frame)
  show "bufs ?m (q\<lparr>bwrptr := bump q (bwrptr q)\<rparr>) (Suc c) = bufs m q c @ [load_bytes m (bwrptr q + 4) sz]"
    using ab bd w by (simp add: bufs_Suc)
  show "bufs_ok ?m (q\<lparr>bwrptr := bump q (bwrptr q)\<rparr>) (Suc c)"
    using ab(2) ls w sz by (auto simp: bufs_ok_def less_Suc_eq)
qed

end
