(* ===== verification/BufferWait.thy ===== *)
theory BufferWait
  imports BufferQueues
begin

text \<open>
  Sleeping on a queue of buffers, for readers and writers alike: what the rest of the system does
  while the thread is away, as a contract, and what the thread then finds.
\<close>

text \<open>A sleep may outlast the script: it has no timeout, or the timer never expires in it.\<close>

definition may_block :: "sysinterval \<Rightarrow> 'e nap list \<Rightarrow> bool" where
  "may_block t ns \<longleftrightarrow> t = TIME_INFINITE \<or> Expire \<notin> set ns"

text \<open>The timeout of the rest of an operation never becomes infinite.\<close>

lemma next_timeout_finite: "timeout \<noteq> TIME_INFINITE \<Longrightarrow> \<not> timeout < x \<Longrightarrow> x \<noteq> TIME_INFINITE"
  using word_order.extremum_unique [of timeout] by (auto simp: TIME_INFINITE_def)

lemma may_block_next:
  "t \<noteq> TIME_INFINITE \<Longrightarrow> \<not> t < u \<Longrightarrow> may_block u ns = may_block t ns"
  using next_timeout_finite [of t u] by (auto simp: may_block_def)

text \<open>An event leaves the scripts alone and does not forget a sleeping thread.\<close>

definition fair_step :: "('e, 'w) bqstate \<Rightarrow> ('e, 'w) bqstate \<Rightarrow> bool" where
  "fair_step s s' \<longleftrightarrow> self s' = self s \<and> naps s' = naps s \<and> pre s' = pre s \<and>
     (self s \<in> set (waiting (bq s)) \<longrightarrow> self s \<notin> set (waiting (bq s')) \<longrightarrow>
        map_of (rev (readied s')) (self s) \<noteq> None)"

lemma dequeue_next [simp]:
  "ram (chThdDequeueNextI m s) = ram s" "now (chThdDequeueNextI m s) = now s"
  "self (chThdDequeueNextI m s) = self s" "naps (chThdDequeueNextI m s) = naps s"
  "pre (chThdDequeueNextI m s) = pre s" "dev (chThdDequeueNextI m s) = dev s"
  "\<exists>w. bq (chThdDequeueNextI m s) = (bq s)\<lparr>waiting := w\<rparr>"
  by (auto simp: chThdDequeueNextI_def split: list.splits) (metis io_buffers_queue.surjective io_buffers_queue.update_convs(1))

lemma fair_dequeue:
  assumes "self s' = self s" "naps s' = naps s" "pre s' = pre s" "waiting (bq s') = waiting (bq s)"
    "readied s' = readied s"
  shows "fair_step s (chThdDequeueNextI m s')"
proof (cases "waiting (bq s')")
  case Nil
  then show ?thesis using assms by (simp add: fair_step_def chThdDequeueNextI_def)
next
  case (Cons t ts)
  then show ?thesis using assms by (auto simp: fair_step_def chThdDequeueNextI_def)
qed

text \<open>
  The contract: \<open>V\<close> holds in every state, \<open>G\<close> relates the states before and after anything
  the rest of the system does.
\<close>

locale bq_sleeper =
  fixes env :: "'e \<Rightarrow> ('e, 'w) bqop" and V :: "('e, 'w) bqstate \<Rightarrow> bool"
    and G :: "('e, 'w) bqstate \<Rightarrow> ('e, 'w) bqstate \<Rightarrow> bool"
  assumes env_step: "V s \<Longrightarrow> \<exists>s'. env e s = Inr s' \<and> V s' \<and> G s s' \<and> fair_step s s'"
    and G_refl: "V s \<Longrightarrow> G s s"
    and G_trans: "G s s' \<Longrightarrow> G s' s'' \<Longrightarrow> G s s''"
    and V_script: "V s \<Longrightarrow> V (s\<lparr>naps := x\<rparr>) \<and> G s (s\<lparr>naps := x\<rparr>)"
    and V_pre: "V s \<Longrightarrow> V (s\<lparr>pre := y\<rparr>) \<and> G s (s\<lparr>pre := y\<rparr>)"
    and V_queue: "V s \<Longrightarrow> V (s\<lparr>bq := (bq s)\<lparr>waiting := w\<rparr>\<rparr>) \<and> G s (s\<lparr>bq := (bq s)\<lparr>waiting := w\<rparr>\<rparr>)"
begin

text \<open>A sleep ends woken or timed out; it goes on only if the script ends.\<close>

lemma sleep_ok:
  "V s \<Longrightarrow> self s \<in> set (waiting (bq s)) \<Longrightarrow>
   (sleep_loop env t ns s = Inl Blocked \<and> may_block t ns) \<or>
   (\<exists>m s'. sleep_loop env t ns s = Inr (m, s') \<and> V s' \<and> G s s' \<and> length (naps s') < length ns \<and>
      (may_block t ns \<or> m < MSG_OK \<or> \<not> may_block t (naps s')))"
proof (induction ns arbitrary: s)
  case Nil
  then show ?case by (simp add: may_block_def)
next
  case (Cons x ns)
  show ?case
  proof (cases x)
    case Expire
    show ?thesis
    proof (cases "t = TIME_INFINITE")
      case True
      with Cons.IH [OF Cons.prems] Expire show ?thesis by (fastforce simp: may_block_def)
    next
      case False
      let ?q = "s\<lparr>bq := (bq s)\<lparr>waiting := remove1 (self s) (waiting (bq s))\<rparr>\<rparr>"
      have "V (?q\<lparr>naps := ns\<rparr>) \<and> G s (?q\<lparr>naps := ns\<rparr>)"
        using V_queue [OF Cons.prems(1)] V_script [of ?q] G_trans by blast
      then show ?thesis using False Expire by (simp add: msg_defs)
    qed
  next
    case (Ev e)
    obtain s1 where e: "env e s = Inr s1" "V s1" "G s s1" "fair_step s s1"
      using env_step [OF Cons.prems(1)] by blast
    have s1: "self s1 = self s" using e(4) by (simp add: fair_step_def)
    show ?thesis
    proof (cases "self s1 \<in> set (waiting (bq s1))")
      case True
      with Cons.IH [OF e(2) True] e Ev show ?thesis
        by (auto simp: may_block_def dest: G_trans [OF e(3)])
    next
      case False
      then obtain m where "map_of (rev (readied s1)) (self s1) = Some m"
        using e(4) Cons.prems(2) s1 by (auto simp: fair_step_def)
      then have "sleep_loop env t (x # ns) s = Inr (m, s1\<lparr>naps := ns\<rparr>)" using Ev e(1) False by simp
      moreover have "V (s1\<lparr>naps := ns\<rparr>)" "G s (s1\<lparr>naps := ns\<rparr>)"
        using V_script [OF e(2)] G_trans [OF e(3)] by blast+
      ultimately show ?thesis using Ev by (auto simp: may_block_def)
    qed
  qed
qed

lemma enqueue_ok:
  assumes "V s"
  shows "(chThdEnqueueTimeoutS env t s = Inl Blocked \<and> t \<noteq> TIME_IMMEDIATE \<and> may_block t (naps s)) \<or>
   (\<exists>m s'. chThdEnqueueTimeoutS env t s = Inr (m, s') \<and> V s' \<and> G s s' \<and>
      (m < MSG_OK \<or> length (naps s') < length (naps s)) \<and>
      (may_block t (naps s) \<or> m < MSG_OK \<or> \<not> may_block t (naps s')))"
proof (cases "t = TIME_IMMEDIATE")
  case True
  then show ?thesis using assms by (auto simp: chThdEnqueueTimeoutS_def msg_defs intro: G_refl)
next
  case False
  let ?s = "s\<lparr>bq := (bq s)\<lparr>waiting := waiting (bq s) @ [self s]\<rparr>\<rparr>"
  have g: "V ?s" "G s ?s" using V_queue [OF assms] by blast+
  moreover have "self ?s \<in> set (waiting (bq ?s))" by simp
  ultimately show ?thesis using sleep_ok [of ?s t "naps s"] False
    by (auto simp: chThdEnqueueTimeoutS_def dest: G_trans [OF g(2)])
qed

lemma wait_ok:
  "V s \<Longrightarrow> length (naps s) < k \<Longrightarrow>
   (bqWait stuck k env t s = Inl Blocked \<and> t \<noteq> TIME_IMMEDIATE \<and> may_block t (naps s)) \<or>
   (\<exists>m s'. bqWait stuck k env t s = Inr (m, s') \<and> V s' \<and> G s s' \<and>
      (m < MSG_OK \<or> m = MSG_OK \<and> \<not> stuck (bq s')) \<and>
      (may_block t (naps s) \<or> m < MSG_OK \<or> \<not> may_block t (naps s')))"
proof (induction k arbitrary: s)
  case 0
  then show ?case by simp
next
  case (Suc k)
  consider "\<not> stuck (bq s)" | "stuck (bq s)" "suspended (bq s)" | "stuck (bq s)" "\<not> suspended (bq s)"
    by blast
  then show ?case
  proof cases
    case 1
    then show ?thesis using Suc.prems(1) G_refl by fastforce
  next
    case 2
    then show ?thesis using Suc.prems(1) G_refl by (fastforce simp: msg_defs)
  next
    case 3
    from enqueue_ok [OF Suc.prems(1), of t] consider
        "chThdEnqueueTimeoutS env t s = Inl Blocked" "t \<noteq> TIME_IMMEDIATE" "may_block t (naps s)"
      | m s1 where "chThdEnqueueTimeoutS env t s = Inr (m, s1)" "V s1" "G s s1"
          "m < MSG_OK \<or> length (naps s1) < length (naps s)"
          "may_block t (naps s) \<or> m < MSG_OK \<or> \<not> may_block t (naps s1)"
      by blast
    then show ?thesis
    proof cases
      case 1
      with 3 show ?thesis by simp
    next
      case e: (2 m s1)
      show ?thesis
      proof (cases "m < MSG_OK")
        case True
        with 3 e show ?thesis by auto
      next
        case False
        have "length (naps s1) < k" using e(4) Suc.prems(2) False by auto
        from Suc.IH [OF e(2) this] 3 e False show ?thesis
          by (auto dest: G_trans [OF e(3)])
      qed
    qed
  qed
qed

lemma run_ok: "V s \<Longrightarrow> \<exists>s'. run_ops env es s = Inr s' \<and> V s' \<and> G s s' \<and> naps s' = naps s"
proof (induction es arbitrary: s)
  case Nil
  then show ?case using G_refl by simp
next
  case (Cons e es)
  obtain s1 where e: "env e s = Inr s1" "V s1" "G s s1" "naps s1 = naps s"
    using env_step [OF Cons.prems] by (auto simp: fair_step_def)
  from Cons.IH [OF e(2)] e show ?case by (auto dest: G_trans [OF e(3)])
qed

lemma preempt_ok:
  assumes "V s"
  shows "\<exists>s'. preempt env s = Inr s' \<and> V s' \<and> G s s' \<and> naps s' = naps s"
proof (cases "pre s")
  case Nil
  then show ?thesis using assms G_refl by (simp add: preempt_def)
next
  case (Cons es rest)
  have "V (s\<lparr>pre := rest\<rparr>)" "G s (s\<lparr>pre := rest\<rparr>)" using V_pre [OF assms] by blast+
  then show ?thesis using run_ok [of "s\<lparr>pre := rest\<rparr>" es] Cons
    by (auto simp: preempt_def dest: G_trans [of s "s\<lparr>pre := rest\<rparr>"])
qed

end

end
