(* ===== verification/BufferInput.thy ===== *)
theory BufferInput
  imports BufferRing BufferWait
begin

text \<open>
  Input queues as byte streams. \<open>ibq_stream\<close> is what a reader will still get: the rest of the
  buffer it is reading and the full buffers behind it. The interrupt side appends to it, the reader
  takes from its front, and neither disturbs the other.
\<close>

section \<open>Invariant and abstraction\<close>

definition cur_size :: "('e, 'w) bqstate \<Rightarrow> nat" where
  "cur_size s = load_size (ram s) (brdptr (bq s))"

definition ibq_inv :: "('e, 'w) bqstate \<Rightarrow> bool" where
  "ibq_inv s \<longleftrightarrow> ring (bq s) (bcounter (bq s)) \<and> bufs_ok (ram s) (bq s) (bcounter (bq s)) \<and>
     (case ptr (bq s) of None \<Rightarrow> True
      | Some p \<Rightarrow> 0 < bcounter (bq s) \<and> top (bq s) = Some (brdptr (bq s) + 4 + cur_size s) \<and>
          brdptr (bq s) + 4 \<le> p \<and> p < brdptr (bq s) + 4 + cur_size s)"

definition ibq_stream :: "('e, 'w) bqstate \<Rightarrow> byte list" where
  "ibq_stream s = (let bs = bufs (ram s) (bq s) (bcounter (bq s)) in case ptr (bq s) of
      None \<Rightarrow> concat bs
    | Some p \<Rightarrow> load_bytes (ram s) p (brdptr (bq s) + 4 + cur_size s - p) @ concat (tl bs))"

lemma ibq_cur:
  assumes "ibq_inv s" "0 < bcounter (bq s)"
  shows "slot (bq s) (ridx (bq s)) = brdptr (bq s)" "0 < cur_size s" "cur_size s \<le> bsize (bq s) - 4"
    "brdptr (bq s) + bsize (bq s) \<le> btop (bq s)" "buffers (bq s) \<le> brdptr (bq s)"
    "6 \<le> bsize (bq s)" "btop (bq s) < 2 ^ 32"
proof -
  have r: "ring (bq s) (bcounter (bq s))" using assms(1) by (simp add: ibq_inv_def)
  then show sl: "slot (bq s) (ridx (bq s)) = brdptr (bq s)" and "6 \<le> bsize (bq s)" "btop (bq s) < 2 ^ 32"
    by (simp_all add: ring_def)
  have "0 < load_size (ram s) (slot (bq s) (ridx (bq s) + 0)) \<and>
      load_size (ram s) (slot (bq s) (ridx (bq s) + 0)) \<le> bsize (bq s) - 4"
    using assms unfolding ibq_inv_def bufs_ok_def by blast
  then show "0 < cur_size s" "cur_size s \<le> bsize (bq s) - 4" by (simp_all add: cur_size_def sl)
  show "brdptr (bq s) + bsize (bq s) \<le> btop (bq s)" "buffers (bq s) \<le> brdptr (bq s)"
    using slot_bounds [OF r, of "ridx (bq s)"] by (simp_all add: sl)
qed

lemma ibq_stream_cur:
  assumes "ibq_inv s" "0 < bcounter (bq s)" "ptr (bq s) = None"
  shows "ibq_stream s = load_bytes (ram s) (brdptr (bq s) + 4) (cur_size s) @
    concat (tl (bufs (ram s) (bq s) (bcounter (bq s))))"
  using bufs_Cons [OF assms(2), of "ram s" "bq s"] ibq_cur(1) [OF assms(1,2)] assms(3)
  by (simp add: ibq_stream_def cur_size_def bufdata_def) (metis concat.simps(2))

lemma ibqIsFullI_iff: "ibq_inv s \<Longrightarrow> ibqIsFullI (bq s) \<longleftrightarrow> bcounter (bq s) = bn (bq s)"
  using ring_full_iff [of "bq s" "bcounter (bq s)"] by (auto simp: ibqIsFullI_def ibq_inv_def ring_def)

lemma ibq_inv_init:
  assumes "ibqObjectInit susp (Some p) sz n = Inr q" "0 < n" "p + BQ_BUFFER_SIZE n sz < 2 ^ 32"
  shows "ibq_inv (s\<lparr>bq := q\<rparr>)" "ibq_stream (s\<lparr>bq := q\<rparr>) = []"
  using assms
  by (auto simp: ibqObjectInit_def res_simps ibq_inv_def ring_def bufs_ok_def slot_def ridx_def
      BQ_BUFFER_SIZE_def ibq_stream_def bufs_def mult.commute)

lemma ibq_reset:
  assumes "ibq_inv s"
  shows "ibq_inv (ibqResetI s)" "ibq_stream (ibqResetI s) = []" "waiting (bq (ibqResetI s)) = []"
  using assms ring_reset [of "bq s" "bcounter (bq s)"]
  by (simp_all add: ibqResetI_def chThdDequeueAllI_def ibq_inv_def bufs_ok_def ibq_stream_def bufs_def
      ring_def slot_def ridx_def)

section \<open>The interrupt side\<close>

text \<open>
  A packet arrives: the device stores it where \<^verbatim>\<open>ibqGetEmptyBufferI\<close> points and the driver posts
  it; with no empty buffer the device was not told where to store anything.
\<close>

definition ibq_deliver :: "byte list \<Rightarrow> ('e, 'w) bqop" where
  "ibq_deliver bs s = (case ibqGetEmptyBufferI (bq s) of
      None \<Rightarrow> Inr s
    | Some a \<Rightarrow> ibqPostFullBufferI (length bs) (s\<lparr>ram := store_bytes (ram s) a bs\<rparr>))"

text \<open>Only the queue and the memory count.\<close>

lemma ibq_cong:
  assumes "bq s' = (bq s)\<lparr>waiting := w\<rparr>" "ram s' = ram s"
  shows "ibq_inv s' = ibq_inv s" "ibq_stream s' = ibq_stream s"
  using assms by (cases "ptr (bq s)"; simp add: ibq_inv_def ibq_stream_def cur_size_def Let_def)+

lemma ibq_waiting [simp]:
  "ibq_inv (s\<lparr>bq := (bq s)\<lparr>waiting := w\<rparr>\<rparr>) = ibq_inv s"
  "ibq_stream (s\<lparr>bq := (bq s)\<lparr>waiting := w\<rparr>\<rparr>) = ibq_stream s"
  by (rule ibq_cong [where s = s and w = w]; simp)+

lemma ibq_rest [simp]:
  "ibq_inv (s\<lparr>naps := x\<rparr>) = ibq_inv s" "ibq_stream (s\<lparr>naps := x\<rparr>) = ibq_stream s"
  "ibq_inv (s\<lparr>pre := y\<rparr>) = ibq_inv s" "ibq_stream (s\<lparr>pre := y\<rparr>) = ibq_stream s"
  "ibq_inv (s\<lparr>now := t\<rparr>) = ibq_inv s" "ibq_stream (s\<lparr>now := t\<rparr>) = ibq_stream s"
  "ibq_inv (s\<lparr>readied := r\<rparr>) = ibq_inv s" "ibq_stream (s\<lparr>readied := r\<rparr>) = ibq_stream s"
  "ibq_inv (s\<lparr>dev := d\<rparr>) = ibq_inv s" "ibq_stream (s\<lparr>dev := d\<rparr>) = ibq_stream s"
  by (rule ibq_cong [where s = s and w = "waiting (bq s)"]; simp)+

lemma ibq_dequeue [simp]:
  "ibq_inv (chThdDequeueNextI m s) = ibq_inv s" "ibq_stream (chThdDequeueNextI m s) = ibq_stream s"
  using dequeue_next(7) [of m s] ibq_cong by (metis dequeue_next(1))+

lemma ibqPostFullBufferI_ok:
  assumes inv: "ibq_inv s" and sz: "0 < sz" "sz \<le> bsize (bq s) - 4" and nf: "\<not> ibqIsFullI (bq s)"
  shows "\<exists>s'. ibqPostFullBufferI sz s = Inr s' \<and> ibq_inv s' \<and>
    ibq_stream s' = ibq_stream s @ load_bytes (ram s) (bwrptr (bq s) + 4) sz"
proof -
  let ?q = "bq s" and ?m = "store_size (ram s) (bwrptr (bq s)) sz"
  let ?s = "s\<lparr>ram := ?m, bq := ?q\<lparr>bcounter := bcounter ?q + 1, bwrptr := bump ?q (bwrptr ?q)\<rparr>\<rparr>"
  have r: "ring ?q (bcounter ?q)" "bufs_ok (ram s) ?q (bcounter ?q)" "bcounter ?q < bn ?q"
    using inv nf ibqIsFullI_iff [OF inv] by (auto simp: ibq_inv_def ring_def)
  note post = bufs_post [OF r(1,3,2) sz]
  have b: "6 \<le> bsize ?q" using r(1) by (simp add: ring_def)
  have ag: "agree (ram s) ?m ?q (bcounter ?q)"
    using b by (intro agree_free_slot [OF r(1,3)]) (auto simp: store_size_frame)
  have q': "?q\<lparr>bcounter := bcounter ?q + 1, bwrptr := bump ?q (bwrptr ?q)\<rparr> =
      ?q\<lparr>bwrptr := bump ?q (bwrptr ?q), bcounter := bcounter ?q + 1\<rparr>" by simp
  have ring': "ring (bq ?s) (bcounter (bq ?s))" using ring_write [OF r(1,3)] by (simp add: q')
  have bufs': "bufs ?m (bq ?s) (bcounter (bq ?s)) = bufs (ram s) ?q (bcounter ?q) @
      [load_bytes (ram s) (bwrptr ?q + 4) sz]" "bufs_ok ?m (bq ?s) (bcounter (bq ?s))"
    using post by (simp_all add: q')
  have inv_str: "ibq_inv ?s \<and> ibq_stream ?s = ibq_stream s @ load_bytes (ram s) (bwrptr ?q + 4) sz"
  proof (cases "ptr ?q")
    case None
    then show ?thesis using ring' bufs' by (simp add: ibq_inv_def ibq_stream_def)
  next
    case (Some p)
    then have c: "0 < bcounter ?q" using inv by (simp add: ibq_inv_def)
    note cur = ibq_cur [OF inv c]
    have same: "?m x = ram s x" if "brdptr ?q \<le> x" "x < brdptr ?q + bsize ?q" for x
      using ag c that cur(1) unfolding agree_def by (metis add_0_right)
    then have "cur_size ?s = cur_size s" using b by (simp add: cur_size_def) (intro load_size_cong, auto)
    moreover have "load_bytes ?m p (brdptr ?q + 4 + cur_size s - p) =
        load_bytes (ram s) p (brdptr ?q + 4 + cur_size s - p)"
      using inv Some cur(3) b same by (intro load_bytes_cong) (auto simp: ibq_inv_def)
    moreover have "bufs (ram s) ?q (bcounter ?q) \<noteq> []" using c by (simp add: bufs_def)
    ultimately show ?thesis using inv Some ring' bufs' by (simp add: ibq_inv_def ibq_stream_def)
  qed
  have "ibqPostFullBufferI sz s = Inr (chThdDequeueNextI MSG_OK ?s)"
    using sz nf by (simp add: ibqPostFullBufferI_def)
  then show ?thesis using inv_str by simp
qed

text \<open>Stores into the free slot the next packet goes to change nothing of the stream.\<close>

lemma ibq_free_slot:
  assumes inv: "ibq_inv s" and nf: "\<not> ibqIsFullI (bq s)"
    and m: "\<And>x. x < bwrptr (bq s) \<or> bwrptr (bq s) + bsize (bq s) \<le> x \<Longrightarrow> m x = ram s x"
  shows "ibq_inv (s\<lparr>ram := m\<rparr>)" "ibq_stream (s\<lparr>ram := m\<rparr>) = ibq_stream s"
proof -
  let ?q = "bq s"
  have r: "ring ?q (bcounter ?q)" "bufs_ok (ram s) ?q (bcounter ?q)" "bcounter ?q < bn ?q"
    using inv nf ibqIsFullI_iff [OF inv] by (auto simp: ibq_inv_def ring_def)
  have b: "6 \<le> bsize ?q" using r(1) by (simp add: ring_def)
  have ag: "agree (ram s) m ?q (bcounter ?q)" by (intro agree_free_slot [OF r(1,3)]) (auto intro!: m)
  note ab = agree_bufs [OF r(1) ag r(2)]
  have same: "m x = ram s x" if "brdptr ?q \<le> x" "x < brdptr ?q + bsize ?q" "0 < bcounter ?q" for x
    using ag that ibq_cur(1) [OF inv] unfolding agree_def by (metis add_0_right)
  have cs: "load_size m (brdptr ?q) = cur_size s" if "0 < bcounter ?q"
    unfolding cur_size_def using same that b by (intro load_size_cong) auto
  show "ibq_inv (s\<lparr>ram := m\<rparr>)" using inv ab cs
    by (auto simp: ibq_inv_def cur_size_def split: option.splits)
  show "ibq_stream (s\<lparr>ram := m\<rparr>) = ibq_stream s"
  proof (cases "ptr ?q")
    case (Some p)
    then have c: "0 < bcounter ?q" using inv by (simp add: ibq_inv_def)
    have "load_bytes m p (brdptr ?q + 4 + cur_size s - p) =
        load_bytes (ram s) p (brdptr ?q + 4 + cur_size s - p)"
      using inv Some ibq_cur(3) [OF inv c] b c same by (intro load_bytes_cong) (auto simp: ibq_inv_def)
    then show ?thesis using Some ab cs [OF c] by (simp add: ibq_stream_def cur_size_def)
  qed (use ab in \<open>simp add: ibq_stream_def\<close>)
qed

text \<open>A packet that fits is appended to the stream, or ignored when no buffer is free.\<close>

lemma ibq_deliver_ok:
  assumes inv: "ibq_inv s" and bs: "0 < length bs" "length bs \<le> bsize (bq s) - 4"
  shows "\<exists>s'. ibq_deliver bs s = Inr s' \<and> ibq_inv s' \<and>
    ibq_stream s' = ibq_stream s @ (if ibqIsFullI (bq s) then [] else bs)"
proof (cases "ibqIsFullI (bq s)")
  case True
  then show ?thesis using inv by (simp add: ibq_deliver_def ibqGetEmptyBufferI_def)
next
  case False
  let ?q = "bq s" and ?m = "store_bytes (ram s) (bwrptr (bq s) + 4) bs"
  have b: "6 \<le> bsize ?q" using inv by (simp add: ibq_inv_def ring_def)
  have "?m x = ram s x" if "x < bwrptr ?q \<or> bwrptr ?q + bsize ?q \<le> x" for x
    using that b bs by (intro store_bytes_frame) auto
  note free = ibq_free_slot [OF inv False this]
  obtain s' where "ibqPostFullBufferI (length bs) (s\<lparr>ram := ?m\<rparr>) = Inr s'" "ibq_inv s'"
    "ibq_stream s' = ibq_stream (s\<lparr>ram := ?m\<rparr>) @ load_bytes ?m (bwrptr ?q + 4) (length bs)"
    using ibqPostFullBufferI_ok [OF free(1), of "length bs"] bs False by auto
  then show ?thesis using False free(2) by (simp add: ibq_deliver_def ibqGetEmptyBufferI_def)
qed

section \<open>What a reader may rely on\<close>

text \<open>
  \<open>grows s d s'\<close>: the other side appended \<open>d\<close> to the stream, as its log of what it
  delivered says (\<open>lg\<close> reads the log), and left the destination \<open>lo..<hi\<close> alone.
\<close>

definition grows :: "('w \<Rightarrow> byte list) \<Rightarrow> nat \<Rightarrow> nat \<Rightarrow> ('e, 'w) bqstate \<Rightarrow> byte list \<Rightarrow> ('e, 'w) bqstate \<Rightarrow> bool" where
  "grows lg lo hi s d s' \<longleftrightarrow> ibq_inv s' \<and> ibq_stream s' = ibq_stream s @ d \<and>
     buffers (bq s') = buffers (bq s) \<and> btop (bq s') = btop (bq s) \<and>
     (\<forall>x. lo \<le> x \<and> x < hi \<longrightarrow> ram s' x = ram s x) \<and> self s' = self s \<and>
     lg (dev s') = lg (dev s) @ d"

definition ibq_rely :: "('w \<Rightarrow> byte list) \<Rightarrow> nat \<Rightarrow> nat \<Rightarrow> ('e, 'w) bqstate \<Rightarrow> byte list \<Rightarrow> ('e, 'w) bqstate \<Rightarrow> bool" where
  "ibq_rely lg lo hi s d s' \<longleftrightarrow> grows lg lo hi s d s' \<and> ptr (bq s') = ptr (bq s) \<and> fair_step s s'"

lemma grows_refl: "ibq_inv s \<Longrightarrow> grows lg lo hi s [] s"
  by (simp add: grows_def)

lemma grows_trans: "grows lg lo hi s d s' \<Longrightarrow> grows lg lo hi s' e s'' \<Longrightarrow> grows lg lo hi s (d @ e) s''"
  by (simp add: grows_def)

text \<open>What the reader's own steps keep of the rest of the system.\<close>

definition reader_local :: "nat \<Rightarrow> nat \<Rightarrow> ('e, 'w) bqstate \<Rightarrow> ('e, 'w) bqstate \<Rightarrow> bool" where
  "reader_local lo hi s s' \<longleftrightarrow> dev s' = dev s \<and> bwrptr (bq s') = bwrptr (bq s) \<and>
     bsize (bq s') = bsize (bq s) \<and> bn (bq s') = bn (bq s) \<and> buffers (bq s') = buffers (bq s) \<and>
     btop (bq s') = btop (bq s) \<and> bcounter (bq s') \<le> bcounter (bq s) \<and>
     suspended (bq s') = suspended (bq s) \<and> (\<forall>x. \<not> (lo \<le> x \<and> x < hi) \<longrightarrow> ram s' x = ram s x)"

text \<open>
  What a read that has \<open>r\<close> bytes of \<open>n\<close> comes to: the bytes it adds at \<open>bp\<close> and then
  what is left in the queue are what was in the queue and then what arrived. It returns all \<open>n\<close>
  when they are there at the start and no deadline cuts it short; it outlasts the script only if it
  may sleep for ever and the bytes are not there.
\<close>

definition read_outcome :: "('w \<Rightarrow> byte list) \<Rightarrow> nat \<Rightarrow> (('e, 'w) bqstate \<Rightarrow> bool) \<Rightarrow> sysinterval \<Rightarrow> nat \<Rightarrow> nat \<Rightarrow> nat \<Rightarrow>
    ('e, 'w) bqstate \<Rightarrow> (nat \<times> ('e, 'w) bqstate) result \<Rightarrow> bool" where
  "read_outcome lg lo I t bp n r s res \<longleftrightarrow>
     (res = Inl Blocked \<and> t \<noteq> TIME_IMMEDIATE \<and> may_block t (naps s) \<and> length (ibq_stream s) < n - r) \<or>
     (\<exists>r' s' d. res = Inr (r', s') \<and> r \<le> r' \<and> r' \<le> n \<and> ibq_inv s' \<and> I s' \<and>
        ibq_stream s @ d = load_bytes (ram s') bp (r' - r) @ ibq_stream s' \<and>
        lg (dev s') = lg (dev s) @ d \<and> (\<forall>x. lo \<le> x \<and> x < bp \<longrightarrow> ram s' x = ram s x) \<and>
        ((t = TIME_INFINITE \<or> t = TIME_IMMEDIATE) \<and> n - r \<le> length (ibq_stream s) \<longrightarrow> r' = n) \<and>
        (t = TIME_IMMEDIATE \<and> r' < n \<longrightarrow> ibq_stream s' = []))"

text \<open>A chunk in front of an outcome.\<close>

lemma read_outcome_chunk:
  assumes o: "read_outcome lg lo I t (bp + sz) n (r + sz) s3 res"
    and st: "ibq_stream s @ d = load_bytes (ram s2) bp sz @ ibq_stream s3"
    and log: "lg (dev s3) = lg (dev s) @ d"
    and nb: "may_block t (naps s) \<or> \<not> may_block t (naps s3)" and sz: "r + sz < n"
    and m: "\<And>x. lo \<le> x \<Longrightarrow> x < bp + sz \<Longrightarrow> ram s3 x = ram s2 x"
      "\<And>x. lo \<le> x \<Longrightarrow> x < bp \<Longrightarrow> ram s2 x = ram s x" and lo: "lo \<le> bp"
  shows "read_outcome lg lo I t bp n r s res"
proof -
  have len: "length (ibq_stream s) + length d = sz + length (ibq_stream s3)"
    using arg_cong [OF st, of length] by simp
  from o consider
      "res = Inl Blocked" "t \<noteq> TIME_IMMEDIATE" "may_block t (naps s3)" "length (ibq_stream s3) < n - (r + sz)"
    | r' s' e where "res = Inr (r', s')" "r + sz \<le> r'" "r' \<le> n" "ibq_inv s'" "I s'"
        "ibq_stream s3 @ e = load_bytes (ram s') (bp + sz) (r' - (r + sz)) @ ibq_stream s'"
        "\<forall>x. lo \<le> x \<and> x < bp + sz \<longrightarrow> ram s' x = ram s3 x"
        "lg (dev s') = lg (dev s3) @ e"
        "(t = TIME_INFINITE \<or> t = TIME_IMMEDIATE) \<and> n - (r + sz) \<le> length (ibq_stream s3) \<longrightarrow> r' = n"
        "t = TIME_IMMEDIATE \<and> r' < n \<longrightarrow> ibq_stream s' = []"
    unfolding read_outcome_def by blast
  then show ?thesis
  proof cases
    case 1
    then show ?thesis using len nb sz by (auto simp: read_outcome_def)
  next
    case (2 r' s' e)
    have "load_bytes (ram s') bp sz = load_bytes (ram s2) bp sz"
      using 2(7) m(1) lo by (intro load_bytes_cong) auto
    then have "load_bytes (ram s') bp (r' - r) = load_bytes (ram s2) bp sz @
        load_bytes (ram s') (bp + sz) (r' - (r + sz))"
      using load_bytes_split [of sz "r' - r" "ram s'" bp] 2(2) by simp
    then have "ibq_stream s @ d @ e = load_bytes (ram s') bp (r' - r) @ ibq_stream s'"
      using 2(6) st by (metis append_assoc)
    then show ?thesis unfolding read_outcome_def using 2 m len sz log
      by (intro disjI2 exI [of _ r'] exI [of _ s'] exI [of _ "d @ e"]) auto
  qed
qed

section \<open>Reading\<close>

text \<open>
  The contract between a reader and the rest of the system: events and the notification callback
  only append to the stream. \<open>I\<close> is what else the rest of the system needs to keep.
\<close>

locale ibq_reader =
  fixes env :: "'e \<Rightarrow> ('e, 'w) bqop" and nfy :: "('e, 'w) bqop option"
    and lg :: "'w \<Rightarrow> byte list" and lo hi :: nat and I :: "('e, 'w) bqstate \<Rightarrow> bool"
  assumes env_ok: "ibq_inv s \<Longrightarrow> I s \<Longrightarrow> \<exists>s' d. env e s = Inr s' \<and> ibq_rely lg lo hi s d s' \<and> I s'"
    and nfy_ok: "ibq_inv s \<Longrightarrow> I s \<Longrightarrow> ptr (bq s) = None \<Longrightarrow>
      \<exists>s' d. notify_call nfy s = Inr s' \<and> ibq_rely lg lo hi s d s' \<and> I s'"
    and local_ok: "I s \<Longrightarrow> reader_local lo hi s s' \<Longrightarrow> I s'"
begin

lemma I_update:
  "I s \<Longrightarrow> I (s\<lparr>naps := x\<rparr>)" "I s \<Longrightarrow> I (s\<lparr>pre := y\<rparr>)"
  "I s \<Longrightarrow> I (s\<lparr>bq := (bq s)\<lparr>waiting := w\<rparr>\<rparr>)"
  "I s \<Longrightarrow> I (s\<lparr>bq := (bq s)\<lparr>ptr := p, top := t\<rparr>\<rparr>)"
  by (erule local_ok; simp add: reader_local_def)+

sublocale bq_sleeper env "\<lambda>s. ibq_inv s \<and> I s"
  "\<lambda>s s'. (\<exists>d. grows lg lo hi s d s') \<and> (ptr (bq s) = None \<longrightarrow> ptr (bq s') = None)"
proof (unfold_locales, goal_cases)
  case (1 s e)
  then show ?case using env_ok [of s e] by (force simp: ibq_rely_def grows_def)
next
  case (2 s)
  then show ?case using grows_refl by blast
next
  case (3 s s' s'')
  then show ?case using grows_trans by blast
qed (auto simp: I_update grows_def)

text \<open>Acquiring the next buffer makes it current and changes no byte of the stream.\<close>

lemma get_full_ok:
  assumes inv: "ibq_inv s" "I s" and p: "ptr (bq s) = None"
  shows "(ibqGetFullBufferTimeoutS env t s = Inl Blocked \<and> t \<noteq> TIME_IMMEDIATE \<and> may_block t (naps s)) \<or>
   (\<exists>m s' d. ibqGetFullBufferTimeoutS env t s = Inr (m, s') \<and> grows lg lo hi s d s' \<and> I s' \<and>
      (m < MSG_OK \<or> m = MSG_OK \<and> ptr (bq s') \<noteq> None) \<and>
      (may_block t (naps s) \<or> m < MSG_OK \<or> \<not> may_block t (naps s')))"
proof -
  let ?w = "bqWait ibqIsEmptyI (Suc (length (naps s))) env t s"
  have "ibq_inv s \<and> I s" using inv by simp
  from wait_ok [OF this, of "Suc (length (naps s))" ibqIsEmptyI t] consider
      "?w = Inl Blocked" "t \<noteq> TIME_IMMEDIATE" "may_block t (naps s)"
    | m s1 d where "?w = Inr (m, s1)" "grows lg lo hi s d s1" "I s1"
        "ptr (bq s1) = None" "m < MSG_OK \<or> m = MSG_OK \<and> 0 < bcounter (bq s1)"
        "may_block t (naps s) \<or> m < MSG_OK \<or> \<not> may_block t (naps s1)"
    using p by (auto simp: ibqIsEmptyI_def bqSpaceI_def simp del: bqWait.simps)
  then show ?thesis
  proof cases
    case 1
    then show ?thesis by (simp add: ibqGetFullBufferTimeoutS_def)
  next
    case (2 m s1 d)
    show ?thesis
    proof (cases "m < MSG_OK")
      case True
      with 2 show ?thesis by (auto simp: ibqGetFullBufferTimeoutS_def)
    next
      case False
      then have m: "m = MSG_OK" "0 < bcounter (bq s1)" using 2(5) by auto
      let ?p = "brdptr (bq s1) + 4"
      let ?s = "s1\<lparr>bq := (bq s1)\<lparr>ptr := Some ?p, top := Some (?p + cur_size s1)\<rparr>\<rparr>"
      have i1: "ibq_inv s1" using 2(2) by (simp add: grows_def)
      have "ibq_inv ?s" using i1 m(2) ibq_cur(2) [OF i1 m(2)] by (simp add: ibq_inv_def cur_size_def)
      moreover have "ibq_stream ?s = ibq_stream s1"
        using ibq_stream_cur [OF i1 m(2) 2(4)] by (simp add: ibq_stream_def cur_size_def Let_def)
      ultimately have "grows lg lo hi s1 [] ?s" by (simp add: grows_def)
      then have "grows lg lo hi s d ?s" using grows_trans [OF 2(2)] by fastforce
      moreover have "I ?s" using 2(3) by (rule I_update)
      moreover have "ibqGetFullBufferTimeoutS env t s = Inr (MSG_OK, ?s)"
        using 2(1) m by (simp add: ibqGetFullBufferTimeoutS_def ibqIsEmptyI_def bqSpaceI_def cur_size_def
            Let_def del: bqWait.simps)
      ultimately show ?thesis using 2(6) m(1) by auto
    qed
  qed
qed

lemma get_full_go:
  assumes inv: "ibq_inv s" "I s" and p: "ptr (bq s) = None"
  shows "(bindE (ibqGetFullBufferTimeoutS env t s) (\<lambda>(m, s). Inr (m = MSG_OK, s)) = Inl Blocked \<and>
      t \<noteq> TIME_IMMEDIATE \<and> may_block t (naps s)) \<or>
   (\<exists>go s' d. bindE (ibqGetFullBufferTimeoutS env t s) (\<lambda>(m, s). Inr (m = MSG_OK, s)) = Inr (go, s') \<and>
      grows lg lo hi s d s' \<and> I s' \<and> (go \<longrightarrow> ptr (bq s') \<noteq> None) \<and>
      (may_block t (naps s) \<or> \<not> go \<or> \<not> may_block t (naps s')))"
  using get_full_ok [OF assms, of t]
proof (elim disjE exE)
  fix m s' d
  assume "ibqGetFullBufferTimeoutS env t s = Inr (m, s') \<and> grows lg lo hi s d s' \<and> I s' \<and>
      (m < MSG_OK \<or> m = MSG_OK \<and> ptr (bq s') \<noteq> None) \<and>
      (may_block t (naps s) \<or> m < MSG_OK \<or> \<not> may_block t (naps s'))"
  then show ?thesis by (intro disjI2 exI [of _ "m = MSG_OK"] exI [of _ s'] exI [of _ d]) auto
qed simp

lemma acquire_ok:
  assumes inv: "ibq_inv s" "I s"
  shows "(ibqRead_acquire env t dl s = Inl Blocked \<and> t \<noteq> TIME_IMMEDIATE \<and> may_block t (naps s)) \<or>
   (\<exists>go s' d. ibqRead_acquire env t dl s = Inr (go, s') \<and> grows lg lo hi s d s' \<and> I s' \<and>
      (go \<longrightarrow> ptr (bq s') \<noteq> None) \<and> (may_block t (naps s) \<or> \<not> go \<or> \<not> may_block t (naps s')))"
proof (cases "ptr (bq s)")
  case (Some p)
  then show ?thesis using inv grows_refl by (fastforce simp: ibqRead_acquire_def)
next
  case None
  show ?thesis
  proof (cases "t = TIME_INFINITE \<or> t = TIME_IMMEDIATE")
    case True
    with get_full_go [OF inv None, of t] None show ?thesis
      by (auto simp: ibqRead_acquire_def)
  next
    case False
    let ?n = "chTimeDiffX (now s) dl"
    show ?thesis
    proof (cases "t < ?n")
      case True
      with False None show ?thesis using inv grows_refl by (fastforce simp: ibqRead_acquire_def)
    next
      case lt: False
      have "may_block ?n ns = may_block t ns" for ns :: "'e nap list"
        using may_block_next [OF _ lt] False by blast
      with get_full_go [OF inv None, of ?n] None False lt show ?thesis
        by (auto simp: ibqRead_acquire_def Let_def)
    qed
  qed
qed

lemma release_ok:
  assumes inv: "ring (bq s) (bcounter (bq s))" "bufs_ok (ram s) (bq s) (bcounter (bq s))" "I s"
    and c: "0 < bcounter (bq s)"
  shows "\<exists>s' d. ibqReleaseEmptyBufferS nfy s = Inr s' \<and> ibq_inv s' \<and> I s' \<and>
    ibq_stream s' = concat (tl (bufs (ram s) (bq s) (bcounter (bq s)))) @ d \<and>
    (\<forall>x. lo \<le> x \<and> x < hi \<longrightarrow> ram s' x = ram s x) \<and> self s' = self s \<and> naps s' = naps s \<and> pre s' = pre s \<and>
    buffers (bq s') = buffers (bq s) \<and> btop (bq s') = btop (bq s) \<and> lg (dev s') = lg (dev s) @ d"
proof -
  let ?q = "bq s"
  let ?s = "s\<lparr>bq := ?q\<lparr>bcounter := bcounter ?q - 1, brdptr := bump ?q (brdptr ?q), ptr := None\<rparr>\<rparr>"
  have i: "ibq_inv ?s" using ring_read(1) [OF inv(1) c] bufs_read(2) [OF inv(1) c inv(2)]
    by (simp add: ibq_inv_def)
  have st: "ibq_stream ?s = concat (tl (bufs (ram s) ?q (bcounter ?q)))"
    using bufs_read(1) [OF inv(1) c] by (simp add: ibq_stream_def)
  have "I ?s" using inv(3) by (rule local_ok) (simp add: reader_local_def)
  then obtain s' d where n: "notify_call nfy ?s = Inr s'" "ibq_rely lg lo hi ?s d s'" "I s'"
    using nfy_ok [OF i] by auto
  then have "ibqReleaseEmptyBufferS nfy s = Inr s'"
    using c by (simp add: ibqReleaseEmptyBufferS_def ibqIsEmptyI_def bqSpaceI_def)
  moreover have "ibq_inv s'" "ibq_stream s' = concat (tl (bufs (ram s) ?q (bcounter ?q))) @ d"
    "\<forall>x. lo \<le> x \<and> x < hi \<longrightarrow> ram s' x = ram s x" "self s' = self s" "naps s' = naps s" "pre s' = pre s"
    "buffers (bq s') = buffers ?q" "btop (bq s') = btop ?q" "lg (dev s') = lg (dev s) @ d"
    using n(2) st by (auto simp: ibq_rely_def grows_def fair_step_def)
  ultimately show ?thesis using n(3) by blast
qed

text \<open>One chunk: its bytes move from the front of the stream to the destination.\<close>

lemma chunk_ok:
  assumes inv: "ibq_inv s" "I s" and p: "ptr (bq s) = Some p" and left: "0 < left"
    and dst: "lo \<le> bp" "bp + left \<le> hi" and dj: "hi \<le> buffers (bq s) \<or> btop (bq s) \<le> lo"
  shows "\<exists>sz s' d. ibqRead_chunk nfy bp left s = Inr (sz, s') \<and> 0 < sz \<and> sz \<le> left \<and> ibq_inv s' \<and> I s' \<and>
    ibq_stream s @ d = load_bytes (ram s') bp sz @ ibq_stream s' \<and>
    (\<forall>x. lo \<le> x \<and> x < hi \<and> \<not> (bp \<le> x \<and> x < bp + sz) \<longrightarrow> ram s' x = ram s x) \<and>
    self s' = self s \<and> naps s' = naps s \<and> pre s' = pre s \<and>
    buffers (bq s') = buffers (bq s) \<and> btop (bq s') = btop (bq s) \<and> lg (dev s') = lg (dev s) @ d"
proof -
  let ?q = "bq s" and ?T = "brdptr (bq s) + 4 + cur_size s"
  have c: "0 < bcounter ?q" "top ?q = Some ?T" "brdptr ?q + 4 \<le> p" "p < ?T"
    using inv(1) p by (simp_all add: ibq_inv_def)
  note cur = ibq_cur [OF inv(1) c(1)]
  have r: "ring ?q (bcounter ?q)" "bufs_ok (ram s) ?q (bcounter ?q)" using inv(1) by (simp_all add: ibq_inv_def)
  define sz where "sz = min (min (?T - p) left) 64"
  let ?m = "memcpy (ram s) bp p sz"
  let ?s = "s\<lparr>ram := ?m, bq := ?q\<lparr>ptr := Some (p + sz)\<rparr>\<rparr>"
  have sz: "0 < sz" "sz \<le> left" "sz \<le> ?T - p" using c(4) left by (auto simp: sz_def)
  have out: "?m x = ram s x" if "x < bp \<or> bp + sz \<le> x" for x using that by (rule memcpy_frame)
  have same: "?m x = ram s x" if "buffers ?q \<le> x" "x < btop ?q" for x
    using that dj dst sz(2) by (intro out) auto
  note ab = agree_bufs [OF r(1) agree_outside [OF r(1)] r(2), of ?m, OF same]
  have cs: "cur_size ?s = cur_size s"
    unfolding cur_size_def using cur by (simp, intro load_size_cong same) auto
  have Is: "I ?s" using inv(2) by (rule local_ok) (use dst sz in \<open>auto simp: reader_local_def out\<close>)
  have st: "ibq_stream s = load_bytes (ram s) p sz @ load_bytes (ram s) (p + sz) (?T - (p + sz)) @
      concat (tl (bufs (ram s) ?q (bcounter ?q)))"
    using load_bytes_split [OF sz(3), of "ram s" p] p by (simp add: ibq_stream_def)
  have "size_diff ?T p = ?T - p" using c(4) cur by (intro size_diff_le) auto
  then have run: "ibqRead_chunk nfy bp left s =
      bindE (if ?T \<le> p + sz then ibqReleaseEmptyBufferS nfy ?s else Inr ?s) (\<lambda>s. Inr (sz, s))"
    using p c(2) by (simp add: ibqRead_chunk_def sz_def Let_def)
  show ?thesis
  proof (cases "?T \<le> p + sz")
    case True
    obtain s' d where rel: "ibqReleaseEmptyBufferS nfy ?s = Inr s'" "ibq_inv s'" "I s'"
      "ibq_stream s' = concat (tl (bufs ?m ?q (bcounter ?q))) @ d"
      "\<forall>x. lo \<le> x \<and> x < hi \<longrightarrow> ram s' x = ?m x" "self s' = self s" "naps s' = naps s" "pre s' = pre s"
      "buffers (bq s') = buffers ?q" "btop (bq s') = btop ?q" "lg (dev s') = lg (dev s) @ d"
      using release_ok [of ?s] r ab Is c(1) by auto
    have "load_bytes (ram s') bp sz = load_bytes ?m bp sz"
      using rel(5) dst sz by (intro load_bytes_cong) auto
    then have "ibq_stream s @ d = load_bytes (ram s') bp sz @ ibq_stream s'"
      using st rel(4) ab(1) True by simp
    then show ?thesis using run True rel sz out by (intro exI [of _ sz] exI [of _ s'] exI [of _ d]) auto
  next
    case False
    have "ibq_inv ?s" using inv(1) ab(2) cs c False by (simp add: ibq_inv_def)
    moreover have "ibq_stream ?s = load_bytes (ram s) (p + sz) (?T - (p + sz)) @
        concat (tl (bufs (ram s) ?q (bcounter ?q)))"
    proof -
      have "load_bytes ?m (p + sz) (?T - (p + sz)) = load_bytes (ram s) (p + sz) (?T - (p + sz))"
        using c cur by (intro load_bytes_cong same) auto
      then show ?thesis using ab(1) cs by (simp add: ibq_stream_def)
    qed
    ultimately show ?thesis using run False Is sz st out
      by (intro exI [of _ sz] exI [of _ ?s] exI [of _ "[]"]) auto
  qed
qed

lemma acquire_available:
  assumes "ibq_stream s \<noteq> []"
  shows "\<exists>go s'. ibqRead_acquire env t dl s = Inr (go, s') \<and>
    (t = TIME_INFINITE \<or> t = TIME_IMMEDIATE \<longrightarrow> go)"
proof (cases "ptr (bq s)")
  case (Some p)
  then show ?thesis by (auto simp: ibqRead_acquire_def)
next
  case None
  then have "0 < bcounter (bq s)"
    using assms by (intro gr0I) (simp add: ibq_stream_def bufs_def)
  then have go: "\<exists>s'. bindE (ibqGetFullBufferTimeoutS env u s) (\<lambda>(m, s). Inr (m = MSG_OK, s)) =
      Inr (True, s')" for u
    by (simp add: ibqGetFullBufferTimeoutS_def ibqIsEmptyI_def bqSpaceI_def Let_def)
  show ?thesis using None go [of t] go [of "chTimeDiffX (now s) dl"]
    by (simp only: ibqRead_acquire_def Let_def) (simp, blast)
qed

lemma acquire_immediate:
  assumes "ibqRead_acquire env TIME_IMMEDIATE dl s = Inr (False, s')"
  shows "ibq_stream s' = []"
  using assms
  by (auto simp: ibqRead_acquire_def ibqGetFullBufferTimeoutS_def chThdEnqueueTimeoutS_def res_simps
      msg_defs ibqIsEmptyI_def bqSpaceI_def ibq_stream_def bufs_def Let_def split: if_splits)

lemma read_loop_ok:
  "ibq_inv s \<Longrightarrow> I s \<Longrightarrow> r < n \<Longrightarrow> n - r \<le> k \<Longrightarrow> lo \<le> bp \<Longrightarrow> bp + (n - r) \<le> hi \<Longrightarrow>
   hi \<le> buffers (bq s) \<or> btop (bq s) \<le> lo \<Longrightarrow>
   read_outcome lg lo I t bp n r s (ibqRead_loop k env nfy t dl bp n r s)"
proof (induction k arbitrary: s r bp)
  case 0
  then show ?case by simp
next
  case (Suc k)
  from acquire_ok [OF Suc.prems(1,2), of t dl] consider
      "ibqRead_acquire env t dl s = Inl Blocked" "t \<noteq> TIME_IMMEDIATE" "may_block t (naps s)"
    | s1 d1 where "ibqRead_acquire env t dl s = Inr (False, s1)" "grows lg lo hi s d1 s1" "I s1"
    | s1 d1 where "ibqRead_acquire env t dl s = Inr (True, s1)" "grows lg lo hi s d1 s1" "I s1"
        "ptr (bq s1) \<noteq> None" "may_block t (naps s) \<or> \<not> may_block t (naps s1)"
    by (metis (full_types))
  then show ?case
  proof cases
    case 1
    then have "ibq_stream s = []" using acquire_available [of s t dl] by fastforce
    with 1 Suc.prems(3) show ?thesis by (simp add: read_outcome_def)
  next
    case (2 s1 d1)
    have "ibq_stream s = [] \<or> \<not> (t = TIME_INFINITE \<or> t = TIME_IMMEDIATE)"
      using 2(1) acquire_available [of s t dl] by fastforce
    with 2 Suc.prems(3,5,6) acquire_immediate [of dl s s1] show ?thesis
      by (auto simp: read_outcome_def grows_def)
  next
    case a: (3 s1 d1)
    have i1: "ibq_inv s1" and g1: "buffers (bq s1) = buffers (bq s)" "btop (bq s1) = btop (bq s)"
      "ibq_stream s1 = ibq_stream s @ d1" "lg (dev s1) = lg (dev s) @ d1" "\<And>x. lo \<le> x \<Longrightarrow> x < hi \<Longrightarrow> ram s1 x = ram s x"
      using a(2) by (simp_all add: grows_def)
    obtain p where p: "ptr (bq s1) = Some p" using a(4) by blast
    have "0 < n - r" using Suc.prems(3) by simp
    then obtain sz s2 d2 where ch: "ibqRead_chunk nfy bp (n - r) s1 = Inr (sz, s2)" "0 < sz" "sz \<le> n - r"
      "ibq_inv s2" "I s2" "ibq_stream s1 @ d2 = load_bytes (ram s2) bp sz @ ibq_stream s2"
      "\<forall>x. lo \<le> x \<and> x < hi \<and> \<not> (bp \<le> x \<and> x < bp + sz) \<longrightarrow> ram s2 x = ram s1 x" "naps s2 = naps s1"
      "buffers (bq s2) = buffers (bq s)" "btop (bq s2) = btop (bq s)" "lg (dev s2) = lg (dev s1) @ d2"
      using chunk_ok [OF i1 a(3) p, of "n - r" bp] Suc.prems(5,6,7) g1(1,2) by auto
    show ?thesis
    proof (cases "n \<le> r + sz")
      case True
      have "ibqRead_loop (Suc k) env nfy t dl bp n r s = Inr (r + sz, s2)" using a(1) ch(1) True by simp
      then show ?thesis unfolding read_outcome_def using True ch g1 Suc.prems(3,5,6)
        by (intro disjI2 exI [of _ "r + sz"] exI [of _ s2] exI [of _ "d1 @ d2"]) auto
    next
      case False
      obtain s3 d3 where pr: "preempt env s2 = Inr s3" "grows lg lo hi s2 d3 s3" "I s3" "naps s3 = naps s2"
        using preempt_ok [of s2] ch(4,5) by auto
      then have g3: "ibq_inv s3" "buffers (bq s3) = buffers (bq s)" "btop (bq s3) = btop (bq s)"
        "ibq_stream s3 = ibq_stream s2 @ d3" "lg (dev s3) = lg (dev s2) @ d3" "\<And>x. lo \<le> x \<Longrightarrow> x < hi \<Longrightarrow> ram s3 x = ram s2 x"
        using ch by (simp_all add: grows_def)
      have loop: "ibqRead_loop (Suc k) env nfy t dl bp n r s =
          ibqRead_loop k env nfy t dl (bp + sz) n (r + sz) s3"
        using a(1) ch(1) False pr(1) by simp
      have "read_outcome lg lo I t (bp + sz) n (r + sz) s3 (ibqRead_loop k env nfy t dl (bp + sz) n (r + sz) s3)"
        using Suc.prems False ch(2,3) g3(2,3) by (intro Suc.IH g3(1) pr(3)) auto
      moreover have "ibq_stream s @ d1 @ d2 @ d3 = load_bytes (ram s2) bp sz @ ibq_stream s3"
        using ch(6) g1(3) g3(4) by simp
      ultimately show ?thesis unfolding loop
        by (rule read_outcome_chunk)
          (use a(5) ch pr(4) g1 g3 Suc.prems(5,6) False in auto)
    qed
  qed
qed

end

section \<open>Packets and ticks\<close>

text \<open>
  The environment of a reader in the firmware: packets that the interrupt side delivers (one that
  no buffer can hold is not accepted) and the passing of time. The first part of the device state
  is the log of the bytes delivered.
\<close>

datatype rx_event = RxPacket "byte list" | RxTick sysinterval

fun rx_env :: "rx_event \<Rightarrow> (rx_event, byte list \<times> 'w) bqop" where
  "rx_env (RxPacket bs) s =
     (if 0 < length bs \<and> length bs \<le> bsize (bq s) - 4 \<and> \<not> ibqIsFullI (bq s)
      then bindE (ibq_deliver bs s) (\<lambda>s. Inr (s\<lparr>dev := (fst (dev s) @ bs, snd (dev s))\<rparr>)) else Inr s)"
| "rx_env (RxTick k) s = Inr (s\<lparr>now := now s + k\<rparr>)"

lemma ibq_deliver_frame:
  assumes inv: "ibq_inv s" and bs: "0 < length bs" "length bs \<le> bsize (bq s) - 4" "ibq_deliver bs s = Inr s'"
  shows "fair_step s s'" "ptr (bq s') = ptr (bq s)" "buffers (bq s') = buffers (bq s)"
    "btop (bq s') = btop (bq s)" "dev s' = dev s" "bsize (bq s') = bsize (bq s)"
    "\<And>x. x < buffers (bq s) \<or> btop (bq s) \<le> x \<Longrightarrow> ram s' x = ram s x"
proof -
  let ?q = "bq s"
  let ?s = "s\<lparr>ram := store_size (store_bytes (ram s) (bwrptr ?q + 4) bs) (bwrptr ?q) (length bs),
    bq := ?q\<lparr>bcounter := bcounter ?q + 1, bwrptr := bump ?q (bwrptr ?q)\<rparr>\<rparr>"
  have s': "s' = s \<or> s' = chThdDequeueNextI MSG_OK ?s"
    using bs(3) by (auto simp: ibq_deliver_def ibqGetEmptyBufferI_def ibqPostFullBufferI_def res_simps
        split: if_splits)
  have b: "buffers ?q \<le> bwrptr ?q" "bwrptr ?q + bsize ?q \<le> btop ?q" "6 \<le> bsize ?q"
    using slot_bounds [of ?q "bcounter ?q"] inv by (auto simp: ibq_inv_def ring_def)
  have f: "fair_step s (chThdDequeueNextI MSG_OK ?s)" by (rule fair_dequeue) simp_all
  then show "fair_step s s'" using s' by (auto simp: fair_step_def)
  obtain w where w: "bq (chThdDequeueNextI MSG_OK ?s) = (bq ?s)\<lparr>waiting := w\<rparr>" using dequeue_next(7) by blast
  then show "ptr (bq s') = ptr ?q" "buffers (bq s') = buffers ?q" "btop (bq s') = btop ?q" "dev s' = dev s"
    "bsize (bq s') = bsize ?q"
    using s' by auto
  show "ram s' x = ram s x" if "x < buffers ?q \<or> btop ?q \<le> x" for x
    using s' that b bs(2) by (auto simp: store_size_frame store_bytes_frame)
qed

lemma rx_env_rely:
  assumes inv: "ibq_inv s" and dj: "hi \<le> buffers (bq s) \<or> btop (bq s) \<le> lo"
  shows "\<exists>s' d. rx_env e s = Inr s' \<and> ibq_rely fst lo hi s d s' \<and> (hi \<le> buffers (bq s') \<or> btop (bq s') \<le> lo)"
proof (cases e)
  case (RxPacket bs)
  show ?thesis
  proof (cases "0 < length bs \<and> length bs \<le> bsize (bq s) - 4 \<and> \<not> ibqIsFullI (bq s)")
    case True
    then obtain s' where d: "ibq_deliver bs s = Inr s'" "ibq_inv s'" "ibq_stream s' = ibq_stream s @ bs"
      using ibq_deliver_ok [OF inv, of bs] by auto
    note f = ibq_deliver_frame [OF inv _ _ d(1)]
    let ?s = "s'\<lparr>dev := (fst (dev s') @ bs, snd (dev s'))\<rparr>"
    have "grows fst lo hi s bs ?s"
      using f True d dj by (auto simp: grows_def fair_step_def)
    moreover have "fair_step s ?s" using f(1) True by (simp add: fair_step_def)
    ultimately show ?thesis using RxPacket True d(1) f dj by (auto simp: ibq_rely_def)
  next
    case False
    then show ?thesis using RxPacket inv dj
      by (auto simp: ibq_rely_def grows_def fair_step_def)
  qed
next
  case (RxTick k)
  then show ?thesis using inv dj by (auto simp: ibq_rely_def grows_def fair_step_def)
qed

text \<open>The notification of the serial over USB driver changes the device only.\<close>

definition dev_notify :: "('w \<Rightarrow> 'w) \<Rightarrow> ('e, byte list \<times> 'w) bqop" where
  "dev_notify f s = Inr (s\<lparr>dev := (fst (dev s), f (snd (dev s)))\<rparr>)"

interpretation rx: ibq_reader rx_env "Some (dev_notify f)" fst lo hi
  "\<lambda>s. hi \<le> buffers (bq s) \<or> btop (bq s) \<le> lo" for f lo hi
proof (unfold_locales, goal_cases)
  case (1 s e)
  then show ?case by (rule rx_env_rely)
next
  case (2 s)
  then show ?case by (auto simp: notify_call_def dev_notify_def ibq_rely_def grows_def fair_step_def)
next
  case (3 s s')
  then show ?case by (simp add: reader_local_def)
qed

text \<open>
  C5. Reading from an input queue is first in, first out and loses nothing. Whatever packets arrive
  while \<^verbatim>\<open>ibqReadTimeout\<close> sleeps or is preempted, the bytes it stores at the destination followed
  by what is left in the queue are the bytes that were in the queue followed by those that the log
  says were delivered meanwhile;
  with \<^verbatim>\<open>TIME_IMMEDIATE\<close> or a timer that expires it always returns; and if the \<open>n\<close> bytes are
  there and there is no deadline it returns all of them; with \<^verbatim>\<open>TIME_IMMEDIATE\<close> it returns fewer
  only when the queue is drained.
\<close>

theorem ibqReadTimeout_fifo:
  assumes "ibq_inv s" "0 < n" "bp + n \<le> buffers (bq s) \<or> btop (bq s) \<le> bp"
  shows "(ibqReadTimeout rx_env (Some (dev_notify f)) bp n t s = Inl Blocked \<and>
       t \<noteq> TIME_IMMEDIATE \<and> may_block t (naps s) \<and> length (ibq_stream s) < n) \<or>
    (\<exists>r s' arrived. ibqReadTimeout rx_env (Some (dev_notify f)) bp n t s = Inr (r, s') \<and>
       r \<le> n \<and> ibq_inv s' \<and> ibq_stream s @ arrived = load_bytes (ram s') bp r @ ibq_stream s' \<and>
       fst (dev s') = fst (dev s) @ arrived \<and>
       ((t = TIME_INFINITE \<or> t = TIME_IMMEDIATE) \<and> n \<le> length (ibq_stream s) \<longrightarrow> r = n) \<and>
       (t = TIME_IMMEDIATE \<and> r < n \<longrightarrow> ibq_stream s' = []))"
  using rx.read_loop_ok [where lo = bp and hi = "bp + n" and r = 0 and n = n and k = n and bp = bp,
      OF assms(1) assms(3), of t f "chTimeAddX (now s) t"] assms(2,3)
  by (auto simp: ibqReadTimeout_def read_outcome_def)

text \<open>A queue of two buffers, and a packet that arrives while the reader sleeps.\<close>

definition rx_demo :: "(rx_event, byte list \<times> unit) bqstate" where
  "rx_demo = \<lparr>bq = \<lparr>waiting = [], suspended = False, bcounter = 0, bwrptr = 1000, brdptr = 1000,
       btop = 1136, bsize = 68, bn = 2, buffers = 1000, ptr = None, top = None\<rparr>,
     ram = (\<lambda>_. 0), now = 0, self = 1, readied = [], naps = [Ev (RxTick 3), Ev (RxPacket [104, 105])],
     pre = [], dev = ([], ())\<rparr>"

lemma ibq_inv_rx_demo: "ibq_inv rx_demo"
proof -
  have "ibqObjectInit False (Some 1000) 64 2 = Inr (bq rx_demo)"
    by (simp add: ibqObjectInit_def rx_demo_def)
  from ibq_inv_init(1) [OF this, of rx_demo] show ?thesis by (simp add: BQ_BUFFER_SIZE_def)
qed

theorem ibqReadTimeout_fifo_witness:
  "\<exists>s' arrived. ibqReadTimeout rx_env (Some (dev_notify id)) 5000 2 TIME_INFINITE rx_demo = Inr (2, s') \<and>
     ibq_stream rx_demo @ arrived = [104, 105] @ ibq_stream s'"
proof -
  let ?r = "ibqReadTimeout rx_env (Some (dev_notify id)) 5000 2 TIME_INFINITE rx_demo"
  have run: "case ?r of Inr (r, s') \<Rightarrow> r = 2 \<and> load_bytes (ram s') 5000 2 = [104, 105] | Inl _ \<Rightarrow> False"
    by code_simp
  have "(?r = Inl Blocked \<and> TIME_INFINITE \<noteq> TIME_IMMEDIATE \<and> may_block TIME_INFINITE (naps rx_demo) \<and>
      length (ibq_stream rx_demo) < 2) \<or>
    (\<exists>r s' arrived. ?r = Inr (r, s') \<and> r \<le> 2 \<and> ibq_inv s' \<and>
       ibq_stream rx_demo @ arrived = load_bytes (ram s') 5000 r @ ibq_stream s' \<and>
       fst (dev s') = fst (dev rx_demo) @ arrived \<and>
       ((TIME_INFINITE = TIME_INFINITE \<or> TIME_INFINITE = TIME_IMMEDIATE) \<and>
          2 \<le> length (ibq_stream rx_demo) \<longrightarrow> r = 2) \<and>
       (TIME_INFINITE = TIME_IMMEDIATE \<and> r < 2 \<longrightarrow> ibq_stream s' = []))"
    by (rule ibqReadTimeout_fifo [OF ibq_inv_rx_demo]) (simp_all add: rx_demo_def)
  with run show ?thesis by (auto simp: numeral_2_eq_2)
qed

end
