(* ===== verification/BufferOutput.thy ===== *)
theory BufferOutput
  imports BufferRing BufferWait
begin

text \<open>
  Output queues as byte streams. \<open>obq_stream\<close> is what the device has still to take: the full
  buffers and what the writer has put into the buffer it is filling. The writer appends, the
  interrupt side takes whole buffers from the front, and a flush only moves the boundary between
  the two parts.
\<close>

section \<open>Invariant and abstraction\<close>

definition obq_full :: "io_buffers_queue \<Rightarrow> nat" where
  "obq_full q = bn q - bcounter q"

definition obq_ring :: "('e, 'w) bqstate \<Rightarrow> bool" where
  "obq_ring s \<longleftrightarrow> bcounter (bq s) \<le> bn (bq s) \<and> ring (bq s) (obq_full (bq s)) \<and>
     bufs_ok (ram s) (bq s) (obq_full (bq s))"

definition obq_inv :: "('e, 'w) bqstate \<Rightarrow> bool" where
  "obq_inv s \<longleftrightarrow> obq_ring s \<and>
     (case ptr (bq s) of None \<Rightarrow> True
      | Some p \<Rightarrow> 0 < bcounter (bq s) \<and> top (bq s) = Some (bwrptr (bq s) + bsize (bq s)) \<and>
          bwrptr (bq s) + 4 \<le> p \<and> p < bwrptr (bq s) + bsize (bq s))"

definition obq_posted :: "('e, 'w) bqstate \<Rightarrow> byte list" where
  "obq_posted s = concat (bufs (ram s) (bq s) (obq_full (bq s)))"

definition obq_partial :: "('e, 'w) bqstate \<Rightarrow> byte list" where
  "obq_partial s = (case ptr (bq s) of None \<Rightarrow> []
     | Some p \<Rightarrow> load_bytes (ram s) (bwrptr (bq s) + 4) (p - (bwrptr (bq s) + 4)))"

definition obq_stream :: "('e, 'w) bqstate \<Rightarrow> byte list" where
  "obq_stream s = obq_posted s @ obq_partial s"

lemmas obq_defs = obq_inv_def obq_ring_def obq_stream_def obq_posted_def obq_partial_def obq_full_def

lemma obq_cong:
  assumes "bq s' = (bq s)\<lparr>waiting := w\<rparr>" "ram s' = ram s"
  shows "obq_inv s' = obq_inv s" "obq_stream s' = obq_stream s"
  using assms by (cases "ptr (bq s)"; simp add: obq_defs)+

lemma obq_rest [simp]:
  "obq_inv (s\<lparr>naps := x\<rparr>) = obq_inv s" "obq_stream (s\<lparr>naps := x\<rparr>) = obq_stream s"
  "obq_inv (s\<lparr>pre := y\<rparr>) = obq_inv s" "obq_stream (s\<lparr>pre := y\<rparr>) = obq_stream s"
  "obq_inv (s\<lparr>now := t\<rparr>) = obq_inv s" "obq_stream (s\<lparr>now := t\<rparr>) = obq_stream s"
  "obq_inv (s\<lparr>readied := r\<rparr>) = obq_inv s" "obq_stream (s\<lparr>readied := r\<rparr>) = obq_stream s"
  "obq_inv (s\<lparr>dev := d\<rparr>) = obq_inv s" "obq_stream (s\<lparr>dev := d\<rparr>) = obq_stream s"
  by (rule obq_cong [where s = s and w = "waiting (bq s)"]; simp)+

lemma obq_waiting [simp]:
  "obq_inv (s\<lparr>bq := (bq s)\<lparr>waiting := w\<rparr>\<rparr>) = obq_inv s"
  "obq_stream (s\<lparr>bq := (bq s)\<lparr>waiting := w\<rparr>\<rparr>) = obq_stream s"
  by (rule obq_cong [where s = s and w = w]; simp)+

lemma obq_free:
  assumes "obq_ring s" "0 < bcounter (bq s)"
  shows "obq_full (bq s) < bn (bq s)" "6 \<le> bsize (bq s)" "btop (bq s) < 2 ^ 32"
    "buffers (bq s) \<le> bwrptr (bq s)" "bwrptr (bq s) + bsize (bq s) \<le> btop (bq s)"
    "slot (bq s) (ridx (bq s) + obq_full (bq s)) = bwrptr (bq s)"
proof -
  have r: "ring (bq s) (obq_full (bq s))" using assms by (simp add: obq_ring_def)
  then show sl: "slot (bq s) (ridx (bq s) + obq_full (bq s)) = bwrptr (bq s)"
    and "6 \<le> bsize (bq s)" "btop (bq s) < 2 ^ 32" by (simp_all add: ring_def)
  show "obq_full (bq s) < bn (bq s)" using assms r by (simp add: obq_full_def ring_def)
  show "buffers (bq s) \<le> bwrptr (bq s)" "bwrptr (bq s) + bsize (bq s) \<le> btop (bq s)"
    using slot_bounds [OF r, of "ridx (bq s) + obq_full (bq s)"] by (simp_all add: sl)
qed

lemma obqIsEmptyI_iff: "obq_ring s \<Longrightarrow> obqIsEmptyI (bq s) \<longleftrightarrow> bcounter (bq s) = bn (bq s)"
  using ring_full_iff [of "bq s" "obq_full (bq s)"]
  by (auto simp: obqIsEmptyI_def obq_ring_def obq_full_def ring_def)

lemma obq_inv_init:
  assumes "obqObjectInit susp (Some p) sz n = Inr q" "0 < n" "p + BQ_BUFFER_SIZE n sz < 2 ^ 32"
  shows "obq_inv (s\<lparr>bq := q\<rparr>)" "obq_stream (s\<lparr>bq := q\<rparr>) = []"
  using assms
  by (auto simp: obqObjectInit_def res_simps obq_defs ring_def bufs_ok_def slot_def ridx_def
      BQ_BUFFER_SIZE_def bufs_def mult.commute)

lemma obq_reset:
  assumes "obq_inv s"
  shows "obq_inv (obqResetI s)" "obq_stream (obqResetI s) = []" "waiting (bq (obqResetI s)) = []"
  using assms ring_reset [of "bq s" "obq_full (bq s)"]
  by (simp_all add: obqResetI_def chThdDequeueAllI_def obq_defs bufs_ok_def bufs_def bqSizeX_def
      ring_def slot_def ridx_def)

section \<open>Posting\<close>

lemma obq_post_ok:
  assumes r: "obq_ring s" "0 < bcounter (bq s)" and sz: "0 < sz" "sz \<le> bsize (bq s) - 4"
  shows "obq_inv (obq_post sz s)"
    "obq_stream (obq_post sz s) = obq_posted s @ load_bytes (ram s) (bwrptr (bq s) + 4) sz"
    "\<And>x. x < buffers (bq s) \<or> btop (bq s) \<le> x \<Longrightarrow> ram (obq_post sz s) x = ram s x"
proof -
  let ?q = "bq s" and ?m = "store_size (ram s) (bwrptr (bq s)) sz"
  note f = obq_free [OF r]
  have rg: "ring ?q (obq_full ?q)" "bufs_ok (ram s) ?q (obq_full ?q)" "bcounter ?q \<le> bn ?q"
    using r(1) by (simp_all add: obq_ring_def)
  have c: "bn ?q - (bcounter ?q - 1) = Suc (bn ?q - bcounter ?q)" using r(2) rg(3) by simp
  have p: "bufs ?m ?q (Suc (bn ?q - bcounter ?q)) = bufs (ram s) ?q (bn ?q - bcounter ?q) @
      [load_bytes (ram s) (bwrptr ?q + 4) sz]" "bufs_ok ?m ?q (Suc (bn ?q - bcounter ?q))"
    using bufs_post [OF rg(1) f(1) rg(2) sz] by (simp_all add: obq_full_def)
  have rw: "ring (?q\<lparr>bwrptr := bump ?q (bwrptr ?q)\<rparr>) (Suc (bn ?q - bcounter ?q))"
    using ring_write [OF rg(1) f(1)] by (simp add: obq_full_def)
  show "obq_inv (obq_post sz s)"
    "obq_stream (obq_post sz s) = obq_posted s @ load_bytes (ram s) (bwrptr ?q + 4) sz"
    using p rw c rg(3) r(2) by (simp_all add: obq_post_def obq_defs)
  show "ram (obq_post sz s) x = ram s x" if "x < buffers ?q \<or> btop ?q \<le> x" for x
    using that f by (auto simp: obq_post_def store_size_frame)
qed

text \<open>A flush moves no byte.\<close>

lemma obq_flush_stream:
  assumes inv: "obq_inv s" and p: "ptr (bq s) = Some p" "0 < size_diff p (bwrptr (bq s) + 4)"
  shows "obq_inv (obq_post (size_diff p (bwrptr (bq s) + 4)) s)"
    "obq_stream (obq_post (size_diff p (bwrptr (bq s) + 4)) s) = obq_stream s"
proof -
  have r: "obq_ring s" "0 < bcounter (bq s)" "bwrptr (bq s) + 4 \<le> p" "p < bwrptr (bq s) + bsize (bq s)"
    using inv p(1) by (simp_all add: obq_inv_def)
  note f = obq_free [OF r(1,2)]
  have d: "size_diff p (bwrptr (bq s) + 4) = p - (bwrptr (bq s) + 4)"
    using r f by (intro size_diff_le) auto
  have "p - (bwrptr (bq s) + 4) \<le> bsize (bq s) - 4" using r f by auto
  then show "obq_inv (obq_post (size_diff p (bwrptr (bq s) + 4)) s)"
    "obq_stream (obq_post (size_diff p (bwrptr (bq s) + 4)) s) = obq_stream s"
    using obq_post_ok(1,2) [OF r(1,2)] p d
    by (simp_all add: obq_stream_def [of s] obq_partial_def)
qed

lemma obqTryFlushI_ok:
  assumes "obq_inv s"
  shows "obq_inv (snd (obqTryFlushI s))" "obq_stream (snd (obqTryFlushI s)) = obq_stream s"
  using assms obq_flush_stream by (auto simp: obqTryFlushI_def Let_def split: option.splits)

section \<open>The interrupt side takes a buffer\<close>

definition obq_take :: "('e, 'w) bqstate \<Rightarrow> (byte list \<times> ('e, 'w) bqstate) result" where
  "obq_take s = (case obqGetFullBufferI s of
      None \<Rightarrow> Inr ([], s)
    | Some (a, sz) \<Rightarrow> bindE (obqReleaseEmptyBufferI s) (\<lambda>s'. Inr (load_bytes (ram s) a sz, s')))"

lemma obq_release_ok:
  assumes inv: "obq_inv s" and ne: "bcounter (bq s) < bn (bq s)"
  shows "\<exists>s'. obqReleaseEmptyBufferI s = Inr s' \<and> obq_inv s' \<and>
    obq_stream s = bufdata (ram s) (brdptr (bq s)) @ obq_stream s' \<and> fair_step s s' \<and>
    buffers (bq s') = buffers (bq s) \<and> btop (bq s') = btop (bq s) \<and> bsize (bq s') = bsize (bq s) \<and>
    ptr (bq s') = ptr (bq s) \<and> ram s' = ram s \<and> dev s' = dev s"
proof -
  let ?q = "bq s"
  let ?s = "s\<lparr>bq := ?q\<lparr>bcounter := bcounter ?q + 1, brdptr := bump ?q (brdptr ?q)\<rparr>\<rparr>"
  have r: "ring ?q (obq_full ?q)" "bufs_ok (ram s) ?q (obq_full ?q)" "0 < obq_full ?q"
    using inv ne by (simp_all add: obq_inv_def obq_ring_def obq_full_def)
  have rr: "ring (?q\<lparr>brdptr := bump ?q (brdptr ?q)\<rparr>) (bn ?q - Suc (bcounter ?q))"
    "bufs_ok (ram s) (?q\<lparr>brdptr := bump ?q (brdptr ?q)\<rparr>) (bn ?q - Suc (bcounter ?q))"
    "bufs (ram s) (?q\<lparr>brdptr := bump ?q (brdptr ?q)\<rparr>) (bn ?q - Suc (bcounter ?q)) =
      tl (bufs (ram s) ?q (bn ?q - bcounter ?q))"
    using ring_read(1) [OF r(1,3)] bufs_read [OF r(1,3)] r(2) by (simp_all add: obq_full_def)
  have hd: "bufs (ram s) ?q (obq_full ?q) = bufdata (ram s) (brdptr ?q) # tl (bufs (ram s) ?q (obq_full ?q))"
    using bufs_Cons [OF r(3), of "ram s" ?q] r(1) by (simp add: ring_def)
  have i: "obq_inv ?s" using inv ne rr by (cases "ptr ?q") (auto simp: obq_defs)
  have "obq_posted s = bufdata (ram s) (brdptr ?q) @ concat (tl (bufs (ram s) ?q (obq_full ?q)))"
    unfolding obq_posted_def by (subst hd) simp
  then have st: "obq_stream s = bufdata (ram s) (brdptr ?q) @ obq_stream ?s"
    using rr(3) by (simp add: obq_stream_def obq_posted_def obq_partial_def obq_full_def split: option.split)
  let ?z = "chThdDequeueNextI MSG_OK ?s"
  obtain w where w: "bq ?z = (bq ?s)\<lparr>waiting := w\<rparr>" using dequeue_next(7) by blast
  have "obq_inv ?z" "obq_stream s = bufdata (ram s) (brdptr ?q) @ obq_stream ?z"
    using i st obq_cong [OF w] by auto
  moreover have "fair_step s ?z" by (rule fair_dequeue) simp_all
  moreover have "\<not> obqIsEmptyI ?q" using obqIsEmptyI_iff [of s] inv ne by (simp add: obq_inv_def)
  ultimately show ?thesis using w
    by (intro exI [of _ ?z]) (auto simp: obqReleaseEmptyBufferI_def)
qed

section \<open>What a writer may rely on\<close>

text \<open>
  \<open>shrinks s d s'\<close>: the other side took \<open>d\<close> from the front of the stream, as its log of
  what it sent says (\<open>lg\<close> reads the log), and left the source \<open>lo..<hi\<close> alone. It may have flushed the buffer being filled.
\<close>

definition shrinks :: "('w \<Rightarrow> byte list) \<Rightarrow> nat \<Rightarrow> nat \<Rightarrow> ('e, 'w) bqstate \<Rightarrow> byte list \<Rightarrow> ('e, 'w) bqstate \<Rightarrow> bool" where
  "shrinks lg lo hi s d s' \<longleftrightarrow> obq_inv s' \<and> obq_stream s = d @ obq_stream s' \<and>
     buffers (bq s') = buffers (bq s) \<and> btop (bq s') = btop (bq s) \<and>
     (\<forall>x. lo \<le> x \<and> x < hi \<longrightarrow> ram s' x = ram s x) \<and> lg (dev s') = lg (dev s) @ d"

definition obq_rely :: "('w \<Rightarrow> byte list) \<Rightarrow> nat \<Rightarrow> nat \<Rightarrow> ('e, 'w) bqstate \<Rightarrow> byte list \<Rightarrow> ('e, 'w) bqstate \<Rightarrow> bool" where
  "obq_rely lg lo hi s d s' \<longleftrightarrow> shrinks lg lo hi s d s' \<and> (ptr (bq s) = None \<longrightarrow> ptr (bq s') = None) \<and> fair_step s s'"

lemma shrinks_refl: "obq_inv s \<Longrightarrow> shrinks lg lo hi s [] s"
  by (simp add: shrinks_def)

lemma shrinks_trans: "shrinks lg lo hi s d s' \<Longrightarrow> shrinks lg lo hi s' e s'' \<Longrightarrow> shrinks lg lo hi s (d @ e) s''"
  by (simp add: shrinks_def)

definition writer_local :: "nat \<Rightarrow> nat \<Rightarrow> ('e, 'w) bqstate \<Rightarrow> ('e, 'w) bqstate \<Rightarrow> bool" where
  "writer_local lo hi s s' \<longleftrightarrow> dev s' = dev s \<and> brdptr (bq s') = brdptr (bq s) \<and>
     bsize (bq s') = bsize (bq s) \<and> bn (bq s') = bn (bq s) \<and> buffers (bq s') = buffers (bq s) \<and>
     btop (bq s') = btop (bq s) \<and> bcounter (bq s') \<le> bcounter (bq s) \<and>
     suspended (bq s') = suspended (bq s) \<and> (\<forall>x. lo \<le> x \<and> x < hi \<longrightarrow> ram s' x = ram s x) \<and>
     agree (ram s) (ram s') (bq s) (obq_full (bq s)) \<and>
     (\<forall>x. x < buffers (bq s) \<or> btop (bq s) \<le> x \<longrightarrow> ram s' x = ram s x)"

text \<open>
  What a write that has written \<open>w\<close> bytes of \<open>n\<close> comes to: what was in the queue and then the
  bytes it adds are what was taken and then what is left. Without waiting it stops short only at a
  full queue.
\<close>

definition write_outcome :: "('w \<Rightarrow> byte list) \<Rightarrow> nat \<Rightarrow> nat \<Rightarrow> (('e, 'w) bqstate \<Rightarrow> bool) \<Rightarrow> sysinterval \<Rightarrow> nat \<Rightarrow> nat \<Rightarrow> nat \<Rightarrow>
    ('e, 'w) bqstate \<Rightarrow> (nat \<times> ('e, 'w) bqstate) result \<Rightarrow> bool" where
  "write_outcome lg lo hi I t bp n w s res \<longleftrightarrow>
     (res = Inl Blocked \<and> t \<noteq> TIME_IMMEDIATE \<and> may_block t (naps s)) \<or>
     (\<exists>w' s' d. res = Inr (w', s') \<and> w \<le> w' \<and> w' \<le> n \<and> obq_inv s' \<and> I s' \<and>
        obq_stream s @ load_bytes (ram s) bp (w' - w) = d @ obq_stream s' \<and>
        lg (dev s') = lg (dev s) @ d \<and>
        (t = TIME_IMMEDIATE \<and> w' < n \<longrightarrow> obqIsFullI (bq s')))"

lemma write_outcome_chunk:
  assumes o: "write_outcome lg lo hi I t (bp + sz) n (w + sz) s3 res"
    and st: "obq_stream s @ load_bytes (ram s) bp sz = d @ obq_stream s3"
    and log: "lg (dev s3) = lg (dev s) @ d"
    and nb: "may_block t (naps s) \<or> \<not> may_block t (naps s3)"
    and m: "\<And>x. lo \<le> x \<Longrightarrow> x < hi \<Longrightarrow> ram s3 x = ram s x" and lo: "lo \<le> bp" "bp + (n - w) \<le> hi" "w + sz \<le> n"
  shows "write_outcome lg lo hi I t bp n w s res"
proof -
  from o consider
      "res = Inl Blocked" "t \<noteq> TIME_IMMEDIATE" "may_block t (naps s3)"
    | w' s' e where "res = Inr (w', s')" "w + sz \<le> w'" "w' \<le> n" "obq_inv s'" "I s'"
        "obq_stream s3 @ load_bytes (ram s3) (bp + sz) (w' - (w + sz)) = e @ obq_stream s'"
        "lg (dev s') = lg (dev s3) @ e" "t = TIME_IMMEDIATE \<and> w' < n \<longrightarrow> obqIsFullI (bq s')"
    unfolding write_outcome_def by blast
  then show ?thesis
  proof cases
    case 1
    then show ?thesis using nb by (auto simp: write_outcome_def)
  next
    case (2 w' s' e)
    have "load_bytes (ram s3) (bp + sz) (w' - (w + sz)) = load_bytes (ram s) (bp + sz) (w' - (w + sz))"
      using m lo 2(2,3) by (intro load_bytes_cong) auto
    then have "load_bytes (ram s) bp (w' - w) = load_bytes (ram s) bp sz @
        load_bytes (ram s3) (bp + sz) (w' - (w + sz))"
      using load_bytes_split [of sz "w' - w" "ram s" bp] 2(2) by simp
    then have "obq_stream s @ load_bytes (ram s) bp (w' - w) = (d @ e) @ obq_stream s'"
      using 2(6) st by (metis append_assoc)
    then show ?thesis unfolding write_outcome_def using 2 log
      by (intro disjI2 exI [of _ w'] exI [of _ s'] exI [of _ "d @ e"]) auto
  qed
qed

section \<open>Writing\<close>

locale obq_writer =
  fixes env :: "'e \<Rightarrow> ('e, 'w) bqop" and nfy :: "('e, 'w) bqop option"
    and lg :: "'w \<Rightarrow> byte list" and lo hi :: nat and I :: "('e, 'w) bqstate \<Rightarrow> bool"
  assumes env_ok: "obq_inv s \<Longrightarrow> I s \<Longrightarrow> \<exists>s' d. env e s = Inr s' \<and> obq_rely lg lo hi s d s' \<and> I s'"
    and nfy_ok: "obq_inv s \<Longrightarrow> I s \<Longrightarrow> ptr (bq s) = None \<Longrightarrow>
      \<exists>s' d. notify_call nfy s = Inr s' \<and> obq_rely lg lo hi s d s' \<and> I s'"
    and local_ok: "I s \<Longrightarrow> writer_local lo hi s s' \<Longrightarrow> I s'"
begin

lemma I_update:
  "I s \<Longrightarrow> I (s\<lparr>naps := x\<rparr>)" "I s \<Longrightarrow> I (s\<lparr>pre := y\<rparr>)"
  "I s \<Longrightarrow> I (s\<lparr>bq := (bq s)\<lparr>waiting := w\<rparr>\<rparr>)"
  "I s \<Longrightarrow> I (s\<lparr>bq := (bq s)\<lparr>ptr := p, top := t\<rparr>\<rparr>)"
  by (erule local_ok; simp add: writer_local_def agree_def)+

sublocale bq_sleeper env "\<lambda>s. obq_inv s \<and> I s"
  "\<lambda>s s'. (\<exists>d. shrinks lg lo hi s d s') \<and> (ptr (bq s) = None \<longrightarrow> ptr (bq s') = None)"
proof (unfold_locales, goal_cases)
  case (1 s e)
  then show ?case using env_ok [of s e] by (force simp: obq_rely_def shrinks_def)
next
  case (2 s)
  then show ?case using shrinks_refl by blast
next
  case (3 s s' s'')
  then show ?case using shrinks_trans by blast
qed (auto simp: I_update shrinks_def)

lemma get_empty_ok:
  assumes inv: "obq_inv s" "I s" and p: "ptr (bq s) = None"
  shows "(obqGetEmptyBufferTimeoutS env t s = Inl Blocked \<and> t \<noteq> TIME_IMMEDIATE \<and> may_block t (naps s)) \<or>
   (\<exists>m s' d. obqGetEmptyBufferTimeoutS env t s = Inr (m, s') \<and> shrinks lg lo hi s d s' \<and> I s' \<and>
      (m < MSG_OK \<or> m = MSG_OK \<and> ptr (bq s') \<noteq> None) \<and>
      (may_block t (naps s) \<or> m < MSG_OK \<or> \<not> may_block t (naps s')))"
proof -
  let ?w = "bqWait obqIsFullI (Suc (length (naps s))) env t s"
  have "obq_inv s \<and> I s" using inv by simp
  from wait_ok [OF this, of "Suc (length (naps s))" obqIsFullI t] consider
      "?w = Inl Blocked" "t \<noteq> TIME_IMMEDIATE" "may_block t (naps s)"
    | m s1 d where "?w = Inr (m, s1)" "shrinks lg lo hi s d s1" "I s1"
        "ptr (bq s1) = None" "m < MSG_OK \<or> m = MSG_OK \<and> 0 < bcounter (bq s1)"
        "may_block t (naps s) \<or> m < MSG_OK \<or> \<not> may_block t (naps s1)"
    using p by (auto simp: obqIsFullI_def bqSpaceI_def simp del: bqWait.simps)
  then show ?thesis
  proof cases
    case 1
    then show ?thesis by (simp add: obqGetEmptyBufferTimeoutS_def)
  next
    case (2 m s1 d)
    show ?thesis
    proof (cases "m < MSG_OK")
      case True
      with 2 show ?thesis by (auto simp: obqGetEmptyBufferTimeoutS_def simp del: bqWait.simps)
    next
      case False
      then have m: "m = MSG_OK" "0 < bcounter (bq s1)" using 2(5) by auto
      let ?s = "s1\<lparr>bq := (bq s1)\<lparr>ptr := Some (bwrptr (bq s1) + 4), top := Some (bwrptr (bq s1) + bsize (bq s1))\<rparr>\<rparr>"
      have i1: "obq_inv s1" using 2(2) by (simp add: shrinks_def)
      then have "6 \<le> bsize (bq s1)" using obq_free(2) m(2) by (auto simp: obq_inv_def)
      then have "obq_inv ?s" "obq_stream ?s = obq_stream s1" using i1 m(2) 2(4) by (simp_all add: obq_defs)
      then have "shrinks lg lo hi s1 [] ?s" by (simp add: shrinks_def)
      then have "shrinks lg lo hi s d ?s" using shrinks_trans [OF 2(2)] by fastforce
      moreover have "I ?s" using 2(3) by (rule I_update)
      moreover have "obqGetEmptyBufferTimeoutS env t s = Inr (MSG_OK, ?s)"
        using 2(1) m by (simp add: obqGetEmptyBufferTimeoutS_def obqIsFullI_def bqSpaceI_def del: bqWait.simps)
      ultimately show ?thesis using 2(6) m(1) by auto
    qed
  qed
qed

lemma get_empty_go:
  assumes inv: "obq_inv s" "I s" and p: "ptr (bq s) = None"
  shows "(bindE (obqGetEmptyBufferTimeoutS env t s) (\<lambda>(m, s). Inr (m = MSG_OK, s)) = Inl Blocked \<and>
      t \<noteq> TIME_IMMEDIATE \<and> may_block t (naps s)) \<or>
   (\<exists>go s' d. bindE (obqGetEmptyBufferTimeoutS env t s) (\<lambda>(m, s). Inr (m = MSG_OK, s)) = Inr (go, s') \<and>
      shrinks lg lo hi s d s' \<and> I s' \<and> (go \<longrightarrow> ptr (bq s') \<noteq> None) \<and>
      (may_block t (naps s) \<or> \<not> go \<or> \<not> may_block t (naps s')))"
  using get_empty_ok [OF assms, of t]
proof (elim disjE exE)
  fix m s' d
  assume "obqGetEmptyBufferTimeoutS env t s = Inr (m, s') \<and> shrinks lg lo hi s d s' \<and> I s' \<and>
      (m < MSG_OK \<or> m = MSG_OK \<and> ptr (bq s') \<noteq> None) \<and>
      (may_block t (naps s) \<or> m < MSG_OK \<or> \<not> may_block t (naps s'))"
  then show ?thesis by (intro disjI2 exI [of _ "m = MSG_OK"] exI [of _ s'] exI [of _ d]) auto
qed simp

lemma acquire_ok:
  assumes inv: "obq_inv s" "I s"
  shows "(obqWrite_acquire env t dl s = Inl Blocked \<and> t \<noteq> TIME_IMMEDIATE \<and> may_block t (naps s)) \<or>
   (\<exists>go s' d. obqWrite_acquire env t dl s = Inr (go, s') \<and> shrinks lg lo hi s d s' \<and> I s' \<and>
      (go \<longrightarrow> ptr (bq s') \<noteq> None) \<and> (may_block t (naps s) \<or> \<not> go \<or> \<not> may_block t (naps s')))"
proof (cases "ptr (bq s)")
  case (Some p)
  then show ?thesis using inv shrinks_refl by (fastforce simp: obqWrite_acquire_def)
next
  case None
  show ?thesis
  proof (cases "t = TIME_INFINITE \<or> t = TIME_IMMEDIATE")
    case True
    with get_empty_go [OF inv None, of t] None show ?thesis by (auto simp: obqWrite_acquire_def)
  next
    case False
    let ?n = "chTimeDiffX (now s) dl"
    show ?thesis
    proof (cases "t < ?n")
      case True
      with False None show ?thesis using inv shrinks_refl by (fastforce simp: obqWrite_acquire_def)
    next
      case lt: False
      have "may_block ?n ns = may_block t ns" for ns :: "'e nap list"
        using may_block_next [OF _ lt] False by blast
      with get_empty_go [OF inv None, of ?n] None False lt show ?thesis
        by (auto simp: obqWrite_acquire_def Let_def)
    qed
  qed
qed

lemma acquire_immediate:
  assumes "obqWrite_acquire env TIME_IMMEDIATE dl s = Inr (False, s')"
  shows "obqIsFullI (bq s')"
  using assms
  by (auto simp: obqWrite_acquire_def obqGetEmptyBufferTimeoutS_def chThdEnqueueTimeoutS_def res_simps
      msg_defs split: if_splits)

lemma post_ok:
  assumes r: "obq_ring s" "0 < bcounter (bq s)" "I s" and sz: "0 < sz" "sz \<le> bsize (bq s) - 4"
    and dj: "hi \<le> buffers (bq s) \<or> btop (bq s) \<le> lo"
  shows "\<exists>s' d. obqPostFullBufferS nfy sz s = Inr s' \<and> obq_inv s' \<and> I s' \<and>
    obq_posted s @ load_bytes (ram s) (bwrptr (bq s) + 4) sz = d @ obq_stream s' \<and>
    (\<forall>x. lo \<le> x \<and> x < hi \<longrightarrow> ram s' x = ram s x) \<and> naps s' = naps s \<and>
    buffers (bq s') = buffers (bq s) \<and> btop (bq s') = btop (bq s) \<and> lg (dev s') = lg (dev s) @ d"
proof -
  let ?s = "obq_post sz s"
  note po = obq_post_ok [OF r(1,2) sz]
  have same: "\<forall>x. lo \<le> x \<and> x < hi \<longrightarrow> ram ?s x = ram s x" using po(3) dj by auto
  note f = obq_free [OF r(1,2)]
  have out: "ram ?s x = ram s x" if "x < bwrptr (bq s) \<or> bwrptr (bq s) + bsize (bq s) \<le> x" for x
    using that f by (auto simp: obq_post_def intro!: store_size_frame)
  have "agree (ram s) (ram ?s) (bq s) (obq_full (bq s))"
    using r(1) f by (intro agree_free_slot out) (auto simp: obq_ring_def)
  moreover have "\<forall>x. x < buffers (bq s) \<or> btop (bq s) \<le> x \<longrightarrow> ram ?s x = ram s x" using f by (auto intro!: out)
  ultimately have "I ?s" using local_ok [OF r(3), of ?s] same by (simp add: writer_local_def obq_post_def)
  then obtain s' d where n: "notify_call nfy ?s = Inr s'" "obq_rely lg lo hi ?s d s'" "I s'"
    using nfy_ok [OF po(1)] by (auto simp: obq_post_def)
  have "obqPostFullBufferS nfy sz s = Inr s'"
    using n(1) sz r(2) by (simp add: obqPostFullBufferS_def obqIsFullI_def bqSpaceI_def)
  moreover have "obq_inv s'" "obq_posted s @ load_bytes (ram s) (bwrptr (bq s) + 4) sz = d @ obq_stream s'"
    "\<forall>x. lo \<le> x \<and> x < hi \<longrightarrow> ram s' x = ram s x" "naps s' = naps s"
    "buffers (bq s') = buffers (bq s)" "btop (bq s') = btop (bq s)" "lg (dev s') = lg (dev s) @ d"
    using n(2) same po(2) by (auto simp: obq_rely_def shrinks_def fair_step_def obq_post_def)
  ultimately show ?thesis using n(3) by blast
qed

lemma chunk_ok:
  assumes inv: "obq_inv s" "I s" and p: "ptr (bq s) = Some p" and left: "0 < left"
    and src: "lo \<le> bp" "bp + left \<le> hi" and dj: "hi \<le> buffers (bq s) \<or> btop (bq s) \<le> lo"
  shows "\<exists>sz s' d. obqWrite_chunk nfy bp left s = Inr (sz, s') \<and> 0 < sz \<and> sz \<le> left \<and> obq_inv s' \<and> I s' \<and>
    obq_stream s @ load_bytes (ram s) bp sz = d @ obq_stream s' \<and>
    (\<forall>x. lo \<le> x \<and> x < hi \<longrightarrow> ram s' x = ram s x) \<and> naps s' = naps s \<and>
    buffers (bq s') = buffers (bq s) \<and> btop (bq s') = btop (bq s) \<and> lg (dev s') = lg (dev s) @ d"
proof -
  let ?q = "bq s" and ?b = "bwrptr (bq s) + 4" and ?T = "bwrptr (bq s) + bsize (bq s)"
  have c: "obq_ring s" "0 < bcounter ?q" "top ?q = Some ?T" "?b \<le> p" "p < ?T"
    using inv(1) p by (simp_all add: obq_inv_def)
  note f = obq_free [OF c(1,2)]
  have r: "ring ?q (obq_full ?q)" "bufs_ok (ram s) ?q (obq_full ?q)" using c(1) by (simp_all add: obq_ring_def)
  define sz where "sz = min (min (?T - p) left) 64"
  let ?m = "memcpy (ram s) p bp sz"
  let ?s = "s\<lparr>ram := ?m, bq := ?q\<lparr>ptr := Some (p + sz)\<rparr>\<rparr>"
  have sz: "0 < sz" "sz \<le> left" "sz \<le> ?T - p" using c left by (auto simp: sz_def)
  have out: "?m x = ram s x" if "x < p \<or> p + sz \<le> x" for x using that by (rule memcpy_frame)
  have same: "\<forall>x. lo \<le> x \<and> x < hi \<longrightarrow> ?m x = ram s x" using dj f c sz by (auto intro!: out)
  have ag: "agree (ram s) ?m ?q (obq_full ?q)"
    using c sz by (intro agree_free_slot [OF r(1) f(1)] out) auto
  note ab = agree_bufs [OF r(1) ag r(2)]
  have rs: "obq_ring ?s" "obq_posted ?s = obq_posted s"
    using c(1) ab by (simp_all add: obq_ring_def obq_posted_def obq_full_def)
  have "load_bytes ?m ?b (p - ?b) = load_bytes (ram s) ?b (p - ?b)"
    using c(4) by (intro load_bytes_cong out) auto
  moreover have "load_bytes ?m p sz = load_bytes (ram s) bp sz" by simp
  ultimately have part: "load_bytes ?m ?b (p + sz - ?b) = load_bytes (ram s) ?b (p - ?b) @ load_bytes (ram s) bp sz"
    using load_bytes_split [of "p - ?b" "p + sz - ?b" ?m ?b] c(4) by simp
  then have st: "obq_stream s @ load_bytes (ram s) bp sz = obq_posted ?s @ load_bytes (ram ?s) ?b (p + sz - ?b)"
    using p rs(2) by (simp add: obq_stream_def obq_partial_def)
  have "\<forall>x. x < buffers ?q \<or> btop ?q \<le> x \<longrightarrow> ?m x = ram s x" using c sz f by (auto intro!: out)
  then have Is: "I ?s" using inv(2) same ag by (intro local_ok [of s ?s]) (simp_all add: writer_local_def)
  have "size_diff ?T p = ?T - p" using c f by (intro size_diff_le) auto
  then have run: "obqWrite_chunk nfy bp left s =
      bindE (if ?T \<le> p + sz then obqPostFullBufferS nfy (bsize ?q - 4) ?s else Inr ?s) (\<lambda>s. Inr (sz, s))"
    using p c(3) by (simp add: obqWrite_chunk_def sz_def Let_def)
  show ?thesis
  proof (cases "?T \<le> p + sz")
    case True
    then have full: "p + sz - ?b = bsize ?q - 4" using sz c f by auto
    obtain s' d where po: "obqPostFullBufferS nfy (bsize ?q - 4) ?s = Inr s'" "obq_inv s'" "I s'"
      "obq_posted ?s @ load_bytes (ram ?s) ?b (bsize ?q - 4) = d @ obq_stream s'"
      "\<forall>x. lo \<le> x \<and> x < hi \<longrightarrow> ram s' x = ?m x" "naps s' = naps s"
      "buffers (bq s') = buffers ?q" "btop (bq s') = btop ?q" "lg (dev s') = lg (dev s) @ d"
      using post_ok [of ?s "bsize ?q - 4"] rs(1) c(2) Is dj f(2) by auto
    then show ?thesis using run True sz st full same
      by (intro exI [of _ sz] exI [of _ s'] exI [of _ d]) auto
  next
    case False
    have "obq_inv ?s" using rs(1) c False by (simp add: obq_inv_def)
    moreover have "obq_stream ?s = obq_posted ?s @ load_bytes (ram ?s) ?b (p + sz - ?b)"
      by (simp add: obq_stream_def obq_partial_def)
    ultimately show ?thesis using run False Is sz st same
      by (intro exI [of _ sz] exI [of _ ?s] exI [of _ "[]"]) auto
  qed
qed

lemma write_loop_ok:
  "obq_inv s \<Longrightarrow> I s \<Longrightarrow> w < n \<Longrightarrow> n - w \<le> k \<Longrightarrow> lo \<le> bp \<Longrightarrow> bp + (n - w) \<le> hi \<Longrightarrow>
   hi \<le> buffers (bq s) \<or> btop (bq s) \<le> lo \<Longrightarrow>
   write_outcome lg lo hi I t bp n w s (obqWrite_loop k env nfy t dl bp n w s)"
proof (induction k arbitrary: s w bp)
  case 0
  then show ?case by simp
next
  case (Suc k)
  from acquire_ok [OF Suc.prems(1,2), of t dl] consider
      "obqWrite_acquire env t dl s = Inl Blocked" "t \<noteq> TIME_IMMEDIATE" "may_block t (naps s)"
    | s1 d1 where "obqWrite_acquire env t dl s = Inr (False, s1)" "shrinks lg lo hi s d1 s1" "I s1"
    | s1 d1 where "obqWrite_acquire env t dl s = Inr (True, s1)" "shrinks lg lo hi s d1 s1" "I s1"
        "ptr (bq s1) \<noteq> None" "may_block t (naps s) \<or> \<not> may_block t (naps s1)"
    by (metis (full_types))
  then show ?case
  proof cases
    case 1
    then show ?thesis by (simp add: write_outcome_def)
  next
    case (2 s1 d1)
    then show ?thesis using Suc.prems(3) acquire_immediate [of dl s s1]
      by (auto simp: write_outcome_def shrinks_def)
  next
    case a: (3 s1 d1)
    have i1: "obq_inv s1" and g1: "buffers (bq s1) = buffers (bq s)" "btop (bq s1) = btop (bq s)"
      "obq_stream s = d1 @ obq_stream s1" "lg (dev s1) = lg (dev s) @ d1" "\<And>x. lo \<le> x \<Longrightarrow> x < hi \<Longrightarrow> ram s1 x = ram s x"
      using a(2) by (simp_all add: shrinks_def)
    obtain p where p: "ptr (bq s1) = Some p" using a(4) by blast
    have "0 < n - w" using Suc.prems(3) by simp
    then obtain sz s2 d2 where ch: "obqWrite_chunk nfy bp (n - w) s1 = Inr (sz, s2)" "0 < sz" "sz \<le> n - w"
      "obq_inv s2" "I s2" "obq_stream s1 @ load_bytes (ram s1) bp sz = d2 @ obq_stream s2"
      "\<forall>x. lo \<le> x \<and> x < hi \<longrightarrow> ram s2 x = ram s1 x" "naps s2 = naps s1"
      "buffers (bq s2) = buffers (bq s)" "btop (bq s2) = btop (bq s)" "lg (dev s2) = lg (dev s1) @ d2"
      using chunk_ok [OF i1 a(3) p, of "n - w" bp] Suc.prems(5,6,7) g1(1,2) by auto
    have "load_bytes (ram s1) bp sz = load_bytes (ram s) bp sz"
      using g1(5) Suc.prems(5,6) ch(3) by (intro load_bytes_cong) auto
    then have st2: "obq_stream s @ load_bytes (ram s) bp sz = (d1 @ d2) @ obq_stream s2"
      using g1(3) ch(6) by simp
    show ?thesis
    proof (cases "n \<le> w + sz")
      case True
      then have "n - w = sz" using ch(3) by simp
      moreover have "obqWrite_loop (Suc k) env nfy t dl bp n w s = Inr (w + sz, s2)" using a(1) ch(1) True by simp
      ultimately show ?thesis unfolding write_outcome_def using ch(3-5,11) g1(4) st2 Suc.prems(3)
        by (intro disjI2 exI [of _ "w + sz"] exI [of _ s2] exI [of _ "d1 @ d2"]) auto
    next
      case False
      obtain s3 d3 where pr: "preempt env s2 = Inr s3" "shrinks lg lo hi s2 d3 s3" "I s3" "naps s3 = naps s2"
        using preempt_ok [of s2] ch(4,5) by auto
      then have g3: "obq_inv s3" "buffers (bq s3) = buffers (bq s)" "btop (bq s3) = btop (bq s)"
        "obq_stream s2 = d3 @ obq_stream s3" "lg (dev s3) = lg (dev s2) @ d3" "\<And>x. lo \<le> x \<Longrightarrow> x < hi \<Longrightarrow> ram s3 x = ram s2 x"
        using ch by (simp_all add: shrinks_def)
      have loop: "obqWrite_loop (Suc k) env nfy t dl bp n w s =
          obqWrite_loop k env nfy t dl (bp + sz) n (w + sz) s3"
        using a(1) ch(1) False pr(1) by simp
      have "write_outcome lg lo hi I t (bp + sz) n (w + sz) s3 (obqWrite_loop k env nfy t dl (bp + sz) n (w + sz) s3)"
        using Suc.prems False ch(2,3) g3(2,3) by (intro Suc.IH g3(1) pr(3)) auto
      moreover have "obq_stream s @ load_bytes (ram s) bp sz = (d1 @ d2 @ d3) @ obq_stream s3"
        using st2 g3(4) by simp
      ultimately show ?thesis unfolding loop
        by (rule write_outcome_chunk) (use a(5) ch pr(4) g1 g3 Suc.prems(5,6) False in auto)
    qed
  qed
qed

end

section \<open>A device that takes buffers\<close>

text \<open>
  The environment of a writer in the firmware: the device finishes a buffer and the driver releases
  it, the start of frame interrupt flushes, time passes. The first part of the device state is the
  log of the bytes sent.
\<close>

datatype tx_event = TxDone | TxFlush | TxTick sysinterval

fun tx_env :: "tx_event \<Rightarrow> (tx_event, byte list \<times> 'w) bqop" where
  "tx_env TxDone s = bindE (obq_take s) (\<lambda>(d, s). Inr (s\<lparr>dev := (fst (dev s) @ d, snd (dev s))\<rparr>))"
| "tx_env TxFlush s = Inr (snd (obqTryFlushI s))"
| "tx_env (TxTick k) s = Inr (s\<lparr>now := now s + k\<rparr>)"

lemma obq_take_ok:
  assumes inv: "obq_inv s"
  shows "\<exists>d s'. obq_take s = Inr (d, s') \<and> obq_inv s' \<and> obq_stream s = d @ obq_stream s' \<and> fair_step s s' \<and>
    buffers (bq s') = buffers (bq s) \<and> btop (bq s') = btop (bq s) \<and> ptr (bq s') = ptr (bq s) \<and> ram s' = ram s \<and>
    dev s' = dev s"
proof (cases "obqIsEmptyI (bq s)")
  case True
  then show ?thesis using inv by (simp add: obq_take_def obqGetFullBufferI_def fair_step_def)
next
  case False
  then have "bcounter (bq s) < bn (bq s)"
    using inv obqIsEmptyI_iff [of s] by (auto simp: obq_inv_def obq_ring_def)
  from obq_release_ok [OF inv this] False show ?thesis
    by (auto simp: obq_take_def obqGetFullBufferI_def bufdata_def)
qed

lemma obqTryFlushI_frame:
  assumes "obq_inv s"
  shows "fair_step s (snd (obqTryFlushI s))" "ptr (bq s) = None \<Longrightarrow> ptr (bq (snd (obqTryFlushI s))) = None"
    "buffers (bq (snd (obqTryFlushI s))) = buffers (bq s)" "btop (bq (snd (obqTryFlushI s))) = btop (bq s)"
    "dev (snd (obqTryFlushI s)) = dev s" "\<And>x. x < buffers (bq s) \<or> btop (bq s) \<le> x \<Longrightarrow> ram (snd (obqTryFlushI s)) x = ram s x"
proof -
  show "fair_step s (snd (obqTryFlushI s))" "ptr (bq s) = None \<Longrightarrow> ptr (bq (snd (obqTryFlushI s))) = None"
    "buffers (bq (snd (obqTryFlushI s))) = buffers (bq s)" "btop (bq (snd (obqTryFlushI s))) = btop (bq s)"
    "dev (snd (obqTryFlushI s)) = dev s"
    by (auto simp: obqTryFlushI_def Let_def obq_post_def fair_step_def split: option.splits)
  show "ram (snd (obqTryFlushI s)) x = ram s x" if "x < buffers (bq s) \<or> btop (bq s) \<le> x" for x
  proof (cases "ptr (bq s)")
    case (Some p)
    then have "obq_ring s" "0 < bcounter (bq s)" using assms by (simp_all add: obq_inv_def)
    note f = obq_free [OF this]
    have "store_size (ram s) (bwrptr (bq s)) n x = ram s x" for n
      using that f by (intro store_size_frame) auto
    then show ?thesis using Some by (simp add: obqTryFlushI_def Let_def obq_post_def)
  qed (simp add: obqTryFlushI_def)
qed

lemma tx_env_rely:
  assumes inv: "obq_inv s" and dj: "hi \<le> buffers (bq s) \<or> btop (bq s) \<le> lo"
  shows "\<exists>s' d. tx_env e s = Inr s' \<and> obq_rely fst lo hi s d s' \<and> (hi \<le> buffers (bq s') \<or> btop (bq s') \<le> lo)"
proof (cases e)
  case TxDone
  obtain d s' where t: "obq_take s = Inr (d, s')" "obq_inv s'" "obq_stream s = d @ obq_stream s'" "fair_step s s'"
    "buffers (bq s') = buffers (bq s)" "btop (bq s') = btop (bq s)" "ptr (bq s') = ptr (bq s)" "ram s' = ram s"
    "dev s' = dev s"
    using obq_take_ok [OF inv] by blast
  have "obq_rely fst lo hi s d (s'\<lparr>dev := (fst (dev s') @ d, snd (dev s'))\<rparr>)"
    using t by (auto simp: obq_rely_def shrinks_def fair_step_def)
  then show ?thesis using t dj TxDone by auto
next
  case TxFlush
  note fl = obqTryFlushI_ok [OF inv] obqTryFlushI_frame [OF inv]
  have "obq_rely fst lo hi s [] (snd (obqTryFlushI s))"
    using fl dj by (auto simp: obq_rely_def shrinks_def)
  then show ?thesis using TxFlush fl dj by auto
next
  case (TxTick k)
  then show ?thesis using inv dj by (auto simp: obq_rely_def shrinks_def fair_step_def)
qed

text \<open>The notification of the driver changes the device only.\<close>

definition out_notify :: "('w \<Rightarrow> 'w) \<Rightarrow> ('e, byte list \<times> 'w) bqop" where
  "out_notify f s = Inr (s\<lparr>dev := (fst (dev s), f (snd (dev s)))\<rparr>)"

interpretation tx: obq_writer tx_env "Some (out_notify f)" fst lo hi
  "\<lambda>s. hi \<le> buffers (bq s) \<or> btop (bq s) \<le> lo" for f lo hi
proof (unfold_locales, goal_cases)
  case (1 s e)
  then show ?case by (rule tx_env_rely)
next
  case (2 s)
  then show ?case by (auto simp: notify_call_def out_notify_def obq_rely_def shrinks_def fair_step_def)
next
  case (3 s s')
  then show ?case by (simp add: writer_local_def)
qed

text \<open>
  C6. Writing to an output queue is first in, first out and loses nothing. Whatever buffers the
  device takes and whatever the start of frame interrupt flushes while \<^verbatim>\<open>obqWriteTimeout\<close> sleeps
  or is preempted, the bytes that were in the queue followed by the bytes it reports as written are
  the bytes that the log says the device took meanwhile followed by those left in the queue; with \<^verbatim>\<open>TIME_IMMEDIATE\<close> or a timer
  that expires it always returns, with \<^verbatim>\<open>TIME_IMMEDIATE\<close> short only when the queue is full.
\<close>

theorem obqWriteTimeout_fifo:
  assumes "obq_inv s" "0 < n" "bp + n \<le> buffers (bq s) \<or> btop (bq s) \<le> bp"
  shows "(obqWriteTimeout tx_env (Some (out_notify f)) bp n t s = Inl Blocked \<and>
       t \<noteq> TIME_IMMEDIATE \<and> may_block t (naps s)) \<or>
    (\<exists>w s' taken. obqWriteTimeout tx_env (Some (out_notify f)) bp n t s = Inr (w, s') \<and>
       w \<le> n \<and> obq_inv s' \<and> obq_stream s @ load_bytes (ram s) bp w = taken @ obq_stream s' \<and>
       fst (dev s') = fst (dev s) @ taken \<and> (t = TIME_IMMEDIATE \<and> w < n \<longrightarrow> obqIsFullI (bq s')))"
  using tx.write_loop_ok [where lo = bp and hi = "bp + n" and w = 0 and n = n and k = n and bp = bp,
      OF assms(1) assms(3), of t f "chTimeAddX (now s) t"] assms(2,3)
  by (auto simp: obqWriteTimeout_def write_outcome_def)

text \<open>Two buffers of 64 bytes; the device finishes one while the writer is preempted.\<close>

definition tx_demo :: "(tx_event, byte list \<times> unit) bqstate" where
  "tx_demo = \<lparr>bq = \<lparr>waiting = [], suspended = False, bcounter = 2, bwrptr = 1000, brdptr = 1000,
       btop = 1136, bsize = 68, bn = 2, buffers = 1000, ptr = None, top = None\<rparr>,
     ram = (\<lambda>a. word_of_nat a), now = 0, self = 1, readied = [], naps = [],
     pre = [[TxTick 1, TxDone], []], dev = ([], ())\<rparr>"

lemma obq_inv_tx_demo: "obq_inv tx_demo"
proof -
  have "obqObjectInit False (Some 1000) 64 2 = Inr (bq tx_demo)"
    by (simp add: obqObjectInit_def tx_demo_def)
  from obq_inv_init(1) [OF this, of tx_demo] show ?thesis by (simp add: BQ_BUFFER_SIZE_def)
qed

theorem obqWriteTimeout_fifo_witness:
  "\<exists>s' taken. obqWriteTimeout tx_env (Some (out_notify id)) 5000 130 TIME_IMMEDIATE tx_demo = Inr (130, s') \<and>
     length (fst (dev s')) = 64 \<and>
     obq_stream tx_demo @ load_bytes (ram tx_demo) 5000 130 = taken @ obq_stream s' \<and> fst (dev s') = taken"
proof -
  let ?r = "obqWriteTimeout tx_env (Some (out_notify id)) 5000 130 TIME_IMMEDIATE tx_demo"
  have run: "case ?r of Inr (r, s') \<Rightarrow> r = 130 \<and> length (fst (dev s')) = 64 | Inl _ \<Rightarrow> False"
    by code_simp
  have "(?r = Inl Blocked \<and> TIME_IMMEDIATE \<noteq> TIME_IMMEDIATE \<and> may_block TIME_IMMEDIATE (naps tx_demo)) \<or>
    (\<exists>r s' taken. ?r = Inr (r, s') \<and> r \<le> 130 \<and> obq_inv s' \<and>
       obq_stream tx_demo @ load_bytes (ram tx_demo) 5000 r = taken @ obq_stream s' \<and>
       fst (dev s') = fst (dev tx_demo) @ taken \<and>
       (TIME_IMMEDIATE = TIME_IMMEDIATE \<and> r < 130 \<longrightarrow> obqIsFullI (bq s')))"
    by (rule obqWriteTimeout_fifo [OF obq_inv_tx_demo]) (simp_all add: tx_demo_def)
  with run show ?thesis by (auto simp: tx_demo_def)
qed

end
