(* ===== verification/SerialUsb.thy ===== *)
theory SerialUsb
  imports UsbIsr BufferInput BufferOutput
begin

text \<open>
  The serial over USB driver: \<^verbatim>\<open>os/hal/src/hal_serial_usb.c\<close>, with the event sources of
  \<^verbatim>\<open>os/rt/src/chevents.c\<close> it broadcasts to. The driver object extends the record of the USB driver
  it runs on, so one state holds both; the two queues are those of \<open>BufferQueues\<close>, opened on
  this state by \<open>ib_view\<close> and \<open>ob_view\<close> and put back by \<open>ib_close\<close> and \<open>ob_close\<close>.
\<close>

section \<open>Events\<close>

record event_listener =
  el_thread :: tid
  el_events :: "32 word"
  el_flags :: "32 word"
  el_wflags :: "32 word"

text \<open>What a thread waits for: any or all of a mask.\<close>

datatype evt_wait = Running | WaitOr "32 word" | WaitAnd "32 word"

record evt_thread =
  epending :: "32 word"
  ewait :: evt_wait

definition chEvtSignalI :: "32 word \<Rightarrow> evt_thread \<Rightarrow> evt_thread" where
  "chEvtSignalI events tp =
     (let tp = tp\<lparr>epending := epending tp OR events\<rparr> in
      case ewait tp of
        WaitOr m \<Rightarrow> if epending tp AND m \<noteq> 0 then tp\<lparr>ewait := Running\<rparr> else tp
      | WaitAnd m \<Rightarrow> if epending tp AND m = m then tp\<lparr>ewait := Running\<rparr> else tp
      | Running \<Rightarrow> tp)"

text \<open>The walk over the listeners of a source.\<close>

fun chEvtBroadcastFlagsI :: "32 word \<Rightarrow> event_listener list \<Rightarrow> (tid \<Rightarrow> evt_thread) \<Rightarrow>
    event_listener list \<times> (tid \<Rightarrow> evt_thread)" where
  "chEvtBroadcastFlagsI flags [] ths = ([], ths)"
| "chEvtBroadcastFlagsI flags (l # ls) ths =
     (let l = l\<lparr>el_flags := el_flags l OR flags\<rparr>;
          t = el_thread l;
          ths = (if flags = 0 \<or> el_flags l AND el_wflags l \<noteq> 0
                 then ths(t := chEvtSignalI (el_events l) (ths t)) else ths);
          (ls, ths) = chEvtBroadcastFlagsI flags ls ths
      in (l # ls, ths))"

definition CHN_CONNECTED :: "32 word" where "CHN_CONNECTED = 1"
definition CHN_DISCONNECTED :: "32 word" where "CHN_DISCONNECTED = 2"
definition CHN_INPUT_AVAILABLE :: "32 word" where "CHN_INPUT_AVAILABLE = 4"
definition CHN_OUTPUT_EMPTY :: "32 word" where "CHN_OUTPUT_EMPTY = 8"

lemmas chn_defs = CHN_CONNECTED_def CHN_DISCONNECTED_def CHN_INPUT_AVAILABLE_def CHN_OUTPUT_EMPTY_def

section \<open>State\<close>

datatype sdustate = SDU_UNINIT | SDU_STOP | SDU_READY

record SerialUSBConfig =
  bulk_in :: usbep
  bulk_out :: usbep
  int_in :: usbep

text \<open>
  What the bus and the clock do while a thread runs or sleeps, one interrupt cause at a time:
  reset, suspend, resume and start of frame; a SETUP packet, a data packet and the end of a transfer
  from the host; space in a transmit FIFO and the end of a transfer to the host; time passing.
\<close>

datatype bus_event = BusReset | BusSuspend | BusWakeup | BusSof | RxSetup "32 word list"
  | RxData usbep nat "32 word list" | OutDone usbep | TxSpace usbep "nat list" | InDone usbep | Tick sysinterval

text \<open>
  \<open>ib\<close>, \<open>ob\<close> and \<open>linecoding_at\<close> are the addresses of the buffer arrays of the object and
  of the static line coding; the fields from \<open>sys_now\<close> on are the time, the running thread, the
  threads made ready and the scripts of events (see \<open>BufferQueues\<close>).
\<close>

record SerialUSB = USBDriver +
  sdu_state :: sdustate
  ibqueue :: io_buffers_queue
  obqueue :: io_buffers_queue
  ib :: nat
  ob :: nat
  linecoding_at :: nat
  sdu_config :: "SerialUSBConfig option"
  listeners :: "event_listener list"
  ethreads :: "tid \<Rightarrow> evt_thread"
  sys_now :: systime
  running :: tid
  ready :: "(tid \<times> msg) list"
  sleeps :: "bus_event nap list"
  switches :: "bus_event list list"

type_synonym sdu_op = "SerialUSB \<Rightarrow> SerialUSB result"
type_synonym sduq = "(bus_event, SerialUSB) bqstate"

definition ib_view :: "SerialUSB \<Rightarrow> sduq" where
  "ib_view w = \<lparr>bq = ibqueue w, ram = umem w, now = sys_now w, self = running w, readied = ready w,
     naps = sleeps w, pre = switches w, dev = w\<rparr>"

definition ib_close :: "sduq \<Rightarrow> SerialUSB" where
  "ib_close s = (dev s)\<lparr>ibqueue := bq s, umem := ram s, sys_now := now s, running := self s,
     ready := readied s, sleeps := naps s, switches := pre s\<rparr>"

definition ob_view :: "SerialUSB \<Rightarrow> sduq" where
  "ob_view w = \<lparr>bq = obqueue w, ram = umem w, now = sys_now w, self = running w, readied = ready w,
     naps = sleeps w, pre = switches w, dev = w\<rparr>"

definition ob_close :: "sduq \<Rightarrow> SerialUSB" where
  "ob_close s = (dev s)\<lparr>obqueue := bq s, umem := ram s, sys_now := now s, running := self s,
     ready := readied s, sleeps := naps s, switches := pre s\<rparr>"

definition on_ib :: "(sduq \<Rightarrow> sduq) \<Rightarrow> SerialUSB \<Rightarrow> SerialUSB" where
  "on_ib f w = ib_close (f (ib_view w))"

definition on_ob :: "(sduq \<Rightarrow> sduq) \<Rightarrow> SerialUSB \<Rightarrow> SerialUSB" where
  "on_ob f w = ob_close (f (ob_view w))"

text \<open>A driver operation seen from a queue.\<close>

definition via_ib :: "sdu_op \<Rightarrow> (bus_event, SerialUSB) bqop" where
  "via_ib f s = bindE (f (ib_close s)) (\<lambda>w. Inr (ib_view w))"

definition via_ob :: "sdu_op \<Rightarrow> (bus_event, SerialUSB) bqop" where
  "via_ob f s = bindE (f (ob_close s)) (\<lambda>w. Inr (ob_view w))"

text \<open>A queue operation with a value, as an operation of the driver.\<close>

definition from_ib :: "(sduq \<Rightarrow> ('v \<times> sduq) result) \<Rightarrow> SerialUSB \<Rightarrow> ('v \<times> SerialUSB) result" where
  "from_ib f w = bindE (f (ib_view w)) (\<lambda>(v, s). Inr (v, ib_close s))"

definition from_ob :: "(sduq \<Rightarrow> ('v \<times> sduq) result) \<Rightarrow> SerialUSB \<Rightarrow> ('v \<times> SerialUSB) result" where
  "from_ob f w = bindE (f (ob_view w)) (\<lambda>(v, s). Inr (v, ob_close s))"

definition chnAddFlagsI :: "32 word \<Rightarrow> SerialUSB \<Rightarrow> SerialUSB" where
  "chnAddFlagsI flags w =
     (let (ls, ths) = chEvtBroadcastFlagsI flags (listeners w) (ethreads w)
      in w\<lparr>listeners := ls, ethreads := ths\<rparr>)"

section \<open>Transactions\<close>

definition SERIAL_USB_BUFFERS_SIZE :: nat where "SERIAL_USB_BUFFERS_SIZE = 256"
definition SERIAL_USB_BUFFERS_NUMBER :: nat where "SERIAL_USB_BUFFERS_NUMBER = 2"

lemmas sdu_sizes = SERIAL_USB_BUFFERS_SIZE_def SERIAL_USB_BUFFERS_NUMBER_def

definition sdu_start_receive :: "SerialUSB \<Rightarrow> (bool \<times> SerialUSB) result" where
  "sdu_start_receive w =
     bindE (deref ''config'' (sdu_config w)) (\<lambda>c.
       if usb_state w \<noteq> USB_ACTIVE \<or> sdu_state w \<noteq> SDU_READY then Inr (True, w)
       else if usbGetReceiveStatusI w (bulk_in c) then Inr (True, w)
       else case ibqGetEmptyBufferI (ibqueue w) of
         None \<Rightarrow> Inr (True, w)
       | Some buf \<Rightarrow>
           bindE (usbStartReceiveI (bulk_out c) (Ram buf) SERIAL_USB_BUFFERS_SIZE w) (\<lambda>w. Inr (False, w)))"

definition drop_result :: "('v \<times> SerialUSB) result \<Rightarrow> SerialUSB result" where
  "drop_result r = bindE r (\<lambda>(_, w). Inr w)"

definition ibnotify :: "sdu_op" where
  "ibnotify w = drop_result (sdu_start_receive w)"

definition obnotify :: "sdu_op" where
  "obnotify w =
     bindE (deref ''config'' (sdu_config w)) (\<lambda>c.
       if usb_state w \<noteq> USB_ACTIVE \<or> sdu_state w \<noteq> SDU_READY then Inr w
       else if usbGetTransmitStatusI w (bulk_in c) then Inr w
       else case obqGetFullBufferI (ob_view w) of
         None \<Rightarrow> Inr w
       | Some (buf, n) \<Rightarrow> usbStartTransmitI (bulk_in c) (Ram buf) n w)"

section \<open>Life cycle\<close>

definition sduInit :: "SerialUSB \<Rightarrow> SerialUSB" where "sduInit w = w"

definition sduObjectInit :: "sdu_op" where
  "sduObjectInit w =
     bindE (ibqObjectInit True (Some (ib w)) SERIAL_USB_BUFFERS_SIZE SERIAL_USB_BUFFERS_NUMBER) (\<lambda>iq.
     bindE (obqObjectInit True (Some (ob w)) SERIAL_USB_BUFFERS_SIZE SERIAL_USB_BUFFERS_NUMBER) (\<lambda>oq.
       Inr (w\<lparr>listeners := [], sdu_state := SDU_STOP, ibqueue := iq, obqueue := oq\<rparr>)))"

text \<open>The assignments to the parameter arrays, whose index is the endpoint less one.\<close>

definition set_params :: "SerialUSBConfig \<Rightarrow> bool \<Rightarrow> sdu_op" where
  "set_params c v w =
     (if bulk_in c = 0 \<or> bulk_out c = 0 \<or> USB_MAX_ENDPOINTS < bulk_in c \<or> USB_MAX_ENDPOINTS < bulk_out c \<or>
         USB_MAX_ENDPOINTS < int_in c then Inl (Fault ''params'')
      else
        let inp = (in_params w)(bulk_in c - 1 := v);
            inp = (if 0 < int_in c then inp(int_in c - 1 := v) else inp)
        in Inr (w\<lparr>in_params := inp, out_params := (out_params w)(bulk_out c - 1 := v)\<rparr>))"

definition sduStart :: "SerialUSBConfig \<Rightarrow> sdu_op" where
  "sduStart c w =
     dbgAssert ''invalid state'' (sdu_state w = SDU_STOP \<or> sdu_state w = SDU_READY)
       (bindE (set_params c True w) (\<lambda>w. Inr (w\<lparr>sdu_config := Some c, sdu_state := SDU_READY\<rparr>)))"

definition sduStop :: "sdu_op" where
  "sduStop w =
     bindE (deref ''config'' (sdu_config w)) (\<lambda>c.
       dbgAssert ''invalid state'' (sdu_state w = SDU_STOP \<or> sdu_state w = SDU_READY)
         (bindE (set_params c False w) (\<lambda>w.
            Inr (on_ob obqResetI (on_ib ibqResetI (chnAddFlagsI CHN_DISCONNECTED
              (w\<lparr>sdu_config := None, sdu_state := SDU_STOP\<rparr>)))))))"

section \<open>Hooks\<close>

definition sduSuspendHookI :: "SerialUSB \<Rightarrow> SerialUSB" where
  "sduSuspendHookI w = on_ob bqSuspendI (on_ib bqSuspendI (chnAddFlagsI CHN_DISCONNECTED w))"

definition sduWakeupHookI :: "SerialUSB \<Rightarrow> SerialUSB" where
  "sduWakeupHookI w = on_ob bqResumeX (on_ib bqResumeX (chnAddFlagsI CHN_CONNECTED w))"

definition sduConfigureHookI :: "sdu_op" where
  "sduConfigureHookI w =
     drop_result (sdu_start_receive (chnAddFlagsI CHN_CONNECTED
       (on_ob bqResumeX (on_ob obqResetI (on_ib bqResumeX (on_ib ibqResetI w))))))"

definition CDC_SET_LINE_CODING :: byte where "CDC_SET_LINE_CODING = 0x20"
definition CDC_GET_LINE_CODING :: byte where "CDC_GET_LINE_CODING = 0x21"
definition CDC_SET_CONTROL_LINE_STATE :: byte where "CDC_SET_CONTROL_LINE_STATE = 0x22"

lemmas cdc_defs = CDC_SET_LINE_CODING_def CDC_GET_LINE_CODING_def CDC_SET_CONTROL_LINE_STATE_def

text \<open>The initial line coding, seven bytes: 38400, one stop bit, no parity, eight bits.\<close>

definition linecoding :: "byte list" where "linecoding = [0, 0x96, 0, 0, 0, 0, 8]"

definition sduRequestsHook :: "SerialUSB \<Rightarrow> (bool \<times> SerialUSB) result" where
  "sduRequestsHook w =
     (if setup_pkt w ! 0 AND USB_RTYPE_TYPE_MASK = USB_RTYPE_TYPE_CLASS then
        if setup_pkt w ! 1 = CDC_GET_LINE_CODING then
          Inr (True, usbSetupTransfer (Ram (linecoding_at w)) (length linecoding) None w)
        else if setup_pkt w ! 1 = CDC_SET_LINE_CODING then
          Inr (True, usbSetupTransfer (Ram (linecoding_at w)) (length linecoding) None w)
        else if setup_pkt w ! 1 = CDC_SET_CONTROL_LINE_STATE then
          Inr (True, usbSetupTransfer NullPtr 0 None w)
        else Inr (False, w)
      else Inr (False, w))"

definition sduSOFHookI :: "sdu_op" where
  "sduSOFHookI w =
     bindE (deref ''config'' (sdu_config w)) (\<lambda>c.
       if usb_state w \<noteq> USB_ACTIVE \<or> sdu_state w \<noteq> SDU_READY then Inr w
       else if usbGetTransmitStatusI w (bulk_in c) then Inr w
       else
         let (flushed, s) = obqTryFlushI (ob_view w); w = ob_close s in
         if \<not> flushed then Inr w
         else case obqGetFullBufferI (ob_view w) of
           None \<Rightarrow> Inl (DbgAssert ''queue is empty'')
         | Some (buf, n) \<Rightarrow> usbStartTransmitI (bulk_in c) (Ram buf) n w)"

section \<open>Endpoint callbacks\<close>

definition sduDataTransmitted :: "usbep \<Rightarrow> sdu_op" where
  "sduDataTransmitted ep w =
     (if \<not> in_params w (ep - 1) then Inr w else
      let w = chnAddFlagsI CHN_OUTPUT_EMPTY w in
      bindE (deref ''epc'' (epc w ep)) (\<lambda>c.
      bindE (in_state_of ep w) (\<lambda>w.
      bindE (if 0 < txsize (ep_in w ep) then obqReleaseEmptyBufferI (ob_view w) else Inr (ob_view w)) (\<lambda>s.
        let w = ob_close s in
        case obqGetFullBufferI (ob_view w) of
          Some (buf, n) \<Rightarrow> usbStartTransmitI ep (Ram buf) n w
        | None \<Rightarrow>
            if 0 < txsize (ep_in w ep) \<and>
               (word_of_nat (txsize (ep_in w ep)) :: 32 word) AND (word_of_nat (in_maxsize c) - 1) = 0
            then usbStartTransmitI ep (Var ''setup'' 0) 0 w
            else Inr w))))"

definition sduDataReceived :: "usbep \<Rightarrow> sdu_op" where
  "sduDataReceived ep w =
     (if \<not> out_params w (ep - 1) then Inr w else
      bindE (deref ''config'' (sdu_config w)) (\<lambda>c.
      bindE (out_state_of (bulk_out c) w) (\<lambda>w.
        let sz = usb_lld_get_transaction_size (bulk_out c) w in
        bindE (if 0 < sz then
                 bindE (ibqPostFullBufferI sz (ib_view (chnAddFlagsI CHN_INPUT_AVAILABLE w))) (\<lambda>s. Inr (ib_close s))
               else Inr w)
          (\<lambda>w. drop_result (sdu_start_receive w)))))"

definition sduInterruptTransmitted :: "usbep \<Rightarrow> sdu_op" where
  "sduInterruptTransmitted ep w = Inr w"

section \<open>Channel interface\<close>

text \<open>
  The methods of the channel. \<open>ev\<close> says what a bus event does to the driver while the calling
  thread sleeps.
\<close>

definition ib_notify :: "(bus_event, SerialUSB) bqop option" where
  "ib_notify = Some (via_ib ibnotify)"

definition ob_notify :: "(bus_event, SerialUSB) bqop option" where
  "ob_notify = Some (via_ob obnotify)"

definition sdu_writet :: "(bus_event \<Rightarrow> sdu_op) \<Rightarrow> nat \<Rightarrow> nat \<Rightarrow> sysinterval \<Rightarrow> SerialUSB \<Rightarrow> (nat \<times> SerialUSB) result" where
  "sdu_writet ev bp n timeout = from_ob (obqWriteTimeout (\<lambda>e. via_ob (ev e)) ob_notify bp n timeout)"

definition sdu_readt :: "(bus_event \<Rightarrow> sdu_op) \<Rightarrow> nat \<Rightarrow> nat \<Rightarrow> sysinterval \<Rightarrow> SerialUSB \<Rightarrow> (nat \<times> SerialUSB) result" where
  "sdu_readt ev bp n timeout = from_ib (ibqReadTimeout (\<lambda>e. via_ib (ev e)) ib_notify bp n timeout)"

definition sdu_putt :: "(bus_event \<Rightarrow> sdu_op) \<Rightarrow> byte \<Rightarrow> sysinterval \<Rightarrow> SerialUSB \<Rightarrow> (msg \<times> SerialUSB) result" where
  "sdu_putt ev b timeout = from_ob (obqPutTimeout (\<lambda>e. via_ob (ev e)) ob_notify b timeout)"

definition sdu_gett :: "(bus_event \<Rightarrow> sdu_op) \<Rightarrow> sysinterval \<Rightarrow> SerialUSB \<Rightarrow> (msg \<times> SerialUSB) result" where
  "sdu_gett ev timeout = from_ib (ibqGetTimeout (\<lambda>e. via_ib (ev e)) ib_notify timeout)"

definition sdu_write :: "(bus_event \<Rightarrow> sdu_op) \<Rightarrow> nat \<Rightarrow> nat \<Rightarrow> SerialUSB \<Rightarrow> (nat \<times> SerialUSB) result" where
  "sdu_write ev bp n = from_ob (obqWriteTimeout (\<lambda>e. via_ob (ev e)) ob_notify bp n TIME_INFINITE)"

definition sdu_read :: "(bus_event \<Rightarrow> sdu_op) \<Rightarrow> nat \<Rightarrow> nat \<Rightarrow> SerialUSB \<Rightarrow> (nat \<times> SerialUSB) result" where
  "sdu_read ev bp n = from_ib (ibqReadTimeout (\<lambda>e. via_ib (ev e)) ib_notify bp n TIME_INFINITE)"

definition sdu_put :: "(bus_event \<Rightarrow> sdu_op) \<Rightarrow> byte \<Rightarrow> SerialUSB \<Rightarrow> (msg \<times> SerialUSB) result" where
  "sdu_put ev b = from_ob (obqPutTimeout (\<lambda>e. via_ob (ev e)) ob_notify b TIME_INFINITE)"

definition sdu_get :: "(bus_event \<Rightarrow> sdu_op) \<Rightarrow> SerialUSB \<Rightarrow> (msg \<times> SerialUSB) result" where
  "sdu_get ev = from_ib (ibqGetTimeout (\<lambda>e. via_ib (ev e)) ib_notify TIME_INFINITE)"

definition CHN_CTL_INVALID :: nat where "CHN_CTL_INVALID = 0"
definition CHN_CTL_NOP :: nat where "CHN_CTL_NOP = 1"

definition sdu_ctl :: "nat \<Rightarrow> nat option \<Rightarrow> SerialUSB \<Rightarrow> (msg \<times> SerialUSB) result" where
  "sdu_ctl operation arg w =
     (if operation = CHN_CTL_NOP then dbgCheck ''_ctl'' (arg = None) (Inr (MSG_OK, w))
      else if operation = CHN_CTL_INVALID then Inl (DbgAssert ''invalid CTL operation'')
      else Inr (MSG_OK, w))"

definition sduControl :: "nat \<Rightarrow> nat option \<Rightarrow> SerialUSB \<Rightarrow> (msg \<times> SerialUSB) result" where
  "sduControl operation arg w = sdu_ctl operation arg w"

end
