(* ===== verification/Usbcfg.thy ===== *)
theory Usbcfg
  imports SerialUsb
begin

text \<open>
  The USB configuration of the application, \<^verbatim>\<open>src/src/source/usbcfg.c\<close>: the descriptors, the endpoint
  configurations, the event handler, and the two configuration structures that tie the USB driver
  and the serial driver together.
\<close>

section \<open>Descriptors\<close>

definition USB1_DATA_REQUEST_EP :: usbep where "USB1_DATA_REQUEST_EP = 1"
definition USB1_DATA_AVAILABLE_EP :: usbep where "USB1_DATA_AVAILABLE_EP = 1"
definition USB1_INTERRUPT_REQUEST_EP :: usbep where "USB1_INTERRUPT_REQUEST_EP = 2"

lemmas ep_defs = USB1_DATA_REQUEST_EP_def USB1_DATA_AVAILABLE_EP_def USB1_INTERRUPT_REQUEST_EP_def

definition USB_DESCRIPTOR_DEVICE :: byte where "USB_DESCRIPTOR_DEVICE = 1"
definition USB_DESCRIPTOR_CONFIGURATION :: byte where "USB_DESCRIPTOR_CONFIGURATION = 2"
definition USB_DESCRIPTOR_STRING :: byte where "USB_DESCRIPTOR_STRING = 3"
definition USB_DESCRIPTOR_INTERFACE :: byte where "USB_DESCRIPTOR_INTERFACE = 4"
definition USB_DESCRIPTOR_ENDPOINT :: byte where "USB_DESCRIPTOR_ENDPOINT = 5"

lemmas descriptor_types = USB_DESCRIPTOR_DEVICE_def USB_DESCRIPTOR_CONFIGURATION_def
  USB_DESCRIPTOR_STRING_def USB_DESCRIPTOR_INTERFACE_def USB_DESCRIPTOR_ENDPOINT_def

text \<open>The helper macros; \<^verbatim>\<open>USB_DESC_BCD\<close> and \<^verbatim>\<open>USB_DESC_WORD\<close> are the same bytes.\<close>

definition USB_DESC_WORD :: "16 word \<Rightarrow> byte list" where
  "USB_DESC_WORD w = [ucast (w AND 255), ucast (drop_bit 8 w AND 255)]"

definition USB_DESC_DEVICE :: "16 word \<Rightarrow> byte \<Rightarrow> byte \<Rightarrow> byte \<Rightarrow> byte \<Rightarrow> 16 word \<Rightarrow> 16 word \<Rightarrow> 16 word \<Rightarrow>
    byte \<Rightarrow> byte \<Rightarrow> byte \<Rightarrow> byte \<Rightarrow> byte list" where
  "USB_DESC_DEVICE bcdUSB bDeviceClass bDeviceSubClass bDeviceProtocol bMaxPacketSize idVendor idProduct
     bcdDevice iManufacturer iProduct iSerialNumber bNumConfigurations =
     [18, USB_DESCRIPTOR_DEVICE] @ USB_DESC_WORD bcdUSB @
     [bDeviceClass, bDeviceSubClass, bDeviceProtocol, bMaxPacketSize] @ USB_DESC_WORD idVendor @
     USB_DESC_WORD idProduct @ USB_DESC_WORD bcdDevice @
     [iManufacturer, iProduct, iSerialNumber, bNumConfigurations]"

definition USB_DESC_CONFIGURATION :: "16 word \<Rightarrow> byte \<Rightarrow> byte \<Rightarrow> byte \<Rightarrow> byte \<Rightarrow> byte \<Rightarrow> byte list" where
  "USB_DESC_CONFIGURATION wTotalLength bNumInterfaces bConfigurationValue iConfiguration bmAttributes bMaxPower =
     [9, USB_DESCRIPTOR_CONFIGURATION] @ USB_DESC_WORD wTotalLength @
     [bNumInterfaces, bConfigurationValue, iConfiguration, bmAttributes, bMaxPower]"

definition USB_DESC_INTERFACE :: "byte \<Rightarrow> byte \<Rightarrow> byte \<Rightarrow> byte \<Rightarrow> byte \<Rightarrow> byte \<Rightarrow> byte \<Rightarrow> byte list" where
  "USB_DESC_INTERFACE bInterfaceNumber bAlternateSetting bNumEndpoints bInterfaceClass bInterfaceSubClass
     bInterfaceProtocol iInterface =
     [9, USB_DESCRIPTOR_INTERFACE, bInterfaceNumber, bAlternateSetting, bNumEndpoints, bInterfaceClass,
      bInterfaceSubClass, bInterfaceProtocol, iInterface]"

definition USB_DESC_ENDPOINT :: "byte \<Rightarrow> byte \<Rightarrow> 16 word \<Rightarrow> byte \<Rightarrow> byte list" where
  "USB_DESC_ENDPOINT bEndpointAddress bmAttributes wMaxPacketSize bInterval =
     [7, USB_DESCRIPTOR_ENDPOINT, bEndpointAddress, bmAttributes] @ USB_DESC_WORD wMaxPacketSize @ [bInterval]"

definition vcom_device_descriptor_data :: "byte list" where
  "vcom_device_descriptor_data =
     USB_DESC_DEVICE 0x0110 0x02 0x00 0x00 0x40 0x0483 0x5740 0x0200 1 2 3 1"

definition vcom_configuration_descriptor_data :: "byte list" where
  "vcom_configuration_descriptor_data =
     USB_DESC_CONFIGURATION 67 0x02 0x01 0 0xC0 50 @
     USB_DESC_INTERFACE 0x00 0x00 0x01 0x02 0x02 0x01 0 @
     [5, 0x24, 0x00] @ USB_DESC_WORD 0x0110 @
     [5, 0x24, 0x01, 0x00, 0x01] @
     [4, 0x24, 0x02, 0x02] @
     [5, 0x24, 0x06, 0x00, 0x01] @
     USB_DESC_ENDPOINT (word_of_nat USB1_INTERRUPT_REQUEST_EP OR 0x80) 0x03 0x0008 0xFF @
     USB_DESC_INTERFACE 0x01 0x00 0x02 0x0A 0x00 0x00 0x00 @
     USB_DESC_ENDPOINT (word_of_nat USB1_DATA_AVAILABLE_EP) 0x02 0x0040 0x00 @
     USB_DESC_ENDPOINT (word_of_nat USB1_DATA_REQUEST_EP OR 0x80) 0x02 0x0040 0x00"

text \<open>The characters of a string descriptor, each followed by a zero byte.\<close>

definition utf16 :: "string \<Rightarrow> byte list" where
  "utf16 s = concat (map (\<lambda>c. [of_char c, 0]) s)"

definition vcom_string0 :: "byte list" where
  "vcom_string0 = [4, USB_DESCRIPTOR_STRING] @ USB_DESC_WORD 0x0409"

definition vcom_string1 :: "byte list" where
  "vcom_string1 = [38, USB_DESCRIPTOR_STRING] @ utf16 ''STMicroelectronics''"

definition vcom_string2 :: "byte list" where
  "vcom_string2 = [56, USB_DESCRIPTOR_STRING] @ utf16 ''ChibiOS/RT Virtual COM Port''"

text \<open>The digits of the kernel version.\<close>

definition CH_KERNEL_MAJOR :: byte where "CH_KERNEL_MAJOR = 5"
definition CH_KERNEL_MINOR :: byte where "CH_KERNEL_MINOR = 0"
definition CH_KERNEL_PATCH :: byte where "CH_KERNEL_PATCH = 0"

definition vcom_string3 :: "byte list" where
  "vcom_string3 = [8, USB_DESCRIPTOR_STRING, 48 + CH_KERNEL_MAJOR, 0, 48 + CH_KERNEL_MINOR, 0, 48 + CH_KERNEL_PATCH, 0]"

definition descr :: "byte list \<Rightarrow> USBDescriptor" where
  "descr data = \<lparr>ud_size = length data, ud_string = data\<rparr>"

definition vcom_strings :: "USBDescriptor list" where
  "vcom_strings = [descr vcom_string0, descr vcom_string1, descr vcom_string2, descr vcom_string3]"

definition get_descriptor :: "byte \<Rightarrow> byte \<Rightarrow> 16 word \<Rightarrow> USBDescriptor option" where
  "get_descriptor dtype dindex lang =
     (if dtype = USB_DESCRIPTOR_DEVICE then Some (descr vcom_device_descriptor_data)
      else if dtype = USB_DESCRIPTOR_CONFIGURATION then Some (descr vcom_configuration_descriptor_data)
      else if dtype = USB_DESCRIPTOR_STRING \<and> dindex < 4 then Some (vcom_strings ! unat dindex)
      else None)"

section \<open>Endpoints and events\<close>

definition fn_sduDataTransmitted :: fnptr where "fn_sduDataTransmitted = 3"
definition fn_sduDataReceived :: fnptr where "fn_sduDataReceived = 4"
definition fn_sduInterruptTransmitted :: fnptr where "fn_sduInterruptTransmitted = 5"

lemmas fn_sdu_defs = fn_sduDataTransmitted_def fn_sduDataReceived_def fn_sduInterruptTransmitted_def

definition ep1config :: USBEndpointConfig where
  "ep1config = \<lparr>ep_mode = USB_EP_MODE_TYPE_BULK, setup_cb = None, in_cb = Some fn_sduDataTransmitted,
     out_cb = Some fn_sduDataReceived, in_maxsize = 0x40, out_maxsize = 0x40, in_state = True,
     out_state = True, in_multiplier = 2, has_setup_buf = False\<rparr>"

definition ep2config :: USBEndpointConfig where
  "ep2config = \<lparr>ep_mode = USB_EP_MODE_TYPE_INTR, setup_cb = None, in_cb = Some fn_sduInterruptTransmitted,
     out_cb = None, in_maxsize = 0x10, out_maxsize = 0, in_state = True, out_state = False,
     in_multiplier = 1, has_setup_buf = False\<rparr>"

definition usb_event :: "usbevent \<Rightarrow> sdu_op" where
  "usb_event event w = (case event of
      USB_EVENT_ADDRESS \<Rightarrow> Inr w
    | USB_EVENT_CONFIGURED \<Rightarrow>
        bindE (usbInitEndpointI USB1_DATA_REQUEST_EP ep1config w) (\<lambda>w.
        bindE (usbInitEndpointI USB1_INTERRUPT_REQUEST_EP ep2config w) sduConfigureHookI)
    | USB_EVENT_RESET \<Rightarrow> Inr (sduSuspendHookI w)
    | USB_EVENT_UNCONFIGURED \<Rightarrow> Inr (sduSuspendHookI w)
    | USB_EVENT_SUSPEND \<Rightarrow> Inr (sduSuspendHookI w)
    | USB_EVENT_WAKEUP \<Rightarrow> Inr (sduWakeupHookI w)
    | USB_EVENT_STALLED \<Rightarrow> Inr w)"

definition sof_handler :: sdu_op where "sof_handler w = sduSOFHookI w"

definition sdu_ep_callback :: "fnptr \<Rightarrow> usbep \<Rightarrow> sdu_op" where
  "sdu_ep_callback f ep w =
     (if f = fn_sduDataTransmitted then sduDataTransmitted ep w
      else if f = fn_sduDataReceived then sduDataReceived ep w
      else if f = fn_sduInterruptTransmitted then sduInterruptTransmitted ep w
      else Inl (Fault ''callback''))"

text \<open>
  \<open>st_in\<close> and \<open>st_out\<close> are what the endpoint control registers say. No request of this
  configuration has an end callback.
\<close>

definition usbcfg :: "(usbep \<Rightarrow> usbepstatus) \<Rightarrow> (usbep \<Rightarrow> usbepstatus) \<Rightarrow> unit SerialUSB_ext USBConfig" where
  "usbcfg st_in st_out = \<lparr>event_cb = Some usb_event, get_descriptor_cb = get_descriptor,
     requests_hook_cb = Some sduRequestsHook, sof_cb = Some sof_handler, ep_callback = sdu_ep_callback,
     end_callback = (\<lambda>f w. Inl (Fault ''ep0endcb'')), status_in = st_in, status_out = st_out\<rparr>"

definition serusbcfg :: SerialUSBConfig where
  "serusbcfg = \<lparr>bulk_in = USB1_DATA_REQUEST_EP, bulk_out = USB1_DATA_AVAILABLE_EP,
     int_in = USB1_INTERRUPT_REQUEST_EP\<rparr>"

text \<open>
  What a bus event does to the node: the interrupt routine of the controller with this
  configuration, three endpoints besides endpoint 0 on the full speed controller; or time passes.
  A SETUP packet is two interrupts, its data and then the SETUP flag of the endpoint.
\<close>

definition serve :: "(usbep \<Rightarrow> usbepstatus) \<Rightarrow> (usbep \<Rightarrow> usbepstatus) \<Rightarrow> otg_irq \<Rightarrow> sdu_op" where
  "serve st_in st_out q = usb_lld_serve_interrupt (usbcfg st_in st_out) 3 q"

definition bus_step :: "(usbep \<Rightarrow> usbepstatus) \<Rightarrow> (usbep \<Rightarrow> usbepstatus) \<Rightarrow> bus_event \<Rightarrow> sdu_op" where
  "bus_step st_in st_out e w = (let irq = serve st_in st_out in case e of
      BusReset \<Rightarrow> irq (no_irq\<lparr>usbrst := True\<rparr>) w
    | BusSuspend \<Rightarrow> irq (no_irq\<lparr>usbsusp := True\<rparr>) w
    | BusWakeup \<Rightarrow> irq (no_irq\<lparr>wkupint := True\<rparr>) w
    | BusSof \<Rightarrow> irq (no_irq\<lparr>sofint := True\<rparr>) w
    | RxSetup ws \<Rightarrow> bindE (irq (irq_rx SETUP_DATA 0 8 ws) w) (irq (irq_out 0 True False))
    | RxData ep n ws \<Rightarrow> irq (irq_rx OUT_DATA ep n ws) w
    | OutDone ep \<Rightarrow> irq (irq_out ep False True) w
    | TxSpace ep space \<Rightarrow> irq (irq_in ep False (Some space)) w
    | InDone ep \<Rightarrow> irq (irq_in ep True None) w
    | Tick k \<Rightarrow> Inr (w\<lparr>sys_now := sys_now w + k\<rparr>))"

end
