(* ===== verification/SduInv.thy ===== *)
theory SduInv
  imports UsbEp0 Usbcfg
begin

text \<open>
  The invariant of the serial over USB driver with its two queues and its endpoint, and that every
  callback of the USB driver keeps it. \<open>sdu_ok\<close> ties the state of endpoint 1 to the queues: a
  receive transaction under way fills the next free buffer of the input queue, a transmit
  transaction under way sends the oldest full buffer of the output queue.
\<close>

text \<open>Endpoint 1 stays \<open>1\<close>.\<close>

declare One_nat_def [simp del]

section \<open>Views\<close>

lemma views [simp]:
  "ib_close (ib_view w) = w" "ob_close (ob_view w) = w"
  "bq (ib_view w) = ibqueue w" "bq (ob_view w) = obqueue w" "ram (ib_view w) = umem w" "ram (ob_view w) = umem w"
  "self (ib_view w) = running w" "self (ob_view w) = running w" "naps (ib_view w) = sleeps w" "naps (ob_view w) = sleeps w"
  "pre (ib_view w) = switches w" "pre (ob_view w) = switches w" "readied (ib_view w) = ready w" "readied (ob_view w) = ready w"
  "now (ib_view w) = sys_now w" "now (ob_view w) = sys_now w" "dev (ib_view w) = w" "dev (ob_view w) = w"
  by (simp_all add: ib_view_def ib_close_def ob_view_def ob_close_def)

lemma ib_close_fields [simp]:
  "ibqueue (ib_close s) = bq s" "obqueue (ib_close s) = obqueue (dev s)" "umem (ib_close s) = ram s"
  "running (ib_close s) = self s" "sleeps (ib_close s) = naps s" "switches (ib_close s) = pre s"
  "ready (ib_close s) = readied s" "sys_now (ib_close s) = now s"
  "sdu_config (ib_close s) = sdu_config (dev s)" "sdu_state (ib_close s) = sdu_state (dev s)"
  "linecoding_at (ib_close s) = linecoding_at (dev s)" "ib (ib_close s) = ib (dev s)" "ob (ib_close s) = ob (dev s)"
  "receiving (ib_close s) = receiving (dev s)" "transmitting (ib_close s) = transmitting (dev s)"
  "epc (ib_close s) = epc (dev s)" "ep_in (ib_close s) = ep_in (dev s)" "ep_out (ib_close s) = ep_out (dev s)"
  "usb_state (ib_close s) = usb_state (dev s)" "in_params (ib_close s) = in_params (dev s)"
  "out_params (ib_close s) = out_params (dev s)" "fifo_out (ib_close s) = fifo_out (dev s)"
  "fifo_in (ib_close s) = fifo_in (dev s)" "saved_state (ib_close s) = saved_state (dev s)"
  by (simp_all add: ib_close_def)

lemma ob_close_fields [simp]:
  "obqueue (ob_close s) = bq s" "ibqueue (ob_close s) = ibqueue (dev s)" "umem (ob_close s) = ram s"
  "running (ob_close s) = self s" "sleeps (ob_close s) = naps s" "switches (ob_close s) = pre s"
  "ready (ob_close s) = readied s" "sys_now (ob_close s) = now s"
  "sdu_config (ob_close s) = sdu_config (dev s)" "sdu_state (ob_close s) = sdu_state (dev s)"
  "linecoding_at (ob_close s) = linecoding_at (dev s)" "ib (ob_close s) = ib (dev s)" "ob (ob_close s) = ob (dev s)"
  "receiving (ob_close s) = receiving (dev s)" "transmitting (ob_close s) = transmitting (dev s)"
  "epc (ob_close s) = epc (dev s)" "ep_in (ob_close s) = ep_in (dev s)" "ep_out (ob_close s) = ep_out (dev s)"
  "usb_state (ob_close s) = usb_state (dev s)" "in_params (ob_close s) = in_params (dev s)"
  "out_params (ob_close s) = out_params (dev s)" "fifo_out (ob_close s) = fifo_out (dev s)"
  "fifo_in (ob_close s) = fifo_in (dev s)" "saved_state (ob_close s) = saved_state (dev s)"
  by (simp_all add: ob_close_def)

lemma chnAddFlagsI_fields [simp]:
  "\<exists>ls ts. chnAddFlagsI f w = w\<lparr>listeners := ls, ethreads := ts\<rparr>"
  by (auto simp: chnAddFlagsI_def split: prod.splits)

section \<open>Invariant\<close>

definition rx1_ok :: "SerialUSB \<Rightarrow> bool" where
  "rx1_ok w \<longleftrightarrow> epc w 1 = Some ep1config \<and> \<not> ibqIsFullI (ibqueue w) \<and> rxsize (ep_out w 1) = 256 \<and>
     rxcnt (ep_out w 1) \<le> 256 \<and> rxbuf (ep_out w 1) = Ram (bwrptr (ibqueue w) + 4 + rxcnt (ep_out w 1))"

definition tx1_ok :: "SerialUSB \<Rightarrow> bool" where
  "tx1_ok w \<longleftrightarrow> epc w 1 = Some ep1config \<and> tx_totsize (ep_in w 1) = txsize (ep_in w 1) \<and>
     txcnt (ep_in w 1) \<le> txsize (ep_in w 1) \<and>
     (0 < txsize (ep_in w 1) \<longrightarrow> \<not> obqIsEmptyI (obqueue w) \<and>
        txsize (ep_in w 1) = load_size (umem w) (brdptr (obqueue w)) \<and>
        txbuf (ep_in w 1) = Ram (brdptr (obqueue w) + 4 + txcnt (ep_in w 1)))"

text \<open>
  Where the buffers lie: two arrays of two slots of 256 bytes and a size field, and the seven bytes
  of the line coding at \<open>lc\<close>, all apart.
\<close>

definition layout :: "nat \<Rightarrow> SerialUSB \<Rightarrow> bool" where
  "layout lc w \<longleftrightarrow> linecoding_at w = lc \<and>
     buffers (ibqueue w) = ib w \<and> btop (ibqueue w) = ib w + 520 \<and> bsize (ibqueue w) = 260 \<and>
     buffers (obqueue w) = ob w \<and> btop (obqueue w) = ob w + 520 \<and> bsize (obqueue w) = 260 \<and>
     (ib w + 520 \<le> ob w \<or> ob w + 520 \<le> ib w) \<and> (lc + 7 \<le> ib w \<or> ib w + 520 \<le> lc) \<and>
     (lc + 7 \<le> ob w \<or> ob w + 520 \<le> lc)"

definition sdu_ok :: "nat \<Rightarrow> SerialUSB \<Rightarrow> bool" where
  "sdu_ok lc w \<longleftrightarrow> sdu_config w = Some serusbcfg \<and> sdu_state w = SDU_READY \<and> layout lc w \<and>
     in_params w 0 \<and> out_params w 0 \<and> (eff_state w = USB_ACTIVE \<longrightarrow> epc w 1 = Some ep1config) \<and>
     ibq_inv (ib_view w) \<and> obq_inv (ob_view w) \<and>
     (bit (receiving w) 1 \<longrightarrow> rx1_ok w) \<and> (bit (transmitting w) 1 \<longrightarrow> tx1_ok w) \<and>
     (\<forall>i \<ge> 2. \<not> bit (receiving w) i \<and> \<not> bit (transmitting w) i)"

lemma sdu_okD:
  assumes "sdu_ok lc w"
  shows "layout lc w" "ibq_inv (ib_view w)" "obq_inv (ob_view w)" "bit (receiving w) 1 \<Longrightarrow> rx1_ok w" "bit (transmitting w) 1 \<Longrightarrow> tx1_ok w"
  using assms by (simp_all add: sdu_ok_def)

lemma serusb_simps [simp]: "bulk_in serusbcfg = 1" "bulk_out serusbcfg = 1" "int_in serusbcfg = 2"
  by (simp_all add: serusbcfg_def ep_defs)

lemma ep1config_simps [simp]:
  "in_state ep1config" "out_state ep1config" "in_maxsize ep1config = 64" "out_maxsize ep1config = 64"
  "in_cb ep1config = Some fn_sduDataTransmitted" "out_cb ep1config = Some fn_sduDataReceived"
  by (simp_all add: ep1config_def)

text \<open>The queue invariants see the queue and the memory of its buffers only.\<close>

lemma obq_inv_cong:
  assumes "bq s' = bq s" "\<And>x. buffers (bq s) \<le> x \<Longrightarrow> x < btop (bq s) \<Longrightarrow> ram s' x = ram s x" "obq_inv s"
  shows "obq_inv s'" "obq_stream s' = obq_stream s"
proof -
  have r: "ring (bq s) (obq_full (bq s))" "bufs_ok (ram s) (bq s) (obq_full (bq s))"
    using assms(3) by (simp_all add: obq_inv_def obq_ring_def)
  have ag: "agree (ram s) (ram s') (bq s) (obq_full (bq s))"
    using r(1) assms(2) slot_bounds [OF r(1)] unfolding agree_def by (metis add.commute le_trans less_le_trans)
  note ab = agree_bufs [OF r(1) ag r(2)]
  show "obq_inv s'" using assms(1,3) ab by (auto simp: obq_inv_def obq_ring_def split: option.splits)
  have "load_bytes (ram s') (bwrptr (bq s) + 4) (p - (bwrptr (bq s) + 4)) =
      load_bytes (ram s) (bwrptr (bq s) + 4) (p - (bwrptr (bq s) + 4))" if "ptr (bq s) = Some p" for p
  proof (rule load_bytes_cong)
    fix x assume x: "bwrptr (bq s) + 4 \<le> x" "x < bwrptr (bq s) + 4 + (p - (bwrptr (bq s) + 4))"
    have "0 < bcounter (bq s)" "obq_ring s" "p < bwrptr (bq s) + bsize (bq s)"
      using assms(3) that by (auto simp: obq_inv_def)
    with obq_free [of s] x show "ram s' x = ram s x" by (intro assms(2)) auto
  qed
  then show "obq_stream s' = obq_stream s"
    using assms(1) ab by (auto simp: obq_stream_def obq_posted_def obq_partial_def split: option.splits)
qed

lemma ibq_inv_cong:
  assumes "bq s' = bq s" "\<And>x. buffers (bq s) \<le> x \<Longrightarrow> x < btop (bq s) \<Longrightarrow> ram s' x = ram s x" "ibq_inv s"
  shows "ibq_inv s'" "ibq_stream s' = ibq_stream s"
proof -
  have r: "ring (bq s) (bcounter (bq s))" "bufs_ok (ram s) (bq s) (bcounter (bq s))"
    using assms(3) by (simp_all add: ibq_inv_def)
  have ag: "agree (ram s) (ram s') (bq s) (bcounter (bq s))"
    using r(1) assms(2) slot_bounds [OF r(1)] unfolding agree_def by (metis add.commute le_trans less_le_trans)
  note ab = agree_bufs [OF r(1) ag r(2)]
  have same: "ram s' x = ram s x" if "brdptr (bq s) \<le> x" "x < brdptr (bq s) + bsize (bq s)" "0 < bcounter (bq s)" for x
    using that ibq_cur(4,5) [OF assms(3) that(3)] by (intro assms(2)) auto
  have cs: "cur_size s' = cur_size s" if "0 < bcounter (bq s)"
    unfolding cur_size_def assms(1) using same that ibq_cur(6) [OF assms(3) that] by (intro load_size_cong) auto
  show "ibq_inv s'" using assms(1,3) ab cs by (auto simp: ibq_inv_def split: option.splits)
  have "load_bytes (ram s') p (brdptr (bq s) + 4 + cur_size s' - p) =
      load_bytes (ram s) p (brdptr (bq s) + 4 + cur_size s - p)" if p: "ptr (bq s) = Some p" for p
  proof -
    have c: "0 < bcounter (bq s)" "brdptr (bq s) + 4 \<le> p" "p < brdptr (bq s) + 4 + cur_size s"
      using assms(3) p by (simp_all add: ibq_inv_def)
    show ?thesis unfolding cs [OF c(1)]
      using c same ibq_cur(3,6) [OF assms(3) c(1)] by (intro load_bytes_cong) auto
  qed
  then show "ibq_stream s' = ibq_stream s"
    using assms(1) ab by (auto simp: ibq_stream_def Let_def split: option.splits)
qed

section \<open>Steps of the driver while connected\<close>

definition rx_log :: "SerialUSB \<Rightarrow> byte list" where
  "rx_log w = (let r = sent_on 1 (fifo_in w) in
     if bit (receiving w) 1 then take (length r - rxcnt (ep_out w 1)) r else r)"

definition tx_log :: "SerialUSB \<Rightarrow> byte list" where
  "tx_log w = (let t = sent_on 1 (fifo_out w) in
     if bit (transmitting w) 1 then take (length t - txcnt (ep_in w 1)) t else t)"

text \<open>The bytes of the transaction under way are the end of the log and lie in its buffer.\<close>

definition rx_tail :: "SerialUSB \<Rightarrow> bool" where
  "rx_tail w \<longleftrightarrow> (bit (receiving w) 1 \<longrightarrow> rxcnt (ep_out w 1) \<le> length (sent_on 1 (fifo_in w)) \<and>
     drop (length (sent_on 1 (fifo_in w)) - rxcnt (ep_out w 1)) (sent_on 1 (fifo_in w)) =
       load_bytes (umem w) (bwrptr (ibqueue w) + 4) (rxcnt (ep_out w 1)))"

definition tx_tail :: "SerialUSB \<Rightarrow> bool" where
  "tx_tail w \<longleftrightarrow> (bit (transmitting w) 1 \<longrightarrow> txcnt (ep_in w 1) \<le> length (sent_on 1 (fifo_out w)) \<and>
     drop (length (sent_on 1 (fifo_out w)) - txcnt (ep_in w 1)) (sent_on 1 (fifo_out w)) =
       load_bytes (umem w) (brdptr (obqueue w) + 4) (txcnt (ep_in w 1)))"

text \<open>A thread that left a queue was made ready.\<close>

definition left_ok :: "tid list \<Rightarrow> tid list \<Rightarrow> (tid \<times> msg) list \<Rightarrow> bool" where
  "left_ok ws ws' r \<longleftrightarrow> (\<forall>t. t \<in> set ws \<and> t \<notin> set ws' \<longrightarrow> map_of (rev r) t \<noteq> None)"

definition outside :: "SerialUSB \<Rightarrow> nat \<Rightarrow> bool" where
  "outside w x \<longleftrightarrow> (x < ib w \<or> ib w + 520 \<le> x) \<and> (x < ob w \<or> ob w + 520 \<le> x)"

text \<open>
  A step that appends \<open>d\<close> to the input stream and takes \<open>u\<close> from the output stream: what the
  logs say the host sent and received, while the device stays configured.
\<close>

definition sess :: "nat \<Rightarrow> SerialUSB \<Rightarrow> byte list \<Rightarrow> byte list \<Rightarrow> SerialUSB \<Rightarrow> bool" where
  "sess lc w d u w' \<longleftrightarrow> sdu_ok lc w' \<and> ib w' = ib w \<and> ob w' = ob w \<and> running w' = running w \<and>
     sleeps w' = sleeps w \<and> switches w' = switches w \<and>
     ibq_stream (ib_view w') = ibq_stream (ib_view w) @ d \<and> ptr (ibqueue w') = ptr (ibqueue w) \<and>
     obq_stream (ob_view w) = u @ obq_stream (ob_view w') \<and> (ptr (obqueue w) = None \<longrightarrow> ptr (obqueue w') = None) \<and>
     (\<exists>xs. ready w' = ready w @ xs) \<and> left_ok (waiting (ibqueue w)) (waiting (ibqueue w')) (ready w') \<and>
     left_ok (waiting (obqueue w)) (waiting (obqueue w')) (ready w') \<and>
     (\<forall>x. outside w x \<longrightarrow> umem w' x = umem w x) \<and>
     (rx_tail w \<longrightarrow> rx_tail w' \<and> rx_log w' = rx_log w @ d) \<and> (tx_tail w \<longrightarrow> tx_tail w' \<and> tx_log w' = tx_log w @ u)"

lemma left_ok_trans:
  assumes "left_ok a b r" "left_ok b c r'" "r' = r @ xs"
  shows "left_ok a c r'"
  unfolding left_ok_def
proof (intro allI impI)
  fix t assume t: "t \<in> set a \<and> t \<notin> set c"
  have keep: "map_of (rev r) t \<noteq> None \<Longrightarrow> map_of (rev r') t \<noteq> None"
    unfolding assms(3) by (simp add: map_add_def split: option.splits)
  show "map_of (rev r') t \<noteq> None"
    using t assms(1,2) keep unfolding left_ok_def by blast
qed

lemma left_ok_refl [simp]: "left_ok a a r"
  by (simp add: left_ok_def)

lemma sess_refl: "sdu_ok lc w \<Longrightarrow> sess lc w [] [] w"
  by (simp add: sess_def)

lemma sess_trans:
  assumes a: "sess lc w d u w1" and b: "sess lc w1 e v w2"
  shows "sess lc w (d @ e) (u @ v) w2"
proof -
  have "outside w x \<Longrightarrow> umem w2 x = umem w x" for x using a b by (simp add: sess_def outside_def)
  moreover obtain xs ys where r: "ready w1 = ready w @ xs" "ready w2 = ready w1 @ ys"
    using a b by (auto simp: sess_def)
  moreover have "left_ok (waiting (ibqueue w)) (waiting (ibqueue w2)) (ready w2)"
    "left_ok (waiting (obqueue w)) (waiting (obqueue w2)) (ready w2)"
    using left_ok_trans [OF _ _ r(2)] a b by (auto simp: sess_def)
  moreover have "\<exists>zs. ready w2 = ready w @ zs" using r by simp
  ultimately show ?thesis using a b by (auto simp: sess_def)
qed

section \<open>Steps of the USB driver alone\<close>

definition same_sdu :: "SerialUSB \<Rightarrow> SerialUSB \<Rightarrow> bool" where
  "same_sdu w w' \<longleftrightarrow> USBDriver.more w' = USBDriver.more w \<and> umem w' = umem w \<and> in_params w' = in_params w \<and>
     out_params w' = out_params w"

lemma more_fields:
  assumes "USBDriver.more w' = USBDriver.more w"
  shows "sdu_state w' = sdu_state w" "ibqueue w' = ibqueue w" "obqueue w' = obqueue w" "ib w' = ib w" "ob w' = ob w"
    "linecoding_at w' = linecoding_at w" "sdu_config w' = sdu_config w" "sys_now w' = sys_now w"
    "running w' = running w" "ready w' = ready w" "sleeps w' = sleeps w" "switches w' = switches w"
  using assms by (cases w; cases w'; simp)+

lemma same_sdu_queues:
  assumes "same_sdu w w'"
  shows "ibq_inv (ib_view w') = ibq_inv (ib_view w)" "ibq_stream (ib_view w') = ibq_stream (ib_view w)"
    "obq_inv (ob_view w') = obq_inv (ob_view w)" "obq_stream (ob_view w') = obq_stream (ob_view w)"
proof -
  have e: "ibqueue w' = ibqueue w" "obqueue w' = obqueue w" "umem w' = umem w"
    using assms more_fields [of w' w] by (simp_all add: same_sdu_def)
  then have "bq (ib_view w') = (bq (ib_view w))\<lparr>waiting := waiting (ibqueue w)\<rparr>" "ram (ib_view w') = ram (ib_view w)"
    "bq (ob_view w') = (bq (ob_view w))\<lparr>waiting := waiting (obqueue w)\<rparr>" "ram (ob_view w') = ram (ob_view w)"
    by simp_all
  then show "ibq_inv (ib_view w') = ibq_inv (ib_view w)" "ibq_stream (ib_view w') = ibq_stream (ib_view w)"
    "obq_inv (ob_view w') = obq_inv (ob_view w)" "obq_stream (ob_view w') = obq_stream (ob_view w)"
    using ibq_cong obq_cong by blast+
qed

lemma sdu_ok_usb:
  assumes "sdu_ok lc w" "same_sdu w w'" "eff_state w' = USB_ACTIVE \<Longrightarrow> epc w' 1 = Some ep1config"
    "bit (receiving w') 1 \<Longrightarrow> rx1_ok w'" "bit (transmitting w') 1 \<Longrightarrow> tx1_ok w'"
    "\<And>i. 2 \<le> i \<Longrightarrow> \<not> bit (receiving w') i \<and> \<not> bit (transmitting w') i"
  shows "sdu_ok lc w'"
  using assms same_sdu_queues [OF assms(2)] more_fields [of w' w]
  by (auto simp: sdu_ok_def same_sdu_def layout_def)

lemma sess_usb:
  assumes "sdu_ok lc w" "same_sdu w w'" "eff_state w' = USB_ACTIVE \<Longrightarrow> epc w' 1 = Some ep1config"
    "bit (receiving w') 1 \<Longrightarrow> rx1_ok w'" "bit (transmitting w') 1 \<Longrightarrow> tx1_ok w'"
    "\<And>i. 2 \<le> i \<Longrightarrow> \<not> bit (receiving w') i \<and> \<not> bit (transmitting w') i"
    "rx_tail w \<Longrightarrow> rx_tail w' \<and> rx_log w' = rx_log w" "tx_tail w \<Longrightarrow> tx_tail w' \<and> tx_log w' = tx_log w"
  shows "sess lc w [] [] w'"
  using sdu_ok_usb [OF assms(1-6)] same_sdu_queues [OF assms(2)] more_fields [of w' w] assms(2,7,8)
  by (auto simp: sess_def same_sdu_def)

text \<open>Starting a transfer on endpoint 1, written out.\<close>

definition rx_started :: "usbptr \<Rightarrow> SerialUSB \<Rightarrow> SerialUSB" where
  "rx_started p w = call_lld (LldStartOut 1)
    (put_out 1 \<lparr>rxsize = 256, rxcnt = 0, rxbuf = p, rx_totsize = 256\<rparr> (w\<lparr>receiving := receiving w OR ep_bit 1\<rparr>))"

definition tx_started :: "usbptr \<Rightarrow> nat \<Rightarrow> SerialUSB \<Rightarrow> SerialUSB" where
  "tx_started p n w = call_lld (LldStartIn 1)
    (put_in 1 \<lparr>txsize = n, txcnt = 0, txbuf = p, tx_totsize = n\<rparr> (w\<lparr>transmitting := transmitting w OR ep_bit 1\<rparr>))"

lemma start_rx1:
  "epc w 1 = Some ep1config \<Longrightarrow> \<not> bit (receiving w) 1 \<Longrightarrow> usbStartReceiveI 1 p 256 w = Inr (rx_started p w)"
  using usbStartReceiveI_ok [of w 1 ep1config p 256] by (simp add: rx_started_def tx_limit_def USB_MAX_ENDPOINTS_def)

lemma start_tx1:
  "epc w 1 = Some ep1config \<Longrightarrow> \<not> bit (transmitting w) 1 \<Longrightarrow> usbStartTransmitI 1 p n w = Inr (tx_started p n w)"
  using usbStartTransmitI_ok [of w 1 ep1config p n] by (simp add: tx_started_def tx_limit_def USB_MAX_ENDPOINTS_def)

lemma started_fields [simp]:
  "same_sdu w (rx_started p w)" "same_sdu w (tx_started p n w)"
  "epc (rx_started p w) = epc w" "epc (tx_started p n w) = epc w"
  "receiving (rx_started p w) = receiving w OR ep_bit 1" "receiving (tx_started p n w) = receiving w"
  "transmitting (rx_started p w) = transmitting w" "transmitting (tx_started p n w) = transmitting w OR ep_bit 1"
  "ep_in (rx_started p w) = ep_in w" "ep_out (tx_started p n w) = ep_out w"
  "ep_out (rx_started p w) 1 = \<lparr>rxsize = 256, rxcnt = 0, rxbuf = p, rx_totsize = 256\<rparr>"
  "ep_in (tx_started p n w) 1 = \<lparr>txsize = n, txcnt = 0, txbuf = p, tx_totsize = n\<rparr>"
  "eff_state (rx_started p w) = eff_state w" "eff_state (tx_started p n w) = eff_state w"
  "fifo_in (rx_started p w) = fifo_in w" "fifo_in (tx_started p n w) = fifo_in w"
  "fifo_out (rx_started p w) = fifo_out w" "fifo_out (tx_started p n w) = fifo_out w"
  "ibqueue (rx_started p w) = ibqueue w" "ibqueue (tx_started p n w) = ibqueue w"
  "obqueue (rx_started p w) = obqueue w" "obqueue (tx_started p n w) = obqueue w"
  "umem (rx_started p w) = umem w" "umem (tx_started p n w) = umem w"
  by (simp_all add: rx_started_def tx_started_def same_sdu_def put_out_def put_in_def call_lld_def eff_state_def)

lemma rx_started_sess:
  assumes "sdu_ok lc w" "\<not> bit (receiving w) 1" "epc w 1 = Some ep1config" "\<not> ibqIsFullI (ibqueue w)"
  shows "sess lc w [] [] (rx_started (Ram (bwrptr (ibqueue w) + 4)) w)"
  using assms
  by (intro sess_usb) (auto simp: sdu_ok_def rx1_ok_def tx1_ok_def rx_tail_def tx_tail_def rx_log_def tx_log_def Let_def ep_bits)

lemma tx_started_sess:
  assumes "sdu_ok lc w" "\<not> bit (transmitting w) 1" "epc w 1 = Some ep1config"
    "0 < n \<Longrightarrow> \<not> obqIsEmptyI (obqueue w) \<and> p = Ram (brdptr (obqueue w) + 4) \<and> n = load_size (umem w) (brdptr (obqueue w))"
  shows "sess lc w [] [] (tx_started p n w)"
  using assms
  by (intro sess_usb) (auto simp: sdu_ok_def rx1_ok_def tx1_ok_def rx_tail_def tx_tail_def rx_log_def tx_log_def Let_def ep_bits)

lemma active_ep1: "sdu_ok lc w \<Longrightarrow> usb_state w = USB_ACTIVE \<Longrightarrow> epc w 1 = Some ep1config"
  by (simp add: sdu_ok_def eff_state_def)

lemma start_receive_ok:
  assumes "sdu_ok lc w"
  shows "\<exists>b w'. sdu_start_receive w = Inr (b, w') \<and> sess lc w [] [] w' \<and>
    (usb_state w = USB_ACTIVE \<longrightarrow> bit (receiving w') 1 \<or> ibqIsFullI (ibqueue w'))"
proof -
  have c: "sdu_config w = Some serusbcfg" "sdu_state w = SDU_READY" using assms by (simp_all add: sdu_ok_def)
  show ?thesis
  proof (cases "usb_state w = USB_ACTIVE \<and> \<not> bit (receiving w) 1 \<and> \<not> ibqIsFullI (ibqueue w)")
    case True
    then show ?thesis
      using c rx_started_sess [OF assms] active_ep1 [OF assms] start_rx1 [of w "Ram (bwrptr (ibqueue w) + 4)"]
      by (auto simp: sdu_start_receive_def receive_bit ibqGetEmptyBufferI_def SERIAL_USB_BUFFERS_SIZE_def ep_bits)
  next
    case False
    then show ?thesis using c sess_refl [OF assms]
      by (auto simp: sdu_start_receive_def receive_bit ibqGetEmptyBufferI_def)
  qed
qed

lemma obnotify_ok:
  assumes "sdu_ok lc w"
  shows "\<exists>w'. obnotify w = Inr w' \<and> sess lc w [] [] w' \<and>
    (usb_state w = USB_ACTIVE \<longrightarrow> bit (transmitting w') 1 \<or> obqIsEmptyI (obqueue w'))"
proof -
  have c: "sdu_config w = Some serusbcfg" "sdu_state w = SDU_READY" using assms by (simp_all add: sdu_ok_def)
  show ?thesis
  proof (cases "usb_state w = USB_ACTIVE \<and> \<not> bit (transmitting w) 1 \<and> \<not> obqIsEmptyI (obqueue w)")
    case True
    then show ?thesis
      using c tx_started_sess [OF assms] active_ep1 [OF assms] start_tx1 [of w "Ram (brdptr (obqueue w) + 4)"]
      by (simp add: obnotify_def transmit_bit obqGetFullBufferI_def ep_bits)
  next
    case False
    then show ?thesis using c sess_refl [OF assms]
      by (auto simp: obnotify_def transmit_bit obqGetFullBufferI_def)
  qed
qed

section \<open>The two directions are independent\<close>

lemma obq_front:
  assumes "obq_inv s" "\<not> obqIsEmptyI (bq s)"
  shows "buffers (bq s) \<le> brdptr (bq s)" "brdptr (bq s) + bsize (bq s) \<le> btop (bq s)"
    "0 < load_size (ram s) (brdptr (bq s))" "load_size (ram s) (brdptr (bq s)) \<le> bsize (bq s) - 4"
    "bcounter (bq s) < bn (bq s)" "6 \<le> bsize (bq s)"
proof -
  let ?q = "bq s"
  have r: "ring ?q (obq_full ?q)" "bufs_ok (ram s) ?q (obq_full ?q)" "bcounter ?q \<le> bn ?q"
    using assms(1) by (simp_all add: obq_inv_def obq_ring_def)
  show c: "bcounter ?q < bn ?q" using assms r(3) obqIsEmptyI_iff [of s] by (auto simp: obq_inv_def)
  have sl: "slot ?q (ridx ?q) = brdptr ?q" and "6 \<le> bsize ?q" using r(1) by (simp_all add: ring_def)
  then show "6 \<le> bsize ?q" "buffers ?q \<le> brdptr ?q" "brdptr ?q + bsize ?q \<le> btop ?q"
    using slot_bounds [OF r(1), of "ridx ?q"] by simp_all
  have "0 < obq_full ?q" using c by (simp add: obq_full_def)
  then have "0 < load_size (ram s) (slot ?q (ridx ?q + 0)) \<and> load_size (ram s) (slot ?q (ridx ?q + 0)) \<le> bsize ?q - 4"
    using r(2) unfolding bufs_ok_def by blast
  then show "0 < load_size (ram s) (brdptr ?q)" "load_size (ram s) (brdptr ?q) \<le> bsize ?q - 4" by (simp_all add: sl)
qed

lemma ibq_back:
  assumes "ibq_inv s"
  shows "buffers (bq s) \<le> bwrptr (bq s)" "bwrptr (bq s) + bsize (bq s) \<le> btop (bq s)"
  using slot_bounds [of "bq s" "bcounter (bq s)" "ridx (bq s) + bcounter (bq s)"] assms by (auto simp: ibq_inv_def ring_def)

lemma tx_side_part:
  assumes lay: "layout lc w" and inv: "obq_inv (ob_view w)" and tx: "bit (transmitting w) 1 \<Longrightarrow> tx1_ok w" and q: "obqueue w' = obqueue w" and m: "\<And>x. ob w \<le> x \<Longrightarrow> x < ob w + 520 \<Longrightarrow> umem w' x = umem w x"
    and e: "epc w' 1 = epc w 1" "ep_in w' 1 = ep_in w 1" "transmitting w' = transmitting w" "fifo_out w' = fifo_out w"
  shows "obq_inv (ob_view w')" "obq_stream (ob_view w') = obq_stream (ob_view w)"
    "bit (transmitting w') 1 \<longrightarrow> tx1_ok w'" "tx_tail w \<longrightarrow> tx_tail w' \<and> tx_log w' = tx_log w"
proof -
  have l: "buffers (obqueue w) = ob w" "btop (obqueue w) = ob w + 520" "bsize (obqueue w) = 260" "obq_inv (ob_view w)"
    using lay inv by (simp_all add: layout_def)
  show "obq_inv (ob_view w')" "obq_stream (ob_view w') = obq_stream (ob_view w)"
    using obq_inv_cong [of "ob_view w'" "ob_view w"] q m l by auto
  have front: "load_size (umem w') (brdptr (obqueue w)) = load_size (umem w) (brdptr (obqueue w))"
    "\<And>k. k \<le> 256 \<Longrightarrow> load_bytes (umem w') (brdptr (obqueue w) + 4) k = load_bytes (umem w) (brdptr (obqueue w) + 4) k"
    "load_size (umem w) (brdptr (obqueue w)) \<le> 256"
    if "\<not> obqIsEmptyI (obqueue w)"
  proof -
    have "\<not> obqIsEmptyI (bq (ob_view w))" using that by simp
    note f = obq_front [OF l(4) this]
    show "load_size (umem w) (brdptr (obqueue w)) \<le> 256" using f l by simp
    show "load_size (umem w') (brdptr (obqueue w)) = load_size (umem w) (brdptr (obqueue w))"
      using f l by (intro load_size_cong m) auto
    show "load_bytes (umem w') (brdptr (obqueue w) + 4) k = load_bytes (umem w) (brdptr (obqueue w) + 4) k" if "k \<le> 256" for k
      using that f l by (intro load_bytes_cong m) auto
  qed
  show "bit (transmitting w') 1 \<longrightarrow> tx1_ok w'" using tx q e front(1) by (auto simp: tx1_ok_def)
  have "load_bytes (umem w') (brdptr (obqueue w) + 4) (txcnt (ep_in w 1)) =
      load_bytes (umem w) (brdptr (obqueue w) + 4) (txcnt (ep_in w 1))" if "bit (transmitting w) 1"
  proof (cases "txsize (ep_in w 1) = 0")
    case True
    then show ?thesis using tx [OF that] by (simp add: tx1_ok_def)
  next
    case False
    then show ?thesis using tx [OF that] front by (simp add: tx1_ok_def)
  qed
  then show "tx_tail w \<longrightarrow> tx_tail w' \<and> tx_log w' = tx_log w" using q e by (simp add: tx_tail_def tx_log_def Let_def)
qed

lemma tx_side:
  assumes ok: "sdu_ok lc w" and q: "obqueue w' = obqueue w" and m: "\<And>x. ob w \<le> x \<Longrightarrow> x < ob w + 520 \<Longrightarrow> umem w' x = umem w x"
    and e: "epc w' 1 = epc w 1" "ep_in w' 1 = ep_in w 1" "transmitting w' = transmitting w" "fifo_out w' = fifo_out w"
  shows "obq_inv (ob_view w')" "obq_stream (ob_view w') = obq_stream (ob_view w)"
    "bit (transmitting w') 1 \<longrightarrow> tx1_ok w'" "tx_tail w \<longrightarrow> tx_tail w' \<and> tx_log w' = tx_log w"
  using tx_side_part [OF sdu_okD(1,3) [OF ok] sdu_okD(5) [OF ok] q m e] by blast+

lemma rx_side_part:
  assumes lay: "layout lc w" and inv: "ibq_inv (ib_view w)" and rx: "bit (receiving w) 1 \<Longrightarrow> rx1_ok w" and q: "ibqueue w' = ibqueue w" and m: "\<And>x. ib w \<le> x \<Longrightarrow> x < ib w + 520 \<Longrightarrow> umem w' x = umem w x"
    and e: "epc w' 1 = epc w 1" "ep_out w' 1 = ep_out w 1" "receiving w' = receiving w" "fifo_in w' = fifo_in w"
  shows "ibq_inv (ib_view w')" "ibq_stream (ib_view w') = ibq_stream (ib_view w)"
    "bit (receiving w') 1 \<longrightarrow> rx1_ok w'" "rx_tail w \<longrightarrow> rx_tail w' \<and> rx_log w' = rx_log w"
proof -
  have l: "buffers (ibqueue w) = ib w" "btop (ibqueue w) = ib w + 520" "bsize (ibqueue w) = 260" "ibq_inv (ib_view w)"
    using lay inv by (simp_all add: layout_def)
  show "ibq_inv (ib_view w')" "ibq_stream (ib_view w') = ibq_stream (ib_view w)"
    using ibq_inv_cong [of "ib_view w'" "ib_view w"] q m l by auto
  show "bit (receiving w') 1 \<longrightarrow> rx1_ok w'" using q e rx by (auto simp: rx1_ok_def)
  have "load_bytes (umem w') (bwrptr (ibqueue w) + 4) k = load_bytes (umem w) (bwrptr (ibqueue w) + 4) k" if "k \<le> 256" for k
    using that ibq_back [OF l(4)] l by (intro load_bytes_cong m) auto
  then show "rx_tail w \<longrightarrow> rx_tail w' \<and> rx_log w' = rx_log w" using q e rx by (simp add: rx_tail_def rx_log_def rx1_ok_def Let_def)
qed

lemma rx_side:
  assumes ok: "sdu_ok lc w" and q: "ibqueue w' = ibqueue w" and m: "\<And>x. ib w \<le> x \<Longrightarrow> x < ib w + 520 \<Longrightarrow> umem w' x = umem w x"
    and e: "epc w' 1 = epc w 1" "ep_out w' 1 = ep_out w 1" "receiving w' = receiving w" "fifo_in w' = fifo_in w"
  shows "ibq_inv (ib_view w')" "ibq_stream (ib_view w') = ibq_stream (ib_view w)"
    "bit (receiving w') 1 \<longrightarrow> rx1_ok w'" "rx_tail w \<longrightarrow> rx_tail w' \<and> rx_log w' = rx_log w"
  using rx_side_part [OF sdu_okD(1,2) [OF ok] sdu_okD(4) [OF ok] q m e] by blast+

section \<open>Receiving\<close>

text \<open>A data packet that fits the transaction goes to the free buffer.\<close>

lemma rx_data_ok:
  assumes ok: "sdu_ok lc w" and r: "bit (receiving w) 1" and n: "n \<le> 4 * length ws" "rxcnt (ep_out w 1) + n \<le> 256"
  shows "\<exists>w'. otg_rxfifo_handler OUT_DATA 1 n ws w = Inr w' \<and> sess lc w [] [] w'"
proof -
  let ?o = "ep_out w 1" and ?q = "ibqueue w"
  define a where "a = bwrptr ?q + 4 + rxcnt ?o"
  define bs where "bs = packet_bytes n ws"
  define w' where "w' = put_out 1 (?o\<lparr>rxbuf := Ram (a + n), rxcnt := rxcnt ?o + n\<rparr>)
      (w\<lparr>umem := store_bytes (umem w) a bs, fifo_in := fifo_in w @ [(1, n, ws)]\<rparr>)"
  have rx: "epc w 1 = Some ep1config" "\<not> ibqIsFullI ?q" "rxsize ?o = 256" "rxbuf ?o = Ram a"
    using ok r by (simp_all add: sdu_ok_def rx1_ok_def a_def)
  have len: "length bs = n" using n by (simp add: bs_def length_packet_bytes)
  have step: "otg_rxfifo_handler OUT_DATA 1 n ws w = Inr w'"
    using otg_rxfifo_out_ok [of w 1 ep1config n ws a] rx n len by (simp add: w'_def bs_def)
  have f: "ibqueue w' = ?q" "obqueue w' = obqueue w" "umem w' = store_bytes (umem w) a bs" "ib w' = ib w" "ob w' = ob w"
    "epc w' = epc w" "ep_in w' = ep_in w" "transmitting w' = transmitting w" "fifo_out w' = fifo_out w"
    "receiving w' = receiving w" "fifo_in w' = fifo_in w @ [(1, n, ws)]" "ready w' = ready w" "running w' = running w"
    "sleeps w' = sleeps w" "switches w' = switches w" "eff_state w' = eff_state w" "sdu_config w' = sdu_config w"
    "sdu_state w' = sdu_state w" "in_params w' = in_params w" "out_params w' = out_params w" "linecoding_at w' = linecoding_at w"
    "ep_out w' 1 = ?o\<lparr>rxbuf := Ram (a + n), rxcnt := rxcnt ?o + n\<rparr>"
    by (simp_all add: w'_def put_out_def eff_state_def)
  have l: "layout lc w" "bsize ?q = 260" "buffers ?q = ib w" "btop ?q = ib w + 520" "ibq_inv (ib_view w)"
    "ib w + 520 \<le> ob w \<or> ob w + 520 \<le> ib w"
    using ok by (simp_all add: sdu_ok_def layout_def)
  have bd: "ib w \<le> bwrptr ?q" "bwrptr ?q + 260 \<le> ib w + 520" using ibq_back [OF l(5)] l by simp_all
  have mem: "umem w' x = umem w x" if "x < bwrptr ?q \<or> bwrptr ?q + 260 \<le> x" for x
    using that len n by (auto simp: f a_def intro!: store_bytes_frame)
  have q: "ibq_inv (ib_view w')" "ibq_stream (ib_view w') = ibq_stream (ib_view w)"
    using ibq_free_slot [OF l(5), of "umem w'"] rx(2) mem l(2) ibq_inv_cong [of "ib_view w'" "(ib_view w)\<lparr>ram := umem w'\<rparr>"] f
    by auto
  have "umem w' x = umem w x" if "ob w \<le> x" "x < ob w + 520" for x using that l(6) bd by (intro mem) auto
  note t = tx_side [OF ok f(2) this, simplified f, simplified]
  have tail: "rx_tail w' \<and> rx_log w' = rx_log w" if "rx_tail w"
  proof -
    let ?L = "sent_on 1 (fifo_in w)" and ?c = "rxcnt ?o"
    have h: "?c \<le> length ?L" "drop (length ?L - ?c) ?L = load_bytes (umem w) (bwrptr ?q + 4) ?c"
      using that r by (simp_all add: rx_tail_def)
    have "load_bytes (umem w') (bwrptr ?q + 4) (?c + n) = load_bytes (umem w) (bwrptr ?q + 4) ?c @ bs"
      using load_bytes_split [of ?c "?c + n" "umem w'" "bwrptr ?q + 4"] len
        load_bytes_cong [of "bwrptr ?q + 4" ?c "umem w'" "umem w"]
      by (simp add: f a_def store_bytes_frame)
    then show ?thesis using h len r by (simp add: rx_tail_def rx_log_def f bs_def [symmetric] Let_def)
  qed
  have "sdu_ok lc w'" using ok l(1) q t rx n by (auto simp: sdu_ok_def f layout_def rx1_ok_def a_def)
  then have "sess lc w [] [] w'" using q t tail bd mem by (auto simp: sess_def f outside_def)
  then show ?thesis using step by blast
qed

text \<open>Adding event flags changes the listeners and the event masks of threads only.\<close>

lemma flags_fields [simp]:
  "ibqueue (chnAddFlagsI f w) = ibqueue w"
  "obqueue (chnAddFlagsI f w) = obqueue w" "umem (chnAddFlagsI f w) = umem w" "ready (chnAddFlagsI f w) = ready w"
  "running (chnAddFlagsI f w) = running w" "sleeps (chnAddFlagsI f w) = sleeps w" "switches (chnAddFlagsI f w) = switches w"
  "sys_now (chnAddFlagsI f w) = sys_now w" "ib (chnAddFlagsI f w) = ib w" "ob (chnAddFlagsI f w) = ob w"
  "linecoding_at (chnAddFlagsI f w) = linecoding_at w" "sdu_config (chnAddFlagsI f w) = sdu_config w"
  "sdu_state (chnAddFlagsI f w) = sdu_state w" "receiving (chnAddFlagsI f w) = receiving w"
  "transmitting (chnAddFlagsI f w) = transmitting w" "epc (chnAddFlagsI f w) = epc w" "ep_in (chnAddFlagsI f w) = ep_in w"
  "ep_out (chnAddFlagsI f w) = ep_out w" "eff_state (chnAddFlagsI f w) = eff_state w" "usb_state (chnAddFlagsI f w) = usb_state w"
  "in_params (chnAddFlagsI f w) = in_params w" "out_params (chnAddFlagsI f w) = out_params w"
  "fifo_in (chnAddFlagsI f w) = fifo_in w" "fifo_out (chnAddFlagsI f w) = fifo_out w"
  "saved_state (chnAddFlagsI f w) = saved_state w"
  "USBDriver.truncate (chnAddFlagsI f w) = USBDriver.truncate w"
  by (auto simp: chnAddFlagsI_def eff_state_def USBDriver.defs split: prod.splits)

text \<open>Everything a step of the input side leaves alone.\<close>

definition rest_same :: "SerialUSB \<Rightarrow> SerialUSB \<Rightarrow> bool" where
  "rest_same w w' \<longleftrightarrow> sdu_config w' = sdu_config w \<and> sdu_state w' = sdu_state w \<and> linecoding_at w' = linecoding_at w \<and>
     ib w' = ib w \<and> ob w' = ob w \<and> in_params w' = in_params w \<and> out_params w' = out_params w \<and>
     eff_state w' = eff_state w \<and> epc w' = epc w \<and> running w' = running w \<and> sleeps w' = sleeps w \<and> switches w' = switches w"

text \<open>The state after the receive callback has posted the buffer, before it starts the next transaction.\<close>

lemma rx_post_ok:
  assumes ok: "sdu_ok lc w" and r: "bit (receiving w) 1" and c: "0 < rxcnt (ep_out w 1)"
    and w1: "w1 = chnAddFlagsI f (w\<lparr>receiving := receiving w AND NOT (ep_bit 1)\<rparr>)"
  shows "\<exists>s. ibqPostFullBufferI (rxcnt (ep_out w 1)) (ib_view w1) = Inr s \<and>
    sess lc w (load_bytes (umem w) (bwrptr (ibqueue w) + 4) (rxcnt (ep_out w 1))) [] (ib_close s) \<and>
    usb_state (ib_close s) = usb_state w"
proof -
  let ?q = "ibqueue w" and ?c = "rxcnt (ep_out w 1)" and ?v = "ib_view w1"
  have rx: "\<not> ibqIsFullI ?q" "?c \<le> 256" using ok r by (simp_all add: sdu_ok_def rx1_ok_def)
  have l: "bsize ?q = 260" "buffers ?q = ib w" "btop ?q = ib w + 520" "ibq_inv (ib_view w)" "layout lc w"
    "ib w + 520 \<le> ob w \<or> ob w + 520 \<le> ib w"
    using ok by (simp_all add: sdu_ok_def layout_def)
  have v: "bq ?v = ?q" "ram ?v = umem w" "ibq_inv ?v" "ibq_stream ?v = ibq_stream (ib_view w)"
    using ibq_inv_cong [of ?v "ib_view w"] l by (simp_all add: w1)
  let ?s = "?v\<lparr>ram := store_size (umem w) (bwrptr ?q) ?c,
      bq := ?q\<lparr>bcounter := bcounter ?q + 1, bwrptr := bump ?q (bwrptr ?q)\<rparr>\<rparr>"
  define s where "s = chThdDequeueNextI MSG_OK ?s"
  have post: "ibqPostFullBufferI ?c ?v = Inr s" using rx c l v by (simp add: ibqPostFullBufferI_def s_def)
  obtain t where t: "ibqPostFullBufferI ?c ?v = Inr t" "ibq_inv t"
      "ibq_stream t = ibq_stream ?v @ load_bytes (ram ?v) (bwrptr (bq ?v) + 4) ?c"
    using ibqPostFullBufferI_ok [of ?v ?c] v rx c l by auto
  then have st: "ibq_inv s" "ibq_stream s = ibq_stream (ib_view w) @ load_bytes (umem w) (bwrptr ?q + 4) ?c"
    using post v by auto
  define w2 where "w2 = ib_close s"
  obtain ws where ws: "bq s = (?q\<lparr>bcounter := bcounter ?q + 1, bwrptr := bump ?q (bwrptr ?q)\<rparr>)\<lparr>waiting := ws\<rparr>"
    using dequeue_next(7) [of MSG_OK ?s] by (auto simp: s_def)
  have rd: "\<exists>xs. readied s = ready w @ xs" "left_ok (waiting ?q) (waiting (bq s)) (readied s)"
    by (auto simp: s_def chThdDequeueNextI_def left_ok_def w1 split: list.splits)
  have f: "ibqueue w2 = bq s" "obqueue w2 = obqueue w" "umem w2 = store_size (umem w) (bwrptr ?q) ?c" "ready w2 = readied s"
    "rest_same w w2" "ep_in w2 = ep_in w" "ep_out w2 = ep_out w" "transmitting w2 = transmitting w" "fifo_out w2 = fifo_out w"
    "receiving w2 = receiving w AND NOT (ep_bit 1)" "fifo_in w2 = fifo_in w" "usb_state w2 = usb_state w" "epc w2 = epc w"
    by (simp_all add: w2_def s_def w1 rest_same_def eff_state_def)
  have bd: "ib w \<le> bwrptr ?q" "bwrptr ?q + 260 \<le> ib w + 520" using ibq_back [OF l(4)] l by simp_all
  have mem: "umem w2 x = umem w x" if "x < bwrptr ?q \<or> bwrptr ?q + 260 \<le> x" for x
    using that by (auto simp: f intro!: store_size_frame)
  have "umem w2 x = umem w x" if "ob w \<le> x" "x < ob w + 520" for x using that l(6) bd by (intro mem) auto
  note tx = tx_side [OF ok f(2) this, simplified f, simplified]
  have q: "ibq_inv (ib_view w2)" "ibq_stream (ib_view w2) = ibq_stream s"
    using ibq_inv_cong [of "ib_view w2" s] st by (auto simp: w2_def)
  have log: "rx_log w2 = rx_log w @ load_bytes (umem w) (bwrptr ?q + 4) ?c" if "rx_tail w"
    using that r by (simp add: rx_tail_def rx_log_def f ep_bits Let_def) (metis append_take_drop_id)
  have "sdu_ok lc w2"
    using ok l(5) q tx ws f(5) by (auto simp: sdu_ok_def f layout_def ep_bits rest_same_def)
  then have "sess lc w (load_bytes (umem w) (bwrptr ?q + 4) ?c) [] w2"
    using q tx st rd log bd mem f(5) ws by (auto simp: sess_def f outside_def rx_tail_def ep_bits rest_same_def)
  then show ?thesis using post f(12) by (auto simp: w2_def)
qed

text \<open>The completion of a receive transaction.\<close>

lemma ep1_out_cb:
  "epc w 1 = Some ep1config \<Longrightarrow> otg_epout_handler (usbcfg a b) False True 1 w =
    sduDataReceived 1 (w\<lparr>receiving := receiving w AND NOT (ep_bit 1)\<rparr>)"
  by (simp add: otg_epout_handler_def usb_isr_invoke_out_cb_def Let_def call_ep_def fn_ep0_defs fn_sdu_defs usbcfg_def
      sdu_ep_callback_def)

lemma rx_done_ok:
  assumes ok: "sdu_ok lc w" and r: "bit (receiving w) 1"
  shows "\<exists>w' d. otg_epout_handler (usbcfg a b) False True 1 w = Inr w' \<and> sess lc w d [] w' \<and>
    (usb_state w = USB_ACTIVE \<longrightarrow> bit (receiving w') 1 \<or> ibqIsFullI (ibqueue w'))"
proof -
  let ?c = "rxcnt (ep_out w 1)" and ?e = "w\<lparr>receiving := receiving w AND NOT (ep_bit 1)\<rparr>"
  have ep: "epc w 1 = Some ep1config" using ok r by (simp add: sdu_ok_def rx1_ok_def)
  have c: "sdu_config w = Some serusbcfg" "out_params w 0" using ok by (simp_all add: sdu_ok_def)
  have start: "\<exists>w' d'. drop_result (sdu_start_receive v) = Inr w' \<and> sess lc w d' [] w' \<and>
      (usb_state w = USB_ACTIVE \<longrightarrow> bit (receiving w') 1 \<or> ibqIsFullI (ibqueue w'))"
    if v: "sess lc w d [] v" "usb_state v = usb_state w" for v d
  proof -
    have "sdu_ok lc v" using v(1) by (simp add: sess_def)
    from start_receive_ok [OF this] v(2) obtain x w' where s: "sdu_start_receive v = Inr (x, w')" "sess lc v [] [] w'"
        "usb_state w = USB_ACTIVE \<longrightarrow> bit (receiving w') 1 \<or> ibqIsFullI (ibqueue w')"
      by auto
    have "sess lc w d [] w'" using sess_trans [OF v(1) s(2)] by simp
    then show ?thesis using s by (auto simp: drop_result_def)
  qed
  have eq: "otg_epout_handler (usbcfg a b) False True 1 w =
      bindE (if 0 < ?c then bindE (ibqPostFullBufferI ?c (ib_view (chnAddFlagsI CHN_INPUT_AVAILABLE ?e))) (\<lambda>s. Inr (ib_close s))
        else Inr ?e) (\<lambda>w. drop_result (sdu_start_receive w))"
    using c ep by (simp add: ep1_out_cb [OF ep] sduDataReceived_def out_state_of_def usb_lld_get_transaction_size_def Let_def)
  show ?thesis
  proof (cases "0 < ?c")
    case True
    obtain s where s: "ibqPostFullBufferI ?c (ib_view (chnAddFlagsI CHN_INPUT_AVAILABLE ?e)) = Inr s"
        "sess lc w (load_bytes (umem w) (bwrptr (ibqueue w) + 4) ?c) [] (ib_close s)" "usb_state (ib_close s) = usb_state w"
      using rx_post_ok [OF ok r True refl] by blast
    show ?thesis unfolding eq using True s(1) start [OF s(2,3)] by simp
  next
    case False
    have "sess lc w [] [] ?e" using ok r False ep
      by (intro sess_usb) (auto simp: same_sdu_def sdu_ok_def rx_tail_def rx_log_def tx_tail_def tx_log_def tx1_ok_def Let_def ep_bits)
    from start [OF this] show ?thesis unfolding eq using False by simp
  qed
qed

end
