(* ===== verification/SduSteps.thy ===== *)
theory SduSteps
  imports SduInv
begin

text \<open>
  What the transmit callback, the start of frame hook and the suspend and wakeup hooks of the serial
  driver do to the streams: each is a step \<open>sess\<close> of \<open>SduInv\<close>, so no byte is lost or reordered.
\<close>

section \<open>Suspending and resuming the queues\<close>

text \<open>Nothing but the sleeping threads, the suspension flags and the event listeners has changed.\<close>

definition same_buffers :: "io_buffers_queue \<Rightarrow> io_buffers_queue \<Rightarrow> bool" where
  "same_buffers q q' \<longleftrightarrow> q'\<lparr>waiting := [], suspended := False\<rparr> = q\<lparr>waiting := [], suspended := False\<rparr>"

lemma same_buffers_cases: "same_buffers q q' \<Longrightarrow> \<exists>a b. q' = q\<lparr>waiting := a, suspended := b\<rparr>"
  by (cases q; cases q') (auto simp: same_buffers_def)

definition relaxed :: "SerialUSB \<Rightarrow> SerialUSB \<Rightarrow> bool" where
  "relaxed w w' \<longleftrightarrow> driver_same w w' \<and> sdu_config w' = sdu_config w \<and> sdu_state w' = sdu_state w \<and> linecoding_at w' = linecoding_at w \<and>
     ib w' = ib w \<and> ob w' = ob w \<and> running w' = running w \<and> sleeps w' = sleeps w \<and> switches w' = switches w \<and>
     same_buffers (ibqueue w) (ibqueue w') \<and> same_buffers (obqueue w) (obqueue w') \<and>
     (\<exists>xs. ready w' = ready w @ xs) \<and> left_ok (waiting (ibqueue w)) (waiting (ibqueue w')) (ready w') \<and>
     left_ok (waiting (obqueue w)) (waiting (obqueue w')) (ready w')"

lemma queue_relaxed:
  assumes "bq s' = (bq s)\<lparr>waiting := a, suspended := b\<rparr>" "ram s' = ram s"
  shows "ibq_inv s' = ibq_inv s" "ibq_stream s' = ibq_stream s" "obq_inv s' = obq_inv s" "obq_stream s' = obq_stream s"
  using assms by (cases "ptr (bq s)"; simp add: ibq_inv_def ibq_stream_def cur_size_def Let_def obq_defs)+

lemma relaxed_sess:
  assumes ok: "sdu_ok lc w" and r: "relaxed w w'"
  shows "sess lc w [] [] w'"
proof -
  from r obtain x where x: "w' = w\<lparr>USBDriver.more := x\<rparr>" by (auto simp: relaxed_def elim: driver_same_cases)
  have u: "umem w' = umem w" "epc w' = epc w" "ep_in w' = ep_in w" "ep_out w' = ep_out w" "receiving w' = receiving w"
    "transmitting w' = transmitting w" "eff_state w' = eff_state w" "fifo_in w' = fifo_in w" "fifo_out w' = fifo_out w"
    "in_params w' = in_params w" "out_params w' = out_params w"
    by (simp_all add: x eff_state_def)
  obtain a b c d where q: "ibqueue w' = (ibqueue w)\<lparr>waiting := a, suspended := b\<rparr>" "obqueue w' = (obqueue w)\<lparr>waiting := c, suspended := d\<rparr>"
    using r same_buffers_cases by (metis relaxed_def)
  have v: "ibq_inv (ib_view w') = ibq_inv (ib_view w)" "ibq_stream (ib_view w') = ibq_stream (ib_view w)"
    "obq_inv (ob_view w') = obq_inv (ob_view w)" "obq_stream (ob_view w') = obq_stream (ob_view w)"
    using queue_relaxed(1,2) [where s' = "ib_view w'" and s = "ib_view w"] queue_relaxed(3,4) [where s' = "ob_view w'" and s = "ob_view w"] q u
    by simp_all
  have l: "ibqIsFullI (ibqueue w') = ibqIsFullI (ibqueue w)" "obqIsEmptyI (obqueue w') = obqIsEmptyI (obqueue w)"
    by (simp_all add: q ibqIsFullI_def obqIsEmptyI_def)
  have "sdu_ok lc w'" using ok r v l by (simp add: sdu_ok_def relaxed_def layout_def rx1_ok_def tx1_ok_def u q)
  then show ?thesis using r v
    by (auto simp: sess_def relaxed_def u q rx_tail_def tx_tail_def rx_log_def tx_log_def Let_def)
qed

lemma flags_relaxed [simp]: "relaxed w (chnAddFlagsI f w)"
  by (simp add: relaxed_def driver_same_def same_buffers_def)

lemma flags_after: "sess lc w d u v \<Longrightarrow> sess lc w d u (chnAddFlagsI f v)"
  using sess_trans [of lc w d u v "[]" "[]" "chnAddFlagsI f v"] relaxed_sess [of lc v] by (simp add: sess_def)

lemma left_all: "left_ok ws ws' (xs @ map (\<lambda>t. (t, m)) ws @ zs)"
  by (force simp: left_ok_def map_add_def map_of_eq_None_iff split: option.splits)

lemma hooks_relaxed: "relaxed w (sduSuspendHookI w)" "relaxed w (sduWakeupHookI w)"
proof -
  obtain ls ts where s: "chnAddFlagsI CHN_DISCONNECTED w = w\<lparr>listeners := ls, ethreads := ts\<rparr>" using chnAddFlagsI_fields by blast
  show "relaxed w (sduSuspendHookI w)"
    unfolding sduSuspendHookI_def on_ib_def on_ob_def bqSuspendI_def chThdDequeueAllI_def s
    using left_all [where ws = "waiting (ibqueue w)"]
      left_all [where ws = "waiting (obqueue w)" and xs = "ready w @ map (\<lambda>t. (t, MSG_RESET)) (waiting (ibqueue w))" and zs = "[]"]
    by (simp add: relaxed_def driver_same_def ib_close_def ob_close_def USBDriver.defs ib_view_def ob_view_def same_buffers_def)
  obtain ls ts where s: "chnAddFlagsI CHN_CONNECTED w = w\<lparr>listeners := ls, ethreads := ts\<rparr>" using chnAddFlagsI_fields by blast
  show "relaxed w (sduWakeupHookI w)"
    unfolding sduWakeupHookI_def on_ib_def on_ob_def bqResumeX_def s
    by (simp add: relaxed_def driver_same_def ib_close_def ob_close_def USBDriver.defs ib_view_def ob_view_def same_buffers_def)
qed
section \<open>Transmitting\<close>

lemma ram_bytes: "map (ptr_byte d (Ram a)) [0 ..< k] = load_bytes (umem d) a k"
  by (rule nth_equalityI) (simp_all add: ptr_byte_def load_bytes_def)

text \<open>Filling the FIFO sends the next bytes of the buffer of the transaction.\<close>

lemma tx_space_sess:
  assumes ok: "sdu_ok lc w" and t: "bit (transmitting w) 1"
  shows "\<exists>w'. otg_epin_handler cfg False (Some space) 1 w = Inr w' \<and> sess lc w [] [] w' \<and>
    transmitting w' = transmitting w \<and> receiving w' = receiving w \<and> usb_state w' = usb_state w"
proof -
  let ?i = "ep_in w 1" and ?q = "obqueue w"
  have tx: "tx1_ok w" using ok t by (simp add: sdu_ok_def)
  have nn: "txbuf ?i \<noteq> NullPtr \<or> txsize ?i \<le> txcnt ?i" using tx by (cases "0 < txsize ?i") (auto simp: tx1_ok_def)
  have e: "epc w 1 = Some ep1config" using tx by (simp add: tx1_ok_def)
  obtain k pk where k: "otg_txfifo_handler space 1 w = Inr (put_in 1 (?i\<lparr>txbuf := ptr_add (txbuf ?i) k, txcnt := txcnt ?i + k\<rparr>)
        (w\<lparr>fifo_out := fifo_out w @ pk\<rparr>))" "k \<le> txsize ?i - txcnt ?i" "sent_on 1 pk = map (ptr_byte w (txbuf ?i)) [0 ..< k]"
    using otg_txfifo_ok [of w 1 ep1config space] e nn by auto
  define w' where "w' = put_in 1 (?i\<lparr>txbuf := ptr_add (txbuf ?i) k, txcnt := txcnt ?i + k\<rparr>) (w\<lparr>fifo_out := fifo_out w @ pk\<rparr>)"
  have f: "same_sdu w w'" "epc w' = epc w" "eff_state w' = eff_state w" "receiving w' = receiving w" "transmitting w' = transmitting w"
    "ep_out w' = ep_out w" "fifo_in w' = fifo_in w" "fifo_out w' = fifo_out w @ pk" "umem w' = umem w" "obqueue w' = ?q"
    "ibqueue w' = ibqueue w" "ep_in w' 1 = ?i\<lparr>txbuf := ptr_add (txbuf ?i) k, txcnt := txcnt ?i + k\<rparr>" "usb_state w' = usb_state w"
    by (simp_all add: w'_def put_in_def same_sdu_def eff_state_def)
  have tail: "tx_tail w' \<and> tx_log w' = tx_log w" if "tx_tail w"
  proof -
    let ?L = "sent_on 1 (fifo_out w)"
    have h: "txcnt ?i \<le> length ?L" "drop (length ?L - txcnt ?i) ?L = load_bytes (umem w) (brdptr ?q + 4) (txcnt ?i)"
      using that t by (simp_all add: tx_tail_def)
    have "load_bytes (umem w) (brdptr ?q + 4) (txcnt ?i + k) = load_bytes (umem w) (brdptr ?q + 4) (txcnt ?i) @ sent_on 1 pk"
    proof (cases "k = 0")
      case True
      then show ?thesis using k(3) by simp
    next
      case False
      then have "txbuf ?i = Ram (brdptr ?q + 4 + txcnt ?i)" using tx k(2) by (auto simp: tx1_ok_def)
      then show ?thesis using load_bytes_split [of "txcnt ?i" "txcnt ?i + k" "umem w" "brdptr ?q + 4"]
        by (simp add: k(3) ram_bytes)
    qed
    moreover have "length (sent_on 1 pk) = k" using k(3) by simp
    ultimately show ?thesis using h t by (simp add: tx_tail_def tx_log_def f Let_def)
  qed
  have "sess lc w [] [] w'"
  proof (rule sess_usb [OF ok f(1)])
    show "tx1_ok w'" using tx k(2) e by (auto simp: tx1_ok_def f)
  qed (use ok tail in \<open>auto simp: sdu_ok_def f rx1_ok_def rx_tail_def rx_log_def Let_def\<close>)
  moreover have "otg_epin_handler cfg False (Some space) 1 w = Inr w'" using k(1) by (simp add: otg_epin_handler_def w'_def)
  ultimately show ?thesis using f by blast
qed

text \<open>The state after the transmit callback has given the buffer back, before it starts the next transaction.\<close>

lemma tx_release_ok:
  assumes ok: "sdu_ok lc w" and t: "bit (transmitting w) 1" and c: "0 < txsize (ep_in w 1)" "txcnt (ep_in w 1) = txsize (ep_in w 1)"
    and w1: "w1 = chnAddFlagsI f (w\<lparr>transmitting := transmitting w AND NOT (ep_bit 1)\<rparr>)"
  shows "\<exists>s. obqReleaseEmptyBufferI (ob_view w1) = Inr s \<and>
    sess lc w [] (bufdata (umem w) (brdptr (obqueue w))) (ob_close s) \<and> ep_in (ob_close s) = ep_in w \<and>
    usb_state (ob_close s) = usb_state w \<and> epc (ob_close s) = epc w \<and> \<not> bit (transmitting (ob_close s)) 1"
proof -
  let ?q = "obqueue w" and ?v = "ob_view w1"
  have tx: "\<not> obqIsEmptyI ?q" "txsize (ep_in w 1) = load_size (umem w) (brdptr ?q)"
    using ok t c by (simp_all add: sdu_ok_def tx1_ok_def)
  have l: "bsize ?q = 260" "buffers ?q = ob w" "btop ?q = ob w + 520" "obq_inv (ob_view w)" "layout lc w"
    using ok by (simp_all add: sdu_ok_def layout_def)
  have v: "bq ?v = ?q" "ram ?v = umem w" "obq_inv ?v" "obq_stream ?v = obq_stream (ob_view w)"
    using obq_inv_cong [of ?v "ob_view w"] l by (simp_all add: w1)
  have "bcounter (bq ?v) < bn (bq ?v)" using obq_front(5) [OF l(4)] tx v by simp
  from obq_release_ok [OF v(3) this] obtain s where s: "obqReleaseEmptyBufferI ?v = Inr s" "obq_inv s"
      "obq_stream ?v = bufdata (umem w) (brdptr ?q) @ obq_stream s" "buffers (bq s) = ob w" "btop (bq s) = ob w + 520"
      "bsize (bq s) = 260" "ptr (bq s) = ptr ?q" "ram s = umem w" "dev s = w1"
    using v l by auto
  define w2 where "w2 = ob_close s"
  have n: "s = chThdDequeueNextI MSG_OK (?v\<lparr>bq := ?q\<lparr>bcounter := bcounter ?q + 1, brdptr := bump ?q (brdptr ?q)\<rparr>\<rparr>)"
    using s(1) tx(1) v(1) by (simp add: obqReleaseEmptyBufferI_def)
  have rd: "\<exists>xs. readied s = ready w @ xs" "left_ok (waiting ?q) (waiting (bq s)) (readied s)"
    by (auto simp: n chThdDequeueNextI_def left_ok_def w1 split: list.splits)
  have f: "obqueue w2 = bq s" "ibqueue w2 = ibqueue w" "umem w2 = umem w" "ready w2 = readied s" "rest_same w w2"
    "ep_in w2 = ep_in w" "ep_out w2 = ep_out w" "receiving w2 = receiving w" "fifo_out w2 = fifo_out w"
    "transmitting w2 = transmitting w AND NOT (ep_bit 1)" "fifo_in w2 = fifo_in w" "usb_state w2 = usb_state w" "epc w2 = epc w"
    using s(8,9) by (simp_all add: w2_def n w1 rest_same_def eff_state_def)
  note rx = rx_side [OF ok f(2), simplified f, simplified]
  have q: "obq_inv (ob_view w2)" "obq_stream (ob_view w2) = obq_stream s"
    using obq_inv_cong [of "ob_view w2" s] s by (auto simp: w2_def)
  have log: "tx_log w2 = tx_log w @ bufdata (umem w) (brdptr ?q)" if "tx_tail w"
    using that t c tx by (simp add: tx_tail_def tx_log_def f ep_bits Let_def bufdata_def) (metis append_take_drop_id)
  have "sdu_ok lc w2" using ok l(5) q rx s f(5) by (auto simp: sdu_ok_def f layout_def ep_bits rest_same_def)
  then have "sess lc w [] (bufdata (umem w) (brdptr ?q)) w2"
    using q rx v s rd log f(5) by (auto simp: sess_def f tx_tail_def ep_bits rest_same_def)
  then show ?thesis using s(1) f by (auto simp: w2_def ep_bits)
qed
text \<open>The end of the transmit callback: the next buffer, or the empty packet that ends a transfer.\<close>

lemma tx_next_ok:
  assumes "sdu_ok lc v" "\<not> bit (transmitting v) 1" "epc v 1 = Some ep1config"
  shows "\<exists>w'. (case obqGetFullBufferI (ob_view v) of
        Some (buf, n) \<Rightarrow> usbStartTransmitI 1 (Ram buf) n v
      | None \<Rightarrow> if z then usbStartTransmitI 1 (Var ''setup'' 0) 0 v else Inr v) = Inr w' \<and>
    sess lc v [] [] w' \<and> (bit (transmitting w') 1 \<or> obqIsEmptyI (obqueue w'))"
proof (cases "obqIsEmptyI (obqueue v)")
  case True
  then show ?thesis using assms tx_started_sess [OF assms, of 0] sess_refl [OF assms(1)] start_tx1 [OF assms(3,2)]
    by (auto simp: obqGetFullBufferI_def ep_bits)
next
  case False
  then show ?thesis using assms tx_started_sess [OF assms] start_tx1 [OF assms(3,2)]
    by (auto simp: obqGetFullBufferI_def ep_bits)
qed

lemma ep1_in_cb:
  "epc w 1 = Some ep1config \<Longrightarrow> tx_totsize (ep_in w 1) = txsize (ep_in w 1) \<Longrightarrow>
   otg_epin_handler (usbcfg a b) True None 1 w = sduDataTransmitted 1 (w\<lparr>transmitting := transmitting w AND NOT (ep_bit 1)\<rparr>)"
  by (cases "sduDataTransmitted 1 (w\<lparr>transmitting := transmitting w AND NOT (ep_bit 1)\<rparr>)")
    (simp_all add: otg_epin_handler_def usb_isr_invoke_in_cb_def Let_def call_ep_def fn_ep0_defs fn_sdu_defs usbcfg_def
      sdu_ep_callback_def in_state_of_def)

lemma tx_done_ok:
  assumes ok: "sdu_ok lc w" and t: "bit (transmitting w) 1" and c: "txcnt (ep_in w 1) = txsize (ep_in w 1)"
  shows "\<exists>w' u. otg_epin_handler (usbcfg a b) True None 1 w = Inr w' \<and> sess lc w [] u w' \<and>
    (bit (transmitting w') 1 \<or> obqIsEmptyI (obqueue w'))"
proof -
  let ?e = "w\<lparr>transmitting := transmitting w AND NOT (ep_bit 1)\<rparr>" and ?n = "txsize (ep_in w 1)"
  define w1 where "w1 = chnAddFlagsI CHN_OUTPUT_EMPTY ?e"
  define z where "z \<longleftrightarrow> 0 < ?n \<and> (word_of_nat ?n :: 32 word) AND (word_of_nat (in_maxsize ep1config) - 1) = 0"
  have ep: "epc w 1 = Some ep1config" "tx_totsize (ep_in w 1) = ?n" using ok t by (simp_all add: sdu_ok_def tx1_ok_def)
  have p: "in_params w 0" using ok by (simp add: sdu_ok_def)
  have eq: "otg_epin_handler (usbcfg a b) True None 1 w =
      bindE (if 0 < ?n then obqReleaseEmptyBufferI (ob_view w1) else Inr (ob_view w1)) (\<lambda>s.
        let v = ob_close s in case obqGetFullBufferI (ob_view v) of
          Some (buf, n) \<Rightarrow> usbStartTransmitI 1 (Ram buf) n v
        | None \<Rightarrow> if 0 < txsize (ep_in v 1) \<and> (word_of_nat (txsize (ep_in v 1)) :: 32 word) AND (word_of_nat (in_maxsize ep1config) - 1) = 0
            then usbStartTransmitI 1 (Var ''setup'' 0) 0 v else Inr v)"
    unfolding ep1_in_cb [OF ep] sduDataTransmitted_def using p ep by (simp add: in_state_of_def w1_def Let_def)
  have next_ok: ?thesis if s: "(if 0 < ?n then obqReleaseEmptyBufferI (ob_view w1) else Inr (ob_view w1)) = Inr s"
      "sess lc w [] u (ob_close s)" "ep_in (ob_close s) = ep_in w" "epc (ob_close s) = epc w" "\<not> bit (transmitting (ob_close s)) 1" for s u
  proof -
    have "sdu_ok lc (ob_close s)" "epc (ob_close s) 1 = Some ep1config" using s(2,4) ep by (simp_all add: sess_def)
    from tx_next_ok [OF this(1) s(5) this(2), of z] obtain w' where w': "(case obqGetFullBufferI (ob_view (ob_close s)) of
          Some (buf, n) \<Rightarrow> usbStartTransmitI 1 (Ram buf) n (ob_close s)
        | None \<Rightarrow> if z then usbStartTransmitI 1 (Var ''setup'' 0) 0 (ob_close s) else Inr (ob_close s)) = Inr w'"
        "sess lc (ob_close s) [] [] w'" "bit (transmitting w') 1 \<or> obqIsEmptyI (obqueue w')"
      by blast
    have "otg_epin_handler (usbcfg a b) True None 1 w = Inr w'" using w'(1) unfolding eq s(1) by (simp only: bindE.simps Let_def s(3) z_def)
    moreover have "sess lc w [] u w'" using sess_trans [OF s(2) w'(2)] by simp
    ultimately show ?thesis using w'(3) by blast
  qed
  show ?thesis
  proof (cases "0 < ?n")
    case True
    with tx_release_ok [OF ok t True c w1_def] next_ok show ?thesis by auto
  next
    case False
    have "sess lc w [] [] ?e" using ok t False c ep
      by (intro sess_usb) (auto simp: same_sdu_def sdu_ok_def rx_tail_def rx_log_def tx_tail_def tx_log_def rx1_ok_def Let_def ep_bits)
    then have "sess lc w [] [] w1" unfolding w1_def by (rule flags_after)
    moreover have "ep_in w1 = ep_in w" "epc w1 = epc w" "\<not> bit (transmitting w1) 1" by (simp_all add: w1_def ep_bits)
    ultimately show ?thesis using next_ok [of "ob_view w1" "[]"] False by simp
  qed
qed
section \<open>Start of frame\<close>

lemma flush_ok:
  assumes ok: "sdu_ok lc w" and t: "\<not> bit (transmitting w) 1"
    and fl: "obqTryFlushI (ob_view w) = (done, s)"
  shows "sess lc w [] [] (ob_close s)" "rest_same w (ob_close s)" "usb_state (ob_close s) = usb_state w"
    "\<not> bit (transmitting (ob_close s)) 1" "done \<Longrightarrow> \<not> obqIsEmptyI (obqueue (ob_close s))"
proof -
  define w2 where "w2 = ob_close s"
  have l: "bsize (obqueue w) = 260" "buffers (obqueue w) = ob w" "btop (obqueue w) = ob w + 520" "obq_inv (ob_view w)" "layout lc w"
    "ib w + 520 \<le> ob w \<or> ob w + 520 \<le> ib w"
    using ok by (simp_all add: sdu_ok_def layout_def)
  have s: "s = snd (obqTryFlushI (ob_view w))" using fl by simp
  note q = obqTryFlushI_ok [OF l(4), folded s] obqTryFlushI_frame [OF l(4), folded s]
  have z: "s = ob_view w \<or> (\<exists>n. s = obq_post n (ob_view w) \<and> obqIsEmptyI (obqueue w))"
    using fl by (auto simp: obqTryFlushI_def Let_def split: option.splits if_splits)
  then have v: "readied s = ready w" "waiting (bq s) = waiting (obqueue w)" "bsize (bq s) = 260" "now s = sys_now w" "self s = running w"
    "naps s = sleeps w" "pre s = switches w" using l(1) by (auto simp: obq_post_def)
  have f: "obqueue w2 = bq s" "ibqueue w2 = ibqueue w" "umem w2 = ram s" "ready w2 = ready w" "rest_same w w2"
    "ep_in w2 = ep_in w" "ep_out w2 = ep_out w" "receiving w2 = receiving w" "fifo_out w2 = fifo_out w"
    "transmitting w2 = transmitting w" "fifo_in w2 = fifo_in w" "usb_state w2 = usb_state w" "epc w2 = epc w"
    using q(7) v by (simp_all add: w2_def rest_same_def eff_state_def)
  have "umem w2 x = umem w x" if "ib w \<le> x" "x < ib w + 520" for x using q(8) [of x] l that by (auto simp: f)
  note rx = rx_side [OF ok f(2) this, simplified f, simplified]
  have i: "obq_inv (ob_view w2)" "obq_stream (ob_view w2) = obq_stream s"
    using obq_inv_cong [of "ob_view w2" s] q by (auto simp: w2_def)
  have "sdu_ok lc w2" using ok l i rx q v t f(5) by (auto simp: sdu_ok_def f layout_def rest_same_def)
  then show "sess lc w [] [] (ob_close s)"
    using i rx q v f(5) l t unfolding w2_def [symmetric]
    by (auto simp: sess_def f tx_tail_def tx_log_def rest_same_def outside_def Let_def)
  show "rest_same w (ob_close s)" "usb_state (ob_close s) = usb_state w" "\<not> bit (transmitting (ob_close s)) 1"
    using f t by (simp_all add: w2_def [symmetric])
  show "\<not> obqIsEmptyI (obqueue (ob_close s))" if "done"
  proof -
    have "bcounter (bq s) = bcounter (obqueue w) - 1" "bn (bq s) = bn (obqueue w)" "0 < bcounter (obqueue w)"
      using that fl l(4) by (auto simp: obqTryFlushI_def Let_def obq_post_def obq_inv_def split: option.splits if_splits)
    moreover have "bcounter (obqueue w) \<le> bn (obqueue w)" using l(4) by (simp add: obq_inv_def obq_ring_def)
    ultimately show ?thesis using obqIsEmptyI_iff [of s] q(1) by (simp add: obq_inv_def)
  qed
qed

lemma sof_ok:
  assumes ok: "sdu_ok lc w"
  shows "\<exists>w'. sduSOFHookI w = Inr w' \<and> sess lc w [] [] w' \<and>
    (usb_state w = USB_ACTIVE \<longrightarrow> bit (transmitting w) 1 \<or> obqIsEmptyI (obqueue w) \<longrightarrow> bit (transmitting w') 1 \<or> obqIsEmptyI (obqueue w'))"
proof -
  have c: "sdu_config w = Some serusbcfg" "sdu_state w = SDU_READY" using ok by (simp_all add: sdu_ok_def)
  show ?thesis
  proof (cases "usb_state w \<noteq> USB_ACTIVE \<or> bit (transmitting w) 1")
    case True
    then show ?thesis using c sess_refl [OF ok] by (auto simp: sduSOFHookI_def transmit_bit)
  next
    case False
    obtain d s where fl: "obqTryFlushI (ob_view w) = (d, s)" by fastforce
    have n: "\<not> bit (transmitting w) 1" using False by simp
    note f = flush_ok [OF ok n fl]
    let ?v = "ob_close s"
    have v: "sdu_ok lc ?v" "epc ?v 1 = Some ep1config" using f(1,2) active_ep1 [OF ok] False by (auto simp: sess_def rest_same_def)
    have eq: "sduSOFHookI w = (if \<not> d then Inr ?v else case obqGetFullBufferI (ob_view ?v) of
        None \<Rightarrow> Inl (DbgAssert ''queue is empty'') | Some (buf, n) \<Rightarrow> usbStartTransmitI 1 (Ram buf) n ?v)"
      using c False fl by (simp add: sduSOFHookI_def transmit_bit Let_def split: option.split)
    show ?thesis
    proof (cases d)
      case True
      let ?w = "tx_started (Ram (brdptr (obqueue ?v) + 4)) (load_size (umem ?v) (brdptr (obqueue ?v))) ?v"
      have "sess lc ?v [] [] ?w" using f(5) [OF True] by (intro tx_started_sess [OF v(1) f(4) v(2)]) simp
      then have "sess lc w [] [] ?w" using sess_trans [OF f(1)] by fastforce
      moreover have "sduSOFHookI w = Inr ?w" unfolding eq using True f(5) start_tx1 [OF v(2) f(4)]
        by (simp add: obqGetFullBufferI_def)
      ultimately show ?thesis by (auto simp: ep_bits)
    next
      case False
      then have "obqueue ?v = obqueue w" using fl by (auto simp: obqTryFlushI_def Let_def split: option.splits if_splits)
      then show ?thesis unfolding eq using False f(1) n by auto
    qed
  qed
qed

end
