(* ===== verification/SduClient.thy ===== *)
theory SduClient
  imports SduSteps
begin

text \<open>
  The serial driver and the configuration of the application as a client of the USB driver: the
  configured event opens both endpoints on empty queues, every callback keeps \<open>sdu_ok\<close>, and the only
  memory given to control transfers is the line coding. The interpretation \<open>node\<close> at the end gives
  the lemmas of \<open>usb_client\<close> for the real configuration.
\<close>

section \<open>Configuring\<close>

definition queues_reset :: "SerialUSB \<Rightarrow> SerialUSB" where
  "queues_reset w = on_ob bqResumeX (on_ob obqResetI (on_ib bqResumeX (on_ib ibqResetI w)))"

lemma queues_reset_fields:
  "driver_same w (queues_reset w)" "ib (queues_reset w) = ib w" "ob (queues_reset w) = ob w" "sdu_config (queues_reset w) = sdu_config w"
  "sdu_state (queues_reset w) = sdu_state w" "linecoding_at (queues_reset w) = linecoding_at w"
  "ibqueue (queues_reset w) = (bq (ibqResetI (ib_view w)))\<lparr>suspended := False\<rparr>"
  "obqueue (queues_reset w) = (bq (obqResetI (ob_view w)))\<lparr>suspended := False\<rparr>"
  by (simp_all add: queues_reset_def on_ib_def on_ob_def ibqResetI_def obqResetI_def bqResumeX_def chThdDequeueAllI_def driver_same_def
      USBDriver.defs ib_close_def ob_close_def ib_view_def ob_view_def)

lemma driver_sameD:
  assumes "driver_same w w'"
  shows "umem w' = umem w" "epc w' = epc w" "ep_in w' = ep_in w" "ep_out w' = ep_out w" "receiving w' = receiving w"
    "transmitting w' = transmitting w" "eff_state w' = eff_state w" "fifo_in w' = fifo_in w" "fifo_out w' = fifo_out w"
    "in_params w' = in_params w" "out_params w' = out_params w" "usb_state w' = usb_state w"
  using assms by (auto simp: eff_state_def elim!: driver_same_cases)

lemma driver_same_ep0: "driver_same d d' \<Longrightarrow> ep0_same d d'"
  by (auto simp: ep0_same_def elim!: driver_same_cases)

lemma queues_reset_ok:
  assumes ok: "sdu_ok lc w" and b: "\<not> bit (receiving w) 1" "\<not> bit (transmitting w) 1"
  shows "sdu_ok lc (queues_reset w)" "ibq_stream (ib_view (queues_reset w)) = []" "obq_stream (ob_view (queues_reset w)) = []"
proof -
  let ?w = "queues_reset w"
  have i: "ibq_inv (ib_view w)" "obq_inv (ob_view w)" using ok by (simp_all add: sdu_ok_def)
  note u = driver_sameD [OF queues_reset_fields(1), of w]
  have "bq (ib_view ?w) = (bq (ibqResetI (ib_view w)))\<lparr>waiting := waiting (bq (ibqResetI (ib_view w))), suspended := False\<rparr>"
    "bq (ob_view ?w) = (bq (obqResetI (ob_view w)))\<lparr>waiting := waiting (bq (obqResetI (ob_view w))), suspended := False\<rparr>"
    by (simp_all add: queues_reset_fields)
  moreover have "ram (ib_view ?w) = ram (ibqResetI (ib_view w))" "ram (ob_view ?w) = ram (obqResetI (ob_view w))"
    by (simp_all add: u ibqResetI_def obqResetI_def chThdDequeueAllI_def)
  ultimately have q: "ibq_inv (ib_view ?w)" "ibq_stream (ib_view ?w) = []" "obq_inv (ob_view ?w)" "obq_stream (ob_view ?w) = []"
    using queue_relaxed [where s' = "ib_view ?w" and s = "ibqResetI (ib_view w)"] ibq_reset [OF i(1)]
      queue_relaxed [where s' = "ob_view ?w" and s = "obqResetI (ob_view w)"] obq_reset [OF i(2)] by simp_all
  then show "ibq_stream (ib_view ?w) = []" "obq_stream (ob_view ?w) = []" by simp_all
  show "sdu_ok lc ?w" using ok q b
    by (auto simp: sdu_ok_def layout_def u queues_reset_fields ibqResetI_def obqResetI_def chThdDequeueAllI_def)
qed

lemma configure_hook: "sduConfigureHookI w = drop_result (sdu_start_receive (chnAddFlagsI CHN_CONNECTED (queues_reset w)))"
  by (simp add: sduConfigureHookI_def queues_reset_def)

text \<open>Both endpoints open, the queues empty and awake, receiving, nothing else changed.\<close>

definition port_open :: "SerialUSB \<Rightarrow> SerialUSB \<Rightarrow> bool" where
  "port_open w w' \<longleftrightarrow> epc w' 1 = Some ep1config \<and> epc w' 2 = Some ep2config \<and> ibq_stream (ib_view w') = [] \<and> obq_stream (ob_view w') = [] \<and>
     \<not> suspended (ibqueue w') \<and> \<not> suspended (obqueue w') \<and> bit (receiving w') 1 \<and> rxcnt (ep_out w' 1) = 0 \<and>
     \<not> bit (transmitting w') 1 \<and> configuration w' = configuration w \<and> ib w' = ib w \<and> ob w' = ob w \<and>
     fifo_in w' = fifo_in w \<and> fifo_out w' = fifo_out w"

text \<open>The handler of the configured event opens both endpoints and starts receiving.\<close>

lemma usb_event_configured:
  assumes off: "endpoints_off d" and st: "usb_state d = USB_ACTIVE"
    and b: "\<not> bit (receiving d) 1" "\<not> bit (transmitting d) 1"
    and ac: "\<And>w. same_sdu d w \<Longrightarrow> epc w 1 = Some ep1config \<Longrightarrow> receiving w = receiving d \<Longrightarrow> transmitting w = transmitting d \<Longrightarrow> sdu_ok lc w"
  shows "\<exists>d'. usb_event USB_EVENT_CONFIGURED d = Inr d' \<and> sdu_ok lc d' \<and> ep0_same d d' \<and> port_open d d'"
proof -
  have "epc d 1 = None" "epc d 2 = None" using off by (auto simp: endpoints_off_def USB_MAX_ENDPOINTS_def)
  define e where "e = call_lld (LldInitEndpoint 2) (put_in 2 zero_in ((call_lld (LldInitEndpoint 1) (put_out 1 zero_out
      (put_in 1 zero_in (d\<lparr>epc := (epc d)(1 := Some ep1config)\<rparr>))))\<lparr>epc := (epc d)(1 := Some ep1config, 2 := Some ep2config)\<rparr>))"
  have init: "bindE (usbInitEndpointI USB1_DATA_REQUEST_EP ep1config d) (usbInitEndpointI USB1_INTERRUPT_REQUEST_EP ep2config) = Inr e"
    using \<open>epc d 1 = None\<close> \<open>epc d 2 = None\<close> st
    by (simp add: usbInitEndpointI_def ep_defs dbgAssert_def Let_def e_def put_in_def put_out_def call_lld_def ep2config_def)
  have e: "same_sdu d e" "epc e 1 = Some ep1config" "epc e 2 = Some ep2config" "receiving e = receiving d" "transmitting e = transmitting d"
    "usb_state e = USB_ACTIVE" "ep0_same d e"
    using st by (simp_all add: e_def same_sdu_def put_in_def put_out_def call_lld_def ep0_same_def)
  have ok_e: "sdu_ok lc e" using ac e by simp
  let ?q = "queues_reset e"
  let ?v = "chnAddFlagsI CHN_CONNECTED ?q"
  note q = queues_reset_ok [OF ok_e] driver_sameD [OF queues_reset_fields(1), of e]
  have v: "sess lc ?q [] [] ?v" using relaxed_sess [of lc ?q ?v] q(1) e b by simp
  then have okv: "sdu_ok lc ?v" by (simp add: sess_def)
  have nf: "\<not> ibqIsFullI (ibqueue ?v)"
    using okv by (simp add: queues_reset_fields ibqResetI_def chThdDequeueAllI_def ibqIsFullI_def bqSpaceI_def)
  let ?w = "rx_started (Ram (bwrptr (ibqueue ?v) + 4)) ?v"
  have c: "sdu_config ?v = Some serusbcfg" "sdu_state ?v = SDU_READY" using okv by (simp_all only: sdu_ok_def)
  have r: "\<not> bit (receiving ?v) 1" "epc ?v 1 = Some ep1config" "usb_state ?v = USB_ACTIVE" using q e b by simp_all
  have s: "sess lc ?v [] [] ?w" by (rule rx_started_sess [OF okv r(1,2) nf])
  have "sduConfigureHookI e = Inr ?w"
    unfolding configure_hook sdu_start_receive_def using c r nf start_rx1 [OF r(2,1)]
    by (simp add: receive_bit ibqGetEmptyBufferI_def SERIAL_USB_BUFFERS_SIZE_def drop_result_def)
  moreover have "ep0_same d ?w"
  proof -
    have "ep0_same e ?q" by (rule driver_same_ep0 [OF queues_reset_fields(1)])
    moreover have "ep0_same ?q ?v" using flags_relaxed [of ?q] driver_same_ep0 unfolding relaxed_def by blast
    moreover have "ep0_same ?v ?w" by (auto simp: ep0_same_def rx_started_def put_out_def call_lld_def ep_bits)
    ultimately show ?thesis using e(7) by (auto simp: ep0_same_def)
  qed
  moreover have "ibq_stream (ib_view ?w) = []" "obq_stream (ob_view ?w) = []" "sdu_ok lc ?w"
    using v s q(2,3) e b by (auto simp: sess_def)
  moreover have "port_open d ?w"
  proof -
    have fe: "configuration e = configuration d" "ib e = ib d" "ob e = ob d" "fifo_in e = fifo_in d" "fifo_out e = fifo_out d"
      by (simp_all add: e_def put_in_def put_out_def call_lld_def)
    have fw: "configuration ?w = configuration ?v" "ib ?w = ib ?v" "ob ?w = ob ?v" by (simp_all add: rx_started_def put_out_def call_lld_def)
    have "configuration ?v = configuration e"
      using flags_relaxed [of ?q CHN_CONNECTED] queues_reset_fields(1) [of e] by (auto simp: relaxed_def elim!: driver_same_cases)
    then show ?thesis using calculation(3,4) q e fe fw b
      by (simp add: port_open_def ep_bits queues_reset_fields)
  qed
  ultimately show ?thesis using init by (cases "usbInitEndpointI USB1_DATA_REQUEST_EP ep1config d") (auto simp: usb_event_def)
qed

section \<open>The serial driver is a client of the USB driver\<close>

definition lc_owns :: "nat \<Rightarrow> nat \<Rightarrow> nat \<Rightarrow> bool" where
  "lc_owns lc a n \<longleftrightarrow> n = 0 \<or> lc \<le> a \<and> a + n \<le> lc + 7"

lemma rx1_cong:
  "epc w' 1 = epc w 1 \<Longrightarrow> ibqueue w' = ibqueue w \<Longrightarrow> ep_out w' 1 = ep_out w 1 \<Longrightarrow> rx1_ok w' = rx1_ok w"
  by (simp add: rx1_ok_def)

lemma tx1_cong:
  "epc w' 1 = epc w 1 \<Longrightarrow> obqueue w' = obqueue w \<Longrightarrow> ep_in w' 1 = ep_in w 1 \<Longrightarrow> umem w' = umem w \<Longrightarrow> tx1_ok w' = tx1_ok w"
  by (simp add: tx1_ok_def)

lemma sdu_ok_frame:
  assumes ok: "sdu_ok lc d" and s: "umem d' = umem d" "USBDriver.more d' = USBDriver.more d" and u: "upper_same d d'"
    and a: "eff_state d' = USB_ACTIVE \<longrightarrow> eff_state d = USB_ACTIVE"
  shows "sdu_ok lc d'"
proof (rule sdu_ok_usb [OF ok])
  have e: "epc d' 1 = epc d 1" "ep_in d' 1 = ep_in d 1" "ep_out d' 1 = ep_out d 1"
    "bit (transmitting d') i = bit (transmitting d) i" "bit (receiving d') i = bit (receiving d) i" if "1 \<le> i" for i
    using u that by (auto simp: upper_same_def)
  show "same_sdu d d'" using s u by (simp add: same_sdu_def upper_same_def)
  show "epc d' 1 = Some ep1config" if "eff_state d' = USB_ACTIVE" using that a ok e(1) [of 1] by (simp add: sdu_ok_def)
  show "rx1_ok d'" if "bit (receiving d') 1"
    using that ok e [of 1] more_fields(2) [OF s(2)] rx1_cong [of d' d] by (simp add: sdu_ok_def)
  show "tx1_ok d'" if "bit (transmitting d') 1"
    using that ok e [of 1] more_fields(3) [OF s(2)] s(1) tx1_cong [of d' d] by (simp add: sdu_ok_def)
  show "\<not> bit (receiving d') i \<and> \<not> bit (transmitting d') i" if "2 \<le> i" for i
    using that ok e(4,5) [of i] by (simp add: sdu_ok_def)
qed

lemma sdu_ok_store:
  assumes ok: "sdu_ok lc w" and o: "lc_owns lc a (length bs)"
  shows "sdu_ok lc (w\<lparr>umem := store_bytes (umem w) a bs\<rparr>)"
proof -
  let ?w = "w\<lparr>umem := store_bytes (umem w) a bs\<rparr>"
  have l: "lc + 7 \<le> ib w \<or> ib w + 520 \<le> lc" "lc + 7 \<le> ob w \<or> ob w + 520 \<le> lc" using ok by (simp_all add: sdu_ok_def layout_def)
  have m: "umem ?w x = umem w x" if "x < lc \<or> lc + 7 \<le> x" for x
    using that o by (cases "bs = []") (auto simp: lc_owns_def intro!: store_bytes_frame)
  have "umem ?w x = umem w x" if "ob w \<le> x" "x < ob w + 520" for x using that l by (intro m) auto
  note t = tx_side [where w' = ?w, OF ok _ this, simplified]
  have "umem ?w x = umem w x" if "ib w \<le> x" "x < ib w + 520" for x using that l by (intro m) auto
  note r = rx_side [where w' = ?w, OF ok _ this, simplified]
  show ?thesis using ok t r by (simp add: sdu_ok_def layout_def eff_state_def)
qed

lemma usb_event_ok:
  assumes "sdu_ok lc w" "e \<noteq> USB_EVENT_CONFIGURED"
  shows "\<exists>w'. usb_event e w = Inr w' \<and> sdu_ok lc w' \<and> driver_same w w' \<and> sess lc w [] [] w'"
proof -
  have r: "relaxed w w' \<Longrightarrow> sdu_ok lc w' \<and> driver_same w w' \<and> sess lc w [] [] w'" for w'
    using relaxed_sess [OF assms(1)] by (auto simp: sess_def relaxed_def)
  have "sdu_ok lc w \<and> driver_same w w \<and> sess lc w [] [] w" using assms(1) sess_refl by (auto simp: driver_same_def)
  then show ?thesis using assms(2) r [OF hooks_relaxed(1)] r [OF hooks_relaxed(2)]
    by (cases e) (simp_all add: usb_event_def)
qed

lemma requests_hook_ok:
  assumes "sdu_ok lc d" "ep0endcb d = None"
  shows "\<exists>b d'. sduRequestsHook d = Inr (b, d') \<and> sdu_ok lc d' \<and>
    (\<exists>p n. driver_same (d\<lparr>ep0next := p, ep0n := n\<rparr>) d' \<and> (b \<longrightarrow> n = 0 \<or> n < 2 ^ 32 \<and> (\<exists>a. p = Ram a \<and> lc_owns lc a n)))"
proof -
  have lc: "linecoding_at d = lc" using assms(1) by (simp add: sdu_ok_def layout_def)
  have keep: "sdu_ok lc (usbSetupTransfer p n None d)" for p n
    by (rule sdu_ok_frame [OF assms(1)]) (simp_all add: usbSetupTransfer_def upper_same_def eff_state_def)
  have same: "driver_same (d\<lparr>ep0next := p, ep0n := n\<rparr>) (usbSetupTransfer p n None d)" for p n
    using assms(2) by (simp add: driver_same_def usbSetupTransfer_def USBDriver.defs)
  have id: "driver_same (d\<lparr>ep0next := ep0next d, ep0n := ep0n d\<rparr>) d" by (simp add: driver_same_def)
  define P where "P r \<longleftrightarrow> (\<exists>b d'. r = Inr (b, d') \<and> sdu_ok lc d' \<and>
      (\<exists>p n. driver_same (d\<lparr>ep0next := p, ep0n := n\<rparr>) d' \<and> (b \<longrightarrow> n = 0 \<or> n < 2 ^ 32 \<and> (\<exists>a. p = Ram a \<and> lc_owns lc a n))))" for r :: "(bool \<times> SerialUSB) result"
  have len: "length linecoding = 7" by (simp add: linecoding_def)
  have "lc_owns lc lc 7" by (simp add: lc_owns_def)
  then have "P (Inr (True, usbSetupTransfer (Ram lc) 7 None d))" unfolding P_def using keep same by fastforce
  moreover have "P (Inr (True, usbSetupTransfer NullPtr 0 None d))" unfolding P_def using keep same by blast
  moreover have "P (Inr (False, d))" unfolding P_def using id assms(1) by blast
  moreover have "sduRequestsHook d \<in> {Inr (True, usbSetupTransfer (Ram lc) 7 None d), Inr (True, usbSetupTransfer NullPtr 0 None d), Inr (False, d)}"
    by (simp add: sduRequestsHook_def lc len)
  ultimately have "P (sduRequestsHook d)" by (elim insertE emptyE; simp only:)
  then show ?thesis by (simp only: P_def)
qed

lemma usb_event_enable:
  assumes ok: "sdu_ok lc d" and off: "endpoints_off d" "eff_state d \<noteq> USB_ACTIVE"
  shows "\<exists>d'. usb_event USB_EVENT_CONFIGURED (d\<lparr>configuration := c, usb_state := USB_ACTIVE\<rparr>) = Inr d' \<and>
    sdu_ok lc d' \<and> ep0_same (d\<lparr>usb_state := USB_ACTIVE\<rparr>) d' \<and> port_open (d\<lparr>configuration := c\<rparr>) d'"
proof -
  let ?d = "d\<lparr>configuration := c, usb_state := USB_ACTIVE\<rparr>"
  have n: "epc d 1 = None" using off by (simp add: endpoints_off_def USB_MAX_ENDPOINTS_def)
  then have b: "\<not> bit (receiving d) 1" "\<not> bit (transmitting d) 1"
    using ok by (auto simp: sdu_ok_def rx1_ok_def tx1_ok_def)
  have "\<exists>d'. usb_event USB_EVENT_CONFIGURED ?d = Inr d' \<and> sdu_ok lc d' \<and> ep0_same ?d d' \<and> port_open ?d d'"
  proof (rule usb_event_configured)
    show "sdu_ok lc w" if "same_sdu ?d w" "epc w 1 = Some ep1config" "receiving w = receiving ?d" "transmitting w = transmitting ?d" for w
      using that b ok by (intro sdu_ok_usb [OF ok, of w]) (auto simp: same_sdu_def sdu_ok_def)
  qed (use off b in \<open>simp_all add: endpoints_off_def\<close>)
  then show ?thesis by (simp add: ep0_same_def port_open_def)
qed

interpretation node: usb_client "usbcfg st_in st_out" "sdu_ok lc" "lc_owns lc" for st_in st_out lc
proof (unfold_locales, goal_cases)
  case (1 d d')
  then show ?case by (rule sdu_ok_frame)
next
  case (2 d d')
  then show ?case by (intro sdu_ok_usb [of lc d d']) (auto simp: same_sdu_def)
next
  case (3 d e)
  then show ?case using usb_event_ok [of lc d e] by (auto simp: usb_isr_invoke_event_cb_def usbcfg_def)
next
  case (4 d c)
  then show ?case using usb_event_enable [of lc d c] by (auto simp: usb_isr_invoke_event_cb_def usbcfg_def)
next
  case (5 d)
  then show ?case using requests_hook_ok [of lc d] by (simp add: usbcfg_def)
next
  case (8 d a bs)
  then show ?case by (rule sdu_ok_store)
qed (auto simp: lc_owns_def)

end
