(* ===== verification/SduNode.thy ===== *)
theory SduNode
  imports SduClient
begin

text \<open>
  The node on the bus: which interrupts the controller can raise in a state (\<open>hw_ok\<close>), that each of
  them leaves the invariant \<open>node_inv\<close> of both drivers, and how \<^verbatim>\<open>main\<close> brings the node up
  into that invariant.
\<close>

section \<open>What the bus can do\<close>

text \<open>
  When the controller raises an event. Suspend and resume alternate; a data packet fits the
  transaction the endpoint is armed for, and one packet makes a transaction of endpoint 0; a transfer
  to the host completes when all of its bytes have gone to the FIFO. The host is assumed to start no
  control transfer inside another one, to send the requests of the USB specification with their
  direction, and to give no new address to a configured device.
\<close>

definition hw_ok :: "bus_event \<Rightarrow> SerialUSB \<Rightarrow> bool" where
  "hw_ok e w = (case e of
      BusReset \<Rightarrow> True
    | BusSuspend \<Rightarrow> usb_state w \<noteq> USB_SUSPENDED
    | BusWakeup \<Rightarrow> usb_state w = USB_SUSPENDED
    | BusSof \<Rightarrow> True
    | RxSetup ws \<Rightarrow> length ws = 2 \<and> usb_state w \<noteq> USB_SUSPENDED \<and> \<not> bit (transmitting w) 0 \<and> \<not> bit (receiving w) 0 \<and>
        well_directed (packet_bytes 8 ws) \<and> \<not> (packet_bytes 8 ws ! 1 = USB_REQ_SET_ADDRESS \<and> usb_state w = USB_ACTIVE)
    | RxData ep n ws \<Rightarrow> bit (receiving w) ep \<and> length ws = (n + 3) div 4 \<and> n \<le> 64 \<and>
        (if ep = 0 then rxcnt (ep_out w 0) = 0 else rxcnt (ep_out w ep) + n \<le> rxsize (ep_out w ep))
    | OutDone ep \<Rightarrow> bit (receiving w) ep
    | TxSpace ep space \<Rightarrow> bit (transmitting w) ep
    | InDone ep \<Rightarrow> bit (transmitting w) ep \<and> txcnt (ep_in w ep) = txsize (ep_in w ep)
    | Tick k \<Rightarrow> True)"

text \<open>The node under the events that can happen; the others do not happen.\<close>

definition hw_step :: "(usbep \<Rightarrow> usbepstatus) \<Rightarrow> (usbep \<Rightarrow> usbepstatus) \<Rightarrow> bus_event \<Rightarrow> sdu_op" where
  "hw_step st_in st_out e w = (if hw_ok e w then bus_step st_in st_out e w else Inr w)"

abbreviation node_inv :: "nat \<Rightarrow> SerialUSB \<Rightarrow> bool" where
  "node_inv lc \<equiv> ctl_inv (sdu_ok lc) (lc_owns lc)"

lemma node_inv_sdu: "node_inv lc w \<Longrightarrow> sdu_ok lc w" "node_inv lc w \<Longrightarrow> usb_config w" "node_inv lc w \<Longrightarrow> ep0endcb w = None"
  by (simp_all add: ctl_inv_def core_ep0)

lemma setup_data_ok:
  assumes "epc d 0 = Some ep0config" "length ws = 2"
  shows "otg_rxfifo_handler SETUP_DATA 0 8 ws d = Inr (d\<lparr>setup_buf := packet_bytes 8 ws @ drop 8 (setup_buf d)\<rparr>)"
  using assms packet_read [of 8 ws 8] by (simp add: otg_rxfifo_handler_def length_packet_bytes)

text \<open>A step of the endpoint 1 side leaves endpoint 0 alone.\<close>

lemma ctl_inv_ep1:
  assumes "node_inv lc w" "sdu_ok lc w'" "ep0_same w w'" "ep_out w' 0 = ep_out w 0" "eff_state w \<noteq> USB_ACTIVE \<longrightarrow> epc w' = epc w"
  shows "node_inv lc w'"
  using assms phase_cong [of w' w] rx0_cong [of w' w]
  by (auto simp: ctl_inv_def core_inv_def ep0_same_def eff_state_def endpoints_off_def)

section \<open>Endpoint 1 leaves endpoint 0 alone\<close>

definition ep0_keep :: "SerialUSB \<Rightarrow> SerialUSB \<Rightarrow> bool" where
  "ep0_keep w w' \<longleftrightarrow> ep0_same w w' \<and> ep_out w' 0 = ep_out w 0 \<and> epc w' = epc w"

lemma ep0_keep_refl [simp]: "ep0_keep w w"
  by (simp add: ep0_keep_def ep0_same_def)

lemma ep0_keep_trans: "ep0_keep w v \<Longrightarrow> ep0_keep v u \<Longrightarrow> ep0_keep w u"
  by (simp add: ep0_keep_def ep0_same_def)

lemma ep0_keep_close [simp]: "ep0_keep w (ib_close s) = ep0_keep w (dev s)" "ep0_keep w (ob_close s) = ep0_keep w (dev s)"
  by (simp_all add: ep0_keep_def ep0_same_def ib_close_def ob_close_def)

lemma ep0_keep_upd [simp]:
  "ep0_keep w (put_in 1 i v) = ep0_keep w v" "ep0_keep w (put_out 1 x v) = ep0_keep w v" "ep0_keep w (call_lld c v) = ep0_keep w v"
  "ep0_keep w (v\<lparr>umem := m\<rparr>) = ep0_keep w v" "ep0_keep w (v\<lparr>fifo_in := l\<rparr>) = ep0_keep w v" "ep0_keep w (v\<lparr>fifo_out := k\<rparr>) = ep0_keep w v"
  "ep0_keep w (v\<lparr>transmitting := transmitting v AND NOT (ep_bit 1)\<rparr>) = ep0_keep w v"
  "ep0_keep w (v\<lparr>receiving := receiving v AND NOT (ep_bit 1)\<rparr>) = ep0_keep w v"
  by (auto simp: ep0_keep_def ep0_same_def put_in_def put_out_def call_lld_def ep_bits)

lemma ep0_keep_relaxed: "relaxed v u \<Longrightarrow> ep0_keep w v \<Longrightarrow> ep0_keep w u"
  by (auto simp: relaxed_def ep0_keep_def ep0_same_def elim!: driver_same_cases)

text \<open>The receive side leaves the transmit side alone as well, and the other way round.\<close>

definition rx_frame :: "SerialUSB \<Rightarrow> SerialUSB \<Rightarrow> bool" where
  "rx_frame w w' \<longleftrightarrow> ep0_keep w w' \<and> transmitting w' = transmitting w \<and> obqueue w' = obqueue w"

definition tx_frame :: "SerialUSB \<Rightarrow> SerialUSB \<Rightarrow> bool" where
  "tx_frame w w' \<longleftrightarrow> ep0_keep w w' \<and> receiving w' = receiving w \<and> ibqueue w' = ibqueue w"

lemma frames_refl [simp]: "rx_frame w w" "tx_frame w w"
  by (simp_all add: rx_frame_def tx_frame_def)

lemma frames_trans: "rx_frame w v \<Longrightarrow> rx_frame v u \<Longrightarrow> rx_frame w u" "tx_frame w v \<Longrightarrow> tx_frame v u \<Longrightarrow> tx_frame w u"
  by (auto simp: rx_frame_def tx_frame_def intro: ep0_keep_trans)

lemma frames_close [simp]: "rx_frame w (ib_close s) = rx_frame w (dev s)" "tx_frame w (ob_close s) = tx_frame w (dev s)"
  by (simp_all add: rx_frame_def tx_frame_def)

lemma frames_flags [simp]: "rx_frame w (chnAddFlagsI f w)" "tx_frame w (chnAddFlagsI f w)"
  using ep0_keep_relaxed [OF flags_relaxed, of w w f] by (simp_all add: rx_frame_def tx_frame_def)

lemma start_frame:
  "usbStartReceiveI 1 p n v = Inr u \<Longrightarrow> rx_frame v u" "usbStartTransmitI 1 p n v = Inr u \<Longrightarrow> tx_frame v u"
  by (auto simp: usbStartReceiveI_def usbStartTransmitI_def dbgAssert_def dbgCheck_def out_state_of_def in_state_of_def
      usb_lld_start_out_def usb_lld_start_in_def deref_def res_simps ep0_keep_def ep0_same_def put_out_def put_in_def call_lld_def
      rx_frame_def tx_frame_def ep_bits Let_def split: option.splits if_splits)

lemma start_receive_frame: "sdu_config v = Some serusbcfg \<Longrightarrow> sdu_start_receive v = Inr (b, u) \<Longrightarrow> rx_frame v u"
  by (auto simp: sdu_start_receive_def res_simps split: option.splits if_splits dest: start_frame)

lemma queue_ops_dev:
  "ibqPostFullBufferI n s = Inr s' \<Longrightarrow> dev s' = dev s" "obqReleaseEmptyBufferI s = Inr s' \<Longrightarrow> dev s' = dev s"
  "obqTryFlushI s = (b, s') \<Longrightarrow> dev s' = dev s"
  by (auto simp: ibqPostFullBufferI_def obqReleaseEmptyBufferI_def obqTryFlushI_def dbgCheck_def dbgAssert_def obq_post_def Let_def
      split: if_splits option.splits)

lemma received_frame:
  assumes "sdu_config v = Some serusbcfg" "sduDataReceived 1 v = Inr u"
  shows "rx_frame v u"
proof -
  let ?n = "rxcnt (ep_out v 1)"
  have keep: "rx_frame v u" if "rx_frame v x" "sdu_config x = Some serusbcfg" "drop_result (sdu_start_receive x) = Inr u" for x
    using that start_receive_frame frames_trans by (auto simp: drop_result_def res_simps)
  show ?thesis
  proof (cases "out_params v 0 \<and> 0 < ?n")
    case True
    then obtain s where s: "ibqPostFullBufferI ?n (ib_view (chnAddFlagsI CHN_INPUT_AVAILABLE v)) = Inr s"
        "drop_result (sdu_start_receive (ib_close s)) = Inr u"
      using assms by (auto simp: sduDataReceived_def usb_lld_get_transaction_size_def res_simps out_state_of_def deref_def Let_def
          split: option.splits if_splits)
    have "dev s = chnAddFlagsI CHN_INPUT_AVAILABLE v" using queue_ops_dev(1) [OF s(1)] by simp
    then show ?thesis using keep [OF _ _ s(2)] assms(1) by simp
  next
    case False
    then show ?thesis using assms keep [of v]
      by (auto simp: sduDataReceived_def usb_lld_get_transaction_size_def res_simps out_state_of_def deref_def Let_def
          split: option.splits if_splits)
  qed
qed

lemma transmitted_frame:
  assumes "sduDataTransmitted 1 v = Inr u"
  shows "tx_frame v u"
proof (cases "in_params v 0")
  case True
  let ?v = "chnAddFlagsI CHN_OUTPUT_EMPTY v"
  define A where "A = (if 0 < txsize (ep_in ?v 1) then obqReleaseEmptyBufferI (ob_view ?v) else Inr (ob_view ?v))"
  define F where "F c s = (let w = ob_close s in case obqGetFullBufferI (ob_view w) of
          Some (buf, n) \<Rightarrow> usbStartTransmitI 1 (Ram buf) n w
        | None \<Rightarrow> if 0 < txsize (ep_in w 1) \<and> (word_of_nat (txsize (ep_in w 1)) :: 32 word) AND (word_of_nat (in_maxsize c) - 1) = 0
            then usbStartTransmitI 1 (Var ''setup'' 0) 0 w else Inr w)" for c :: USBEndpointConfig and s
  have eq: "sduDataTransmitted 1 v = bindE (deref ''epc'' (epc ?v 1)) (\<lambda>c. bindE (in_state_of 1 ?v) (\<lambda>w. bindE
      (if 0 < txsize (ep_in w 1) then obqReleaseEmptyBufferI (ob_view w) else Inr (ob_view w)) (F c)))"
    using True by (simp add: sduDataTransmitted_def F_def [abs_def] Let_def)
  obtain c s where s: "A = Inr s" "F c s = Inr u"
    using assms [unfolded eq] unfolding bindE_Inr_iff in_state_of_def A_def by (cases "0 < txsize (ep_in v 1)") (auto split: if_splits)
  then have u: "u = ob_close s \<or> (\<exists>p n. usbStartTransmitI 1 p n (ob_close s) = Inr u)"
    by (auto simp: F_def Let_def split: option.splits if_splits)
  have "dev s = ?v" using s(1) queue_ops_dev(2) [of "ob_view ?v" s] by (auto simp: A_def split: if_splits)
  then have "tx_frame v (ob_close s)" by simp
  moreover have "tx_frame (ob_close s) u" using u start_frame(2) frames_refl(2) by blast
  ultimately show ?thesis by (rule frames_trans(2))
next
  case False
  then show ?thesis using assms by (simp add: sduDataTransmitted_def)
qed

lemma sof_frame:
  assumes "sdu_config v = Some serusbcfg" "sduSOFHookI v = Inr u"
  shows "tx_frame v u"
proof -
  obtain b s where s: "obqTryFlushI (ob_view v) = (b, s)" by fastforce
  have "tx_frame v (ob_close s)" using queue_ops_dev(3) [OF s] by simp
  then show ?thesis using assms s start_frame(2) frames_trans(2) [of v "ob_close s"]
    by (auto simp: sduSOFHookI_def Let_def split: if_splits option.splits simp del: frames_close)
qed

section \<open>No event halts the node\<close>

lemma ep1_only: "sdu_ok lc w \<Longrightarrow> bit (receiving w) ep \<Longrightarrow> ep = 0 \<or> ep = 1" "sdu_ok lc w \<Longrightarrow> bit (transmitting w) ep \<Longrightarrow> ep = 0 \<or> ep = 1"
  unfolding sdu_ok_def by (metis One_nat_def less_2_cases not_less)+

lemma node_inv_keep:
  assumes "node_inv lc w" "sdu_ok lc w'" "ep0_keep w w'"
  shows "node_inv lc w'"
  using assms ctl_inv_ep1 [of lc w w'] by (simp add: ep0_keep_def)

text \<open>The events of endpoint 1 and of the bus that neither reset nor configure the device.\<close>

definition ep1_event :: "bus_event \<Rightarrow> bool" where
  "ep1_event e = (case e of RxData ep n ws \<Rightarrow> ep = 1 | OutDone ep \<Rightarrow> ep = 1 | TxSpace ep space \<Rightarrow> ep = 1 | InDone ep \<Rightarrow> ep = 1
     | BusSof \<Rightarrow> True | Tick k \<Rightarrow> True | _ \<Rightarrow> False)"

text \<open>
  Neither direction stands still: a buffer is being received unless the input queue is full, and
  one is being sent unless the output queue is empty.
\<close>

definition armed :: "SerialUSB \<Rightarrow> bool" where
  "armed w \<longleftrightarrow> (bit (receiving w) 1 \<or> ibqIsFullI (ibqueue w)) \<and> (bit (transmitting w) 1 \<or> obqIsEmptyI (obqueue w))"

lemma ep1_step_ok:
  assumes inv: "node_inv lc w" and e: "ep1_event e" "hw_ok e w"
  shows "\<exists>w' d u. bus_step a b e w = Inr w' \<and> sess lc w d u w' \<and> ep0_keep w w' \<and> (usb_state w = USB_ACTIVE \<and> armed w \<longrightarrow> armed w') \<and>
    (\<not> bit (receiving w) 1 \<longrightarrow> d = [] \<and> \<not> bit (receiving w') 1)"
proof -
  have ok: "sdu_ok lc w" "usb_config w" using node_inv_sdu [OF inv] by simp_all
  have c: "sdu_config w = Some serusbcfg" using ok by (simp add: sdu_ok_def)
  have m: "(1 :: nat) \<le> USB_MAX_ENDPOINTS" by (simp add: USB_MAX_ENDPOINTS_def)
  note defs = bus_step_def serve_def serve_single
  show ?thesis
  proof (cases e)
    case BusSof
    obtain w' where w': "sduSOFHookI w = Inr w'" "sess lc w [] [] w'"
        "usb_state w = USB_ACTIVE \<longrightarrow> bit (transmitting w) 1 \<or> obqIsEmptyI (obqueue w) \<longrightarrow> bit (transmitting w') 1 \<or> obqIsEmptyI (obqueue w')"
      using sof_ok [OF ok(1)] by blast
    have f: "tx_frame w w'" by (rule sof_frame [OF c w'(1)])
    then have "usb_state w = USB_ACTIVE \<and> armed w \<longrightarrow> armed w'" "ep0_keep w w'" "\<not> bit (receiving w) 1 \<longrightarrow> \<not> bit (receiving w') 1"
      using w'(3) by (auto simp: tx_frame_def armed_def)
    moreover have "bus_step a b e w = Inr w'"
      using w'(1) BusSof ok(2) by (simp add: defs usb_isr_invoke_sof_cb_def usbcfg_def sof_handler_def)
    ultimately show ?thesis using w'(2) by blast
  next
    case (RxData ep n ws)
    then have r: "ep = 1" "bit (receiving w) 1" "n \<le> 4 * length ws" "rxcnt (ep_out w 1) + n \<le> rxsize (ep_out w 1)"
      using e by (auto simp: ep1_event_def hw_ok_def)
    have x: "rxsize (ep_out w 1) = 256" "\<exists>p. rxbuf (ep_out w 1) = Ram p" using r ok by (auto simp: sdu_ok_def rx1_ok_def)
    then obtain w' where w': "otg_rxfifo_handler OUT_DATA 1 n ws w = Inr w'" "sess lc w [] [] w'" using rx_data_ok [OF ok(1) r(2,3)] r(4) by auto
    have "ep0_keep w w'" using w'(1) x(2)
      by (auto simp: otg_rxfifo_handler_def res_simps out_state_of_def Let_def ptr_store_def split: if_splits usbptr.splits)
    moreover have "armed w' = armed w" using w'(1) x(2)
      by (auto simp: otg_rxfifo_handler_def res_simps out_state_of_def Let_def ptr_store_def armed_def put_out_def split: if_splits usbptr.splits)
    ultimately show ?thesis using RxData r w' by (auto simp: defs)
  next
    case (OutDone ep)
    then have r: "ep = 1" "bit (receiving w) 1" using e by (simp_all add: ep1_event_def hw_ok_def)
    obtain w' d where w': "otg_epout_handler (usbcfg a b) False True 1 w = Inr w'" "sess lc w d [] w'"
        "usb_state w = USB_ACTIVE \<longrightarrow> bit (receiving w') 1 \<or> ibqIsFullI (ibqueue w')"
      using rx_done_ok [OF ok(1) r(2)] by blast
    have p: "epc w 1 = Some ep1config" using ok r by (simp add: sdu_ok_def rx1_ok_def)
    have f: "rx_frame (w\<lparr>receiving := receiving w AND NOT (ep_bit 1)\<rparr>) w'" using received_frame [OF _ w'(1) [unfolded ep1_out_cb [OF p]]] c by simp
    then have "ep0_keep w w'" unfolding rx_frame_def by (intro ep0_keep_trans [of w "w\<lparr>receiving := receiving w AND NOT (ep_bit 1)\<rparr>" w']) simp_all
    then show ?thesis using w' OutDone r m f by (auto simp: defs rx_frame_def armed_def)
  next
    case (TxSpace ep space)
    then have r: "ep = 1" "bit (transmitting w) 1" using e by (simp_all add: ep1_event_def hw_ok_def)
    obtain w' where w': "otg_epin_handler (usbcfg a b) False (Some space) 1 w = Inr w'" "sess lc w [] [] w'"
      using tx_space_sess [OF ok(1) r(2)] by blast
    have "epc w 1 = Some ep1config" using ok r by (simp add: sdu_ok_def tx1_ok_def)
    then have "w' = w \<or> (\<exists>i l. w' = put_in 1 i (w\<lparr>fifo_out := l\<rparr>))"
      using otg_txfifo_total [of w 1 ep1config space] w'(1) by (auto simp: otg_epin_handler_def)
    then have "ep0_keep w w'" "armed w' = armed w" "receiving w' = receiving w"
      by (auto simp: armed_def put_in_def ep0_keep_def ep0_same_def)
    then show ?thesis using w' TxSpace r m by (auto simp: defs)
  next
    case (InDone ep)
    then have r: "ep = 1" "bit (transmitting w) 1" "txcnt (ep_in w 1) = txsize (ep_in w 1)" using e by (simp_all add: ep1_event_def hw_ok_def)
    obtain w' u where w': "otg_epin_handler (usbcfg a b) True None 1 w = Inr w'" "sess lc w [] u w'"
        "bit (transmitting w') 1 \<or> obqIsEmptyI (obqueue w')"
      using tx_done_ok [OF ok(1) r(2,3)] by blast
    have p: "epc w 1 = Some ep1config" "tx_totsize (ep_in w 1) = txsize (ep_in w 1)" using ok r by (simp_all add: sdu_ok_def tx1_ok_def)
    have f: "tx_frame (w\<lparr>transmitting := transmitting w AND NOT (ep_bit 1)\<rparr>) w'" by (rule transmitted_frame [OF w'(1) [unfolded ep1_in_cb [OF p]]])
    then have "ep0_keep w w'" unfolding tx_frame_def by (intro ep0_keep_trans [of w "w\<lparr>transmitting := transmitting w AND NOT (ep_bit 1)\<rparr>" w']) simp_all
    moreover have "usb_state w = USB_ACTIVE \<and> armed w \<longrightarrow> armed w'" "\<not> bit (receiving w) 1 \<longrightarrow> \<not> bit (receiving w') 1"
      using f w'(3) by (auto simp: tx_frame_def armed_def)
    moreover have "bus_step a b e w = Inr w'" using w'(1) InDone r m by (simp add: defs)
    ultimately show ?thesis using w'(2) by blast
  next
    case (Tick k)
    have "relaxed w (w\<lparr>sys_now := sys_now w + k\<rparr>)" by (simp add: relaxed_def driver_same_def USBDriver.defs same_buffers_def)
    from relaxed_sess [OF ok(1) this]
    show ?thesis using Tick by (auto simp: bus_step_def ep0_keep_def ep0_same_def armed_def)
  qed (use e in \<open>simp_all add: ep1_event_def\<close>)
qed

definition session_event :: "bus_event \<Rightarrow> bool" where
  "session_event e \<longleftrightarrow> ep1_event e \<or> e = BusSuspend \<or> e = BusWakeup"

lemma state_sess:
  assumes ok: "sdu_ok lc w" and e: "eff_state w' = eff_state w" and w': "w' = w\<lparr>saved_state := v, usb_state := u\<rparr>"
  shows "sess lc w [] [] w'"
  using ok e by (intro sess_usb) (auto simp: w' same_sdu_def sdu_ok_def rx1_ok_def tx1_ok_def rx_tail_def tx_tail_def rx_log_def tx_log_def Let_def)

lemma event_sess:
  assumes "sdu_ok lc w" "eff_state v = eff_state w" "v = w\<lparr>saved_state := x, usb_state := y\<rparr>" "usb_config w" "e \<noteq> USB_EVENT_CONFIGURED"
    "usb_isr_invoke_event_cb (usbcfg a b) e v = Inr w'"
  shows "sess lc w [] [] w'"
proof -
  have s: "sess lc w [] [] v" by (rule state_sess [OF assms(1-3)])
  then have "sdu_ok lc v" by (simp add: sess_def)
  from usb_event_ok [OF this assms(5)] assms(3,4,6) have "sess lc v [] [] w'" by (auto simp: usb_isr_invoke_event_cb_def usbcfg_def)
  from sess_trans [OF s this] show ?thesis by simp
qed

lemma session_step_ok:
  assumes inv: "node_inv lc w" and e: "session_event e" "hw_ok e w"
  shows "\<exists>w' d u. bus_step a b e w = Inr w' \<and> sess lc w d u w' \<and> node_inv lc w'"
proof -
  have ok: "sdu_ok lc w" "usb_config w" using node_inv_sdu [OF inv] by simp_all
  consider "ep1_event e" | "e = BusSuspend" | "e = BusWakeup" using e by (auto simp: session_event_def)
  then show ?thesis
  proof cases
    case 1
    from ep1_step_ok [OF inv 1 e(2)] obtain w' d u where "bus_step a b e w = Inr w'" "sess lc w d u w'" "ep0_keep w w'" by blast
    then show ?thesis using node_inv_keep [OF inv] by (auto simp: sess_def)
  next
    case 2
    then have s: "usb_state w \<noteq> USB_SUSPENDED" using e by (simp add: hw_ok_def)
    obtain w' where w': "usb_suspend (usbcfg a b) w = Inr w'" "node_inv lc w'" using node.suspend_ok [OF inv s] by blast
    have "sess lc w [] [] w'"
      by (rule event_sess [OF ok(1) _ refl ok(2) _ w'(1) [unfolded usb_suspend_def]]) (use s in \<open>simp_all add: eff_state_def\<close>)
    then show ?thesis using w' 2 by (auto simp: bus_step_def serve_def serve_single)
  next
    case 3
    then have s: "usb_state w = USB_SUSPENDED" using e by (simp add: hw_ok_def)
    obtain w' where w': "usb_wakeup (usbcfg a b) w = Inr w'" "node_inv lc w'" using node.wakeup_ok [OF inv s] by blast
    have st: "w\<lparr>usb_state := saved_state w\<rparr> = w\<lparr>saved_state := saved_state w, usb_state := saved_state w\<rparr>" by simp
    have "saved_state w \<noteq> USB_SUSPENDED" using inv s by (auto simp: ctl_inv_def core_inv_def eff_state_def)
    then have "sess lc w [] [] w'"
      by (intro event_sess [OF ok(1) _ st ok(2) _ w'(1) [unfolded usb_wakeup_def]]) (use s in \<open>simp_all add: eff_state_def\<close>)
    then show ?thesis using w' 3 by (auto simp: bus_step_def serve_def serve_single)
  qed
qed

text \<open>Every event, those of endpoint 0 and the reset included.\<close>

lemma bus_step_ok:
  assumes inv: "node_inv lc w" and e: "hw_ok e w"
  shows "\<exists>w'. bus_step a b e w = Inr w' \<and> node_inv lc w'"
proof (cases "session_event e")
  case True
  from session_step_ok [OF inv True e] show ?thesis by blast
next
  case False
  have ok: "sdu_ok lc w" "usb_config w" "ep0endcb w = None" using node_inv_sdu [OF inv] by simp_all
  note ep = ep1_only [OF ok(1)]
  have m: "(0 :: nat) \<le> USB_MAX_ENDPOINTS" by simp
  note defs = bus_step_def serve_def serve_single serve_single(1,2) [OF m]
  show ?thesis
  proof (cases e)
    case BusReset
    then show ?thesis using node.reset_ok [OF ok(2,1,3), of a b] by (auto simp: defs)
  next
    case (RxSetup ws)
    let ?w = "w\<lparr>setup_buf := packet_bytes 8 ws @ drop 8 (setup_buf w)\<rparr>" and ?p = "packet_bytes 8 ws"
    have h: "length ws = 2" "usb_state w \<noteq> USB_SUSPENDED" "\<not> bit (transmitting w) 0" "\<not> bit (receiving w) 0" "well_directed ?p"
      "\<not> (?p ! 1 = USB_REQ_SET_ADDRESS \<and> usb_state w = USB_ACTIVE)"
      using e RxSetup by (simp_all add: hw_ok_def)
    have ep0: "epc w 0 = Some ep0config" using inv by (simp add: ctl_inv_def core_ep0)
    have l: "length ?p = 8" using h(1) by (simp add: length_packet_bytes)
    have "node_inv lc ?w" using inv phase_cong [of ?w w] rx0_cong [of ?w w] by (simp add: ctl_inv_def)
    from node.setup_ok [OF this, of a b] h l obtain w' where "usb_isr_invoke_setup_cb (usbcfg a b) 0 ?w = Inr w'" "node_inv lc w'"
      by (auto simp: well_directed_def out_dir_def nth_append)
    then show ?thesis using RxSetup setup_data_ok [OF ep0 h(1)] by (simp add: defs otg_epout_handler_def)
  next
    case (RxData ep n ws)
    then have "ep = 0" "bit (receiving w) 0" "rxcnt (ep_out w 0) = 0" "n \<le> 4 * length ws" "n \<le> 64"
      using e False ep(1) [of ep] by (auto simp: hw_ok_def session_event_def ep1_event_def)
    then show ?thesis using RxData node.out_data_ok [OF inv, of n ws] by (auto simp: defs)
  next
    case (OutDone ep)
    then have "ep = 0" "bit (receiving w) 0" using e False ep(1) [of ep] by (auto simp: hw_ok_def session_event_def ep1_event_def)
    then show ?thesis using OutDone node.out_done_ok [OF inv, of a b] by (simp add: defs)
  next
    case (TxSpace ep space)
    then have "ep = 0" "bit (transmitting w) 0" using e False ep(2) [of ep] by (auto simp: hw_ok_def session_event_def ep1_event_def)
    then show ?thesis using TxSpace node.tx_space_ok [OF inv, of a b] by (simp add: defs)
  next
    case (InDone ep)
    then have "ep = 0" "bit (transmitting w) 0" using e False ep(2) [of ep] by (auto simp: hw_ok_def session_event_def ep1_event_def)
    then show ?thesis using InDone node.in_done_ok [OF inv, of a b] by (simp add: defs)
  qed (use False in \<open>simp_all add: session_event_def ep1_event_def\<close>)
qed

interpretation nodek: keeps_total "hw_step st_in st_out" "node_inv lc" "\<lambda>e w. True" for st_in st_out lc
proof (unfold_locales, goal_cases)
  case (1 s e s')
  then show ?case using bus_step_ok [of lc s e st_in st_out] by (auto simp: hw_step_def split: if_splits)
next
  case (2 s e)
  then show ?case using bus_step_ok [of lc s e st_in st_out] by (auto simp: hw_step_def)
qed

section \<open>Starting the node\<close>

text \<open>
  The driver objects at power up: static storage, zero, with the arrays of the buffers at \<open>a\<close> and
  \<open>b\<close> and the line coding at \<open>lc\<close>; \<open>m\<close> is the memory.
\<close>

definition power_on :: "mem \<Rightarrow> nat \<Rightarrow> nat \<Rightarrow> nat \<Rightarrow> SerialUSB" where
  "power_on m a b lc = \<lparr>usb_state = USB_UNINIT, usb_config = False, transmitting = 0, receiving = 0, epc = (\<lambda>_. None),
     in_params = (\<lambda>_. False), out_params = (\<lambda>_. False), ep0state = USB_EP0_STP_WAITING, ep0next = NullPtr, ep0n = 0,
     ep0endcb = None, setup_pkt = replicate 8 0, status = 0, address = 0, configuration = 0, saved_state = USB_UNINIT,
     ep_in = (\<lambda>_. zero_in), ep_out = (\<lambda>_. zero_out), setup_buf = replicate 8 0, umem = store_bytes m lc linecoding,
     fifo_out = [], fifo_in = [], lld = [], sdu_state = SDU_UNINIT,
     ibqueue = \<lparr>waiting = [], suspended = False, bcounter = 0, bwrptr = 0, brdptr = 0, btop = 0, bsize = 0, bn = 0, buffers = 0, ptr = None, top = None\<rparr>,
     obqueue = \<lparr>waiting = [], suspended = False, bcounter = 0, bwrptr = 0, brdptr = 0, btop = 0, bsize = 0, bn = 0, buffers = 0, ptr = None, top = None\<rparr>,
     ib = a, ob = b, linecoding_at = lc, sdu_config = None, listeners = [], ethreads = (\<lambda>_. \<lparr>epending = 0, ewait = Running\<rparr>),
     sys_now = 0, running = 0, ready = [], sleeps = [], switches = []\<rparr>"

definition CH_CFG_ST_FREQUENCY :: nat where "CH_CFG_ST_FREQUENCY = 10000"

definition TIME_MS2I :: "nat \<Rightarrow> sysinterval" where
  "TIME_MS2I msecs = word_of_nat ((msecs * CH_CFG_ST_FREQUENCY + 999) div 1000)"

text \<open>\<^verbatim>\<open>main\<close> brings the serial driver and the USB driver up after \<^verbatim>\<open>halInit\<close> has initialized the object.\<close>

definition main_usb :: sdu_op where
  "main_usb w =
     bindE (sduObjectInit w) (\<lambda>w.
     bindE (sduStart serusbcfg w) (\<lambda>w.
       let w = call_lld LldDisconnectBus w;
           w = w\<lparr>sys_now := sys_now w + TIME_MS2I 1500\<rparr>
       in bindE (usbStart w) (\<lambda>w. Inr (call_lld LldConnectBus w))))"

text \<open>The three arrays lie apart in the 32-bit address space.\<close>

definition placed :: "nat \<Rightarrow> nat \<Rightarrow> nat \<Rightarrow> bool" where
  "placed a b lc \<longleftrightarrow> a + 520 < 2 ^ 32 \<and> b + 520 < 2 ^ 32 \<and> (a + 520 \<le> b \<or> b + 520 \<le> a) \<and>
     (lc + 7 \<le> a \<or> a + 520 \<le> lc) \<and> (lc + 7 \<le> b \<or> b + 520 \<le> lc)"

lemma main_usb_ok:
  assumes "placed a b lc"
  shows "\<exists>w. main_usb (usbObjectInit (power_on m a b lc)) = Inr w \<and> sdu_ok lc w \<and> usb_config w \<and> ep0endcb w = None \<and>
    usb_state w = USB_READY \<and> ibq_stream (ib_view w) = [] \<and> obq_stream (ob_view w) = []"
proof -
  let ?w = "usbObjectInit (power_on m a b lc)"
  obtain iq where iq: "ibqObjectInit True (Some a) 256 2 = Inr iq" "buffers iq = a" "btop iq = a + 520" "bsize iq = 260"
    by (simp add: ibqObjectInit_def dbgCheck_def)
  obtain oq where oq: "obqObjectInit True (Some b) 256 2 = Inr oq" "buffers oq = b" "btop oq = b + 520" "bsize oq = 260"
    by (simp add: obqObjectInit_def dbgCheck_def)
  have i: "ibq_inv (s\<lparr>bq := iq\<rparr>)" "ibq_stream (s\<lparr>bq := iq\<rparr>) = []" for s :: sduq
    using ibq_inv_init [OF iq(1), of s] assms by (simp_all add: placed_def BQ_BUFFER_SIZE_def)
  have o: "obq_inv (s\<lparr>bq := oq\<rparr>)" "obq_stream (s\<lparr>bq := oq\<rparr>) = []" for s :: sduq
    using obq_inv_init [OF oq(1), of s] assms by (simp_all add: placed_def BQ_BUFFER_SIZE_def)
  obtain w where w: "main_usb ?w = Inr w" "ibqueue w = iq" "obqueue w = oq" "ib w = a" "ob w = b" "linecoding_at w = lc"
      "sdu_config w = Some serusbcfg" "sdu_state w = SDU_READY" "in_params w 0" "out_params w 0" "usb_config w" "usb_state w = USB_READY"
      "receiving w = 0" "transmitting w = 0" "ep0endcb w = None"
    using iq(1) oq(1)
    by (simp add: main_usb_def sduObjectInit_def sduStart_def set_params_def usbStart_def Let_def dbgAssert_def call_lld_def clear_epc_def
        usbObjectInit_def power_on_def SERIAL_USB_BUFFERS_SIZE_def SERIAL_USB_BUFFERS_NUMBER_def USB_MAX_ENDPOINTS_def)
  have v: "ib_view w = (ib_view w)\<lparr>bq := iq\<rparr>" "ob_view w = (ob_view w)\<lparr>bq := oq\<rparr>" using w by (simp_all add: ib_view_def ob_view_def)
  then have "ibq_inv (ib_view w)" "ibq_stream (ib_view w) = []" "obq_inv (ob_view w)" "obq_stream (ob_view w) = []"
    using i [of "ib_view w"] o [of "ob_view w"] by metis+
  moreover have "layout lc w" using w iq oq assms by (simp add: layout_def placed_def)
  ultimately show ?thesis using w by (intro exI [of _ w]) (simp add: sdu_ok_def eff_state_def)
qed



end
