(* ===== verification/SduControl.thy ===== *)
theory SduControl
  imports SduNode
begin

text \<open>
  Control transfers on the node: SET_CONFIGURATION opens the serial port, GET_DESCRIPTOR sends the
  descriptors of \<open>Usbcfg\<close> through all stages of the transfer, and two sequences of requests a host may
  send stop the system.
\<close>

lemma node_ep0: "node_inv lc w \<Longrightarrow> epc w 0 = Some ep0config"
  by (simp add: ctl_inv_def core_ep0)

lemma hw_step_inv: "node_inv lc w \<Longrightarrow> hw_step a b e w = Inr w' \<Longrightarrow> node_inv lc w'"
  using nodek.step_keeps .

section \<open>A SETUP packet\<close>

text \<open>The state in which a request is handled: the packet is in place and a new transfer begins.\<close>

definition setup_state :: "32 word list \<Rightarrow> SerialUSB \<Rightarrow> SerialUSB" where
  "setup_state ws w = (let p = packet_bytes 8 ws @ drop 8 (setup_buf w) in
     w\<lparr>setup_buf := p, setup_pkt := p, ep0state := USB_EP0_STP_WAITING\<rparr>)"

lemma rx_setup_eq:
  assumes "epc w 0 = Some ep0config" "length ws = 2"
  shows "bus_step a b (RxSetup ws) w = bindE (handle_request (usbcfg a b) (setup_state ws w)) (\<lambda>(done, d).
      if \<not> done then ep0_error (usbcfg a b) d else ep0_start_stage d)"
proof -
  let ?p = "packet_bytes 8 ws @ drop 8 (setup_buf w)" and ?w = "w\<lparr>setup_buf := packet_bytes 8 ws @ drop 8 (setup_buf w)\<rparr>"
  define e where "e = (if ep0state ?w \<noteq> USB_EP0_STP_WAITING then ?w\<lparr>ep0state := USB_EP0_STP_WAITING\<rparr> else ?w)"
  have e: "e\<lparr>setup_pkt := ?p\<rparr> = setup_state ws w" "epc e 0 = Some ep0config" "setup_buf e = ?p"
    using assms by (simp_all add: setup_state_def Let_def e_def)
  have "bindE r Inr = r" for r :: "SerialUSB result" by (cases r) auto
  then have "bus_step a b (RxSetup ws) w = usb_ep0setup (usbcfg a b) 0 ?w"
    using assms setup_data_ok [OF assms]
    by (simp add: bus_step_def serve_def serve_single otg_epout_handler_def usb_isr_invoke_setup_cb_def)
  then show ?thesis unfolding usb_ep0setup_def Let_def e_def [symmetric] using e by (simp add: usb_lld_read_setup_def)
qed

lemma setup_state_fields [simp]:
  "usb_state (setup_state ws w) = usb_state w" "usb_config (setup_state ws w) = usb_config w" "epc (setup_state ws w) = epc w"
  "transmitting (setup_state ws w) = transmitting w" "receiving (setup_state ws w) = receiving w" "umem (setup_state ws w) = umem w"
  "fifo_out (setup_state ws w) = fifo_out w" "fifo_in (setup_state ws w) = fifo_in w" "ib (setup_state ws w) = ib w" "ob (setup_state ws w) = ob w"
  "setup_pkt (setup_state ws w) = packet_bytes 8 ws @ drop 8 (setup_buf w)" "core_inv (setup_state ws w) = core_inv w"
  "eff_state (setup_state ws w) = eff_state w" "endpoints_off (setup_state ws w) = endpoints_off w"
  by (simp_all add: setup_state_def Let_def eff_state_def endpoints_off_def)

lemma setup_state_ok: "sdu_ok lc (setup_state ws w) = sdu_ok lc w"
  unfolding setup_state_def Let_def by (simp add: node.ok_core)

text \<open>The eight bytes of a packet, low byte first.\<close>

definition setup_bytes :: "byte \<Rightarrow> byte \<Rightarrow> 16 word \<Rightarrow> 16 word \<Rightarrow> 16 word \<Rightarrow> byte list" where
  "setup_bytes bmRequestType bRequest wValue wIndex wLength =
     [bmRequestType, bRequest] @ USB_DESC_WORD wValue @ USB_DESC_WORD wIndex @ USB_DESC_WORD wLength"

text \<open>The answer to a request without data: the status stage starts.\<close>

definition ack_state :: "SerialUSB \<Rightarrow> SerialUSB" where
  "ack_state d = (let e = (usbSetupTransfer NullPtr 0 None d)\<lparr>ep0state := USB_EP0_IN_SENDING_STS\<rparr> in
     call_lld (LldStartIn 0) (put_in 0 \<lparr>txsize = 0, txcnt = 0, txbuf = NullPtr, tx_totsize = 0\<rparr>
       (e\<lparr>transmitting := transmitting e OR ep_bit 0\<rparr>)))"

lemma ack_stage:
  assumes "epc d 0 = Some ep0config" "\<not> bit (transmitting d) 0" "setup_pkt d ! 0 = 0"
  shows "ep0_start_stage (usbSetupTransfer NullPtr 0 None d) = Inr (ack_state d)"
proof -
  let ?e = "(usbSetupTransfer NullPtr 0 None d)\<lparr>ep0state := USB_EP0_IN_SENDING_STS\<rparr>"
  have e: "epc ?e 0 = Some ep0config" "\<not> bit (transmitting ?e) 0" using assms by (simp_all add: usbSetupTransfer_def)
  have "setup_pkt d ! 0 AND USB_RTYPE_DIR_MASK \<noteq> USB_RTYPE_DIR_DEV2HOST" using assms(3) by (simp add: usb_consts One_nat_def)
  then show ?thesis using usbStartTransmitI_ok [OF e(1) _ e(2), of NullPtr 0]
    by (simp add: ep0_start_stage_def Let_def usbSetupTransfer_def tx_limit_def ack_state_def)
qed

lemma ack_state_fields [simp]:
  "usb_state (ack_state d) = usb_state d" "epc (ack_state d) = epc d" "ep0state (ack_state d) = USB_EP0_IN_SENDING_STS"
  "ep_in (ack_state d) 0 = \<lparr>txsize = 0, txcnt = 0, txbuf = NullPtr, tx_totsize = 0\<rparr>" "ep0endcb (ack_state d) = None"
  "bit (transmitting (ack_state d)) 0" "usb_config (ack_state d) = usb_config d" "same_sdu d (ack_state d)" "receiving (ack_state d) = receiving d"
  "setup_buf (ack_state d) = setup_buf d"
  by (simp_all add: ack_state_def Let_def usbSetupTransfer_def put_in_def call_lld_def ep_bits same_sdu_def)

section \<open>Configuring the device\<close>

lemma set_configuration_eq:
  assumes inv: "node_inv lc w" and st: "usb_state w \<in> {USB_READY, USB_SELECTED}" and ws: "length ws = 2"
    and p: "packet_bytes 8 ws ! 0 = 0" "packet_bytes 8 ws ! 1 = USB_REQ_SET_CONFIGURATION" "packet_bytes 8 ws ! 2 \<noteq> 0"
    and idle: "\<not> bit (transmitting w) 0"
  shows "\<exists>d. bus_step a b (RxSetup ws) w = Inr (ack_state d) \<and> usb_state d = USB_ACTIVE \<and>
    port_open (w\<lparr>configuration := packet_bytes 8 ws ! 2\<rparr>) (ack_state d) \<and> bit (receiving d) 0 = bit (receiving w) 0"
proof -
  let ?e = "setup_state ws w" and ?cfg = "usbcfg a b" and ?c = "packet_bytes 8 ws ! 2"
  have ok: "core_inv w" "sdu_ok lc w" using inv by (simp_all add: ctl_inv_def)
  have ep: "epc w 0 = Some ep0config" using ok(1) by (rule core_ep0)
  have len: "length (packet_bytes 8 ws) = 8" using ws by (simp add: length_packet_bytes)
  have pk: "setup_pkt ?e ! 0 = 0" "setup_pkt ?e ! 1 = USB_REQ_SET_CONFIGURATION" "setup_pkt ?e ! 2 = ?c"
    using p len by (simp_all add: nth_append)
  have off: "endpoints_off ?e" "eff_state ?e \<noteq> USB_ACTIVE" using ok(1) st by (auto simp: core_inv_def eff_state_def)
  have n: "usb_state w \<noteq> USB_ACTIVE" using st by auto
  obtain d where d: "usb_event USB_EVENT_CONFIGURED (?e\<lparr>configuration := ?c, usb_state := USB_ACTIVE\<rparr>) = Inr d"
      "ep0_same (?e\<lparr>usb_state := USB_ACTIVE\<rparr>) d" "port_open (?e\<lparr>configuration := ?c\<rparr>) d"
    using usb_event_enable [of lc ?e ?c] setup_state_ok [of lc ws w] ok(2) off by blast
  have hook: "sduRequestsHook ?e = Inr (False, ?e)" using pk by (simp add: sduRequestsHook_def usb_consts)
  have "handle_request ?cfg ?e = Inr (True, usbSetupTransfer NullPtr 0 None d)"
    using pk p(3) d(1) hook n core_ep0(2) [OF ok(1)]
    by (simp add: handle_request_def usbcfg_def default_handler_def set_configuration_def usb_isr_invoke_event_cb_def usb_consts Let_def)
  moreover have f: "epc d 0 = Some ep0config" "\<not> bit (transmitting d) 0" "setup_pkt d ! 0 = 0" "usb_state d = USB_ACTIVE"
      "bit (receiving d) 0 = bit (receiving w) 0"
    using d(2) ep idle pk by (simp_all add: ep0_same_def)
  moreover have "port_open (w\<lparr>configuration := ?c\<rparr>) (ack_state d)"
    using d(3) same_sdu_queues [of d "ack_state d"]
    by (simp add: port_open_def) (simp add: ack_state_def Let_def usbSetupTransfer_def put_in_def call_lld_def ep_bits)
  ultimately show ?thesis using rx_setup_eq [OF ep ws, of a b] ack_stage [of d] by auto
qed

text \<open>
  C11. The request SET_CONFIGURATION opens the serial port. A node that is not configured and has no
  control transfer under way answers it by opening endpoints 1 and 2, emptying and resuming both
  queues and arming endpoint 1 for reception into the first buffer; the status stage is under way,
  the device is configured and the drivers' invariant holds.
\<close>

theorem set_configuration_opens:
  assumes inv: "node_inv lc w" and st: "usb_state w \<in> {USB_READY, USB_SELECTED}" and ws: "length ws = 2"
    and p: "packet_bytes 8 ws ! 0 = 0" "packet_bytes 8 ws ! 1 = USB_REQ_SET_CONFIGURATION" "packet_bytes 8 ws ! 2 \<noteq> 0"
    and idle: "\<not> bit (transmitting w) 0" "\<not> bit (receiving w) 0"
  shows "\<exists>w'. bus_step a b (RxSetup ws) w = Inr w' \<and> usb_state w' = USB_ACTIVE \<and> node_inv lc w' \<and>
    port_open (w\<lparr>configuration := packet_bytes 8 ws ! 2\<rparr>) w' \<and> ep0state w' = USB_EP0_IN_SENDING_STS"
proof -
  have "hw_ok (RxSetup ws) w"
    using st ws p idle by (auto simp: hw_ok_def well_directed_def usb_consts One_nat_def)
  from bus_step_ok [OF inv this] obtain v where v: "bus_step a b (RxSetup ws) w = Inr v" "node_inv lc v" by blast
  from set_configuration_eq [OF assms(1-7), of a b] v show ?thesis by auto
qed

section \<open>A connected node\<close>

text \<open>A node brought up by \<^verbatim>\<open>main\<close>, reset and configured by the host.\<close>

definition all_active :: "usbep \<Rightarrow> usbepstatus" where "all_active ep = EP_STATUS_ACTIVE"

definition demo_reset :: "SerialUSB result" where
  "demo_reset = bindE (main_usb (usbObjectInit (power_on (\<lambda>_. 0) 8 528 0))) (bus_step all_active all_active BusReset)"

lemma demo_reset_ok:
  obtains w where "demo_reset = Inr w" "node_inv 0 w" "usb_state w = USB_READY" "transmitting w = 0" "receiving w = 0" "ib w = 8" "ob w = 528"
proof -
  have run: "case demo_reset of Inr w \<Rightarrow> usb_state w = USB_READY \<and> transmitting w = 0 \<and> receiving w = 0 \<and> ib w = 8 \<and> ob w = 528 | Inl _ \<Rightarrow> False"
    by code_simp
  have "placed 8 528 0" by (simp add: placed_def)
  then obtain w0 where w0: "main_usb (usbObjectInit (power_on (\<lambda>_. 0) 8 528 0)) = Inr w0" "sdu_ok 0 w0" "usb_config w0" "ep0endcb w0 = None"
    using main_usb_ok by blast
  obtain w where "usb_reset (usbcfg all_active all_active) w0 = Inr w" "node_inv 0 w"
    using node.reset_ok [OF w0(3,2,4)] by blast
  then show ?thesis using that run w0(1) by (auto simp: demo_reset_def bus_step_def serve_def serve_single)
qed

theorem set_configuration_opens_witness:
  "\<exists>w w'. demo_reset = Inr w \<and> bus_step all_active all_active (RxSetup [0x00010900, 0]) w = Inr w' \<and>
    usb_state w' = USB_ACTIVE \<and> node_inv 0 w' \<and> port_open (w\<lparr>configuration := packet_bytes 8 [0x00010900, 0] ! 2\<rparr>) w'"
proof -
  obtain w where w: "demo_reset = Inr w" "node_inv 0 w" "usb_state w = USB_READY" "transmitting w = 0" "receiving w = 0"
    by (rule demo_reset_ok)
  have "\<exists>w'. bus_step all_active all_active (RxSetup [0x00010900, 0]) w = Inr w' \<and> usb_state w' = USB_ACTIVE \<and> node_inv 0 w' \<and>
    port_open (w\<lparr>configuration := packet_bytes 8 [0x00010900, 0] ! 2\<rparr>) w' \<and> ep0state w' = USB_EP0_IN_SENDING_STS"
  proof (rule set_configuration_opens [OF w(2)])
    show "packet_bytes 8 [0x00010900, 0] ! 0 = 0" "packet_bytes 8 [0x00010900, 0] ! 1 = USB_REQ_SET_CONFIGURATION"
      "packet_bytes 8 [0x00010900, 0] ! 2 \<noteq> 0" by code_simp+
  qed (use w in simp_all)
  then show ?thesis using w(1) by blast
qed

text \<open>The configured node, at the end of the status stage.\<close>

definition demo_connected :: "SerialUSB result" where
  "demo_connected = bindE demo_reset (run_ops (bus_step all_active all_active) [RxSetup [0x00010900, 0], InDone 0])"

lemma demo_connected_ok:
  obtains w where "demo_connected = Inr w" "node_inv 0 w" "usb_state w = USB_ACTIVE" "\<not> bit (transmitting w) 0" "\<not> bit (receiving w) 0"
    "rx_tail w" "tx_tail w" "ib w = 8" "ob w = 528" "ibq_stream (ib_view w) = []" "obq_stream (ob_view w) = []" "bit (receiving w) 1"
proof -
  obtain w1 where w1: "demo_reset = Inr w1" "node_inv 0 w1" "usb_state w1 = USB_READY" "transmitting w1 = 0" "receiving w1 = 0" "ib w1 = 8" "ob w1 = 528"
    by (rule demo_reset_ok)
  have p: "packet_bytes 8 [0x00010900, 0] ! 0 = 0" "packet_bytes 8 [0x00010900, 0] ! 1 = USB_REQ_SET_CONFIGURATION"
      "packet_bytes 8 [0x00010900, 0] ! 2 \<noteq> 0" by code_simp+
  obtain d where w: "bus_step all_active all_active (RxSetup [0x00010900, 0]) w1 = Inr (ack_state d)" "usb_state (ack_state d) = USB_ACTIVE"
      "port_open (w1\<lparr>configuration := packet_bytes 8 [0x00010900, 0] ! 2\<rparr>) (ack_state d)" "\<not> bit (receiving d) 0"
    using set_configuration_eq [OF w1(2), of "[0x00010900, 0]" all_active all_active] w1(3,4,5) p by auto
  let ?w = "ack_state d"
  have "hw_ok (RxSetup [0x00010900, 0]) w1" using w1 p by (auto simp: hw_ok_def well_directed_def usb_consts One_nat_def)
  from bus_step_ok [OF w1(2) this, of all_active all_active] have n: "node_inv 0 ?w" using w(1) by simp
  define v where "v = ?w\<lparr>transmitting := transmitting ?w AND NOT (ep_bit 0), ep0state := USB_EP0_STP_WAITING\<rparr>"
  have bn: "bindE r Inr = r" for r :: "SerialUSB result" by (cases r) auto
  have s: "bus_step all_active all_active (InDone 0) ?w = Inr v"
    using node_ep0 [OF n] by (simp add: bus_step_def serve_def serve_single otg_epin_handler_def in_state_of_def Let_def usb_isr_invoke_in_cb_def
        usb_ep0in_def ep0_end_def v_def bn)
  have "hw_ok (InDone 0) ?w" by (simp add: hw_ok_def)
  from bus_step_ok [OF n this, of all_active all_active] have "node_inv 0 v" using s by simp
  moreover have "same_sdu ?w v" by (simp add: same_sdu_def v_def)
  note same_sdu_queues [OF this]
  moreover have "rx_tail v" "tx_tail v" using w(3) by (simp_all add: port_open_def rx_tail_def tx_tail_def v_def ep_bits)
  moreover have "demo_connected = Inr v" unfolding demo_connected_def w1(1) using w(1) s by simp
  moreover have "usb_state v = USB_ACTIVE" "\<not> bit (transmitting v) 0" "\<not> bit (receiving v) 0" "ib v = 8" "ob v = 528" "bit (receiving v) 1"
    using w w1 by (simp_all add: v_def ep_bits port_open_def)
  ultimately show ?thesis using that w(3) by (simp add: port_open_def)
qed
section \<open>A control read\<close>

text \<open>The data stage with the bytes \<open>rest\<close> still to go, at the start of a transaction.\<close>

definition sending :: "byte list \<Rightarrow> SerialUSB \<Rightarrow> bool" where
  "sending rest w \<longleftrightarrow> ep0state w = USB_EP0_IN_TX \<and> bit (transmitting w) 0 \<and> union_ok w \<and>
     (\<exists>bs. txbuf (ep_in w 0) = Rom bs \<and> take (length rest) bs = rest) \<and> txcnt (ep_in w 0) = 0 \<and>
     txsize (ep_in w 0) = min (length rest) 64 \<and> tx_totsize (ep_in w 0) = length rest"

text \<open>What comes after the data stage: an empty packet when the answer is shorter than asked for and a multiple of 64, then the status stage.\<close>

definition data_sent :: "SerialUSB \<Rightarrow> bool" where
  "data_sent w \<longleftrightarrow> (if ep0n w < unat (get_hword (setup_pkt w) 6) \<and> ep0n w mod 64 = 0
     then ep0state w = USB_EP0_IN_WAITING_TX0 \<and> bit (transmitting w) 0 \<and> txcnt (ep_in w 0) = 0 \<and> txsize (ep_in w 0) = 0 \<and> tx_totsize (ep_in w 0) = 0
     else ep0state w = USB_EP0_OUT_WAITING_STS \<and> bit (receiving w) 0 \<and> rxcnt (ep_out w 0) = 0)"

definition same_request :: "SerialUSB \<Rightarrow> SerialUSB \<Rightarrow> bool" where
  "same_request w w' \<longleftrightarrow> ep0n w' = ep0n w \<and> setup_pkt w' = setup_pkt w"

lemma tx_step:
  assumes inv: "node_inv lc w" and s: "sending rest w" and ne: "0 < length rest"
  shows "\<exists>w'. hw_step a b (TxSpace 0 [16]) w = Inr w' \<and> sent_on 0 (fifo_out w') = sent_on 0 (fifo_out w) @ take 64 rest \<and>
    ep0state w' = USB_EP0_IN_TX \<and> bit (transmitting w') 0 \<and> same_request w w' \<and>
    (\<exists>bs. txbuf (ep_in w' 0) = Rom bs \<and> take (length rest - 64) bs = drop 64 rest) \<and>
    txcnt (ep_in w' 0) = min (length rest) 64 \<and> txsize (ep_in w' 0) = min (length rest) 64 \<and> tx_totsize (ep_in w' 0) = length rest"
proof -
  let ?i = "ep_in w 0"
  have ep: "epc w 0 = Some ep0config" by (rule node_ep0 [OF inv])
  obtain bs where bs: "txbuf ?i = Rom bs" "take (length rest) bs = rest" using s by (auto simp: sending_def)
  have i: "txcnt ?i = 0" "txsize ?i = min (length rest) 64" "tx_totsize ?i = length rest" "union_ok w" using s by (simp_all add: sending_def)
  obtain k pk where k: "otg_txfifo_handler [16] 0 w = Inr (put_in 0 (?i\<lparr>txbuf := ptr_add (txbuf ?i) k, txcnt := txcnt ?i + k\<rparr>)
        (w\<lparr>fifo_out := fifo_out w @ pk\<rparr>))" "sent_on 0 pk = map (ptr_byte w (txbuf ?i)) [0 ..< k]"
      "k = txsize ?i - txcnt ?i"
    using otg_txfifo_ok [of w 0 ep0config "[16]"] ep i bs(1) by auto
  have kk: "k = min (length rest) 64" using k(3) i by simp
  have len: "length rest \<le> length bs" using arg_cong [OF bs(2), of length] by simp
  have "bs ! i = rest ! i" if "i < length rest" for i using that nth_take [of i "length rest" bs] by (simp add: bs(2))
  then have "map (ptr_byte w (Rom bs)) [0 ..< k] = take 64 rest"
    using kk len by (intro nth_equalityI) (auto simp: ptr_byte_def)
  then have snt: "sent_on 0 pk = take 64 rest" using k(2) bs(1) by simp
  have "take (length rest - 64) (drop k bs) = drop 64 rest"
  proof (cases "length rest \<le> 64")
    case True
    then show ?thesis by simp
  next
    case False
    then show ?thesis using kk drop_take [of 64 "length rest" bs] by (simp add: bs(2))
  qed
  moreover have "hw_ok (TxSpace 0 [16]) w" using s by (simp add: hw_ok_def sending_def)
  ultimately show ?thesis using k(1) bs(1) i kk snt s
    by (auto simp: hw_step_def bus_step_def serve_def serve_single otg_epin_handler_def same_request_def sending_def put_in_def)
qed

lemma in_done_step:
  assumes inv: "node_inv lc w" and st: "ep0state w = USB_EP0_IN_TX" "bit (transmitting w) 0"
    and i: "txcnt (ep_in w 0) = min n 64" "txsize (ep_in w 0) = min n 64" "tx_totsize (ep_in w 0) = n"
  shows "\<exists>w'. hw_step a b (InDone 0) w = Inr w' \<and> fifo_out w' = fifo_out w \<and> same_request w w' \<and>
    (if 64 < n then ep0state w' = USB_EP0_IN_TX \<and> bit (transmitting w') 0 \<and> union_ok w' \<and> txbuf (ep_in w' 0) = txbuf (ep_in w 0) \<and>
        txcnt (ep_in w' 0) = 0 \<and> txsize (ep_in w' 0) = min (n - 64) 64 \<and> tx_totsize (ep_in w' 0) = n - 64
     else data_sent w')"
proof -
  have ep: "epc w 0 = Some ep0config" by (rule node_ep0 [OF inv])
  have hw: "hw_ok (InDone 0) w" using st i by (simp add: hw_ok_def)
  show ?thesis
  proof (cases "64 < n")
    case True
    then show ?thesis using ep hw i st
      by (auto simp: hw_step_def bus_step_def serve_def serve_single otg_epin_handler_def in_state_of_def Let_def usb_lld_start_in_def
          same_request_def EP0_MAX_INSIZE_def min_def put_in_def call_lld_def union_ok_def)
  next
    case False
    define e where "e = w\<lparr>transmitting := transmitting w AND NOT (ep_bit 0)\<rparr>"
    have "phase_ok w" using inv by (simp add: ctl_inv_def)
    then have r0: "\<not> bit (receiving e) 0" "\<not> bit (transmitting e) 0" using st by (simp_all add: e_def phase_ok_def ep_bits)
    have e: "ep0state e = USB_EP0_IN_TX" "epc e 0 = Some ep0config" "ep0n e = ep0n w" "setup_pkt e = setup_pkt w" "fifo_out e = fifo_out w"
      using st ep by (simp_all add: e_def)
    have b: "bindE r Inr = r" for r :: "SerialUSB result" by (cases r) auto
    have run: "hw_step a b (InDone 0) w = usb_ep0in (usbcfg a b) 0 e"
      using False hw i ep by (simp add: hw_step_def bus_step_def serve_def serve_single otg_epin_handler_def in_state_of_def Let_def
          usb_isr_invoke_in_cb_def e_def b)
    let ?z = "ep0n e < unat (get_hword (setup_pkt e) 6) \<and> ep0n e mod 64 = 0"
    have z: "needs_zlp e = Inr ?z" using e(2) by (simp add: needs_zlp_def)
    show ?thesis
    proof (cases ?z)
      case True
      then show ?thesis unfolding run using False e z usbStartTransmitI_ok [OF e(2) _ r0(2), of NullPtr 0]
        by (simp add: usb_ep0in_def Let_def data_sent_def same_request_def tx_limit_def put_in_def call_lld_def ep_bits)
    next
      case nz: False
      have "needs_zlp e = Inr False" unfolding z using nz by simp
      then show ?thesis unfolding run
        using False e nz usbStartReceiveI_ok [of "e\<lparr>ep0state := USB_EP0_OUT_WAITING_STS\<rparr>" 0 ep0config NullPtr 0] r0(1)
        by (auto simp: usb_ep0in_def Let_def data_sent_def same_request_def put_out_def call_lld_def ep_bits)
    qed
  qed
qed
definition in_packets :: "nat \<Rightarrow> bus_event list" where
  "in_packets n = concat (replicate ((n + 63) div 64) [TxSpace 0 [16], InDone 0])"

lemma in_packets_unfold:
  "0 < n \<Longrightarrow> in_packets n = TxSpace 0 [16] # InDone 0 # (if 64 < n then in_packets (n - 64) else [])"
proof -
  assume n: "0 < n"
  show ?thesis
  proof (cases "64 < n")
    case True
    then have "n + 63 = 64 + (n - 64 + 63)" by simp
    then have "(n + 63) div 64 = Suc ((n - 64 + 63) div 64)" by (metis add.commute div_add_self2 Suc_eq_plus1 zero_neq_numeral)
    then have "in_packets n = [TxSpace 0 [16], InDone 0] @ in_packets (n - 64)" unfolding in_packets_def by (simp only: replicate_Suc concat.simps)
    then show ?thesis using True by simp
  next
    case False
    then have "(n + 63) div 64 = Suc 0" using n by (intro div_nat_eqI) simp_all
    then show ?thesis using False by (simp add: in_packets_def)
  qed
qed

lemma data_stage:
  "node_inv lc w \<Longrightarrow> sending rest w \<Longrightarrow> rest \<noteq> [] \<Longrightarrow>
   \<exists>w'. run_ops (hw_step a b) (in_packets (length rest)) w = Inr w' \<and> node_inv lc w' \<and>
     sent_on 0 (fifo_out w') = sent_on 0 (fifo_out w) @ rest \<and> same_request w w' \<and> data_sent w'"
proof (induction "length rest" arbitrary: rest w rule: less_induct)
  case less
  have ne: "0 < length rest" using less.prems(3) by simp
  obtain w1 where w1: "hw_step a b (TxSpace 0 [16]) w = Inr w1" "sent_on 0 (fifo_out w1) = sent_on 0 (fifo_out w) @ take 64 rest"
      "ep0state w1 = USB_EP0_IN_TX" "bit (transmitting w1) 0" "same_request w w1"
      "\<exists>bs. txbuf (ep_in w1 0) = Rom bs \<and> take (length rest - 64) bs = drop 64 rest"
      "txcnt (ep_in w1 0) = min (length rest) 64" "txsize (ep_in w1 0) = min (length rest) 64" "tx_totsize (ep_in w1 0) = length rest"
    using tx_step [OF less.prems(1,2) ne] by blast
  have i1: "node_inv lc w1" by (rule hw_step_inv [OF less.prems(1) w1(1)])
  obtain w2 where w2: "hw_step a b (InDone 0) w1 = Inr w2" "fifo_out w2 = fifo_out w1" "same_request w1 w2"
      "if 64 < length rest then ep0state w2 = USB_EP0_IN_TX \<and> bit (transmitting w2) 0 \<and> union_ok w2 \<and> txbuf (ep_in w2 0) = txbuf (ep_in w1 0) \<and>
        txcnt (ep_in w2 0) = 0 \<and> txsize (ep_in w2 0) = min (length rest - 64) 64 \<and> tx_totsize (ep_in w2 0) = length rest - 64
       else data_sent w2"
    using in_done_step [OF i1 w1(3,4,7-9)] by blast
  have i2: "node_inv lc w2" by (rule hw_step_inv [OF i1 w2(1)])
  show ?case
  proof (cases "64 < length rest")
    case True
    have s2: "sending (drop 64 rest) w2" using w1(6) w2(4) True by (simp add: sending_def)
    have "drop 64 rest \<noteq> []" "length (drop 64 rest) < length rest" using True by simp_all
    from less.hyps [OF this(2) i2 s2 this(1)] obtain w' where "run_ops (hw_step a b) (in_packets (length rest - 64)) w2 = Inr w'"
        "node_inv lc w'" "sent_on 0 (fifo_out w') = sent_on 0 (fifo_out w2) @ drop 64 rest" "same_request w2 w'" "data_sent w'"
      by auto
    then show ?thesis using w1 w2 True ne by (simp add: in_packets_unfold same_request_def)
  next
    case False
    then show ?thesis using w1 w2 i2 ne by (simp add: in_packets_unfold same_request_def)
  qed
qed

definition status_events :: "SerialUSB \<Rightarrow> bus_event list" where
  "status_events w = (if ep0n w < unat (get_hword (setup_pkt w) 6) \<and> ep0n w mod 64 = 0 then [InDone 0, OutDone 0] else [OutDone 0])"

lemma out_status_step:
  assumes inv: "node_inv lc w" and s: "ep0state w = USB_EP0_OUT_WAITING_STS" "bit (receiving w) 0" "rxcnt (ep_out w 0) = 0"
  shows "\<exists>w'. hw_step a b (OutDone 0) w = Inr w' \<and> fifo_out w' = fifo_out w \<and> ep0state w' = USB_EP0_STP_WAITING"
proof -
  have r: "rxsize (ep_out w 0) = 0" "rx_totsize (ep_out w 0) = 0" using inv s by (simp_all add: ctl_inv_def rx0_ok_def)
  have "ep0endcb w = None" using node_inv_sdu(3) [OF inv] .
  then show ?thesis using node_ep0 [OF inv] s r
    by (simp add: hw_step_def hw_ok_def bus_step_def serve_def serve_single otg_epout_handler_def out_state_of_def Let_def
        usb_isr_invoke_out_cb_def usb_ep0out_def usb_lld_get_transaction_size_def ep0_end_def)
qed

lemma status_stage:
  assumes inv: "node_inv lc w" and d: "data_sent w"
  shows "\<exists>w'. run_ops (hw_step a b) (status_events w) w = Inr w' \<and> fifo_out w' = fifo_out w \<and> ep0state w' = USB_EP0_STP_WAITING \<and> node_inv lc w'"
proof (cases "ep0n w < unat (get_hword (setup_pkt w) 6) \<and> ep0n w mod 64 = 0")
  case False
  then show ?thesis using out_status_step [OF inv, of a b] d hw_step_inv [OF inv] by (auto simp: data_sent_def status_events_def)
next
  case True
  then have s: "ep0state w = USB_EP0_IN_WAITING_TX0" "bit (transmitting w) 0" "txcnt (ep_in w 0) = 0" "txsize (ep_in w 0) = 0" "tx_totsize (ep_in w 0) = 0"
    using d by (simp_all add: data_sent_def)
  define e where "e = w\<lparr>transmitting := transmitting w AND NOT (ep_bit 0), ep0state := USB_EP0_OUT_WAITING_STS\<rparr>"
  have "phase_ok w" using inv by (simp add: ctl_inv_def)
  then have e: "\<not> bit (receiving e) 0" "epc e 0 = Some ep0config" using s node_ep0 [OF inv] by (simp_all add: e_def phase_ok_def)
  have b: "bindE r Inr = r" for r :: "SerialUSB result" by (cases r) auto
  let ?v = "call_lld (LldStartOut 0) (put_out 0 \<lparr>rxsize = 0, rxcnt = 0, rxbuf = NullPtr, rx_totsize = 0\<rparr> (e\<lparr>receiving := receiving e OR ep_bit 0\<rparr>))"
  have run: "hw_step a b (InDone 0) w = Inr ?v"
    using s node_ep0 [OF inv] usbStartReceiveI_ok [OF e(2) _ e(1), of NullPtr 0]
    by (simp add: hw_step_def hw_ok_def bus_step_def serve_def serve_single otg_epin_handler_def in_state_of_def Let_def
        usb_isr_invoke_in_cb_def usb_ep0in_def e_def b tx_limit_def)
  have v: "node_inv lc ?v" "ep0state ?v = USB_EP0_OUT_WAITING_STS" "bit (receiving ?v) 0" "rxcnt (ep_out ?v 0) = 0" "fifo_out ?v = fifo_out w"
    using hw_step_inv [OF inv run] by (simp_all add: e_def ep_bits)
  from out_status_step [OF v(1-4), of a b] show ?thesis using True run v(5) hw_step_inv [OF v(1)] by (auto simp: status_events_def)
qed
lemma get_descriptor_size: "get_descriptor t i l = Some dp \<Longrightarrow> ud_size dp = length (ud_string dp) \<and> ud_string dp \<noteq> []"
proof -
  assume g: "get_descriptor t i l = Some dp"
  have s: "\<forall>x \<in> set vcom_strings. ud_size x = length (ud_string x) \<and> ud_string x \<noteq> []"
    by (simp add: vcom_strings_def descr_def vcom_string0_def vcom_string1_def vcom_string2_def vcom_string3_def)
  have "vcom_strings ! unat i \<in> set vcom_strings" if "i < 4"
    using that by (intro nth_mem) (simp add: vcom_strings_def word_less_nat_alt)
  with g s show ?thesis
    by (auto simp: get_descriptor_def descr_def vcom_device_descriptor_data_def vcom_configuration_descriptor_data_def
        USB_DESC_DEVICE_def USB_DESC_CONFIGURATION_def split: if_splits)
qed

definition is_get_descriptor :: "32 word list \<Rightarrow> USBDescriptor \<Rightarrow> nat \<Rightarrow> bool" where
  "is_get_descriptor ws dp l \<longleftrightarrow> length ws = 2 \<and> packet_bytes 8 ws ! 0 = 0x80 \<and> packet_bytes 8 ws ! 1 = USB_REQ_GET_DESCRIPTOR \<and>
     get_descriptor (packet_bytes 8 ws ! 3) (packet_bytes 8 ws ! 2) (get_hword (packet_bytes 8 ws) 4) = Some dp \<and>
     l = unat (get_hword (packet_bytes 8 ws) 6)"

lemma get_descriptor_stage:
  assumes inv: "node_inv lc w" and r: "is_get_descriptor ws dp l" "0 < l" and n: "n = min l (length (ud_string dp))"
  shows "\<exists>f. bus_step a b (RxSetup ws) w = usbStartTransmitI 0 (Rom (ud_string dp)) n f \<and> epc f 0 = Some ep0config \<and>
    transmitting f = transmitting w \<and> ep0n f = n \<and> fifo_out f = fifo_out w \<and> unat (get_hword (setup_pkt f) 6) = l \<and> ep0state f = USB_EP0_IN_TX"
proof -
  let ?e = "setup_state ws w" and ?p = "packet_bytes 8 ws"
  have ws: "length ws = 2" and p: "?p ! 0 = 0x80" "?p ! 1 = USB_REQ_GET_DESCRIPTOR"
    and g: "get_descriptor (?p ! 3) (?p ! 2) (get_hword ?p 4) = Some dp" and l: "l = unat (get_hword ?p 6)"
    using r(1) by (simp_all add: is_get_descriptor_def)
  note sz = get_descriptor_size [OF g]
  have len: "length ?p = 8" using ws by (simp add: length_packet_bytes)
  have pk: "setup_pkt ?e ! 0 = 0x80" "setup_pkt ?e ! 1 = USB_REQ_GET_DESCRIPTOR" "setup_pkt ?e ! 2 = ?p ! 2" "setup_pkt ?e ! 3 = ?p ! 3"
    "get_hword (setup_pkt ?e) 4 = get_hword ?p 4" "get_hword (setup_pkt ?e) 6 = get_hword ?p 6"
    using p len by (simp_all add: nth_append get_hword_def)
  have ep: "epc w 0 = Some ep0config" by (rule node_ep0 [OF inv])
  let ?d = "usbSetupTransfer (Rom (ud_string dp)) (ud_size dp) None ?e"
  have hook: "sduRequestsHook ?e = Inr (False, ?e)" using pk by (simp add: sduRequestsHook_def usb_consts One_nat_def)
  have h: "handle_request (usbcfg a b) ?e = Inr (True, ?d)"
    using pk g hook node_inv_sdu(2) [OF inv]
    by (simp add: handle_request_def usbcfg_def default_handler_def usb_consts Let_def One_nat_def)
  define f where "f = (if l < ud_size dp then ?d\<lparr>ep0n := l\<rparr> else ?d)\<lparr>ep0state := USB_EP0_IN_TX\<rparr>"
  have f: "epc f 0 = Some ep0config" "transmitting f = transmitting w" "ep0n f = n" "fifo_out f = fifo_out w"
      "setup_pkt f = setup_pkt ?e" "ep0state f = USB_EP0_IN_TX"
    using ep sz n by (auto simp: f_def usbSetupTransfer_def)
  have "setup_pkt f ! 0 AND USB_RTYPE_DIR_MASK = USB_RTYPE_DIR_DEV2HOST" using f(5) pk(1) by (simp add: usb_consts One_nat_def)
  moreover have "ep0n f \<noteq> 0" using f(3) r(2) sz n by auto
  ultimately have stage: "ep0_start_stage ?d = usbStartTransmitI 0 (Rom (ud_string dp)) n f"
    using f pk l sz n by (auto simp: ep0_start_stage_def Let_def f_def usbSetupTransfer_def split: if_splits)
  then show ?thesis using rx_setup_eq [OF ep ws, of a b] h f pk l by (intro exI [of _ f]) simp
qed

lemma get_descriptor_setup:
  assumes inv: "node_inv lc w" and st: "usb_state w \<noteq> USB_SUSPENDED" "\<not> bit (transmitting w) 0" "\<not> bit (receiving w) 0"
    and r: "is_get_descriptor ws dp l" "0 < l"
  shows "\<exists>w'. hw_step a b (RxSetup ws) w = Inr w' \<and> sending (take l (ud_string dp)) w' \<and> fifo_out w' = fifo_out w \<and>
    ep0n w' = min l (length (ud_string dp)) \<and> unat (get_hword (setup_pkt w') 6) = l"
proof -
  let ?n = "min l (length (ud_string dp))"
  have hw: "hw_ok (RxSetup ws) w"
    using st r(1) by (simp add: is_get_descriptor_def hw_ok_def well_directed_def out_dir_def usb_consts One_nat_def)
  obtain f where f: "bus_step a b (RxSetup ws) w = usbStartTransmitI 0 (Rom (ud_string dp)) ?n f" "epc f 0 = Some ep0config"
      "\<not> bit (transmitting f) 0" "ep0n f = ?n" "fifo_out f = fifo_out w" "unat (get_hword (setup_pkt f) 6) = l" "ep0state f = USB_EP0_IN_TX"
    using get_descriptor_stage [OF inv r refl, of a b] st(2) by auto
  let ?w = "call_lld (LldStartIn 0) (put_in 0 \<lparr>txsize = min ?n 64, txcnt = 0, txbuf = Rom (ud_string dp), tx_totsize = ?n\<rparr>
      (f\<lparr>transmitting := transmitting f OR ep_bit 0\<rparr>))"
  have "hw_step a b (RxSetup ws) w = Inr ?w"
    using hw f(1) usbStartTransmitI_ok [OF f(2) _ f(3), of "Rom (ud_string dp)" ?n] by (simp add: hw_step_def tx_limit_def)
  moreover have "sending (take l (ud_string dp)) ?w" using f by (auto simp: sending_def ep_bits min_def)
  moreover have "fifo_out ?w = fifo_out w" "ep0n ?w = ?n" "unat (get_hword (setup_pkt ?w) 6) = l"
    using f by (simp_all add: put_in_def)
  ultimately show ?thesis by blast
qed



section \<open>Requests that stop the system\<close>


text \<open>
  C14. A configured device does not survive a new address. SET_ADDRESS on a configured device leaves
  its endpoints initialized but the state no longer \<^verbatim>\<open>USB_ACTIVE\<close>, so the SET_CONFIGURATION that
  a host sends next finds them open and fails an assertion: the kernel halts.
\<close>

theorem readdress_halts:
  assumes inv: "node_inv lc w" and st: "usb_state w = USB_ACTIVE" "\<not> bit (transmitting w) 0" "\<not> bit (receiving w) 0"
    and p: "length ws = 2" "packet_bytes 8 ws ! 0 = 0" "packet_bytes 8 ws ! 1 = USB_REQ_SET_ADDRESS"
    and q: "length vs = 2" "packet_bytes 8 vs ! 0 = 0" "packet_bytes 8 vs ! 1 = USB_REQ_SET_CONFIGURATION" "packet_bytes 8 vs ! 2 \<noteq> 0"
  shows "run_ops (bus_step a b) [RxSetup ws, InDone 0, RxSetup vs] w = Inl (DbgAssert ''already initialized'')"
proof -
  let ?e = "setup_state ws w"
  have ep: "epc w 0 = Some ep0config" "usb_config w" using node_ep0 [OF inv] node_inv_sdu(2) [OF inv] .
  have ep1: "epc w 1 = Some ep1config" using active_ep1 [OF node_inv_sdu(1) [OF inv] st(1)] .
  have len: "length (packet_bytes 8 ws) = 8" "length (packet_bytes 8 vs) = 8" using p q by (simp_all add: length_packet_bytes)
  have pk: "setup_pkt ?e ! 0 = 0" "setup_pkt ?e ! 1 = USB_REQ_SET_ADDRESS" using p len by (simp_all add: nth_append)
  define d where "d = (usb_lld_set_address (?e\<lparr>address := setup_pkt ?e ! 2\<rparr>))\<lparr>usb_state := USB_SELECTED\<rparr>"
  have hook: "sduRequestsHook ?e = Inr (False, ?e)" using pk by (simp add: sduRequestsHook_def usb_consts)
  have "handle_request (usbcfg a b) ?e = Inr (True, usbSetupTransfer NullPtr 0 None d)"
    using pk hook ep(2)
    by (simp add: handle_request_def usbcfg_def default_handler_def set_address_def usb_isr_invoke_event_cb_def usb_event_def
        usb_lld_set_address_def usb_consts Let_def d_def call_lld_def One_nat_def)
  moreover have d: "epc d = epc w" "transmitting d = transmitting w" "setup_pkt d = setup_pkt ?e" "usb_state d = USB_SELECTED"
    "usb_config d = usb_config w" "receiving d = receiving w"
    by (simp_all add: d_def usb_lld_set_address_def call_lld_def)
  ultimately have s1: "bus_step a b (RxSetup ws) w = Inr (ack_state d)"
    using rx_setup_eq [OF ep(1) p(1), of a b] ack_stage [of d] ep(1) st(2) pk by simp
  define v where "v = (ack_state d)\<lparr>transmitting := transmitting (ack_state d) AND NOT (ep_bit 0), ep0state := USB_EP0_STP_WAITING\<rparr>"
  have bn: "bindE r Inr = r" for r :: "SerialUSB result" by (cases r) auto
  have s2: "bus_step a b (InDone 0) (ack_state d) = Inr v"
    using d ep(1) by (simp add: bus_step_def serve_def serve_single otg_epin_handler_def in_state_of_def Let_def usb_isr_invoke_in_cb_def
        usb_ep0in_def ep0_end_def v_def bn)
  let ?f = "setup_state vs v"
  have v: "epc v 0 = Some ep0config" "usb_config v" "usb_state v = USB_SELECTED" "epc v 1 = Some ep1config" using d ep ep1 by (simp_all add: v_def)
  have qk: "setup_pkt ?f ! 0 = 0" "setup_pkt ?f ! 1 = USB_REQ_SET_CONFIGURATION" "setup_pkt ?f ! 2 \<noteq> 0"
    using q len by (simp_all add: nth_append)
  have "sduRequestsHook ?f = Inr (False, ?f)" using qk by (simp add: sduRequestsHook_def usb_consts)
  then have "handle_request (usbcfg a b) ?f = Inl (DbgAssert ''already initialized'')"
    using qk v by (simp add: handle_request_def usbcfg_def default_handler_def set_configuration_def usb_isr_invoke_event_cb_def usb_event_def
        usbInitEndpointI_def dbgAssert_def ep_defs usb_consts Let_def)
  then have "bus_step a b (RxSetup vs) v = Inl (DbgAssert ''already initialized'')" using rx_setup_eq [OF v(1) q(1), of a b] by simp
  then show ?thesis using s1 s2 by simp
qed

theorem readdress_halts_witness:
  "\<exists>w. demo_connected = Inr w \<and>
    run_ops (bus_step all_active all_active) [RxSetup [0x00070500, 0], InDone 0, RxSetup [0x00010900, 0]] w = Inl (DbgAssert ''already initialized'')"
proof -
  obtain w where w: "demo_connected = Inr w" "node_inv 0 w" "usb_state w = USB_ACTIVE" "\<not> bit (transmitting w) 0" "\<not> bit (receiving w) 0"
    by (rule demo_connected_ok)
  have "run_ops (bus_step all_active all_active) [RxSetup [0x00070500, 0], InDone 0, RxSetup [0x00010900, 0]] w = Inl (DbgAssert ''already initialized'')"
  proof (rule readdress_halts [OF w(2-5)])
    show "packet_bytes 8 [0x00070500, 0] ! 0 = 0" "packet_bytes 8 [0x00070500, 0] ! 1 = USB_REQ_SET_ADDRESS"
      "packet_bytes 8 [0x00010900, 0] ! 0 = 0" "packet_bytes 8 [0x00010900, 0] ! 1 = USB_REQ_SET_CONFIGURATION"
      "packet_bytes 8 [0x00010900, 0] ! 2 \<noteq> 0" by code_simp+
  qed simp_all
  then show ?thesis using w(1) by blast
qed

end
