(* ===== verification/SduChannel.thy ===== *)
theory SduChannel
  imports SduControl
begin

text \<open>
  The channel methods of the serial driver on the real device: the reader and writer contracts of the
  buffer queues are interpreted with the interrupts of the USB controller as their environment and the
  notification callbacks of the driver, so their first in, first out theorems hold of \<^verbatim>\<open>sdu_read\<close>
  and \<^verbatim>\<open>sdu_write\<close> end to end.
\<close>

section \<open>The connection\<close>

text \<open>
  What happens on the bus while the host only moves data: no reset and no control transfer.
\<close>

definition line_step :: "(usbep \<Rightarrow> usbepstatus) \<Rightarrow> (usbep \<Rightarrow> usbepstatus) \<Rightarrow> bus_event \<Rightarrow> sdu_op" where
  "line_step st_in st_out e w = (if session_event e \<and> hw_ok e w then bus_step st_in st_out e w else Inr w)"

lemma line_step_ok:
  assumes "node_inv lc w"
  shows "\<exists>w' d u. line_step a b e w = Inr w' \<and> sess lc w d u w' \<and> node_inv lc w'"
  using session_step_ok [OF assms, of e a b] sess_refl [OF node_inv_sdu(1) [OF assms]] assms
  by (cases "session_event e \<and> hw_ok e w") (auto simp: line_step_def)

lemma ibnotify_ok:
  assumes "node_inv lc w"
  shows "\<exists>w'. ibnotify w = Inr w' \<and> sess lc w [] [] w' \<and> node_inv lc w'"
proof -
  have ok: "sdu_ok lc w" "sdu_config w = Some serusbcfg" using node_inv_sdu(1) [OF assms] by (simp_all add: sdu_ok_def)
  obtain b w' where w': "sdu_start_receive w = Inr (b, w')" "sess lc w [] [] w'" using start_receive_ok [OF ok(1)] by blast
  have "node_inv lc w'" using node_inv_keep [OF assms] start_receive_frame [OF ok(2) w'(1)] w'(2) by (simp add: sess_def rx_frame_def)
  then show ?thesis using w' by (simp add: ibnotify_def drop_result_def)
qed

lemma obnotify_node:
  assumes "node_inv lc w"
  shows "\<exists>w'. obnotify w = Inr w' \<and> sess lc w [] [] w' \<and> node_inv lc w'"
proof -
  have ok: "sdu_ok lc w" "sdu_config w = Some serusbcfg" using node_inv_sdu(1) [OF assms] by (simp_all add: sdu_ok_def)
  obtain w' where w': "obnotify w = Inr w'" "sess lc w [] [] w'" using obnotify_ok [OF ok(1)] by blast
  have "tx_frame w w'" using w'(1) ok(2) by (auto simp: obnotify_def split: if_splits option.splits dest: start_frame(2))
  then have "ep0_keep w w'" by (simp add: tx_frame_def)
  then show ?thesis using node_inv_keep [OF assms] w' by (auto simp: sess_def)
qed

section \<open>The view of the reader\<close>

lemma reopen [simp]: "ib_view (ib_close s) = s\<lparr>dev := ib_close s\<rparr>" "ob_view (ob_close s) = s\<lparr>dev := ob_close s\<rparr>"
  by (simp_all add: ib_view_def ib_close_def ob_view_def ob_close_def)

text \<open>
  The invariant but for the queue the thread works on, whose own steps leave it alone. Whether a
  buffer is free is read off the counters.
\<close>

definition reader_side :: "nat \<Rightarrow> SerialUSB \<Rightarrow> bool" where
  "reader_side lc w \<longleftrightarrow> core_inv w \<and> phase_ok w \<and> rx0_ok (lc_owns lc) w \<and>
     sdu_config w = Some serusbcfg \<and> sdu_state w = SDU_READY \<and> layout lc w \<and> in_params w 0 \<and> out_params w 0 \<and>
     (eff_state w = USB_ACTIVE \<longrightarrow> epc w 1 = Some ep1config) \<and> obq_inv (ob_view w) \<and>
     (bit (receiving w) 1 \<longrightarrow> epc w 1 = Some ep1config \<and> bcounter (ibqueue w) < bn (ibqueue w) \<and> rxsize (ep_out w 1) = 256 \<and>
       rxcnt (ep_out w 1) \<le> 256 \<and> rxbuf (ep_out w 1) = Ram (bwrptr (ibqueue w) + 4 + rxcnt (ep_out w 1))) \<and>
     (bit (transmitting w) 1 \<longrightarrow> tx1_ok w) \<and> (\<forall>i \<ge> 2. \<not> bit (receiving w) i \<and> \<not> bit (transmitting w) i) \<and> rx_tail w \<and>
     ib w \<le> bwrptr (ibqueue w) \<and> bwrptr (ibqueue w) + 260 \<le> ib w + 520"

lemma reader_side_iff:
  assumes "ibq_inv (ib_view w)"
  shows "reader_side lc w \<longleftrightarrow> node_inv lc w \<and> rx_tail w"
proof -
  have "ibqIsFullI (ibqueue w) \<longleftrightarrow> bcounter (ibqueue w) = bn (ibqueue w)" using ibqIsFullI_iff [OF assms] by simp
  moreover have "bcounter (ibqueue w) \<le> bn (ibqueue w)" using assms by (simp add: ibq_inv_def ring_def)
  ultimately have "\<not> ibqIsFullI (ibqueue w) \<longleftrightarrow> bcounter (ibqueue w) < bn (ibqueue w)" by linarith
  moreover have "ib w \<le> bwrptr (ibqueue w) \<and> bwrptr (ibqueue w) + 260 \<le> ib w + 520" if "layout lc w"
    using ibq_back [OF assms] that by (simp add: layout_def)
  ultimately show ?thesis using assms by (auto simp: reader_side_def ctl_inv_def sdu_ok_def rx1_ok_def)
qed

definition apart :: "SerialUSB \<Rightarrow> nat \<Rightarrow> nat \<Rightarrow> bool" where
  "apart w lo hi \<longleftrightarrow> (hi \<le> ib w \<or> ib w + 520 \<le> lo) \<and> (hi \<le> ob w \<or> ob w + 520 \<le> lo)"

definition reader_inv :: "nat \<Rightarrow> nat \<Rightarrow> nat \<Rightarrow> sduq \<Rightarrow> bool" where
  "reader_inv lc lo hi s \<longleftrightarrow> reader_side lc (ib_close s) \<and> apart (ib_close s) lo hi"

lemma reader_local_ok:
  assumes I: "reader_inv lc lo hi s" and l: "reader_local lo hi s s'"
  shows "reader_inv lc lo hi s'"
proof -
  let ?w = "ib_close s" and ?v = "ib_close s'"
  have d: "dev s' = dev s" "bwrptr (bq s') = bwrptr (bq s)" "bsize (bq s') = bsize (bq s)" "bn (bq s') = bn (bq s)"
    "buffers (bq s') = buffers (bq s)" "btop (bq s') = btop (bq s)" "bcounter (bq s') \<le> bcounter (bq s)"
    "\<And>x. \<not> (lo \<le> x \<and> x < hi) \<Longrightarrow> ram s' x = ram s x"
    using l by (auto simp: reader_local_def)
  have r: "reader_side lc ?w" "apart ?w lo hi" using I by (simp_all add: reader_inv_def)
  have u: "umem ?v x = umem ?w x" if "ob ?w \<le> x" "x < ob ?w + 520" for x using that r(2) by (auto simp: apart_def intro!: d(8))
  have t: "obq_inv (ob_view ?v)" "bit (transmitting ?v) 1 \<longrightarrow> tx1_ok ?v"
    using tx_side_part [of lc ?w ?v] u r(1) d(1) by (simp_all add: reader_side_def)
  have "load_bytes (umem ?v) (bwrptr (bq s) + 4) k = load_bytes (umem ?w) (bwrptr (bq s) + 4) k" if "k \<le> 256" for k
    using that r by (intro load_bytes_cong) (auto simp: reader_side_def apart_def intro!: d(8))
  then have tail: "rx_tail ?v" using r(1) d(1,2) by (auto simp: reader_side_def rx_tail_def)
  have c: "core_inv ?v = core_inv ?w" "phase_ok ?v = phase_ok ?w" "rx0_ok (lc_owns lc) ?v = rx0_ok (lc_owns lc) ?w" "eff_state ?v = eff_state ?w"
    using d(1) phase_cong [of ?v ?w] rx0_cong [of ?v ?w] by (simp_all add: core_defs ib_close_def)
  moreover have "layout lc ?v = layout lc ?w" "apart ?v lo hi = apart ?w lo hi" using d(1-6) by (simp_all add: layout_def apart_def)
  ultimately show ?thesis using r t tail d(1-7) by (simp add: reader_inv_def reader_side_def) linarith
qed

lemma sess_reader:
  assumes s: "ibq_inv s" "reader_inv lc lo hi s" and w': "sess lc (ib_close s) d u w'" "node_inv lc w'"
  shows "ibq_rely rx_log lo hi s d (ib_view w')" "reader_inv lc lo hi (ib_view w')"
proof -
  let ?w = "ib_close s"
  have i: "ibq_inv (ib_view ?w)" using s(1) by simp
  have r: "reader_side lc ?w" "apart ?w lo hi" using s(2) by (simp_all add: reader_inv_def)
  then have n: "node_inv lc ?w" "rx_tail ?w" using reader_side_iff [OF i] by simp_all
  have l: "layout lc ?w" "layout lc w'" using n(1) w'(2) by (simp_all add: ctl_inv_def sdu_ok_def)
  have b: "buffers (ibqueue w') = buffers (bq s)" "btop (ibqueue w') = btop (bq s)" "ib w' = ib ?w" "ob w' = ob ?w"
    using l w'(1) by (simp_all add: layout_def sess_def)
  have log: "rx_tail w'" "rx_log w' = rx_log ?w @ d" using n(2) w'(1) by (simp_all add: sess_def)
  have "rx_log ?w = rx_log (dev s)" by (simp add: rx_log_def Let_def)
  moreover have "umem w' x = ram s x" if "lo \<le> x" "x < hi" for x
    using w'(1) r(2) that by (auto simp: sess_def outside_def apart_def)
  ultimately show "ibq_rely rx_log lo hi s d (ib_view w')"
    using w' b log by (auto simp: ibq_rely_def grows_def fair_step_def sess_def left_ok_def ctl_inv_def sdu_ok_def)
  have "ibq_inv (ib_view w')" using w'(2) by (simp add: ctl_inv_def sdu_ok_def)
  then show "reader_inv lc lo hi (ib_view w')" using reader_side_iff w'(2) log r(2) b by (simp add: reader_inv_def apart_def)
qed

lemma reader_node:
  assumes "ibq_inv s" "reader_inv lc lo hi s"
  shows "node_inv lc (ib_close s)"
  using reader_side_iff [of "ib_close s" lc] assms by (simp add: reader_inv_def)

interpretation sdu_rd: ibq_reader "\<lambda>e. via_ib (line_step st_in st_out e)" ib_notify rx_log lo hi "reader_inv lc lo hi" for st_in st_out lc lo hi
proof (unfold_locales, goal_cases)
  case (1 s e)
  obtain w' d u where w': "line_step st_in st_out e (ib_close s) = Inr w'" "sess lc (ib_close s) d u w'" "node_inv lc w'"
    using line_step_ok [OF reader_node [OF 1]] by blast
  with sess_reader [OF 1 w'(2,3)] show ?case by (auto simp: via_ib_def)
next
  case (2 s)
  obtain w' where w': "ibnotify (ib_close s) = Inr w'" "sess lc (ib_close s) [] [] w'" "node_inv lc w'"
    using ibnotify_ok [OF reader_node [OF 2(1,2)]] by blast
  with sess_reader [OF 2(1,2) w'(2,3)] show ?case by (auto simp: via_ib_def notify_call_def ib_notify_def)
next
  case (3 s s')
  then show ?case by (rule reader_local_ok)
qed



section \<open>The view of the writer\<close>

definition tx1_part :: "SerialUSB \<Rightarrow> bool" where
  "tx1_part w \<longleftrightarrow> epc w 1 = Some ep1config \<and> tx_totsize (ep_in w 1) = txsize (ep_in w 1) \<and>
       txcnt (ep_in w 1) \<le> txsize (ep_in w 1) \<and> txsize (ep_in w 1) \<le> 256 \<and>
       (0 < txsize (ep_in w 1) \<longrightarrow> bcounter (obqueue w) < bn (obqueue w) \<and>
          txsize (ep_in w 1) = load_size (umem w) (brdptr (obqueue w)) \<and>
          txbuf (ep_in w 1) = Ram (brdptr (obqueue w) + 4 + txcnt (ep_in w 1)))"

definition writer_side :: "nat \<Rightarrow> SerialUSB \<Rightarrow> bool" where
  "writer_side lc w \<longleftrightarrow> core_inv w \<and> phase_ok w \<and> rx0_ok (lc_owns lc) w \<and>
     sdu_config w = Some serusbcfg \<and> sdu_state w = SDU_READY \<and> layout lc w \<and> in_params w 0 \<and> out_params w 0 \<and>
     (eff_state w = USB_ACTIVE \<longrightarrow> epc w 1 = Some ep1config) \<and> ibq_inv (ib_view w) \<and>
     (bit (receiving w) 1 \<longrightarrow> rx1_ok w) \<and>
     (bit (transmitting w) 1 \<longrightarrow> tx1_part w) \<and>
     (\<forall>i \<ge> 2. \<not> bit (receiving w) i \<and> \<not> bit (transmitting w) i) \<and> tx_tail w \<and>
     slot (obqueue w) (ridx (obqueue w)) = brdptr (obqueue w)"

lemma writer_side_iff:
  assumes "obq_inv (ob_view w)"
  shows "writer_side lc w \<longleftrightarrow> node_inv lc w \<and> tx_tail w"
proof -
  have r: "obq_ring (ob_view w)" "bcounter (obqueue w) \<le> bn (obqueue w)" "slot (obqueue w) (ridx (obqueue w)) = brdptr (obqueue w)"
    using assms by (simp_all add: obq_inv_def obq_ring_def ring_def)
  have "\<not> obqIsEmptyI (obqueue w) \<longleftrightarrow> bcounter (obqueue w) < bn (obqueue w)"
    using obqIsEmptyI_iff [OF r(1)] r(2) by auto
  moreover have "load_size (umem w) (brdptr (obqueue w)) \<le> 256" if "layout lc w" "\<not> obqIsEmptyI (obqueue w)"
    using obq_front(4) [OF assms] that by (simp add: layout_def)
  ultimately have t: "tx1_part w \<longleftrightarrow> tx1_ok w" if "layout lc w"
    using that by (cases "0 < txsize (ep_in w 1)") (auto simp: tx1_ok_def tx1_part_def)
  then show ?thesis using assms r(3) by (auto simp: writer_side_def ctl_inv_def sdu_ok_def)
qed

definition writer_inv :: "nat \<Rightarrow> nat \<Rightarrow> nat \<Rightarrow> sduq \<Rightarrow> bool" where
  "writer_inv lc lo hi s \<longleftrightarrow> writer_side lc (ob_close s) \<and> apart (ob_close s) lo hi"

lemma writer_local_ok:
  assumes I: "writer_inv lc lo hi s" and l: "writer_local lo hi s s'"
  shows "writer_inv lc lo hi s'"
proof -
  let ?w = "ob_close s" and ?v = "ob_close s'" and ?i = "ep_in (dev s) 1"
  have d: "dev s' = dev s" "brdptr (bq s') = brdptr (bq s)" "bsize (bq s') = bsize (bq s)" "bn (bq s') = bn (bq s)"
    "buffers (bq s') = buffers (bq s)" "btop (bq s') = btop (bq s)" "bcounter (bq s') \<le> bcounter (bq s)"
    "agree (ram s) (ram s') (bq s) (obq_full (bq s))"
    "\<And>x. x < buffers (bq s) \<or> btop (bq s) \<le> x \<Longrightarrow> ram s' x = ram s x"
    using l by (auto simp: writer_local_def)
  have r: "writer_side lc ?w" "apart ?w lo hi" using I by (simp_all add: writer_inv_def)
  have lay: "buffers (bq s) = ob (dev s)" "btop (bq s) = ob (dev s) + 520" "bsize (bq s) = 260"
    "ib (dev s) + 520 \<le> ob (dev s) \<or> ob (dev s) + 520 \<le> ib (dev s)" "slot (bq s) (ridx (bq s)) = brdptr (bq s)"
    using r(1) by (simp_all add: writer_side_def layout_def)
  have u: "umem ?v x = umem ?w x" if "ib ?w \<le> x" "x < ib ?w + 520" for x using that lay by (auto intro!: d(9))
  have t: "ibq_inv (ib_view ?v)" "bit (receiving ?v) 1 \<longrightarrow> rx1_ok ?v"
    using rx_side_part [of lc ?w ?v] u r(1) d(1) by (simp_all add: writer_side_def)
  have front: "ram s' x = ram s x" if "bcounter (bq s) < bn (bq s)" "brdptr (bq s) \<le> x" "x < brdptr (bq s) + 260" for x
  proof -
    have "0 < obq_full (bq s)" using that by (simp add: obq_full_def)
    with d(8) that lay show ?thesis unfolding agree_def by (metis add_0_right)
  qed
  have sz: "load_size (ram s') (brdptr (bq s)) = load_size (ram s) (brdptr (bq s))" if "bcounter (bq s) < bn (bq s)"
    using that by (intro load_size_cong front) auto
  have "load_bytes (ram s') (brdptr (bq s) + 4) (txcnt ?i) = load_bytes (ram s) (brdptr (bq s) + 4) (txcnt ?i)" if "bit (transmitting (dev s)) 1"
  proof (cases "0 < txsize ?i")
    case True
    then show ?thesis using that r(1) by (intro load_bytes_cong front) (auto simp: writer_side_def tx1_part_def)
  next
    case False
    then show ?thesis using that r(1) by (simp add: writer_side_def tx1_part_def)
  qed
  then have tail: "tx_tail ?v" using r(1) d(1,2) by (auto simp: writer_side_def tx_tail_def)
  have c: "core_inv ?v = core_inv ?w" "phase_ok ?v = phase_ok ?w" "rx0_ok (lc_owns lc) ?v = rx0_ok (lc_owns lc) ?w" "eff_state ?v = eff_state ?w"
    using d(1) phase_cong [of ?v ?w] rx0_cong [of ?v ?w] by (simp_all add: core_defs ob_close_def)
  have "layout lc ?v = layout lc ?w" "apart ?v lo hi = apart ?w lo hi" "slot (bq s') (ridx (bq s')) = slot (bq s) (ridx (bq s))"
    using d(1-6) by (simp_all add: layout_def apart_def slot_def ridx_def)
  moreover have "bit (transmitting (dev s)) 1 \<longrightarrow> tx1_part ?v" using r(1) d(1,2,4,7) sz by (auto simp: writer_side_def tx1_part_def)
  ultimately show ?thesis using r t tail d(1-7) c by (simp add: writer_inv_def writer_side_def)
qed

lemma sess_writer:
  assumes s: "obq_inv s" "writer_inv lc lo hi s" and w': "sess lc (ob_close s) d u w'" "node_inv lc w'"
  shows "obq_rely tx_log lo hi s u (ob_view w')" "writer_inv lc lo hi (ob_view w')"
proof -
  let ?w = "ob_close s"
  have i: "obq_inv (ob_view ?w)" using s(1) by simp
  have r: "writer_side lc ?w" "apart ?w lo hi" using s(2) by (simp_all add: writer_inv_def)
  then have n: "node_inv lc ?w" "tx_tail ?w" using writer_side_iff [OF i] by simp_all
  have l: "layout lc ?w" "layout lc w'" using n(1) w'(2) by (simp_all add: ctl_inv_def sdu_ok_def)
  have b: "buffers (obqueue w') = buffers (bq s)" "btop (obqueue w') = btop (bq s)" "ib w' = ib ?w" "ob w' = ob ?w"
    using l w'(1) by (simp_all add: layout_def sess_def)
  have log: "tx_tail w'" "tx_log w' = tx_log ?w @ u" using n(2) w'(1) by (simp_all add: sess_def)
  have "tx_log ?w = tx_log (dev s)" by (simp add: tx_log_def Let_def)
  moreover have "umem w' x = ram s x" if "lo \<le> x" "x < hi" for x
    using w'(1) r(2) that by (auto simp: sess_def outside_def apart_def)
  ultimately show "obq_rely tx_log lo hi s u (ob_view w')"
    using w' b log by (auto simp: obq_rely_def shrinks_def fair_step_def sess_def left_ok_def ctl_inv_def sdu_ok_def)
  have "obq_inv (ob_view w')" using w'(2) by (simp add: ctl_inv_def sdu_ok_def)
  then show "writer_inv lc lo hi (ob_view w')" using writer_side_iff w'(2) log r(2) b by (simp add: writer_inv_def apart_def)
qed

lemma writer_node:
  assumes "obq_inv s" "writer_inv lc lo hi s"
  shows "node_inv lc (ob_close s)"
  using writer_side_iff [of "ob_close s" lc] assms by (simp add: writer_inv_def)

interpretation sdu_wr: obq_writer "\<lambda>e. via_ob (line_step st_in st_out e)" ob_notify tx_log lo hi "writer_inv lc lo hi" for st_in st_out lc lo hi
proof (unfold_locales, goal_cases)
  case (1 s e)
  obtain w' d u where w': "line_step st_in st_out e (ob_close s) = Inr w'" "sess lc (ob_close s) d u w'" "node_inv lc w'"
    using line_step_ok [OF writer_node [OF 1]] by blast
  with sess_writer [OF 1 w'(2,3)] show ?case by (auto simp: via_ob_def)
next
  case (2 s)
  obtain w' where w': "obnotify (ob_close s) = Inr w'" "sess lc (ob_close s) [] [] w'" "node_inv lc w'"
    using obnotify_node [OF writer_node [OF 2(1,2)]] by blast
  with sess_writer [OF 2(1,2) w'(2,3)] show ?case by (auto simp: via_ob_def notify_call_def ob_notify_def)
next
  case (3 s s')
  then show ?case by (rule writer_local_ok)
qed



end
