(* ===== verification/SduLive.thy ===== *)
theory SduLive
  imports SduControl
begin

text \<open>
  Progress of the serial port: while the device is configured and awake both directions keep going;
  after a resume they may not, since neither the completion callback nor the wakeup hook arms the
  endpoint again.
\<close>

lemma ep1_run:
  assumes "node_inv lc w" "ep1_event e"
  shows "\<exists>w' d u. hw_step a b e w = Inr w' \<and> sess lc w d u w' \<and> node_inv lc w' \<and> usb_state w' = usb_state w \<and>
    (usb_state w = USB_ACTIVE \<and> armed w \<longrightarrow> armed w') \<and> (\<not> bit (receiving w) 1 \<longrightarrow> d = [] \<and> \<not> bit (receiving w') 1)"
proof (cases "hw_ok e w")
  case True
  from ep1_step_ok [OF assms True, of a b] obtain w' d u where
      w': "bus_step a b e w = Inr w'" "sess lc w d u w'" "ep0_keep w w'" "usb_state w = USB_ACTIVE \<and> armed w \<longrightarrow> armed w'"
      "\<not> bit (receiving w) 1 \<longrightarrow> d = [] \<and> \<not> bit (receiving w') 1"
    by blast
  have "node_inv lc w'" using node_inv_keep [OF assms(1) _ w'(3)] w'(2) by (simp add: sess_def)
  moreover have "usb_state w' = usb_state w" using w'(3) by (simp add: ep0_keep_def ep0_same_def)
  ultimately show ?thesis using w' True by (intro exI [of _ w'] exI [of _ d] exI [of _ u]) (simp add: hw_step_def)
next
  case False
  then show ?thesis using assms sess_refl [OF node_inv_sdu(1) [OF assms(1)]]
    by (intro exI [of _ w] exI [of _ "[]"]) (simp add: hw_step_def)
qed


lemma obq_empty_stream: "obq_inv s \<Longrightarrow> obq_stream s = [] \<Longrightarrow> obqIsEmptyI (bq s)"
proof (rule ccontr)
  assume s: "obq_inv s" "obq_stream s = []" and n: "\<not> obqIsEmptyI (bq s)"
  note f = obq_front [OF s(1) n]
  from obq_release_ok [OF s(1) f(5)] s(2) have "bufdata (ram s) (brdptr (bq s)) = []" by auto
  then have "length (bufdata (ram s) (brdptr (bq s))) = 0" by simp
  then show False using f(3) by (simp add: bufdata_def)
qed


section \<open>A port that stays deaf\<close>

text \<open>A receive transfer that completes while the bus is suspended is not followed by another.\<close>

lemma received_suspended:
  assumes c: "sdu_config v = Some serusbcfg" "usb_state v = USB_SUSPENDED" and r: "sduDataReceived 1 v = Inr u"
  shows "receiving u = receiving v"
proof (cases "out_params v 0")
  case True
  let ?n = "rxcnt (ep_out v 1)"
  define A where "A = (if 0 < ?n then bindE (ibqPostFullBufferI ?n (ib_view (chnAddFlagsI CHN_INPUT_AVAILABLE v))) (\<lambda>s. Inr (ib_close s)) else Inr v)"
  have "sduDataReceived 1 v = bindE (out_state_of 1 v) (\<lambda>_. bindE A (\<lambda>w. drop_result (sdu_start_receive w)))"
    using True c(1) by (cases "epc v 1") (simp_all add: sduDataReceived_def A_def out_state_of_def usb_lld_get_transaction_size_def Let_def)
  with r obtain x where x: "A = Inr x" "drop_result (sdu_start_receive x) = Inr u"
    by (cases "out_state_of 1 v"; cases A) simp_all
  have "usb_state x = USB_SUSPENDED" "receiving x = receiving v" "sdu_config x = Some serusbcfg"
    using x(1) c queue_ops_dev(1) by (auto simp: A_def res_simps split: if_splits dest!: queue_ops_dev(1))
  then show ?thesis using x(2) by (simp add: sdu_start_receive_def drop_result_def)
next
  case False
  then show ?thesis using r by (simp add: sduDataReceived_def)
qed

lemma suspended_completion:
  assumes inv: "node_inv lc w" and st: "usb_state w = USB_SUSPENDED" "bit (receiving w) 1"
  shows "\<exists>w' d u. hw_step a b (OutDone 1) w = Inr w' \<and> sess lc w d u w' \<and> node_inv lc w' \<and> usb_state w' = USB_SUSPENDED \<and>
    saved_state w' = saved_state w \<and> \<not> bit (receiving w') 1"
proof -
  let ?e = "w\<lparr>receiving := receiving w AND NOT (ep_bit 1)\<rparr>"
  have hw: "hw_ok (OutDone 1) w" using st by (simp add: hw_ok_def)
  have ok: "sdu_ok lc w" "sdu_config w = Some serusbcfg" using node_inv_sdu(1) [OF inv] by (simp_all add: sdu_ok_def)
  have p: "epc w 1 = Some ep1config" using ok st by (simp add: sdu_ok_def rx1_ok_def)
  from ep1_step_ok [OF inv _ hw, of a b] obtain w' d u where w': "bus_step a b (OutDone 1) w = Inr w'" "sess lc w d u w'" "ep0_keep w w'"
    by (auto simp: ep1_event_def)
  have "sduDataReceived 1 ?e = Inr w'"
    using w'(1) ep1_out_cb [OF p, of a b] by (simp add: bus_step_def serve_def serve_single USB_MAX_ENDPOINTS_def)
  then have "receiving w' = receiving ?e" using received_suspended [of ?e w'] ok(2) st(1) by simp
  then have "\<not> bit (receiving w') 1" by (simp add: ep_bits)
  moreover have "node_inv lc w'" using node_inv_keep [OF inv _ w'(3)] w'(2) by (simp add: sess_def)
  ultimately show ?thesis using w' hw st by (auto simp: hw_step_def ep0_keep_def ep0_same_def)
qed

lemma wakeup_step:
  assumes inv: "node_inv lc w" and st: "usb_state w = USB_SUSPENDED"
  shows "\<exists>w'. hw_step a b BusWakeup w = Inr w' \<and> sess lc w [] [] w' \<and> node_inv lc w' \<and> usb_state w' = saved_state w \<and> receiving w' = receiving w"
proof -
  let ?v = "w\<lparr>usb_state := saved_state w\<rparr>"
  have hw: "hw_ok BusWakeup w" using st by (simp add: hw_ok_def)
  from session_step_ok [OF inv _ hw, of a b] obtain w' d u where w': "bus_step a b BusWakeup w = Inr w'" "node_inv lc w'"
    by (auto simp: session_event_def)
  then have e: "usb_isr_invoke_event_cb (usbcfg a b) USB_EVENT_WAKEUP ?v = Inr w'"
    by (simp add: bus_step_def serve_def serve_single usb_wakeup_def)
  have v: "?v = w\<lparr>saved_state := saved_state w, usb_state := saved_state w\<rparr>" by simp
  have "eff_state ?v = eff_state w" using inv st by (auto simp: ctl_inv_def core_inv_def eff_state_def)
  from event_sess [OF node_inv_sdu(1) [OF inv] this v node_inv_sdu(2) [OF inv] _ e] have s: "sess lc w [] [] w'" by simp
  have "w' = sduWakeupHookI ?v" using e node_inv_sdu(2) [OF inv] by (simp add: usb_isr_invoke_event_cb_def usbcfg_def usb_event_def)
  then have "usb_state w' = saved_state w" "receiving w' = receiving w"
    using hooks_relaxed(2) [of ?v] driver_sameD(5,12) [of ?v w'] by (simp_all add: relaxed_def)
  then show ?thesis using w' s hw by (auto simp: hw_step_def)
qed



end
