(* ===== verification/KernelRing.thy ===== *)
theory KernelRing
  imports Prelude
begin

text \<open>
  Circular doubly linked lists, the one data structure of the kernel: the list of the virtual
  timers, the ready list and every queue of threads is a ring through a header. The two link
  fields are functions from addresses to addresses, one per field of the C structures, so that
  a store to a field of one object is a function update.
\<close>

section \<open>Links\<close>

fun links :: "(nat \<Rightarrow> nat) \<Rightarrow> (nat \<Rightarrow> nat) \<Rightarrow> nat \<Rightarrow> nat list \<Rightarrow> nat \<Rightarrow> bool" where
  "links nx pv a [] b = (nx a = b \<and> pv b = a)"
| "links nx pv a (x # xs) b = (nx a = x \<and> pv x = a \<and> links nx pv x xs b)"

definition ring :: "(nat \<Rightarrow> nat) \<Rightarrow> (nat \<Rightarrow> nat) \<Rightarrow> nat \<Rightarrow> nat list \<Rightarrow> bool" where
  "ring nx pv h xs = (links nx pv h xs h \<and> distinct (h # xs))"

lemma links_append:
  "links nx pv a (xs @ x # ys) b \<longleftrightarrow> links nx pv a xs x \<and> links nx pv x ys b"
  by (induction xs arbitrary: a) auto

lemma links_snoc:
  "links nx pv a (xs @ [x]) b \<longleftrightarrow> links nx pv a xs x \<and> nx x = b \<and> pv b = x"
  by (simp add: links_append)

lemma links_upd_next [simp]:
  "u \<notin> set (a # xs) \<Longrightarrow> links (nx(u := v)) pv a xs b = links nx pv a xs b"
  by (induction xs arbitrary: a) auto

lemma links_upd_prev [simp]:
  "u \<notin> set (b # xs) \<Longrightarrow> links nx (pv(u := v)) a xs b = links nx pv a xs b"
  by (induction xs arbitrary: a) auto

lemma links_frame:
  "links nx pv a xs b \<Longrightarrow> \<forall>x \<in> set (a # xs). nx' x = nx x \<Longrightarrow> \<forall>x \<in> set (b # xs). pv' x = pv x \<Longrightarrow>
   links nx' pv' a xs b"
  by (induction xs arbitrary: a) auto

text \<open>The same list with another end: only the last link changes.\<close>

lemma links_relink:
  "links nx pv a xs b \<Longrightarrow> distinct (a # xs) \<Longrightarrow> \<forall>x \<in> set (a # xs). x \<noteq> last (a # xs) \<longrightarrow> nx' x = nx x \<Longrightarrow>
   nx' (last (a # xs)) = c \<Longrightarrow> \<forall>x \<in> set xs. pv' x = pv x \<Longrightarrow> pv' c = last (a # xs) \<Longrightarrow>
   links nx' pv' a xs c"
proof (induction xs arbitrary: a)
  case (Cons x xs)
  then have "last (x # xs) \<noteq> a" using last_in_set [of "x # xs"] by (auto simp del: last.simps)
  with Cons show ?case by auto
qed auto

lemma links_prev_end: "links nx pv a xs b \<Longrightarrow> pv b = last (a # xs)"
  by (induction xs arbitrary: a) auto

lemma links_next_start: "links nx pv a xs b \<Longrightarrow> nx a = hd (xs @ [b])"
  by (cases xs) auto

text \<open>The links determine the list.\<close>

lemma links_unique:
  "links nx pv a xs h \<Longrightarrow> links nx pv a ys h \<Longrightarrow> h \<notin> set xs \<Longrightarrow> h \<notin> set ys \<Longrightarrow> xs = ys"
proof (induction xs arbitrary: a ys)
  case Nil
  then show ?case by (cases ys) auto
next
  case (Cons x xs)
  then show ?case by (cases ys) auto
qed

section \<open>Rings\<close>

lemma ring_Nil [simp]: "ring nx pv h [] \<longleftrightarrow> nx h = h \<and> pv h = h"
  by (simp add: ring_def)

lemma ring_unique: "ring nx pv h xs \<Longrightarrow> ring nx pv h ys \<Longrightarrow> xs = ys"
  by (auto simp: ring_def intro: links_unique)

lemma ring_header: "ring nx pv h xs \<Longrightarrow> h \<notin> set xs"
  by (simp add: ring_def)

lemma ring_distinct: "ring nx pv h xs \<Longrightarrow> distinct xs"
  by (simp add: ring_def)

lemma ring_next: "ring nx pv h xs \<Longrightarrow> nx h = hd (xs @ [h])"
  by (auto simp: ring_def dest: links_next_start)

lemma ring_prev: "ring nx pv h xs \<Longrightarrow> pv h = last (h # xs)"
  unfolding ring_def by (blast dest: links_prev_end)

lemma ring_empty_iff: "ring nx pv h xs \<Longrightarrow> nx h = h \<longleftrightarrow> xs = []"
  by (cases xs) (auto simp: ring_def)

lemma ring_mid:
  assumes "ring nx pv h (xs @ t # ys)"
  shows "nx t = hd (ys @ [h])" "pv t = last (h # xs)"
  using assms by (auto simp: ring_def links_append dest: links_next_start links_prev_end)

text \<open>The two operations every client builds on: linking in before a node, and unlinking.\<close>

lemma ring_insert:
  assumes "ring nx pv h (xs @ ys)" "t \<notin> set (h # xs @ ys)" "p = hd (ys @ [h])"
  shows "ring (nx(t := p, pv p := t)) (pv(t := pv p, p := t)) h (xs @ t # ys)"
proof -
  let ?nx = "nx(t := p, pv p := t)" and ?pv = "pv(t := pv p, p := t)"
  have l: "links nx pv h xs p" and d: "distinct (h # xs)" "t \<notin> set (h # xs @ ys)" "p \<noteq> t" "p \<notin> set xs"
    using assms by (cases ys; auto simp: ring_def links_append)+
  have pp: "pv p = last (h # xs)" and lx: "last (h # xs) \<in> set (h # xs)" "last (h # xs) \<notin> set ys"
    using links_prev_end [OF l] last_in_set [of "h # xs"] assms(1) by (auto simp: ring_def simp del: last.simps)
  then have "last (h # xs) \<noteq> t" using d by (metis append_Cons in_set_conv_decomp set_append UnI1)
  then have "links ?nx ?pv h xs t" "?nx t = p" "?pv p = t"
    using d pp by (auto intro!: links_relink [OF l])
  moreover have "ys = [] \<or> links ?nx ?pv p (tl ys) h"
  proof (cases ys)
    case (Cons y zs)
    then have "links nx pv y zs h" "y \<notin> set zs" "h \<noteq> y" "y = p"
      using assms by (auto simp: ring_def links_append)
    then show ?thesis using Cons d pp lx by (auto intro!: links_frame [of nx pv y zs h])
  qed simp
  ultimately show ?thesis using assms d
    by (cases ys) (auto simp: ring_def links_append)
qed

lemma ring_remove:
  assumes "ring nx pv h (xs @ t # ys)"
  shows "ring (nx(pv t := nx t)) (pv(nx t := pv t)) h (xs @ ys)"
proof -
  have l: "links nx pv h xs t" "links nx pv t ys h" and d: "distinct (h # xs @ t # ys)"
    using assms by (auto simp: ring_def links_append)
  have pt: "pv t = last (h # xs)" using links_prev_end [OF l(1)] .
  have lx: "last (h # xs) \<notin> set (t # ys)" using d last_in_set [of "h # xs"] by (auto simp del: last.simps)
  have "nx t \<notin> set xs" using l(2) d by (cases ys) auto
  then have x: "links (nx(pv t := nx t)) (pv(nx t := pv t)) h xs (nx t)"
    by (intro links_relink [OF l(1)]) (use d pt in \<open>auto simp del: last.simps\<close>)
  show ?thesis
  proof (cases ys)
    case Nil
    with x l(2) d show ?thesis by (simp add: ring_def)
  next
    case (Cons y zs)
    then have "links (nx(pv t := nx t)) (pv(nx t := pv t)) y zs h"
      using l d pt lx by (auto intro!: links_frame [of nx pv y zs h])
    then show ?thesis using Cons d x l(2) by (simp add: ring_def links_append)
  qed
qed

text \<open>Removal of the first element, the way the code writes it.\<close>

lemma ring_pop:
  assumes "ring nx pv h (t # ys)"
  shows "ring (nx(h := nx t)) (pv(nx t := h)) h ys"
  using ring_remove [of nx pv h "[]" t ys] assms by (simp add: ring_def)

text \<open>Stores to objects outside a ring leave it alone.\<close>

lemma ring_frame:
  assumes "ring nx pv h xs" "\<And>x. x \<in> set (h # xs) \<Longrightarrow> nx' x = nx x \<and> pv' x = pv x"
  shows "ring nx' pv' h xs"
  using assms links_frame [of nx pv h xs h nx' pv'] by (auto simp: ring_def)

end
