(* ===== verification/VTimers.thy ===== *)
theory VTimers
  imports KernelRing
begin

text \<open>
  The virtual timers of the kernel, \<^verbatim>\<open>os/rt/src/chvt.c\<close> and \<^verbatim>\<open>os/rt/include/chvt.h\<close> in the
  tickless mode of this configuration (\<^verbatim>\<open>CH_CFG_ST_TIMEDELTA\<close> is 2), over the hardware counter
  of \<^verbatim>\<open>os/hal/ports/STM32/LLD/TIMv1/hal_st_lld.h\<close>. The timer objects are an explicit store, one
  function per field; address \<open>VTLIST\<close> is the list header \<^verbatim>\<open>ch.vtlist\<close>, which shares the fields
  \<open>next\<close>, \<open>prev\<close> and \<open>delta\<close> with a timer and has no callback.

  Time: \<open>ST_CNT\<close> is the free running counter. \<open>lags\<close> is a script: how many ticks pass
  before each of the next readings of the counter (none when it is used up), so a routine that reads the time
  several times may see it advance. Callbacks are values of a type of their own; the parameter
  \<open>cb\<close> of the tick routine says what each of them does. Interrupt masking is implicit: every
  operation is one critical section.
\<close>

section \<open>State\<close>

record 'f vtimers =
  vt_next :: "nat \<Rightarrow> nat"
  vt_prev :: "nat \<Rightarrow> nat"
  vt_delta :: "nat \<Rightarrow> sysinterval"
  vt_func :: "nat \<Rightarrow> 'f option"
  vt_par :: "nat \<Rightarrow> nat"
  lasttime :: systime
  ST_CNT :: systime
  ST_CCR :: systime
  CC1IF :: bool
  CC1IE :: bool
  lags :: "nat list"

definition VTLIST :: nat where "VTLIST = 0"
definition CH_CFG_ST_TIMEDELTA :: sysinterval where "CH_CFG_ST_TIMEDELTA = 2"

text \<open>
  Results of code with loops that may not end: \<open>None\<close> is a call that does not return.
\<close>

type_synonym 'a diverge = "'a result option"

definition bindP :: "'a diverge \<Rightarrow> ('a \<Rightarrow> 'b diverge) \<Rightarrow> 'b diverge" where
  "bindP m f = Option.bind m (\<lambda>r. case r of Inl e \<Rightarrow> Some (Inl e) | Inr x \<Rightarrow> f x)"

lemma bindP_simps [simp]:
  "bindP None f = None" "bindP (Some (Inl e)) f = Some (Inl e)" "bindP (Some (Inr x)) f = f x"
  by (simp_all add: bindP_def)

lemma bindP_mono [partial_function_mono]:
  assumes "mono_option B" "\<And>y. mono_option (\<lambda>f. C y f)"
  shows "mono_option (\<lambda>f. bindP (B f) (\<lambda>y. C y f))"
  unfolding bindP_def
proof (intro bind_mono assms)
  fix r
  show "mono_option (\<lambda>f. case r of Inl e \<Rightarrow> Some (Inl e) | Inr x \<Rightarrow> C x f)"
    by (cases r) (simp_all add: option.const_mono assms(2))
qed

section \<open>The hardware counter\<close>

text \<open>
  \<open>n\<close> ticks pass: the compare flag is set when the counter reaches the compare register on
  the way.
\<close>

definition st_advance :: "nat \<Rightarrow> ('f, 'a) vtimers_scheme \<Rightarrow> ('f, 'a) vtimers_scheme" where
  "st_advance n s = s\<lparr>ST_CNT := ST_CNT s + word_of_nat n,
     CC1IF := CC1IF s \<or> (0 < unat (ST_CCR s - ST_CNT s) \<and> unat (ST_CCR s - ST_CNT s) \<le> n)\<rparr>"

definition chVTGetSystemTimeX :: "('f, 'a) vtimers_scheme \<Rightarrow> systime \<times> ('f, 'a) vtimers_scheme" where
  "chVTGetSystemTimeX s = (case lags s of
      [] \<Rightarrow> (ST_CNT s, s)
    | n # ns \<Rightarrow> let s = st_advance n (s\<lparr>lags := ns\<rparr>) in (ST_CNT s, s))"

definition st_lld_start_alarm :: "systime \<Rightarrow> ('f, 'a) vtimers_scheme \<Rightarrow> ('f, 'a) vtimers_scheme" where
  "st_lld_start_alarm t s = s\<lparr>ST_CCR := t, CC1IF := False, CC1IE := True\<rparr>"

definition st_lld_stop_alarm :: "('f, 'a) vtimers_scheme \<Rightarrow> ('f, 'a) vtimers_scheme" where
  "st_lld_stop_alarm s = s\<lparr>CC1IE := False\<rparr>"

definition st_lld_set_alarm :: "systime \<Rightarrow> ('f, 'a) vtimers_scheme \<Rightarrow> ('f, 'a) vtimers_scheme" where
  "st_lld_set_alarm t s = s\<lparr>ST_CCR := t\<rparr>"

definition st_lld_is_alarm_active :: "('f, 'a) vtimers_scheme \<Rightarrow> bool" where
  "st_lld_is_alarm_active s = CC1IE s"

definition stStartAlarm :: "systime \<Rightarrow> ('f, 'a) vtimers_scheme \<Rightarrow> ('f, 'a) vtimers_scheme result" where
  "stStartAlarm t s = dbgAssert ''already active'' (\<not> st_lld_is_alarm_active s) (Inr (st_lld_start_alarm t s))"

definition stSetAlarm :: "systime \<Rightarrow> ('f, 'a) vtimers_scheme \<Rightarrow> ('f, 'a) vtimers_scheme result" where
  "stSetAlarm t s = dbgAssert ''not active'' (st_lld_is_alarm_active s) (Inr (st_lld_set_alarm t s))"

section \<open>Setting and resetting timers\<close>

definition vt_init :: "('f, 'a) vtimers_scheme \<Rightarrow> ('f, 'a) vtimers_scheme" where
  "vt_init s = s\<lparr>vt_next := (vt_next s)(VTLIST := VTLIST), vt_prev := (vt_prev s)(VTLIST := VTLIST),
     vt_delta := (vt_delta s)(VTLIST := -1), lasttime := 0\<rparr>"

definition chVTObjectInit :: "nat \<Rightarrow> ('f, 'a) vtimers_scheme \<Rightarrow> ('f, 'a) vtimers_scheme" where
  "chVTObjectInit vtp s = s\<lparr>vt_func := (vt_func s)(vtp := None)\<rparr>"

text \<open>The scan of \<^verbatim>\<open>chVTDoSetI\<close> for the place of a timer: the node to link before, its delta.\<close>

partial_function (option) vt_scan ::
  "('f, 'a) vtimers_scheme \<Rightarrow> nat \<Rightarrow> nat \<Rightarrow> sysinterval \<Rightarrow> (nat \<times> sysinterval) diverge" where
  "vt_scan s vtp p delta =
     (if vt_delta s p < delta then
        (if p = vtp then Some (Inl (DbgAssert ''timer already armed''))
         else vt_scan s vtp (vt_next s p) (delta - vt_delta s p))
      else Some (Inr (p, delta)))"

text \<open>Linking the timer in before \<open>p\<close>.\<close>

definition vt_link :: "nat \<Rightarrow> nat \<Rightarrow> sysinterval \<Rightarrow> ('f, 'a) vtimers_scheme \<Rightarrow> ('f, 'a) vtimers_scheme" where
  "vt_link vtp p delta s =
     (let s = s\<lparr>vt_next := (vt_next s)(vtp := p)\<rparr>;
          s = s\<lparr>vt_prev := (vt_prev s)(vtp := vt_prev s (vt_next s vtp))\<rparr>;
          s = s\<lparr>vt_next := (vt_next s)(vt_prev s vtp := vtp)\<rparr>;
          s = s\<lparr>vt_prev := (vt_prev s)(p := vtp)\<rparr>;
          s = s\<lparr>vt_delta := (vt_delta s)(vtp := delta)\<rparr>;
          s = s\<lparr>vt_delta := (vt_delta s)(p := vt_delta s p - delta)\<rparr>
      in s\<lparr>vt_delta := (vt_delta s)(VTLIST := -1)\<rparr>)"

text \<open>Where the scan starts: the first node, or the second one when the delay exceeds the range.\<close>

definition vt_set_start :: "systime \<Rightarrow> nat \<Rightarrow> ('f, 'a) vtimers_scheme \<Rightarrow> sysinterval \<Rightarrow>
    (nat \<times> sysinterval \<times> ('f, 'a) vtimers_scheme) diverge" where
  "vt_set_start now p s delta =
     (if delta < chTimeDiffX (lasttime s) now then Some (Inr (vt_next s p, delta - vt_delta s p, s))
      else if delta < vt_delta s p then
        Some (bindE (stSetAlarm (chTimeAddX (lasttime s) delta) s) (\<lambda>s. Inr (p, delta, s)))
      else Some (Inr (p, delta, s)))"

definition chVTDoSetI :: "nat option \<Rightarrow> sysinterval \<Rightarrow> 'f option \<Rightarrow> nat \<Rightarrow> ('f, 'a) vtimers_scheme \<Rightarrow>
    ('f, 'a) vtimers_scheme diverge" where
  "chVTDoSetI vtpo delay vtfunc par s =
     (case (vtpo, vtfunc) of
        (Some vtp, Some _) \<Rightarrow>
          if delay = TIME_IMMEDIATE then Some (Inl (DbgCheck ''chVTDoSetI'')) else
          let s = s\<lparr>vt_par := (vt_par s)(vtp := par), vt_func := (vt_func s)(vtp := vtfunc)\<rparr>;
              (now, s) = chVTGetSystemTimeX s;
              delay = (if delay < CH_CFG_ST_TIMEDELTA then CH_CFG_ST_TIMEDELTA else delay)
          in if vt_next s VTLIST = VTLIST then
               let s = s\<lparr>lasttime := now,
                     vt_next := (vt_next s)(VTLIST := vtp, vtp := VTLIST),
                     vt_prev := (vt_prev s)(VTLIST := vtp, vtp := VTLIST),
                     vt_delta := (vt_delta s)(vtp := delay)\<rparr>
               in Some (stStartAlarm (chTimeAddX (lasttime s) delay) s)
             else
               let p = vt_next s VTLIST;
                   delta = chTimeDiffX (lasttime s) now + delay
               in bindP
                    (vt_set_start now p s delta)
                    (\<lambda>(p, delta, s). bindP (vt_scan s vtp p delta)
                       (\<lambda>(p, delta). Some (Inr (vt_link vtp p delta s))))
      | _ \<Rightarrow> Some (Inl (DbgCheck ''chVTDoSetI'')))"

text \<open>Unlinking a timer from the middle of the list.\<close>

definition vt_unlink :: "nat \<Rightarrow> ('f, 'a) vtimers_scheme \<Rightarrow> ('f, 'a) vtimers_scheme" where
  "vt_unlink vtp s =
     (let s = s\<lparr>vt_next := (vt_next s)(vt_prev s vtp := vt_next s vtp)\<rparr>;
          s = s\<lparr>vt_prev := (vt_prev s)(vt_next s vtp := vt_prev s vtp)\<rparr>
      in s\<lparr>vt_func := (vt_func s)(vtp := None)\<rparr>)"

definition chVTDoResetI :: "nat \<Rightarrow> ('f, 'a) vtimers_scheme \<Rightarrow> ('f, 'a) vtimers_scheme result" where
  "chVTDoResetI vtp s =
     dbgAssert ''timer not set or already triggered'' (vt_func s vtp \<noteq> None)
       (if vt_next s VTLIST \<noteq> vtp then
          let s = vt_unlink vtp s in
          if vt_next s vtp \<noteq> VTLIST then
            Inr (s\<lparr>vt_delta := (vt_delta s)(vt_next s vtp := vt_delta s (vt_next s vtp) + vt_delta s vtp)\<rparr>)
          else Inr s
        else
          let s = s\<lparr>vt_next := (vt_next s)(VTLIST := vt_next s vtp)\<rparr>;
              s = s\<lparr>vt_prev := (vt_prev s)(vt_next s VTLIST := VTLIST), vt_func := (vt_func s)(vtp := None)\<rparr>
          in if vt_next s VTLIST = VTLIST then Inr (st_lld_stop_alarm s)
             else
               let s = s\<lparr>vt_delta := (vt_delta s)(vt_next s VTLIST :=
                          vt_delta s (vt_next s VTLIST) + vt_delta s vtp)\<rparr>;
                   (now, s) = chVTGetSystemTimeX s;
                   nowdelta = chTimeDiffX (lasttime s) now
               in if vt_delta s (vt_next s VTLIST) \<le> nowdelta then Inr s
                  else
                    let delta = vt_delta s (vt_next s VTLIST) - nowdelta;
                        delta = (if delta < CH_CFG_ST_TIMEDELTA then nowdelta + CH_CFG_ST_TIMEDELTA
                                 else nowdelta + delta)
                    in stSetAlarm (chTimeAddX (lasttime s) delta) s)"

definition chVTIsArmedI :: "nat \<Rightarrow> ('f, 'a) vtimers_scheme \<Rightarrow> bool" where
  "chVTIsArmedI vtp s = (vt_func s vtp \<noteq> None)"

definition chVTResetI :: "nat \<Rightarrow> ('f, 'a) vtimers_scheme \<Rightarrow> ('f, 'a) vtimers_scheme result" where
  "chVTResetI vtp s = (if chVTIsArmedI vtp s then chVTDoResetI vtp s else Inr s)"

definition chVTSetI :: "nat \<Rightarrow> sysinterval \<Rightarrow> 'f option \<Rightarrow> nat \<Rightarrow> ('f, 'a) vtimers_scheme \<Rightarrow>
    ('f, 'a) vtimers_scheme diverge" where
  "chVTSetI vtp delay vtfunc par s =
     bindP (Some (chVTResetI vtp s)) (chVTDoSetI (Some vtp) delay vtfunc par)"

definition chVTGetTimersStateI :: "('f, 'a) vtimers_scheme \<Rightarrow> sysinterval option \<times> ('f, 'a) vtimers_scheme" where
  "chVTGetTimersStateI s =
     (if vt_next s VTLIST = VTLIST then (None, s)
      else let (now, s) = chVTGetSystemTimeX s in
           (Some (chTimeDiffX now (chTimeAddX (lasttime s)
              (vt_delta s (vt_next s VTLIST) + CH_CFG_ST_TIMEDELTA))), s))"

section \<open>The tick\<close>

text \<open>
  The inner loop of \<^verbatim>\<open>chVTDoTickI\<close>: expired timers are taken off the list one by one and their
  callbacks called. It ends with the timer it stopped at and the rest of the time slice.
\<close>

partial_function (option) vt_consume ::
  "('f \<Rightarrow> nat \<Rightarrow> ('f, 'a) vtimers_scheme \<Rightarrow> ('f, 'a) vtimers_scheme diverge) \<Rightarrow> sysinterval \<Rightarrow> nat \<Rightarrow>
   ('f, 'a) vtimers_scheme \<Rightarrow> (nat \<times> sysinterval \<times> ('f, 'a) vtimers_scheme) diverge" where
  "vt_consume cb nowdelta vtp s =
     (let s = s\<lparr>lasttime := lasttime s + vt_delta s vtp\<rparr>;
          nowdelta = nowdelta - vt_delta s vtp;
          s = s\<lparr>vt_prev := (vt_prev s)(vt_next s vtp := VTLIST)\<rparr>;
          s = s\<lparr>vt_next := (vt_next s)(VTLIST := vt_next s vtp)\<rparr>;
          fn = vt_func s vtp;
          s = s\<lparr>vt_func := (vt_func s)(vtp := None)\<rparr>;
          s = (if vt_next s VTLIST = VTLIST then st_lld_stop_alarm s else s)
      in bindP (bindP (Some (deref ''fn'' fn)) (\<lambda>f. cb f (vt_par s vtp) s))
           (\<lambda>s. let vtp = vt_next s VTLIST in
                 if vt_delta s vtp \<le> nowdelta then vt_consume cb nowdelta vtp s
                 else Some (Inr (vtp, nowdelta, s))))"

text \<open>The outer loop: the reference time, the slice and the timer of its last turn.\<close>

partial_function (option) vt_tick_loop ::
  "('f \<Rightarrow> nat \<Rightarrow> ('f, 'a) vtimers_scheme \<Rightarrow> ('f, 'a) vtimers_scheme diverge) \<Rightarrow> nat \<Rightarrow>
   ('f, 'a) vtimers_scheme \<Rightarrow> (systime \<times> sysinterval \<times> nat \<times> ('f, 'a) vtimers_scheme) diverge" where
  "vt_tick_loop cb vtp s =
     (case chVTGetSystemTimeX s of (now, s) \<Rightarrow>
        let nowdelta = chTimeDiffX (lasttime s) now in
        if nowdelta < vt_delta s vtp then Some (Inr (now, nowdelta, vtp, s))
        else bindP (vt_consume cb nowdelta vtp s) (\<lambda>(vtp, nowdelta, s). vt_tick_loop cb vtp s))"

text \<open>What follows the loops: the new base time and the next alarm.\<close>

definition vt_tick_end :: "systime \<Rightarrow> sysinterval \<Rightarrow> nat \<Rightarrow> ('f, 'a) vtimers_scheme \<Rightarrow>
    ('f, 'a) vtimers_scheme result" where
  "vt_tick_end now nowdelta vtp s =
     (if vt_next s VTLIST = VTLIST then Inr s else
      let s = s\<lparr>lasttime := lasttime s + nowdelta,
                vt_delta := (vt_delta s)(vt_next s VTLIST := vt_delta s (vt_next s VTLIST) - nowdelta)\<rparr>;
          delta = chTimeDiffX now (chTimeAddX (lasttime s) (vt_delta s vtp));
          delta = (if delta < CH_CFG_ST_TIMEDELTA then CH_CFG_ST_TIMEDELTA else delta)
      in bindE (stSetAlarm (chTimeAddX now delta) s) (\<lambda>s.
         case chVTGetSystemTimeX s of (now', s) \<Rightarrow>
           dbgAssert ''exceeding delta''
             (chTimeDiffX (lasttime s) now' \<le> chTimeDiffX (lasttime s) (chTimeAddX now delta)) (Inr s)))"

definition chVTDoTickI ::
  "('f \<Rightarrow> nat \<Rightarrow> ('f, 'a) vtimers_scheme \<Rightarrow> ('f, 'a) vtimers_scheme diverge) \<Rightarrow>
   ('f, 'a) vtimers_scheme \<Rightarrow> ('f, 'a) vtimers_scheme diverge" where
  "chVTDoTickI cb s =
     bindP (vt_tick_loop cb (vt_next s VTLIST) s)
       (\<lambda>(now, nowdelta, vtp, s). Some (vt_tick_end now nowdelta vtp s))"

text \<open>The interrupt of the timer, \<^verbatim>\<open>ST_HANDLER\<close> of \<^verbatim>\<open>hal_st_lld.c\<close>.\<close>

definition ST_HANDLER ::
  "('f \<Rightarrow> nat \<Rightarrow> ('f, 'a) vtimers_scheme \<Rightarrow> ('f, 'a) vtimers_scheme diverge) \<Rightarrow>
   ('f, 'a) vtimers_scheme \<Rightarrow> ('f, 'a) vtimers_scheme diverge" where
  "ST_HANDLER cb s = (if CC1IF s then chVTDoTickI cb (s\<lparr>CC1IF := False\<rparr>) else Some (Inr s))"

end
