(* ===== verification/Sched.thy ===== *)
theory Sched
  imports VTimers
begin

text \<open>
  The scheduler of the kernel: \<^verbatim>\<open>os/rt/src/chschd.c\<close> and \<^verbatim>\<open>os/rt/include/chschd.h\<close>, the thread
  references and thread queues of \<^verbatim>\<open>os/rt/src/chthreads.c\<close>, the counting semaphores of
  \<^verbatim>\<open>os/rt/src/chsem.c\<close>. Thread objects, queue headers and the ready list are an explicit store with
  one function per field; \<open>RLIST\<close> is the header of the ready list, whose \<open>prio\<close> field is the
  \<^verbatim>\<open>ch.rlist.prio\<close> that ends every scan. The union \<^verbatim>\<open>u\<close> of a thread is a datatype: reading
  another member than the last one written is a fault.

  A routine that puts the running thread to sleep ends where another thread runs. What the sleeper still has
  to do when it runs again is recorded in \<open>cont\<close>; \<open>chSysSwitch\<close> does it at once, because
  the code does it before it leaves the critical section. The values such calls return are logged in
  \<open>returned\<close>. Scans of rings may not end: those routines have a \<open>diverge\<close> result.
\<close>

section \<open>State\<close>

datatype tstate = CH_STATE_READY | CH_STATE_CURRENT | CH_STATE_WTSTART | CH_STATE_SUSPENDED
  | CH_STATE_QUEUED | CH_STATE_WTSEM | CH_STATE_WTMTX | CH_STATE_WTCOND | CH_STATE_SLEEPING
  | CH_STATE_WTEXIT | CH_STATE_WTOREVT | CH_STATE_WTANDEVT | CH_STATE_SNDMSGQ | CH_STATE_SNDMSG
  | CH_STATE_WTMSG | CH_STATE_FINAL

datatype thread_u = U_rdymsg msg | U_wttrp nat | U_wtobjp nat

text \<open>What a sleeping thread does when it runs again: disarm a timer, then return \<open>u.rdymsg\<close>.\<close>

datatype resume = Return | Disarm nat

record threads =
  q_next :: "nat \<Rightarrow> nat"
  q_prev :: "nat \<Rightarrow> nat"
  prio :: "nat \<Rightarrow> nat"
  th_state :: "nat \<Rightarrow> tstate"
  th_u :: "nat \<Rightarrow> thread_u"
  current :: nat
  thread_ref :: "nat \<Rightarrow> nat option"
  sem_cnt :: "nat \<Rightarrow> int"
  cont :: "nat \<Rightarrow> resume option"
  returned :: "(nat \<times> msg) list"

datatype vtfunc = Wakeup

type_synonym kernel = "(vtfunc, threads) vtimers_scheme"

abbreviation thr :: "kernel \<Rightarrow> threads" where
  "thr \<equiv> vtimers.more"

definition RLIST :: nat where "RLIST = 0"
definition NOPRIO :: nat where "NOPRIO = 0"
definition IDLEPRIO :: nat where "IDLEPRIO = 1"
definition NORMALPRIO :: nat where "NORMALPRIO = 128"
definition HIGHPRIO :: nat where "HIGHPRIO = 255"

section \<open>Queues\<close>

definition queue_init :: "nat \<Rightarrow> threads \<Rightarrow> threads" where
  "queue_init q s = s\<lparr>q_next := (q_next s)(q := q), q_prev := (q_prev s)(q := q)\<rparr>"

definition queue_isempty :: "nat \<Rightarrow> threads \<Rightarrow> bool" where
  "queue_isempty q s = (q_next s q = q)"

definition queue_notempty :: "nat \<Rightarrow> threads \<Rightarrow> bool" where
  "queue_notempty q s = (q_next s q \<noteq> q)"

text \<open>The four stores that link a thread in before a node.\<close>

definition queue_link :: "nat \<Rightarrow> nat \<Rightarrow> threads \<Rightarrow> threads" where
  "queue_link tp cp s =
     (let s = s\<lparr>q_next := (q_next s)(tp := cp)\<rparr>;
          s = s\<lparr>q_prev := (q_prev s)(tp := q_prev s cp)\<rparr>;
          s = s\<lparr>q_next := (q_next s)(q_prev s tp := tp)\<rparr>
      in s\<lparr>q_prev := (q_prev s)(cp := tp)\<rparr>)"

definition queue_insert :: "nat \<Rightarrow> nat \<Rightarrow> threads \<Rightarrow> threads" where
  "queue_insert tp q s = queue_link tp q s"

partial_function (option) queue_prio_scan :: "threads \<Rightarrow> nat \<Rightarrow> nat \<Rightarrow> nat \<Rightarrow> nat option" where
  "queue_prio_scan s tp q cp =
     (let cp = q_next s cp in
      if cp \<noteq> q \<and> prio s tp \<le> prio s cp then queue_prio_scan s tp q cp else Some cp)"

definition queue_prio_insert :: "nat \<Rightarrow> nat \<Rightarrow> threads \<Rightarrow> threads option" where
  "queue_prio_insert tp q s = map_option (\<lambda>cp. queue_link tp cp s) (queue_prio_scan s tp q q)"

definition queue_fifo_remove :: "nat \<Rightarrow> threads \<Rightarrow> nat \<times> threads" where
  "queue_fifo_remove q s =
     (let tp = q_next s q;
          s = s\<lparr>q_next := (q_next s)(q := q_next s tp)\<rparr>
      in (tp, s\<lparr>q_prev := (q_prev s)(q_next s q := q)\<rparr>))"

definition queue_lifo_remove :: "nat \<Rightarrow> threads \<Rightarrow> nat \<times> threads" where
  "queue_lifo_remove q s =
     (let tp = q_prev s q;
          s = s\<lparr>q_prev := (q_prev s)(q := q_prev s tp)\<rparr>
      in (tp, s\<lparr>q_next := (q_next s)(q_prev s q := q)\<rparr>))"

definition queue_dequeue :: "nat \<Rightarrow> threads \<Rightarrow> threads" where
  "queue_dequeue tp s =
     (let s = s\<lparr>q_next := (q_next s)(q_prev s tp := q_next s tp)\<rparr>
      in s\<lparr>q_prev := (q_prev s)(q_next s tp := q_prev s tp)\<rparr>)"

section \<open>The ready list\<close>

definition scheduler_init :: "threads \<Rightarrow> threads" where
  "scheduler_init s = (queue_init RLIST s)\<lparr>prio := (prio s)(RLIST := NOPRIO)\<rparr>"

text \<open>The scans of the two insertions: behind the threads of the same priority, or ahead of them.\<close>

partial_function (option) ready_scan :: "threads \<Rightarrow> nat \<Rightarrow> nat \<Rightarrow> nat option" where
  "ready_scan s tp cp =
     (let cp = q_next s cp in if prio s tp \<le> prio s cp then ready_scan s tp cp else Some cp)"

partial_function (option) ready_scan_ahead :: "threads \<Rightarrow> nat \<Rightarrow> nat \<Rightarrow> nat option" where
  "ready_scan_ahead s tp cp =
     (let cp = q_next s cp in if prio s tp < prio s cp then ready_scan_ahead s tp cp else Some cp)"

definition ready_with :: "(threads \<Rightarrow> nat \<Rightarrow> nat \<Rightarrow> nat option) \<Rightarrow> nat \<Rightarrow> threads \<Rightarrow> threads diverge" where
  "ready_with scan tp s =
     (if th_state s tp = CH_STATE_READY \<or> th_state s tp = CH_STATE_FINAL
      then Some (Inl (DbgAssert ''invalid state''))
      else let s = s\<lparr>th_state := (th_state s)(tp := CH_STATE_READY)\<rparr> in
           map_option (\<lambda>cp. Inr (queue_link tp cp s)) (scan s tp RLIST))"

definition chSchReadyI :: "nat \<Rightarrow> threads \<Rightarrow> threads diverge" where
  "chSchReadyI tp s = ready_with ready_scan tp s"

definition chSchReadyAheadI :: "nat \<Rightarrow> threads \<Rightarrow> threads diverge" where
  "chSchReadyAheadI tp s = ready_with ready_scan_ahead tp s"

definition firstprio :: "nat \<Rightarrow> threads \<Rightarrow> nat" where
  "firstprio q s = prio s (q_next s q)"

definition chSchIsRescRequiredI :: "threads \<Rightarrow> bool" where
  "chSchIsRescRequiredI s = (prio s (current s) < firstprio RLIST s)"

definition chSchCanYieldS :: "threads \<Rightarrow> bool" where
  "chSchCanYieldS s = (prio s (current s) \<le> firstprio RLIST s)"

definition chSchIsPreemptionRequired :: "threads \<Rightarrow> bool" where
  "chSchIsPreemptionRequired s = (prio s (current s) < firstprio RLIST s)"

text \<open>\<^verbatim>\<open>currp = queue_fifo_remove(&ch.rlist.queue); currp->state = CH_STATE_CURRENT;\<close>\<close>

definition next_current :: "threads \<Rightarrow> threads" where
  "next_current s = (case queue_fifo_remove RLIST s of (tp, s) \<Rightarrow>
     s\<lparr>current := tp, th_state := (th_state s)(tp := CH_STATE_CURRENT)\<rparr>)"

section \<open>Switching and sleeping\<close>

text \<open>
  \<open>chSysSwitch\<close> runs at the switch to the thread that is now current: its interrupted call ends.
\<close>

definition chSysSwitch :: "kernel \<Rightarrow> kernel result" where
  "chSysSwitch s = (let ntp = current (thr s) in
     case cont (thr s) ntp of
       None \<Rightarrow> Inr s
     | Some r \<Rightarrow>
         bindE (case r of Return \<Rightarrow> Inr s
                | Disarm vt \<Rightarrow> if chVTIsArmedI vt s then chVTDoResetI vt s else Inr s)
           (\<lambda>s. case th_u (thr s) ntp of
              U_rdymsg m \<Rightarrow> Inr (vtimers.more_update (\<lambda>x. x\<lparr>cont := (cont x)(ntp := None),
                 returned := returned x @ [(ntp, m)]\<rparr>) s)
            | _ \<Rightarrow> Inl (Fault ''rdymsg'')))"

definition on_threads :: "(threads \<Rightarrow> threads diverge) \<Rightarrow> kernel \<Rightarrow> kernel diverge" where
  "on_threads f s = bindP (f (thr s)) (\<lambda>x. Some (Inr (vtimers.more_update (\<lambda>_. x) s)))"

definition chSchGoSleepS :: "tstate \<Rightarrow> resume \<Rightarrow> kernel \<Rightarrow> kernel result" where
  "chSchGoSleepS newstate r s =
     chSysSwitch (vtimers.more_update (\<lambda>x. next_current (x\<lparr>
       th_state := (th_state x)(current x := newstate), cont := (cont x)(current x := Some r)\<rparr>)) s)"

definition wakeup :: "nat \<Rightarrow> threads \<Rightarrow> threads diverge" where
  "wakeup tp s =
     (if th_state s tp = CH_STATE_READY then Some (Inr s) else
      bindP (Some (case th_state s tp of
               CH_STATE_SUSPENDED \<Rightarrow>
                 (case th_u s tp of
                    U_wttrp r \<Rightarrow> Inr (s\<lparr>thread_ref := (thread_ref s)(r := None)\<rparr>)
                  | _ \<Rightarrow> Inl (Fault ''wttrp''))
             | CH_STATE_WTSEM \<Rightarrow>
                 (case th_u s tp of
                    U_wtobjp sp \<Rightarrow> Inr (queue_dequeue tp (s\<lparr>sem_cnt := (sem_cnt s)(sp := sem_cnt s sp + 1)\<rparr>))
                  | _ \<Rightarrow> Inl (Fault ''wtsemp''))
             | CH_STATE_QUEUED \<Rightarrow> Inr (queue_dequeue tp s)
             | CH_STATE_WTCOND \<Rightarrow> Inr (queue_dequeue tp s)
             | _ \<Rightarrow> Inr s))
        (\<lambda>s. chSchReadyI tp (s\<lparr>th_u := (th_u s)(tp := U_rdymsg MSG_TIMEOUT)\<rparr>)))"

text \<open>The callbacks of the virtual timers of this system.\<close>

fun run_callback :: "vtfunc \<Rightarrow> nat \<Rightarrow> kernel \<Rightarrow> kernel diverge" where
  "run_callback Wakeup p s = on_threads (wakeup p) s"

text \<open>
  The timer is a local variable of the sleeping call: its address is a function of the thread, which
  can be inside one such call only.
\<close>

definition stack_vt :: "nat \<Rightarrow> nat" where "stack_vt tp = Suc tp"

definition chSchGoSleepTimeoutS :: "tstate \<Rightarrow> sysinterval \<Rightarrow> kernel \<Rightarrow> kernel diverge" where
  "chSchGoSleepTimeoutS newstate timeout s =
     (let vt = stack_vt (current (thr s)) in if timeout \<noteq> TIME_INFINITE then
        bindP (chVTDoSetI (Some vt) timeout (Some Wakeup) (current (thr s)) s)
          (\<lambda>s. Some (chSchGoSleepS newstate (Disarm vt) s))
      else Some (chSchGoSleepS newstate Return s))"

section \<open>Waking and rescheduling\<close>

definition chSchDoRescheduleBehind :: "kernel \<Rightarrow> kernel diverge" where
  "chSchDoRescheduleBehind s =
     bindP (on_threads (\<lambda>x. chSchReadyI (current x) (next_current x)) s) (\<lambda>s. Some (chSysSwitch s))"

definition chSchDoRescheduleAhead :: "kernel \<Rightarrow> kernel diverge" where
  "chSchDoRescheduleAhead s =
     bindP (on_threads (\<lambda>x. chSchReadyAheadI (current x) (next_current x)) s) (\<lambda>s. Some (chSysSwitch s))"

definition chSchDoReschedule :: "kernel \<Rightarrow> kernel diverge" where
  "chSchDoReschedule s = chSchDoRescheduleAhead s"

definition chSchRescheduleS :: "kernel \<Rightarrow> kernel diverge" where
  "chSchRescheduleS s = (if chSchIsRescRequiredI (thr s) then chSchDoRescheduleAhead s else Some (Inr s))"

definition chSchDoYieldS :: "kernel \<Rightarrow> kernel diverge" where
  "chSchDoYieldS s = (if chSchCanYieldS (thr s) then chSchDoRescheduleBehind s else Some (Inr s))"

text \<open>The end of an interrupt: \<^verbatim>\<open>chSchIsPreemptionRequired\<close> then \<^verbatim>\<open>chSchDoReschedule\<close>.\<close>

definition irq_epilogue :: "kernel \<Rightarrow> kernel diverge" where
  "irq_epilogue s = (if chSchIsPreemptionRequired (thr s) then chSchDoReschedule s else Some (Inr s))"

definition chSchWakeupS :: "nat \<Rightarrow> msg \<Rightarrow> kernel \<Rightarrow> kernel diverge" where
  "chSchWakeupS ntp m s =
     (let x = thr s; otp = current x in
      if \<not> (queue_isempty RLIST x \<or> firstprio RLIST x \<le> prio x otp)
      then Some (Inl (DbgAssert ''priority order violation''))
      else
        let x = x\<lparr>th_u := (th_u x)(ntp := U_rdymsg m)\<rparr> in
        if prio x ntp \<le> prio x otp then on_threads (\<lambda>_. chSchReadyI ntp x) s
        else bindP (on_threads (\<lambda>_. bindP (chSchReadyI otp x) (\<lambda>x.
                 Some (Inr (x\<lparr>current := ntp, th_state := (th_state x)(ntp := CH_STATE_CURRENT)\<rparr>)))) s)
               (\<lambda>s. Some (chSysSwitch s)))"

section \<open>Creating threads\<close>

text \<open>
  The fields of \<^verbatim>\<open>_thread_init\<close> this model has. The working area, the initial stack frame of the port
  and the registry are not modelled: \<open>tp\<close> is the address of the thread object in its working area.
\<close>

definition thread_init :: "nat \<Rightarrow> nat \<Rightarrow> threads \<Rightarrow> threads" where
  "thread_init tp p s = s\<lparr>prio := (prio s)(tp := p), th_state := (th_state s)(tp := CH_STATE_WTSTART)\<rparr>"

definition chThdCreateSuspendedI :: "nat \<Rightarrow> nat \<Rightarrow> threads \<Rightarrow> threads result" where
  "chThdCreateSuspendedI tp p s = dbgCheck ''chThdCreateSuspendedI'' (p \<le> HIGHPRIO) (Inr (thread_init tp p s))"

definition chThdCreateI :: "nat \<Rightarrow> nat \<Rightarrow> threads \<Rightarrow> threads diverge" where
  "chThdCreateI tp p s = bindP (Some (chThdCreateSuspendedI tp p s)) (chSchReadyI tp)"

definition chThdStart :: "nat \<Rightarrow> kernel \<Rightarrow> kernel diverge" where
  "chThdStart tp s =
     (if th_state (thr s) tp \<noteq> CH_STATE_WTSTART then Some (Inl (DbgAssert ''wrong state''))
      else chSchWakeupS tp MSG_OK s)"

definition chThdCreate :: "nat \<Rightarrow> nat \<Rightarrow> kernel \<Rightarrow> kernel diverge" where
  "chThdCreate tp p s =
     bindP (on_threads (\<lambda>x. Some (chThdCreateSuspendedI tp p x)) s) (chSchWakeupS tp MSG_OK)"

definition chThdCreateStatic :: "nat \<Rightarrow> nat \<Rightarrow> kernel \<Rightarrow> kernel diverge" where
  "chThdCreateStatic tp p s =
     (if \<not> p \<le> HIGHPRIO then Some (Inl (DbgCheck ''chThdCreateStatic''))
      else chSchWakeupS tp MSG_OK (vtimers.more_update (thread_init tp p) s))"

text \<open>
  \<^verbatim>\<open>chSysInit\<close>: the caller becomes the thread \<open>main\<close>, then the idle thread is created.
\<close>

definition main_thread :: "nat \<Rightarrow> threads \<Rightarrow> threads" where
  "main_thread tp s = (let s = thread_init tp NORMALPRIO s in
     s\<lparr>current := tp, th_state := (th_state s)(tp := CH_STATE_CURRENT)\<rparr>)"

definition chSysInit :: "nat \<Rightarrow> nat \<Rightarrow> kernel \<Rightarrow> kernel diverge" where
  "chSysInit main_th idle_th s =
     (let s = vtimers.more_update scheduler_init s;
          s = vt_init s;
          s = vtimers.more_update (main_thread main_th) s
      in chThdCreate idle_th IDLEPRIO s)"

section \<open>Thread references\<close>

definition chThdSleepS :: "sysinterval \<Rightarrow> kernel \<Rightarrow> kernel diverge" where
  "chThdSleepS ticks s =
     (if ticks = TIME_IMMEDIATE then Some (Inl (DbgCheck ''chThdSleepS''))
      else chSchGoSleepTimeoutS CH_STATE_SLEEPING ticks s)"

definition set_ref :: "nat \<Rightarrow> kernel \<Rightarrow> kernel" where
  "set_ref trp = vtimers.more_update (\<lambda>x. x\<lparr>thread_ref := (thread_ref x)(trp := Some (current x)),
     th_u := (th_u x)(current x := U_wttrp trp)\<rparr>)"

definition chThdSuspendS :: "nat \<Rightarrow> kernel \<Rightarrow> kernel result" where
  "chThdSuspendS trp s =
     dbgAssert ''not NULL'' (thread_ref (thr s) trp = None)
       (chSchGoSleepS CH_STATE_SUSPENDED Return (set_ref trp s))"

text \<open>A call that returns at once logs its result like the others.\<close>

definition return_now :: "msg \<Rightarrow> kernel \<Rightarrow> kernel" where
  "return_now m = vtimers.more_update (\<lambda>x. x\<lparr>returned := returned x @ [(current x, m)]\<rparr>)"

definition chThdSuspendTimeoutS :: "nat \<Rightarrow> sysinterval \<Rightarrow> kernel \<Rightarrow> kernel diverge" where
  "chThdSuspendTimeoutS trp timeout s =
     (if thread_ref (thr s) trp \<noteq> None then Some (Inl (DbgAssert ''not NULL''))
      else if timeout = TIME_IMMEDIATE then Some (Inr (return_now MSG_TIMEOUT s))
      else chSchGoSleepTimeoutS CH_STATE_SUSPENDED timeout (set_ref trp s))"

definition chThdResumeI :: "nat \<Rightarrow> msg \<Rightarrow> threads \<Rightarrow> threads diverge" where
  "chThdResumeI trp m s = (case thread_ref s trp of
      None \<Rightarrow> Some (Inr s)
    | Some tp \<Rightarrow>
        if th_state s tp \<noteq> CH_STATE_SUSPENDED then Some (Inl (DbgAssert ''not CH_STATE_SUSPENDED''))
        else chSchReadyI tp (s\<lparr>thread_ref := (thread_ref s)(trp := None), th_u := (th_u s)(tp := U_rdymsg m)\<rparr>))"

definition chThdResumeS :: "nat \<Rightarrow> msg \<Rightarrow> kernel \<Rightarrow> kernel diverge" where
  "chThdResumeS trp m s = (case thread_ref (thr s) trp of
      None \<Rightarrow> Some (Inr s)
    | Some tp \<Rightarrow>
        if th_state (thr s) tp \<noteq> CH_STATE_SUSPENDED then Some (Inl (DbgAssert ''not CH_STATE_SUSPENDED''))
        else chSchWakeupS tp m (vtimers.more_update (\<lambda>x. x\<lparr>thread_ref := (thread_ref x)(trp := None)\<rparr>) s))"

section \<open>Queues of threads\<close>

definition thdEnqueueTimeoutS :: "nat \<Rightarrow> sysinterval \<Rightarrow> kernel \<Rightarrow> kernel diverge" where
  "thdEnqueueTimeoutS q timeout s =
     (if timeout = TIME_IMMEDIATE then Some (Inr (return_now MSG_TIMEOUT s))
      else chSchGoSleepTimeoutS CH_STATE_QUEUED timeout
             (vtimers.more_update (\<lambda>x. queue_insert (current x) q x) s))"

definition chThdDoDequeueNextI :: "nat \<Rightarrow> msg \<Rightarrow> threads \<Rightarrow> threads diverge" where
  "chThdDoDequeueNextI q m s =
     (if queue_isempty q s then Some (Inl (DbgAssert ''empty queue'')) else
      case queue_fifo_remove q s of (tp, s) \<Rightarrow>
        if th_state s tp \<noteq> CH_STATE_QUEUED then Some (Inl (DbgAssert ''invalid state''))
        else chSchReadyI tp (s\<lparr>th_u := (th_u s)(tp := U_rdymsg m)\<rparr>))"

definition thdDequeueNextI :: "nat \<Rightarrow> msg \<Rightarrow> threads \<Rightarrow> threads diverge" where
  "thdDequeueNextI q m s = (if queue_notempty q s then chThdDoDequeueNextI q m s else Some (Inr s))"

partial_function (option) thdDequeueAllI :: "nat \<Rightarrow> msg \<Rightarrow> threads \<Rightarrow> threads diverge" where
  "thdDequeueAllI q m s =
     (if queue_notempty q s then bindP (chThdDoDequeueNextI q m s) (\<lambda>s. thdDequeueAllI q m s)
      else Some (Inr s))"

section \<open>Semaphores\<close>

text \<open>A semaphore is named by the address of its queue header.\<close>

definition chSemObjectInit :: "nat \<Rightarrow> int \<Rightarrow> threads \<Rightarrow> threads result" where
  "chSemObjectInit sp n s = dbgCheck ''chSemObjectInit'' (0 \<le> n)
     (Inr ((queue_init sp s)\<lparr>sem_cnt := (sem_cnt s)(sp := n)\<rparr>))"

definition sem_consistent :: "nat \<Rightarrow> threads \<Rightarrow> bool" where
  "sem_consistent sp s = ((0 \<le> sem_cnt s sp \<and> queue_isempty sp s) \<or> (sem_cnt s sp < 0 \<and> queue_notempty sp s))"

definition sem_add :: "nat \<Rightarrow> int \<Rightarrow> threads \<Rightarrow> threads" where
  "sem_add sp d s = s\<lparr>sem_cnt := (sem_cnt s)(sp := sem_cnt s sp + d)\<rparr>"

definition sem_enqueue :: "nat \<Rightarrow> threads \<Rightarrow> threads" where
  "sem_enqueue sp s = queue_insert (current s) sp (s\<lparr>th_u := (th_u s)(current s := U_wtobjp sp)\<rparr>)"

definition chSemWaitS :: "nat \<Rightarrow> kernel \<Rightarrow> kernel result" where
  "chSemWaitS sp s =
     dbgAssert ''inconsistent semaphore'' (sem_consistent sp (thr s))
       (let s = vtimers.more_update (sem_add sp (-1)) s in
        if sem_cnt (thr s) sp < 0
        then chSchGoSleepS CH_STATE_WTSEM Return (vtimers.more_update (sem_enqueue sp) s)
        else Inr (return_now MSG_OK s))"

definition chSemWaitTimeoutS :: "nat \<Rightarrow> sysinterval \<Rightarrow> kernel \<Rightarrow> kernel diverge" where
  "chSemWaitTimeoutS sp timeout s =
     (if \<not> sem_consistent sp (thr s) then Some (Inl (DbgAssert ''inconsistent semaphore'')) else
      let s = vtimers.more_update (sem_add sp (-1)) s in
      if sem_cnt (thr s) sp < 0 then
        if timeout = TIME_IMMEDIATE
        then Some (Inr (return_now MSG_TIMEOUT (vtimers.more_update (sem_add sp 1) s)))
        else chSchGoSleepTimeoutS CH_STATE_WTSEM timeout (vtimers.more_update (sem_enqueue sp) s)
      else Some (Inr (return_now MSG_OK s)))"

definition chSemSignal :: "nat \<Rightarrow> kernel \<Rightarrow> kernel diverge" where
  "chSemSignal sp s =
     (if \<not> sem_consistent sp (thr s) then Some (Inl (DbgAssert ''inconsistent semaphore'')) else
      let s = vtimers.more_update (sem_add sp 1) s in
      if sem_cnt (thr s) sp \<le> 0 then
        case queue_fifo_remove sp (thr s) of (tp, x) \<Rightarrow> chSchWakeupS tp MSG_OK (vtimers.more_update (\<lambda>_. x) s)
      else Some (Inr s))"

definition chSemSignalI :: "nat \<Rightarrow> threads \<Rightarrow> threads diverge" where
  "chSemSignalI sp s =
     (if \<not> sem_consistent sp s then Some (Inl (DbgAssert ''inconsistent semaphore'')) else
      let s = sem_add sp 1 s in
      if sem_cnt s sp \<le> 0 then
        case queue_fifo_remove sp s of (tp, s) \<Rightarrow> chSchReadyI tp (s\<lparr>th_u := (th_u s)(tp := U_rdymsg MSG_OK)\<rparr>)
      else Some (Inr s))"

partial_function (option) sem_reset_loop :: "nat \<Rightarrow> int \<Rightarrow> threads \<Rightarrow> threads diverge" where
  "sem_reset_loop sp cnt s =
     (let cnt = cnt + 1 in
      if cnt \<le> 0 then
        case queue_lifo_remove sp s of (tp, s) \<Rightarrow>
          bindP (chSchReadyI tp s)
            (\<lambda>s. sem_reset_loop sp cnt (s\<lparr>th_u := (th_u s)(tp := U_rdymsg MSG_RESET)\<rparr>))
      else Some (Inr s))"

definition chSemResetI :: "nat \<Rightarrow> int \<Rightarrow> threads \<Rightarrow> threads diverge" where
  "chSemResetI sp n s =
     (if \<not> 0 \<le> n then Some (Inl (DbgCheck ''chSemResetI''))
      else if \<not> sem_consistent sp s then Some (Inl (DbgAssert ''inconsistent semaphore''))
      else sem_reset_loop sp (sem_cnt s sp) (s\<lparr>sem_cnt := (sem_cnt s)(sp := n)\<rparr>))"

end
