(* ===== verification/SchedInv.thy ===== *)
theory SchedInv
  imports Sched
begin

text \<open>
  The invariant of the scheduler. Every thread has a place: running, in one of the queues, behind a
  thread reference, asleep. The state and the union member of a thread agree with its place, every
  queue is a ring that holds exactly the threads with that place, the ready list is sorted
  by priority, and the counter of a semaphore agrees with its queue. Places and queue
  contents are not part of the state: the lemmas say how each operation moves a thread.
\<close>

declare One_nat_def [simp del]

section \<open>Places\<close>

datatype place = Off | Starting | Running | Limbo | Asleep | In nat | Ref nat

text \<open>
  \<open>S\<close> is the set of the queues that belong to semaphores. \<open>Limbo\<close> is the place of a thread
  between two others, inside an operation.
\<close>

fun place_ok :: "nat set \<Rightarrow> place \<Rightarrow> tstate \<Rightarrow> thread_u \<Rightarrow> bool" where
  "place_ok S Off st u = (st = CH_STATE_FINAL)"
| "place_ok S Starting st u = (st = CH_STATE_WTSTART)"
| "place_ok S Running st u = (st = CH_STATE_CURRENT)"
| "place_ok S Limbo st u = (st \<noteq> CH_STATE_READY \<and> st \<noteq> CH_STATE_FINAL)"
| "place_ok S Asleep st u = (st = CH_STATE_SLEEPING)"
| "place_ok S (In h) st u =
     (if h = RLIST then st = CH_STATE_READY
      else if h \<in> S then st = CH_STATE_WTSEM \<and> u = U_wtobjp h else st = CH_STATE_QUEUED)"
| "place_ok S (Ref r) st u = (st = CH_STATE_SUSPENDED \<and> u = U_wttrp r)"

type_synonym queue_map = "nat \<Rightarrow> nat list option"

definition queues :: "(nat \<Rightarrow> nat) \<Rightarrow> (nat \<Rightarrow> nat) \<Rightarrow> queue_map \<Rightarrow> (nat \<Rightarrow> place) \<Rightarrow> bool" where
  "queues nx pv Q pl \<longleftrightarrow>
     (\<forall>h ts. Q h = Some ts \<longrightarrow> ring nx pv h ts \<and> set ts = {t. pl t = In h}) \<and>
     (\<forall>t h. pl t = In h \<longrightarrow> h \<in> dom Q) \<and> (\<forall>h \<in> dom Q. pl h = Off)"

lemma queuesD:
  assumes "queues nx pv Q pl" "Q h = Some ts"
  shows "ring nx pv h ts" "t \<in> set ts \<longleftrightarrow> pl t = In h" "distinct ts"
  using assms by (auto simp: queues_def dest: ring_distinct)

lemma queues_set: "queues nx pv Q pl \<Longrightarrow> Q h = Some ts \<Longrightarrow> set ts = {t. pl t = In h}"
  by (auto simp: queues_def)

lemma queues_header: "queues nx pv Q pl \<Longrightarrow> Q h = Some ts \<Longrightarrow> pl h = Off"
  by (auto simp: queues_def)

text \<open>A thread that is in no queue is linked into one.\<close>

lemma queues_link:
  assumes q: "queues nx pv Q pl" and h: "Q h = Some (xs @ ys)" and t: "\<And>h. pl t \<noteq> In h" "pl t \<noteq> Off"
    and p: "p = hd (ys @ [h])"
  shows "queues (nx(t := p, pv p := t)) (pv(t := pv p, p := t)) (Q(h \<mapsto> xs @ t # ys)) (pl(t := In h))"
proof -
  let ?nx = "nx(t := p, pv p := t)" and ?pv = "pv(t := pv p, p := t)"
  have r: "ring nx pv h (xs @ ys)" using queuesD [OF q h] by simp
  have tq: "t \<notin> dom Q" using q t by (auto simp: queues_def)
  have th: "t \<notin> set (h # xs @ ys)" using queuesD(2) [OF q h, of t] t(1) tq h by auto
  have ph: "p \<in> set (h # xs @ ys)" and pp: "pv p \<in> set (h # xs @ ys)"
  proof -
    show "p \<in> set (h # xs @ ys)" using p by (cases ys) auto
    have "pv p = last (h # xs)"
      using p r ring_prev [of nx pv h xs] ring_mid(2) [of nx pv h xs] by (cases ys) (auto simp del: last.simps)
    moreover have "last (h # xs) \<in> set (h # xs)" by (rule last_in_set) simp
    ultimately show "pv p \<in> set (h # xs @ ys)" by (simp del: last.simps) blast
  qed
  show ?thesis
    unfolding queues_def
  proof (intro conjI allI impI ballI)
    fix h' ts assume h': "(Q(h \<mapsto> xs @ t # ys)) h' = Some ts"
    show "ring ?nx ?pv h' ts"
    proof (cases "h' = h")
      case True
      then show ?thesis using h' ring_insert [OF r th p] by simp
    next
      case False
      then have Q: "Q h' = Some ts" using h' by simp
      have "x \<notin> set (h # xs @ ys) \<and> x \<noteq> t" if "x \<in> set (h' # ts)" for x
        using that queuesD(2) [OF q Q] queuesD(2) [OF q h] queues_header [OF q h] queues_header [OF q Q] False t tq Q
        by auto
      then show ?thesis using ph pp by (intro ring_frame [OF queuesD(1) [OF q Q]]) auto
    qed
    show "set ts = {u. (pl(t := In h)) u = In h'}"
      using h' queues_set [OF q, of h'] queues_set [OF q h] t by (cases "h' = h") auto
  next
    fix u h' assume "(pl(t := In h)) u = In h'"
    then show "h' \<in> dom (Q(h \<mapsto> xs @ t # ys))" using q by (auto simp: queues_def split: if_splits)
  next
    fix h' assume "h' \<in> dom (Q(h \<mapsto> xs @ t # ys))"
    then show "(pl(t := In h)) h' = Off" using q h tq by (auto simp: queues_def)
  qed
qed

text \<open>A thread is taken out of its queue.\<close>

lemma queues_unlink:
  assumes q: "queues nx pv Q pl" and h: "Q h = Some (xs @ t # ys)" and p: "\<And>h. p \<noteq> In h"
  shows "queues (nx(pv t := nx t)) (pv(nx t := pv t)) (Q(h \<mapsto> xs @ ys)) (pl(t := p))"
proof -
  have r: "ring nx pv h (xs @ t # ys)" and d: "distinct (xs @ t # ys)" using queuesD [OF q h] by auto
  have tp: "pl t = In h" using queuesD(2) [OF q h, of t] by simp
  have near: "nx t \<in> set (h # xs @ ys)" "pv t \<in> set (h # xs @ ys)"
    using ring_mid [OF r] by (cases ys; cases xs rule: rev_cases; auto)+
  show ?thesis
    unfolding queues_def
  proof (intro conjI allI impI ballI)
    fix h' ts assume h': "(Q(h \<mapsto> xs @ ys)) h' = Some ts"
    show "ring (nx(pv t := nx t)) (pv(nx t := pv t)) h' ts"
    proof (cases "h' = h")
      case True
      then show ?thesis using h' ring_remove [OF r] by simp
    next
      case False
      then have Q: "Q h' = Some ts" using h' by simp
      have "x \<notin> set (h # xs @ ys)" if "x \<in> set (h' # ts)" for x
        using that queuesD(2) [OF q Q, of x] queuesD(2) [OF q h, of x] queuesD(2) [OF q h, of h']
          queues_header [OF q h] queues_header [OF q Q] False by auto
      then show ?thesis using near by (intro ring_frame [OF queuesD(1) [OF q Q]]) auto
    qed
    show "set ts = {u. (pl(t := p)) u = In h'}"
      using h' queues_set [OF q, of h'] queues_set [OF q h] d p tp by (cases "h' = h") auto
  next
    fix u h' assume "(pl(t := p)) u = In h'"
    then show "h' \<in> dom (Q(h \<mapsto> xs @ ys))" using q p by (auto simp: queues_def split: if_splits)
  next
    fix h' assume "h' \<in> dom (Q(h \<mapsto> xs @ ys))"
    then have "h' \<in> dom Q" using h by auto
    then have "pl h' = Off" using q by (auto simp only: queues_def)
    then show "(pl(t := p)) h' = Off" using tp by auto
  qed
qed

text \<open>Moves that do not touch a queue.\<close>

lemma queues_move:
  "queues nx pv Q pl \<Longrightarrow> (\<And>h. pl t \<noteq> In h) \<Longrightarrow> pl t \<noteq> Off \<Longrightarrow> (\<And>h. p \<noteq> In h) \<Longrightarrow> queues nx pv Q (pl(t := p))"
  unfolding queues_def by (auto split: if_splits)

section \<open>The invariant\<close>

definition sched_core :: "queue_map \<Rightarrow> (nat \<Rightarrow> place) \<Rightarrow> nat set \<Rightarrow> threads \<Rightarrow> bool" where
  "sched_core Q pl S x \<longleftrightarrow>
     queues (q_next x) (q_prev x) Q pl \<and>
     (\<forall>t. place_ok S (pl t) (th_state x t) (th_u x t)) \<and>
     RLIST \<in> dom Q \<and> RLIST \<notin> S \<and> S \<subseteq> dom Q \<and>
     prio x RLIST = NOPRIO \<and> (\<forall>t. pl t \<noteq> Off \<longrightarrow> 0 < prio x t) \<and>
     (\<forall>ts. Q RLIST = Some ts \<longrightarrow> sorted_wrt (\<lambda>a b. prio x b \<le> prio x a) ts) \<and>
     (\<forall>r t. thread_ref x r = Some t \<longleftrightarrow> pl t = Ref r)"

definition sems_ok :: "queue_map \<Rightarrow> nat set \<Rightarrow> (nat \<Rightarrow> int) \<Rightarrow> bool" where
  "sems_ok Q S cnt \<longleftrightarrow> (\<forall>h \<in> S. \<forall>ts. Q h = Some ts \<longrightarrow>
     (if ts = [] then 0 \<le> cnt h else cnt h = - int (length ts)))"

definition sched_inv :: "queue_map \<Rightarrow> (nat \<Rightarrow> place) \<Rightarrow> nat set \<Rightarrow> threads \<Rightarrow> bool" where
  "sched_inv Q pl S x \<longleftrightarrow> sched_core Q pl S x \<and> sems_ok Q S (sem_cnt x) \<and> (\<forall>t. pl t = Running \<longleftrightarrow> t = current x) \<and> (\<forall>t. pl t \<noteq> Limbo)"

lemma sched_coreD:
  assumes "sched_core Q pl S x"
  shows "queues (q_next x) (q_prev x) Q pl" "place_ok S (pl t) (th_state x t) (th_u x t)"
    "prio x RLIST = NOPRIO" "pl t \<noteq> Off \<Longrightarrow> 0 < prio x t"
    "Q RLIST = Some ts \<Longrightarrow> sorted_wrt (\<lambda>a b. prio x b \<le> prio x a) ts"
    "thread_ref x r = Some t \<longleftrightarrow> pl t = Ref r"
  using assms by (auto simp: sched_core_def)

text \<open>The state of a thread tells its place.\<close>

lemma place_of_state:
  assumes "sched_core Q pl S x"
  shows "th_state x t = CH_STATE_READY \<longleftrightarrow> pl t = In RLIST"
    "th_state x t = CH_STATE_FINAL \<longleftrightarrow> pl t = Off"
  using sched_coreD(2) [OF assms, of t] by (cases "pl t"; auto split: if_splits)+

lemma queue_link_sel [simp]:
  "prio (queue_link t p x) = prio x" "th_state (queue_link t p x) = th_state x" "th_u (queue_link t p x) = th_u x"
  "current (queue_link t p x) = current x" "thread_ref (queue_link t p x) = thread_ref x"
  "sem_cnt (queue_link t p x) = sem_cnt x" "cont (queue_link t p x) = cont x"
  "returned (queue_link t p x) = returned x"
  by (simp_all add: queue_link_def Let_def)

lemma queue_link_links:
  "p \<noteq> t \<Longrightarrow> q_next (queue_link t p x) = (q_next x)(t := p, q_prev x p := t)"
  "p \<noteq> t \<Longrightarrow> q_prev (queue_link t p x) = (q_prev x)(t := q_prev x p, p := t)"
  by (simp_all add: queue_link_def Let_def)

text \<open>Linking into a queue, at the level of the invariant of the queues.\<close>

lemma queue_link_queues:
  assumes q: "queues (q_next x) (q_prev x) Q pl" and h: "Q h = Some (xs @ ys)" and t: "\<And>h. pl t \<noteq> In h" "pl t \<noteq> Off"
    and p: "p = hd (ys @ [h])"
  shows "queues (q_next (queue_link t p x)) (q_prev (queue_link t p x)) (Q(h \<mapsto> xs @ t # ys)) (pl(t := In h))"
proof -
  have "p \<noteq> t" using queuesD(2) [OF q h, of t] queues_header [OF q h] t p by (cases ys) auto
  then show ?thesis using queues_link [OF q h t p] by (simp add: queue_link_links)
qed

section \<open>Making a thread ready\<close>

lemma ready_scan_finds:
  assumes "links (q_next x) (q_prev x) a ts RLIST" "prio x RLIST < prio x t"
  shows "ready_scan x t a = Some (hd (dropWhile (\<lambda>u. prio x t \<le> prio x u) ts @ [RLIST]))"
  using assms
proof (induction ts arbitrary: a)
  case Nil
  then show ?case by (simp add: ready_scan.simps [of x t a])
next
  case (Cons u us)
  then show ?case by (simp add: ready_scan.simps [of x t a])
qed

lemma ready_scan_ahead_finds:
  assumes "links (q_next x) (q_prev x) a ts RLIST" "prio x RLIST < prio x t"
  shows "ready_scan_ahead x t a = Some (hd (dropWhile (\<lambda>u. prio x t < prio x u) ts @ [RLIST]))"
  using assms
proof (induction ts arbitrary: a)
  case Nil
  then show ?case by (simp add: ready_scan_ahead.simps [of x t a])
next
  case (Cons u us)
  then show ?case by (simp add: ready_scan_ahead.simps [of x t a])
qed

text \<open>
  The reference definitions: a list sorted by falling priority, a thread is inserted behind its peers or
  ahead of them.
\<close>

definition behind :: "(nat \<Rightarrow> nat) \<Rightarrow> nat \<Rightarrow> nat list \<Rightarrow> nat list" where
  "behind pr t ts = takeWhile (\<lambda>u. pr t \<le> pr u) ts @ t # dropWhile (\<lambda>u. pr t \<le> pr u) ts"

definition ahead :: "(nat \<Rightarrow> nat) \<Rightarrow> nat \<Rightarrow> nat list \<Rightarrow> nat list" where
  "ahead pr t ts = takeWhile (\<lambda>u. pr t < pr u) ts @ t # dropWhile (\<lambda>u. pr t < pr u) ts"

lemma sorted_wrt_split:
  assumes "sorted_wrt (\<lambda>a b. pr b \<le> pr a) ts" "\<And>u. P u \<Longrightarrow> pr t \<le> pr u" "\<And>u. \<not> P u \<Longrightarrow> pr u \<le> pr (t :: nat) "
    "\<And>u v. P v \<Longrightarrow> (pr v :: nat) \<le> pr u \<Longrightarrow> P u"
  shows "sorted_wrt (\<lambda>a b. pr b \<le> pr a) (takeWhile P ts @ t # dropWhile P ts)"
  using assms(1)
proof (induction ts)
  case (Cons u us)
  show ?case
  proof (cases "P u")
    case True
    have "set (takeWhile P us @ t # dropWhile P us) = insert t (set us)"
      by (metis Un_insert_right list.simps(15) set_append takeWhile_dropWhile_id)
    then show ?thesis using True Cons assms(2) by auto
  next
    case False
    then have "\<forall>v \<in> set us. pr v \<le> pr t" using Cons.prems assms(3) order_trans by fastforce
    then show ?thesis using False Cons.prems assms(3) by auto
  qed
qed simp

lemma behind_sorted: "sorted_wrt (\<lambda>a b. pr b \<le> pr a) ts \<Longrightarrow> sorted_wrt (\<lambda>a b. pr b \<le> pr a) (behind pr t ts)"
  unfolding behind_def by (rule sorted_wrt_split) auto

lemma ahead_sorted: "sorted_wrt (\<lambda>a b. pr b \<le> pr a) ts \<Longrightarrow> sorted_wrt (\<lambda>a b. pr b \<le> pr a) (ahead pr t ts)"
  unfolding ahead_def by (rule sorted_wrt_split) auto

definition ready_state :: "nat \<Rightarrow> nat \<Rightarrow> threads \<Rightarrow> threads" where
  "ready_state tp p x = queue_link tp p (x\<lparr>th_state := (th_state x)(tp := CH_STATE_READY)\<rparr>)"

lemma ready_core:
  assumes core: "sched_core Q pl S x" and t: "pl t \<in> {Limbo, Running, Asleep}" and Q: "Q RLIST = Some (xs @ ys)"
    and s: "sorted_wrt (\<lambda>a b. prio x b \<le> prio x a) (xs @ t # ys)" and p: "p = hd (ys @ [RLIST])"
  shows "sched_core (Q(RLIST \<mapsto> xs @ t # ys)) (pl(t := In RLIST)) S (ready_state t p x)"
proof -
  let ?x = "x\<lparr>th_state := (th_state x)(t := CH_STATE_READY)\<rparr>"
  have q: "queues (q_next ?x) (q_prev ?x) Q pl" using core by (simp add: sched_core_def)
  have "queues (q_next (queue_link t p ?x)) (q_prev (queue_link t p ?x)) (Q(RLIST \<mapsto> xs @ t # ys)) (pl(t := In RLIST))"
    by (rule queue_link_queues [OF q Q _ _ p]) (use t in auto)
  moreover have "\<forall>u. place_ok S ((pl(t := In RLIST)) u) (th_state (ready_state t p x) u) (th_u (ready_state t p x) u)"
    using core by (auto simp: sched_core_def ready_state_def)
  ultimately show ?thesis
    using core t s by (auto simp: sched_core_def ready_state_def)
qed

lemma chSchReadyI_core:
  assumes core: "sched_core Q pl S x" and t: "pl t \<in> {Limbo, Running, Asleep}" and Q: "Q RLIST = Some ts"
  shows "\<exists>p. chSchReadyI t x = Some (Inr (ready_state t p x)) \<and>
    sched_core (Q(RLIST \<mapsto> behind (prio x) t ts)) (pl(t := In RLIST)) S (ready_state t p x)"
proof -
  let ?d = "dropWhile (\<lambda>u. prio x t \<le> prio x u) ts"
  have st: "th_state x t \<noteq> CH_STATE_READY" "th_state x t \<noteq> CH_STATE_FINAL"
    using place_of_state [OF core, of t] t by auto
  have "0 < prio x t" using sched_coreD(4) [OF core, of t] t by auto
  moreover have "links (q_next x) (q_prev x) RLIST ts RLIST"
    using queuesD(1) [OF sched_coreD(1) [OF core] Q] by (simp add: ring_def)
  ultimately have "ready_scan (x\<lparr>th_state := (th_state x)(t := CH_STATE_READY)\<rparr>) t RLIST = Some (hd (?d @ [RLIST]))"
    using ready_scan_finds [of "x\<lparr>th_state := (th_state x)(t := CH_STATE_READY)\<rparr>" RLIST ts t] sched_coreD(3) [OF core]
    by (simp add: NOPRIO_def)
  then have "chSchReadyI t x = Some (Inr (ready_state t (hd (?d @ [RLIST])) x))"
    using st by (simp add: chSchReadyI_def ready_with_def ready_state_def Let_def)
  moreover have "Q RLIST = Some (takeWhile (\<lambda>u. prio x t \<le> prio x u) ts @ ?d)" using Q by simp
  then have "sched_core (Q(RLIST \<mapsto> behind (prio x) t ts)) (pl(t := In RLIST)) S (ready_state t (hd (?d @ [RLIST])) x)"
    unfolding behind_def
    by (rule ready_core [OF core t])
      (use behind_sorted [OF sched_coreD(5) [OF core Q], of t] in \<open>simp_all add: behind_def\<close>)
  ultimately show ?thesis by blast
qed

lemma chSchReadyAheadI_core:
  assumes core: "sched_core Q pl S x" and t: "pl t \<in> {Limbo, Running, Asleep}" and Q: "Q RLIST = Some ts"
  shows "\<exists>p. chSchReadyAheadI t x = Some (Inr (ready_state t p x)) \<and>
    sched_core (Q(RLIST \<mapsto> ahead (prio x) t ts)) (pl(t := In RLIST)) S (ready_state t p x)"
proof -
  let ?d = "dropWhile (\<lambda>u. prio x t < prio x u) ts"
  have st: "th_state x t \<noteq> CH_STATE_READY" "th_state x t \<noteq> CH_STATE_FINAL"
    using place_of_state [OF core, of t] t by auto
  have "0 < prio x t" using sched_coreD(4) [OF core, of t] t by auto
  moreover have "links (q_next x) (q_prev x) RLIST ts RLIST"
    using queuesD(1) [OF sched_coreD(1) [OF core] Q] by (simp add: ring_def)
  ultimately have "ready_scan_ahead (x\<lparr>th_state := (th_state x)(t := CH_STATE_READY)\<rparr>) t RLIST = Some (hd (?d @ [RLIST]))"
    using ready_scan_ahead_finds [of "x\<lparr>th_state := (th_state x)(t := CH_STATE_READY)\<rparr>" RLIST ts t] sched_coreD(3) [OF core]
    by (simp add: NOPRIO_def)
  then have "chSchReadyAheadI t x = Some (Inr (ready_state t (hd (?d @ [RLIST])) x))"
    using st by (simp add: chSchReadyAheadI_def ready_with_def ready_state_def Let_def)
  moreover have "Q RLIST = Some (takeWhile (\<lambda>u. prio x t < prio x u) ts @ ?d)" using Q by simp
  then have "sched_core (Q(RLIST \<mapsto> ahead (prio x) t ts)) (pl(t := In RLIST)) S (ready_state t (hd (?d @ [RLIST])) x)"
    unfolding ahead_def
    by (rule ready_core [OF core t])
      (use ahead_sorted [OF sched_coreD(5) [OF core Q], of t] in \<open>simp_all add: ahead_def\<close>)
  ultimately show ?thesis by blast
qed

end
