(* ===== verification/SchedMoves.thy ===== *)
theory SchedMoves
  imports SchedInv
begin

text \<open>
  How the operations of the scheduler move threads between places: out of a queue, out of a thread
  reference, to the ready list, and the choice of the next running thread.
\<close>

declare One_nat_def [simp del]

section \<open>Out of a queue\<close>

lemma queue_dequeue_sel [simp]:
  "prio (queue_dequeue t x) = prio x" "th_state (queue_dequeue t x) = th_state x"
  "th_u (queue_dequeue t x) = th_u x" "current (queue_dequeue t x) = current x"
  "thread_ref (queue_dequeue t x) = thread_ref x" "sem_cnt (queue_dequeue t x) = sem_cnt x"
  "cont (queue_dequeue t x) = cont x" "returned (queue_dequeue t x) = returned x"
  "q_next (queue_dequeue t x) = (q_next x)(q_prev x t := q_next x t)"
  "q_prev (queue_dequeue t x) = (q_prev x)(q_next x t := q_prev x t)"
  by (simp_all add: queue_dequeue_def Let_def)

text \<open>The removals at the two ends are the removal of the first or the last thread.\<close>

lemma threads_eqI:
  "q_next x = q_next y \<Longrightarrow> q_prev x = q_prev y \<Longrightarrow> prio x = prio y \<Longrightarrow> th_state x = th_state y \<Longrightarrow>
   th_u x = th_u y \<Longrightarrow> current x = current y \<Longrightarrow> thread_ref x = thread_ref y \<Longrightarrow> sem_cnt x = sem_cnt y \<Longrightarrow>
   cont x = cont y \<Longrightarrow> returned x = returned y \<Longrightarrow> (x :: threads) = y"
  by (cases x, cases y) simp

lemma queue_fifo_remove_eq:
  assumes "ring (q_next x) (q_prev x) h (t # ts)"
  shows "queue_fifo_remove h x = (t, queue_dequeue t x)"
proof -
  have "q_next x h = t" "q_prev x t = h" using assms by (auto simp: ring_def)
  then show ?thesis by (auto simp: queue_fifo_remove_def Let_def intro!: threads_eqI)
qed

lemma queue_lifo_remove_eq:
  assumes "ring (q_next x) (q_prev x) h (ts @ [t])"
  shows "queue_lifo_remove h x = (t, queue_dequeue t x)"
proof -
  have "q_prev x h = t" "q_next x t = h" using assms by (auto simp: ring_def links_append)
  then show ?thesis by (auto simp: queue_lifo_remove_def Let_def intro!: threads_eqI)
qed

lemma queue_dequeue_core:
  assumes core: "sched_core Q pl S x" and Q: "Q h = Some (xs @ t # ys)" and h: "h \<noteq> RLIST"
  shows "sched_core (Q(h \<mapsto> xs @ ys)) (pl(t := Limbo)) S (queue_dequeue t x)"
proof -
  have q: "queues (q_next x) (q_prev x) Q pl" using core by (simp add: sched_core_def)
  have t: "pl t = In h" using queuesD(2) [OF q Q, of t] by simp
  have "queues (q_next (queue_dequeue t x)) (q_prev (queue_dequeue t x)) (Q(h \<mapsto> xs @ ys)) (pl(t := Limbo))"
    using queues_unlink [OF q Q, of Limbo] by simp
  moreover have "place_ok S Limbo (th_state x t) (th_u x t)"
    using sched_coreD(2) [OF core, of t] t h by (auto split: if_splits)
  ultimately show ?thesis using core h t by (auto simp: sched_core_def)
qed

text \<open>The head of the ready list runs.\<close>

lemma next_current_core:
  assumes core: "sched_core Q pl S x" and Q: "Q RLIST = Some (t # ts)"
  shows "sched_core (Q(RLIST \<mapsto> ts)) (pl(t := Running)) S (next_current x)" "current (next_current x) = t"
    "prio (next_current x) = prio x" "th_u (next_current x) = th_u x" "cont (next_current x) = cont x"
    "sem_cnt (next_current x) = sem_cnt x" "returned (next_current x) = returned x" "thread_ref (next_current x) = thread_ref x"
proof -
  have q: "queues (q_next x) (q_prev x) Q pl" using core by (simp add: sched_core_def)
  have t: "pl t = In RLIST" using queuesD(2) [OF q Q, of t] by simp
  have nc: "next_current x = (queue_dequeue t x)\<lparr>current := t, th_state := (th_state x)(t := CH_STATE_CURRENT)\<rparr>"
    using queue_fifo_remove_eq [OF queuesD(1) [OF q Q]] by (simp add: next_current_def)
  have "queues (q_next (queue_dequeue t x)) (q_prev (queue_dequeue t x)) (Q(RLIST \<mapsto> ts)) (pl(t := Running))"
    using queues_unlink [OF q, of RLIST "[]" t ts Running] Q by simp
  then show "sched_core (Q(RLIST \<mapsto> ts)) (pl(t := Running)) S (next_current x)"
    using core Q t by (auto simp: sched_core_def nc)
  show "current (next_current x) = t"
    "prio (next_current x) = prio x" "th_u (next_current x) = th_u x" "cont (next_current x) = cont x"
    "sem_cnt (next_current x) = sem_cnt x" "returned (next_current x) = returned x" "thread_ref (next_current x) = thread_ref x"
    by (simp_all add: nc)
qed

section \<open>Releasing a waiting thread\<close>

lemma core_set_u:
  assumes "sched_core Q pl S x" "pl t \<in> {Limbo, Running, Asleep} \<or> pl t = In RLIST"
  shows "sched_core Q pl S (x\<lparr>th_u := (th_u x)(t := v)\<rparr>)"
proof -
  have "place_ok S (pl t) (th_state x t) v"
    using assms(2) sched_coreD(2) [OF assms(1), of t] by auto
  then have "\<forall>u. place_ok S (pl u) (th_state x u) (((th_u x)(t := v)) u)"
    using sched_coreD(2) [OF assms(1)] by simp
  then show ?thesis using assms(1) by (simp add: sched_core_def)
qed

lemma core_move:
  assumes core: "sched_core Q pl S x" and q: "queues (q_next x') (q_prev x') Q' (pl(t := p))"
    and ok: "place_ok S p (th_state x' t) (th_u x' t)"
    and others: "\<And>u. u \<noteq> t \<Longrightarrow> th_state x' u = th_state x u \<and> th_u x' u = th_u x u"
    and fixed: "prio x' = prio x" "pl t \<noteq> Off" "p \<noteq> Off" "dom Q' = dom Q"
    and sorted: "\<And>ts. Q' RLIST = Some ts \<Longrightarrow> sorted_wrt (\<lambda>a b. prio x b \<le> prio x a) ts"
    and refs: "\<And>r u. thread_ref x' r = Some u \<longleftrightarrow> (pl(t := p)) u = Ref r"
  shows "sched_core Q' (pl(t := p)) S x'"
proof -
  have "\<forall>u. place_ok S ((pl(t := p)) u) (th_state x' u) (th_u x' u)"
    using ok others sched_coreD(2) [OF core] by simp
  moreover have "\<forall>u. (pl(t := p)) u \<noteq> Off \<longrightarrow> 0 < prio x' u"
    using sched_coreD(4) [OF core] fixed by simp
  ultimately show ?thesis
    unfolding sched_core_def using core q fixed sorted refs by (simp add: sched_core_def)
qed

lemma core_clear_ref:
  assumes core: "sched_core Q pl S x" and t: "pl t = Ref r"
  shows "sched_core Q (pl(t := Limbo)) S (x\<lparr>thread_ref := (thread_ref x)(r := None)\<rparr>)"
proof (rule core_move [OF core])
  show "queues (q_next (x\<lparr>thread_ref := (thread_ref x)(r := None)\<rparr>))
      (q_prev (x\<lparr>thread_ref := (thread_ref x)(r := None)\<rparr>)) Q (pl(t := Limbo))"
    using sched_coreD(1) [OF core] t by (auto intro: queues_move)
  show "place_ok S Limbo (th_state (x\<lparr>thread_ref := (thread_ref x)(r := None)\<rparr>) t)
      (th_u (x\<lparr>thread_ref := (thread_ref x)(r := None)\<rparr>) t)"
    using sched_coreD(2) [OF core, of t] t by simp
  show "thread_ref (x\<lparr>thread_ref := (thread_ref x)(r := None)\<rparr>) r' = Some u \<longleftrightarrow> (pl(t := Limbo)) u = Ref r'" for r' u
    using sched_coreD(6) [OF core, of r' u] sched_coreD(6) [OF core, of r t] t by auto
qed (use t sched_coreD(5) [OF core] in auto)

lemma core_sem_cnt [simp]: "sched_core Q pl S (x\<lparr>sem_cnt := c\<rparr>) = sched_core Q pl S x"
  by (simp add: sched_core_def)

lemma ready_state_sel [simp]:
  "prio (ready_state t p x) = prio x" "th_u (ready_state t p x) = th_u x" "current (ready_state t p x) = current x"
  "thread_ref (ready_state t p x) = thread_ref x" "sem_cnt (ready_state t p x) = sem_cnt x"
  "cont (ready_state t p x) = cont x" "returned (ready_state t p x) = returned x"
  by (simp_all add: ready_state_def)

text \<open>
  A thread in limbo or asleep gets its message and becomes ready, behind its peers.
\<close>

lemma release_core:
  assumes core: "sched_core Q pl S x" and t: "pl t \<in> {Limbo, Asleep}" and Q: "Q RLIST = Some ts"
  shows "\<exists>x'. chSchReadyI t (x\<lparr>th_u := (th_u x)(t := U_rdymsg m)\<rparr>) = Some (Inr x') \<and>
    sched_core (Q(RLIST \<mapsto> behind (prio x) t ts)) (pl(t := In RLIST)) S x' \<and>
    th_u x' = (th_u x)(t := U_rdymsg m) \<and> prio x' = prio x \<and> current x' = current x \<and> cont x' = cont x \<and>
    returned x' = returned x \<and> sem_cnt x' = sem_cnt x"
proof -
  have "sched_core Q pl S (x\<lparr>th_u := (th_u x)(t := U_rdymsg m)\<rparr>)"
    using core_set_u [OF core] t by auto
  then obtain p where "chSchReadyI t (x\<lparr>th_u := (th_u x)(t := U_rdymsg m)\<rparr>) =
      Some (Inr (ready_state t p (x\<lparr>th_u := (th_u x)(t := U_rdymsg m)\<rparr>)))"
    "sched_core (Q(RLIST \<mapsto> behind (prio x) t ts)) (pl(t := In RLIST)) S
      (ready_state t p (x\<lparr>th_u := (th_u x)(t := U_rdymsg m)\<rparr>))"
    using chSchReadyI_core [of Q pl S "x\<lparr>th_u := (th_u x)(t := U_rdymsg m)\<rparr>" t ts] Q t by auto
  then show ?thesis by simp
qed

text \<open>What a release leaves alone.\<close>

definition same_run :: "threads \<Rightarrow> threads \<Rightarrow> bool" where
  "same_run x x' \<longleftrightarrow> prio x' = prio x \<and> current x' = current x \<and> cont x' = cont x \<and> returned x' = returned x"

lemma same_run_refl [simp]: "same_run x x"
  by (simp add: same_run_def)

text \<open>The queues after a thread left the place it waits at.\<close>

definition leave :: "nat \<Rightarrow> place \<Rightarrow> queue_map \<Rightarrow> queue_map" where
  "leave t p Q = (case p of In h \<Rightarrow> Q(h \<mapsto> remove1 t (the (Q h))) | _ \<Rightarrow> Q)"

definition released :: "(nat \<Rightarrow> nat) \<Rightarrow> nat \<Rightarrow> place \<Rightarrow> queue_map \<Rightarrow> queue_map" where
  "released pr t p Q = (leave t p Q)(RLIST \<mapsto> behind pr t (the (leave t p Q RLIST)))"

lemma inv_release:
  assumes inv: "sched_inv Q pl S x" and core: "sched_core Q' (pl(t := Limbo)) S y" and Q': "Q' RLIST = Some ts"
    and sems: "sems_ok Q' S (sem_cnt y)" and t: "pl t \<noteq> Running"
    and y: "same_run x y" "th_u y = th_u x"
  shows "\<exists>x'. chSchReadyI t (y\<lparr>th_u := (th_u y)(t := U_rdymsg m)\<rparr>) = Some (Inr x') \<and>
    sched_inv (Q'(RLIST \<mapsto> behind (prio x) t ts)) (pl(t := In RLIST)) S x' \<and>
    th_u x' = (th_u x)(t := U_rdymsg m) \<and> same_run x x'"
proof -
  obtain x' where x': "chSchReadyI t (y\<lparr>th_u := (th_u y)(t := U_rdymsg m)\<rparr>) = Some (Inr x')"
    "sched_core (Q'(RLIST \<mapsto> behind (prio y) t ts)) (pl(t := In RLIST)) S x'"
    "th_u x' = (th_u y)(t := U_rdymsg m)" "prio x' = prio y" "current x' = current y" "cont x' = cont y"
    "returned x' = returned y" "sem_cnt x' = sem_cnt y"
  proof -
    have "(pl(t := Limbo)) t \<in> {Limbo, Asleep}" by simp
    from release_core [OF core this Q', of m, unfolded fun_upd_upd] that show ?thesis by blast
  qed
  have "RLIST \<notin> S" using core by (simp add: sched_core_def)
  then have "sems_ok (Q'(RLIST \<mapsto> behind (prio y) t ts)) S (sem_cnt x')"
    using sems x'(8) by (auto simp: sems_ok_def)
  moreover have "\<forall>u. (pl(t := In RLIST)) u = Running \<longleftrightarrow> u = current x" "\<forall>u. (pl(t := In RLIST)) u \<noteq> Limbo"
    using inv t by (auto simp: sched_inv_def)
  ultimately show ?thesis using x' y by (simp add: sched_inv_def same_run_def)
qed

lemma sems_ok_leave:
  assumes "sems_ok Q S c" "Q h = Some ts" "ts \<noteq> []" "length us = length ts - 1"
  shows "sems_ok (Q(h \<mapsto> us)) S (if h \<in> S then c(h := c h + 1) else c)"
  using assms by (cases ts) (auto simp: sems_ok_def)

lemma remove1_split: "distinct (xs @ t # ys) \<Longrightarrow> remove1 t (xs @ t # ys) = xs @ ys"
  by (simp add: remove1_append)

text \<open>Release from a queue: the semaphore of the queue, if it is one, counts the thread out.\<close>

definition sem_release :: "nat set \<Rightarrow> nat \<Rightarrow> (nat \<Rightarrow> int) \<Rightarrow> (nat \<Rightarrow> int)" where
  "sem_release S h c = (if h \<in> S then c(h := c h + 1) else c)"

lemma release_queue:
  assumes inv: "sched_inv Q pl S x" and Q: "Q h = Some (xs @ t # ys)" and h: "h \<noteq> RLIST"
  shows "\<exists>x'. (let y = queue_dequeue t (x\<lparr>sem_cnt := sem_release S h (sem_cnt x)\<rparr>)
      in chSchReadyI t (y\<lparr>th_u := (th_u y)(t := U_rdymsg m)\<rparr>)) = Some (Inr x') \<and>
    sched_inv (released (prio x) t (In h) Q) (pl(t := In RLIST)) S x' \<and>
    th_u x' = (th_u x)(t := U_rdymsg m) \<and> same_run x x'"
proof -
  let ?y = "queue_dequeue t (x\<lparr>sem_cnt := sem_release S h (sem_cnt x)\<rparr>)"
  have core: "sched_core Q pl S x" and sems: "sems_ok Q S (sem_cnt x)"
    using inv by (auto simp: sched_inv_def)
  have q: "queues (q_next x) (q_prev x) Q pl" using core by (simp add: sched_core_def)
  obtain ts where ts: "Q RLIST = Some ts" using core by (auto simp: sched_core_def)
  have t: "pl t = In h" and d: "distinct (xs @ t # ys)" using queuesD [OF q Q] by auto
  have core': "sched_core (Q(h \<mapsto> xs @ ys)) (pl(t := Limbo)) S ?y"
    using core Q h by (intro queue_dequeue_core) auto
  have sems': "sems_ok (Q(h \<mapsto> xs @ ys)) S (sem_cnt ?y)"
    using sems_ok_leave [OF sems Q, of "xs @ ys"] by (simp add: sem_release_def)
  have rel: "released (prio x) t (In h) Q = Q(h \<mapsto> xs @ ys, RLIST \<mapsto> behind (prio x) t ts)"
    using Q d remove1_split [of xs t ys] ts h by (simp add: released_def leave_def)
  show ?thesis
    using inv_release [OF inv core' _ sems', of ts m] ts h t rel by (simp add: Let_def same_run_def)
qed

lemma release_ref:
  assumes inv: "sched_inv Q pl S x" and t: "pl t = Ref r"
  shows "\<exists>x'. chSchReadyI t (x\<lparr>thread_ref := (thread_ref x)(r := None), th_u := (th_u x)(t := U_rdymsg m)\<rparr>) =
      Some (Inr x') \<and> sched_inv (released (prio x) t (Ref r) Q) (pl(t := In RLIST)) S x' \<and>
    th_u x' = (th_u x)(t := U_rdymsg m) \<and> same_run x x'"
proof -
  have core: "sched_core Q pl S x" and sems: "sems_ok Q S (sem_cnt x)"
    using inv by (auto simp: sched_inv_def)
  obtain ts where ts: "Q RLIST = Some ts" using core by (auto simp: sched_core_def)
  then have rel: "released (prio x) t (Ref r) Q = Q(RLIST \<mapsto> behind (prio x) t ts)"
    by (simp add: released_def leave_def)
  show ?thesis
    using inv_release [OF inv core_clear_ref [OF core t] ts, of m] sems t rel by (simp add: same_run_def)
qed

lemma release_sleeper:
  assumes inv: "sched_inv Q pl S x" and t: "pl t = Asleep"
  shows "\<exists>x'. chSchReadyI t (x\<lparr>th_u := (th_u x)(t := U_rdymsg m)\<rparr>) = Some (Inr x') \<and>
    sched_inv (released (prio x) t Asleep Q) (pl(t := In RLIST)) S x' \<and>
    th_u x' = (th_u x)(t := U_rdymsg m) \<and> same_run x x'"
proof -
  have core: "sched_core Q pl S x" and sems: "sems_ok Q S (sem_cnt x)"
    using inv by (auto simp: sched_inv_def)
  have q: "queues (q_next x) (q_prev x) Q pl" using core by (simp add: sched_core_def)
  obtain ts where ts: "Q RLIST = Some ts" using core by (auto simp: sched_core_def)
  then have rel: "released (prio x) t Asleep Q = Q(RLIST \<mapsto> behind (prio x) t ts)"
    by (simp add: released_def leave_def)
  have "queues (q_next x) (q_prev x) Q (pl(t := Limbo))" using q t by (intro queues_move) auto
  then have core': "sched_core Q (pl(t := Limbo)) S x"
    by (intro core_move [OF core]) (use sched_coreD(2) [OF core, of t] sched_coreD(5,6) [OF core] t in auto)
  show ?thesis
    using inv_release [OF inv core' ts, of m] sems t rel by simp
qed

text \<open>The timeout of a waiting thread: it leaves the place it waits at and becomes ready.\<close>

lemma wakeup_timeout_ok:
  assumes inv: "sched_inv Q pl S x" and t: "pl t \<notin> {Off, Running, Starting}"
  shows "\<exists>x'. wakeup t x = Some (Inr x') \<and> same_run x x' \<and>
    (if pl t = In RLIST then x' = x
     else sched_inv (released (prio x) t (pl t) Q) (pl(t := In RLIST)) S x' \<and>
       th_u x' = (th_u x)(t := U_rdymsg MSG_TIMEOUT))"
proof -
  have core: "sched_core Q pl S x" and nl: "pl t \<noteq> Limbo" using inv by (auto simp: sched_inv_def)
  have q: "queues (q_next x) (q_prev x) Q pl" using core by (simp add: sched_core_def)
  have ok: "place_ok S (pl t) (th_state x t) (th_u x t)" by (rule sched_coreD(2) [OF core])
  show ?thesis
  proof (cases "pl t")
    case (In h)
    show ?thesis
    proof (cases "h = RLIST")
      case True
      then show ?thesis using In ok by (simp add: wakeup_def)
    next
      case False
      obtain us where us: "Q h = Some us" using q In by (force simp: queues_def)
      then obtain xs ys where s: "us = xs @ t # ys" using queuesD(2) [OF q us, of t] In by (meson split_list)
      let ?y = "queue_dequeue t (x\<lparr>sem_cnt := sem_release S h (sem_cnt x)\<rparr>)"
      have "wakeup t x = chSchReadyI t (?y\<lparr>th_u := (th_u ?y)(t := U_rdymsg MSG_TIMEOUT)\<rparr>)"
        using ok In False by (auto simp: wakeup_def sem_release_def split: if_splits)
      then show ?thesis
        using release_queue [OF inv us [unfolded s] False, of MSG_TIMEOUT] In False by (auto simp: Let_def)
    qed
  next
    case (Ref r)
    then have "wakeup t x = chSchReadyI t
        (x\<lparr>thread_ref := (thread_ref x)(r := None), th_u := (th_u x)(t := U_rdymsg MSG_TIMEOUT)\<rparr>)"
      using ok by (simp add: wakeup_def)
    then show ?thesis using release_ref [OF inv Ref, of MSG_TIMEOUT] Ref by auto
  next
    case Asleep
    then have "wakeup t x = chSchReadyI t (x\<lparr>th_u := (th_u x)(t := U_rdymsg MSG_TIMEOUT)\<rparr>)"
      using ok by (simp add: wakeup_def)
    then show ?thesis using release_sleeper [OF inv Asleep, of MSG_TIMEOUT] Asleep by auto
  qed (use t nl in auto)
qed

end
