(* ===== verification/VTimersSet.thy ===== *)
theory VTimersSet
  imports VTimers
begin

text \<open>
  What the delta list of the virtual timers stands for, and that setting a timer keeps it. The
  abstract state is a list of armed timers with their deadlines in unbounded time; the deltas, the
  base time and the counter are its 32 bit encoding, and the alarm is programmed so that it comes in
  time for the first deadline.
\<close>

declare One_nat_def [simp del]

section \<open>Abstraction\<close>

type_synonym deadline_list = "(nat \<times> nat) list"

text \<open>The deltas \<open>d\<close> along the list add up to the deadlines, from the base time \<open>b\<close>.\<close>

fun deadlines :: "(nat \<Rightarrow> sysinterval) \<Rightarrow> nat \<Rightarrow> deadline_list \<Rightarrow> bool" where
  "deadlines d b [] = True"
| "deadlines d b ((t, D) # ds) = (D = b + unat (d t) \<and> deadlines d D ds)"

abbreviation timers :: "deadline_list \<Rightarrow> nat list" where
  "timers ds \<equiv> map fst ds"

text \<open>
  \<open>T\<close> is the time since the start of the system in ticks, \<open>L\<close> the base time of the list.
\<close>

definition vt_abs :: "nat \<Rightarrow> nat \<Rightarrow> deadline_list \<Rightarrow> ('f, 'a) vtimers_scheme \<Rightarrow> bool" where
  "vt_abs T L ds s \<longleftrightarrow>
     ring (vt_next s) (vt_prev s) VTLIST (timers ds) \<and> vt_delta s VTLIST = -1 \<and>
     (\<forall>t. vt_func s t \<noteq> None \<longleftrightarrow> t \<in> set (timers ds)) \<and>
     ST_CNT s = word_of_nat T \<and>
     (ds \<noteq> [] \<longrightarrow> lasttime s = word_of_nat L \<and> L \<le> T \<and> T - L < 2 ^ 32 - 1 \<and> deadlines (vt_delta s) L ds)"

text \<open>
  The alarm is on exactly while timers are armed, and then either the interrupt is pending or it
  comes no later than the first deadline or \<^verbatim>\<open>CH_CFG_ST_TIMEDELTA\<close> ticks from now.
\<close>

definition alarm_ok :: "nat \<Rightarrow> deadline_list \<Rightarrow> ('f, 'a) vtimers_scheme \<Rightarrow> bool" where
  "alarm_ok T ds s \<longleftrightarrow> CC1IE s = (ds \<noteq> []) \<and>
     (ds \<noteq> [] \<longrightarrow> CC1IF s \<or>
        0 < unat (ST_CCR s - ST_CNT s) \<and> unat (ST_CCR s - ST_CNT s) \<le> max (snd (hd ds) - T) 2)"

definition vt_ok :: "nat \<Rightarrow> nat \<Rightarrow> deadline_list \<Rightarrow> ('f, 'a) vtimers_scheme \<Rightarrow> bool" where
  "vt_ok T L ds s \<longleftrightarrow> vt_abs T L ds s \<and> alarm_ok T ds s"

definition vt_ins :: "nat \<Rightarrow> nat \<Rightarrow> deadline_list \<Rightarrow> deadline_list" where
  "vt_ins t X ds = takeWhile (\<lambda>e. snd e < X) ds @ (t, X) # dropWhile (\<lambda>e. snd e < X) ds"

definition last_dl :: "nat \<Rightarrow> deadline_list \<Rightarrow> nat" where
  "last_dl b ds = last (b # map snd ds)"

lemma last_dl_simps [simp]: "last_dl b [] = b" "last_dl b (e # ds) = last_dl (snd e) ds"
  by (simp_all add: last_dl_def)

lemma last_dl_append [simp]: "last_dl b (xs @ ys) = last_dl (last_dl b xs) ys"
  by (induction xs arbitrary: b) auto

lemma deadlines_append:
  "deadlines d b (xs @ ys) \<longleftrightarrow> deadlines d b xs \<and> deadlines d (last_dl b xs) ys"
  by (induction d b xs rule: deadlines.induct) auto

lemma deadlines_cong:
  "(\<And>t. t \<in> set (timers ds) \<Longrightarrow> d' t = d t) \<Longrightarrow> deadlines d' b ds = deadlines d b ds"
  by (induction d b ds rule: deadlines.induct) auto

lemma last_dl_ge: "deadlines d b ds \<Longrightarrow> b \<le> last_dl b ds"
  by (induction d b ds rule: deadlines.induct) fastforce+

lemma deadlines_sorted: "deadlines d b ds \<Longrightarrow> sorted (map snd ds) \<and> (\<forall>e \<in> set ds. b \<le> snd e)"
  by (induction d b ds rule: deadlines.induct) fastforce+

lemma set_vt_ins [simp]: "set (vt_ins t X ds) = insert (t, X) (set ds)"
proof -
  have "set ds = set (takeWhile (\<lambda>e. snd e < X) ds) \<union> set (dropWhile (\<lambda>e. snd e < X) ds)"
    by (metis set_append takeWhile_dropWhile_id)
  then show ?thesis by (simp add: vt_ins_def)
qed

lemma vt_ins_not_Nil [simp]: "vt_ins t X ds \<noteq> []"
  by (simp add: vt_ins_def)

lemma hd_vt_ins: "sorted (map snd ds) \<Longrightarrow> snd (hd (vt_ins t X ds)) = (if ds = [] then X else min X (snd (hd ds)))"
  by (cases ds) (auto simp: vt_ins_def)

section \<open>Time\<close>

lemma unat32: "unat (w :: 32 word) < 4294967296"
proof -
  have "unat w < 2 ^ LENGTH(32)" by (rule unsigned_less)
  then show ?thesis by simp
qed

lemma unat_diff_of_nat:
  "L \<le> T \<Longrightarrow> T - L < 2 ^ 32 \<Longrightarrow> unat (word_of_nat T - word_of_nat L :: 32 word) = T - L"
  by (simp add: of_nat_diff [symmetric] unat_of_nat del: of_nat_diff)

definition lag :: "('f, 'a) vtimers_scheme \<Rightarrow> nat" where
  "lag s = (case lags s of [] \<Rightarrow> 0 | n # _ \<Rightarrow> n)"

lemma chVTGetSystemTimeX_eq:
  "chVTGetSystemTimeX s = (ST_CNT s + word_of_nat (lag s), (st_advance (lag s) s)\<lparr>lags := tl (lags s)\<rparr>)"
  by (cases s) (auto simp: chVTGetSystemTimeX_def lag_def st_advance_def Let_def split: list.split)

lemma lag_sum: "lag s + sum_list (tl (lags s)) = sum_list (lags s)"
  by (simp add: lag_def split: list.split)

lemma lag_le: "lag s \<le> sum_list (lags s)"
  using lag_sum [of s] by simp

lemma st_advance_sel [simp]:
  "vt_next (st_advance n s) = vt_next s" "vt_prev (st_advance n s) = vt_prev s"
  "vt_delta (st_advance n s) = vt_delta s" "vt_func (st_advance n s) = vt_func s"
  "vt_par (st_advance n s) = vt_par s" "lasttime (st_advance n s) = lasttime s"
  "ST_CNT (st_advance n s) = ST_CNT s + word_of_nat n" "ST_CCR (st_advance n s) = ST_CCR s"
  "CC1IE (st_advance n s) = CC1IE s" "lags (st_advance n s) = lags s"
  "vtimers.more (st_advance n s) = vtimers.more s"
  by (simp_all add: st_advance_def)

lemma vt_abs_lags [simp]: "vt_abs T L ds (s\<lparr>lags := ls\<rparr>) = vt_abs T L ds s"
  by (simp add: vt_abs_def)

lemma alarm_ok_lags [simp]: "alarm_ok T ds (s\<lparr>lags := ls\<rparr>) = alarm_ok T ds s"
  by (simp add: alarm_ok_def)

lemma vt_abs_advance:
  "vt_abs T L ds s \<Longrightarrow> (ds \<noteq> [] \<Longrightarrow> T + n - L < 2 ^ 32 - 1) \<Longrightarrow> vt_abs (T + n) L ds (st_advance n s)"
  by (auto simp: vt_abs_def)

lemma alarm_ok_advance:
  assumes "alarm_ok T ds s"
  shows "alarm_ok (T + n) ds (st_advance n s)"
proof (cases "ds = [] \<or> CC1IF (st_advance n s)")
  case True
  with assms show ?thesis by (auto simp: alarm_ok_def)
next
  case False
  let ?c = "unat (ST_CCR s - ST_CNT s)"
  have c: "0 < ?c" "?c \<le> max (snd (hd ds) - T) 2" "n < ?c"
    using False assms by (auto simp: alarm_ok_def st_advance_def)
  have "unat (ST_CCR s - (ST_CNT s + word_of_nat n)) = ?c - n"
  proof -
    have "unat (word_of_nat n :: 32 word) = n"
      using c(3) unat32 [of "ST_CCR s - ST_CNT s"] by (simp add: unat_of_nat)
    then show ?thesis using c(3) by (simp add: diff_diff_eq [symmetric] unat_sub word_le_nat_alt)
  qed
  with c False assms show ?thesis by (auto simp: alarm_ok_def)
qed

lemma vt_ok_read:
  assumes "vt_ok T L ds s" "ds \<noteq> [] \<Longrightarrow> T + lag s - L < 2 ^ 32 - 1"
  shows "vt_ok (T + lag s) L ds ((st_advance (lag s) s)\<lparr>lags := tl (lags s)\<rparr>)"
  using assms vt_abs_advance [of T L ds s "lag s"] alarm_ok_advance [of T ds s "lag s"]
  by (simp add: vt_ok_def)

section \<open>The scan and the link\<close>

lemma vt_scan_finds:
  assumes "links (vt_next s) (vt_prev s) a (timers ds) VTLIST" "deadlines (vt_delta s) b ds"
    "vt_delta s VTLIST = -1" "vtp \<notin> set (timers ds)" "p = hd (timers ds @ [VTLIST])"
  shows "\<exists>delta'. vt_scan s vtp p delta =
      Some (Inr (hd (timers (dropWhile (\<lambda>e. snd e < b + unat delta) ds) @ [VTLIST]), delta')) \<and>
    last_dl b (takeWhile (\<lambda>e. snd e < b + unat delta) ds) + unat delta' = b + unat delta"
  using assms
proof (induction ds arbitrary: a b p delta)
  case Nil
  have "\<not> (-1 :: 32 word) < delta" using word_le_nat_alt by (simp add: not_less)
  with Nil show ?case by (simp add: vt_scan.simps)
next
  case (Cons e ds)
  obtain t D where e: "e = (t, D)" by force
  with Cons.prems have p: "p = t" and D: "D = b + unat (vt_delta s t)" and
    l: "links (vt_next s) (vt_prev s) t (timers ds) VTLIST" "deadlines (vt_delta s) D ds" "t \<noteq> vtp"
    by auto
  show ?case
  proof (cases "vt_delta s t < delta")
    case True
    then have "D + unat (delta - vt_delta s t) = b + unat delta" "D < b + unat delta"
      using D by (simp_all add: word_less_nat_alt unat_sub word_le_nat_alt)
    moreover have "vt_scan s vtp p delta = vt_scan s vtp (hd (timers ds @ [VTLIST])) (delta - vt_delta s t)"
      using True p l(3) links_next_start [OF l(1)] by (simp add: vt_scan.simps [of s vtp t])
    ultimately show ?thesis
      using Cons.IH [OF l(1,2) Cons.prems(3), of "hd (timers ds @ [VTLIST])" "delta - vt_delta s t"]
        Cons.prems(4) e by simp
  next
    case False
    then have "\<not> D < b + unat delta" using D by (simp add: word_less_nat_alt)
    then show ?thesis using False p e by (simp add: vt_scan.simps [of s vtp t])
  qed
qed

lemma vt_link_sel [simp]:
  "vt_func (vt_link vtp p d s) = vt_func s" "vt_par (vt_link vtp p d s) = vt_par s"
  "lasttime (vt_link vtp p d s) = lasttime s" "ST_CNT (vt_link vtp p d s) = ST_CNT s"
  "ST_CCR (vt_link vtp p d s) = ST_CCR s" "CC1IF (vt_link vtp p d s) = CC1IF s"
  "CC1IE (vt_link vtp p d s) = CC1IE s" "lags (vt_link vtp p d s) = lags s"
  "vtimers.more (vt_link vtp p d s) = vtimers.more s"
  by (simp_all add: vt_link_def Let_def)

lemma vt_link_ring:
  assumes "ring (vt_next s) (vt_prev s) VTLIST (xs @ ys)" "vtp \<notin> set (VTLIST # xs @ ys)"
    "p = hd (ys @ [VTLIST])"
  shows "ring (vt_next (vt_link vtp p d s)) (vt_prev (vt_link vtp p d s)) VTLIST (xs @ vtp # ys)"
proof -
  have "vtp \<noteq> p" using assms by (cases ys) auto
  then have "vt_prev s p \<noteq> vtp"
    using assms ring_prev [OF assms(1)] by (cases ys) (auto dest: ring_mid split: if_splits)
  with \<open>vtp \<noteq> p\<close> show ?thesis
    using ring_insert [OF assms] by (simp add: vt_link_def Let_def)
qed

lemma vt_link_delta:
  "p \<noteq> vtp \<Longrightarrow> vt_delta (vt_link vtp p d s) =
     (vt_delta s)(vtp := d, p := vt_delta s p - d, VTLIST := -1)"
  by (simp add: vt_link_def Let_def)

lemma vt_link_deadlines:
  assumes "deadlines (vt_delta s) b (xs @ ys)" "distinct (VTLIST # timers (xs @ ys))"
    "vtp \<notin> set (VTLIST # timers (xs @ ys))" "p = hd (timers ys @ [VTLIST])"
    "last_dl b xs + unat d = X" "\<forall>e \<in> set ys. X \<le> snd e"
  shows "deadlines (vt_delta (vt_link vtp p d s)) b (xs @ (vtp, X) # ys)"
proof -
  let ?d = "vt_delta (vt_link vtp p d s)"
  have pv: "p \<noteq> vtp" and px: "p \<notin> set (timers xs)" using assms(2-4) by (cases ys; auto)+
  have 1: "deadlines (vt_delta s) b xs" "deadlines (vt_delta s) (last_dl b xs) ys"
    using assms(1) by (simp_all add: deadlines_append)
  have "deadlines ?d b xs = deadlines (vt_delta s) b xs"
    by (rule deadlines_cong) (use assms(2,3) px in \<open>auto simp: vt_link_delta [OF pv] simp del: set_map\<close>)
  moreover have "deadlines ?d X ys"
  proof (cases ys)
    case (Cons e zs)
    then obtain t D where e: "e = (t, D)" by force
    have t: "p = t" "t \<noteq> VTLIST" "D = last_dl b xs + unat (vt_delta s t)" "X \<le> D"
      "deadlines (vt_delta s) D zs" and z: "t \<notin> set (timers zs)" "VTLIST \<notin> set (timers zs)" "vtp \<notin> set (timers zs)"
      using assms(2-4,6) 1(2) Cons e by auto
    have "deadlines ?d D zs = deadlines (vt_delta s) D zs"
      by (rule deadlines_cong) (use z [folded t(1)] in \<open>auto simp: vt_link_delta [OF pv] simp del: set_map\<close>)
    moreover have "D = X + unat (?d t)"
      using t(2-4) [folded t(1)] assms(5) by (simp add: vt_link_delta [OF pv] t(1) [symmetric] unat_sub word_le_nat_alt)
    ultimately show ?thesis using Cons e t(5) by simp
  qed simp
  moreover have "?d vtp = d" using assms(3) pv by (simp add: vt_link_delta [OF pv])
  ultimately show ?thesis using 1 assms(5) by (simp add: deadlines_append)
qed

section \<open>Setting a timer\<close>

text \<open>
  The part of \<^verbatim>\<open>chVTDoSetI\<close> after the choice of the first node to look at: whatever prefix of
  the list was skipped, the timer ends up at the place of its deadline.
\<close>

lemma vt_scan_link:
  assumes r: "ring (vt_next s) (vt_prev s) VTLIST (timers ds)" and d: "deadlines (vt_delta s) L ds"
    and h: "vt_delta s VTLIST = -1" and t: "vtp \<noteq> VTLIST" "vtp \<notin> set (timers ds)"
    and ds: "ds = pre @ ys" "\<forall>e \<in> set pre. snd e < X" "p = hd (timers ys @ [VTLIST])"
    and X: "last_dl L pre + unat delta = X"
  shows "\<exists>s'. bindP (vt_scan s vtp p delta) (\<lambda>(p, delta). Some (Inr (vt_link vtp p delta s))) = Some (Inr s') \<and>
    ring (vt_next s') (vt_prev s') VTLIST (timers (vt_ins vtp X ds)) \<and> vt_delta s' VTLIST = -1 \<and>
    deadlines (vt_delta s') L (vt_ins vtp X ds) \<and> vt_func s' = vt_func s \<and> lasttime s' = lasttime s \<and>
    ST_CNT s' = ST_CNT s \<and> ST_CCR s' = ST_CCR s \<and> CC1IF s' = CC1IF s \<and> CC1IE s' = CC1IE s \<and>
    vt_par s' = vt_par s \<and> lags s' = lags s \<and> vtimers.more s' = vtimers.more s"
proof -
  let ?tk = "takeWhile (\<lambda>e. snd e < X)" and ?dr = "dropWhile (\<lambda>e. snd e < X)"
  have tk: "?tk ds = pre @ ?tk ys" and dr: "?dr ds = ?dr ys"
    using ds(1,2) by (auto simp: takeWhile_append dropWhile_append)
  obtain a where l: "links (vt_next s) (vt_prev s) a (timers ys) VTLIST"
    using r ds(1) by (cases pre rule: rev_cases) (auto simp: ring_def links_append)
  have dy: "deadlines (vt_delta s) (last_dl L pre) ys" and ty: "vtp \<notin> set (timers ys)"
    using d t ds(1) by (auto simp: deadlines_append)
  obtain delta' where scan: "vt_scan s vtp p delta = Some (Inr (hd (timers (?dr ys) @ [VTLIST]), delta'))"
    and last: "last_dl (last_dl L pre) (?tk ys) + unat delta' = X"
    using vt_scan_finds [OF l dy h ty ds(3), of delta] unfolding X by blast
  let ?s = "vt_link vtp (hd (timers (?dr ds) @ [VTLIST])) delta' s"
  have split: "ds = ?tk ds @ ?dr ds" by simp
  have "last_dl L (?tk ds) + unat delta' = X" using last tk by simp
  moreover have "\<forall>e \<in> set (?dr ds). X \<le> snd e"
  proof -
    have "sorted (map snd (?dr ds))"
      using deadlines_sorted [OF d] split by (metis map_append sorted_append)
    moreover have "X \<le> snd (hd (?dr ds))" if "?dr ds \<noteq> []"
      using hd_dropWhile [of "\<lambda>e. snd e < X" ds] that by simp
    ultimately show ?thesis
    proof (cases "?dr ds")
      case Nil
      then show ?thesis by (simp only: list.set) simp
    qed auto
  qed
  ultimately have "deadlines (vt_delta ?s) L (vt_ins vtp X ds)"
    unfolding vt_ins_def
    by (intro vt_link_deadlines) (use d r t split in \<open>auto simp: ring_def\<close>)
  moreover have "ring (vt_next ?s) (vt_prev ?s) VTLIST (timers (vt_ins vtp X ds))"
  proof -
    have "timers ds = timers (?tk ds) @ timers (?dr ds)" using split by (metis map_append)
    then have "ring (vt_next ?s) (vt_prev ?s) VTLIST (timers (?tk ds) @ vtp # timers (?dr ds))"
      using r t by (intro vt_link_ring) auto
    then show ?thesis by (simp add: vt_ins_def)
  qed
  moreover have "vt_delta ?s VTLIST = -1"
    by (simp add: vt_link_def Let_def)
  ultimately show ?thesis using scan dr by auto
qed

lemma max_delay: "unat (if delay < CH_CFG_ST_TIMEDELTA then CH_CFG_ST_TIMEDELTA else delay) = max 2 (unat delay)"
  by (simp add: CH_CFG_ST_TIMEDELTA_def word_less_nat_alt max_def)

lemma delta_word:
  assumes "L \<le> T" "T - L < 2 ^ 32" "unat delay = dl"
  shows "chTimeDiffX (word_of_nat L) (word_of_nat T) + delay = word_of_nat (T + dl - L)"
    "chTimeDiffX (word_of_nat L) (word_of_nat T) + delay < chTimeDiffX (word_of_nat L) (word_of_nat T) \<longleftrightarrow>
       2 ^ 32 \<le> T + dl - L"
proof -
  have dl: "delay = word_of_nat dl" "dl < 2 ^ 32" using assms(3) unsigned_less [of delay] by auto
  have "word_of_nat T - word_of_nat L + delay = word_of_nat (T - L + dl)"
    using dl assms(1) by (simp add: of_nat_diff)
  then show 1: "chTimeDiffX (word_of_nat L) (word_of_nat T) + delay = word_of_nat (T + dl - L)"
    using assms(1) by (simp add: chTimeDiffX_def)
  have "unat (word_of_nat (T + dl - L) :: 32 word) = (T - L + dl) mod 2 ^ 32"
    using assms(1) by (simp add: unat_of_nat del: of_nat_diff)
  moreover have "(T - L + dl) mod 2 ^ 32 < T - L \<longleftrightarrow> 2 ^ 32 \<le> T - L + dl"
    using assms(2) dl(2) by (cases "T - L + dl < 2 ^ 32") (auto simp: mod_if)
  ultimately show "chTimeDiffX (word_of_nat L) (word_of_nat T) + delay < chTimeDiffX (word_of_nat L) (word_of_nat T) \<longleftrightarrow>
       2 ^ 32 \<le> T + dl - L"
    unfolding 1 using unat_diff_of_nat [OF assms(1,2)] assms(1)
    by (simp add: chTimeDiffX_def word_less_nat_alt del: of_nat_diff)
qed

text \<open>The start of the scan: what is skipped, and the alarm where the timer is the new first one.\<close>

lemma vt_set_start_ok:
  assumes r: "ring (vt_next s) (vt_prev s) VTLIST (timers ds)" and d: "deadlines (vt_delta s) L ds"
    and L: "lasttime s = word_of_nat L" "L \<le> T" "T - L < 2 ^ 32 - 1" and ds: "ds = (t, D) # es"
    and dl: "unat delay = dl" "2 \<le> dl" "T + dl < 2 ^ 32 + D" and ie: "CC1IE s"
    and delta: "delta = chTimeDiffX (lasttime s) (word_of_nat T) + delay"
  shows "\<exists>pre ys delta' ccr. vt_set_start (word_of_nat T) t s delta =
      Some (Inr (hd (timers ys @ [VTLIST]), delta', s\<lparr>ST_CCR := ccr\<rparr>)) \<and>
    ds = pre @ ys \<and> (\<forall>e \<in> set pre. snd e < T + dl) \<and> last_dl L pre + unat delta' = T + dl \<and>
    ccr = (if T + dl < D then word_of_nat (T + dl) else ST_CCR s)"
proof -
  have nx: "vt_next s t = hd (timers es @ [VTLIST])" and D: "D = L + unat (vt_delta s t)"
    using ring_mid [of _ _ _ "[]"] r d ds by auto
  have d1: "unat (vt_delta s t) < 2 ^ 32" using unsigned_less [of "vt_delta s t"] by simp
  have w: "delta = word_of_nat (T + dl - L)"
    "delta < chTimeDiffX (lasttime s) (word_of_nat T) \<longleftrightarrow> 2 ^ 32 \<le> T + dl - L"
    using delta_word [of L T delay dl] L dl(1) delta by simp_all
  show ?thesis
  proof (cases "2 ^ 32 \<le> T + dl - L")
    case True
    then have "delta - vt_delta s t = word_of_nat (T + dl - D)"
    proof -
      have "vt_delta s t = word_of_nat (D - L)" using D by simp
      moreover have "T + dl - L - (D - L) = T + dl - D" "D - L \<le> T + dl - L" using D d1 True by auto
      ultimately show ?thesis using w(1) by (metis of_nat_diff)
    qed
    moreover have "T + dl - D < 2 ^ 32" using dl(3) by simp
    ultimately have "D + unat (delta - vt_delta s t) = T + dl"
      using True D d1 by (simp add: unat_of_nat del: of_nat_diff)
    then show ?thesis using True w nx ds D d1
      by (intro exI [of _ "[(t, D)]"] exI [of _ es] exI [of _ "delta - vt_delta s t"] exI [of _ "ST_CCR s"])
         (simp add: vt_set_start_def)
  next
    case False
    then have u: "unat delta = T + dl - L" using w(1) by (simp add: unat_of_nat del: of_nat_diff)
    have "delta < vt_delta s t \<longleftrightarrow> T + dl < D" using u D L(2) by (auto simp: word_less_nat_alt)
    moreover have "chTimeAddX (lasttime s) delta = word_of_nat (T + dl)"
      using L w(1) by (simp add: chTimeAddX_def del: of_nat_diff flip: of_nat_add)
    ultimately show ?thesis using False w(2) ds u L(2) ie
      by (intro exI [of _ "[]"] exI [of _ ds] exI [of _ delta]
            exI [of _ "if T + dl < D then word_of_nat (T + dl) else ST_CCR s"])
         (auto simp: vt_set_start_def stSetAlarm_def st_lld_set_alarm_def st_lld_is_alarm_active_def)
  qed
qed

lemma chVTDoSetI_ok:
  assumes ok: "vt_ok T L ds s" and t: "vtp \<noteq> VTLIST" "vtp \<notin> set (timers ds)" and dl: "delay \<noteq> 0"
    and T': "T' = T + lag s" and X: "X = T' + max 2 (unat delay)"
    and room: "ds \<noteq> [] \<Longrightarrow> T' - L < 2 ^ 32 - 1 \<and> X < 2 ^ 32 + snd (hd ds)"
  shows "\<exists>s'. chVTDoSetI (Some vtp) delay (Some f) par s = Some (Inr s') \<and>
    vt_ok T' (if ds = [] then T' else L) (vt_ins vtp X ds) s' \<and>
    vt_func s' = (vt_func s)(vtp := Some f) \<and> vt_par s' = (vt_par s)(vtp := par) \<and>
    lags s' = tl (lags s) \<and> vtimers.more s' = vtimers.more s"
proof -
  let ?m = "max 2 (unat delay)"
  define delay' where "delay' = (if delay < CH_CFG_ST_TIMEDELTA then CH_CFG_ST_TIMEDELTA else delay)"
  have m: "unat delay' = ?m" "2 \<le> ?m" by (simp_all add: delay'_def max_delay)
  define s1 where "s1 = (st_advance (lag s) s)\<lparr>lags := tl (lags s)\<rparr>"
  define s2 where "s2 = s1\<lparr>vt_par := (vt_par s)(vtp := par), vt_func := (vt_func s)(vtp := Some f)\<rparr>"
  have ok1: "vt_ok T' L ds s1"
    using vt_ok_read [OF ok] room T' by (simp add: s1_def)
  have rd: "chVTGetSystemTimeX (s\<lparr>vt_par := (vt_par s)(vtp := par), vt_func := (vt_func s)(vtp := Some f)\<rparr>)
      = (word_of_nat T', s2)"
    using ok1 by (simp add: chVTGetSystemTimeX_eq lag_def s1_def s2_def st_advance_def vt_ok_def vt_abs_def)
  note s2 = s2_def s1_def
  show ?thesis
  proof (cases "ds = []")
    case True
    have nx: "vt_next s VTLIST = VTLIST" using True ok by (simp add: vt_ok_def vt_abs_def)
    have ie: "\<not> CC1IE s2" using True ok1 by (simp add: vt_ok_def alarm_ok_def s2)
    have "chVTDoSetI (Some vtp) delay (Some f) par s = Some (Inr (st_lld_start_alarm (word_of_nat T' + delay')
        (s2\<lparr>lasttime := word_of_nat T', vt_next := (vt_next s)(VTLIST := vtp, vtp := VTLIST),
          vt_prev := (vt_prev s)(VTLIST := vtp, vtp := VTLIST), vt_delta := (vt_delta s)(vtp := delay')\<rparr>)))"
      using dl ie nx by (simp add: chVTDoSetI_def TIME_IMMEDIATE_def rd Let_def stStartAlarm_def
        st_lld_is_alarm_active_def chTimeAddX_def delay'_def [symmetric] s2)
    moreover have "0 < unat delay'" "X = T' + unat delay'" using m X by auto
    ultimately show ?thesis using True ok1 t m
      by (auto simp: vt_ok_def vt_abs_def alarm_ok_def vt_ins_def ring_def st_lld_start_alarm_def s2)
  next
    case False
    then obtain t' D es where ds: "ds = (t', D) # es" by (metis list.exhaust surj_pair)
    have a: "ring (vt_next s1) (vt_prev s1) VTLIST (timers ds)" "deadlines (vt_delta s1) L ds"
      "vt_delta s1 VTLIST = -1" "lasttime s1 = word_of_nat L" "L \<le> T'" "T' - L < 2 ^ 32 - 1" "CC1IE s1"
      using ok1 False by (auto simp: vt_ok_def vt_abs_def alarm_ok_def)
    have nx: "vt_next s VTLIST = t'" using a(1) ds ring_next [OF a(1)] by (simp add: s2)
    have tl: "t' \<noteq> VTLIST" using a(1) ds by (auto simp: ring_def)
    let ?d = "chTimeDiffX (lasttime s2) (word_of_nat T') + delay'"
    obtain pre ys delta' ccr where start: "vt_set_start (word_of_nat T') t' s2 ?d =
        Some (Inr (hd (timers ys @ [VTLIST]), delta', s2\<lparr>ST_CCR := ccr\<rparr>))"
      and pre: "ds = pre @ ys" "\<forall>e \<in> set pre. snd e < X" "last_dl L pre + unat delta' = X"
      and ccr: "ccr = (if X < D then word_of_nat X else ST_CCR s2)"
      using vt_set_start_ok [of s2 ds L T' t' D es delay' ?m ?d] a ds m room False X
      by (auto simp: s2_def)
    obtain s' where s': "bindP (vt_scan (s2\<lparr>ST_CCR := ccr\<rparr>) vtp (hd (timers ys @ [VTLIST])) delta')
        (\<lambda>(p, delta). Some (Inr (vt_link vtp p delta (s2\<lparr>ST_CCR := ccr\<rparr>)))) = Some (Inr s')"
      "ring (vt_next s') (vt_prev s') VTLIST (timers (vt_ins vtp X ds))" "vt_delta s' VTLIST = -1"
      "deadlines (vt_delta s') L (vt_ins vtp X ds)" "vt_func s' = vt_func s2" "lasttime s' = lasttime s2"
      "ST_CNT s' = ST_CNT s2" "ST_CCR s' = ccr" "CC1IF s' = CC1IF s2" "CC1IE s' = CC1IE s2"
      "vt_par s' = vt_par s2" "lags s' = lags s2" "vtimers.more s' = vtimers.more s2"
      using vt_scan_link [of "s2\<lparr>ST_CCR := ccr\<rparr>" ds L vtp pre ys X "hd (timers ys @ [VTLIST])" delta'] a t pre
      by (auto simp: s2_def)
    have "chVTDoSetI (Some vtp) delay (Some f) par s = Some (Inr s')"
      using dl nx tl start s'(1) by (simp add: chVTDoSetI_def TIME_IMMEDIATE_def rd Let_def
        delay'_def [symmetric] s2)
    moreover have "vt_abs T' L (vt_ins vtp X ds) s'"
    proof -
      have "vt_func s1 = vt_func s" by (simp add: s1_def)
      moreover have "\<forall>t. vt_func s1 t \<noteq> None \<longleftrightarrow> t \<in> set (timers ds)" "ST_CNT s1 = word_of_nat T'"
        using ok1 by (simp_all add: vt_ok_def vt_abs_def)
      ultimately show ?thesis
        using s'(2-7) a(4-6) by (auto simp: vt_abs_def s2_def)
    qed
    moreover have "alarm_ok T' (vt_ins vtp X ds) s'"
    proof -
      have h: "snd (hd (vt_ins vtp X ds)) = min X D"
        using deadlines_sorted [OF a(2)] ds by (simp add: hd_vt_ins)
      have c: "ST_CNT s1 = word_of_nat T'" using ok1 by (simp add: vt_ok_def vt_abs_def)
      have "unat (word_of_nat X - word_of_nat T' :: 32 word) = unat delay'"
        unfolding X m(1) [symmetric] by simp
      then show ?thesis using s' a ok1 ds h ccr m X c
        by (auto simp: alarm_ok_def vt_ok_def s2_def min_def)
    qed
    ultimately show ?thesis using s' False by (simp add: vt_ok_def s2)
  qed
qed

end
