(* ===== verification/VTimersTick.thy ===== *)
theory VTimersTick
  imports VTimersSet
begin

text \<open>
  Resetting a timer and serving the alarm keep the abstraction of \<open>VTimersSet\<close>. What callbacks may
  do while the alarm is served is the locale \<open>vt_callbacks\<close>: they work on the rest of the state only.
\<close>

declare One_nat_def [simp del]

section \<open>Resetting a timer\<close>

lemma vt_unlink_sel [simp]:
  "vt_next (vt_unlink t s) = (vt_next s)(vt_prev s t := vt_next s t)"
  "vt_prev (vt_unlink t s) = (vt_prev s)(vt_next s t := vt_prev s t)"
  "vt_func (vt_unlink t s) = (vt_func s)(t := None)" "vt_delta (vt_unlink t s) = vt_delta s"
  "vt_par (vt_unlink t s) = vt_par s" "lasttime (vt_unlink t s) = lasttime s"
  "ST_CNT (vt_unlink t s) = ST_CNT s" "ST_CCR (vt_unlink t s) = ST_CCR s"
  "CC1IF (vt_unlink t s) = CC1IF s" "CC1IE (vt_unlink t s) = CC1IE s" "lags (vt_unlink t s) = lags s"
  "vtimers.more (vt_unlink t s) = vtimers.more s"
  by (simp_all add: vt_unlink_def Let_def)

text \<open>The deadlines after the delta of a removed timer went to its successor.\<close>

lemma deadlines_merge:
  assumes "deadlines d b (xs @ (t, D) # (u, E) # zs)" "distinct (timers (xs @ (t, D) # (u, E) # zs))"
    "E < last_dl b xs + 2 ^ 32"
  shows "deadlines (d(u := d u + d t)) b (xs @ (u, E) # zs)"
proof -
  have d: "deadlines d b xs" "D = last_dl b xs + unat (d t)" "E = D + unat (d u)" "deadlines d E zs"
    using assms(1) by (auto simp: deadlines_append)
  have "deadlines (d(u := d u + d t)) b xs" "deadlines (d(u := d u + d t)) E zs"
    using d(1,4) assms(2) by (subst deadlines_cong [where d = d]; auto)+
  moreover have "unat (d u + d t) = unat (d u) + unat (d t)"
    using assms(3) d by (simp add: unat_word_ariths)
  ultimately show ?thesis using d by (simp add: deadlines_append)
qed

lemma deadlines_drop_last:
  "deadlines d b (xs @ [e]) \<Longrightarrow> deadlines d b xs"
  by (simp add: deadlines_append)

lemma reset_middle:
  assumes ok: "vt_ok T L ds s" and ds: "ds = xs @ (t, D) # ys" "xs \<noteq> []"
    and fit: "ys \<noteq> [] \<Longrightarrow> snd (hd ys) < last_dl L xs + 2 ^ 32"
  shows "\<exists>s'. chVTDoResetI t s = Inr s' \<and> vt_ok T L (xs @ ys) s' \<and> vt_func s' = (vt_func s)(t := None) \<and>
    vt_par s' = vt_par s \<and> lags s' = lags s \<and> vtimers.more s' = vtimers.more s"
proof -
  have r: "ring (vt_next s) (vt_prev s) VTLIST (timers xs @ t # timers ys)"
    and a: "vt_delta s VTLIST = -1" "deadlines (vt_delta s) L ds"
      "\<forall>u. vt_func s u \<noteq> None \<longleftrightarrow> u \<in> set (timers ds)"
    using ok ds by (auto simp: vt_ok_def vt_abs_def)
  have nx: "vt_next s VTLIST \<noteq> t" "vt_next s t = hd (timers ys @ [VTLIST])"
    using ring_next [OF r] ring_mid [OF r] ring_distinct [OF r] ds(2) by (cases xs; auto)+
  have f: "vt_func s t \<noteq> None" using a(3) ds by simp
  let ?s = "vt_unlink t s"
  have r': "ring (vt_next ?s) (vt_prev ?s) VTLIST (timers (xs @ ys))"
    using ring_remove [OF r] by simp
  have fn: "\<forall>u. vt_func ?s u \<noteq> None \<longleftrightarrow> u \<in> set (timers (xs @ ys))"
    using a(3) ring_distinct [OF r] ds by auto
  have al: "alarm_ok T (xs @ ys) ?s" using ok ds by (cases xs) (auto simp: vt_ok_def alarm_ok_def)
  show ?thesis
  proof (cases ys)
    case Nil
    then have "chVTDoResetI t s = Inr ?s" using nx f by (simp add: chVTDoResetI_def)
    moreover have "vt_abs T L xs ?s"
      using ok r' fn ds a(1,2) Nil deadlines_drop_last [of "vt_delta s" L xs "(t, D)"]
      by (simp add: vt_abs_def vt_ok_def)
    ultimately show ?thesis using al Nil by (simp add: vt_ok_def)
  next
    case (Cons e zs)
    then obtain u E where e: "ys = (u, E) # zs" by (cases e) auto
    have u: "u \<noteq> VTLIST" "vt_next s t = u" using r nx(2) e by (auto simp: ring_def)
    let ?s' = "?s\<lparr>vt_delta := (vt_delta s)(u := vt_delta s u + vt_delta s t)\<rparr>"
    have "chVTDoResetI t s = Inr ?s'" using nx(1) f u by (simp add: chVTDoResetI_def Let_def)
    moreover have "vt_abs T L (xs @ ys) ?s'"
    proof -
      have "deadlines (vt_delta ?s') L (xs @ ys)"
        using deadlines_merge [of "vt_delta s" L xs t D u E zs] a(2) ring_distinct [OF r] ds fit e by simp
      moreover have "vt_delta ?s' VTLIST = -1" using a(1) u by simp
      ultimately show ?thesis using ok r' fn ds by (simp add: vt_abs_def vt_ok_def)
    qed
    ultimately show ?thesis using al by (simp add: vt_ok_def alarm_ok_def)
  qed
qed

lemma reset_first:
  assumes ok: "vt_ok T L ds s" and ds: "ds = (t, D) # ys"
    and fit: "ys \<noteq> [] \<Longrightarrow> snd (hd ys) < L + 2 ^ 32 \<and> T + lag s - L < 2 ^ 32 - 1"
    and T': "T' = (if ys = [] then T else T + lag s)"
  shows "\<exists>s'. chVTDoResetI t s = Inr s' \<and> vt_ok T' L ys s' \<and> vt_func s' = (vt_func s)(t := None) \<and>
    vt_par s' = vt_par s \<and> T' + sum_list (lags s') = T + sum_list (lags s) \<and> vtimers.more s' = vtimers.more s"
proof -
  have r: "ring (vt_next s) (vt_prev s) VTLIST (t # timers ys)"
    and a: "vt_delta s VTLIST = -1" "deadlines (vt_delta s) L ds"
      "\<forall>u. vt_func s u \<noteq> None \<longleftrightarrow> u \<in> set (timers ds)" "CC1IE s"
    using ok ds by (auto simp: vt_ok_def vt_abs_def alarm_ok_def)
  have nx: "vt_next s VTLIST = t" "vt_next s t = hd (timers ys @ [VTLIST])"
    using ring_next [OF r] ring_mid [of _ _ _ "[]"] r by auto
  have f: "vt_func s t \<noteq> None" using a(3) ds by simp
  define s1 where "s1 = s\<lparr>vt_next := (vt_next s)(VTLIST := vt_next s t),
      vt_prev := (vt_prev s)(vt_next s t := VTLIST), vt_func := (vt_func s)(t := None)\<rparr>"
  have r': "ring (vt_next s1) (vt_prev s1) VTLIST (timers ys)"
    using ring_pop [OF r] by (simp add: s1_def)
  have fn: "\<forall>u. vt_func s1 u \<noteq> None \<longleftrightarrow> u \<in> set (timers ys)"
    using a(3) ring_distinct [OF r] ds by (auto simp: s1_def)
  have t: "t \<noteq> VTLIST" using r by (auto simp: ring_def)
  have reset: "chVTDoResetI t s =
      (if vt_next s t = VTLIST then Inr (st_lld_stop_alarm s1)
       else
         let s = s1\<lparr>vt_delta := (vt_delta s)(vt_next s t := vt_delta s (vt_next s t) + vt_delta s t)\<rparr>;
             (now, s) = chVTGetSystemTimeX s;
             nowdelta = chTimeDiffX (lasttime s) now
         in if vt_delta s (vt_next s VTLIST) \<le> nowdelta then Inr s
            else
              let delta = vt_delta s (vt_next s VTLIST) - nowdelta;
                  delta = (if delta < CH_CFG_ST_TIMEDELTA then nowdelta + CH_CFG_ST_TIMEDELTA
                           else nowdelta + delta)
              in stSetAlarm (chTimeAddX (lasttime s) delta) s)"
    using f nx t by (simp add: chVTDoResetI_def s1_def Let_def)
  show ?thesis
  proof (cases ys)
    case Nil
    then have "chVTDoResetI t s = Inr (st_lld_stop_alarm s1)" using reset nx by simp
    moreover have "vt_ok T L [] (st_lld_stop_alarm s1)"
      using ok r' fn a(1) Nil ds by (simp add: vt_ok_def vt_abs_def alarm_ok_def st_lld_stop_alarm_def s1_def)
    ultimately show ?thesis using Nil T' by (simp add: st_lld_stop_alarm_def s1_def)
  next
    case (Cons e zs)
    then obtain u E where e: "ys = (u, E) # zs" by (cases e) auto
    have u: "u \<noteq> VTLIST" "vt_next s t = u" using r nx(2) e by (auto simp: ring_def)
    have T'': "T' = T + lag s" using T' Cons by simp
    define s2 where "s2 = s1\<lparr>vt_delta := (vt_delta s)(u := vt_delta s u + vt_delta s t)\<rparr>"
    define s3 where "s3 = (st_advance (lag s) s2)\<lparr>lags := tl (lags s)\<rparr>"
    have DE: "deadlines (vt_delta s2) L ys" "D \<le> E"
      using deadlines_merge [of "vt_delta s" L "[]" t D u E zs] a(2) ring_distinct [OF r] ds fit e
      by (auto simp: s2_def)
    have lg: "lag s2 = lag s" by (simp add: lag_def s2_def s1_def)
    have "vt_ok T' L ds ((st_advance (lag s) s)\<lparr>lags := tl (lags s)\<rparr>)"
      using vt_ok_read [OF ok] fit Cons T'' by simp
    then have b: "ST_CNT s3 = word_of_nat T'" "lasttime s3 = word_of_nat L" "L \<le> T'" "T' - L < 2 ^ 32 - 1"
      and al: "alarm_ok T' ds s3"
      using ds by (auto simp: vt_ok_def vt_abs_def alarm_ok_def s3_def s2_def s1_def st_advance_def)
    have abs: "vt_abs T' L ys s3"
      using r' fn a(1) u b DE(1) by (auto simp: vt_abs_def s3_def s2_def)
    have rd: "chVTGetSystemTimeX s2 = (word_of_nat T', s3)"
      using b by (simp add: chVTGetSystemTimeX_eq lg s3_def) (simp add: s2_def s1_def)
    have sel: "vt_next s3 VTLIST = u" "vt_func s3 = (vt_func s)(t := None)" "vt_par s3 = vt_par s"
      "lags s3 = tl (lags s)" "vtimers.more s3 = vtimers.more s" "CC1IE s3"
      using u a(4) by (simp_all add: s3_def s2_def s1_def)
    define nd where "nd = chTimeDiffX (word_of_nat L) (word_of_nat T')"
    have nd: "unat nd = T' - L" using b unat_diff_of_nat [of L T'] by (simp add: nd_def chTimeDiffX_def)
    have du: "E = L + unat (vt_delta s3 u)" using DE(1) e by (simp add: s3_def)
    have total: "T' + sum_list (tl (lags s)) = T + sum_list (lags s)" using lag_sum [of s] T'' by simp
    show ?thesis
    proof (cases "vt_delta s3 u \<le> nd")
      case True
      then have "chVTDoResetI t s = Inr s3"
        using u b by (simp add: reset s2_def [symmetric] rd sel nd_def [symmetric])
      moreover have "E \<le> T'" using True du nd b(3) by (simp add: word_le_nat_alt)
      then have "alarm_ok T' ys s3" using al DE(2) ds e by (auto simp: alarm_ok_def)
      ultimately show ?thesis using abs sel total by (simp add: vt_ok_def)
    next
      case False
      let ?m = "max 2 (E - T')"
      define delta where "delta = (if vt_delta s3 u - nd < CH_CFG_ST_TIMEDELTA then nd + CH_CFG_ST_TIMEDELTA
          else nd + (vt_delta s3 u - nd))"
      have d: "unat (vt_delta s3 u - nd) = E - T'"
        using False du nd b(3) by (simp add: word_le_nat_alt unat_sub)
      then have dw: "delta = nd + word_of_nat ?m"
      proof -
        have "word_of_nat (unat (vt_delta s3 u - nd)) = vt_delta s3 u - nd" by simp
        then show ?thesis using d
          by (auto simp: delta_def CH_CFG_ST_TIMEDELTA_def max_def word_less_nat_alt)
      qed
      have "chVTDoResetI t s = Inr (st_lld_set_alarm (chTimeAddX (word_of_nat L) delta) s3)"
        using u b False by (simp add: reset s2_def [symmetric] rd sel nd_def [symmetric] delta_def
          stSetAlarm_def st_lld_is_alarm_active_def)
      moreover have "chTimeAddX (word_of_nat L) delta - word_of_nat T' = word_of_nat ?m"
        by (simp add: chTimeAddX_def dw nd_def chTimeDiffX_def)
      moreover have "?m < 2 ^ 32" using d unat32 [of "vt_delta s3 u - nd"] by simp
      ultimately show ?thesis using abs sel total b(1) e
        by (auto simp: vt_ok_def vt_abs_def alarm_ok_def st_lld_set_alarm_def unat_of_nat)
    qed
  qed
qed

section \<open>Serving the alarm\<close>

text \<open>
  What the tick does with the timers it finds expired: it calls their callbacks in the order of the
  list. \<open>vt_calls\<close> is the list of these calls.
\<close>

definition vt_calls :: "('f, 'a) vtimers_scheme \<Rightarrow> nat list \<Rightarrow> ('f \<times> nat) list" where
  "vt_calls s ts = map (\<lambda>t. (the (vt_func s t), vt_par s t)) ts"

lemma vt_calls_simps [simp]:
  "vt_calls s [] = []" "vt_calls s (t # ts) = (the (vt_func s t), vt_par s t) # vt_calls s ts"
  "vt_calls s (ts @ us) = vt_calls s ts @ vt_calls s us"
  by (simp_all add: vt_calls_def)

lemma vt_calls_cong:
  "(\<And>t. t \<in> set ts \<Longrightarrow> vt_func s' t = vt_func s t) \<Longrightarrow> vt_par s' = vt_par s \<Longrightarrow> vt_calls s' ts = vt_calls s ts"
  by (simp add: vt_calls_def)

text \<open>The state while the tick runs: the base time is meaningful even when the list is empty.\<close>

definition vt_run :: "nat \<Rightarrow> nat \<Rightarrow> deadline_list \<Rightarrow> ('f, 'a) vtimers_scheme \<Rightarrow> bool" where
  "vt_run T L ds s \<longleftrightarrow> vt_abs T L ds s \<and> lasttime s = word_of_nat L \<and> L \<le> T \<and> T - L < 2 ^ 32 - 1 \<and>
     CC1IE s = (ds \<noteq> [])"

text \<open>The end of the tick: the base time moves to the time of the last reading, the alarm is programmed.\<close>

lemma vt_tick_end_ok:
  assumes run: "vt_run T L ds s" and later: "\<forall>e \<in> set ds. T < snd e" and lag: "\<forall>n \<in> set (lags s). n \<le> 2"
  shows "\<exists>s' T' L'. vt_tick_end (word_of_nat T) (word_of_nat (T - L)) (hd (timers ds @ [VTLIST])) s = Inr s' \<and>
    vt_ok T' L' ds s' \<and> (ds \<noteq> [] \<longrightarrow> L' = T) \<and> T \<le> T' \<and>
    T' + sum_list (lags s') = T + sum_list (lags s) \<and> vt_func s' = vt_func s \<and> vt_par s' = vt_par s \<and> vtimers.more s' = vtimers.more s"
proof (cases ds)
  case Nil
  then have "vt_next s VTLIST = VTLIST" "vt_ok T L [] s"
    using run by (auto simp: vt_run_def vt_abs_def vt_ok_def alarm_ok_def)
  then show ?thesis using Nil by (auto simp: vt_tick_end_def)
next
  case (Cons e es)
  obtain t D where e: "e = (t, D)" by force
  have r: "ring (vt_next s) (vt_prev s) VTLIST (t # timers es)" and
    a: "vt_delta s VTLIST = -1" "D = L + unat (vt_delta s t)" "deadlines (vt_delta s) D es"
      "\<forall>u. vt_func s u \<noteq> None \<longleftrightarrow> u \<in> set (t # timers es)" "ST_CNT s = word_of_nat T"
      "lasttime s = word_of_nat L" "L \<le> T" "T - L < 2 ^ 32 - 1" "CC1IE s" "T < D"
    using run Cons e later by (auto simp: vt_run_def vt_abs_def)
  have t: "vt_next s VTLIST = t" "t \<noteq> VTLIST" "t \<notin> set (timers es)" "VTLIST \<notin> set (timers es)"
    using r ring_next [OF r] by (auto simp: ring_def)
  let ?m = "max 2 (D - T)"
  define s1 where "s1 = s\<lparr>lasttime := word_of_nat T, vt_delta := (vt_delta s)(t := word_of_nat (D - T)),
      ST_CCR := word_of_nat T + word_of_nat ?m\<rparr>"
  define s2 where "s2 = (st_advance (lag s) s1)\<lparr>lags := tl (lags s)\<rparr>"
  have d32: "D - T < 2 ^ 32" using a(2,7) unat32 [of "vt_delta s t"] by simp
  have w: "vt_delta s t - word_of_nat (T - L) = word_of_nat (D - T)"
  proof -
    have "vt_delta s t = word_of_nat (D - L)" using a(2) by simp
    moreover have "D - L - (T - L) = D - T" "T - L \<le> D - L" using a by auto
    ultimately show ?thesis by (metis of_nat_diff)
  qed
  have lt: "word_of_nat L + word_of_nat (T - L) = (word_of_nat T :: 32 word)" using a(7) by simp
  have m: "(if word_of_nat (D - T) < CH_CFG_ST_TIMEDELTA then CH_CFG_ST_TIMEDELTA else word_of_nat (D - T)) = word_of_nat ?m"
    using d32 by (auto simp: CH_CFG_ST_TIMEDELTA_def word_less_nat_alt unat_of_nat max_def simp del: of_nat_diff)
  have lg: "lag s \<le> 2" using lag by (cases "lags s") (auto simp: lag_def)
  have rd: "chVTGetSystemTimeX s1 = (word_of_nat T + word_of_nat (lag s), s2)"
    using a(5) by (simp add: chVTGetSystemTimeX_eq lag_def s2_def s1_def)
  have lt2: "lasttime s2 = word_of_nat T" by (simp add: s2_def s1_def)
  have um: "unat (word_of_nat ?m :: 32 word) = ?m" "unat (word_of_nat (lag s) :: 32 word) = lag s"
    using d32 lg by (simp_all add: unat_of_nat max_def del: of_nat_diff)
  have "word_of_nat (lag s) \<le> (word_of_nat ?m :: 32 word)"
    using lg um by (simp add: word_le_nat_alt del: of_nat_max)
  moreover have "vt_tick_end (word_of_nat T) (word_of_nat (T - L)) (hd (timers ds @ [VTLIST])) s =
      (case chVTGetSystemTimeX s1 of (now', z) \<Rightarrow> dbgAssert ''exceeding delta''
        (now' - lasttime z \<le> word_of_nat T + word_of_nat ?m - lasttime z) (Inr z))"
    using t a(5,6,9) Cons e m
    by (simp add: vt_tick_end_def w lt stSetAlarm_def st_lld_is_alarm_active_def st_lld_set_alarm_def
      chTimeDiffX_def chTimeAddX_def Let_def s1_def del: of_nat_diff of_nat_max split del: if_split cong: if_cong)
  ultimately have "vt_tick_end (word_of_nat T) (word_of_nat (T - L)) (hd (timers ds @ [VTLIST])) s = Inr s2"
    using lt2 by (simp add: rd del: of_nat_diff of_nat_max)
  moreover have "vt_ok T T ds s1"
  proof -
    have "deadlines (vt_delta s1) T ds"
    proof -
      have "deadlines (vt_delta s1) D es = deadlines (vt_delta s) D es"
        by (rule deadlines_cong) (use t(3) in \<open>auto simp: s1_def\<close>)
      then show ?thesis using Cons e a(3,10) d32 by (simp add: s1_def unat_of_nat del: of_nat_diff)
    qed
    moreover have "ST_CCR s1 - ST_CNT s1 = word_of_nat ?m" using a(5) by (simp add: s1_def)
    ultimately show ?thesis using r a(1,4,5,9) t um(1) Cons e
      by (simp add: vt_ok_def vt_abs_def alarm_ok_def s1_def less_max_iff_disj del: of_nat_max of_nat_diff)
  qed
  then have "vt_ok (T + lag s) T ds s2"
    using vt_ok_read [of T T ds s1] lg by (simp add: s2_def s1_def lag_def)
  moreover have "T + lag s + sum_list (lags s2) = T + sum_list (lags s)"
    using lag_sum [of s] by (simp add: s2_def)
  ultimately show ?thesis
    by (intro exI [of _ s2] exI [of _ "T + lag s"] exI [of _ T]) (simp add: s2_def s1_def)
qed

locale vt_callbacks =
  fixes cb :: "'f \<Rightarrow> nat \<Rightarrow> ('f, 'a) vtimers_scheme \<Rightarrow> ('f, 'a) vtimers_scheme diverge"
    and eff :: "'f \<Rightarrow> nat \<Rightarrow> 'a \<Rightarrow> 'a"
    and pending :: "('f \<times> nat) list \<Rightarrow> 'a \<Rightarrow> bool"
  assumes cb_eff: "pending ((f, p) # fs) (vtimers.more s) \<Longrightarrow>
      cb f p s = Some (Inr (vtimers.more_update (eff f p) s))"
    and pending_step: "pending ((f, p) # fs) x \<Longrightarrow> pending fs (eff f p x)"
begin

abbreviation calls :: "('f \<times> nat) list \<Rightarrow> 'a \<Rightarrow> 'a" where
  "calls fs x \<equiv> fold (\<lambda>(f, p). eff f p) fs x"

text \<open>One turn of the inner loop.\<close>

lemma vt_consume_step:
  assumes run: "vt_run T L ((t, D) # es) s" and D: "D \<le> T"
    and pend: "pending (vt_calls s (t # timers es)) (vtimers.more s)"
  shows "\<exists>s'. vt_consume cb (word_of_nat (T - L)) t s =
      (if vt_delta s' (hd (timers es @ [VTLIST])) \<le> word_of_nat (T - D)
       then vt_consume cb (word_of_nat (T - D)) (hd (timers es @ [VTLIST])) s'
       else Some (Inr (hd (timers es @ [VTLIST]), word_of_nat (T - D), s'))) \<and>
    vt_run T D es s' \<and> vt_func s' = (vt_func s)(t := None) \<and> vt_par s' = vt_par s \<and> lags s' = lags s \<and>
    vtimers.more s' = eff (the (vt_func s t)) (vt_par s t) (vtimers.more s)"
proof -
  have r: "ring (vt_next s) (vt_prev s) VTLIST (t # timers es)" and
    a: "vt_delta s VTLIST = -1" "D = L + unat (vt_delta s t)" "deadlines (vt_delta s) D es"
      "\<forall>u. vt_func s u \<noteq> None \<longleftrightarrow> u \<in> set (t # timers es)" "ST_CNT s = word_of_nat T"
      "lasttime s = word_of_nat L" "L \<le> T" "T - L < 2 ^ 32 - 1" "CC1IE s"
    using run by (auto simp: vt_run_def vt_abs_def)
  have nx: "vt_next s t = hd (timers es @ [VTLIST])" using ring_mid [of _ _ _ "[]"] r by auto
  obtain f where f: "vt_func s t = Some f" using a(4) by force
  define s0 where "s0 = s\<lparr>lasttime := lasttime s + vt_delta s t, vt_prev := (vt_prev s)(vt_next s t := VTLIST),
    vt_next := (vt_next s)(VTLIST := vt_next s t), vt_func := (vt_func s)(t := None)\<rparr>"
  define s1 where "s1 = (if vt_next s t = VTLIST then st_lld_stop_alarm s0 else s0)"
  define s2 where "s2 = vtimers.more_update (eff f (vt_par s t)) s1"
  have t: "t \<noteq> VTLIST" "VTLIST \<notin> set (timers es)" using r by (auto simp: ring_def)
  have "es = [] \<longleftrightarrow> vt_next s t = VTLIST" using nx t(2) by (cases es) auto
  then have ie: "CC1IE s1 = (es \<noteq> [])"
    using a(9) by (simp add: s1_def s0_def st_lld_stop_alarm_def)
  have sel: "vt_next s1 = (vt_next s)(VTLIST := vt_next s t)" "vt_prev s1 = (vt_prev s)(vt_next s t := VTLIST)"
    "vt_func s1 = (vt_func s)(t := None)" "vt_delta s1 = vt_delta s" "vt_par s1 = vt_par s"
    "lasttime s1 = lasttime s + vt_delta s t" "ST_CNT s1 = ST_CNT s" "lags s1 = lags s"
    "vtimers.more s1 = vtimers.more s"
    by (simp_all add: s1_def s0_def st_lld_stop_alarm_def)
  have call: "cb f (vt_par s t) s1 = Some (Inr s2)"
    using cb_eff [of f "vt_par s t" _ s1] pend f by (simp add: s2_def sel)
  have w: "word_of_nat (T - L) - vt_delta s t = word_of_nat (T - D)"
  proof -
    have "vt_delta s t = word_of_nat (D - L)" using a(2) by simp
    moreover have "T - L - (D - L) = T - D" "D - L \<le> T - L" using a(2) D by auto
    ultimately show ?thesis by (metis of_nat_diff)
  qed
  have "vt_consume cb (word_of_nat (T - L)) t s = bindP (bindP (Some (deref ''fn'' (Some f))) (\<lambda>f. cb f (vt_par s t) s1))
           (\<lambda>z. let vtp = vt_next z VTLIST in
                 if vt_delta z vtp \<le> word_of_nat (T - L) - vt_delta s t
                 then vt_consume cb (word_of_nat (T - L) - vt_delta s t) vtp z
                 else Some (Inr (vtp, word_of_nat (T - L) - vt_delta s t, z)))"
    using t f by (subst vt_consume.simps) (simp add: Let_def s1_def s0_def st_lld_stop_alarm_def cong: if_cong)
  moreover have "vt_next s2 VTLIST = hd (timers es @ [VTLIST])" using nx by (simp add: s2_def sel)
  moreover have "vt_run T D es s2"
  proof -
    have "ring (vt_next s2) (vt_prev s2) VTLIST (timers es)" using ring_pop [OF r] by (simp add: s2_def sel)
    moreover have "\<forall>u. vt_func s2 u \<noteq> None \<longleftrightarrow> u \<in> set (timers es)"
      using a(4) ring_distinct [OF r] by (auto simp: s2_def sel)
    moreover have "lasttime s2 = word_of_nat D" using a(2,6) by (simp add: s2_def sel)
    ultimately show ?thesis using a D by (auto simp: vt_run_def vt_abs_def s2_def sel ie)
  qed
  ultimately show ?thesis using call f w
    by (intro exI [of _ s2]) (simp add: s2_def sel)
qed

lemma vt_calls_after:
  assumes "t \<notin> set ts" "vt_func s' = (vt_func s)(t := None)" "vt_par s' = vt_par s"
  shows "vt_calls s' ts = vt_calls s ts"
  using assms by (intro vt_calls_cong) auto

lemma vt_run_stop:
  assumes "vt_run T L ds s"
  shows "vt_delta s (hd (timers ds @ [VTLIST])) \<le> word_of_nat (T - L) \<longleftrightarrow> ds \<noteq> [] \<and> snd (hd ds) \<le> T"
proof -
  have b: "L \<le> T" "T - L < 2 ^ 32 - 1" using assms by (simp_all add: vt_run_def)
  have u: "unat (word_of_nat (T - L) :: 32 word) = T - L"
    using b(2) by (simp add: unat_of_nat del: of_nat_diff)
  show ?thesis
  proof (cases ds)
    case Nil
    have "unat (-1 :: 32 word) = 2 ^ 32 - 1" by (simp add: unsigned_minus_1_eq_mask mask_eq_exp_minus_1)
    then show ?thesis using Nil assms b u
      by (simp add: vt_run_def vt_abs_def word_le_nat_alt del: of_nat_diff)
  next
    case (Cons e es)
    then have "snd e = L + unat (vt_delta s (fst e))"
      using assms by (cases e) (auto simp: vt_run_def vt_abs_def)
    then show ?thesis using Cons b u by (auto simp: word_le_nat_alt simp del: of_nat_diff)
  qed
qed

lemma vt_run_sorted: "vt_run T L ds s \<Longrightarrow> sorted (map snd ds)"
  by (cases "ds = []") (auto simp: vt_run_def vt_abs_def dest: deadlines_sorted)

lemma vt_run_distinct: "vt_run T L ds s \<Longrightarrow> distinct (timers ds)"
  by (auto simp: vt_run_def vt_abs_def dest: ring_distinct)

text \<open>The inner loop takes off exactly the timers whose deadline has come.\<close>

lemma vt_consume_all:
  assumes "vt_run T L ds s" "ds \<noteq> []" "snd (hd ds) \<le> T" "pending (vt_calls s (timers ds)) (vtimers.more s)"
  shows "\<exists>s' L'. vt_consume cb (word_of_nat (T - L)) (hd (timers ds @ [VTLIST])) s =
      Some (Inr (hd (timers (dropWhile (\<lambda>e. snd e \<le> T) ds) @ [VTLIST]), word_of_nat (T - L'), s')) \<and>
    L \<le> L' \<and> vt_run T L' (dropWhile (\<lambda>e. snd e \<le> T) ds) s' \<and>
    vt_func s' = (\<lambda>t. if t \<in> set (timers (takeWhile (\<lambda>e. snd e \<le> T) ds)) then None else vt_func s t) \<and>
    vt_par s' = vt_par s \<and> lags s' = lags s \<and>
    pending (vt_calls s (timers (dropWhile (\<lambda>e. snd e \<le> T) ds))) (vtimers.more s') \<and>
    vtimers.more s' = calls (vt_calls s (timers (takeWhile (\<lambda>e. snd e \<le> T) ds))) (vtimers.more s)"
  using assms
proof (induction ds arbitrary: L s)
  case (Cons e es)
  obtain t D where e: "e = (t, D)" by force
  have run: "vt_run T L ((t, D) # es) s" and D: "D \<le> T"
    and pend: "pending (vt_calls s (t # timers es)) (vtimers.more s)"
    using Cons.prems e by auto
  obtain s1 where s1: "vt_consume cb (word_of_nat (T - L)) t s =
      (if vt_delta s1 (hd (timers es @ [VTLIST])) \<le> word_of_nat (T - D)
       then vt_consume cb (word_of_nat (T - D)) (hd (timers es @ [VTLIST])) s1
       else Some (Inr (hd (timers es @ [VTLIST]), word_of_nat (T - D), s1)))"
    "vt_run T D es s1" "vt_func s1 = (vt_func s)(t := None)" "vt_par s1 = vt_par s" "lags s1 = lags s"
    "vtimers.more s1 = eff (the (vt_func s t)) (vt_par s t) (vtimers.more s)"
    using vt_consume_step [OF run D pend] by blast
  have LD: "L \<le> D" using run by (auto simp: vt_run_def vt_abs_def)
  have t: "t \<notin> set (timers es)" using vt_run_distinct [OF run] by simp
  have calls: "vt_calls s1 ts = vt_calls s ts" if "set ts \<subseteq> set (timers es)" for ts
    using t that s1(3,4) by (intro vt_calls_after [of t]) auto
  have pend1: "pending (vt_calls s (timers es)) (vtimers.more s1)"
    using pending_step [of _ _ "vt_calls s (timers es)"] pend s1(6) by simp
  show ?case
  proof (cases "es \<noteq> [] \<and> snd (hd es) \<le> T")
    case True
    then have go: "vt_consume cb (word_of_nat (T - L)) t s =
        vt_consume cb (word_of_nat (T - D)) (hd (timers es @ [VTLIST])) s1"
      using s1(1) vt_run_stop [OF s1(2)] by simp
    have sub: "set (timers (takeWhile (\<lambda>e. snd e \<le> T) es)) \<subseteq> set (timers es)"
      "set (timers (dropWhile (\<lambda>e. snd e \<le> T) es)) \<subseteq> set (timers es)"
      by (auto dest: set_takeWhileD set_dropWhileD)
    have "pending (vt_calls s1 (timers es)) (vtimers.more s1)" using pend1 calls [of "timers es"] by simp
    from Cons.IH [OF s1(2) _ _ this] True obtain s' L' where IH:
      "vt_consume cb (word_of_nat (T - D)) (hd (timers es @ [VTLIST])) s1 =
        Some (Inr (hd (timers (dropWhile (\<lambda>e. snd e \<le> T) es) @ [VTLIST]), word_of_nat (T - L'), s'))"
      "D \<le> L'" "vt_run T L' (dropWhile (\<lambda>e. snd e \<le> T) es) s'"
      "vt_func s' = (\<lambda>t. if t \<in> set (timers (takeWhile (\<lambda>e. snd e \<le> T) es)) then None else vt_func s1 t)"
      "vt_par s' = vt_par s1" "lags s' = lags s1"
      "pending (vt_calls s1 (timers (dropWhile (\<lambda>e. snd e \<le> T) es))) (vtimers.more s')"
      "vtimers.more s' = calls (vt_calls s1 (timers (takeWhile (\<lambda>e. snd e \<le> T) es))) (vtimers.more s1)"
      by blast
    show ?thesis
      using IH go s1(3-6) e D LD t calls [OF sub(1)] calls [OF sub(2)]
      by (intro exI [of _ s'] exI [of _ L']) (auto simp: fun_eq_iff)
  next
    case False
    then have "vt_consume cb (word_of_nat (T - L)) t s =
        Some (Inr (hd (timers es @ [VTLIST]), word_of_nat (T - D), s1))"
      by (simp only: s1(1) vt_run_stop [OF s1(2)] False if_False)
    moreover have "takeWhile (\<lambda>e. snd e \<le> T) es = []" "dropWhile (\<lambda>e. snd e \<le> T) es = es"
      using False by (cases es; auto)+
    ultimately show ?thesis
      using s1(2-6) e D LD pend1
      by (intro exI [of _ s1] exI [of _ D]) (auto simp: fun_eq_iff)
  qed
qed simp

lemma vt_run_read:
  assumes "vt_run T L ds s" "T + lag s - L < 2 ^ 32 - 1"
  shows "vt_run (T + lag s) L ds ((st_advance (lag s) s)\<lparr>lags := tl (lags s)\<rparr>)"
  using assms vt_abs_advance [of T L ds s "lag s"] by (simp add: vt_run_def)

text \<open>
  The outer loop: it ends with a reading of the time at which no timer of the list has expired. The
  timers expired at that time have been called, in order.
\<close>

lemma vt_tick_loop_all:
  assumes "vt_run T L ds s" "pending (vt_calls s (timers ds)) (vtimers.more s)"
    "T + sum_list (lags s) - L < 2 ^ 32 - 1"
  shows "\<exists>Tn L' fired rest s'. ds = fired @ rest \<and> (\<forall>e \<in> set fired. snd e \<le> Tn) \<and> (\<forall>e \<in> set rest. Tn < snd e) \<and>
    T \<le> Tn \<and> vt_tick_loop cb (hd (timers ds @ [VTLIST])) s =
      Some (Inr (word_of_nat Tn, word_of_nat (Tn - L'), hd (timers rest @ [VTLIST]), s')) \<and>
    vt_run Tn L' rest s' \<and> Tn + sum_list (lags s') = T + sum_list (lags s) \<and> set (lags s') \<subseteq> set (lags s) \<and>
    vt_func s' = (\<lambda>t. if t \<in> set (timers fired) then None else vt_func s t) \<and> vt_par s' = vt_par s \<and>
    vtimers.more s' = calls (vt_calls s (timers fired)) (vtimers.more s)"
  using assms
proof (induction "length ds" arbitrary: T L ds s rule: less_induct)
  case less
  define s1 where "s1 = (st_advance (lag s) s)\<lparr>lags := tl (lags s)\<rparr>"
  define T1 where "T1 = T + lag s"
  have run1: "vt_run T1 L ds s1"
    using vt_run_read [OF less.prems(1)] less.prems(3) lag_le [of s] by (simp add: s1_def T1_def)
  have s1: "vt_func s1 = vt_func s" "vt_par s1 = vt_par s" "vtimers.more s1 = vtimers.more s"
    "lags s1 = tl (lags s)" "vt_delta s1 = vt_delta s"
    by (simp_all add: s1_def)
  have T1: "T1 + sum_list (lags s1) = T + sum_list (lags s)" using lag_sum [of s] by (simp add: T1_def s1)
  have sub: "set (lags s1) \<subseteq> set (lags s)" using s1(4) by (cases "lags s") auto
  have rd: "chVTGetSystemTimeX s = (word_of_nat T1, s1)" and "lasttime s1 = word_of_nat L" "L \<le> T1"
    using run1 less.prems(1) by (auto simp: chVTGetSystemTimeX_eq vt_run_def vt_abs_def s1_def T1_def)
  then have nd: "chTimeDiffX (lasttime s1) (word_of_nat T1) = word_of_nat (T1 - L)"
    by (simp add: chTimeDiffX_def)
  have loop: "vt_tick_loop cb (hd (timers ds @ [VTLIST])) s =
      (if ds \<noteq> [] \<and> snd (hd ds) \<le> T1 then
         bindP (vt_consume cb (word_of_nat (T1 - L)) (hd (timers ds @ [VTLIST])) s1)
           (\<lambda>(vtp, nowdelta, s). vt_tick_loop cb vtp s)
       else Some (Inr (word_of_nat T1, word_of_nat (T1 - L), hd (timers ds @ [VTLIST]), s1)))"
    using vt_run_stop [OF run1]
    by (subst vt_tick_loop.simps) (auto simp: rd nd not_less [symmetric] simp del: of_nat_diff)
  show ?case
  proof (cases "ds \<noteq> [] \<and> snd (hd ds) \<le> T1")
    case False
    then have "vt_tick_loop cb (hd (timers ds @ [VTLIST])) s =
        Some (Inr (word_of_nat T1, word_of_nat (T1 - L), hd (timers ds @ [VTLIST]), s1))"
      by (simp only: loop False if_False)
    moreover have "\<forall>e \<in> set ds. T1 < snd e"
      using False vt_run_sorted [OF run1] by (cases ds) auto
    ultimately show ?thesis
      using run1 s1 T1 sub by (intro exI [of _ T1] exI [of _ L] exI [of _ "[]"] exI [of _ ds] exI [of _ s1])
        (auto simp: T1_def)
  next
    case True
    let ?dr = "dropWhile (\<lambda>e. snd e \<le> T1) ds" and ?tk = "takeWhile (\<lambda>e. snd e \<le> T1) ds"
    have pend: "pending (vt_calls s1 (timers ds)) (vtimers.more s1)"
      using less.prems(2) s1 vt_calls_cong [of "timers ds" s1 s] by simp
    obtain s2 L2 where c: "vt_consume cb (word_of_nat (T1 - L)) (hd (timers ds @ [VTLIST])) s1 =
        Some (Inr (hd (timers ?dr @ [VTLIST]), word_of_nat (T1 - L2), s2))" "L \<le> L2" "vt_run T1 L2 ?dr s2"
      "vt_func s2 = (\<lambda>t. if t \<in> set (timers ?tk) then None else vt_func s1 t)"
      "vt_par s2 = vt_par s1" "lags s2 = lags s1" "pending (vt_calls s1 (timers ?dr)) (vtimers.more s2)"
      "vtimers.more s2 = calls (vt_calls s1 (timers ?tk)) (vtimers.more s1)"
      using vt_consume_all [OF run1 _ _ pend] True by blast
    have dj: "set (timers ?tk) \<inter> set (timers ?dr) = {}"
      using vt_run_distinct [OF run1] by (metis distinct_append map_append takeWhile_dropWhile_id)
    have calls2: "vt_calls s2 ts = vt_calls s1 ts" if "set ts \<subseteq> set (timers ?dr)" for ts
      using that dj c(4,5) by (intro vt_calls_cong) auto
    have calls1: "vt_calls s1 ts = vt_calls s ts" for ts
      using s1 by (intro vt_calls_cong) auto
    have len: "length ?dr < length ds" using True by (cases ds) (auto simp: le_imp_less_Suc length_dropWhile_le)
    have "pending (vt_calls s2 (timers ?dr)) (vtimers.more s2)" using c(7) calls2 [of "timers ?dr"] by simp
    moreover have "T1 + sum_list (lags s2) - L2 < 2 ^ 32 - 1"
      using less.prems(3) T1 c(2,6) by simp
    ultimately obtain Tn L' fired rest s' where IH:
      "?dr = fired @ rest" "\<forall>e \<in> set fired. snd e \<le> Tn" "\<forall>e \<in> set rest. Tn < snd e" "T1 \<le> Tn"
      "vt_tick_loop cb (hd (timers ?dr @ [VTLIST])) s2 =
        Some (Inr (word_of_nat Tn, word_of_nat (Tn - L'), hd (timers rest @ [VTLIST]), s'))"
      "vt_run Tn L' rest s'" "Tn + sum_list (lags s') = T1 + sum_list (lags s2)" "set (lags s') \<subseteq> set (lags s2)"
      "vt_func s' = (\<lambda>t. if t \<in> set (timers fired) then None else vt_func s2 t)" "vt_par s' = vt_par s2"
      "vtimers.more s' = calls (vt_calls s2 (timers fired)) (vtimers.more s2)"
      using less.hyps [OF len c(3)] by blast
    have cf: "vt_calls s2 (timers fired) = vt_calls s (timers fired)"
      using calls2 [of "timers fired"] calls1 IH(1) by simp
    have "vt_tick_loop cb (hd (timers ds @ [VTLIST])) s =
        Some (Inr (word_of_nat Tn, word_of_nat (Tn - L'), hd (timers rest @ [VTLIST]), s'))"
      using True IH(5) by (simp only: loop c(1) if_True bindP_simps prod.case simp_thms)
    moreover have "ds = (?tk @ fired) @ rest" using IH(1) takeWhile_dropWhile_id [of "\<lambda>e. snd e \<le> T1" ds] by simp
    moreover have "\<forall>e \<in> set (?tk @ fired). snd e \<le> Tn" using IH(2,4) by (auto dest: set_takeWhileD)
    moreover have "vtimers.more s' = calls (vt_calls s (timers (?tk @ fired))) (vtimers.more s)"
      using IH(11) cf c(8) s1(3) calls1 by simp
    moreover have "vt_func s' = (\<lambda>t. if t \<in> set (timers (?tk @ fired)) then None else vt_func s t)"
      using IH(9) c(4) s1(1) by (auto simp: fun_eq_iff)
    ultimately show ?thesis
      using IH(3,4,6-8,10) c(5,6) s1(2) T1 sub
      by (intro exI [of _ Tn] exI [of _ L'] exI [of _ "?tk @ fired"] exI [of _ rest] exI [of _ s'])
        (simp add: T1_def)
  qed
qed

text \<open>
  The whole tick on a list with timers: the expired timers have been called, in order of
  their deadlines, the others stay with their deadlines, and the alarm is in time for the next one.
\<close>

lemma chVTDoTickI_ok:
  assumes abs: "vt_abs T L ds s" "ds \<noteq> []" "CC1IE s" and pend: "pending (vt_calls s (timers ds)) (vtimers.more s)"
    and time: "T + sum_list (lags s) - L < 2 ^ 32 - 1" "\<forall>n \<in> set (lags s). n \<le> 2"
  shows "\<exists>Tn T' L' fired rest s'. chVTDoTickI cb s = Some (Inr s') \<and> ds = fired @ rest \<and>
    (\<forall>e \<in> set fired. snd e \<le> Tn) \<and> (\<forall>e \<in> set rest. Tn < snd e) \<and> T \<le> Tn \<and> Tn \<le> T' \<and>
    vt_ok T' L' rest s' \<and> (rest \<noteq> [] \<longrightarrow> L' = Tn) \<and> T' + sum_list (lags s') = T + sum_list (lags s) \<and>
    vt_func s' = (\<lambda>t. if t \<in> set (timers fired) then None else vt_func s t) \<and> vt_par s' = vt_par s \<and>
    vtimers.more s' = calls (vt_calls s (timers fired)) (vtimers.more s)"
proof -
  have run: "vt_run T L ds s" using abs by (simp add: vt_run_def vt_abs_def)
  have h: "vt_next s VTLIST = hd (timers ds @ [VTLIST])"
    using abs(1) by (auto simp: vt_abs_def dest: ring_next)
  obtain Tn L' fired rest s1 where l: "ds = fired @ rest" "\<forall>e \<in> set fired. snd e \<le> Tn" "\<forall>e \<in> set rest. Tn < snd e"
    "T \<le> Tn" "vt_tick_loop cb (hd (timers ds @ [VTLIST])) s =
      Some (Inr (word_of_nat Tn, word_of_nat (Tn - L'), hd (timers rest @ [VTLIST]), s1))"
    "vt_run Tn L' rest s1" "Tn + sum_list (lags s1) = T + sum_list (lags s)" "set (lags s1) \<subseteq> set (lags s)"
    "vt_func s1 = (\<lambda>t. if t \<in> set (timers fired) then None else vt_func s t)" "vt_par s1 = vt_par s"
    "vtimers.more s1 = calls (vt_calls s (timers fired)) (vtimers.more s)"
    using vt_tick_loop_all [OF run pend time(1)] by blast
  obtain s' T' L'' where e: "vt_tick_end (word_of_nat Tn) (word_of_nat (Tn - L')) (hd (timers rest @ [VTLIST])) s1 = Inr s'"
    "vt_ok T' L'' rest s'" "rest \<noteq> [] \<longrightarrow> L'' = Tn" "Tn \<le> T'" "T' + sum_list (lags s') = Tn + sum_list (lags s1)"
    "vt_func s' = vt_func s1" "vt_par s' = vt_par s1" "vtimers.more s' = vtimers.more s1"
    using vt_tick_end_ok [OF l(6,3)] time(2) l(8) by blast
  have "chVTDoTickI cb s = Some (Inr s')"
    by (simp add: chVTDoTickI_def h l(5) e(1) del: of_nat_diff)
  then show ?thesis using l e
    by (intro exI [of _ Tn] exI [of _ T'] exI [of _ L''] exI [of _ fired] exI [of _ rest] exI [of _ s']) simp
qed

text \<open>On an empty list nothing happens, unless the time slice is the delta of the header.\<close>

lemma chVTDoTickI_empty:
  assumes "vt_abs T L [] s" "ST_CNT s + word_of_nat (lag s) - lasttime s \<noteq> -1"
  shows "chVTDoTickI cb s = Some (Inr ((st_advance (lag s) s)\<lparr>lags := tl (lags s)\<rparr>))"
proof -
  have n: "vt_next s VTLIST = VTLIST" "vt_delta s VTLIST = -1" using assms(1) by (auto simp: vt_abs_def)
  have "ST_CNT s + word_of_nat (lag s) - lasttime s < -1"
    using assms(2) by (simp add: order.not_eq_order_implies_strict)
  then show ?thesis using n
    by (simp add: chVTDoTickI_def vt_tick_loop.simps [of cb VTLIST s] chVTGetSystemTimeX_eq chTimeDiffX_def
      vt_tick_end_def)
qed

end

end
