(* ===== verification/VTimersSpec.thy ===== *)
theory VTimersSpec
  imports VTimersTick
begin

text \<open>
  The contract of the virtual timers for delays below \<open>2 ^ 31\<close> ticks: one invariant that setting,
  resetting and serving the alarm keep, and what each of them does to the list of deadlines.
\<close>

declare One_nat_def [simp del]

definition vt_good :: "nat \<Rightarrow> nat \<Rightarrow> deadline_list \<Rightarrow> ('f, 'a) vtimers_scheme \<Rightarrow> bool" where
  "vt_good T L ds s \<longleftrightarrow> vt_ok T L ds s \<and> (\<forall>e \<in> set ds. snd e \<le> T + 2 ^ 31) \<and>
     sum_list (lags s) < 2 ^ 31 \<and> (ds \<noteq> [] \<longrightarrow> T + sum_list (lags s) - L < 2 ^ 31)"

definition vt_del :: "nat \<Rightarrow> deadline_list \<Rightarrow> deadline_list" where
  "vt_del t ds = filter (\<lambda>e. fst e \<noteq> t) ds"

lemma vt_good_sorted: "vt_good T L ds s \<Longrightarrow> sorted (map snd ds)"
  by (cases "ds = []") (auto simp: vt_good_def vt_ok_def vt_abs_def dest: deadlines_sorted)

lemma vt_good_distinct: "vt_good T L ds s \<Longrightarrow> distinct (timers ds)"
  by (auto simp: vt_good_def vt_ok_def vt_abs_def dest: ring_distinct)

lemma vt_good_armed: "vt_good T L ds s \<Longrightarrow> chVTIsArmedI t s \<longleftrightarrow> t \<in> set (timers ds)"
  by (simp add: vt_good_def vt_ok_def vt_abs_def chVTIsArmedI_def)

lemma vt_good_header: "vt_good T L ds s \<Longrightarrow> VTLIST \<notin> set (timers ds)"
  by (auto simp: vt_good_def vt_ok_def vt_abs_def simp del: set_map dest: ring_header)

lemma vt_good_more [simp]: "vt_good T L ds (vtimers.more_update f s) = vt_good T L ds s"
  by (simp add: vt_good_def vt_ok_def vt_abs_def alarm_ok_def)

lemma vt_set_good:
  assumes good: "vt_good T L ds s" and t: "vtp \<noteq> VTLIST" "vtp \<notin> set (timers ds)"
    and dl: "delay \<noteq> 0" "unat delay < 2 ^ 31"
  shows "\<exists>s' T' L'. chVTDoSetI (Some vtp) delay (Some f) par s = Some (Inr s') \<and> T \<le> T' \<and>
    T' + sum_list (lags s') = T + sum_list (lags s) \<and>
    vt_good T' L' (vt_ins vtp (T' + max 2 (unat delay)) ds) s' \<and>
    vt_func s' = (vt_func s)(vtp := Some f) \<and> vt_par s' = (vt_par s)(vtp := par) \<and> vtimers.more s' = vtimers.more s"
proof -
  let ?T = "T + lag s"
  let ?X = "?T + max 2 (unat delay)"
  have L: "ds \<noteq> [] \<Longrightarrow> L \<le> T \<and> L \<le> snd (hd ds) \<and> ?T - L < 2 ^ 31"
    using good lag_le [of s] deadlines_sorted [of "vt_delta s" L ds]
    by (auto simp: vt_good_def vt_ok_def vt_abs_def)
  have room: "ds \<noteq> [] \<Longrightarrow> ?T - L < 2 ^ 32 - 1 \<and> ?X < 2 ^ 32 + snd (hd ds)"
    using L dl(2) by (simp split: split_max) linarith
  have ok: "vt_ok T L ds s" using good by (simp add: vt_good_def)
  obtain s' where s': "chVTDoSetI (Some vtp) delay (Some f) par s = Some (Inr s')"
    "vt_ok ?T (if ds = [] then ?T else L) (vt_ins vtp ?X ds) s'" "vt_func s' = (vt_func s)(vtp := Some f)"
    "vt_par s' = (vt_par s)(vtp := par)" "lags s' = tl (lags s)" "vtimers.more s' = vtimers.more s"
    using chVTDoSetI_ok [OF ok t dl(1) refl refl room] by blast
  have lg: "?T + sum_list (lags s') = T + sum_list (lags s)" using lag_sum [of s] s'(5) by simp
  have "max 2 (unat delay) \<le> 2 ^ 31" using dl(2) by (simp add: max_def)
  then have "vt_good ?T (if ds = [] then ?T else L) (vt_ins vtp ?X ds) s'"
    using s'(2) good lg L by (auto simp: vt_good_def)
  with s' lg show ?thesis by - (rule exI [of _ s'], rule exI [of _ ?T], rule exI [of _ "if ds = [] then ?T else L"], simp)
qed

lemma vt_del_split: "distinct (timers (xs @ (t, D) # ys)) \<Longrightarrow> vt_del t (xs @ (t, D) # ys) = xs @ ys"
  unfolding vt_del_def filter_append filter.simps
  by (subst (1 2) filter_True) (auto simp: image_iff)

lemma vt_reset_good:
  assumes good: "vt_good T L ds s" and t: "t \<in> set (timers ds)"
  shows "\<exists>s' T'. chVTDoResetI t s = Inr s' \<and> T \<le> T' \<and> T' + sum_list (lags s') = T + sum_list (lags s) \<and>
    vt_good T' L (vt_del t ds) s' \<and> vt_func s' = (vt_func s)(t := None) \<and> vt_par s' = vt_par s \<and>
    vtimers.more s' = vtimers.more s"
proof -
  have "t \<in> fst ` set ds" using t by simp
  then obtain D where "(t, D) \<in> set ds" by (metis (no_types) imageE prod.collapse)
  then obtain xs ys where ds: "ds = xs @ (t, D) # ys" by (meson split_list)
  have ok: "vt_ok T L ds s" and d: "deadlines (vt_delta s) L ds" and L: "L \<le> T" "T + sum_list (lags s) - L < 2 ^ 31"
    using good ds by (auto simp: vt_good_def vt_ok_def vt_abs_def)
  have del: "vt_del t ds = xs @ ys" using vt_good_distinct [OF good] ds by (simp add: vt_del_split)
  have fit: "snd e < L + 2 ^ 32" if "e \<in> set ds" for e
  proof -
    have "snd e \<le> T + 2 ^ 31" using good that by (auto simp: vt_good_def)
    then show ?thesis using L by simp
  qed
  have hd: "ys \<noteq> [] \<Longrightarrow> snd (hd ys) < L + 2 ^ 32" using fit [of "hd ys"] ds by simp
  show ?thesis
  proof (cases xs)
    case Nil
    have "T + lag s - L < 2 ^ 32 - 1" using L lag_le [of s] by simp
    then obtain s' where s': "chVTDoResetI t s = Inr s'" "vt_ok (if ys = [] then T else T + lag s) L ys s'"
      "vt_func s' = (vt_func s)(t := None)" "vt_par s' = vt_par s"
      "(if ys = [] then T else T + lag s) + sum_list (lags s') = T + sum_list (lags s)"
      "vtimers.more s' = vtimers.more s"
      using reset_first [OF ok, of t D ys] hd ds Nil by auto
    then show ?thesis using del Nil good ds L
      by - (rule exI [of _ s'], rule exI [of _ "if ys = [] then T else T + lag s"], auto simp: vt_good_def)
  next
    case (Cons e zs)
    have "L \<le> last_dl L xs"
      using last_dl_ge [of "vt_delta s" L xs] d ds by (simp add: deadlines_append)
    then have "ys \<noteq> [] \<Longrightarrow> snd (hd ys) < last_dl L xs + 2 ^ 32" using hd by simp
    then obtain s' where s': "chVTDoResetI t s = Inr s'" "vt_ok T L (xs @ ys) s'"
      "vt_func s' = (vt_func s)(t := None)" "vt_par s' = vt_par s" "lags s' = lags s" "vtimers.more s' = vtimers.more s"
      using reset_middle [OF ok ds] Cons by auto
    then show ?thesis using del good ds L
      by - (rule exI [of _ s'], rule exI [of _ T], auto simp: vt_good_def)
  qed
qed

text \<open>New ticks pass, a new script of readings.\<close>

lemma vt_good_new_lags:
  "vt_good T L ds s \<Longrightarrow> sum_list ls < 2 ^ 31 \<Longrightarrow> (ds \<noteq> [] \<Longrightarrow> T + sum_list ls - L < 2 ^ 31) \<Longrightarrow>
   vt_good T L ds (s\<lparr>lags := ls\<rparr>)"
  by (simp add: vt_good_def vt_ok_def)

lemma vt_good_pass:
  assumes "vt_good T L ds s" "ds \<noteq> [] \<Longrightarrow> T + sum_list (lags s) + n - L < 2 ^ 31"
  shows "vt_good (T + n) L ds (st_advance n s)"
proof -
  have "ds \<noteq> [] \<Longrightarrow> T + n - L < 2 ^ 32 - 1" using assms(2) by fastforce
  then have "vt_ok (T + n) L ds (st_advance n s)"
    using assms(1) vt_abs_advance [of T L ds s n] alarm_ok_advance [of T ds s n]
    by (auto simp: vt_good_def vt_ok_def)
  then show ?thesis using assms by (auto simp: vt_good_def add.commute add.left_commute)
qed

text \<open>The executable form of the bound on the age of the base time.\<close>

lemma vt_age:
  assumes "vt_good T L ds s" "ds \<noteq> []"
  shows "unat (ST_CNT s - lasttime s) = T - L"
  using assms unat_diff_of_nat [of L T] by (auto simp: vt_good_def vt_ok_def vt_abs_def)

lemma vt_nonempty: "vt_good T L ds s \<Longrightarrow> vt_next s VTLIST = VTLIST \<longleftrightarrow> ds = []"
  using ring_empty_iff [of "vt_next s" "vt_prev s" VTLIST "timers ds"] by (simp add: vt_good_def vt_ok_def vt_abs_def)

context vt_callbacks
begin

lemma vt_tick_good:
  assumes good: "vt_good T L ds s" and pend: "pending (vt_calls s (timers ds)) (vtimers.more s)"
    and lag: "\<forall>n \<in> set (lags s). n \<le> 2"
    and stale: "ds = [] \<Longrightarrow> ST_CNT s + word_of_nat (lag s) - lasttime s \<noteq> -1"
  shows "\<exists>s' T' Tn L' fired rest. ST_HANDLER cb s = Some (Inr s') \<and> ds = fired @ rest \<and>
    (\<forall>e \<in> set fired. snd e \<le> Tn) \<and> (CC1IF s \<longrightarrow> (\<forall>e \<in> set rest. Tn < snd e)) \<and> T \<le> Tn \<and> Tn \<le> T' \<and>
    T' + sum_list (lags s') = T + sum_list (lags s) \<and> vt_good T' L' rest s' \<and>
    vt_func s' = (\<lambda>t. if t \<in> set (timers fired) then None else vt_func s t) \<and> vt_par s' = vt_par s \<and>
    vtimers.more s' = calls (vt_calls s (timers fired)) (vtimers.more s)"
proof (cases "CC1IF s")
  case False
  then show ?thesis using good
    by - (rule exI [of _ s], rule exI [of _ T], rule exI [of _ T], rule exI [of _ L], rule exI [of _ "[]"], rule exI [of _ ds], simp add: ST_HANDLER_def)
next
  case True
  let ?s = "s\<lparr>CC1IF := False\<rparr>"
  have h: "ST_HANDLER cb s = chVTDoTickI cb ?s" using True by (simp add: ST_HANDLER_def)
  have abs: "vt_abs T L ds ?s" and ie: "CC1IE ?s = (ds \<noteq> [])"
    using good by (auto simp: vt_good_def vt_ok_def vt_abs_def alarm_ok_def)
  show ?thesis
  proof (cases "ds = []")
    case Nil: True
    let ?s' = "(st_advance (lag ?s) ?s)\<lparr>lags := tl (lags ?s)\<rparr>"
    have lg: "lag ?s = lag s" by (simp add: lag_def)
    have "chVTDoTickI cb ?s = Some (Inr ?s')"
      using chVTDoTickI_empty [of T L ?s] abs Nil stale lg by simp
    moreover have "vt_ok (T + lag s) L [] ?s'"
      using vt_ok_read [of T L "[]" ?s] abs ie Nil lg by (simp add: vt_ok_def alarm_ok_def)
    then have "vt_good (T + lag s) L [] ?s'"
      using good lag_sum [of s] by (auto simp: vt_good_def)
    ultimately show ?thesis using h Nil lag_sum [of s] lg
      by - (rule exI [of _ ?s'], rule exI [of _ "T + lag s"], rule exI [of _ "T + lag s"], rule exI [of _ L], rule exI [of _ "[]"], rule exI [of _ "[]"], simp del: st_advance_sel(7))
  next
    case False
    have "T + sum_list (lags ?s) - L < 2 ^ 32 - 1" using good False by (simp add: vt_good_def)
    moreover have "pending (vt_calls ?s (timers ds)) (vtimers.more ?s)"
      using pend vt_calls_cong [of "timers ds" ?s s] by simp
    ultimately obtain Tn T' L' fired rest s' where t: "chVTDoTickI cb ?s = Some (Inr s')" "ds = fired @ rest"
      "\<forall>e \<in> set fired. snd e \<le> Tn" "\<forall>e \<in> set rest. Tn < snd e" "T \<le> Tn" "Tn \<le> T'" "vt_ok T' L' rest s'"
      "T' + sum_list (lags s') = T + sum_list (lags ?s)"
      "vt_func s' = (\<lambda>t. if t \<in> set (timers fired) then None else vt_func ?s t)" "vt_par s' = vt_par ?s"
      "vtimers.more s' = calls (vt_calls ?s (timers fired)) (vtimers.more ?s)" "rest \<noteq> [] \<longrightarrow> L' = Tn"
    proof -
      have 1: "CC1IE ?s" "\<forall>n \<in> set (lags ?s). n \<le> 2" using ie False lag by simp_all
      from chVTDoTickI_ok [OF abs False 1(1) \<open>pending (vt_calls ?s (timers ds)) (vtimers.more ?s)\<close>
        \<open>T + sum_list (lags ?s) - L < 2 ^ 32 - 1\<close> 1(2)] that show ?thesis by blast
    qed
    have "vt_calls ?s (timers fired) = vt_calls s (timers fired)" by (rule vt_calls_cong) auto
    moreover have "\<forall>e \<in> set rest. snd e \<le> T' + 2 ^ 31"
    proof
      fix e assume "e \<in> set rest"
      then have "snd e \<le> T + 2 ^ 31" using good t(2) by (auto simp: vt_good_def)
      then show "snd e \<le> T' + 2 ^ 31" using t(5,6) by simp
    qed
    then have "vt_good T' L' rest s'"
      using t(5-8,12) good by (auto simp: vt_good_def)
    ultimately show ?thesis using t h
      by - (rule exI [of _ s'], rule exI [of _ T'], rule exI [of _ Tn], rule exI [of _ L'], rule exI [of _ fired], rule exI [of _ rest], simp cong: if_cong)
  qed
qed

end

end
