(* ===== verification/SchedWake.thy ===== *)
theory SchedWake
  imports SchedMoves VTimersSpec
begin

text \<open>
  The operations that wake threads, from an interrupt or from the running thread, and what they have in
  common: some waiting threads become ready with a message, nothing else changes.
\<close>

declare One_nat_def [simp del]

definition woken :: "(nat \<Rightarrow> place) \<Rightarrow> (nat \<Rightarrow> place) \<Rightarrow> threads \<Rightarrow> threads \<Rightarrow> bool" where
  "woken pl pl' x x' \<longleftrightarrow> same_run x x' \<and>
     (\<forall>t. (pl' t = pl t \<and> th_u x' t = th_u x t) \<or>
          (pl t \<notin> {Off, Running, In RLIST} \<and> pl' t = In RLIST \<and> (\<exists>m. th_u x' t = U_rdymsg m)))"

lemma woken_refl [simp]: "woken pl pl x x"
  by (simp add: woken_def)

lemma same_run_trans: "same_run x y \<Longrightarrow> same_run y z \<Longrightarrow> same_run x z"
  by (simp add: same_run_def)

lemma woken_trans: "woken pl pl' x y \<Longrightarrow> woken pl' pl'' y z \<Longrightarrow> woken pl pl'' x z"
proof -
  assume 1: "woken pl pl' x y" and 2: "woken pl' pl'' y z"
  have "(pl'' t = pl t \<and> th_u z t = th_u x t) \<or>
      (pl t \<notin> {Off, Running, In RLIST} \<and> pl'' t = In RLIST \<and> (\<exists>m. th_u z t = U_rdymsg m))" for t
  proof -
    have "(pl' t = pl t \<and> th_u y t = th_u x t) \<or>
        (pl t \<notin> {Off, Running, In RLIST} \<and> pl' t = In RLIST \<and> (\<exists>m. th_u y t = U_rdymsg m))"
      "(pl'' t = pl' t \<and> th_u z t = th_u y t) \<or>
        (pl' t \<notin> {Off, Running, In RLIST} \<and> pl'' t = In RLIST \<and> (\<exists>m. th_u z t = U_rdymsg m))"
      using 1 2 by (simp_all add: woken_def)
    then show ?thesis by (elim disjE conjE) auto
  qed
  with 1 2 show ?thesis by (auto simp: woken_def intro: same_run_trans)
qed

lemma woken_one:
  "same_run x x' \<Longrightarrow> th_u x' = (th_u x)(t := U_rdymsg m) \<Longrightarrow> pl t \<notin> {Off, Running, In RLIST} \<Longrightarrow>
   woken pl (pl(t := In RLIST)) x x'"
  by (auto simp: woken_def)

lemma woken_running: "woken pl pl' x x' \<Longrightarrow> pl' t = Running \<longleftrightarrow> pl t = Running"
proof -
  assume "woken pl pl' x x'"
  then have "pl' t = pl t \<or> (pl t \<notin> {Off, Running, In RLIST} \<and> pl' t = In RLIST)"
    by (auto simp: woken_def)
  then show ?thesis by auto
qed

lemma dom_released:
  "RLIST \<in> dom Q \<Longrightarrow> (\<And>h. p = In h \<Longrightarrow> h \<in> dom Q) \<Longrightarrow> dom (released pr t p Q) = dom Q"
  by (cases p) (auto simp: released_def leave_def)

lemma released_inv:
  assumes "sched_inv Q pl S x"
  shows "dom (released pr t (pl t) Q) = dom Q"
  using assms by (intro dom_released) (auto simp: sched_inv_def sched_core_def queues_def)

section \<open>Timeouts\<close>

definition wake_eff :: "vtfunc \<Rightarrow> nat \<Rightarrow> threads \<Rightarrow> threads" where
  "wake_eff f p x = (case wakeup p x of Some (Inr x') \<Rightarrow> x' | _ \<Rightarrow> x)"

text \<open>
  What holds between the callbacks of one tick: \<open>fs\<close> are still to come, the threads of \<open>A\<close> that are not among
  them are ready.
\<close>

definition wake_pending :: "nat set \<Rightarrow> nat set \<Rightarrow> (nat \<Rightarrow> place) \<Rightarrow> threads \<Rightarrow> nat set \<Rightarrow> (vtfunc \<times> nat) list \<Rightarrow> threads \<Rightarrow> bool" where
  "wake_pending S D pl0 x0 A fs x \<longleftrightarrow> (\<exists>Q pl. sched_inv Q pl S x \<and> dom Q = D \<and> woken pl0 pl x0 x \<and>
     (\<forall>p \<in> snd ` set fs. pl p \<notin> {Off, Running, Starting}) \<and> (\<forall>p \<in> A. p \<in> snd ` set fs \<or> pl p = In RLIST))"

lemma wake_pending_step:
  assumes "wake_pending S D pl0 x0 A ((f, p) # fs) x"
  shows "wakeup p x = Some (Inr (wake_eff f p x))" "wake_pending S D pl0 x0 A fs (wake_eff f p x)"
proof -
  obtain Q pl where inv: "sched_inv Q pl S x" "woken pl0 pl x0 x" and D: "dom Q = D" and p: "pl p \<notin> {Off, Running, Starting}"
    and fs: "\<forall>p \<in> snd ` set fs. pl p \<notin> {Off, Running, Starting}" and A: "\<forall>q \<in> A. q = p \<or> q \<in> snd ` set fs \<or> pl q = In RLIST"
    using assms by (auto simp: wake_pending_def)
  obtain x' where x': "wakeup p x = Some (Inr x')" "same_run x x'"
    "if pl p = In RLIST then x' = x
     else sched_inv (released (prio x) p (pl p) Q) (pl(p := In RLIST)) S x' \<and>
       th_u x' = (th_u x)(p := U_rdymsg MSG_TIMEOUT)"
    using wakeup_timeout_ok [OF inv(1) p] by blast
  then have e: "wake_eff f p x = x'" by (simp add: wake_eff_def)
  show "wakeup p x = Some (Inr (wake_eff f p x))" using x'(1) e by simp
  show "wake_pending S D pl0 x0 A fs (wake_eff f p x)"
  proof (cases "pl p = In RLIST")
    case True
    then have "x' = x" using x'(3) by simp
    then show ?thesis unfolding wake_pending_def e
      by - (rule exI [of _ Q], rule exI [of _ pl], use inv D fs A True in auto)
  next
    case False
    then have "sched_inv (released (prio x) p (pl p) Q) (pl(p := In RLIST)) S x'"
      "woken pl0 (pl(p := In RLIST)) x0 x'"
      using x'(2,3) p woken_one [of x x' p MSG_TIMEOUT pl] woken_trans [OF inv(2)] by auto
    then show ?thesis unfolding wake_pending_def e
      by - (rule exI [of _ "released (prio x) p (pl p) Q"], rule exI [of _ "pl(p := In RLIST)"],
          use fs A D released_inv [OF inv(1), of "prio x" p] in auto)
  qed
qed

interpretation timeouts: vt_callbacks run_callback wake_eff "wake_pending S D pl0 x0 A"
proof
  fix f p fs and s :: kernel
  assume "wake_pending S D pl0 x0 A ((f, p) # fs) (vtimers.more s)"
  from wake_pending_step(1) [OF this] show "run_callback f p s = Some (Inr (vtimers.more_update (wake_eff f p) s))"
    by (cases f; cases s) (simp add: on_threads_def)
next
  fix f p fs x
  assume "wake_pending S D pl0 x0 A ((f, p) # fs) x"
  then show "wake_pending S D pl0 x0 A fs (wake_eff f p x)" by (rule wake_pending_step(2))
qed

section \<open>Waking from queues, semaphores and references\<close>

lemma thdDequeueNextI_ok:
  assumes inv: "sched_inv Q pl S x" and Q: "Q q = Some ts" and q: "q \<noteq> RLIST" "q \<notin> S"
  shows "\<exists>x'. thdDequeueNextI q m x = Some (Inr x') \<and> same_run x x' \<and>
    (case ts of [] \<Rightarrow> x' = x
     | t # _ \<Rightarrow> sched_inv (released (prio x) t (In q) Q) (pl(t := In RLIST)) S x' \<and> pl t = In q \<and>
         th_u x' = (th_u x)(t := U_rdymsg m))"
proof -
  have core: "sched_core Q pl S x" using inv by (simp add: sched_inv_def)
  have qs: "queues (q_next x) (q_prev x) Q pl" using core by (simp add: sched_core_def)
  have r: "ring (q_next x) (q_prev x) q ts" by (rule queuesD(1) [OF qs Q])
  show ?thesis
  proof (cases ts)
    case Nil
    then show ?thesis using ring_empty_iff [OF r] by (simp add: thdDequeueNextI_def queue_notempty_def)
  next
    case (Cons t us)
    have t: "pl t = In q" using queuesD(2) [OF qs Q, of t] Cons by simp
    have st: "th_state x t = CH_STATE_QUEUED" using sched_coreD(2) [OF core, of t] t q by simp
    have y: "x\<lparr>sem_cnt := sem_release S q (sem_cnt x)\<rparr> = x" using q by (simp add: sem_release_def)
    have "thdDequeueNextI q m x =
        (let y = queue_dequeue t x in chSchReadyI t (y\<lparr>th_u := (th_u y)(t := U_rdymsg m)\<rparr>))"
      using ring_empty_iff [OF r] queue_fifo_remove_eq [of x q t us] r Cons st
      by (simp add: thdDequeueNextI_def chThdDoDequeueNextI_def queue_notempty_def queue_isempty_def)
    then show ?thesis
      using release_queue [OF inv _ q(1), of "[]" t us m] Q Cons t y by auto
  qed
qed

lemma wake_queue_woken:
  assumes "sched_inv Q pl S x" "Q q = Some ts" "q \<noteq> RLIST" "q \<notin> S"
  shows "\<exists>x' Q' pl'. thdDequeueNextI q m x = Some (Inr x') \<and> sched_inv Q' pl' S x' \<and> woken pl pl' x x' \<and>
    Q' q = Some (tl ts) \<and> dom Q' = dom Q"
proof -
  obtain x' where x': "thdDequeueNextI q m x = Some (Inr x')" "same_run x x'"
    "case ts of [] \<Rightarrow> x' = x
     | t # _ \<Rightarrow> sched_inv (released (prio x) t (In q) Q) (pl(t := In RLIST)) S x' \<and> pl t = In q \<and>
         th_u x' = (th_u x)(t := U_rdymsg m)"
    using thdDequeueNextI_ok [OF assms, of m] by blast
  show ?thesis
  proof (cases ts)
    case Nil
    then show ?thesis using x' assms woken_refl [of pl x] by - (rule exI [of _ x], rule exI [of _ Q], rule exI [of _ pl], simp)
  next
    case (Cons t us)
    have "released (prio x) t (In q) Q q = Some us" "dom (released (prio x) t (In q) Q) = dom Q"
      using assms Cons by (auto simp: released_def leave_def sched_inv_def sched_core_def)
    then show ?thesis using x' Cons woken_one [of x x' t m pl] assms(3) by auto
  qed
qed

lemma thdDequeueAllI_ok:
  assumes "sched_inv Q pl S x" "Q q = Some ts" "q \<noteq> RLIST" "q \<notin> S"
  shows "\<exists>x' Q' pl'. thdDequeueAllI q m x = Some (Inr x') \<and> sched_inv Q' pl' S x' \<and> woken pl pl' x x' \<and>
    Q' q = Some [] \<and> dom Q' = dom Q"
  using assms
proof (induction ts arbitrary: Q pl x)
  case Nil
  then have "queue_notempty q x = False"
    using ring_empty_iff [of "q_next x" "q_prev x" q "[]"] queuesD(1) [of "q_next x" "q_prev x" Q pl q "[]"]
    by (simp add: queue_notempty_def sched_inv_def sched_core_def)
  then show ?case using Nil by (intro exI [of _ x] exI [of _ Q] exI [of _ pl]) (simp add: thdDequeueAllI.simps)
next
  case (Cons t ts)
  have ne: "queue_notempty q x"
    using ring_empty_iff [of "q_next x" "q_prev x" q "t # ts"] queuesD(1) [of "q_next x" "q_prev x" Q pl q "t # ts"] Cons.prems
    by (simp add: queue_notempty_def sched_inv_def sched_core_def)
  obtain x1 Q1 pl1 where 1: "thdDequeueNextI q m x = Some (Inr x1)" "sched_inv Q1 pl1 S x1" "woken pl pl1 x x1"
    "Q1 q = Some ts" "dom Q1 = dom Q"
    using wake_queue_woken [OF Cons.prems, of m] by auto
  have "chThdDoDequeueNextI q m x = Some (Inr x1)" using 1(1) ne by (simp add: thdDequeueNextI_def)
  then have "thdDequeueAllI q m x = thdDequeueAllI q m x1" using ne by (simp add: thdDequeueAllI.simps [of q m x])
  then show ?case using Cons.IH [OF 1(2,4) Cons.prems(3,4)] woken_trans [OF 1(3)] 1(5) by metis
qed

lemma sem_consistent_inv:
  assumes "sched_inv Q pl S x" "sp \<in> S"
  shows "sem_consistent sp x"
proof -
  obtain ts where ts: "Q sp = Some ts" using assms by (auto simp: sched_inv_def sched_core_def)
  have "ring (q_next x) (q_prev x) sp ts"
    using assms(1) ts queuesD(1) by (auto simp: sched_inv_def sched_core_def)
  from ring_empty_iff [OF this] show ?thesis
    using assms ts by (cases ts) (auto simp: sem_consistent_def queue_isempty_def queue_notempty_def sched_inv_def sems_ok_def)
qed

lemma chSemSignalI_ok:
  assumes inv: "sched_inv Q pl S x" and sp: "sp \<in> S" and Q: "Q sp = Some ts"
  shows "\<exists>x'. chSemSignalI sp x = Some (Inr x') \<and> same_run x x' \<and>
    (case ts of [] \<Rightarrow> x' = sem_add sp 1 x \<and> sched_inv Q pl S x'
     | t # _ \<Rightarrow> sched_inv (released (prio x) t (In sp) Q) (pl(t := In RLIST)) S x' \<and> pl t = In sp \<and>
         th_u x' = (th_u x)(t := U_rdymsg MSG_OK))"
proof -
  have core: "sched_core Q pl S x" and sems: "sems_ok Q S (sem_cnt x)" using inv by (auto simp: sched_inv_def)
  have qs: "queues (q_next x) (q_prev x) Q pl" and nr: "sp \<noteq> RLIST" using core sp by (auto simp: sched_core_def)
  have r: "ring (q_next x) (q_prev x) sp ts" by (rule queuesD(1) [OF qs Q])
  have c: "if ts = [] then 0 \<le> sem_cnt x sp else sem_cnt x sp = - int (length ts)"
    using sems sp Q by (simp add: sems_ok_def)
  show ?thesis
  proof (cases ts)
    case Nil
    then have "sems_ok Q S (sem_cnt (sem_add sp 1 x))" using sems Q by (auto simp: sems_ok_def sem_add_def)
    then have "sched_inv Q pl S (sem_add sp 1 x)" using inv by (simp add: sched_inv_def sem_add_def)
    then show ?thesis using Nil c sem_consistent_inv [OF inv sp]
      by (simp add: chSemSignalI_def sem_add_def same_run_def)
  next
    case (Cons t us)
    have t: "pl t = In sp" using queuesD(2) [OF qs Q, of t] Cons by simp
    have y: "sem_add sp 1 x = x\<lparr>sem_cnt := sem_release S sp (sem_cnt x)\<rparr>"
      using sp by (simp add: sem_add_def sem_release_def)
    have "sem_cnt (sem_add sp 1 x) sp \<le> 0" using c Cons by (simp add: sem_add_def)
    then have "chSemSignalI sp x = (let y = queue_dequeue t (x\<lparr>sem_cnt := sem_release S sp (sem_cnt x)\<rparr>)
        in chSchReadyI t (y\<lparr>th_u := (th_u y)(t := U_rdymsg MSG_OK)\<rparr>))"
      using sem_consistent_inv [OF inv sp] queue_fifo_remove_eq [of "sem_add sp 1 x" sp t us] r Cons
      by (simp add: chSemSignalI_def y)
    then show ?thesis
      using release_queue [OF inv _ nr, of "[]" t us MSG_OK] Q Cons t by auto
  qed
qed

lemma chThdResumeI_ok:
  assumes inv: "sched_inv Q pl S x"
  shows "\<exists>x'. chThdResumeI r m x = Some (Inr x') \<and> same_run x x' \<and>
    (case thread_ref x r of None \<Rightarrow> x' = x
     | Some t \<Rightarrow> sched_inv (released (prio x) t (Ref r) Q) (pl(t := In RLIST)) S x' \<and> pl t = Ref r \<and>
         th_u x' = (th_u x)(t := U_rdymsg m))"
proof (cases "thread_ref x r")
  case None
  then show ?thesis by (simp add: chThdResumeI_def)
next
  case (Some t)
  have core: "sched_core Q pl S x" using inv by (simp add: sched_inv_def)
  have t: "pl t = Ref r" using sched_coreD(6) [OF core, of r t] Some by simp
  then have "th_state x t = CH_STATE_SUSPENDED" using sched_coreD(2) [OF core, of t] by simp
  then show ?thesis using release_ref [OF inv t, of m] Some t by (simp add: chThdResumeI_def) blast
qed

end
