(* ===== verification/KernelWait.thy ===== *)
theory KernelWait
  imports SchedWake
begin

text \<open>
  Timers and scheduler together: a thread that waits with a timeout has its timer armed, a thread that runs
  has none. This file shows that going to sleep, being switched to and being rescheduled keep that.
\<close>

declare One_nat_def [simp del]

section \<open>The invariant\<close>

text \<open>
  \<open>E\<close> are the threads that may still have to finish their wait although they run: the thread being
  switched to, inside a switch, and none otherwise.
\<close>

definition waits :: "nat set \<Rightarrow> deadline_list \<Rightarrow> (nat \<Rightarrow> nat) \<Rightarrow> (nat \<Rightarrow> place) \<Rightarrow> threads \<Rightarrow> bool" where
  "waits E ds par pl x \<longleftrightarrow>
     (\<forall>t \<in> set (timers ds). t = stack_vt (par t) \<and> cont x (par t) = Some (Disarm t)) \<and>
     (\<forall>p r. cont x p = Some r \<longrightarrow> (p \<in> E \<or> pl p \<noteq> Running) \<and> pl p \<notin> {Off, Starting} \<and>
        (pl p \<in> {In RLIST, Running} \<longrightarrow> (\<exists>m. th_u x p = U_rdymsg m)) \<and> (\<forall>t. r = Disarm t \<longrightarrow> t = stack_vt p)) \<and>
     (\<forall>p. pl p \<notin> {Off, Starting, Running, In RLIST} \<longrightarrow> cont x p \<noteq> None) \<and>
     (\<forall>p t. cont x p = Some (Disarm t) \<and> pl p \<notin> {Running, In RLIST} \<longrightarrow> t \<in> set (timers ds))"

lemma stack_vt_simps [simp]: "stack_vt p = stack_vt q \<longleftrightarrow> p = q" "stack_vt p \<noteq> VTLIST" "VTLIST \<noteq> stack_vt p"
  by (simp_all add: stack_vt_def VTLIST_def)

lemma waitsD:
  assumes "waits E ds par pl x"
  shows "t \<in> set (timers ds) \<Longrightarrow> t = stack_vt (par t) \<and> cont x (par t) = Some (Disarm t)"
    "cont x p = Some r \<Longrightarrow> (p \<in> E \<or> pl p \<noteq> Running) \<and> pl p \<notin> {Off, Starting}"
    "cont x p = Some r \<Longrightarrow> pl p \<in> {In RLIST, Running} \<Longrightarrow> \<exists>m. th_u x p = U_rdymsg m"
    "cont x p = Some (Disarm t) \<Longrightarrow> t = stack_vt p"
    "pl p \<notin> {Off, Starting, Running, In RLIST} \<Longrightarrow> cont x p \<noteq> None"
    "cont x p = Some (Disarm t) \<Longrightarrow> pl p \<notin> {Running, In RLIST} \<Longrightarrow> t \<in> set (timers ds)"
  using assms unfolding waits_def by blast+

lemma waitsI:
  assumes "\<And>t. t \<in> set (timers ds) \<Longrightarrow> t = stack_vt (par t) \<and> cont x (par t) = Some (Disarm t)"
    "\<And>p r. cont x p = Some r \<Longrightarrow> (p \<in> E \<or> pl p \<noteq> Running) \<and> pl p \<notin> {Off, Starting}"
    "\<And>p r. cont x p = Some r \<Longrightarrow> pl p \<in> {In RLIST, Running} \<Longrightarrow> \<exists>m. th_u x p = U_rdymsg m"
    "\<And>p t. cont x p = Some (Disarm t) \<Longrightarrow> t = stack_vt p"
    "\<And>p. pl p \<notin> {Off, Starting, Running, In RLIST} \<Longrightarrow> cont x p \<noteq> None"
    "\<And>p t. cont x p = Some (Disarm t) \<Longrightarrow> pl p \<notin> {Running, In RLIST} \<Longrightarrow> t \<in> set (timers ds)"
  shows "waits E ds par pl x"
  using assms unfolding waits_def by blast

text \<open>The timer of a thread that has no wait to finish is not armed.\<close>

lemma waits_no_timer: "waits E ds par pl x \<Longrightarrow> cont x p = None \<Longrightarrow> stack_vt p \<notin> set (timers ds)"
  using waitsD(1) [of E ds par pl x "stack_vt p"] by (metis option.distinct(1) stack_vt_simps(1))

definition finish :: "nat \<Rightarrow> msg \<Rightarrow> threads \<Rightarrow> threads" where
  "finish c m x = x\<lparr>cont := (cont x)(c := None), returned := returned x @ [(c, m)]\<rparr>"

lemma sched_inv_cont [simp]:
  "sched_inv Q pl S (x\<lparr>cont := c\<rparr>) = sched_inv Q pl S x"
  "sched_inv Q pl S (x\<lparr>returned := r\<rparr>) = sched_inv Q pl S x"
  by (simp_all add: sched_inv_def sched_core_def)

lemma sched_inv_finish [simp]: "sched_inv Q pl S (finish c m x) = sched_inv Q pl S x"
  by (simp add: finish_def)

lemma sched_core_cont [simp]:
  "sched_core Q pl S (x\<lparr>cont := c\<rparr>) = sched_core Q pl S x"
  "sched_core Q pl S (x\<lparr>current := n\<rparr>) = sched_core Q pl S x"
  by (simp_all add: sched_core_def)

lemma finish_sel [simp]:
  "prio (finish c m x) = prio x" "current (finish c m x) = current x" "q_next (finish c m x) = q_next x"
  "cont (finish c m x) = (cont x)(c := None)" "returned (finish c m x) = returned x @ [(c, m)]"
  "th_u (finish c m x) = th_u x"
  by (simp_all add: finish_def)

lemma timers_vt_del: "set (timers (vt_del t ds)) = set (timers ds) - {t}"
  by (auto simp: vt_del_def)

lemma waits_finish:
  assumes w: "waits {c} ds par pl x" and ds': "set (timers ds') = set (timers ds) - {stack_vt c}"
    and run: "pl c = Running"
  shows "waits {} ds' par pl (finish c m x)"
proof (rule waitsI)
  fix t assume "t \<in> set (timers ds')"
  then show "t = stack_vt (par t) \<and> cont (finish c m x) (par t) = Some (Disarm t)"
    using waitsD(1) [OF w, of t] unfolding ds' by auto
next
  fix p t assume p: "cont (finish c m x) p = Some (Disarm t)" "pl p \<notin> {Running, In RLIST}"
  then have "p \<noteq> c" "cont x p = Some (Disarm t)" by (auto split: if_splits)
  then show "t \<in> set (timers ds')"
    using waitsD(4,6) [OF w, of p t] p(2) unfolding ds' by auto
qed (use waitsD(2-5) [OF w] run in \<open>auto split: if_splits\<close>)

lemma waits_idle:
  assumes w: "waits {c} ds par pl x" and c: "cont x c = None"
  shows "waits {} ds par pl x"
proof (rule waitsI)
  fix p r assume "cont x p = Some r"
  then show "(p \<in> {} \<or> pl p \<noteq> Running) \<and> pl p \<notin> {Off, Starting}" using waitsD(2) [OF w, of p r] c by auto
qed (use waitsD(1,3-6) [OF w] in blast)+

section \<open>Switching\<close>

text \<open>The thread switched to finishes its wait: its timer is off when it runs.\<close>

definition switched :: "nat \<Rightarrow> threads \<Rightarrow> threads \<Rightarrow> bool" where
  "switched c x x' \<longleftrightarrow>
     (case cont x c of None \<Rightarrow> x' = x | Some _ \<Rightarrow> (\<exists>m. th_u x c = U_rdymsg m \<and> x' = finish c m x))"

lemma chSysSwitch_ok:
  assumes good: "vt_good T L ds s" and inv: "sched_inv Q pl S (thr s)" and c: "c = current (thr s)"
    and w: "waits {c} ds (vt_par s) pl (thr s)"
  shows "\<exists>s' T' ds'. chSysSwitch s = Inr s' \<and> T \<le> T' \<and> T' + sum_list (lags s') = T + sum_list (lags s) \<and>
    vt_good T' L ds' s' \<and> sched_inv Q pl S (thr s') \<and> waits {} ds' (vt_par s') pl (thr s') \<and>
    switched c (thr s) (thr s') \<and> set ds' \<subseteq> set ds"
proof (cases "cont (thr s) c")
  case None
  then have "waits {} ds (vt_par s) pl (thr s)" using waits_idle [OF w] by simp
  then show ?thesis using None good inv c
    by - (rule exI [of _ s], rule exI [of _ T], rule exI [of _ ds], simp add: chSysSwitch_def switched_def)
next
  case (Some r)
  have run: "pl c = Running" using inv c by (simp add: sched_inv_def)
  obtain m where m: "th_u (thr s) c = U_rdymsg m" using waitsD(3) [OF w Some] run by auto
  have "\<exists>s1 T1 ds1. (case r of Return \<Rightarrow> Inr s
                | Disarm vt \<Rightarrow> if chVTIsArmedI vt s then chVTDoResetI vt s else Inr s) = Inr s1 \<and> T \<le> T1 \<and>
      T1 + sum_list (lags s1) = T + sum_list (lags s) \<and> vt_good T1 L ds1 s1 \<and> thr s1 = thr s \<and>
      vt_par s1 = vt_par s \<and> set (timers ds1) = set (timers ds) - {stack_vt c} \<and> set ds1 \<subseteq> set ds"
  proof (cases "stack_vt c \<in> set (timers ds)")
    case True
    then have r: "r = Disarm (stack_vt c)" using waitsD(1) [OF w True] Some by auto
    obtain s1 T1 where "chVTDoResetI (stack_vt c) s = Inr s1" "T \<le> T1"
      "T1 + sum_list (lags s1) = T + sum_list (lags s)" "vt_good T1 L (vt_del (stack_vt c) ds) s1"
      "vt_par s1 = vt_par s" "thr s1 = thr s"
      using vt_reset_good [OF good True] by blast
    then show ?thesis using r True vt_good_armed [OF good]
      by - (rule exI [of _ s1], rule exI [of _ T1], rule exI [of _ "vt_del (stack_vt c) ds"],
          simp add: timers_vt_del del: set_map, simp add: vt_del_def)
  next
    case False
    have "(case r of Return \<Rightarrow> Inr s
                | Disarm vt \<Rightarrow> if chVTIsArmedI vt s then chVTDoResetI vt s else Inr s) = Inr s"
      using waitsD(4) [OF w, of c] Some False vt_good_armed [OF good] by (cases r) auto
    then show ?thesis using False good by - (rule exI [of _ s], rule exI [of _ T], rule exI [of _ ds], simp)
  qed
  then obtain s1 T1 ds1 where s1: "(case r of Return \<Rightarrow> Inr s
                | Disarm vt \<Rightarrow> if chVTIsArmedI vt s then chVTDoResetI vt s else Inr s) = Inr s1" "T \<le> T1"
      "T1 + sum_list (lags s1) = T + sum_list (lags s)" "vt_good T1 L ds1 s1" "thr s1 = thr s"
      "vt_par s1 = vt_par s" "set (timers ds1) = set (timers ds) - {stack_vt c}" "set ds1 \<subseteq> set ds"
    by blast
  let ?s = "vtimers.more_update (\<lambda>x. x\<lparr>cont := (cont x)(c := None), returned := returned x @ [(c, m)]\<rparr>) s1"
  have "chSysSwitch s = Inr ?s" using Some s1(1,5) m c by (simp add: chSysSwitch_def Let_def)
  moreover have "thr ?s = finish c m (thr s)" using s1(5) by (cases s1) (simp add: finish_def)
  moreover have "vt_par ?s = vt_par s1" "lags ?s = lags s1" by (cases s1; simp)+
  ultimately show ?thesis
    using s1 inv waits_finish [OF w s1(7) run, of m] Some m
    by - (rule exI [of _ ?s], rule exI [of _ T1], rule exI [of _ ds1], simp add: switched_def)
qed

section \<open>Rescheduling\<close>

text \<open>No ready thread has a higher priority than the running one.\<close>

definition in_order :: "threads \<Rightarrow> bool" where
  "in_order x \<longleftrightarrow> \<not> chSchIsRescRequiredI x"

lemma in_order_iff:
  assumes "sched_core Q pl S x" "Q RLIST = Some ts"
  shows "in_order x \<longleftrightarrow> (\<forall>t \<in> set ts. prio x t \<le> prio x (current x))"
proof -
  have "q_next x RLIST = hd (ts @ [RLIST])"
    using ring_next [OF queuesD(1) [OF sched_coreD(1) [OF assms(1)] assms(2)]] .
  then show ?thesis
    using sched_coreD(3) [OF assms(1)] sched_coreD(5) [OF assms]
    by (cases ts) (auto simp: in_order_def chSchIsRescRequiredI_def firstprio_def NOPRIO_def)
qed

definition kernel_ok :: "nat \<Rightarrow> nat set \<Rightarrow> nat set \<Rightarrow> nat \<Rightarrow> nat \<Rightarrow> deadline_list \<Rightarrow> kernel \<Rightarrow> bool" where
  "kernel_ok i S D T L ds s \<longleftrightarrow> vt_good T L ds s \<and> i \<notin> D \<and>
     (\<exists>Q pl. sched_inv Q pl S (thr s) \<and> waits {} ds (vt_par s) pl (thr s) \<and> pl i \<in> {In RLIST, Running} \<and> dom Q = D)"

text \<open>
  The end of every rescheduling: a state whose running thread has just been chosen.
\<close>

lemma switch_kernel_ok:
  assumes good: "vt_good T L ds s" and inv: "sched_inv Q pl S (thr s)"
    and w: "waits {current (thr s)} ds (vt_par s) pl (thr s)"
    and i: "pl i \<in> {In RLIST, Running}" "i \<notin> D" and D: "dom Q = D" and ord: "in_order (thr s)"
  shows "\<exists>s' T' ds'. chSysSwitch s = Inr s' \<and> T \<le> T' \<and> T' + sum_list (lags s') = T + sum_list (lags s) \<and>
    kernel_ok i S D T' L ds' s' \<and> switched (current (thr s)) (thr s) (thr s') \<and> in_order (thr s') \<and> set ds' \<subseteq> set ds"
proof -
  obtain s' T' ds' where s': "chSysSwitch s = Inr s'" "T \<le> T'" "T' + sum_list (lags s') = T + sum_list (lags s)"
    "vt_good T' L ds' s'" "sched_inv Q pl S (thr s')" "waits {} ds' (vt_par s') pl (thr s')"
    "switched (current (thr s)) (thr s) (thr s')" "set ds' \<subseteq> set ds"
    using chSysSwitch_ok [OF good inv refl w] by blast
  have "in_order (thr s')"
    using ord s'(7) by (auto simp: switched_def in_order_def chSchIsRescRequiredI_def firstprio_def split: option.splits)
  with s' i D show ?thesis unfolding kernel_ok_def by blast
qed

text \<open>The running thread changes places with the first ready one.\<close>

lemma resched_core:
  assumes inv: "sched_inv Q pl S x" and Q: "Q RLIST = Some (n # ts)"
  shows "sched_core (Q(RLIST \<mapsto> ts)) (pl(n := Running)) S (next_current x)" "pl n = In RLIST" "n \<noteq> current x"
    "sems_ok (Q(RLIST \<mapsto> ts)) S (sem_cnt (next_current x))"
proof -
  have core: "sched_core Q pl S x" using inv by (simp add: sched_inv_def)
  show "sched_core (Q(RLIST \<mapsto> ts)) (pl(n := Running)) S (next_current x)" by (rule next_current_core(1) [OF core Q])
  show n: "pl n = In RLIST" using queuesD(2) [OF sched_coreD(1) [OF core] Q, of n] by simp
  have "pl (current x) = Running" using inv by (simp add: sched_inv_def)
  then show "n \<noteq> current x" using n by auto
  show "sems_ok (Q(RLIST \<mapsto> ts)) S (sem_cnt (next_current x))"
    using inv next_current_core(6) [OF core Q] by (auto simp: sched_inv_def sems_ok_def sched_core_def)
qed

lemma waits_swap:
  assumes w: "waits {} ds par pl x" and n: "pl n = In RLIST" and c: "pl c = Running" "cont x c = None"
    and same: "cont x' = cont x" "th_u x' = th_u x"
  shows "waits {n} ds par (pl(n := Running, c := In RLIST)) x'"
proof (rule waitsI)
  fix p r assume "cont x' p = Some r"
  then show "(p \<in> {n} \<or> (pl(n := Running, c := In RLIST)) p \<noteq> Running) \<and> (pl(n := Running, c := In RLIST)) p \<notin> {Off, Starting}"
    using waitsD(2) [OF w, of p r] same by auto
next
  fix p r assume "cont x' p = Some r" "(pl(n := Running, c := In RLIST)) p \<in> {In RLIST, Running}"
  then show "\<exists>m. th_u x' p = U_rdymsg m"
    using waitsD(3) [OF w, of p r] same n c by (auto split: if_splits)
next
  fix p t assume "cont x' p = Some (Disarm t)" "(pl(n := Running, c := In RLIST)) p \<notin> {Running, In RLIST}"
  then show "t \<in> set (timers ds)" using waitsD(6) [OF w, of p t] same by (auto split: if_splits)
qed (use waitsD(1,4,5) [OF w] same n c in \<open>auto split: if_splits\<close>)

lemma resched_ok:
  assumes ok: "kernel_ok i S D T L ds s"
    and ready: "\<And>Q pl t ts y. sched_core Q pl S y \<Longrightarrow> pl t \<in> {Limbo, Running, Asleep} \<Longrightarrow> Q RLIST = Some ts \<Longrightarrow>
        \<exists>p. ready t y = Some (Inr (ready_state t p y)) \<and>
          sched_core (Q(RLIST \<mapsto> ins (prio y) t ts)) (pl(t := In RLIST)) S (ready_state t p y)"
    and ins: "\<And>pr t ts. set (ins pr t ts) = insert t (set ts)"
    and first: "prio (thr s) (current (thr s)) \<le> firstprio RLIST (thr s)"
  shows "\<exists>s' T' ds'. bindP (on_threads (\<lambda>x. ready (current x) (next_current x)) s) (\<lambda>s. Some (chSysSwitch s)) = Some (Inr s') \<and>
    T \<le> T' \<and> T' + sum_list (lags s') = T + sum_list (lags s) \<and> kernel_ok i S D T' L ds' s' \<and> in_order (thr s') \<and>
    current (thr s') = q_next (thr s) RLIST"
proof -
  obtain Q pl where good: "vt_good T L ds s" and inv: "sched_inv Q pl S (thr s)"
    and w: "waits {} ds (vt_par s) pl (thr s)" and i: "pl i \<in> {In RLIST, Running}" "i \<notin> D" and D: "dom Q = D"
    using ok by (auto simp: kernel_ok_def)
  define x where "x = thr s"
  define c where "c = current x"
  have core: "sched_core Q pl S x" and c: "pl c = Running" using inv by (auto simp: sched_inv_def x_def c_def)
  have pc: "0 < prio x c" using sched_coreD(4) [OF core, of c] c by simp
  obtain ts' where ts': "Q RLIST = Some ts'" using core by (auto simp: sched_core_def)
  have qn: "q_next x RLIST = hd (ts' @ [RLIST])"
    using ring_next [OF queuesD(1) [OF sched_coreD(1) [OF core] ts']] .
  have "ts' \<noteq> []" using first pc qn sched_coreD(3) [OF core] by (auto simp: firstprio_def NOPRIO_def x_def c_def)
  then obtain n ts where ts: "Q RLIST = Some (n # ts)" using ts' by (cases ts') auto
  have n: "q_next x RLIST = n" using qn ts ts' by simp
  note r = resched_core [OF inv ts, folded x_def]
  have cn: "cont x c = None" using waitsD(2) [OF w, of c] c by (cases "cont x c") (auto simp: x_def)
  have pn: "(pl(n := Running)) c \<in> {Limbo, Running, Asleep}" using c by simp
  let ?pl = "pl(n := Running, c := In RLIST)"
  obtain p where p: "ready c (next_current x) = Some (Inr (ready_state c p (next_current x)))"
    "sched_core (Q(RLIST \<mapsto> ins (prio x) c ts)) ?pl S (ready_state c p (next_current x))"
    using ready [OF r(1) pn fun_upd_same, unfolded fun_upd_upd next_current_core(3) [OF core ts]] by blast
  let ?x = "ready_state c p (next_current x)"
  have sel: "current ?x = n" "prio ?x = prio x" "cont ?x = cont x" "th_u ?x = th_u x"
    using next_current_core(2-5) [OF core ts] by simp_all
  have inv': "sched_inv (Q(RLIST \<mapsto> ins (prio x) c ts)) ?pl S ?x"
  proof -
    have "sems_ok (Q(RLIST \<mapsto> ins (prio x) c ts)) S (sem_cnt ?x)"
      using r(4) core by (auto simp: sems_ok_def sched_core_def)
    moreover have "\<forall>u. ?pl u = Running \<longleftrightarrow> u = n" "\<forall>u. ?pl u \<noteq> Limbo"
      using inv r(3) by (auto simp: sched_inv_def x_def c_def)
    ultimately show ?thesis using p(2) sel by (simp add: sched_inv_def)
  qed
  let ?s = "vtimers.more_update (\<lambda>_. ?x) s"
  have sx: "thr ?s = ?x" "vt_par ?s = vt_par s" "lags ?s = lags s" by (cases s; simp)+
  have "sorted_wrt (\<lambda>a b. prio x b \<le> prio x a) (n # ts)" by (rule sched_coreD(5) [OF core ts])
  moreover have "prio x c \<le> prio x n" using first n by (simp add: firstprio_def x_def c_def)
  ultimately have "in_order ?x"
    using in_order_iff [OF p(2)] sel ins by auto
  then have ord: "in_order (thr ?s)" using sx by simp
  have g: "vt_good T L ds ?s" using good by simp
  have iv: "sched_inv (Q(RLIST \<mapsto> ins (prio x) c ts)) ?pl S (thr ?s)" using inv' sx by simp
  have ww: "waits {current (thr ?s)} ds (vt_par ?s) ?pl (thr ?s)"
    using waits_swap [OF w [folded x_def] r(2) c cn, of ?x] sx sel by simp
  have ii: "?pl i \<in> {In RLIST, Running}" using i by auto
  have dd: "dom (Q(RLIST \<mapsto> ins (prio x) c ts)) = D" using D ts by auto
  obtain s' T' ds' where s': "chSysSwitch ?s = Inr s'" "T \<le> T'" "T' + sum_list (lags s') = T + sum_list (lags s)"
    "kernel_ok i S D T' L ds' s'" "switched n ?x (thr s')" "in_order (thr s')"
    using switch_kernel_ok [OF g iv ww ii i(2) dd ord] unfolding sx sel by blast
  have "bindP (on_threads (\<lambda>x. ready (current x) (next_current x)) s) (\<lambda>s. Some (chSysSwitch s)) = Some (chSysSwitch ?s)"
    using p(1) by (simp add: on_threads_def x_def c_def)
  moreover have "current (thr s') = n" using s'(5) sel by (auto simp: switched_def split: option.splits)
  ultimately show ?thesis using s' n unfolding x_def
    by - (rule exI [of _ s'], rule exI [of _ T'], rule exI [of _ ds'], simp)
qed

lemma set_behind [simp]: "set (behind pr t ts) = insert t (set ts)"
  unfolding behind_def by (metis Un_insert_right list.simps(15) set_append takeWhile_dropWhile_id)

lemma set_ahead [simp]: "set (ahead pr t ts) = insert t (set ts)"
  unfolding ahead_def by (metis Un_insert_right list.simps(15) set_append takeWhile_dropWhile_id)

text \<open>What every operation of the kernel promises: it returns, in a good state.\<close>

definition kernel_returns :: "nat \<Rightarrow> nat set \<Rightarrow> nat set \<Rightarrow> nat \<Rightarrow> kernel \<Rightarrow> kernel diverge \<Rightarrow> (kernel \<Rightarrow> bool) \<Rightarrow> bool" where
  "kernel_returns i S D T s r P \<longleftrightarrow> (\<exists>s' T' L' ds'. r = Some (Inr s') \<and> T \<le> T' \<and>
     T' + sum_list (lags s') = T + sum_list (lags s) \<and> kernel_ok i S D T' L' ds' s' \<and> P s')"

lemma kernel_returnsI:
  "r = Some (Inr s') \<Longrightarrow> T \<le> T' \<Longrightarrow> T' + sum_list (lags s') = T + sum_list (lags s) \<Longrightarrow>
   kernel_ok i S D T' L' ds' s' \<Longrightarrow> P s' \<Longrightarrow> kernel_returns i S D T s r P"
  unfolding kernel_returns_def by blast

lemma kernel_returns_mono: "kernel_returns i S D T s r P \<Longrightarrow> (\<And>s. P s \<Longrightarrow> P' s) \<Longrightarrow> kernel_returns i S D T s r P'"
  unfolding kernel_returns_def by blast

lemma kernel_returns_bind:
  assumes "kernel_returns i S D T s r P"
    "\<And>s' T' L' ds'. kernel_ok i S D T' L' ds' s' \<Longrightarrow> P s' \<Longrightarrow> kernel_returns i S D T' s' (f s') R"
  shows "kernel_returns i S D T s (bindP r f) R"
proof -
  obtain s' T' L' ds' where 1: "r = Some (Inr s')" "T \<le> T'" "T' + sum_list (lags s') = T + sum_list (lags s)"
    "kernel_ok i S D T' L' ds' s'" "P s'"
    using assms(1) by (auto simp: kernel_returns_def)
  from assms(2) [OF 1(4,5)] obtain s2 T2 L2 ds2 where "f s' = Some (Inr s2)" "T' \<le> T2"
    "T2 + sum_list (lags s2) = T' + sum_list (lags s')" "kernel_ok i S D T2 L2 ds2 s2" "R s2"
    by (auto simp: kernel_returns_def)
  with 1 show ?thesis by (intro kernel_returnsI [of _ s2 T T2]) auto
qed

lemma rescheduleAhead_ok:
  assumes "kernel_ok i S D T L ds s" "prio (thr s) (current (thr s)) \<le> firstprio RLIST (thr s)"
  shows "kernel_returns i S D T s (chSchDoRescheduleAhead s)
    (\<lambda>s'. in_order (thr s') \<and> current (thr s') = q_next (thr s) RLIST)"
proof -
  from resched_ok [OF assms(1) chSchReadyAheadI_core set_ahead assms(2)]
  show ?thesis unfolding chSchDoRescheduleAhead_def kernel_returns_def by blast
qed

lemma rescheduleBehind_ok:
  assumes "kernel_ok i S D T L ds s" "prio (thr s) (current (thr s)) \<le> firstprio RLIST (thr s)"
  shows "kernel_returns i S D T s (chSchDoRescheduleBehind s)
    (\<lambda>s'. in_order (thr s') \<and> current (thr s') = q_next (thr s) RLIST)"
proof -
  from resched_ok [OF assms(1) chSchReadyI_core set_behind assms(2)]
  show ?thesis unfolding chSchDoRescheduleBehind_def kernel_returns_def by blast
qed

lemma chSchRescheduleS_ok:
  assumes ok: "kernel_ok i S D T L ds s"
  shows "kernel_returns i S D T s (chSchRescheduleS s) (\<lambda>s'. in_order (thr s'))"
proof (cases "chSchIsRescRequiredI (thr s)")
  case True
  then have "prio (thr s) (current (thr s)) \<le> firstprio RLIST (thr s)" by (simp add: chSchIsRescRequiredI_def)
  from kernel_returns_mono [OF rescheduleAhead_ok [OF ok this]] True show ?thesis
    by (simp add: chSchRescheduleS_def)
next
  case False
  then show ?thesis using ok by (intro kernel_returnsI [of _ s]) (auto simp: chSchRescheduleS_def in_order_def)
qed

lemma irq_epilogue_eq: "irq_epilogue = chSchRescheduleS"
  by (simp add: fun_eq_iff irq_epilogue_def chSchRescheduleS_def chSchDoReschedule_def
    chSchIsPreemptionRequired_def chSchIsRescRequiredI_def)

lemma chSchDoYieldS_ok:
  assumes ok: "kernel_ok i S D T L ds s" and ord: "in_order (thr s)"
  shows "kernel_returns i S D T s (chSchDoYieldS s) (\<lambda>s'. in_order (thr s'))"
proof (cases "chSchCanYieldS (thr s)")
  case True
  then have "prio (thr s) (current (thr s)) \<le> firstprio RLIST (thr s)" by (simp add: chSchCanYieldS_def)
  from kernel_returns_mono [OF rescheduleBehind_ok [OF ok this]] True show ?thesis
    by (simp add: chSchDoYieldS_def)
next
  case False
  then show ?thesis using ok ord by (intro kernel_returnsI [of _ s]) (auto simp: chSchDoYieldS_def)
qed

section \<open>Operations that only wake threads\<close>

lemma waits_woken:
  assumes w: "waits {} ds par pl x" and wk: "woken pl pl' x x'"
  shows "waits {} ds par pl' x'"
proof -
  have c: "cont x' = cont x" using wk by (simp add: woken_def same_run_def)
  have m: "(pl' t = pl t \<and> th_u x' t = th_u x t) \<or>
      (pl t \<notin> {Off, Running, In RLIST} \<and> pl' t = In RLIST \<and> (\<exists>m. th_u x' t = U_rdymsg m))" for t
    using wk by (simp add: woken_def)
  show ?thesis
  proof (rule waitsI)
    fix p r assume "cont x' p = Some r"
    then show "(p \<in> {} \<or> pl' p \<noteq> Running) \<and> pl' p \<notin> {Off, Starting}" using waitsD(2) [OF w, of p r] c m [of p] by auto
  next
    fix p r assume "cont x' p = Some r" "pl' p \<in> {In RLIST, Running}"
    then show "\<exists>m. th_u x' p = U_rdymsg m" using waitsD(3) [OF w, of p r] c m [of p] by auto
  next
    fix p assume "pl' p \<notin> {Off, Starting, Running, In RLIST}"
    then show "cont x' p \<noteq> None" using waitsD(5) [OF w, of p] c m [of p] by auto
  next
    fix p t assume "cont x' p = Some (Disarm t)" "pl' p \<notin> {Running, In RLIST}"
    then show "t \<in> set (timers ds)" using waitsD(6) [OF w, of p t] c m [of p] by (auto simp del: set_map)
  qed (use waitsD(1,4) [OF w] c in auto)
qed

lemma wake_kernel_ok:
  assumes ok: "kernel_ok i S D T L ds s"
    and op: "\<And>Q pl. sched_inv Q pl S (thr s) \<Longrightarrow> dom Q = D \<Longrightarrow>
      \<exists>x' Q' pl'. f (thr s) = Some (Inr x') \<and> sched_inv Q' pl' S x' \<and> woken pl pl' (thr s) x' \<and> dom Q' = D"
  shows "kernel_returns i S D T s (on_threads f s) (\<lambda>s'. same_run (thr s) (thr s'))"
proof -
  obtain Q pl where good: "vt_good T L ds s" and inv: "sched_inv Q pl S (thr s)"
    and w: "waits {} ds (vt_par s) pl (thr s)" and i: "pl i \<in> {In RLIST, Running}" "i \<notin> D" and D: "dom Q = D"
    using ok by (auto simp: kernel_ok_def)
  obtain x' Q' pl' where x': "f (thr s) = Some (Inr x')" "sched_inv Q' pl' S x'" "woken pl pl' (thr s) x'" "dom Q' = D"
    using op [OF inv D] by blast
  let ?s = "vtimers.more_update (\<lambda>_. x') s"
  have sx: "thr ?s = x'" "vt_par ?s = vt_par s" "lags ?s = lags s" by (cases s; simp)+
  have "pl' i \<in> {In RLIST, Running}" using x'(3) i(1) unfolding woken_def by (metis insertCI)
  moreover have "vt_good T L ds ?s" using good by simp
  ultimately have "kernel_ok i S D T L ds ?s"
    unfolding kernel_ok_def sx using x' i(2) waits_woken [OF w x'(3)] by blast
  moreover have "on_threads f s = Some (Inr ?s)" using x'(1) by (simp add: on_threads_def)
  ultimately show ?thesis using x'(3) sx
    by (intro kernel_returnsI [of _ ?s T T]) (auto simp: woken_def)
qed

end
