(* ===== verification/KernelSleep.thy ===== *)
theory KernelSleep
  imports KernelWait
begin

text \<open>
  Going to sleep, with and without a timeout, at each of the places a thread can wait at, and waking a
  single thread with a possible switch to it.
\<close>

declare One_nat_def [simp del]

section \<open>Leaving the processor\<close>

text \<open>
  The thread part of \<^verbatim>\<open>chSchGoSleepS\<close> up to the switch.
\<close>

definition park :: "tstate \<Rightarrow> resume \<Rightarrow> threads \<Rightarrow> threads" where
  "park st r x = x\<lparr>th_state := (th_state x)(current x := st), cont := (cont x)(current x := Some r)\<rparr>"

lemma park_sel [simp]:
  "prio (park st r x) = prio x" "current (park st r x) = current x" "th_u (park st r x) = th_u x"
  "thread_ref (park st r x) = thread_ref x" "sem_cnt (park st r x) = sem_cnt x" "returned (park st r x) = returned x"
  "q_next (park st r x) = q_next x" "q_prev (park st r x) = q_prev x"
  "cont (park st r x) = (cont x)(current x := Some r)" "th_state (park st r x) = (th_state x)(current x := st)"
  by (simp_all add: park_def)

text \<open>
  \<open>y\<close> is the state \<open>x\<close> after the running thread has entered the place \<open>p\<close> it will wait at.
\<close>

definition entered :: "queue_map \<Rightarrow> (nat \<Rightarrow> place) \<Rightarrow> nat set \<Rightarrow> threads \<Rightarrow> place \<Rightarrow> tstate \<Rightarrow> threads \<Rightarrow> bool" where
  "entered Q pl S x p st y \<longleftrightarrow>
     (\<exists>Q'. (\<forall>r. sched_core Q' (pl(current x := p)) S (park st r y)) \<and> sems_ok Q' S (sem_cnt y) \<and>
        Q' RLIST = Q RLIST \<and> dom Q' = dom Q) \<and>
     p \<notin> {Off, Starting, Running, Limbo, In RLIST} \<and> prio y = prio x \<and> current y = current x \<and> cont y = cont x \<and>
     returned y = returned x \<and> (\<forall>u. u \<noteq> current x \<longrightarrow> th_u y u = th_u x u)"

lemma enter_sleep:
  assumes inv: "sched_inv Q pl S x"
  shows "entered Q pl S x Asleep CH_STATE_SLEEPING x"
proof -
  have core: "sched_core Q pl S x" and c: "pl (current x) = Running" using inv by (auto simp: sched_inv_def)
  have "sched_core Q (pl(current x := Asleep)) S (park CH_STATE_SLEEPING r x)" for r
  proof (rule core_move [OF core])
    show "queues (q_next (park CH_STATE_SLEEPING r x)) (q_prev (park CH_STATE_SLEEPING r x)) Q (pl(current x := Asleep))"
      using sched_coreD(1) [OF core] c by (auto intro: queues_move)
    show "thread_ref (park CH_STATE_SLEEPING r x) q = Some u \<longleftrightarrow> (pl(current x := Asleep)) u = Ref q" for q u
      using sched_coreD(6) [OF core, of q u] c by auto
  qed (use c sched_coreD(5) [OF core] in auto)
  then show ?thesis using inv by (auto simp: entered_def sched_inv_def)
qed

lemma enter_ref:
  assumes inv: "sched_inv Q pl S x" and r: "thread_ref x q = None"
  shows "entered Q pl S x (Ref q) CH_STATE_SUSPENDED
    (x\<lparr>thread_ref := (thread_ref x)(q := Some (current x)), th_u := (th_u x)(current x := U_wttrp q)\<rparr>)"
    (is "entered Q pl S x _ _ ?y")
proof -
  have core: "sched_core Q pl S x" and c: "pl (current x) = Running" using inv by (auto simp: sched_inv_def)
  have "sched_core Q (pl(current x := Ref q)) S (park CH_STATE_SUSPENDED r ?y)" for r
  proof (rule core_move [OF core])
    show "queues (q_next (park CH_STATE_SUSPENDED r ?y)) (q_prev (park CH_STATE_SUSPENDED r ?y)) Q (pl(current x := Ref q))"
      using sched_coreD(1) [OF core] c by (auto intro: queues_move)
    show "thread_ref (park CH_STATE_SUSPENDED r ?y) q' = Some u \<longleftrightarrow> (pl(current x := Ref q)) u = Ref q'" for q' u
      using sched_coreD(6) [OF core, of q' u] r c by auto
  qed (use c sched_coreD(5) [OF core] in auto)
  moreover have "sems_ok Q S (sem_cnt ?y)" using inv by (simp add: sched_inv_def)
  ultimately show ?thesis unfolding entered_def by - (intro conjI exI [of _ Q]; simp)
qed

lemma enter_queue:
  assumes inv: "sched_inv Q pl S x" and q: "Q q = Some ts" "q \<noteq> RLIST"
    and y: "y = queue_insert (current x) q z" "q_next z = q_next x" "q_prev z = q_prev x" "th_state z = th_state x"
      "prio z = prio x" "current z = current x" "cont z = cont x" "returned z = returned x" "thread_ref z = thread_ref x"
      "\<And>u. u \<noteq> current x \<Longrightarrow> th_u z u = th_u x u"
    and ok: "place_ok S (In q) st (th_u z (current x))" and sems: "sems_ok (Q(q \<mapsto> ts @ [current x])) S (sem_cnt z)"
  shows "entered Q pl S x (In q) st y"
proof -
  have core: "sched_core Q pl S x" and c: "pl (current x) = Running" using inv by (auto simp: sched_inv_def)
  let ?Q = "Q(q \<mapsto> ts @ [current x])"
  have qs: "queues (q_next y) (q_prev y) ?Q (pl(current x := In q))"
    using queue_link_queues [of z Q pl q ts "[]" "current x" q] sched_coreD(1) [OF core] q c y
    by (simp add: queue_insert_def)
  have "sched_core ?Q (pl(current x := In q)) S (park st r y)" for r
  proof (rule core_move [OF core])
    show "queues (q_next (park st r y)) (q_prev (park st r y)) ?Q (pl(current x := In q))" using qs by simp
    show "thread_ref (park st r y) q' = Some u \<longleftrightarrow> (pl(current x := In q)) u = Ref q'" for q' u
      using sched_coreD(6) [OF core, of q' u] c y by (auto simp: queue_insert_def)
  qed (use c sched_coreD(5) [OF core] y ok q in \<open>auto simp: queue_insert_def\<close>)
  moreover have "dom ?Q = dom Q" using q by auto
  ultimately show ?thesis
    unfolding entered_def using sems y q by - (intro conjI exI [of _ ?Q]; simp add: queue_insert_def)
qed

text \<open>
  The switch of a sleeping thread: with its timer armed, where it has one.
\<close>

lemma chSchGoSleepS_ok:
  assumes ok: "kernel_ok i S D T L ds s" and not_idle: "current (thr s) \<noteq> i"
    and inv: "sched_inv Q pl S (thr s)" and w: "waits {} ds (vt_par s) pl (thr s)" and D: "dom Q = D"
    and i: "pl i \<in> {In RLIST, Running}"
    and ent: "entered Q pl S (thr s) p st (thr s1)"
    and good: "vt_good T1 L1 ds1 s1"
    and r: "r = Return \<and> set (timers ds1) = set (timers ds) \<and> vt_par s1 = vt_par s \<or>
      r = Disarm (stack_vt (current (thr s))) \<and>
      set (timers ds1) = insert (stack_vt (current (thr s))) (set (timers ds)) \<and>
      vt_par s1 = (vt_par s)(stack_vt (current (thr s)) := current (thr s))"
  shows "kernel_returns i S D T1 s1 (Some (chSchGoSleepS st r s1))
    (\<lambda>s'. in_order (thr s') \<and> current (thr s') = q_next (thr s) RLIST)"
proof -
  define x where "x = thr s"
  define c where "c = current x"
  define y where "y = thr s1"
  have core: "sched_core Q pl S x" and c: "pl c = Running" using inv by (auto simp: sched_inv_def x_def c_def)
  obtain Q' where Q': "sched_core Q' (pl(c := p)) S (park st r y)" "sems_ok Q' S (sem_cnt y)" "Q' RLIST = Q RLIST"
    "dom Q' = dom Q"
    and p: "p \<notin> {Off, Starting, Running, Limbo, In RLIST}" and y: "prio y = prio x" "current y = c" "cont y = cont x"
      "returned y = returned x" "\<And>u. u \<noteq> c \<Longrightarrow> th_u y u = th_u x u"
    using ent unfolding entered_def x_def [symmetric] c_def [symmetric] y_def [symmetric] by blast
  have cn: "cont x c = None" using waitsD(2) [OF w, of c] c by (cases "cont x c") (auto simp: x_def)
  have "i \<noteq> c" using not_idle by (simp add: x_def c_def)
  then have "pl i = In RLIST" using i inv by (auto simp: sched_inv_def x_def c_def)
  obtain ts0 where ts0: "Q RLIST = Some ts0" using core by (auto simp: sched_core_def)
  have "i \<in> set ts0" using queuesD(2) [OF sched_coreD(1) [OF core] ts0] \<open>pl i = In RLIST\<close> by simp
  then obtain n ts where "ts0 = n # ts" by (cases ts0) auto
  with ts0 have ts: "Q RLIST = Some (n # ts)" by simp
  have n: "pl n = In RLIST" using queuesD(2) [OF sched_coreD(1) [OF core] ts, of n] by simp
  have nc: "n \<noteq> c" using n c by auto
  have qn: "q_next x RLIST = n" using ring_next [OF queuesD(1) [OF sched_coreD(1) [OF core] ts]] by simp
  let ?x = "next_current (park st r y)"
  note nx = next_current_core [OF Q'(1), of n ts, unfolded Q'(3), OF ts]
  let ?Q = "Q'(RLIST \<mapsto> ts)" and ?pl = "pl(c := p, n := Running)"
  have inv': "sched_inv ?Q ?pl S ?x"
  proof -
    have "sems_ok ?Q S (sem_cnt ?x)" using Q'(1,2) nx(6) by (auto simp: sems_ok_def sched_core_def)
    moreover have "\<forall>u. ?pl u = Running \<longleftrightarrow> u = n" "\<forall>u. ?pl u \<noteq> Limbo"
      using inv p nc by (auto simp: sched_inv_def x_def c_def)
    ultimately show ?thesis using nx(1,2) by (simp add: sched_inv_def)
  qed
  have conts: "cont ?x = (cont x)(c := Some r)" "\<And>u. u \<noteq> c \<Longrightarrow> th_u ?x u = th_u x u"
    using nx(4,5) y by simp_all
  have w': "waits {n} ds1 (vt_par s1) ?pl ?x"
  proof (rule waitsI)
    fix t assume t: "t \<in> set (timers ds1)"
    show "t = stack_vt (vt_par s1 t) \<and> cont ?x (vt_par s1 t) = Some (Disarm t)"
    proof (cases "t \<in> set (timers ds)")
      case True
      then have "t = stack_vt (vt_par s t)" "cont x (vt_par s t) = Some (Disarm t)"
        using waitsD(1) [OF w, of t] by (simp_all add: x_def)
      moreover from this have ne: "vt_par s t \<noteq> c" using cn by auto
      moreover have "t \<noteq> stack_vt c" using ne \<open>t = stack_vt (vt_par s t)\<close> by (metis stack_vt_simps(1))
      then have "vt_par s1 t = vt_par s t" using r by (auto simp: x_def [symmetric] c_def [symmetric])
      ultimately show ?thesis using conts(1) by simp
    next
      case False
      then have "r = Disarm (stack_vt c)" "t = stack_vt c" "vt_par s1 t = c"
        using r t by (auto simp: x_def [symmetric] c_def [symmetric] simp del: set_map)
      then show ?thesis using conts by simp
    qed
  next
    fix q v assume "cont ?x q = Some v"
    then show "(q \<in> {n} \<or> ?pl q \<noteq> Running) \<and> ?pl q \<notin> {Off, Starting}"
      using waitsD(2) [OF w, of q v] conts p nc by (auto simp: x_def split: if_splits)
  next
    fix q v assume "cont ?x q = Some v" "?pl q \<in> {In RLIST, Running}"
    then show "\<exists>m. th_u ?x q = U_rdymsg m"
      using waitsD(3) [OF w, of q v] conts n p nc by (auto simp: x_def split: if_splits)
  next
    fix q t assume "cont ?x q = Some (Disarm t)"
    then show "t = stack_vt q"
      using waitsD(4) [OF w, of q t] conts r by (auto simp: x_def c_def split: if_splits)
  next
    fix q assume "?pl q \<notin> {Off, Starting, Running, In RLIST}"
    then show "cont ?x q \<noteq> None" using waitsD(5) [OF w, of q] conts by (auto simp: x_def split: if_splits)
  next
    fix q t assume q: "cont ?x q = Some (Disarm t)" "?pl q \<notin> {Running, In RLIST}"
    show "t \<in> set (timers ds1)"
    proof (cases "q = c")
      case True
      then show ?thesis using q(1) conts r by (auto simp: x_def [symmetric] c_def [symmetric] simp del: set_map)
    next
      case False
      then have "t \<in> set (timers ds)"
        using waitsD(6) [OF w, of q t] q conts nc by (auto simp: x_def [symmetric] split: if_splits simp del: set_map)
      then show ?thesis using r by (auto simp del: set_map)
    qed
  qed
  let ?s = "vtimers.more_update (\<lambda>x. next_current (x\<lparr>
       th_state := (th_state x)(current x := st), cont := (cont x)(current x := Some r)\<rparr>)) s1"
  have sx: "thr ?s = ?x" "vt_par ?s = vt_par s1" "lags ?s = lags s1" by (cases s1; simp add: y_def park_def)+
  have g: "vt_good T1 L1 ds1 ?s" using good by simp
  have ii: "?pl i \<in> {In RLIST, Running}" using \<open>pl i = In RLIST\<close> \<open>i \<noteq> c\<close> by simp
  have dd: "dom ?Q = D" using Q'(4) D ts by auto
  have "sorted_wrt (\<lambda>a b. prio x b \<le> prio x a) (n # ts)" by (rule sched_coreD(5) [OF core ts])
  then have ord: "in_order (thr ?s)"
    using in_order_iff [OF nx(1), of ts] nx(2,3) y sx by simp
  have iD: "i \<notin> D" using ok by (simp add: kernel_ok_def)
  have iv: "sched_inv ?Q ?pl S (thr ?s)" using inv' sx by simp
  have ww: "waits {current (thr ?s)} ds1 (vt_par ?s) ?pl (thr ?s)" using w' nx(2) sx by simp
  obtain s' T' ds' where s': "chSysSwitch ?s = Inr s'" "T1 \<le> T'" "T' + sum_list (lags s') = T1 + sum_list (lags s1)"
    "kernel_ok i S D T' L1 ds' s'" "switched n ?x (thr s')" "in_order (thr s')"
    using switch_kernel_ok [OF g iv ww ii iD dd ord] unfolding sx nx(2) by blast
  moreover have "current (thr s') = n" using s'(5) nx(2) by (auto simp: switched_def split: option.splits)
  ultimately show ?thesis using qn
    by (intro kernel_returnsI [of _ s' T1 T']) (auto simp: chSchGoSleepS_def x_def)
qed

section \<open>The parts of going to sleep\<close>

text \<open>What a running thread can rely on.\<close>

lemma kernel_okE:
  assumes "kernel_ok i S D T L ds s"
  obtains Q pl where "vt_good T L ds s" "sched_inv Q pl S (thr s)" "waits {} ds (vt_par s) pl (thr s)"
    "pl i \<in> {In RLIST, Running}" "i \<notin> D" "dom Q = D"
  using assms by (auto simp: kernel_ok_def)

lemma running_no_wait:
  assumes "sched_inv Q pl S (thr s)" "waits {} ds (vt_par s) pl (thr s)"
  shows "cont (thr s) (current (thr s)) = None"
  using waitsD(2) [OF assms(2), of "current (thr s)"] assms(1)
  by (cases "cont (thr s) (current (thr s))") (auto simp: sched_inv_def)

text \<open>
  A thread that has entered the place where it waits goes to sleep, for good or with a timeout below
  \<open>2 ^ 31\<close> ticks.
\<close>

definition timeout_ok :: "sysinterval \<Rightarrow> bool" where
  "timeout_ok timeout \<longleftrightarrow> timeout = TIME_INFINITE \<or> (timeout \<noteq> 0 \<and> unat timeout < 2 ^ 31)"

lemma go_sleep_ok:
  assumes ok: "kernel_ok i S D T L ds s" and not_idle: "current (thr s) \<noteq> i"
    and ent: "\<And>Q pl. sched_inv Q pl S (thr s) \<Longrightarrow> dom Q = D \<Longrightarrow> entered Q pl S (thr s) p st (f (thr s))"
  shows "kernel_returns i S D T s (Some (chSchGoSleepS st Return (vtimers.more_update f s)))
    (\<lambda>s'. in_order (thr s') \<and> current (thr s') = q_next (thr s) RLIST)"
proof -
  obtain Q pl where k: "vt_good T L ds s" "sched_inv Q pl S (thr s)" "waits {} ds (vt_par s) pl (thr s)"
    "pl i \<in> {In RLIST, Running}" "i \<notin> D" "dom Q = D"
    using kernel_okE [OF ok] by blast
  let ?s = "vtimers.more_update f s"
  have sx: "thr ?s = f (thr s)" "vt_par ?s = vt_par s" "lags ?s = lags s" by (cases s; simp)+
  have "kernel_returns i S D T ?s (Some (chSchGoSleepS st Return ?s))
    (\<lambda>s'. in_order (thr s') \<and> current (thr s') = q_next (thr s) RLIST)"
    by (rule chSchGoSleepS_ok [OF ok not_idle k(2,3,6,4), where p = p])
      (use ent [OF k(2,6)] k(1) sx in simp_all)
  then show ?thesis by (simp add: kernel_returns_def sx)
qed

lemma go_sleep_timeout_ok:
  assumes ok: "kernel_ok i S D T L ds s" and not_idle: "current (thr s) \<noteq> i" and to: "timeout_ok timeout"
    and ent: "\<And>Q pl. sched_inv Q pl S (thr s) \<Longrightarrow> dom Q = D \<Longrightarrow> entered Q pl S (thr s) p st (f (thr s))"
  shows "kernel_returns i S D T s (chSchGoSleepTimeoutS st timeout (vtimers.more_update f s))
    (\<lambda>s'. in_order (thr s') \<and> current (thr s') = q_next (thr s) RLIST)"
proof (cases "timeout = TIME_INFINITE")
  case True
  then show ?thesis using go_sleep_ok [OF ok not_idle, of p st f] ent by (simp add: chSchGoSleepTimeoutS_def Let_def)
next
  case False
  obtain Q pl where k: "vt_good T L ds s" "sched_inv Q pl S (thr s)" "waits {} ds (vt_par s) pl (thr s)"
    "pl i \<in> {In RLIST, Running}" "i \<notin> D" "dom Q = D"
    using kernel_okE [OF ok] by blast
  let ?c = "current (thr s)" and ?s = "vtimers.more_update f s"
  have sx: "thr ?s = f (thr s)" "vt_par ?s = vt_par s" "lags ?s = lags s" by (cases s; simp)+
  have cur: "current (f (thr s)) = ?c" using ent [OF k(2,6)] by (simp add: entered_def)
  have good: "vt_good T L ds ?s" using k(1) by simp
  have free: "stack_vt ?c \<notin> set (timers ds)" by (rule waits_no_timer [OF k(3) running_no_wait [OF k(2,3)]])
  have d: "timeout \<noteq> 0" "unat timeout < 2 ^ 31" using to False by (auto simp: timeout_ok_def)
  obtain s' T' L' where s': "chVTDoSetI (Some (stack_vt ?c)) timeout (Some Wakeup) ?c ?s = Some (Inr s')" "T \<le> T'"
    "T' + sum_list (lags s') = T + sum_list (lags ?s)"
    "vt_good T' L' (vt_ins (stack_vt ?c) (T' + max 2 (unat timeout)) ds) s'"
    "vt_par s' = (vt_par ?s)(stack_vt ?c := ?c)" "thr s' = thr ?s"
    using vt_set_good [OF good _ free d, of Wakeup ?c] by auto
  have "kernel_returns i S D T' s' (Some (chSchGoSleepS st (Disarm (stack_vt ?c)) s'))
    (\<lambda>s'. in_order (thr s') \<and> current (thr s') = q_next (thr s) RLIST)"
    by (rule chSchGoSleepS_ok [OF ok not_idle k(2,3,6,4) _ s'(4)])
      (use ent [OF k(2,6)] s'(5,6) sx in simp_all)
  then obtain s2 T2 L2 ds2 where s2: "chSchGoSleepS st (Disarm (stack_vt ?c)) s' = Inr s2" "T' \<le> T2"
    "T2 + sum_list (lags s2) = T' + sum_list (lags s')" "kernel_ok i S D T2 L2 ds2 s2"
    "in_order (thr s2)" "current (thr s2) = q_next (thr s) RLIST"
    by (auto simp: kernel_returns_def)
  have "chSchGoSleepTimeoutS st timeout ?s = Some (Inr s2)"
    using False s'(1) s2(1) by (simp add: chSchGoSleepTimeoutS_def Let_def sx cur)
  then show ?thesis using s2 s'(2,3) sx by (intro kernel_returnsI [of _ s2 T T2]) auto
qed

end
