(* ===== verification/KernelWake.thy ===== *)
theory KernelWake
  imports KernelSleep
begin

text \<open>
  Waking one thread from a thread, with the switch to it when it is of higher priority: \<^verbatim>\<open>chSchWakeupS\<close>
  and the operations that end in it.
\<close>

declare One_nat_def [simp del]

lemma waits_handover:
  assumes w: "waits {} ds par pl x" and t: "pl t \<notin> {Off, Running, In RLIST}" and c: "pl c = Running" "cont x c = None"
    and same: "cont x' = cont x" "th_u x' = (th_u x)(t := U_rdymsg m)"
  shows "waits {t} ds par (pl(c := In RLIST, t := Running)) x'"
proof (rule waitsI)
  fix p r assume "cont x' p = Some r"
  then show "(p \<in> {t} \<or> (pl(c := In RLIST, t := Running)) p \<noteq> Running) \<and> (pl(c := In RLIST, t := Running)) p \<notin> {Off, Starting}"
    using waitsD(2) [OF w, of p r] same by auto
next
  fix p r assume "cont x' p = Some r" "(pl(c := In RLIST, t := Running)) p \<in> {In RLIST, Running}"
  then show "\<exists>m. th_u x' p = U_rdymsg m"
    using waitsD(3) [OF w, of p r] same t c by (auto split: if_splits)
next
  fix p u assume "cont x' p = Some (Disarm u)" "(pl(c := In RLIST, t := Running)) p \<notin> {Running, In RLIST}"
  then show "u \<in> set (timers ds)" using waitsD(6) [OF w, of p u] same by (auto split: if_splits)
qed (use waitsD(1,4,5) [OF w] same t c in \<open>auto split: if_splits\<close>)

text \<open>
  \<open>y\<close> is the state after the thread \<open>t\<close> has been taken out of the place it waited at.
\<close>

definition taken :: "queue_map \<Rightarrow> (nat \<Rightarrow> place) \<Rightarrow> nat set \<Rightarrow> threads \<Rightarrow> nat \<Rightarrow> threads \<Rightarrow> bool" where
  "taken Q pl S x t y \<longleftrightarrow>
     (\<exists>Q'. sched_core Q' (pl(t := Limbo)) S y \<and> sems_ok Q' S (sem_cnt y) \<and> Q' RLIST = Q RLIST \<and> dom Q' = dom Q) \<and>
     same_run x y \<and> th_u y = th_u x \<and> pl t \<notin> {Off, Running, In RLIST}"

lemma take_ready_ok:
  assumes inv: "sched_inv Q pl S x" and ord: "in_order x" and tk: "taken Q pl S x t y" and le: "prio x t \<le> prio x (current x)"
  shows "\<exists>x' Q'. chSchReadyI t (y\<lparr>th_u := (th_u y)(t := U_rdymsg m)\<rparr>) = Some (Inr x') \<and>
    sched_inv Q' (pl(t := In RLIST)) S x' \<and> woken pl (pl(t := In RLIST)) x x' \<and> dom Q' = dom Q \<and> in_order x'"
proof -
  obtain Q1 where Q1: "sched_core Q1 (pl(t := Limbo)) S y" "sems_ok Q1 S (sem_cnt y)" "Q1 RLIST = Q RLIST" "dom Q1 = dom Q"
    and y: "same_run x y" "th_u y = th_u x" and t: "pl t \<notin> {Off, Running, In RLIST}"
    using tk by (auto simp: taken_def)
  have core: "sched_core Q pl S x" using inv by (simp add: sched_inv_def)
  obtain ts where ts: "Q RLIST = Some ts" using core by (auto simp: sched_core_def)
  have 1: "Q1 RLIST = Some ts" "pl t \<noteq> Running" using Q1(3) ts t by auto
  obtain x' where x': "chSchReadyI t (y\<lparr>th_u := (th_u y)(t := U_rdymsg m)\<rparr>) = Some (Inr x')"
    "sched_inv (Q1(RLIST \<mapsto> behind (prio x) t ts)) (pl(t := In RLIST)) S x'"
    "th_u x' = (th_u x)(t := U_rdymsg m)" "same_run x x'"
    using inv_release [OF inv Q1(1) 1(1) Q1(2) 1(2) y, of m] by blast
  have "sched_core (Q1(RLIST \<mapsto> behind (prio x) t ts)) (pl(t := In RLIST)) S x'" using x'(2) by (simp add: sched_inv_def)
  from in_order_iff [OF this, of "behind (prio x) t ts"] have "in_order x'"
    using in_order_iff [OF core ts] ord le x'(4) by (simp add: same_run_def)
  moreover have "dom (Q1(RLIST \<mapsto> behind (prio x) t ts)) = dom Q" using Q1(4) ts by auto
  ultimately show ?thesis using x' woken_one [OF x'(4,3), of pl] t by blast
qed

lemma take_switch_core:
  assumes inv: "sched_inv Q pl S x" and ord: "in_order x" and tk: "taken Q pl S x t y" and less: "prio x (current x) < prio x t"
  shows "\<exists>x' Q'. bindP (chSchReadyI (current x) (y\<lparr>th_u := (th_u y)(t := U_rdymsg m)\<rparr>)) (\<lambda>x.
        Some (Inr (x\<lparr>current := t, th_state := (th_state x)(t := CH_STATE_CURRENT)\<rparr>))) = Some (Inr x') \<and>
    sched_inv Q' (pl(current x := In RLIST, t := Running)) S x' \<and> current x' = t \<and> cont x' = cont x \<and>
    th_u x' = (th_u x)(t := U_rdymsg m) \<and> dom Q' = dom Q \<and> in_order x'"
proof -
  obtain Q1 where Q1: "sched_core Q1 (pl(t := Limbo)) S y" "sems_ok Q1 S (sem_cnt y)" "Q1 RLIST = Q RLIST" "dom Q1 = dom Q"
    and y: "same_run x y" "th_u y = th_u x" and t: "pl t \<notin> {Off, Running, In RLIST}"
    using tk by (auto simp: taken_def)
  let ?c = "current x" and ?y = "y\<lparr>th_u := (th_u y)(t := U_rdymsg m)\<rparr>"
  have core: "sched_core Q pl S x" and c: "pl ?c = Running" using inv by (auto simp: sched_inv_def)
  have tc: "t \<noteq> ?c" using t c by auto
  obtain ts where ts: "Q RLIST = Some ts" using core by (auto simp: sched_core_def)
  have core1: "sched_core Q1 (pl(t := Limbo)) S ?y" by (rule core_set_u [OF Q1(1)]) simp
  have c1: "(pl(t := Limbo)) ?c \<in> {Limbo, Running, Asleep}" "Q1 RLIST = Some ts" using c tc Q1(3) ts by auto
  obtain p where p: "chSchReadyI ?c ?y = Some (Inr (ready_state ?c p ?y))"
    "sched_core (Q1(RLIST \<mapsto> behind (prio ?y) ?c ts)) (pl(t := Limbo, ?c := In RLIST)) S (ready_state ?c p ?y)"
    using chSchReadyI_core [OF core1 c1] by blast
  let ?Q = "Q1(RLIST \<mapsto> behind (prio ?y) ?c ts)" and ?z = "ready_state ?c p ?y"
  let ?x = "?z\<lparr>current := t, th_state := (th_state ?z)(t := CH_STATE_CURRENT)\<rparr>"
  have pls: "pl(t := Limbo, ?c := In RLIST, t := Running) = pl(?c := In RLIST, t := Running)" using tc by auto
  have sel: "prio ?x = prio x" "cont ?x = cont x" "th_u ?x = (th_u x)(t := U_rdymsg m)" "sem_cnt ?x = sem_cnt y"
    using y by (simp_all add: same_run_def)
  have core2: "sched_core ?Q (pl(?c := In RLIST, t := Running)) S ?x"
    unfolding pls [symmetric]
  proof (rule core_move [OF p(2)])
    show "queues (q_next ?x) (q_prev ?x) ?Q (pl(t := Limbo, ?c := In RLIST, t := Running))"
      using queues_move [of "q_next ?z" "q_prev ?z" ?Q "pl(t := Limbo, ?c := In RLIST)" t Running] sched_coreD(1) [OF p(2)] tc
      by simp
    show "thread_ref ?x r = Some u \<longleftrightarrow> (pl(t := Limbo, ?c := In RLIST, t := Running)) u = Ref r" for r u
      using sched_coreD(6) [OF p(2), of r u] tc by auto
  qed (use tc sched_coreD(5) [OF p(2)] in auto)
  have "RLIST \<notin> S" using core by (simp add: sched_core_def)
  then have "sems_ok ?Q S (sem_cnt ?x)" using Q1(2) sel(4) by (auto simp: sems_ok_def)
  moreover have "\<forall>u. (pl(?c := In RLIST, t := Running)) u = Running \<longleftrightarrow> u = t"
    "\<forall>u. (pl(?c := In RLIST, t := Running)) u \<noteq> Limbo"
    using inv by (auto simp: sched_inv_def)
  ultimately have inv': "sched_inv ?Q (pl(?c := In RLIST, t := Running)) S ?x"
    using core2 by (simp add: sched_inv_def)
  have "in_order ?x"
    using in_order_iff [OF core2, of "behind (prio ?y) ?c ts"] in_order_iff [OF core ts] ord less y(1) sel(1)
    by (fastforce simp: same_run_def)
  moreover have "dom ?Q = dom Q" using Q1(4) ts by auto
  ultimately show ?thesis using p(1) inv' sel(2,3)
    by - (rule exI [of _ ?x], rule exI [of _ ?Q], simp)
qed

lemma chSchWakeupS_ok:
  assumes ok: "kernel_ok i S D T L ds s" and ord: "in_order (thr s)"
    and tk: "\<And>Q pl. sched_inv Q pl S (thr s) \<Longrightarrow> dom Q = D \<Longrightarrow> taken Q pl S (thr s) t (f (thr s))"
  shows "kernel_returns i S D T s (chSchWakeupS t m (vtimers.more_update f s)) (\<lambda>s'. in_order (thr s'))"
proof -
  obtain Q pl where k: "vt_good T L ds s" "sched_inv Q pl S (thr s)" "waits {} ds (vt_par s) pl (thr s)"
    "pl i \<in> {In RLIST, Running}" "i \<notin> D" "dom Q = D"
    using kernel_okE [OF ok] by blast
  define x where "x = thr s"
  define y where "y = f x"
  have tk': "taken Q pl S x t y" using tk [OF k(2,6)] by (simp add: x_def y_def)
  have inv: "sched_inv Q pl S x" and core: "sched_core Q pl S x" and c: "pl (current x) = Running"
    and t: "pl t \<notin> {Off, Running, In RLIST}" and ordx: "in_order x"
    using k(2) ord tk' by (auto simp: sched_inv_def x_def taken_def)
  have cn: "cont x (current x) = None" using running_no_wait [OF k(2,3)] by (simp add: x_def)
  have w: "waits {} ds (vt_par s) pl x" using k(3) by (simp add: x_def)
  have sy: "prio y = prio x" "current y = current x" "th_u y = th_u x" using tk' by (auto simp: taken_def same_run_def)
  obtain ts where ts: "Q RLIST = Some ts" using core by (auto simp: sched_core_def)
  obtain Q1 where Q1: "sched_core Q1 (pl(t := Limbo)) S y" "Q1 RLIST = Some ts"
    using tk' ts by (auto simp: taken_def)
  have "firstprio RLIST y \<le> prio y (current y)"
    using in_order_iff [OF Q1] in_order_iff [OF core ts] ordx sy
    by (simp add: in_order_def chSchIsRescRequiredI_def)
  then have chk: "queue_isempty RLIST y \<or> firstprio RLIST y \<le> prio y (current y)" ..
  let ?y = "y\<lparr>th_u := (th_u y)(t := U_rdymsg m)\<rparr>"
  have sx: "thr (vtimers.more_update f s) = y" by (cases s) (simp add: x_def y_def)
  have more: "vtimers.more_update (\<lambda>_. z) (vtimers.more_update f s) = vtimers.more_update (\<lambda>_. z) s" for z by (cases s) simp
  show ?thesis
  proof (cases "prio x t \<le> prio x (current x)")
    case True
    obtain x' Q' where x': "chSchReadyI t ?y = Some (Inr x')" "sched_inv Q' (pl(t := In RLIST)) S x'"
      "woken pl (pl(t := In RLIST)) x x'" "dom Q' = dom Q" "in_order x'"
      using take_ready_ok [OF inv ordx tk' True, of m] by blast
    let ?s = "vtimers.more_update (\<lambda>_. x') s"
    have s': "thr ?s = x'" "vt_par ?s = vt_par s" "lags ?s = lags s" by (cases s; simp)+
    have eq: "chSchWakeupS t m (vtimers.more_update f s) = Some (Inr ?s)"
      using chk True x'(1) sy by (simp add: chSchWakeupS_def Let_def sx on_threads_def more)
    have "vt_good T L ds ?s" using k(1) by simp
    moreover have "(pl(t := In RLIST)) i \<in> {In RLIST, Running}" "dom Q' = D" using k(4,6) x'(4) by auto
    ultimately have "kernel_ok i S D T L ds ?s"
      unfolding kernel_ok_def s' using x'(2) k(5) waits_woken [OF w x'(3)] by blast
    with eq show ?thesis using x'(5) s' by (intro kernel_returnsI [of _ ?s T T]) auto
  next
    case False
    then have less: "prio x (current x) < prio x t" by simp
    obtain x' Q' where x': "bindP (chSchReadyI (current x) ?y) (\<lambda>x.
        Some (Inr (x\<lparr>current := t, th_state := (th_state x)(t := CH_STATE_CURRENT)\<rparr>))) = Some (Inr x')"
      "sched_inv Q' (pl(current x := In RLIST, t := Running)) S x'" "current x' = t" "cont x' = cont x"
      "th_u x' = (th_u x)(t := U_rdymsg m)" "dom Q' = dom Q" "in_order x'"
      using take_switch_core [OF inv ordx tk' less, of m] by blast
    let ?s = "vtimers.more_update (\<lambda>_. x') s"
    have s': "thr ?s = x'" "vt_par ?s = vt_par s" "lags ?s = lags s" by (cases s; simp)+
    have eq: "chSchWakeupS t m (vtimers.more_update f s) = Some (chSysSwitch ?s)"
      using chk False x'(1) sy by (auto simp: chSchWakeupS_def Let_def sx on_threads_def more)
    have g: "vt_good T L ds ?s" using k(1) by simp
    have iv: "sched_inv Q' (pl(current x := In RLIST, t := Running)) S (thr ?s)" using x'(2) s' by simp
    have ww: "waits {current (thr ?s)} ds (vt_par ?s) (pl(current x := In RLIST, t := Running)) (thr ?s)"
      using waits_handover [OF w t c cn x'(4,5)] s' x'(3) by simp
    have ii: "(pl(current x := In RLIST, t := Running)) i \<in> {In RLIST, Running}" using k(4) by auto
    have dd: "dom Q' = D" using x'(6) k(6) by simp
    have oo: "in_order (thr ?s)" using x'(7) s' by simp
    obtain s2 T2 ds2 where "chSysSwitch ?s = Inr s2" "T \<le> T2" "T2 + sum_list (lags s2) = T + sum_list (lags ?s)"
      "kernel_ok i S D T2 L ds2 s2" "in_order (thr s2)"
      using switch_kernel_ok [OF g iv ww ii k(5) dd oo] by blast
    then show ?thesis using eq s' by (intro kernel_returnsI [of _ s2 T T2]) auto
  qed
qed

end
