(* ===== verification/KernelOps.thy ===== *)
theory KernelOps
  imports KernelWake
begin

text \<open>
  The operations of the kernel, each with the invariant of \<^verbatim>\<open>KernelWait\<close>: sleeping, suspending, queueing,
  semaphores, waking and creating threads, and resetting a semaphore.
\<close>

declare One_nat_def [simp del]

section \<open>Waiting\<close>

lemma update_id [simp]: "vtimers.more_update (\<lambda>x. x) s = s"
  by (cases s) simp

lemma chThdSleepS_ok:
  assumes "kernel_ok i S D T L ds s" "current (thr s) \<noteq> i" "timeout_ok timeout"
  shows "kernel_returns i S D T s (chThdSleepS timeout s) (\<lambda>s'. in_order (thr s'))"
proof -
  have "timeout \<noteq> TIME_IMMEDIATE" using assms(3) by (auto simp: timeout_ok_def TIME_IMMEDIATE_def TIME_INFINITE_def)
  then show ?thesis
    using kernel_returns_mono [OF go_sleep_timeout_ok [OF assms, where p = Asleep and f = "\<lambda>x. x" and st = CH_STATE_SLEEPING]]
      enter_sleep
    by (simp add: chThdSleepS_def)
qed

lemma return_now_ok:
  assumes "kernel_ok i S D T L ds s" "in_order (thr s)"
  shows "kernel_returns i S D T s (Some (Inr (return_now m s))) (\<lambda>s'. in_order (thr s'))"
proof (rule kernel_returnsI [of _ "return_now m s"])
  have sx: "thr (return_now m s) = (thr s)\<lparr>returned := returned (thr s) @ [(current (thr s), m)]\<rparr>"
    "vt_par (return_now m s) = vt_par s" "lags (return_now m s) = lags s"
    by (cases s; simp add: return_now_def)+
  have "waits {} ds par pl (x\<lparr>returned := r\<rparr>) = waits {} ds par pl x" for ds par pl r and x :: threads
    by (simp add: waits_def)
  then show "kernel_ok i S D T L ds (return_now m s)"
    using assms(1) by (simp add: kernel_ok_def sx) (simp add: return_now_def)
  show "in_order (thr (return_now m s))"
    using assms(2) by (simp add: sx in_order_def chSchIsRescRequiredI_def firstprio_def)
  show "T + sum_list (lags (return_now m s)) = T + sum_list (lags s)" by (simp add: sx)
qed simp_all

lemma chThdSuspendS_ok:
  assumes "kernel_ok i S D T L ds s" "current (thr s) \<noteq> i" "thread_ref (thr s) r = None"
  shows "kernel_returns i S D T s (Some (chThdSuspendS r s)) (\<lambda>s'. in_order (thr s'))"
  using kernel_returns_mono [OF go_sleep_ok [OF assms(1,2), where p = "Ref r" and st = CH_STATE_SUSPENDED
      and f = "\<lambda>x. x\<lparr>thread_ref := (thread_ref x)(r := Some (current x)), th_u := (th_u x)(current x := U_wttrp r)\<rparr>"]]
    enter_ref assms(3)
  by (simp add: chThdSuspendS_def set_ref_def)

lemma chThdSuspendTimeoutS_ok:
  assumes "kernel_ok i S D T L ds s" "in_order (thr s)" "thread_ref (thr s) r = None"
    "timeout \<noteq> TIME_IMMEDIATE \<Longrightarrow> current (thr s) \<noteq> i \<and> timeout_ok timeout"
  shows "kernel_returns i S D T s (chThdSuspendTimeoutS r timeout s) (\<lambda>s'. in_order (thr s'))"
proof (cases "timeout = TIME_IMMEDIATE")
  case True
  then show ?thesis using return_now_ok [OF assms(1,2)] assms(3) by (simp add: chThdSuspendTimeoutS_def)
next
  case False
  then show ?thesis
    using kernel_returns_mono [OF go_sleep_timeout_ok [OF assms(1), where p = "Ref r" and st = CH_STATE_SUSPENDED
      and f = "\<lambda>x. x\<lparr>thread_ref := (thread_ref x)(r := Some (current x)), th_u := (th_u x)(current x := U_wttrp r)\<rparr>"]]
      enter_ref assms(3,4)
    by (simp add: chThdSuspendTimeoutS_def set_ref_def)
qed

lemma thdEnqueueTimeoutS_ok:
  assumes ok: "kernel_ok i S D T L ds s" "in_order (thr s)" and q: "q \<in> D" "q \<noteq> RLIST" "q \<notin> S"
    and to: "timeout \<noteq> TIME_IMMEDIATE \<Longrightarrow> current (thr s) \<noteq> i \<and> timeout_ok timeout"
  shows "kernel_returns i S D T s (thdEnqueueTimeoutS q timeout s) (\<lambda>s'. in_order (thr s'))"
proof (cases "timeout = TIME_IMMEDIATE")
  case True
  then show ?thesis using return_now_ok [OF ok] by (simp add: thdEnqueueTimeoutS_def)
next
  case False
  have "entered Q pl S (thr s) (In q) CH_STATE_QUEUED (queue_insert (current (thr s)) q (thr s))"
    if inv: "sched_inv Q pl S (thr s)" and D: "dom Q = D" for Q pl
  proof -
    obtain ts where ts: "Q q = Some ts" using q D by auto
    have "sems_ok (Q(q \<mapsto> ts @ [current (thr s)])) S (sem_cnt (thr s))"
      using inv q by (auto simp: sched_inv_def sems_ok_def)
    then show ?thesis using q by (intro enter_queue [OF inv ts]) simp_all
  qed
  then show ?thesis
    using kernel_returns_mono [OF go_sleep_timeout_ok [OF ok(1), where p = "In q" and st = CH_STATE_QUEUED
      and f = "\<lambda>x. queue_insert (current x) q x"]] to False
    by (simp add: thdEnqueueTimeoutS_def)
qed

lemma enter_sem:
  assumes inv: "sched_inv Q pl S x" and sp: "sp \<in> S" and neg: "sem_cnt x sp < 1"
  shows "entered Q pl S x (In sp) CH_STATE_WTSEM (sem_enqueue sp (sem_add sp (-1) x))"
proof -
  have "sp \<in> dom Q" and nr: "sp \<noteq> RLIST" using inv sp by (auto simp: sched_inv_def sched_core_def)
  then obtain ts where ts: "Q sp = Some ts" by blast
  have sems: "sems_ok Q S (sem_cnt x)" using inv by (simp add: sched_inv_def)
  let ?z = "(sem_add sp (-1) x)\<lparr>th_u := (th_u x)(current x := U_wtobjp sp)\<rparr>"
  have c: "if ts = [] then 0 \<le> sem_cnt x sp else sem_cnt x sp = - int (length ts)"
    using sems sp ts by (simp add: sems_ok_def)
  then have "sems_ok (Q(sp \<mapsto> ts @ [current x])) S (sem_cnt ?z)"
    using sems neg by (auto simp: sems_ok_def sem_add_def split: if_splits)
  then show ?thesis using sp nr
    by (intro enter_queue [OF inv ts nr, where z = ?z]) (simp_all add: sem_enqueue_def sem_add_def)
qed

lemma waits_sem_cnt [simp]: "waits E ds par pl (x\<lparr>sem_cnt := c\<rparr>) = waits E ds par pl x"
  by (simp add: waits_def)

text \<open>Counting a free semaphore down or up.\<close>

lemma sem_count_ok:
  assumes ok: "kernel_ok i S D T L ds s" and sp: "sp \<in> S" and free: "0 \<le> sem_cnt (thr s) sp" "0 \<le> sem_cnt (thr s) sp + d"
  shows "kernel_ok i S D T L ds (vtimers.more_update (sem_add sp d) s)"
proof -
  obtain Q pl where k: "vt_good T L ds s" "sched_inv Q pl S (thr s)" "waits {} ds (vt_par s) pl (thr s)"
    "pl i \<in> {In RLIST, Running}" "i \<notin> D" "dom Q = D"
    using kernel_okE [OF ok] by blast
  have sx: "thr (vtimers.more_update (sem_add sp d) s) = (thr s)\<lparr>sem_cnt := (sem_cnt (thr s))(sp := sem_cnt (thr s) sp + d)\<rparr>"
    "vt_par (vtimers.more_update (sem_add sp d) s) = vt_par s"
    by (cases s; simp add: sem_add_def)+
  have "sems_ok Q S ((sem_cnt (thr s))(sp := sem_cnt (thr s) sp + d))"
    unfolding sems_ok_def
  proof (intro ballI allI impI)
    fix h ts assume h: "h \<in> S" "Q h = Some ts"
    then have "if ts = [] then 0 \<le> sem_cnt (thr s) h else sem_cnt (thr s) h = - int (length ts)"
      using k(2) by (simp add: sched_inv_def sems_ok_def)
    then show "if ts = [] then 0 \<le> ((sem_cnt (thr s))(sp := sem_cnt (thr s) sp + d)) h
        else ((sem_cnt (thr s))(sp := sem_cnt (thr s) sp + d)) h = - int (length ts)"
      using free by (cases "h = sp") (auto split: if_splits)
  qed
  then have "sched_inv Q pl S ((thr s)\<lparr>sem_cnt := (sem_cnt (thr s))(sp := sem_cnt (thr s) sp + d)\<rparr>)"
    using k(2) by (simp add: sched_inv_def)
  then show ?thesis unfolding kernel_ok_def sx using k by auto
qed

lemma sem_add_cnt [simp]: "sem_cnt (sem_add sp d x) sp = sem_cnt x sp + d"
  by (simp add: sem_add_def)

lemma in_order_sem_add [simp]: "in_order (sem_add sp d x) = in_order x"
  by (simp add: in_order_def chSchIsRescRequiredI_def firstprio_def sem_add_def)

lemma kernel_sem_consistent: "kernel_ok i S D T L ds s \<Longrightarrow> sp \<in> S \<Longrightarrow> sem_consistent sp (thr s)"
  by (auto simp: kernel_ok_def intro: sem_consistent_inv)

lemma more_sem_add [simp]:
  "sem_cnt (thr (vtimers.more_update (sem_add sp d) s)) sp = sem_cnt (thr s) sp + d"
  "in_order (thr (vtimers.more_update (sem_add sp d) s)) = in_order (thr s)"
  "lags (vtimers.more_update (sem_add sp d) s) = lags s"
  by (cases s; simp add: sem_add_def[of sp d "vtimers.more s"])+

lemma more_update_comp: "vtimers.more_update f (vtimers.more_update g s) = vtimers.more_update (\<lambda>x. f (g x)) s"
  by (cases s) simp

lemma kernel_returns_lags:
  "kernel_returns i S D T s r P \<Longrightarrow> lags s' = lags s \<Longrightarrow> kernel_returns i S D T s' r P"
  by (simp add: kernel_returns_def)

lemma chSemWaitS_ok:
  assumes ok: "kernel_ok i S D T L ds s" "in_order (thr s)" and sp: "sp \<in> S"
    and idle: "sem_cnt (thr s) sp < 1 \<Longrightarrow> current (thr s) \<noteq> i"
  shows "kernel_returns i S D T s (Some (chSemWaitS sp s)) (\<lambda>s'. in_order (thr s'))"
proof (cases "sem_cnt (thr s) sp < 1")
  case True
  then show ?thesis
    using kernel_returns_mono [OF go_sleep_ok [OF ok(1), where p = "In sp" and st = CH_STATE_WTSEM
      and f = "\<lambda>x. sem_enqueue sp (sem_add sp (-1) x)"]] idle enter_sem sp kernel_sem_consistent [OF ok(1) sp]
    by (simp add: chSemWaitS_def Let_def more_update_comp)
next
  case False
  let ?s = "vtimers.more_update (sem_add sp (-1)) s"
  have "kernel_ok i S D T L ds ?s" using sem_count_ok [OF ok(1) sp, of "-1"] False by simp
  from return_now_ok [OF this, of MSG_OK] show ?thesis
    using False ok(2) kernel_sem_consistent [OF ok(1) sp]
    by (simp add: chSemWaitS_def Let_def kernel_returns_lags [of i S D T ?s])
qed

lemma chSemWaitTimeoutS_ok:
  assumes ok: "kernel_ok i S D T L ds s" "in_order (thr s)" and sp: "sp \<in> S"
    and idle: "sem_cnt (thr s) sp < 1 \<Longrightarrow> timeout \<noteq> TIME_IMMEDIATE \<Longrightarrow> current (thr s) \<noteq> i \<and> timeout_ok timeout"
  shows "kernel_returns i S D T s (chSemWaitTimeoutS sp timeout s) (\<lambda>s'. in_order (thr s'))"
proof (cases "sem_cnt (thr s) sp < 1")
  case True
  show ?thesis
  proof (cases "timeout = TIME_IMMEDIATE")
    case False
    then show ?thesis
      using kernel_returns_mono [OF go_sleep_timeout_ok [OF ok(1), where p = "In sp" and st = CH_STATE_WTSEM
        and f = "\<lambda>x. sem_enqueue sp (sem_add sp (-1) x)"]] idle True enter_sem sp kernel_sem_consistent [OF ok(1) sp]
      by (simp add: chSemWaitTimeoutS_def Let_def more_update_comp)
  next
    case imm: True
    have "vtimers.more_update (\<lambda>x. sem_add sp 1 (sem_add sp (-1) x)) s = s"
      by (cases s) (simp add: sem_add_def)
    then show ?thesis using True imm return_now_ok [OF ok] kernel_sem_consistent [OF ok(1) sp]
      by (simp add: chSemWaitTimeoutS_def Let_def more_update_comp)
  qed
next
  case False
  let ?s = "vtimers.more_update (sem_add sp (-1)) s"
  have "kernel_ok i S D T L ds ?s" using sem_count_ok [OF ok(1) sp, of "-1"] False by simp
  from return_now_ok [OF this, of MSG_OK] show ?thesis
    using False ok(2) kernel_sem_consistent [OF ok(1) sp]
    by (simp add: chSemWaitTimeoutS_def Let_def kernel_returns_lags [of i S D T ?s])
qed

end
