(* ===== verification/KernelIops.thy ===== *)
theory KernelIops
  imports KernelOps
begin

text \<open>
  Waking threads from threads and from interrupts: resuming, signalling, dequeueing and resetting, creating
  a thread, and the interrupt of the timer.
\<close>

declare One_nat_def [simp del]

section \<open>Waking with a switch\<close>

lemma chThdResumeS_ok:
  assumes ok: "kernel_ok i S D T L ds s" and ord: "in_order (thr s)"
  shows "kernel_returns i S D T s (chThdResumeS r m s) (\<lambda>s'. in_order (thr s'))"
proof (cases "thread_ref (thr s) r")
  case None
  then show ?thesis using ok ord by (intro kernel_returnsI [of _ s T T]) (auto simp: chThdResumeS_def)
next
  case (Some t)
  obtain Q0 pl0 where "sched_inv Q0 pl0 S (thr s)" using ok by (auto simp: kernel_ok_def)
  then have core0: "sched_core Q0 pl0 S (thr s)" by (simp add: sched_inv_def)
  have "th_state (thr s) t = CH_STATE_SUSPENDED"
    using sched_coreD(2) [OF core0, of t] sched_coreD(6) [OF core0, of r t] Some by simp
  moreover have "taken Q pl S (thr s) t ((thr s)\<lparr>thread_ref := (thread_ref (thr s))(r := None)\<rparr>)"
    if inv: "sched_inv Q pl S (thr s)" for Q pl
  proof -
    have core: "sched_core Q pl S (thr s)" and sems: "sems_ok Q S (sem_cnt (thr s))" using inv by (auto simp: sched_inv_def)
    have t: "pl t = Ref r" using sched_coreD(6) [OF core, of r t] Some by simp
    show ?thesis unfolding taken_def using core_clear_ref [OF core t] sems t
      by - (intro conjI exI [of _ Q]; simp add: same_run_def)
  qed
  ultimately show ?thesis using chSchWakeupS_ok [OF ok ord, of t] Some by (simp add: chThdResumeS_def)
qed

lemma chSemSignal_ok:
  assumes ok: "kernel_ok i S D T L ds s" and ord: "in_order (thr s)" and sp: "sp \<in> S"
  shows "kernel_returns i S D T s (chSemSignal sp s) (\<lambda>s'. in_order (thr s'))"
proof -
  obtain Q0 pl0 where inv0: "sched_inv Q0 pl0 S (thr s)" using ok by (auto simp: kernel_ok_def)
  then have "sp \<in> dom Q0" and nr: "sp \<noteq> RLIST" using sp by (auto simp: sched_inv_def sched_core_def)
  then obtain ts where ts: "Q0 sp = Some ts" by blast
  have c: "if ts = [] then 0 \<le> sem_cnt (thr s) sp else sem_cnt (thr s) sp = - int (length ts)"
    using inv0 sp ts by (simp add: sched_inv_def sems_ok_def)
  show ?thesis
  proof (cases ts)
    case Nil
    then have "kernel_ok i S D T L ds (vtimers.more_update (sem_add sp 1) s)"
      using sem_count_ok [OF ok sp, of 1] c by simp
    then show ?thesis using c Nil ord kernel_sem_consistent [OF ok sp]
      by (intro kernel_returnsI [of _ "vtimers.more_update (sem_add sp 1) s" T T]) (auto simp: chSemSignal_def Let_def)
  next
    case (Cons t us)
    have r: "ring (q_next (thr s)) (q_prev (thr s)) sp (t # us)"
      using queuesD(1) [of "q_next (thr s)" "q_prev (thr s)" Q0 pl0 sp] inv0 ts Cons by (simp add: sched_inv_def sched_core_def)
    then have fifo: "queue_fifo_remove sp (sem_add sp 1 (thr s)) = (t, queue_dequeue t (sem_add sp 1 (thr s)))"
      by (intro queue_fifo_remove_eq [where ts = us]) (simp add: sem_add_def)
    have "taken Q pl S (thr s) t (queue_dequeue t (sem_add sp 1 (thr s)))"
      if inv: "sched_inv Q pl S (thr s)" for Q pl
    proof -
      have core: "sched_core Q pl S (thr s)" and sems: "sems_ok Q S (sem_cnt (thr s))"
        and qs: "queues (q_next (thr s)) (q_prev (thr s)) Q pl"
        using inv by (auto simp: sched_inv_def sched_core_def)
      obtain vs where vs: "Q sp = Some vs" using core sp by (fastforce simp: sched_core_def)
      have "q_next (thr s) sp = hd (vs @ [sp])" using ring_next [OF queuesD(1) [OF qs vs]] .
      moreover have "q_next (thr s) sp = t" "t \<noteq> sp" using r ring_next [OF r] by (auto simp: ring_def)
      ultimately obtain ws where ws: "vs = t # ws" by (cases vs) auto
      have t: "pl t = In sp" using queuesD(2) [OF qs vs, of t] ws by simp
      have "sched_core Q pl S (sem_add sp 1 (thr s))" using core by (simp add: sem_add_def)
      then have 1: "sched_core (Q(sp \<mapsto> ws)) (pl(t := Limbo)) S (queue_dequeue t (sem_add sp 1 (thr s)))"
        using queue_dequeue_core [of Q pl S _ sp "[]" t ws] vs ws nr by simp
      have 2: "sems_ok (Q(sp \<mapsto> ws)) S (sem_cnt (queue_dequeue t (sem_add sp 1 (thr s))))"
        using sems_ok_leave [OF sems vs, of ws] ws sp by (simp add: sem_add_def)
      show ?thesis
        unfolding taken_def
        by (intro conjI exI [of _ "Q(sp \<mapsto> ws)"] 1 2) (use t nr vs in \<open>auto simp: same_run_def sem_add_def\<close>)
    qed
    then have "kernel_returns i S D T s
        (chSchWakeupS t MSG_OK (vtimers.more_update (\<lambda>_. queue_dequeue t (sem_add sp 1 (thr s))) s)) (\<lambda>s'. in_order (thr s'))"
      by (rule chSchWakeupS_ok [OF ok ord])
    moreover have "thr (vtimers.more_update (sem_add sp 1) s) = sem_add sp 1 (thr s)" by (cases s) simp
    ultimately show ?thesis
      using c Cons fifo kernel_sem_consistent [OF ok sp]
      by (simp add: chSemSignal_def Let_def more_update_comp)
  qed
qed

section \<open>Waking from an interrupt\<close>

text \<open>The operations an interrupt handler may call, and threads inside a critical section.\<close>

datatype iop = DequeueNextI nat msg | DequeueAllI nat msg | SignalI nat | ResumeI nat msg | SemResetI nat int

fun irun :: "iop \<Rightarrow> threads \<Rightarrow> threads diverge" where
  "irun (DequeueNextI q m) = thdDequeueNextI q m"
| "irun (DequeueAllI q m) = thdDequeueAllI q m"
| "irun (SignalI sp) = chSemSignalI sp"
| "irun (ResumeI r m) = chThdResumeI r m"
| "irun (SemResetI sp n) = chSemResetI sp n"

fun iop_guard :: "nat set \<Rightarrow> nat set \<Rightarrow> iop \<Rightarrow> bool" where
  "iop_guard S D (DequeueNextI q m) = (q \<in> D \<and> q \<noteq> RLIST \<and> q \<notin> S)"
| "iop_guard S D (DequeueAllI q m) = (q \<in> D \<and> q \<noteq> RLIST \<and> q \<notin> S)"
| "iop_guard S D (SignalI sp) = (sp \<in> S)"
| "iop_guard S D (ResumeI r m) = True"
| "iop_guard S D (SemResetI sp n) = (sp \<in> S \<and> 0 \<le> n)"

definition wakes :: "nat set \<Rightarrow> queue_map \<Rightarrow> (nat \<Rightarrow> place) \<Rightarrow> threads \<Rightarrow> threads diverge \<Rightarrow> bool" where
  "wakes S Q pl x r \<longleftrightarrow> (\<exists>x' Q' pl'. r = Some (Inr x') \<and> sched_inv Q' pl' S x' \<and> woken pl pl' x x' \<and> dom Q' = dom Q)"

lemma wakes_released:
  assumes "r = Some (Inr x')" "same_run x x'" "sched_inv (released (prio x) t p Q) (pl(t := In RLIST)) S x'" "pl t = p"
    "th_u x' = (th_u x)(t := U_rdymsg m)" "sched_inv Q pl S x" "p \<notin> {Off, Running, In RLIST}"
  shows "wakes S Q pl x r"
  unfolding wakes_def
  using assms woken_one [OF assms(2,5), of pl] released_inv [OF assms(6), of "prio x" t] by auto

lemma chSemSignalI_wakes:
  assumes inv: "sched_inv Q pl S x" and sp: "sp \<in> S"
  shows "wakes S Q pl x (chSemSignalI sp x)"
proof -
  have "sp \<in> dom Q" and nr: "sp \<noteq> RLIST" using inv sp by (auto simp: sched_inv_def sched_core_def)
  then obtain ts where ts: "Q sp = Some ts" by blast
  obtain x' where x': "chSemSignalI sp x = Some (Inr x')" "same_run x x'"
    "case ts of [] \<Rightarrow> x' = sem_add sp 1 x \<and> sched_inv Q pl S x'
     | t # _ \<Rightarrow> sched_inv (released (prio x) t (In sp) Q) (pl(t := In RLIST)) S x' \<and> pl t = In sp \<and>
         th_u x' = (th_u x)(t := U_rdymsg MSG_OK)"
    using chSemSignalI_ok [OF inv sp ts] by blast
  show ?thesis
  proof (cases ts)
    case Nil
    then have "woken pl pl x x'" using x'(2,3) by (simp add: woken_def sem_add_def)
    then show ?thesis using x' Nil unfolding wakes_def by auto
  next
    case (Cons t us)
    then show ?thesis using wakes_released [OF x'(1,2) _ _ _ inv] x'(3) nr by auto
  qed
qed

lemma chThdResumeI_wakes:
  assumes inv: "sched_inv Q pl S x"
  shows "wakes S Q pl x (chThdResumeI r m x)"
proof -
  obtain x' where x': "chThdResumeI r m x = Some (Inr x')" "same_run x x'"
    "case thread_ref x r of None \<Rightarrow> x' = x
     | Some t \<Rightarrow> sched_inv (released (prio x) t (Ref r) Q) (pl(t := In RLIST)) S x' \<and> pl t = Ref r \<and>
         th_u x' = (th_u x)(t := U_rdymsg m)"
    using chThdResumeI_ok [OF inv] by blast
  show ?thesis
  proof (cases "thread_ref x r")
    case None
    then show ?thesis using x' inv unfolding wakes_def
      by - (rule exI [of _ x], rule exI [of _ Q], rule exI [of _ pl], simp)
  next
    case (Some t)
    then show ?thesis using wakes_released [OF x'(1,2) _ _ _ inv] x'(3) by auto
  qed
qed

text \<open>Resetting a semaphore: its threads become ready, the last one first.\<close>

lemma sem_reset_loop_ok:
  assumes "sched_core Q pl S x" "sp \<in> S" "Q sp = Some ts" "if ts = [] then 0 \<le> cnt else cnt = - int (length ts)"
  shows "\<exists>x' Q' pl'. sem_reset_loop sp cnt x = Some (Inr x') \<and> sched_core Q' pl' S x' \<and> woken pl pl' x x' \<and>
    Q' sp = Some [] \<and> dom Q' = dom Q \<and> sem_cnt x' = sem_cnt x \<and> (\<forall>h \<in> S - {sp}. Q' h = Q h)"
  using assms
proof (induction ts arbitrary: Q pl x cnt rule: rev_induct)
  case Nil
  then show ?case
    by - (rule exI [of _ x], rule exI [of _ Q], rule exI [of _ pl], simp add: sem_reset_loop.simps [of sp cnt x])
next
  case (snoc t ts)
  have core: "sched_core Q pl S x" by (rule snoc.prems(1))
  have sp: "sp \<noteq> RLIST" "RLIST \<notin> S" using snoc.prems(1,2) by (auto simp: sched_core_def)
  have qs: "queues (q_next x) (q_prev x) Q pl" using core by (simp add: sched_core_def)
  have t: "pl t = In sp" using queuesD(2) [OF qs snoc.prems(3), of t] by simp
  obtain rs where rs: "Q RLIST = Some rs" using core by (auto simp: sched_core_def)
  have lifo: "queue_lifo_remove sp x = (t, queue_dequeue t x)"
    by (rule queue_lifo_remove_eq [OF queuesD(1) [OF qs snoc.prems(3)]])
  have c1: "sched_core (Q(sp \<mapsto> ts)) (pl(t := Limbo)) S (queue_dequeue t x)"
    using queue_dequeue_core [OF core, of sp ts t "[]"] snoc.prems(3) sp by simp
  obtain p where p: "chSchReadyI t (queue_dequeue t x) = Some (Inr (ready_state t p (queue_dequeue t x)))"
    "sched_core (Q(sp \<mapsto> ts, RLIST \<mapsto> behind (prio x) t rs)) (pl(t := In RLIST)) S (ready_state t p (queue_dequeue t x))"
    using chSchReadyI_core [OF c1, of t rs] rs sp by auto
  let ?y = "ready_state t p (queue_dequeue t x)" and ?Q = "Q(sp \<mapsto> ts, RLIST \<mapsto> behind (prio x) t rs)"
  let ?z = "?y\<lparr>th_u := (th_u ?y)(t := U_rdymsg MSG_RESET)\<rparr>"
  have c2: "sched_core ?Q (pl(t := In RLIST)) S ?z" by (rule core_set_u [OF p(2)]) simp
  have Qsp: "?Q sp = Some ts" using sp by simp
  have cnt: "if ts = [] then 0 \<le> cnt + 1 else cnt + 1 = - int (length ts)" "cnt + 1 \<le> 0"
    using snoc.prems(4) by (auto split: if_splits)
  obtain x' Q' pl' where IH: "sem_reset_loop sp (cnt + 1) ?z = Some (Inr x')" "sched_core Q' pl' S x'"
    "woken (pl(t := In RLIST)) pl' ?z x'" "Q' sp = Some []" "dom Q' = dom ?Q" "sem_cnt x' = sem_cnt ?z"
    "\<forall>h \<in> S - {sp}. Q' h = ?Q h"
    using snoc.IH [OF c2 snoc.prems(2) Qsp cnt(1)] by blast
  have "woken pl (pl(t := In RLIST)) x ?z"
    by (rule woken_one [of _ _ _ MSG_RESET]) (use t sp in \<open>simp_all add: same_run_def\<close>)
  from woken_trans [OF this IH(3)] have "woken pl pl' x x'" .
  moreover have "sem_reset_loop sp cnt x = sem_reset_loop sp (cnt + 1) ?z"
    using cnt(2) lifo p(1) by (simp add: sem_reset_loop.simps [of sp cnt x] Let_def)
  moreover have "dom Q' = dom Q" using IH(5) rs snoc.prems(3) by auto
  moreover have "\<forall>h \<in> S - {sp}. Q' h = Q h" using IH(7) sp by auto
  ultimately show ?case using IH by - (rule exI [of _ x'], rule exI [of _ Q'], rule exI [of _ pl'], simp)
qed

lemma woken_places: "woken pl pl' x x' \<Longrightarrow> (\<forall>t. pl t \<noteq> Limbo) \<Longrightarrow> pl' t \<noteq> Limbo"
proof -
  assume "woken pl pl' x x'" and l: "\<forall>t. pl t \<noteq> Limbo"
  then have "pl' t = pl t \<or> pl' t = In RLIST" by (auto simp: woken_def)
  with l show ?thesis by auto
qed

lemma chSemResetI_wakes:
  assumes inv: "sched_inv Q pl S x" and sp: "sp \<in> S" and n: "0 \<le> n"
  shows "wakes S Q pl x (chSemResetI sp n x)"
proof -
  have core: "sched_core Q pl S x" and sems: "sems_ok Q S (sem_cnt x)" using inv by (auto simp: sched_inv_def)
  have "sp \<in> dom Q" using core sp by (auto simp: sched_core_def)
  then obtain ts where ts: "Q sp = Some ts" by blast
  let ?x = "x\<lparr>sem_cnt := (sem_cnt x)(sp := n)\<rparr>"
  have c: "sched_core Q pl S ?x" "if ts = [] then 0 \<le> sem_cnt x sp else sem_cnt x sp = - int (length ts)"
    using core sems sp ts by (simp_all add: sems_ok_def)
  obtain x' Q' pl' where x': "sem_reset_loop sp (sem_cnt x sp) ?x = Some (Inr x')" "sched_core Q' pl' S x'" "woken pl pl' ?x x'"
    "Q' sp = Some []" "dom Q' = dom Q" "sem_cnt x' = sem_cnt ?x" "\<forall>h \<in> S - {sp}. Q' h = Q h"
    using sem_reset_loop_ok [OF c(1) sp ts c(2)] by blast
  have w: "woken pl pl' x x'" using x'(3) by (simp add: woken_def same_run_def)
  have "sems_ok Q' S (sem_cnt x')"
    unfolding sems_ok_def
  proof (intro ballI allI impI)
    fix h us assume h: "h \<in> S" "Q' h = Some us"
    show "if us = [] then 0 \<le> sem_cnt x' h else sem_cnt x' h = - int (length us)"
      using h x'(4,6,7) n sems by (cases "h = sp") (auto simp: sems_ok_def split: if_splits)
  qed
  moreover have "\<forall>t. pl' t = Running \<longleftrightarrow> t = current x'"
    using woken_running [OF w] inv w by (simp add: sched_inv_def woken_def same_run_def)
  moreover have "\<forall>t. pl' t \<noteq> Limbo" using woken_places [OF w] inv by (simp add: sched_inv_def)
  ultimately have "sched_inv Q' pl' S x'" using x'(2) by (simp add: sched_inv_def)
  then show ?thesis
    unfolding wakes_def using x'(1,5) w n sem_consistent_inv [OF inv sp]
    by - (rule exI [of _ x'], rule exI [of _ Q'], rule exI [of _ pl'], simp add: chSemResetI_def)
qed

lemma irun_wakes:
  assumes inv: "sched_inv Q pl S x" and D: "dom Q = D" and g: "iop_guard S D f"
  shows "wakes S Q pl x (irun f x)"
proof (cases f)
  case (DequeueNextI q m)
  then obtain ts where "Q q = Some ts" "q \<noteq> RLIST" "q \<notin> S" using g D by auto
  from wake_queue_woken [OF inv this, of m] show ?thesis using DequeueNextI unfolding wakes_def by simp blast
next
  case (DequeueAllI q m)
  then obtain ts where "Q q = Some ts" "q \<noteq> RLIST" "q \<notin> S" using g D by auto
  from thdDequeueAllI_ok [OF inv this, of m] show ?thesis using DequeueAllI unfolding wakes_def by simp blast
qed (use g inv chSemSignalI_wakes chThdResumeI_wakes chSemResetI_wakes in auto)

lemma irun_ok:
  assumes ok: "kernel_ok i S D T L ds s" and g: "iop_guard S D f"
  shows "kernel_returns i S D T s (on_threads (irun f) s) (\<lambda>s'. same_run (thr s) (thr s'))"
proof (rule wake_kernel_ok [OF ok])
  fix Q pl assume "sched_inv Q pl S (thr s)" "dom Q = D"
  from irun_wakes [OF this g] this(2)
  show "\<exists>x' Q' pl'. irun f (thr s) = Some (Inr x') \<and> sched_inv Q' pl' S x' \<and> woken pl pl' (thr s) x' \<and> dom Q' = D"
    by (simp add: wakes_def)
qed

end
