(* ===== verification/Kernel.thy ===== *)
theory Kernel
  imports KernelIops
begin

text \<open>
  The kernel as a whole: threads that call it, interrupts that wake threads, the interrupt of the timer, and
  passing time, in any order.
\<close>

declare One_nat_def [simp del]

section \<open>New threads\<close>

lemma chThdStart_ok:
  assumes ok: "kernel_ok i S D T L ds s" and ord: "in_order (thr s)" and st: "th_state (thr s) t = CH_STATE_WTSTART"
  shows "kernel_returns i S D T s (chSchWakeupS t m s) (\<lambda>s'. in_order (thr s'))"
proof -
  have "taken Q pl S (thr s) t (thr s)" if inv: "sched_inv Q pl S (thr s)" for Q pl
  proof -
    have core: "sched_core Q pl S (thr s)" and sems: "sems_ok Q S (sem_cnt (thr s))" and nl: "pl t \<noteq> Limbo"
      using inv by (auto simp: sched_inv_def)
    have t: "pl t = Starting" using sched_coreD(2) [OF core, of t] st nl by (cases "pl t") (auto split: if_splits)
    have "sched_core Q (pl(t := Limbo)) S (thr s)"
    proof (rule core_move [OF core])
      show "queues (q_next (thr s)) (q_prev (thr s)) Q (pl(t := Limbo))"
        using sched_coreD(1) [OF core] t by (auto intro: queues_move)
      show "thread_ref (thr s) r = Some u \<longleftrightarrow> (pl(t := Limbo)) u = Ref r" for r u
        using sched_coreD(6) [OF core, of r u] t by auto
    qed (use st t sched_coreD(5) [OF core] in auto)
    then show ?thesis using sems t by (auto simp: taken_def)
  qed
  from chSchWakeupS_ok [OF ok ord, where f = "\<lambda>x. x"] this show ?thesis by simp
qed

lemma thread_init_ok:
  assumes ok: "kernel_ok i S D T L ds s" and ord: "in_order (thr s)" and t: "th_state (thr s) t = CH_STATE_FINAL" "t \<notin> D"
    and p: "0 < p"
  shows "kernel_ok i S D T L ds (vtimers.more_update (thread_init t p) s)"
    "in_order (thr (vtimers.more_update (thread_init t p) s))"
proof -
  obtain Q pl where k: "vt_good T L ds s" "sched_inv Q pl S (thr s)" "waits {} ds (vt_par s) pl (thr s)"
    "pl i \<in> {In RLIST, Running}" "i \<notin> D" "dom Q = D"
    using kernel_okE [OF ok] by blast
  define x where "x = thr s"
  define y where "y = thread_init t p x"
  have y: "q_next y = q_next x" "q_prev y = q_prev x" "prio y = (prio x)(t := p)" "th_u y = th_u x" "current y = current x"
    "th_state y = (th_state x)(t := CH_STATE_WTSTART)" "thread_ref y = thread_ref x" "sem_cnt y = sem_cnt x" "cont y = cont x"
    by (simp_all add: y_def thread_init_def)
  have core: "sched_core Q pl S x" and inv: "sched_inv Q pl S x" using k(2) by (auto simp: sched_inv_def x_def)
  have off: "pl t = Off" using place_of_state(2) [OF core] t by (simp add: x_def)
  have q: "queues (q_next x) (q_prev x) Q pl" by (rule sched_coreD(1) [OF core])
  have q': "queues (q_next y) (q_prev y) Q (pl(t := Starting))"
    using q off t(2) k(6) unfolding queues_def y by (auto split: if_splits)
  obtain ts where ts: "Q RLIST = Some ts" using core by (auto simp: sched_core_def)
  have tn: "t \<notin> set ts" using queuesD(2) [OF q ts] off by simp
  have tR: "t \<noteq> RLIST" using ts k(6) t(2) by auto
  have "sched_core Q (pl(t := Starting)) S y"
  proof -
    have "\<forall>u. place_ok S ((pl(t := Starting)) u) (th_state y u) (th_u y u)" using sched_coreD(2) [OF core] y by simp
    moreover have "\<forall>u. (pl(t := Starting)) u \<noteq> Off \<longrightarrow> 0 < prio y u" using sched_coreD(4) [OF core] y p by simp
    moreover have "sorted_wrt (\<lambda>a b. prio y b \<le> prio y a) ts"
      using sched_coreD(5) [OF core ts] tn y by (auto intro: sorted_wrt_mono_rel [rotated])
    moreover have "\<forall>r u. thread_ref y r = Some u \<longleftrightarrow> (pl(t := Starting)) u = Ref r"
      using sched_coreD(6) [OF core] off y by (metis fun_upd_apply place.distinct)
    ultimately show ?thesis using core q' ts tR y by (simp add: sched_core_def)
  qed
  moreover have "pl (current x) = Running" using inv by (simp add: sched_inv_def)
  then have ct: "current x \<noteq> t" using off by auto
  ultimately have inv': "sched_inv Q (pl(t := Starting)) S y"
    using inv y by (auto simp: sched_inv_def)
  have w: "waits {} ds (vt_par s) (pl(t := Starting)) y"
  proof -
    have wx: "waits {} ds (vt_par s) pl x" using k(3) by (simp add: x_def)
    have cn: "cont x t = None" using waitsD(2) [OF wx, of t] off by (cases "cont x t") auto
    show ?thesis
      by (rule waitsI) (use waitsD [OF wx] cn y in \<open>auto split: if_splits\<close>)
  qed
  let ?s = "vtimers.more_update (thread_init t p) s"
  have sx: "thr ?s = y" "vt_par ?s = vt_par s" by (cases s; simp add: x_def y_def)+
  have "(pl(t := Starting)) i \<in> {In RLIST, Running}" using k(4) off by auto
  then show "kernel_ok i S D T L ds ?s"
    unfolding kernel_ok_def sx using k(1,5,6) inv' w by (auto simp del: fun_upd_apply)
  have "in_order y"
    using ct in_order_iff [OF core ts] in_order_iff [of Q "pl(t := Starting)" S y, OF _ ts] inv' ord tn y
    by (auto simp: sched_inv_def x_def)
  then show "in_order (thr ?s)" by (simp add: sx)
qed

lemma chThdCreateStatic_ok:
  assumes "kernel_ok i S D T L ds s" "in_order (thr s)" "th_state (thr s) t = CH_STATE_FINAL" "t \<notin> D"
    "0 < p" "p \<le> HIGHPRIO"
  shows "kernel_returns i S D T s (chThdCreateStatic t p s) (\<lambda>s'. in_order (thr s'))"
proof -
  let ?s = "vtimers.more_update (thread_init t p) s"
  have "th_state (thr ?s) t = CH_STATE_WTSTART" "lags ?s = lags s" by (cases s; simp add: thread_init_def)+
  then show ?thesis
    using chThdStart_ok [OF thread_init_ok [OF assms(1-5)], of t MSG_OK] assms(6)
    by (simp add: chThdCreateStatic_def kernel_returns_lags [of i S D T ?s])
qed

section \<open>The interrupt of the timer\<close>

lemma wake_pending_calls:
  "wake_pending S D pl0 x0 A (fs @ gs) x \<Longrightarrow> wake_pending S D pl0 x0 A gs (fold (\<lambda>(f, p). wake_eff f p) fs x)"
proof (induction fs arbitrary: x)
  case (Cons e fs)
  obtain f p where e: "e = (f, p)" by (cases e)
  then show ?case using Cons.IH wake_pending_step(2) [of S D pl0 x0 A f p "fs @ gs" x] Cons.prems by simp
qed simp

lemma ST_HANDLER_ok:
  assumes ok: "kernel_ok i S D T L ds s" and lag: "\<forall>n \<in> set (lags s). n \<le> 2"
    and stale: "ds = [] \<Longrightarrow> ST_CNT s + word_of_nat (lag s) - lasttime s \<noteq> -1"
  shows "kernel_returns i S D T s (ST_HANDLER run_callback s) (\<lambda>s'. same_run (thr s) (thr s'))"
proof -
  obtain Q pl where k: "vt_good T L ds s" "sched_inv Q pl S (thr s)" "waits {} ds (vt_par s) pl (thr s)"
    "pl i \<in> {In RLIST, Running}" "i \<notin> D" "dom Q = D"
    using kernel_okE [OF ok] by blast
  define x where "x = thr s"
  define A where "A = vt_par s ` set (timers ds)"
  have calls: "snd ` set (vt_calls s ts) = vt_par s ` set ts" for ts by (auto simp: vt_calls_def image_iff)
  have far: "pl p \<notin> {Off, Running, Starting}" if "p \<in> A" for p
    using that waitsD(1,2) [OF k(3)] by (auto simp: A_def simp del: set_map)
  have "wake_pending S D pl x A (vt_calls s (timers ds)) x"
    unfolding wake_pending_def
  proof (intro exI conjI)
    show "sched_inv Q pl S x" "dom Q = D" using k(2,6) by (simp_all add: x_def)
    show "\<forall>p \<in> snd ` set (vt_calls s (timers ds)). pl p \<notin> {Off, Running, Starting}"
      using far unfolding calls A_def by blast
    show "\<forall>p \<in> A. p \<in> snd ` set (vt_calls s (timers ds)) \<or> pl p = In RLIST" unfolding calls A_def by blast
  qed simp
  then have pend: "wake_pending S D pl x A (vt_calls s (timers ds)) (thr s)" by (simp add: x_def)
  obtain s' T' Tn L' fired rest where t: "ST_HANDLER run_callback s = Some (Inr s')" "ds = fired @ rest" "T \<le> Tn" "Tn \<le> T'"
    "T' + sum_list (lags s') = T + sum_list (lags s)" "vt_good T' L' rest s'" "vt_par s' = vt_par s"
    "thr s' = fold (\<lambda>(f, p). wake_eff f p) (vt_calls s (timers fired)) (thr s)"
    using timeouts.vt_tick_good [OF k(1) pend lag stale] by blast
  have "wake_pending S D pl x A (vt_calls s (timers rest)) (thr s')"
    using wake_pending_calls [of S D pl x A "vt_calls s (timers fired)" "vt_calls s (timers rest)" "thr s"] pend t(2,8) by simp
  then obtain Q' pl' where p: "sched_inv Q' pl' S (thr s')" "woken pl pl' x (thr s')"
    "\<forall>p \<in> A. p \<in> vt_par s ` set (timers rest) \<or> pl' p = In RLIST" "dom Q' = dom Q"
    unfolding wake_pending_def calls using k(6) by auto
  have w: "waits {} rest (vt_par s') pl' (thr s')"
  proof -
    have w': "waits {} ds (vt_par s) pl' (thr s')" using waits_woken [OF k(3)] p(2) by (simp add: x_def)
    show ?thesis
    proof (rule waitsI)
      fix q v assume q: "cont (thr s') q = Some (Disarm v)" "pl' q \<notin> {Running, In RLIST}"
      have v: "v \<in> set (timers ds)" using waitsD(6) [OF w' q] .
      have "v = stack_vt q" using waitsD(4) [OF w' q(1)] .
      moreover have "v = stack_vt (vt_par s v)" using waitsD(1) [OF w' v] by simp
      ultimately have "vt_par s v = q" by simp
      then have "q \<in> A" using v by (auto simp: A_def simp del: set_map)
      then have "q \<in> vt_par s ` set (timers rest)" using p(3) q(2) by auto
      then obtain u where u: "u \<in> set (timers rest)" "q = vt_par s u" by auto
      then have "u \<in> set (timers ds)" using t(2) by auto
      then have "u = stack_vt q" using waitsD(1) [OF w', of u] u(2) by simp
      then show "v \<in> set (timers rest)" using u(1) \<open>v = stack_vt q\<close> by simp
    qed (use waitsD(1-5) [OF w'] t(2,7) in auto)
  qed
  have "pl' i \<in> {In RLIST, Running}" using p(2) k(4) unfolding woken_def by (metis insertCI)
  then have "kernel_ok i S D T' L' rest s'"
    unfolding kernel_ok_def using t(6) k(5,6) p(1,4) w by blast
  then show ?thesis using t p(2)
    by (intro kernel_returnsI [of _ s' T T']) (auto simp: woken_def x_def)
qed

section \<open>Any order of events\<close>

datatype kop = Sleep sysinterval | Suspend nat | SuspendTimeout nat sysinterval | Enqueue nat sysinterval
  | SemWait nat | SemWaitTimeout nat sysinterval | SemSignal nat | Resume nat msg | Yield | Create nat nat

text \<open>
  \<open>Call\<close>: the running thread calls the kernel. \<open>Locked\<close>: it wakes threads in a critical section that
  ends with \<^verbatim>\<open>chSchRescheduleS\<close>. \<open>Irq\<close>: an interrupt handler wakes threads. \<open>TimerIrq\<close>: the
  interrupt of the timer. \<open>Pass n\<close>: \<open>n\<close> ticks pass. Every event comes with the script of the ticks that
  pass before its readings of the counter.
\<close>

datatype kevent = Call kop | Locked iop | Irq iop | TimerIrq | Pass nat

fun kop_run :: "kop \<Rightarrow> kernel \<Rightarrow> kernel diverge" where
  "kop_run (Sleep n) s = chThdSleepS n s"
| "kop_run (Suspend r) s = Some (chThdSuspendS r s)"
| "kop_run (SuspendTimeout r n) s = chThdSuspendTimeoutS r n s"
| "kop_run (Enqueue q n) s = thdEnqueueTimeoutS q n s"
| "kop_run (SemWait sp) s = Some (chSemWaitS sp s)"
| "kop_run (SemWaitTimeout sp n) s = chSemWaitTimeoutS sp n s"
| "kop_run (SemSignal sp) s = chSemSignal sp s"
| "kop_run (Resume r m) s = chThdResumeS r m s"
| "kop_run Yield s = chSchDoYieldS s"
| "kop_run (Create t p) s = chThdCreateStatic t p s"

fun kernel_event :: "kevent \<Rightarrow> kernel \<Rightarrow> kernel diverge" where
  "kernel_event (Call c) s = kop_run c s"
| "kernel_event (Locked f) s = bindP (on_threads (irun f) s) chSchRescheduleS"
| "kernel_event (Irq f) s = bindP (on_threads (irun f) s) irq_epilogue"
| "kernel_event TimerIrq s = bindP (ST_HANDLER run_callback s) irq_epilogue"
| "kernel_event (Pass n) s = Some (Inr (st_advance n s))"

fun kernel_step :: "kevent \<times> nat list \<Rightarrow> kernel \<Rightarrow> kernel diverge" where
  "kernel_step (e, ls) s = kernel_event e (s\<lparr>lags := ls\<rparr>)"

text \<open>
  What the callers have to respect: timeouts below \<open>2 ^ 31\<close> ticks, objects of the right kind, a thread reference
  that is free, a new thread that is not in use and has a priority, and an idle thread \<open>i\<close> that never waits.
\<close>

definition may_wait :: "nat \<Rightarrow> sysinterval \<Rightarrow> kernel \<Rightarrow> bool" where
  "may_wait i n s \<longleftrightarrow> n = TIME_IMMEDIATE \<or> (current (thr s) \<noteq> i \<and> timeout_ok n)"

fun kop_guard :: "nat \<Rightarrow> nat set \<Rightarrow> nat set \<Rightarrow> kop \<Rightarrow> kernel \<Rightarrow> bool" where
  "kop_guard i S D (Sleep n) s = (n \<noteq> TIME_IMMEDIATE \<and> may_wait i n s)"
| "kop_guard i S D (Suspend r) s = (thread_ref (thr s) r = None \<and> current (thr s) \<noteq> i)"
| "kop_guard i S D (SuspendTimeout r n) s = (thread_ref (thr s) r = None \<and> may_wait i n s)"
| "kop_guard i S D (Enqueue q n) s = (q \<in> D \<and> q \<noteq> RLIST \<and> q \<notin> S \<and> may_wait i n s)"
| "kop_guard i S D (SemWait sp) s = (sp \<in> S \<and> current (thr s) \<noteq> i)"
| "kop_guard i S D (SemWaitTimeout sp n) s = (sp \<in> S \<and> may_wait i n s)"
| "kop_guard i S D (SemSignal sp) s = (sp \<in> S)"
| "kop_guard i S D (Resume r m) s = True"
| "kop_guard i S D Yield s = True"
| "kop_guard i S D (Create t p) s = (th_state (thr s) t = CH_STATE_FINAL \<and> t \<notin> D \<and> 0 < p \<and> p \<le> HIGHPRIO)"

fun kevent_guard :: "nat \<Rightarrow> nat set \<Rightarrow> nat set \<Rightarrow> kevent \<Rightarrow> kernel \<Rightarrow> bool" where
  "kevent_guard i S D (Call c) s = kop_guard i S D c s"
| "kevent_guard i S D (Locked f) s = iop_guard S D f"
| "kevent_guard i S D (Irq f) s = iop_guard S D f"
| "kevent_guard i S D TimerIrq s = (list_all (\<lambda>n. n \<le> 2) (lags s) \<and>
     (vt_next s VTLIST = VTLIST \<longrightarrow> ST_CNT s + word_of_nat (lag s) - lasttime s \<noteq> -1))"
| "kevent_guard i S D (Pass n) s = True"

text \<open>
  The environment serves the timer interrupt: while timers are armed, the base time of the list is
  never \<open>2 ^ 31\<close> ticks old.
\<close>

fun ticks_of :: "kevent \<Rightarrow> nat" where
  "ticks_of (Pass n) = n"
| "ticks_of _ = 0"

definition served :: "kevent \<Rightarrow> nat list \<Rightarrow> kernel \<Rightarrow> bool" where
  "served e ls s \<longleftrightarrow> sum_list ls < 2 ^ 31 \<and>
     (vt_next s VTLIST \<noteq> VTLIST \<longrightarrow> unat (ST_CNT s - lasttime s) + sum_list ls + ticks_of e < 2 ^ 31)"

fun kernel_guard :: "nat \<Rightarrow> nat set \<Rightarrow> nat set \<Rightarrow> kevent \<times> nat list \<Rightarrow> kernel \<Rightarrow> bool" where
  "kernel_guard i S D (e, ls) s = (served e ls s \<and> kevent_guard i S D e (s\<lparr>lags := ls\<rparr>))"

definition kernel_inv :: "nat \<Rightarrow> nat set \<Rightarrow> nat set \<Rightarrow> kernel \<Rightarrow> bool" where
  "kernel_inv i S D s \<longleftrightarrow> in_order (thr s) \<and> (\<exists>T L ds. kernel_ok i S D T L ds s)"

lemma may_wait_cases: "may_wait i n s \<Longrightarrow> n \<noteq> TIME_IMMEDIATE \<Longrightarrow> current (thr s) \<noteq> i \<and> timeout_ok n"
  by (simp add: may_wait_def)

lemma kop_ok:
  assumes ok: "kernel_ok i S D T L ds s" and ord: "in_order (thr s)" and g: "kop_guard i S D c s"
  shows "kernel_returns i S D T s (kop_run c s) (\<lambda>s'. in_order (thr s'))"
proof (cases c)
  case (Sleep n)
  then show ?thesis using g chThdSleepS_ok [OF ok, of n] by (auto simp: may_wait_def)
next
  case (Suspend r)
  then show ?thesis using g chThdSuspendS_ok [OF ok, of r] by simp
next
  case (SuspendTimeout r n)
  then show ?thesis using g chThdSuspendTimeoutS_ok [OF ok ord, of r n] by (auto simp: may_wait_def)
next
  case (Enqueue q n)
  then show ?thesis using g thdEnqueueTimeoutS_ok [OF ok ord, of q n] by (auto simp: may_wait_def)
next
  case (SemWait sp)
  then show ?thesis using g chSemWaitS_ok [OF ok ord, of sp] by simp
next
  case (SemWaitTimeout sp n)
  then show ?thesis using g chSemWaitTimeoutS_ok [OF ok ord, of sp n] by (auto simp: may_wait_def)
next
  case (SemSignal sp)
  then show ?thesis using g chSemSignal_ok [OF ok ord, of sp] by simp
next
  case (Resume r m)
  then show ?thesis using chThdResumeS_ok [OF ok ord] by simp
next
  case Yield
  then show ?thesis using chSchDoYieldS_ok [OF ok ord] by simp
next
  case (Create t p)
  then show ?thesis using g chThdCreateStatic_ok [OF ok ord, of t p] by simp
qed

lemma then_reschedule:
  assumes "kernel_returns i S D T s r P"
  shows "kernel_returns i S D T s (bindP r chSchRescheduleS) (\<lambda>s'. in_order (thr s'))"
  by (rule kernel_returns_bind [OF assms]) (rule chSchRescheduleS_ok)

lemma kevent_ok:
  assumes ok: "kernel_ok i S D T L ds s" and ord: "in_order (thr s)" and g: "kevent_guard i S D e s"
    and age: "ds \<noteq> [] \<Longrightarrow> T + sum_list (lags s) + ticks_of e - L < 2 ^ 31"
  shows "\<exists>s'. kernel_event e s = Some (Inr s') \<and> kernel_inv i S D s'"
proof -
  have out: "\<exists>s'. r = Some (Inr s') \<and> kernel_inv i S D s'"
    if "kernel_returns i S D T s r (\<lambda>s'. in_order (thr s'))" for r
    using that by (auto simp: kernel_returns_def kernel_inv_def)
  show ?thesis
  proof (cases e)
    case (Call c)
    then show ?thesis using out [OF kop_ok [OF ok ord]] g by simp
  next
    case (Locked f)
    then show ?thesis using out [OF then_reschedule [OF irun_ok [OF ok]]] g by simp
  next
    case (Irq f)
    then show ?thesis using out [OF then_reschedule [OF irun_ok [OF ok]]] g by (simp add: irq_epilogue_eq)
  next
    case TimerIrq
    have "vt_next s VTLIST = VTLIST \<longleftrightarrow> ds = []" using vt_nonempty ok by (auto simp: kernel_ok_def)
    then show ?thesis using out [OF then_reschedule [OF ST_HANDLER_ok [OF ok]]] g TimerIrq
      by (simp add: irq_epilogue_eq list_all_iff)
  next
    case (Pass n)
    have "vt_good (T + n) L ds (st_advance n s)"
      by (rule vt_good_pass) (use ok age Pass in \<open>auto simp: kernel_ok_def\<close>)
    moreover have "thr (st_advance n s) = thr s" "vt_par (st_advance n s) = vt_par s" by (simp_all add: st_advance_def)
    ultimately have "kernel_ok i S D (T + n) L ds (st_advance n s)"
      using ok unfolding kernel_ok_def by simp
    then show ?thesis using Pass ord by (auto simp: kernel_inv_def st_advance_def)
  qed
qed

lemma kernel_step_ok:
  assumes inv: "kernel_inv i S D s" and g: "kernel_guard i S D e s"
  shows "\<exists>s'. kernel_step e s = Some (Inr s') \<and> kernel_inv i S D s'"
proof -
  obtain f ls where e: "e = (f, ls)" by (cases e)
  obtain T L ds where ok: "kernel_ok i S D T L ds s" and ord: "in_order (thr s)" using inv by (auto simp: kernel_inv_def)
  have good: "vt_good T L ds s" using ok by (simp add: kernel_ok_def)
  have age: "ds \<noteq> [] \<Longrightarrow> T + sum_list ls + ticks_of f - L < 2 ^ 31"
  proof -
    assume "ds \<noteq> []"
    then have "unat (ST_CNT s - lasttime s) = T - L" "vt_next s VTLIST \<noteq> VTLIST" "L \<le> T"
      using vt_age [OF good] vt_nonempty [OF good] good by (auto simp: vt_good_def vt_ok_def vt_abs_def)
    then show ?thesis using g e by (simp add: served_def)
  qed
  have "vt_good T L ds (s\<lparr>lags := ls\<rparr>)"
    by (rule vt_good_new_lags [OF good]) (use g e age in \<open>auto simp: served_def\<close>)
  then have "kernel_ok i S D T L ds (s\<lparr>lags := ls\<rparr>)" using ok by (simp add: kernel_ok_def)
  from kevent_ok [OF this, of f] show ?thesis using e g ord age by simp
qed

text \<open>Runs of events, and runs in which every event respects its guard.\<close>

fun kernel_run :: "(kevent \<times> nat list) list \<Rightarrow> kernel \<Rightarrow> kernel diverge" where
  "kernel_run [] s = Some (Inr s)"
| "kernel_run (e # es) s = bindP (kernel_step e s) (kernel_run es)"

fun kernel_legal :: "nat \<Rightarrow> nat set \<Rightarrow> nat set \<Rightarrow> (kevent \<times> nat list) list \<Rightarrow> kernel \<Rightarrow> bool" where
  "kernel_legal i S D [] s = True"
| "kernel_legal i S D (e # es) s = (kernel_guard i S D e s \<and>
     (case kernel_step e s of Some (Inr s') \<Rightarrow> kernel_legal i S D es s' | _ \<Rightarrow> True))"

lemma kernel_run_ok:
  "kernel_inv i S D s \<Longrightarrow> kernel_legal i S D es s \<Longrightarrow> \<exists>s'. kernel_run es s = Some (Inr s') \<and> kernel_inv i S D s'"
proof (induction es arbitrary: s)
  case (Cons e es)
  then obtain s1 where "kernel_step e s = Some (Inr s1)" "kernel_inv i S D s1"
    using kernel_step_ok [of i S D s e] by auto
  with Cons show ?case by simp
qed simp

end
