(* ===== verification/KernelBoot.thy ===== *)
theory KernelBoot
  imports Kernel
begin

text \<open>
  The start of the kernel: \<^verbatim>\<open>chSysInit\<close>, then the queues and semaphores of the application. From there on,
  the invariant holds.
\<close>

declare One_nat_def [simp del]

section \<open>The state before the kernel starts\<close>

text \<open>
  Memory before \<^verbatim>\<open>chSysInit\<close>: no address holds a thread, no timer is armed, the counter is stopped at 0.
\<close>

definition power_on :: kernel where
  "power_on = \<lparr>vt_next = \<lambda>_. 0, vt_prev = \<lambda>_. 0, vt_delta = \<lambda>_. 0, vt_func = \<lambda>_. None, vt_par = \<lambda>_. 0,
     lasttime = 0, ST_CNT = 0, ST_CCR = 0, CC1IF = False, CC1IE = False, lags = [],
     q_next = \<lambda>_. 0, q_prev = \<lambda>_. 0, prio = \<lambda>_. 0, th_state = \<lambda>_. CH_STATE_FINAL, th_u = \<lambda>_. U_rdymsg MSG_OK,
     current = 0, thread_ref = \<lambda>_. None, sem_cnt = \<lambda>_. 0, cont = \<lambda>_. None, returned = []\<rparr>"

fun init_queues :: "nat list \<Rightarrow> threads \<Rightarrow> threads" where
  "init_queues [] x = x"
| "init_queues (q # qs) x = init_queues qs (queue_init q x)"

fun init_sems :: "(nat \<times> int) list \<Rightarrow> threads \<Rightarrow> threads result" where
  "init_sems [] x = Inr x"
| "init_sems ((sp, n) # sps) x = bindE (chSemObjectInit sp n x) (init_sems sps)"

definition kernel_boot :: "nat \<Rightarrow> nat \<Rightarrow> nat list \<Rightarrow> (nat \<times> int) list \<Rightarrow> kernel diverge" where
  "kernel_boot m i qs sps =
     bindP (chSysInit m i power_on) (on_threads (\<lambda>x. Some (init_sems sps (init_queues qs x))))"

definition boot_args :: "nat \<Rightarrow> nat \<Rightarrow> nat list \<Rightarrow> (nat \<times> int) list \<Rightarrow> bool" where
  "boot_args m i qs sps \<longleftrightarrow> distinct (RLIST # m # i # qs @ map fst sps) \<and> list_all (\<lambda>(_, n). 0 \<le> n) sps"

definition boot_queues :: "nat list \<Rightarrow> (nat \<times> int) list \<Rightarrow> nat set" where
  "boot_queues qs sps = insert RLIST (set qs \<union> fst ` set sps)"

section \<open>Initializing queues and semaphores\<close>

lemma queues_new:
  assumes q: "queues nx pv Q pl" and h: "h \<notin> dom Q" "pl h = Off"
  shows "queues (nx(h := h)) (pv(h := h)) (Q(h \<mapsto> [])) pl"
  unfolding queues_def
proof (intro conjI allI impI ballI)
  fix h' ts assume h': "(Q(h \<mapsto> [])) h' = Some ts"
  show "ring (nx(h := h)) (pv(h := h)) h' ts"
  proof (cases "h' = h")
    case True
    then show ?thesis using h' by (simp add: ring_def)
  next
    case False
    then have Q: "Q h' = Some ts" using h' by simp
    have "h \<notin> set (h' # ts)" using queuesD(2) [OF q Q, of h] h False by auto
    then show ?thesis by (intro ring_frame [OF queuesD(1) [OF q Q]]) auto
  qed
  show "set ts = {t. pl t = In h'}"
    using h' queues_set [OF q, of h'] q h by (cases "h' = h") (auto simp: queues_def)
next
  fix t h' assume "pl t = In h'"
  then show "h' \<in> dom (Q(h \<mapsto> []))" using q by (auto simp: queues_def)
next
  fix h' assume "h' \<in> dom (Q(h \<mapsto> []))"
  then show "pl h' = Off" using q h by (auto simp: queues_def)
qed

lemma queue_init_sel [simp]:
  "prio (queue_init q x) = prio x" "th_state (queue_init q x) = th_state x" "th_u (queue_init q x) = th_u x"
  "current (queue_init q x) = current x" "thread_ref (queue_init q x) = thread_ref x"
  "sem_cnt (queue_init q x) = sem_cnt x" "cont (queue_init q x) = cont x" "returned (queue_init q x) = returned x"
  "q_next (queue_init q x) = (q_next x)(q := q)" "q_prev (queue_init q x) = (q_prev x)(q := q)"
  by (simp_all add: queue_init_def)

lemma queue_init_core:
  assumes core: "sched_core Q pl S x" and q: "q \<notin> dom Q" "th_state x q = CH_STATE_FINAL" "S' \<subseteq> insert q S" "S \<subseteq> S'"
  shows "sched_core (Q(q \<mapsto> [])) pl S' (queue_init q x)"
proof -
  have off: "pl q = Off" using place_of_state(2) [OF core] q(2) by simp
  have nq: "pl t \<noteq> In q" for t using sched_coreD(1) [OF core] q(1) by (auto simp: queues_def)
  have same: "place_ok S' (pl t) st u = place_ok S (pl t) st u" for t st u
  proof (cases "pl t")
    case (In h)
    then have "h \<noteq> q" using nq [of t] by auto
    then have "h \<in> S' \<longleftrightarrow> h \<in> S" using q(3,4) by auto
    then show ?thesis using In by simp
  qed auto
  then have "\<forall>t. place_ok S' (pl t) (th_state x t) (th_u x t)" using sched_coreD(2) [OF core] by simp
  moreover have "RLIST \<in> dom Q" "RLIST \<notin> S" "S \<subseteq> dom Q" using core by (auto simp: sched_core_def)
  moreover have "RLIST \<notin> S'" "q \<noteq> RLIST" "S' \<subseteq> insert q (dom Q)" using calculation q by auto
  ultimately show ?thesis
    using core queues_new [OF sched_coreD(1) [OF core] q(1) off] by (simp add: sched_core_def)
qed

text \<open>An invariant of the threads alone, for the states between the initializations.\<close>

definition boot_inv :: "nat \<Rightarrow> nat set \<Rightarrow> nat set \<Rightarrow> (nat \<Rightarrow> place) \<Rightarrow> threads \<Rightarrow> threads \<Rightarrow> bool" where
  "boot_inv i S D pl x0 x \<longleftrightarrow> (\<exists>Q. sched_inv Q pl S x \<and> dom Q = D) \<and> cont x = cont x0 \<and> th_state x = th_state x0 \<and>
     th_u x = th_u x0 \<and> prio x = prio x0 \<and> current x = current x0"

lemma boot_queue:
  assumes b: "boot_inv i S D pl x0 x" and q: "q \<notin> D" "th_state x0 q = CH_STATE_FINAL"
  shows "boot_inv i S (insert q D) pl x0 (queue_init q x)"
proof -
  obtain Q where Q: "sched_inv Q pl S x" "dom Q = D" using b by (auto simp: boot_inv_def)
  then have core: "sched_core Q pl S x" and sems: "sems_ok Q S (sem_cnt x)" by (auto simp: sched_inv_def)
  have "q \<notin> dom Q" "th_state x q = CH_STATE_FINAL" using q Q b by (auto simp: boot_inv_def)
  then have "sched_core (Q(q \<mapsto> [])) pl S (queue_init q x)" by (rule queue_init_core [OF core]) auto
  moreover have "q \<notin> S" using q Q core by (auto simp: sched_core_def)
  then have "sems_ok (Q(q \<mapsto> [])) S (sem_cnt x)" using sems by (auto simp: sems_ok_def)
  ultimately have "sched_inv (Q(q \<mapsto> [])) pl S (queue_init q x)" using Q(1) by (simp add: sched_inv_def)
  moreover have "dom (Q(q \<mapsto> [])) = insert q D" using Q(2) by auto
  ultimately show ?thesis using b unfolding boot_inv_def by (metis queue_init_sel(1-4,7))
qed

lemma boot_sem:
  assumes b: "boot_inv i S D pl x0 x" and q: "q \<notin> D" "th_state x0 q = CH_STATE_FINAL" and n: "0 \<le> n"
  shows "\<exists>x'. chSemObjectInit q n x = Inr x' \<and> boot_inv i (insert q S) (insert q D) pl x0 x'"
proof -
  obtain Q where Q: "sched_inv Q pl S x" "dom Q = D" using b by (auto simp: boot_inv_def)
  then have core: "sched_core Q pl S x" and sems: "sems_ok Q S (sem_cnt x)" by (auto simp: sched_inv_def)
  have "q \<notin> dom Q" "th_state x q = CH_STATE_FINAL" using q Q b by (auto simp: boot_inv_def)
  then have "sched_core (Q(q \<mapsto> [])) pl (insert q S) (queue_init q x)" by (rule queue_init_core [OF core]) auto
  moreover have "sems_ok (Q(q \<mapsto> [])) (insert q S) ((sem_cnt x)(q := n))" using sems n by (auto simp: sems_ok_def)
  ultimately have "sched_inv (Q(q \<mapsto> [])) pl (insert q S) ((queue_init q x)\<lparr>sem_cnt := (sem_cnt x)(q := n)\<rparr>)"
    using Q(1) by (simp add: sched_inv_def)
  moreover have "dom (Q(q \<mapsto> [])) = insert q D" using Q(2) by auto
  ultimately have "\<exists>Q. sched_inv Q pl (insert q S) ((queue_init q x)\<lparr>sem_cnt := (sem_cnt x)(q := n)\<rparr>) \<and> dom Q = insert q D"
    by blast
  then show ?thesis using b n by (simp add: boot_inv_def chSemObjectInit_def)
qed

lemma boot_queues_ok:
  "boot_inv i S D pl x0 x \<Longrightarrow> distinct qs \<Longrightarrow> set qs \<inter> D = {} \<Longrightarrow> \<forall>q \<in> set qs. th_state x0 q = CH_STATE_FINAL \<Longrightarrow>
   boot_inv i S (set qs \<union> D) pl x0 (init_queues qs x)"
proof (induction qs arbitrary: D x)
  case (Cons q qs)
  then have "boot_inv i S (insert q D) pl x0 (queue_init q x)" by (intro boot_queue) auto
  from Cons.IH [OF this] show ?case using Cons.prems by simp
qed simp

lemma boot_sems_ok:
  "boot_inv i S D pl x0 x \<Longrightarrow> distinct (map fst sps) \<Longrightarrow> fst ` set sps \<inter> D = {} \<Longrightarrow>
   \<forall>(q, n) \<in> set sps. th_state x0 q = CH_STATE_FINAL \<and> 0 \<le> n \<Longrightarrow>
   \<exists>x'. init_sems sps x = Inr x' \<and> boot_inv i (fst ` set sps \<union> S) (fst ` set sps \<union> D) pl x0 x'"
proof (induction sps arbitrary: S D x)
  case (Cons e sps)
  obtain q n where e: "e = (q, n)" by (cases e)
  then obtain x1 where x1: "chSemObjectInit q n x = Inr x1" "boot_inv i (insert q S) (insert q D) pl x0 x1"
    using boot_sem [OF Cons.prems(1), of q n] Cons.prems by auto
  have "q \<notin> fst ` set sps" using Cons.prems(2) e by simp
  then have "distinct (map fst sps)" "fst ` set sps \<inter> insert q D = {}"
    "\<forall>(q, n) \<in> set sps. th_state x0 q = CH_STATE_FINAL \<and> 0 \<le> n"
    using Cons.prems(2-4) by simp_all
  from Cons.IH [OF x1(2) this] show ?case using e x1(1) by simp
qed simp

section \<open>The start\<close>

lemma ready_with_state: "ready_with scan t x = Some (Inr x') \<Longrightarrow> th_state x' t = CH_STATE_READY"
  by (auto simp: ready_with_def Let_def split: if_splits)

lemma kernel_ok_idle:
  assumes "kernel_ok m S D T L ds s" "th_state (thr s) i = CH_STATE_READY"
  shows "kernel_ok i S D T L ds s"
proof -
  obtain Q pl where k: "vt_good T L ds s" "sched_inv Q pl S (thr s)" "waits {} ds (vt_par s) pl (thr s)" "dom Q = D"
    by (rule kernel_okE [OF assms(1)])
  have core: "sched_core Q pl S (thr s)" using k(2) by (simp add: sched_inv_def)
  have "pl i = In RLIST" using place_of_state(1) [OF core, of i] assms(2) by blast
  moreover from this have "i \<notin> D" using queues_header [OF sched_coreD(1) [OF core], of i] k(4) by auto
  ultimately show ?thesis using k unfolding kernel_ok_def by blast
qed

definition start_threads :: "nat \<Rightarrow> threads" where
  "start_threads m = main_thread m (scheduler_init (thr power_on))"

lemma start_ok:
  assumes "m \<noteq> RLIST"
  shows "kernel_ok m {} {RLIST} 0 0 [] (vtimers.more_update (main_thread m) (vt_init (vtimers.more_update scheduler_init power_on)))"
    (is "kernel_ok _ _ _ _ _ _ ?s")
proof -
  have sx: "thr ?s = start_threads m" "vt_par ?s = (\<lambda>_. 0)"
    by (simp_all add: start_threads_def vt_init_def power_on_def)
  let ?Q = "[RLIST \<mapsto> []]" and ?pl = "(\<lambda>_. Off)(m := Running)"
  have x: "start_threads m = \<lparr>q_next = \<lambda>_. 0, q_prev = \<lambda>_. 0, prio = (\<lambda>_. 0)(m := NORMALPRIO),
      th_state = (\<lambda>_. CH_STATE_FINAL)(m := CH_STATE_CURRENT), th_u = \<lambda>_. U_rdymsg MSG_OK, current = m,
      thread_ref = \<lambda>_. None, sem_cnt = \<lambda>_. 0, cont = \<lambda>_. None, returned = []\<rparr>"
    by (auto simp: start_threads_def main_thread_def thread_init_def scheduler_init_def queue_init_def power_on_def Let_def
        RLIST_def NOPRIO_def)
  have good: "vt_good 0 0 [] ?s"
    by (simp add: vt_good_def vt_ok_def vt_abs_def alarm_ok_def vt_init_def power_on_def ring_def VTLIST_def)
  have "queues (\<lambda>_. 0) (\<lambda>_. 0) ?Q ?pl"
    using assms by (auto simp: queues_def ring_def RLIST_def)
  then have "sched_inv ?Q ?pl {} (start_threads m)"
    using assms by (auto simp: sched_inv_def sched_core_def sems_ok_def x NORMALPRIO_def NOPRIO_def)
  moreover have "waits {} [] (\<lambda>_. 0) ?pl (start_threads m)"
    by (simp add: waits_def x)
  moreover have "dom ?Q = {RLIST}" "m \<notin> {RLIST}" using assms by auto
  ultimately show ?thesis
    unfolding kernel_ok_def sx using good by (intro conjI exI [of _ ?Q] exI [of _ ?pl]) auto
qed


text \<open>The creation of the idle thread.\<close>

lemma bindP_InrD: "bindP m f = Some (Inr y) \<Longrightarrow> \<exists>x. m = Some (Inr x) \<and> f x = Some (Inr y)"
proof (cases m)
  case (Some r)
  then show "bindP m f = Some (Inr y) \<Longrightarrow> ?thesis" by (cases r) simp_all
qed simp

lemma chThdCreate_eq: "p \<le> HIGHPRIO \<Longrightarrow> chThdCreate t p s = chThdCreateStatic t p s"
  by (cases s) (simp add: chThdCreate_def chThdCreateStatic_def chThdCreateSuspendedI_def on_threads_def dbgCheck_def)

lemma lower_stays_ready:
  assumes "chThdCreateStatic t p s = Some (Inr s')" "p \<le> prio (thr s) (current (thr s))" "p \<le> HIGHPRIO" "t \<noteq> current (thr s)"
  shows "th_state (thr s') t = CH_STATE_READY" "current (thr s') = current (thr s)"
    "\<And>u. u \<noteq> t \<Longrightarrow> th_state (thr s') u = th_state (thr s) u"
proof -
  let ?x = "(thread_init t p (thr s))\<lparr>th_u := (th_u (thread_init t p (thr s)))(t := U_rdymsg MSG_OK)\<rparr>"
  have x: "prio (thread_init t p (thr s)) t = p" "prio (thread_init t p (thr s)) (current (thr s)) = prio (thr s) (current (thr s))"
    "current (thread_init t p (thr s)) = current (thr s)"
    "thr (vtimers.more_update (thread_init t p) s) = thread_init t p (thr s)"
    "\<And>u. u \<noteq> t \<Longrightarrow> th_state ?x u = th_state (thr s) u"
    using assms(4) by (cases s; simp add: thread_init_def)+
  have "on_threads (\<lambda>_. chSchReadyI t ?x) (vtimers.more_update (thread_init t p) s) = Some (Inr s')"
    using assms(1-3) x by (simp add: chThdCreateStatic_def chSchWakeupS_def Let_def split: if_splits)
  then obtain x' where x': "chSchReadyI t ?x = Some (Inr x')" "s' = vtimers.more_update (\<lambda>_. x') (vtimers.more_update (thread_init t p) s)"
    by (auto simp: on_threads_def dest!: bindP_InrD)
  moreover have "thr s' = x'" using x'(2) by (cases s) simp
  ultimately show "th_state (thr s') t = CH_STATE_READY" "current (thr s') = current (thr s)"
    "\<And>u. u \<noteq> t \<Longrightarrow> th_state (thr s') u = th_state (thr s) u"
    using x by (auto simp: chSchReadyI_def ready_with_def Let_def split: if_splits)
qed

theorem kernel_boot_ok:
  assumes "boot_args m i qs sps"
  shows "\<exists>s. kernel_boot m i qs sps = Some (Inr s) \<and> kernel_inv i (fst ` set sps) (boot_queues qs sps) s \<and> current (thr s) = m"
proof -
  have d: "m \<noteq> RLIST" "i \<noteq> RLIST" "m \<noteq> i" "distinct qs" "distinct (map fst sps)" "set qs \<inter> {RLIST} = {}"
    "fst ` set sps \<inter> (set qs \<union> {RLIST}) = {}" "\<And>q. q \<in> set qs \<union> fst ` set sps \<Longrightarrow> q \<noteq> m \<and> q \<noteq> i"
    and n: "\<forall>(q, n) \<in> set sps. 0 \<le> n"
    using assms by (auto simp: boot_args_def list_all_iff)
  let ?s = "vtimers.more_update (main_thread m) (vt_init (vtimers.more_update scheduler_init power_on))"
  have sx: "thr ?s = start_threads m" "lags ?s = []" by (simp_all add: start_threads_def vt_init_def power_on_def)
  have x: "current (start_threads m) = m" "th_state (start_threads m) = (\<lambda>_. CH_STATE_FINAL)(m := CH_STATE_CURRENT)"
    "prio (start_threads m) m = NORMALPRIO"
    by (auto simp: start_threads_def main_thread_def thread_init_def scheduler_init_def power_on_def Let_def)
  have ord: "in_order (thr ?s)"
    unfolding sx using d(1)
    by (simp add: in_order_def chSchIsRescRequiredI_def firstprio_def start_threads_def main_thread_def thread_init_def
        scheduler_init_def power_on_def Let_def NOPRIO_def)
  have idle: "chSysInit m i power_on = chThdCreateStatic i IDLEPRIO ?s"
    by (simp add: chSysInit_def Let_def chThdCreate_eq IDLEPRIO_def HIGHPRIO_def)
  have "th_state (thr ?s) i = CH_STATE_FINAL" "i \<notin> {RLIST}" using d x sx by simp_all
  then have "kernel_returns m {} {RLIST} 0 ?s (chThdCreateStatic i IDLEPRIO ?s) (\<lambda>s'. in_order (thr s'))"
    using chThdCreateStatic_ok [OF start_ok [OF d(1)] ord] by (simp add: IDLEPRIO_def HIGHPRIO_def)
  then obtain s1 T1 L1 ds1 where s1: "chThdCreateStatic i IDLEPRIO ?s = Some (Inr s1)"
    "kernel_ok m {} {RLIST} T1 L1 ds1 s1" "in_order (thr s1)"
    by (auto simp: kernel_returns_def)
  have p: "IDLEPRIO \<le> prio (thr ?s) (current (thr ?s))" "IDLEPRIO \<le> HIGHPRIO" "i \<noteq> current (thr ?s)"
    unfolding sx using x d(3) by (simp_all add: IDLEPRIO_def HIGHPRIO_def NORMALPRIO_def)
  have st: "th_state (thr s1) i = CH_STATE_READY" "current (thr s1) = m"
    "\<And>u. u \<noteq> i \<Longrightarrow> th_state (thr s1) u = ((\<lambda>_. CH_STATE_FINAL)(m := CH_STATE_CURRENT)) u"
    using lower_stays_ready [OF s1(1) p] unfolding sx x by simp_all
  have "kernel_ok i {} {RLIST} T1 L1 ds1 s1" by (rule kernel_ok_idle [OF s1(2) st(1)])
  then obtain Q pl where k: "vt_good T1 L1 ds1 s1" "sched_inv Q pl {} (thr s1)" "waits {} ds1 (vt_par s1) pl (thr s1)"
    "pl i \<in> {In RLIST, Running}" "dom Q = {RLIST}"
    by (rule kernel_okE)
  have b0: "boot_inv i {} {RLIST} pl (thr s1) (thr s1)" using k by (auto simp: boot_inv_def)
  have fin: "\<forall>q \<in> set qs. th_state (thr s1) q = CH_STATE_FINAL"
    "\<forall>(q, n) \<in> set sps. th_state (thr s1) q = CH_STATE_FINAL \<and> 0 \<le> n"
    using st(3) d(8) n by fastforce+
  obtain x' where x': "init_sems sps (init_queues qs (thr s1)) = Inr x'"
    "boot_inv i (fst ` set sps \<union> {}) (fst ` set sps \<union> (set qs \<union> {RLIST})) pl (thr s1) x'"
    using boot_sems_ok [OF boot_queues_ok [OF b0 d(4,6) fin(1)] d(5,7) fin(2)] by blast
  let ?t = "vtimers.more_update (\<lambda>_. x') s1"
  have t: "thr ?t = x'" "vt_par ?t = vt_par s1" by (cases s1; simp)+
  have D: "fst ` set sps \<union> (set qs \<union> {RLIST}) = boot_queues qs sps" by (auto simp: boot_queues_def)
  obtain Q' where Q': "sched_inv Q' pl (fst ` set sps) x'" "dom Q' = boot_queues qs sps"
    "cont x' = cont (thr s1)" "th_u x' = th_u (thr s1)" "prio x' = prio (thr s1)" "current x' = current (thr s1)"
    using x'(2) unfolding D by (auto simp: boot_inv_def)
  have "i \<notin> boot_queues qs sps" using d by (auto simp: boot_queues_def)
  moreover have "waits {} ds1 (vt_par s1) pl x'" using k(3) Q'(3,4) by (simp add: waits_def)
  moreover have "vt_good T1 L1 ds1 ?t" using k(1) by simp
  ultimately have ok: "kernel_ok i (fst ` set sps) (boot_queues qs sps) T1 L1 ds1 ?t"
    unfolding kernel_ok_def t using Q'(1,2) k(4) by blast
  have "in_order x'"
  proof -
    have c: "sched_core Q pl {} (thr s1)" "sched_core Q' pl (fst ` set sps) x'" using k(2) Q'(1) by (auto simp: sched_inv_def)
    obtain ts ts' where ts: "Q RLIST = Some ts" "Q' RLIST = Some ts'" using c by (fastforce simp: sched_core_def)
    have "set ts = set ts'"
      using queues_set [OF sched_coreD(1) [OF c(1)] ts(1)] queues_set [OF sched_coreD(1) [OF c(2)] ts(2)] by simp
    then show ?thesis using in_order_iff [OF c(1) ts(1)] in_order_iff [OF c(2) ts(2)] s1(3) Q'(5,6) by simp
  qed
  then have "kernel_inv i (fst ` set sps) (boot_queues qs sps) ?t" using ok t by (auto simp: kernel_inv_def)
  moreover have "kernel_boot m i qs sps = Some (Inr ?t)"
    using idle s1(1) x'(1) by (simp add: kernel_boot_def on_threads_def)
  ultimately show ?thesis using Q'(6) st(2) t by auto
qed

end
