(* ===== verification/KernelSpec.thy ===== *)
theory KernelSpec
  imports KernelBoot
begin

text \<open>
  What the kernel promises: it never halts and always runs a thread of the highest priority, and a timer is
  armed only while its thread waits for it.
\<close>

declare One_nat_def [simp del]

section \<open>Evaluation\<close>

text \<open>
  The simplifier runs the kernel with these equations; the congruence rule keeps it from rewriting what comes
  after an operation before the operation has returned.
\<close>

lemma bindP_weak_cong: "m = m' \<Longrightarrow> bindP m f = bindP m' f" by simp

lemma take_bit_num_one: "take_bit_num 1 num.One = Some num.One"
  by (simp add: One_nat_def)

lemma word_le_one: "numeral a \<le> (1 :: 32 word) \<longleftrightarrow> uint (numeral a :: 32 word) \<le> 1"
  by (simp add: word_le_def)

lemma word_max_le: "- 1 \<le> (numeral a :: 32 word) \<longleftrightarrow> 2 ^ 32 - 1 \<le> uint (numeral a :: 32 word)"
  by (simp add: word_le_def unsigned_minus_1_eq_mask mask_eq_exp_minus_1)

lemmas kernel_eval = kernel_boot_def chSysInit_def power_on_def on_threads_def scheduler_init_def queue_init_def
  main_thread_def thread_init_def vt_init_def chThdCreate_def chThdCreateSuspendedI_def chSchWakeupS_def
  chSchReadyI_def chSchReadyAheadI_def ready_with_def queue_link_def chSemObjectInit_def queue_isempty_def queue_notempty_def firstprio_def
  RLIST_def NOPRIO_def IDLEPRIO_def NORMALPRIO_def HIGHPRIO_def VTLIST_def Let_def dbgCheck_def dbgAssert_def
  ready_scan.simps ready_scan_ahead.simps boot_queues_def chThdCreateStatic_def chSysSwitch_def next_current_def queue_fifo_remove_def
  chSemWaitS_def sem_consistent_def sem_add_def return_now_def chSemWaitTimeoutS_def sem_enqueue_def queue_insert_def
  chSchGoSleepTimeoutS_def chSchGoSleepS_def stack_vt_def chVTDoSetI_def chVTGetSystemTimeX_def st_advance_def
  CH_CFG_ST_TIMEDELTA_def chTimeAddX_def chTimeDiffX_def stStartAlarm_def stSetAlarm_def st_lld_start_alarm_def st_lld_set_alarm_def
  st_lld_is_alarm_active_def st_lld_stop_alarm_def chVTIsArmedI_def chVTDoResetI_def vt_unlink_def vt_set_start_def vt_scan.simps vt_link_def
  ST_HANDLER_def chVTDoTickI_def vt_tick_loop.simps vt_consume.simps vt_tick_end_def wakeup_def queue_dequeue_def
  irq_epilogue_def chSchIsPreemptionRequired_def chSchDoReschedule_def chSchDoRescheduleAhead_def chSchDoRescheduleBehind_def
  chSchRescheduleS_def chSchIsRescRequiredI_def chSchDoYieldS_def chSchCanYieldS_def thdEnqueueTimeoutS_def
  thdDequeueNextI_def chThdDoDequeueNextI_def served_def may_wait_def timeout_ok_def TIME_IMMEDIATE_def TIME_INFINITE_def lag_def
  deref_def take_bit_num_one word_le_one word_max_le

text \<open>
  A run: main (1) creates a thread of priority 200 (5), which takes the semaphore (4) and waits for it again for at most 10
  ticks; main waits in the queue (3); the clock runs on, the timer interrupt ends the wait of thread 5, an interrupt
  handler wakes main, thread 5 yields.
\<close>

definition demo_sems :: "(nat \<times> int) list" where
  "demo_sems = [(4, 1)]"

definition demo_events :: "(kevent \<times> nat list) list" where
  "demo_events =
     [(Call (Create 5 200), []), (Call (SemWait 4), []), (Call (SemWaitTimeout 4 10), [1]), (Pass 4, []),
      (Call (Enqueue 3 100), []), (Pass 6, []), (TimerIrq, [1]), (Irq (DequeueNextI 3 MSG_OK), []), (Call Yield, [])]"

lemma demo_run:
  "\<exists>s0 s. kernel_boot 1 2 [3] demo_sems = Some (Inr s0) \<and>
     kernel_legal 2 (fst ` set demo_sems) (boot_queues [3] demo_sems) demo_events s0 \<and>
     kernel_run demo_events s0 = Some (Inr s) \<and> returned (thr s) = [(5, MSG_OK), (5, MSG_TIMEOUT)] \<and> current (thr s) = 5 \<and>
     chVTIsArmedI 2 s \<and> vt_next s VTLIST \<noteq> VTLIST \<and> \<not> CC1IF s"
  by (simp add: demo_events_def demo_sems_def kernel_eval cong: bindP_weak_cong)

lemma demo_args: "boot_args 1 2 [3] demo_sems"
  by (simp add: boot_args_def RLIST_def demo_sems_def)

section \<open>Properties\<close>

lemma kernel_inv_runs:
  assumes "kernel_inv i S D s"
  shows "th_state (thr s) t = CH_STATE_CURRENT \<longleftrightarrow> t = current (thr s)"
    "th_state (thr s) t = CH_STATE_READY \<Longrightarrow> prio (thr s) t \<le> prio (thr s) (current (thr s))"
    "th_state (thr s) i \<in> {CH_STATE_READY, CH_STATE_CURRENT}"
proof -
  obtain T L ds Q pl where k: "sched_inv Q pl S (thr s)" "pl i \<in> {In RLIST, Running}" and ord: "in_order (thr s)"
    using assms by (auto simp: kernel_inv_def kernel_ok_def)
  have core: "sched_core Q pl S (thr s)" and run: "\<And>t. pl t = Running \<longleftrightarrow> t = current (thr s)" and nl: "pl t \<noteq> Limbo"
    using k by (auto simp: sched_inv_def)
  obtain ts where ts: "Q RLIST = Some ts" using core by (auto simp: sched_core_def)
  have ok: "place_ok S (pl u) (th_state (thr s) u) (th_u (thr s) u)" for u by (rule sched_coreD(2) [OF core])
  have "th_state (thr s) t = CH_STATE_CURRENT \<longleftrightarrow> pl t = Running"
    using ok [of t] nl by (cases "pl t") (auto split: if_splits)
  then show "th_state (thr s) t = CH_STATE_CURRENT \<longleftrightarrow> t = current (thr s)" using run by simp
  show "prio (thr s) t \<le> prio (thr s) (current (thr s))" if "th_state (thr s) t = CH_STATE_READY"
  proof -
    have "pl t = In RLIST" using place_of_state(1) [OF core, of t] that by blast
    then have "t \<in> set ts" using queuesD(2) [OF sched_coreD(1) [OF core] ts] by simp
    then show ?thesis using in_order_iff [OF core ts] ord by simp
  qed
  show "th_state (thr s) i \<in> {CH_STATE_READY, CH_STATE_CURRENT}" using ok [of i] k(2) by auto
qed

lemma kernel_inv_timers:
  assumes "kernel_inv i S D s"
  shows "chVTIsArmedI t s \<Longrightarrow> t = stack_vt (vt_par s t) \<and> cont (thr s) (vt_par s t) = Some (Disarm t) \<and>
      vt_par s t \<noteq> current (thr s)"
    "cont (thr s) p = Some (Disarm t) \<Longrightarrow> t = stack_vt p \<and> (chVTIsArmedI t s \<or> th_state (thr s) p = CH_STATE_READY)"
proof -
  obtain T L ds where ok: "kernel_ok i S D T L ds s" using assms by (auto simp: kernel_inv_def)
  obtain Q pl where k: "vt_good T L ds s" "sched_inv Q pl S (thr s)" "waits {} ds (vt_par s) pl (thr s)"
    by (rule kernel_okE [OF ok])
  have core: "sched_core Q pl S (thr s)" and run: "\<And>t. pl t = Running \<longleftrightarrow> t = current (thr s)"
    using k by (auto simp: sched_inv_def)
  show "t = stack_vt (vt_par s t) \<and> cont (thr s) (vt_par s t) = Some (Disarm t) \<and> vt_par s t \<noteq> current (thr s)"
    if "chVTIsArmedI t s"
  proof -
    have "t \<in> set (timers ds)" using that vt_good_armed [OF k(1)] by simp
    then have 1: "t = stack_vt (vt_par s t)" "cont (thr s) (vt_par s t) = Some (Disarm t)" using waitsD(1) [OF k(3)] by simp_all
    moreover have "pl (vt_par s t) \<noteq> Running" using waitsD(2) [OF k(3) 1(2)] by simp
    ultimately show ?thesis using run by simp
  qed
  show "t = stack_vt p \<and> (chVTIsArmedI t s \<or> th_state (thr s) p = CH_STATE_READY)" if c: "cont (thr s) p = Some (Disarm t)"
  proof -
    have "pl p \<noteq> Running" using waitsD(2) [OF k(3) c] by simp
    then have "t \<in> set (timers ds) \<or> pl p = In RLIST" using waitsD(6) [OF k(3) c] by auto
    then show ?thesis using waitsD(4) [OF k(3) c] vt_good_armed [OF k(1)] place_of_state(1) [OF core, of p] by blast
  qed
qed



text \<open>
  C18: No dangling timer. The timer of a call with a timeout lives on the stack of the calling thread. In every
  state the kernel reaches, an armed timer belongs to a thread that is still inside such a call and not running, and a
  thread inside such a call that is not yet ready again has its timer armed, so it is woken in the end.
\<close>

theorem kernel_timers_safe:
  assumes "boot_args m i qs sps" "kernel_boot m i qs sps = Some (Inr s0)"
    "kernel_legal i (fst ` set sps) (boot_queues qs sps) es s0" "kernel_run es s0 = Some (Inr s)"
  shows "(\<forall>t. chVTIsArmedI t s \<longrightarrow> t = stack_vt (vt_par s t) \<and> cont (thr s) (vt_par s t) = Some (Disarm t) \<and>
      vt_par s t \<noteq> current (thr s)) \<and>
    (\<forall>p t. cont (thr s) p = Some (Disarm t) \<longrightarrow> t = stack_vt p \<and> (chVTIsArmedI t s \<or> th_state (thr s) p = CH_STATE_READY))"
proof -
  have "kernel_inv i (fst ` set sps) (boot_queues qs sps) s0" using kernel_boot_ok [OF assms(1)] assms(2) by auto
  then have "kernel_inv i (fst ` set sps) (boot_queues qs sps) s" using kernel_run_ok [OF _ assms(3)] assms(4) by fastforce
  from kernel_inv_timers [OF this] show ?thesis by blast
qed



theorem kernel_timers_safe_witness:
  "\<exists>s0 s. kernel_boot 1 2 [3] demo_sems = Some (Inr s0) \<and> kernel_run demo_events s0 = Some (Inr s) \<and>
     chVTIsArmedI 2 s \<and> cont (thr s) (vt_par s 2) = Some (Disarm 2) \<and> vt_par s 2 \<noteq> current (thr s)"
proof -
  obtain s0 s where d: "kernel_boot 1 2 [3] demo_sems = Some (Inr s0)"
    "kernel_legal 2 (fst ` set demo_sems) (boot_queues [3] demo_sems) demo_events s0"
    "kernel_run demo_events s0 = Some (Inr s)" "chVTIsArmedI 2 s"
    using demo_run by blast
  from kernel_timers_safe [OF demo_args d(1-3)] d show ?thesis by blast
qed

end
