(* ===== verification/TimerSpec.thy ===== *)
theory TimerSpec
  imports KernelSpec
begin

text \<open>
  What the virtual timers promise: setting and resetting keep the list of deadlines, the interrupt calls exactly
  the callbacks that are due, in order, and the alarm never comes late. Then the limits of the promise: delays close to the range of the
  counter, a callback that arms a timer again when it is late, an interrupt without timers.
\<close>

declare One_nat_def [simp del]

lemma quiet_callbacks:
  assumes "\<And>f p s. cb f p s = Some (Inr (vtimers.more_update (eff f p) s))"
  shows "vt_callbacks cb eff (\<lambda>_ _. True)"
  by unfold_locales (use assms in simp_all)

lemma vt_good_start: "vt_good 0 0 [] (vt_init power_on)"
  by (simp add: vt_good_def vt_ok_def vt_abs_def alarm_ok_def vt_init_def power_on_def ring_def VTLIST_def)

definition log_call :: "vtfunc \<Rightarrow> nat \<Rightarrow> threads \<Rightarrow> threads" where
  "log_call f p x = x\<lparr>returned := returned x @ [(p, MSG_OK)]\<rparr>"

definition log_callback :: "vtfunc \<Rightarrow> nat \<Rightarrow> kernel \<Rightarrow> kernel diverge" where
  "log_callback f p s = Some (Inr (vtimers.more_update (log_call f p) s))"

lemmas timer_eval = kernel_eval log_callback_def log_call_def

section \<open>The contract\<close>

text \<open>The alarm is pending when the first deadline has come.\<close>

lemma alarm_due:
  assumes good: "vt_good T L ds s" and e: "(t, D) \<in> set ds" and n: "D \<le> T + n" "2 \<le> n"
  shows "CC1IF (st_advance n s)"
proof -
  have ne: "ds \<noteq> []" using e by auto
  have "snd (hd ds) \<le> D" using vt_good_sorted [OF good] e by (cases ds) auto
  then have "max (snd (hd ds) - T) 2 \<le> n" using n by simp
  then show ?thesis using good ne by (auto simp: vt_good_def vt_ok_def alarm_ok_def st_advance_def)
qed

text \<open>
  The interrupt after \<open>n\<close> ticks, when no time passes while it is served: a timer with deadline \<open>D\<close> is off the list exactly when
  \<open>D\<close> has come.
\<close>

lemma quiet_tick:
  assumes good: "vt_good T L ds s" and e: "(t, D) \<in> set ds" "T + 2 \<le> D"
    and cb: "\<And>f p s. cb f p s = Some (Inr (vtimers.more_update (eff f p) s))"
    and lags: "lags s = []" and age: "T + n - L < 2 ^ 31"
  shows "\<exists>s2 fired. ST_HANDLER cb (st_advance n s) = Some (Inr s2) \<and> (chVTIsArmedI t s2 \<longleftrightarrow> T + n < D) \<and>
    vtimers.more s2 = fold (\<lambda>(f, p). eff f p) (vt_calls s fired) (vtimers.more s) \<and> (D \<le> T + n \<longrightarrow> t \<in> set fired)"
proof -
  let ?t = "st_advance n s"
  have g: "vt_good (T + n) L ds ?t" by (rule vt_good_pass [OF good]) (use age lags in simp)
  have calls: "vt_calls ?t ts = vt_calls s ts" for ts by (rule vt_calls_cong) simp_all
  obtain s2 T' Tn L' fired rest where h: "ST_HANDLER cb ?t = Some (Inr s2)" "ds = fired @ rest"
    "\<forall>e \<in> set fired. snd e \<le> Tn" "CC1IF ?t \<longrightarrow> (\<forall>e \<in> set rest. Tn < snd e)" "T + n \<le> Tn" "Tn \<le> T'"
    "T' + sum_list (lags s2) = T + n + sum_list (lags ?t)" "vt_good T' L' rest s2"
    "vtimers.more s2 = fold (\<lambda>(f, p). eff f p) (vt_calls ?t (timers fired)) (vtimers.more ?t)"
  proof -
    have "vt_callbacks cb eff (\<lambda>_ _. True)" by (rule quiet_callbacks) (rule cb)
    moreover have "ds \<noteq> []" using e by auto
    ultimately show ?thesis using vt_callbacks.vt_tick_good [OF _ g] lags that by (simp del: set_map) blast
  qed
  have Tn: "Tn = T + n" using h(5-7) lags by simp
  have mem: "t \<in> set (timers fired) \<and> D \<le> T + n \<or> t \<in> set (timers rest) \<and> T + n < D"
  proof (cases "(t, D) \<in> set fired")
    case True
    then have "D \<le> T + n" using h(3) Tn by fastforce
    then show ?thesis using True by force
  next
    case False
    then have r: "(t, D) \<in> set rest" using e h(2) by auto
    have "T + n < D"
    proof (rule ccontr)
      assume "\<not> T + n < D"
      then have "CC1IF ?t" using alarm_due [OF good e(1), of n] e(2) by simp
      then show False using h(4) r Tn \<open>\<not> T + n < D\<close> by fastforce
    qed
    then show ?thesis using r by force
  qed
  have "distinct (timers (fired @ rest))" using vt_good_distinct [OF g] h(2) by simp
  then have "chVTIsArmedI t s2 \<longleftrightarrow> T + n < D" using vt_good_armed [OF h(8), of t] mem by auto
  then show ?thesis using h(1,9) mem calls by - (rule exI [of _ s2], rule exI [of _ "timers fired"], auto)
qed

text \<open>
  C19: A timer fires when it is due. Set a timer for \<open>delay\<close> ticks (below \<open>2 ^ 31\<close>) among any others and let \<open>n\<close> ticks pass: the
  interrupt of the timer then leaves it armed when \<open>n\<close> is less than the delay, and takes it off the list and calls its
  callback with its parameter when \<open>n\<close> has reached it. Delays of one tick count as two.
\<close>

theorem timer_fires_when_due:
  assumes good: "vt_good T L ds s" and fresh: "vtp \<noteq> VTLIST" "\<not> chVTIsArmedI vtp s"
    and delay: "delay \<noteq> 0" "unat delay < 2 ^ 31"
    and cb: "\<And>f p s. cb f p s = Some (Inr (vtimers.more_update (eff f p) s))"
    and set: "chVTDoSetI (Some vtp) delay (Some f) par s = Some (Inr s1)"
    and served: "unat (ST_CNT s1 - lasttime s1) + n < 2 ^ 31"
  shows "\<exists>s2 cs. ST_HANDLER cb (st_advance n (s1\<lparr>lags := []\<rparr>)) = Some (Inr s2) \<and>
    (chVTIsArmedI vtp s2 \<longleftrightarrow> n < max 2 (unat delay)) \<and>
    vtimers.more s2 = fold (\<lambda>(f, p). eff f p) cs (vtimers.more s) \<and> (max 2 (unat delay) \<le> n \<longrightarrow> (f, par) \<in> set cs)"
proof -
  have "vtp \<notin> set (timers ds)" using fresh vt_good_armed [OF good] by simp
  then obtain T1 L1 where s1: "vt_good T1 L1 (vt_ins vtp (T1 + max 2 (unat delay)) ds) s1"
    "vt_func s1 = (vt_func s)(vtp := Some f)" "vt_par s1 = (vt_par s)(vtp := par)" "vtimers.more s1 = vtimers.more s"
    using vt_set_good [OF good fresh(1) _ delay, of f par] set by auto
  let ?ds = "vt_ins vtp (T1 + max 2 (unat delay)) ds" and ?s = "s1\<lparr>lags := []\<rparr>" and ?D = "T1 + max 2 (unat delay)"
  have "L1 \<le> T1" using s1(1) by (simp add: vt_good_def vt_ok_def vt_abs_def)
  then have age: "T1 + n - L1 < 2 ^ 31" using vt_age [OF s1(1)] served by simp
  have g: "vt_good T1 L1 ?ds ?s" by (rule vt_good_new_lags [OF s1(1)]) (use age in simp_all)
  have e: "(vtp, ?D) \<in> set ?ds" "T1 + 2 \<le> ?D" by simp_all
  have l: "lags ?s = []" by simp
  obtain s2 fired where s2: "ST_HANDLER cb (st_advance n ?s) = Some (Inr s2)" "chVTIsArmedI vtp s2 \<longleftrightarrow> T1 + n < ?D"
    "vtimers.more s2 = fold (\<lambda>(f, p). eff f p) (vt_calls ?s fired) (vtimers.more ?s)" "?D \<le> T1 + n \<longrightarrow> vtp \<in> set fired"
    using quiet_tick [where cb = cb and eff = eff, OF g e cb l age] by blast
  have "(f, par) \<in> set (vt_calls ?s fired)" if "max 2 (unat delay) \<le> n"
    using s2(4) that s1(2,3) by (force simp: vt_calls_def)
  then show ?thesis using s2(1-3) s1(4)
    by - (rule exI [of _ s2], rule exI [of _ "vt_calls ?s fired"], simp)
qed

theorem timer_fires_when_due_witness:
  "\<exists>s1 s2 cs. chVTDoSetI (Some 7) 5 (Some Wakeup) 9 (vt_init power_on) = Some (Inr s1) \<and>
     ST_HANDLER log_callback (st_advance 5 (s1\<lparr>lags := []\<rparr>)) = Some (Inr s2) \<and> \<not> chVTIsArmedI 7 s2 \<and>
     thr s2 = fold (\<lambda>(f, p). log_call f p) cs (thr (vt_init power_on)) \<and> (Wakeup, 9) \<in> set cs"
proof -
  obtain s1 where s1: "chVTDoSetI (Some 7) 5 (Some Wakeup) 9 (vt_init power_on) = Some (Inr s1)"
    "unat (ST_CNT s1 - lasttime s1) + 5 < 2 ^ 31"
    by (simp add: timer_eval)
  have f: "(7 :: nat) \<noteq> VTLIST" "\<not> chVTIsArmedI 7 (vt_init power_on)" by (simp_all add: timer_eval)
  have c: "log_callback f p s = Some (Inr (vtimers.more_update (log_call f p) s))" for f p s by (simp add: log_callback_def)
  from timer_fires_when_due [where cb = log_callback and eff = log_call, OF vt_good_start f _ _ c s1] s1(1)
  show ?thesis by (simp only: chVTIsArmedI_def) force
qed

text \<open>
  C20: Setting a timer refines the insertion into the sorted list of deadlines. The 32 bit deltas, the base time and the alarm
  register change so that they stand for the same deadlines as before and the new one, \<open>max 2 delay\<close> ticks after the
  time that was read; no timer moves, whatever the counter value and however late the list is served.
\<close>

theorem chVTDoSetI_refines:
  assumes "vt_good T L ds s" "vtp \<noteq> VTLIST" "\<not> chVTIsArmedI vtp s" "delay \<noteq> 0" "unat delay < 2 ^ 31"
  shows "\<exists>s' T' L'. chVTDoSetI (Some vtp) delay (Some f) par s = Some (Inr s') \<and> T \<le> T' \<and>
    T' + sum_list (lags s') = T + sum_list (lags s) \<and> vt_good T' L' (vt_ins vtp (T' + max 2 (unat delay)) ds) s'"
proof -
  have "vtp \<notin> set (timers ds)" using assms(3) vt_good_armed [OF assms(1)] by simp
  from vt_set_good [OF assms(1,2) this assms(4,5)] show ?thesis by blast
qed

theorem chVTDoSetI_refines_witness:
  "\<exists>s' T' L'. chVTDoSetI (Some 7) 1 (Some Wakeup) 9 (vt_init power_on\<lparr>lags := [3]\<rparr>) = Some (Inr s') \<and> T' + sum_list (lags s') = 3 \<and>
    vt_good T' L' (vt_ins 7 (T' + 2) []) s'"
proof -
  have "vt_good 0 0 [] (vt_init power_on\<lparr>lags := [3]\<rparr>)" by (rule vt_good_new_lags [OF vt_good_start]) simp_all
  from chVTDoSetI_refines [OF this, of 7 1 Wakeup 9] show ?thesis
    by (simp add: VTLIST_def chVTIsArmedI_def vt_init_def power_on_def)
qed

text \<open>
  C21: Resetting a timer refines its removal from the list of deadlines: the others keep theirs, also the next one, whose
  delta takes over the time of the removed timer, and the alarm is programmed again when the first timer goes.
\<close>

theorem chVTDoResetI_refines:
  assumes "vt_good T L ds s" "chVTIsArmedI t s"
  shows "\<exists>s' T'. chVTDoResetI t s = Inr s' \<and> T \<le> T' \<and> T' + sum_list (lags s') = T + sum_list (lags s) \<and>
    vt_good T' L (vt_del t ds) s' \<and> \<not> chVTIsArmedI t s'"
proof -
  have "t \<in> set (timers ds)" using assms(2) vt_good_armed [OF assms(1)] by simp
  from vt_reset_good [OF assms(1) this] show ?thesis by (auto simp: chVTIsArmedI_def)
qed

theorem chVTDoResetI_refines_witness:
  "\<exists>s1 s'. chVTDoSetI (Some 7) 5 (Some Wakeup) 9 (vt_init power_on) = Some (Inr s1) \<and> chVTDoResetI 7 s1 = Inr s' \<and>
    \<not> chVTIsArmedI 7 s'"
proof -
  obtain s1 T' L' where s1: "chVTDoSetI (Some 7) 5 (Some Wakeup) 9 (vt_init power_on) = Some (Inr s1)"
    "vt_good T' L' (vt_ins 7 (T' + max 2 (unat (5 :: sysinterval))) []) s1"
    using vt_set_good [OF vt_good_start, of 7 5 Wakeup 9] by (auto simp: VTLIST_def)
  have "chVTIsArmedI 7 s1" using vt_good_armed [OF s1(2), of 7] by simp
  from chVTDoResetI_refines [OF s1(2) this] obtain s' where "chVTDoResetI 7 s1 = Inr s'" "\<not> chVTIsArmedI 7 s'" by blast
  with s1(1) show ?thesis by simp
qed

text \<open>
  C22: The interrupt of the timer ends, and calls what is due. Time may go on between its readings of the counter, so both of its
  loops are driven by the clock; they end for every list of timers and callbacks that leave the timers alone. It takes off the
  timers with a deadline up to the last reading \<open>Tn\<close>, calls their callbacks in the order of the deadlines, each once, and leaves the
  others with their deadlines and the alarm programmed for the first of them.
\<close>

theorem ST_HANDLER_calls_due:
  assumes good: "vt_good T L ds s" and lag: "\<forall>n \<in> set (lags s). n \<le> 2" and irq: "CC1IF s" "ds \<noteq> []"
    and cb: "\<And>f p s. cb f p s = Some (Inr (vtimers.more_update (eff f p) s))"
  shows "\<exists>s' Tn T' L'. ST_HANDLER cb s = Some (Inr s') \<and> T \<le> Tn \<and> Tn \<le> T' \<and> T' + sum_list (lags s') = T + sum_list (lags s) \<and>
    vt_good T' L' (dropWhile (\<lambda>e. snd e \<le> Tn) ds) s' \<and>
    vtimers.more s' = fold (\<lambda>t. eff (the (vt_func s t)) (vt_par s t)) (timers (takeWhile (\<lambda>e. snd e \<le> Tn) ds)) (vtimers.more s)"
proof -
  have "vt_callbacks cb eff (\<lambda>_ _. True)" by (rule quiet_callbacks) (rule cb)
  from vt_callbacks.vt_tick_good [OF this good _ lag] irq
  obtain s' T' Tn L' fired rest where h: "ST_HANDLER cb s = Some (Inr s')" "ds = fired @ rest"
    "\<forall>e \<in> set fired. snd e \<le> Tn" "\<forall>e \<in> set rest. Tn < snd e" "T \<le> Tn" "Tn \<le> T'"
    "T' + sum_list (lags s') = T + sum_list (lags s)" "vt_good T' L' rest s'"
    "vtimers.more s' = fold (\<lambda>(f, p). eff f p) (vt_calls s (timers fired)) (vtimers.more s)"
    by (simp del: set_map) blast
  have "takeWhile (\<lambda>e. snd e \<le> Tn) ds = fired" "dropWhile (\<lambda>e. snd e \<le> Tn) ds = rest"
    using h(2-4) by (auto simp: takeWhile_append dropWhile_append takeWhile_eq_Nil_iff dropWhile_eq_Cons_conv
        intro: dropWhile_eq_self_iff [THEN iffD2]) (cases rest; force)+
  moreover have "fold (\<lambda>(f, p). eff f p) (vt_calls s ts) x = fold (\<lambda>t. eff (the (vt_func s t)) (vt_par s t)) ts x" for ts x
    by (induction ts arbitrary: x) simp_all
  ultimately show ?thesis using h by - (rule exI [of _ s'], rule exI [of _ Tn], rule exI [of _ T'], rule exI [of _ L'], simp)
qed

theorem ST_HANDLER_calls_due_witness:
  "\<exists>s s'. chVTDoSetI (Some 7) 5 (Some Wakeup) 9 (vt_init power_on) = Some (Inr s) \<and>
     ST_HANDLER log_callback ((st_advance 8 s)\<lparr>lags := [1, 2]\<rparr>) = Some (Inr s') \<and>
     thr s' = log_call (the (vt_func s 7)) (vt_par s 7) (thr s)"
proof -
  have L: "lags (vt_init power_on) = []" by (simp add: timer_eval)
  obtain s T' L' where s: "chVTDoSetI (Some 7) 5 (Some Wakeup) 9 (vt_init power_on) = Some (Inr s)"
    "vt_good T' L' (vt_ins 7 (T' + max 2 (unat (5 :: sysinterval))) []) s" "T' + sum_list (lags s) = 0"
    using vt_set_good [OF vt_good_start, of 7 5 Wakeup 9] L by (auto simp: VTLIST_def)
  have T: "T' = 0" "sum_list (lags s) = 0" using s(3) by simp_all
  have g: "vt_good 0 L' [(7, 5)] s" using s(2) T(1) by (simp add: vt_ins_def)
  then have L0: "L' = 0" by (simp add: vt_good_def vt_ok_def vt_abs_def)
  have "0 + sum_list (lags s) + 8 - L' < 2 ^ 31" unfolding T(2) by simp
  then have "vt_good (0 + 8) L' [(7, 5)] (st_advance 8 s)" by (intro vt_good_pass [OF g])
  from vt_good_new_lags [OF this, of "[1, 2]"] L0 have g8: "vt_good 8 L' [(7, 5)] ((st_advance 8 s)\<lparr>lags := [1, 2]\<rparr>)" by simp
  let ?s = "(st_advance 8 s)\<lparr>lags := [1, 2]\<rparr>"
  have irq: "\<forall>n \<in> set (lags ?s). n \<le> 2" "CC1IF ?s" "[(7 :: nat, 5 :: nat)] \<noteq> []"
    using alarm_due [OF g, of 7 5 8] by simp_all
  have c: "log_callback f p s = Some (Inr (vtimers.more_update (log_call f p) s))" for f p s by (simp add: log_callback_def)
  from ST_HANDLER_calls_due [where cb = log_callback and eff = log_call, OF g8 irq c]
  obtain s' Tn where h: "ST_HANDLER log_callback ?s = Some (Inr s')" "8 \<le> Tn"
    "thr s' = fold (\<lambda>t. log_call (the (vt_func ?s t)) (vt_par ?s t)) (timers (takeWhile (\<lambda>e. snd e \<le> Tn) [(7, 5)])) (thr ?s)"
    by blast
  then show ?thesis using s(1) by - (rule exI [of _ s], rule exI [of _ s'], simp)
qed

end
