(* ===== verification/SchedSpec.thy ===== *)
theory SchedSpec
  imports TimerSpec
begin

text \<open>
  The ready list as a sorted list, the alarm of the kernel, and where the kernel and its timers leave the contract: priority 0,
  delays near the range of the counter, periodic timers served late.
\<close>

declare One_nat_def [simp del]

section \<open>The ready list\<close>

lemma insort_ahead: "insort_key (\<lambda>u. - int (pr u)) t ts = ahead pr t ts"
  by (induction ts) (auto simp: ahead_def)

lemma sorted_desc: "sorted (map (\<lambda>u. - int (pr u)) ts) = sorted_wrt (\<lambda>a b. pr b \<le> pr a) ts"
  by (simp add: sorted_wrt_map)

lemma ahead_is_sort:
  "sorted_wrt (\<lambda>a b. pr b \<le> pr a) ts \<Longrightarrow> ahead pr t ts = sort_key (\<lambda>u. - int (pr u)) (t # ts)"
  using sorted_desc [of pr ts] by (simp add: insort_ahead sorted_sort_id sort_key_id_if_sorted)

lemma behind_is_sort:
  "sorted_wrt (\<lambda>a b. pr b \<le> pr a) ts \<Longrightarrow> behind pr t ts = sort_key (\<lambda>u. - int (pr u)) (ts @ [t])"
proof (induction ts)
  case (Cons u us)
  then have IH: "sort_key (\<lambda>u. - int (pr u)) (us @ [t]) = behind pr t us" and u: "\<forall>v \<in> set us. pr v \<le> pr u" by simp_all
  have "insort_key (\<lambda>u. - int (pr u)) u (behind pr t us) = behind pr t (u # us)"
  proof (cases "pr t \<le> pr u")
    case True
    then show ?thesis using u by (cases us) (auto simp: behind_def)
  next
    case False
    then have "takeWhile (\<lambda>v. pr t \<le> pr v) us = []" "dropWhile (\<lambda>v. pr t \<le> pr v) us = us"
      using u by (cases us; fastforce)+
    then show ?thesis using False u by (cases us) (auto simp: behind_def)
  qed
  then show ?case using IH by simp
qed (simp add: behind_def)

lemma ready_link_ring:
  assumes "ring (q_next x) (q_prev x) RLIST (xs @ ys)" "t \<notin> set (RLIST # xs @ ys)" "p = hd (ys @ [RLIST])"
  shows "ring (q_next (ready_state t p x)) (q_prev (ready_state t p x)) RLIST (xs @ t # ys)"
proof -
  have "p \<noteq> t" using assms(2,3) by (cases ys) auto
  then show ?thesis using ring_insert [OF assms] by (simp add: ready_state_def queue_link_links)
qed

lemma ready_eqs:
  assumes "ring (q_next x) (q_prev x) RLIST ts" "prio x RLIST = NOPRIO" "0 < prio x t" "th_state x t \<notin> {CH_STATE_READY, CH_STATE_FINAL}"
  shows "chSchReadyI t x = Some (Inr (ready_state t (hd (dropWhile (\<lambda>u. prio x t \<le> prio x u) ts @ [RLIST])) x))"
    "chSchReadyAheadI t x = Some (Inr (ready_state t (hd (dropWhile (\<lambda>u. prio x t < prio x u) ts @ [RLIST])) x))"
proof -
  let ?x = "x\<lparr>th_state := (th_state x)(t := CH_STATE_READY)\<rparr>"
  have l: "links (q_next ?x) (q_prev ?x) RLIST ts RLIST" "prio ?x RLIST < prio ?x t" using assms by (simp_all add: ring_def NOPRIO_def)
  show "chSchReadyI t x = Some (Inr (ready_state t (hd (dropWhile (\<lambda>u. prio x t \<le> prio x u) ts @ [RLIST])) x))"
    using ready_scan_finds [OF l] assms(4) by (simp add: chSchReadyI_def ready_with_def ready_state_def Let_def)
  show "chSchReadyAheadI t x = Some (Inr (ready_state t (hd (dropWhile (\<lambda>u. prio x t < prio x u) ts @ [RLIST])) x))"
    using ready_scan_ahead_finds [OF l] assms(4) by (simp add: chSchReadyAheadI_def ready_with_def ready_state_def Let_def)
qed

text \<open>
  C23: The ready list is kept by a stable sort. The two scans of the linked list are equivalent to sorting by falling
  priority with the stable sort of the library: \<^verbatim>\<open>chSchReadyI\<close> sorts the thread in behind its peers,
  \<^verbatim>\<open>chSchReadyAheadI\<close> ahead of them, which is what makes a preempted thread go first and a yielding one last.
\<close>

theorem ready_list_is_stable_sort:
  assumes ring: "ring (q_next x) (q_prev x) RLIST ts" and sorted: "sorted_wrt (\<lambda>a b. prio x b \<le> prio x a) ts"
    and t: "prio x RLIST = NOPRIO" "0 < prio x t" "t \<notin> set (RLIST # ts)" "th_state x t \<notin> {CH_STATE_READY, CH_STATE_FINAL}"
  shows "\<exists>x' y. chSchReadyI t x = Some (Inr x') \<and>
    ring (q_next x') (q_prev x') RLIST (sort_key (\<lambda>u. - int (prio x u)) (ts @ [t])) \<and> th_state x' t = CH_STATE_READY \<and>
    chSchReadyAheadI t x = Some (Inr y) \<and>
    ring (q_next y) (q_prev y) RLIST (sort_key (\<lambda>u. - int (prio x u)) (t # ts)) \<and> th_state y t = CH_STATE_READY"
proof -
  let ?p = "hd (dropWhile (\<lambda>u. prio x t \<le> prio x u) ts @ [RLIST])"
  let ?q = "hd (dropWhile (\<lambda>u. prio x t < prio x u) ts @ [RLIST])"
  have s: "ts = takeWhile P ts @ dropWhile P ts" for P by simp
  have n: "t \<notin> set (RLIST # takeWhile P ts @ dropWhile P ts)" for P using t(3) by simp
  have 1: "ring (q_next (ready_state t ?p x)) (q_prev (ready_state t ?p x)) RLIST (behind (prio x) t ts)"
    unfolding behind_def by (rule ready_link_ring) (use ring n in simp_all)
  have 2: "ring (q_next (ready_state t ?q x)) (q_prev (ready_state t ?q x)) RLIST (ahead (prio x) t ts)"
    unfolding ahead_def by (rule ready_link_ring) (use ring n in simp_all)
  have "th_state (ready_state t p x) t = CH_STATE_READY" for p by (simp add: ready_state_def)
  then show ?thesis
    using ready_eqs [OF ring t(1,2,4)] 1 2 ahead_is_sort [OF sorted, of t] behind_is_sort [OF sorted, of t] by simp
qed

definition demo_ready :: threads where
  "demo_ready = (thr power_on)\<lparr>q_next := (\<lambda>_. 0)(0 := 3, 3 := 4, 4 := 0), q_prev := (\<lambda>_. 0)(3 := 0, 4 := 3, 0 := 4),
     prio := (\<lambda>_. 0)(3 := 128, 4 := 10, 5 := 128), th_state := (\<lambda>_. CH_STATE_READY)(5 := CH_STATE_CURRENT)\<rparr>"

theorem ready_list_is_stable_sort_witness:
  "\<exists>x' y. chSchReadyI 5 demo_ready = Some (Inr x') \<and> ring (q_next x') (q_prev x') RLIST [3, 5, 4] \<and>
    chSchReadyAheadI 5 demo_ready = Some (Inr y) \<and> ring (q_next y) (q_prev y) RLIST [5, 3, 4]"
proof -
  have "ring (q_next demo_ready) (q_prev demo_ready) RLIST [3, 4]" "sorted_wrt (\<lambda>a b. prio demo_ready b \<le> prio demo_ready a) [3, 4]"
    "prio demo_ready RLIST = NOPRIO" "0 < prio demo_ready 5" "5 \<notin> set (RLIST # [3, 4])"
    "th_state demo_ready 5 \<notin> {CH_STATE_READY, CH_STATE_FINAL}"
    by (simp_all add: demo_ready_def ring_def RLIST_def NOPRIO_def)
  from ready_list_is_stable_sort [OF this] show ?thesis by (simp add: demo_ready_def) blast
qed

section \<open>The alarm of the kernel\<close>

text \<open>
  C24: The alarm is never late. Whenever timers are armed in a state the kernel reaches, the interrupt is enabled and either pending or
  still to come, no later than the first timer is due or two ticks from now: the compare register never holds a time
  that has just passed, which would delay all timers by a turn of the counter.
\<close>

theorem alarm_never_late:
  assumes "boot_args m i qs sps" "kernel_boot m i qs sps = Some (Inr s0)"
    "kernel_legal i (fst ` set sps) (boot_queues qs sps) es s0" "kernel_run es s0 = Some (Inr s)"
    and armed: "vt_next s VTLIST \<noteq> VTLIST" and quiet: "\<not> CC1IF s"
  shows "CC1IE s \<and> 0 < unat (ST_CCR s - ST_CNT s) \<and>
    (unat (ST_CCR s - ST_CNT s) \<le> 2 \<or>
     unat (ST_CNT s - lasttime s) + unat (ST_CCR s - ST_CNT s) \<le> unat (vt_delta s (vt_next s VTLIST)))"
proof -
  have "kernel_inv i (fst ` set sps) (boot_queues qs sps) s0" using kernel_boot_ok [OF assms(1)] assms(2) by auto
  then have "kernel_inv i (fst ` set sps) (boot_queues qs sps) s" using kernel_run_ok [OF _ assms(3)] assms(4) by fastforce
  then obtain T L ds where good: "vt_good T L ds s" by (auto simp: kernel_inv_def kernel_ok_def)
  then have ne: "ds \<noteq> []" using armed vt_nonempty by blast
  then obtain t D ds' where ds: "ds = (t, D) # ds'" by (cases ds) auto
  have a: "ring (vt_next s) (vt_prev s) VTLIST (timers ds)" "D = L + unat (vt_delta s t)" "L \<le> T" "alarm_ok T ds s"
    using good ds by (auto simp: vt_good_def vt_ok_def vt_abs_def)
  have "vt_next s VTLIST = t" using ring_next [OF a(1)] ds by simp
  then show ?thesis using a(2-4) ds quiet vt_age [OF good ne] by (auto simp: alarm_ok_def max_def split: if_splits)
qed

theorem alarm_never_late_witness:
  "\<exists>s0 s. kernel_boot 1 2 [3] demo_sems = Some (Inr s0) \<and> kernel_run demo_events s0 = Some (Inr s) \<and>
     CC1IE s \<and> 0 < unat (ST_CCR s - ST_CNT s)"
proof -
  obtain s0 s where d: "kernel_boot 1 2 [3] demo_sems = Some (Inr s0)"
    "kernel_legal 2 (fst ` set demo_sems) (boot_queues [3] demo_sems) demo_events s0"
    "kernel_run demo_events s0 = Some (Inr s)" "vt_next s VTLIST \<noteq> VTLIST" "\<not> CC1IF s"
    using demo_run by blast
  from alarm_never_late [OF demo_args d] d show ?thesis by blast
qed

section \<open>Outside the contract\<close>

lemma scan_without_end: "prio s tp = 0 \<Longrightarrow> ready_scan s tp cp = None"
proof -
  have "ready_scan s tp cp = Some y \<Longrightarrow> prio s tp \<noteq> 0" for y
    by (rule ready_scan.raw_induct [of "\<lambda>s tp cp y. prio s tp \<noteq> 0"]) (auto simp: Let_def split: if_splits)
  then show "prio s tp = 0 \<Longrightarrow> ?thesis" by (cases "ready_scan s tp cp") auto
qed

text \<open>
  C25: A thread of priority 0 hangs the kernel. \<^verbatim>\<open>chThdCreateStatic\<close> checks only the upper bound of the priority; with
  \<^verbatim>\<open>NOPRIO\<close>, the priority of the header, the scan of the ready list passes the header and goes round for ever, with
  interrupts masked.
\<close>

theorem chThdCreateStatic_NOPRIO_hangs:
  assumes inv: "kernel_inv i S D s" and t: "th_state (thr s) t = CH_STATE_FINAL" "t \<notin> D"
  shows "chThdCreateStatic t NOPRIO s = None"
proof -
  obtain Q pl where k: "sched_inv Q pl S (thr s)" "dom Q = D" and ord: "in_order (thr s)"
    using inv by (auto simp: kernel_inv_def kernel_ok_def)
  define x where "x = thr s"
  have core: "sched_core Q pl S x" and run: "pl (current x) = Running" using k by (auto simp: sched_inv_def x_def)
  have off: "pl t = Off" using place_of_state(2) [OF core, of t] t(1) by (simp add: x_def)
  obtain ts where ts: "Q RLIST = Some ts" using core by (auto simp: sched_core_def)
  have "q_next x RLIST = hd (ts @ [RLIST])" using ring_next [OF queuesD(1) [OF sched_coreD(1) [OF core] ts]] .
  moreover have "t \<notin> set ts" "t \<noteq> RLIST" using queuesD(2) [OF sched_coreD(1) [OF core] ts, of t] off ts k(2) t(2) by auto
  ultimately have n: "q_next x RLIST \<noteq> t" by (cases ts) auto
  have c: "current x \<noteq> t" using run off by auto
  let ?y = "thread_init t NOPRIO x"
  have y: "q_next ?y = q_next x" "current ?y = current x" "prio ?y = (prio x)(t := 0)" "th_state ?y t = CH_STATE_WTSTART"
    by (simp_all add: thread_init_def NOPRIO_def)
  have "firstprio RLIST ?y \<le> prio ?y (current ?y)"
    using ord n c y by (simp add: in_order_def chSchIsRescRequiredI_def firstprio_def x_def)
  moreover have "thr (vtimers.more_update (thread_init t NOPRIO) s) = ?y" by (cases s) (simp add: x_def)
  ultimately show ?thesis
    using y by (simp add: chThdCreateStatic_def NOPRIO_def chSchWakeupS_def Let_def on_threads_def chSchReadyI_def ready_with_def
        scan_without_end)
qed

theorem chThdCreateStatic_NOPRIO_hangs_witness:
  "\<exists>s. kernel_boot 1 2 [3] demo_sems = Some (Inr s) \<and> chThdCreateStatic 5 NOPRIO s = None"
proof -
  obtain s where s: "kernel_boot 1 2 [3] demo_sems = Some (Inr s)" "th_state (thr s) 5 = CH_STATE_FINAL"
    by (simp add: demo_sems_def kernel_eval cong: bindP_weak_cong)
  have "kernel_inv 2 (fst ` set demo_sems) (boot_queues [3] demo_sems) s" using kernel_boot_ok [OF demo_args] s(1) by auto
  moreover have "5 \<notin> boot_queues [3] demo_sems" by (simp add: boot_queues_def demo_sems_def RLIST_def)
  ultimately show ?thesis using chThdCreateStatic_NOPRIO_hangs s by blast
qed



text \<open>
  A periodic timer served late fires again at once. Its callback arms it for 5 more ticks; the tick routine compares the new
  delta with what is left of the old time slice, so an interrupt that is 6 ticks late calls the callback twice at tick 11,
  without the 5 ticks in between.
\<close>

definition rearm_callback :: "vtfunc \<Rightarrow> nat \<Rightarrow> kernel \<Rightarrow> kernel diverge" where
  "rearm_callback f p s = chVTDoSetI (Some p) 5 (Some f) p (vtimers.more_update (log_call f p) s)"

theorem chVTDoTickI_rearmed_fires_early:
  "\<exists>s. bindP (chVTDoSetI (Some 7) 5 (Some Wakeup) 7 (vt_init power_on))
      (\<lambda>s. ST_HANDLER rearm_callback (st_advance 11 s)) = Some (Inr s) \<and>
    ST_CNT s = 11 \<and> returned (thr s) = [(7, MSG_OK), (7, MSG_OK)]"
  by (simp add: timer_eval rearm_callback_def cong: bindP_weak_cong)

text \<open>
  C29: An interrupt without timers. With an empty list the tick routine still compares the time slice with the delta of the
  header, \<open>2 ^ 32 - 1\<close>; a pending interrupt served exactly that many ticks after the base time makes it call the
  callback of the header, which is not a timer.
\<close>

theorem chVTDoTickI_empty_faults:
  assumes "vt_next s VTLIST = VTLIST" "vt_delta s VTLIST = -1" "vt_func s VTLIST = None" "CC1IF s" "lags s = []"
    "ST_CNT s - lasttime s = -1"
  shows "ST_HANDLER cb s = Some (Inl (Fault ''fn''))"
  using assms
  by (simp add: ST_HANDLER_def chVTDoTickI_def vt_tick_loop.simps [of _ VTLIST] chVTGetSystemTimeX_def chTimeDiffX_def
      vt_consume.simps Let_def deref_def)

theorem chVTDoTickI_empty_faults_witness:
  "ST_HANDLER log_callback ((vt_init power_on)\<lparr>CC1IF := True, ST_CNT := -1\<rparr>) = Some (Inl (Fault ''fn''))"
  by (rule chVTDoTickI_empty_faults) (simp_all add: vt_init_def power_on_def VTLIST_def)

end
