(* ===== verification/Events.thy ===== *)
theory Events
  imports SerialUsb
begin

text \<open>
  Waiting for events: \<^verbatim>\<open>os/rt/src/chevents.c\<close> and \<^verbatim>\<open>os/rt/include/chevents.h\<close>. Listeners, signals and the
  broadcast are those of \<open>SerialUsb\<close>; the state \<open>evt_sys\<close> holds what threads wait for, the running thread
  and the script of its sleeps (see \<open>BufferQueues\<close>), and drivers extend it. The parameter \<open>env\<close> says what one
  event of the script does to the whole state.
\<close>

record 'e evt_sys =
  ev_threads :: "tid \<Rightarrow> evt_thread"
  ev_self :: tid
  ev_naps :: "'e nap list"

definition EVENT_MASK :: "nat \<Rightarrow> 32 word" where "EVENT_MASK eid = push_bit eid 1"
definition ALL_EVENTS :: "32 word" where "ALL_EVENTS = -1"

section \<open>Registration and flags\<close>

text \<open>A source is the list of its listeners, the last one registered first.\<close>

definition chEvtRegisterMaskWithFlags :: "tid \<Rightarrow> 32 word \<Rightarrow> 32 word \<Rightarrow> event_listener list \<Rightarrow> event_listener list" where
  "chEvtRegisterMaskWithFlags me events wflags esp =
     \<lparr>el_thread = me, el_events = events, el_flags = 0, el_wflags = wflags\<rparr> # esp"

definition chEvtRegisterMask :: "tid \<Rightarrow> 32 word \<Rightarrow> event_listener list \<Rightarrow> event_listener list" where
  "chEvtRegisterMask me events esp = chEvtRegisterMaskWithFlags me events (-1) esp"

definition chEvtRegister :: "tid \<Rightarrow> nat \<Rightarrow> event_listener list \<Rightarrow> event_listener list" where
  "chEvtRegister me event esp = chEvtRegisterMask me (EVENT_MASK event) esp"

definition chEvtIsListeningI :: "event_listener list \<Rightarrow> bool" where
  "chEvtIsListeningI esp \<longleftrightarrow> esp \<noteq> []"

definition chEvtGetAndClearFlags :: "event_listener \<Rightarrow> 32 word \<times> event_listener" where
  "chEvtGetAndClearFlags elp = (el_flags elp, elp\<lparr>el_flags := 0\<rparr>)"

section \<open>Pending events of the running thread\<close>

definition pending :: "('e, 'm) evt_sys_scheme \<Rightarrow> 32 word" where
  "pending s = epending (ev_threads s (ev_self s))"

definition set_pending :: "32 word \<Rightarrow> ('e, 'm) evt_sys_scheme \<Rightarrow> ('e, 'm) evt_sys_scheme" where
  "set_pending p s = s\<lparr>ev_threads := (ev_threads s)(ev_self s := (ev_threads s (ev_self s))\<lparr>epending := p\<rparr>)\<rparr>"

definition set_wait :: "evt_wait \<Rightarrow> ('e, 'm) evt_sys_scheme \<Rightarrow> ('e, 'm) evt_sys_scheme" where
  "set_wait w s = s\<lparr>ev_threads := (ev_threads s)(ev_self s := (ev_threads s (ev_self s))\<lparr>ewait := w\<rparr>)\<rparr>"

definition chEvtGetAndClearEventsI :: "32 word \<Rightarrow> ('e, 'm) evt_sys_scheme \<Rightarrow> 32 word \<times> ('e, 'm) evt_sys_scheme" where
  "chEvtGetAndClearEventsI events s =
     (let m = pending s AND events in (m, set_pending (pending s AND NOT events) s))"

definition chEvtAddEventsI :: "32 word \<Rightarrow> ('e, 'm) evt_sys_scheme \<Rightarrow> 32 word \<times> ('e, 'm) evt_sys_scheme" where
  "chEvtAddEventsI events s = (let s = set_pending (pending s OR events) s in (pending s, s))"

section \<open>Waiting\<close>

text \<open>
  The sleep of \<^verbatim>\<open>chSchGoSleepTimeoutS\<close> in one of the two states of waiting for events: it ends with
  \<^verbatim>\<open>MSG_OK\<close> when a signal makes the thread ready, or with \<^verbatim>\<open>MSG_TIMEOUT\<close>.
\<close>

fun evt_sleep :: "('e \<Rightarrow> ('e, 'm) evt_sys_scheme \<Rightarrow> ('e, 'm) evt_sys_scheme result) \<Rightarrow> sysinterval \<Rightarrow> 'e nap list \<Rightarrow>
    ('e, 'm) evt_sys_scheme \<Rightarrow> (msg \<times> ('e, 'm) evt_sys_scheme) result" where
  "evt_sleep env timeout [] s = Inl Blocked"
| "evt_sleep env timeout (Expire # ns) s =
     (if timeout = TIME_INFINITE then evt_sleep env timeout ns s
      else Inr (MSG_TIMEOUT, (set_wait Running s)\<lparr>ev_naps := ns\<rparr>))"
| "evt_sleep env timeout (Ev e # ns) s =
     bindE (env e s) (\<lambda>s. if ewait (ev_threads s (ev_self s)) = Running then Inr (MSG_OK, s\<lparr>ev_naps := ns\<rparr>)
       else evt_sleep env timeout ns s)"

definition chSchGoSleepTimeoutS_evt where
  "chSchGoSleepTimeoutS_evt env w timeout s = evt_sleep env timeout (ev_naps s) (set_wait w s)"

text \<open>The lowest event of a mask: \<^verbatim>\<open>m ^= m & (m - 1)\<close>.\<close>

definition lowest_event :: "32 word \<Rightarrow> 32 word" where
  "lowest_event m = m XOR (m AND (m - 1))"

definition take_events :: "32 word \<Rightarrow> ('e, 'm) evt_sys_scheme \<Rightarrow> 32 word \<times> ('e, 'm) evt_sys_scheme" where
  "take_events m s = (m, set_pending (pending s AND NOT m) s)"

text \<open>
  The common shape of the two waits for any event of a mask, which differ in what they take of the pending ones.
\<close>

definition wait_for ::
  "('e \<Rightarrow> ('e, 'm) evt_sys_scheme \<Rightarrow> ('e, 'm) evt_sys_scheme result) \<Rightarrow> (32 word \<Rightarrow> 32 word) \<Rightarrow> 32 word \<Rightarrow> sysinterval \<Rightarrow>
    ('e, 'm) evt_sys_scheme \<Rightarrow> (32 word \<times> ('e, 'm) evt_sys_scheme) result" where
  "wait_for env pick events timeout s =
     (if pending s AND events = 0 then
        if timeout = TIME_IMMEDIATE then Inr (0, s)
        else bindE (chSchGoSleepTimeoutS_evt env (WaitOr events) timeout s) (\<lambda>(msg, s).
          if msg < MSG_OK then Inr (0, s) else Inr (take_events (pick (pending s AND events)) s))
      else Inr (take_events (pick (pending s AND events)) s))"

definition chEvtWaitOneTimeout ::
  "('e \<Rightarrow> ('e, 'm) evt_sys_scheme \<Rightarrow> ('e, 'm) evt_sys_scheme result) \<Rightarrow> 32 word \<Rightarrow> sysinterval \<Rightarrow>
    ('e, 'm) evt_sys_scheme \<Rightarrow> (32 word \<times> ('e, 'm) evt_sys_scheme) result" where
  "chEvtWaitOneTimeout env events timeout s =
     (if pending s AND events = 0 then
        if timeout = TIME_IMMEDIATE then Inr (0, s)
        else bindE (chSchGoSleepTimeoutS_evt env (WaitOr events) timeout s) (\<lambda>(msg, s).
          if msg < MSG_OK then Inr (0, s)
          else Inr (take_events (lowest_event (pending s AND events)) s))
      else Inr (take_events (lowest_event (pending s AND events)) s))"

definition chEvtWaitAnyTimeout ::
  "('e \<Rightarrow> ('e, 'm) evt_sys_scheme \<Rightarrow> ('e, 'm) evt_sys_scheme result) \<Rightarrow> 32 word \<Rightarrow> sysinterval \<Rightarrow>
    ('e, 'm) evt_sys_scheme \<Rightarrow> (32 word \<times> ('e, 'm) evt_sys_scheme) result" where
  "chEvtWaitAnyTimeout env events timeout s =
     (if pending s AND events = 0 then
        if timeout = TIME_IMMEDIATE then Inr (0, s)
        else bindE (chSchGoSleepTimeoutS_evt env (WaitOr events) timeout s) (\<lambda>(msg, s).
          if msg < MSG_OK then Inr (0, s) else Inr (take_events (pending s AND events) s))
      else Inr (take_events (pending s AND events) s))"

definition chEvtWaitAllTimeout ::
  "('e \<Rightarrow> ('e, 'm) evt_sys_scheme \<Rightarrow> ('e, 'm) evt_sys_scheme result) \<Rightarrow> 32 word \<Rightarrow> sysinterval \<Rightarrow>
    ('e, 'm) evt_sys_scheme \<Rightarrow> (32 word \<times> ('e, 'm) evt_sys_scheme) result" where
  "chEvtWaitAllTimeout env events timeout s =
     (if pending s AND events \<noteq> events then
        if timeout = TIME_IMMEDIATE then Inr (0, s)
        else bindE (chSchGoSleepTimeoutS_evt env (WaitAnd events) timeout s) (\<lambda>(msg, s).
          if msg < MSG_OK then Inr (0, s) else Inr (take_events events s))
      else Inr (take_events events s))"

text \<open>The variants without a timeout, which sleep with \<^verbatim>\<open>chSchGoSleepS\<close>.\<close>

definition chEvtWaitOne ::
  "('e \<Rightarrow> ('e, 'm) evt_sys_scheme \<Rightarrow> ('e, 'm) evt_sys_scheme result) \<Rightarrow> 32 word \<Rightarrow>
    ('e, 'm) evt_sys_scheme \<Rightarrow> (32 word \<times> ('e, 'm) evt_sys_scheme) result" where
  "chEvtWaitOne env events s =
     bindE (if pending s AND events = 0
            then bindE (chSchGoSleepTimeoutS_evt env (WaitOr events) TIME_INFINITE s) (\<lambda>(_, s). Inr s) else Inr s)
       (\<lambda>s. Inr (take_events (lowest_event (pending s AND events)) s))"

definition chEvtWaitAny ::
  "('e \<Rightarrow> ('e, 'm) evt_sys_scheme \<Rightarrow> ('e, 'm) evt_sys_scheme result) \<Rightarrow> 32 word \<Rightarrow>
    ('e, 'm) evt_sys_scheme \<Rightarrow> (32 word \<times> ('e, 'm) evt_sys_scheme) result" where
  "chEvtWaitAny env events s =
     bindE (if pending s AND events = 0
            then bindE (chSchGoSleepTimeoutS_evt env (WaitOr events) TIME_INFINITE s) (\<lambda>(_, s). Inr s) else Inr s)
       (\<lambda>s. Inr (take_events (pending s AND events) s))"

definition chEvtWaitAll ::
  "('e \<Rightarrow> ('e, 'm) evt_sys_scheme \<Rightarrow> ('e, 'm) evt_sys_scheme result) \<Rightarrow> 32 word \<Rightarrow>
    ('e, 'm) evt_sys_scheme \<Rightarrow> (32 word \<times> ('e, 'm) evt_sys_scheme) result" where
  "chEvtWaitAll env events s =
     bindE (if pending s AND events \<noteq> events
            then bindE (chSchGoSleepTimeoutS_evt env (WaitAnd events) TIME_INFINITE s) (\<lambda>(_, s). Inr s) else Inr s)
       (\<lambda>s. Inr (take_events events s))"

section \<open>Dispatching\<close>

text \<open>
  The loop over the event identifiers. A handler is a function on the rest of the state; a null handler fails the
  assertion, reading behind the table is a fault.
\<close>

definition handler_at :: "(nat \<Rightarrow> 's \<Rightarrow> 's result) option list \<Rightarrow> nat \<Rightarrow> (nat \<Rightarrow> 's \<Rightarrow> 's result) result" where
  "handler_at handlers eid =
     (if length handlers \<le> eid then Inl (Fault ''handlers'')
      else case handlers ! eid of None \<Rightarrow> Inl (DbgAssert ''null handler'') | Some h \<Rightarrow> Inr h)"

partial_function (option) dispatch_loop ::
  "(nat \<Rightarrow> 's \<Rightarrow> 's result) option list \<Rightarrow> nat \<Rightarrow> 32 word \<Rightarrow> 's \<Rightarrow> 's result option" where
  "dispatch_loop handlers eid events s =
     (if events = 0 then Some (Inr s)
      else if events AND EVENT_MASK eid \<noteq> 0 then
        (case handler_at handlers eid of
           Inl e \<Rightarrow> Some (Inl e)
         | Inr h \<Rightarrow> (case h eid s of
             Inl e \<Rightarrow> Some (Inl e)
           | Inr s \<Rightarrow> dispatch_loop handlers (eid + 1) (events AND NOT (EVENT_MASK eid)) s))
      else dispatch_loop handlers (eid + 1) events s)"

definition chEvtDispatch :: "(nat \<Rightarrow> 's \<Rightarrow> 's result) option list \<Rightarrow> 32 word \<Rightarrow> 's \<Rightarrow> 's result option" where
  "chEvtDispatch handlers events s = dispatch_loop handlers 0 events s"

section \<open>Masks\<close>

lemma epending_chEvtSignalI [simp]: "epending (chEvtSignalI ev tp) = epending tp OR ev"
  by (simp add: chEvtSignalI_def Let_def split: evt_wait.split)

lemma ewait_chEvtSignalI [simp]:
  "ewait tp = WaitOr m \<Longrightarrow> ewait (chEvtSignalI ev tp) = (if (epending tp OR ev) AND m \<noteq> 0 then Running else WaitOr m)"
  "ewait tp = Running \<Longrightarrow> ewait (chEvtSignalI ev tp) = Running"
  by (simp_all add: chEvtSignalI_def Let_def)

lemma bit_EVENT_MASK [bit_simps]: "bit (EVENT_MASK k) n \<longleftrightarrow> k = n \<and> n < 32"
  by (auto simp: EVENT_MASK_def bit_simps)

lemma and_EVENT_MASK: "k < 32 \<Longrightarrow> w AND EVENT_MASK k = 0 \<longleftrightarrow> \<not> bit w k"
proof -
  assume "k < 32"
  then have "w AND EVENT_MASK k = (if bit w k then EVENT_MASK k else 0)"
    by (intro bit_word_eqI) (auto simp: bit_simps)
  moreover have "EVENT_MASK k \<noteq> 0" using \<open>k < 32\<close> bit_EVENT_MASK [of k k] by (metis bit_0_eq bot_apply bot_bool_def)
  ultimately show ?thesis by simp
qed

text \<open>The lowest bit of a nonzero mask, and the mask above it.\<close>

lemma lowest_event_eq:
  assumes k: "bit m k" and low: "\<forall>j < k. \<not> bit m j"
  shows "lowest_event m = EVENT_MASK k"
proof -
  have k32: "k < 32" using bit_imp_le_length [OF k] by simp
  define u where "u = m AND NOT (mask (k + 1))"
  have u: "m = u OR EVENT_MASK k"
  proof (rule bit_word_eqI)
    fix n
    assume n: "n < LENGTH(32)"
    show "bit m n \<longleftrightarrow> bit (u OR EVENT_MASK k) n"
      using k low n by (cases n k rule: linorder_cases) (auto simp: u_def bit_simps)
  qed
  have "u AND EVENT_MASK k = 0" "u AND mask k = 0"
    by (rule bit_word_eqI; auto simp: u_def bit_simps)+
  then have "m = u + EVENT_MASK k" "u OR mask k = u + mask k"
    using u by (simp_all add: disjunctive_add_eq_or)
  moreover have "EVENT_MASK k - 1 = mask k" by (simp add: EVENT_MASK_def mask_eq_exp_minus_1 push_bit_eq_mult)
  ultimately have "m - 1 = u OR mask k" by (metis add_diff_eq)
  then have "m AND (m - 1) = m AND (u OR mask k)" by simp
  also have "\<dots> = u"
    using low by (intro bit_word_eqI) (auto simp: u_def bit_simps less_Suc_eq_le not_less)
  finally have "lowest_event m = m XOR u" by (simp add: lowest_event_def)
  also have "\<dots> = EVENT_MASK k"
    using k low by (intro bit_word_eqI) (auto simp: u_def bit_simps not_less less_Suc_eq simp flip: Suc_eq_plus1)
  finally show ?thesis .
qed

lemma lowest_event_exists:
  assumes "m \<noteq> 0"
  obtains k where "k < 32" "bit m k" "\<forall>j < k. \<not> bit m j" "lowest_event m = EVENT_MASK k"
proof -
  obtain n where "bit m n" using assms by (metis bit_eqI bit_0_eq bot_apply bot_bool_def)
  then have l: "bit m (LEAST k. bit m k)" "\<forall>j < (LEAST k. bit m k). \<not> bit m j"
    by (auto intro: LeastI dest: not_less_Least)
  moreover have "(LEAST k. bit m k) < 32" using bit_imp_le_length [OF l(1)] by simp
  ultimately show ?thesis using that lowest_event_eq by blast
qed

lemma pending_set_pending [simp]: "pending (set_pending p s) = p"
  "ev_self (set_pending p s) = ev_self s" "ev_naps (set_pending p s) = ev_naps s"
  "ewait (ev_threads (set_pending p s) t) = ewait (ev_threads s t)"
  by (cases s; simp add: pending_def set_pending_def)+

lemma pending_set_wait [simp]: "pending (set_wait w s) = pending s"
  "ev_self (set_wait w s) = ev_self s" "ev_naps (set_wait w s) = ev_naps s"
  "ewait (ev_threads (set_wait w s) (ev_self s)) = w"
  by (cases s; simp add: pending_def set_wait_def)+

lemma pending_ev_naps [simp]: "pending (s\<lparr>ev_naps := ns\<rparr>) = pending s"
  by (cases s) (simp add: pending_def)


section \<open>Broadcasts\<close>

text \<open>A thread that waits for any event of \<open>m\<close> is ready exactly when one of them is pending.\<close>

definition awake_iff :: "32 word \<Rightarrow> evt_thread \<Rightarrow> bool" where
  "awake_iff m th \<longleftrightarrow> ewait th = (if epending th AND m \<noteq> 0 then Running else WaitOr m)"

lemma or_and_zero: "(a OR b) AND m = 0 \<longleftrightarrow> a AND m = 0 \<and> b AND m = 0" for a b m :: "32 word"
  by (auto simp: bit_eq_iff bit_simps)

text \<open>What a thread keeps whatever signals it gets.\<close>

definition signal_closed :: "(evt_thread \<Rightarrow> bool) \<Rightarrow> bool" where
  "signal_closed P \<longleftrightarrow> (\<forall>th ev. P th \<longrightarrow> P (chEvtSignalI ev th))"

lemma signal_closed_awake_iff: "signal_closed (awake_iff m)"
proof -
  have "awake_iff m (chEvtSignalI ev th)" if "awake_iff m th" for th ev
    using that by (cases "epending th AND m = 0") (auto simp: awake_iff_def or_and_zero)
  then show ?thesis by (simp add: signal_closed_def)
qed

lemma signal_closed_Running: "signal_closed (\<lambda>th. ewait th = Running)"
  by (simp add: signal_closed_def)

text \<open>What a broadcast does for one listener.\<close>

definition notify :: "32 word \<Rightarrow> event_listener \<Rightarrow> (tid \<Rightarrow> evt_thread) \<Rightarrow> tid \<Rightarrow> evt_thread" where
  "notify flags l ths =
     (if flags = 0 \<or> (el_flags l OR flags) AND el_wflags l \<noteq> 0
      then ths(el_thread l := chEvtSignalI (el_events l) (ths (el_thread l))) else ths)"

lemma broadcast_Cons:
  "snd (chEvtBroadcastFlagsI flags (l # ls) ths) = snd (chEvtBroadcastFlagsI flags ls (notify flags l ths))"
  "fst (chEvtBroadcastFlagsI flags (l # ls) ths) =
     l\<lparr>el_flags := el_flags l OR flags\<rparr> # fst (chEvtBroadcastFlagsI flags ls (notify flags l ths))"
  by (simp_all add: Let_def notify_def split: prod.split)

lemma signal_closed_broadcast:
  assumes P: "signal_closed P"
  shows "P (ths t) \<Longrightarrow> P (snd (chEvtBroadcastFlagsI flags ls ths) t)"
proof (induction ls arbitrary: ths)
  case (Cons l ls)
  have "P (notify flags l ths t)" using Cons.prems P by (auto simp: notify_def signal_closed_def)
  then show ?case unfolding broadcast_Cons by (rule Cons.IH)
qed simp

text \<open>Broadcasts add events and keep what is registered; a listener to all flags hears every flag.\<close>

definition hears :: "tid \<Rightarrow> event_listener list \<Rightarrow> bool" where
  "hears t ls \<longleftrightarrow> (\<exists>l \<in> set ls. el_thread l = t \<and> el_events l \<noteq> 0 \<and> el_wflags l = -1)"

lemma hears_broadcast [simp]: "hears t (fst (chEvtBroadcastFlagsI flags ls ths)) \<longleftrightarrow> hears t ls"
  by (induction ls arbitrary: ths) (simp_all add: hears_def broadcast_Cons del: chEvtBroadcastFlagsI.simps(2))

lemma or_zero: "a OR b = 0 \<longleftrightarrow> a = 0 \<and> b = 0" for a b :: "32 word"
  using or_and_zero [of a b "-1"] by simp

lemma broadcast_pending_mono:
  "epending (ths t) \<noteq> 0 \<Longrightarrow> epending (snd (chEvtBroadcastFlagsI flags ls ths) t) \<noteq> 0"
proof (induction ls arbitrary: ths)
  case (Cons l ls)
  have "epending (notify flags l ths t) \<noteq> 0" using Cons.prems by (auto simp: notify_def or_zero)
  then show ?case unfolding broadcast_Cons by (rule Cons.IH)
qed simp

lemma broadcast_heard:
  "hears t ls \<Longrightarrow> flags \<noteq> 0 \<Longrightarrow> epending (snd (chEvtBroadcastFlagsI flags ls ths) t) \<noteq> 0"
proof (induction ls arbitrary: ths)
  case (Cons l ls)
  show ?case
  proof (cases "el_thread l = t \<and> el_events l \<noteq> 0 \<and> el_wflags l = -1")
    case True
    then have "epending (notify flags l ths t) \<noteq> 0" using Cons.prems(2) by (auto simp: notify_def or_zero)
    then show ?thesis unfolding broadcast_Cons by (rule broadcast_pending_mono)
  next
    case False
    then have "hears t ls" using Cons.prems(1) by (auto simp: hears_def)
    then show ?thesis using Cons.IH Cons.prems(2) unfolding broadcast_Cons by blast
  qed
qed (simp add: hears_def)

section \<open>What waiting and dispatching promise\<close>

text \<open>Serving a list of events in order.\<close>

fun serve_events :: "(nat \<Rightarrow> 's \<Rightarrow> 's result) option list \<Rightarrow> nat list \<Rightarrow> 's \<Rightarrow> 's result" where
  "serve_events handlers [] s = Inr s"
| "serve_events handlers (k # ks) s =
     bindE (handler_at handlers k) (\<lambda>h. bindE (h k s) (serve_events handlers ks))"

definition events_in :: "32 word \<Rightarrow> nat \<Rightarrow> nat list" where
  "events_in events k = filter (bit events) [k ..< 32]"

lemma events_in_step:
  "k < 32 \<Longrightarrow> events_in events k = (if bit events k then k # events_in (events AND NOT (EVENT_MASK k)) (k + 1)
     else events_in events (k + 1))"
  by (auto simp: events_in_def upt_conv_Cons bit_simps simp flip: Suc_eq_plus1 intro!: filter_cong)

lemma dispatch_loop_serves:
  assumes "\<forall>j < k. \<not> bit events j" "k \<le> 32"
  shows "dispatch_loop handlers k events s = Some (serve_events handlers (events_in events k) s)"
  using assms
proof (induction "32 - k" arbitrary: k events s)
  case 0
  then have "events = 0" by (intro bit_word_eqI) auto
  then show ?case by (subst dispatch_loop.simps) (simp add: events_in_def)
next
  case (Suc n)
  then have k: "k < 32" by simp
  note IH = Suc.hyps(1) [of "k + 1"]
  show ?case
  proof (cases "bit events k")
    case True
    have nz: "events \<noteq> 0" using True by auto
    have "\<forall>j < k + 1. \<not> bit (events AND NOT (EVENT_MASK k)) j"
      using Suc.prems(1) by (auto simp: bit_simps less_Suc_eq simp flip: Suc_eq_plus1)
    then have go: "dispatch_loop handlers (k + 1) (events AND NOT (EVENT_MASK k)) t =
        Some (serve_events handlers (events_in (events AND NOT (EVENT_MASK k)) (k + 1)) t)" for t
      using IH Suc.hyps(2) k by simp
    show ?thesis
      using True nz k
      by (subst dispatch_loop.simps)
        (simp add: and_EVENT_MASK events_in_step go [unfolded Suc_eq_plus1 [symmetric]] split: sum.split)
  next
    case False
    then have "\<forall>j < k + 1. \<not> bit events j"
      using Suc.prems(1) by (auto simp: less_Suc_eq simp flip: Suc_eq_plus1)
    then have go: "dispatch_loop handlers (k + 1) events s = Some (serve_events handlers (events_in events (k + 1)) s)"
      using IH Suc.hyps(2) k by simp
    show ?thesis
    proof (cases "events = 0")
      case True
      then show ?thesis by (subst dispatch_loop.simps) (simp add: events_in_def)
    next
      case nz: False
      then show ?thesis
        using False k by (subst dispatch_loop.simps) (simp add: and_EVENT_MASK events_in_step go [unfolded Suc_eq_plus1 [symmetric]])
    qed
  qed
qed

text \<open>
  C30. Dispatching ends, and it serves every event of the mask once, the lowest identifier first, with the
  handler of that identifier; it stops early only if a handler is missing or fails. This holds for all masks and
  all tables of handlers, so the loop over the identifiers never runs past the last bit of the mask.
\<close>

theorem chEvtDispatch_serves_all:
  "chEvtDispatch handlers events s = Some (serve_events handlers (events_in events 0) s)"
  unfolding chEvtDispatch_def by (rule dispatch_loop_serves) simp_all

text \<open>
  What a sleeper relies on: the rest of the system makes it ready only by a signal, that is when an event of
  its mask is pending.
\<close>

fun evs :: "'e nap list \<Rightarrow> 'e list" where
  "evs [] = []"
| "evs (Expire # ns) = evs ns"
| "evs (Ev e # ns) = e # evs ns"

locale evt_waiter =
  fixes env :: "'e \<Rightarrow> ('e, 'm) evt_sys_scheme \<Rightarrow> ('e, 'm) evt_sys_scheme result"
    and inv :: "('e, 'm) evt_sys_scheme \<Rightarrow> bool"
  assumes signals: "inv s \<Longrightarrow> ewait (ev_threads s (ev_self s)) = WaitOr m \<Longrightarrow> pending s AND m = 0 \<Longrightarrow> env e s = Inr s' \<Longrightarrow>
      inv s' \<and> ev_self s' = ev_self s \<and>
      ewait (ev_threads s' (ev_self s)) = (if pending s' AND m \<noteq> 0 then Running else WaitOr m)"
    and inv_naps: "inv s \<Longrightarrow> inv (s\<lparr>ev_naps := ns\<rparr>)"
    and inv_wait: "inv s \<Longrightarrow> inv (set_wait w s)"
begin

text \<open>Waking up in \<open>s'\<close> after a part of the script \<open>ns\<close>.\<close>

definition wakes :: "('e, 'm) evt_sys_scheme \<Rightarrow> 'e nap list \<Rightarrow> 32 word \<Rightarrow> msg \<Rightarrow> ('e, 'm) evt_sys_scheme \<Rightarrow> bool" where
  "wakes s ns m msg s' \<longleftrightarrow>
     (\<exists>used t. ns = used @ ev_naps s' \<and> run_ops env (evs used) s = Inr t \<and> pending s' = pending t) \<and>
     inv s' \<and> ev_self s' = ev_self s \<and> ewait (ev_threads s' (ev_self s)) = Running \<and>
     msg = (if pending s' AND m \<noteq> 0 then MSG_OK else MSG_TIMEOUT)"

lemma wakesI:
  "ns = used @ ev_naps s' \<Longrightarrow> run_ops env (evs used) s = Inr t \<Longrightarrow> pending s' = pending t \<Longrightarrow> inv s' \<Longrightarrow>
   ev_self s' = ev_self s \<Longrightarrow> ewait (ev_threads s' (ev_self s)) = Running \<Longrightarrow>
   msg = (if pending s' AND m \<noteq> 0 then MSG_OK else MSG_TIMEOUT) \<Longrightarrow> wakes s ns m msg s'"
  unfolding wakes_def by blast

lemma wakes_Expire: "wakes s ns m msg s' \<Longrightarrow> wakes s (Expire # ns) m msg s'"
  unfolding wakes_def by (metis append_Cons evs.simps(2))

lemma wakes_Ev:
  assumes w: "wakes t ns m msg s'" and t: "env e s = Inr t" "ev_self t = ev_self s"
  shows "wakes s (Ev e # ns) m msg s'"
proof -
  obtain used u where "ns = used @ ev_naps s'" "run_ops env (evs used) t = Inr u" "pending s' = pending u"
    using w unfolding wakes_def by blast
  then show ?thesis using w t unfolding wakes_def by (intro conjI exI [of _ "Ev e # used"]) simp_all
qed

lemma evt_sleep_wakes:
  assumes "evt_sleep env timeout ns s = Inr (msg, s')" "inv s" "ewait (ev_threads s (ev_self s)) = WaitOr m"
    "pending s AND m = 0"
  shows "wakes s ns m msg s'"
  using assms
proof (induction ns arbitrary: s)
  case (Cons n ns)
  show ?case
  proof (cases n)
    case Expire
    show ?thesis
    proof (cases "timeout = TIME_INFINITE")
      case True
      then show ?thesis using Cons Expire by (auto intro: wakes_Expire)
    next
      case False
      then have r: "msg = MSG_TIMEOUT" "s' = (set_wait Running s)\<lparr>ev_naps := ns\<rparr>" using Cons.prems Expire by auto
      show ?thesis
        unfolding r
        by (rule wakesI [of _ "[Expire]" _ _ s]) (use Cons.prems inv_naps inv_wait Expire in simp_all)
    qed
  next
    case (Ev e)
    obtain t where t: "env e s = Inr t" using Cons.prems Ev by (auto simp: res_simps)
    note st = signals [OF Cons.prems(2,3,4) t]
    have "wakes t ns m msg s'"
    proof (cases "pending t AND m = 0")
      case True
      then show ?thesis using Cons.prems Ev t st by (intro Cons.IH) auto
    next
      case False
      then have r: "msg = MSG_OK" "s' = t\<lparr>ev_naps := ns\<rparr>" using Cons.prems(1) Ev t st by auto
      show ?thesis
        unfolding r
        by (rule wakesI [of _ "[]" _ _ t]) (use False st inv_naps in simp_all)
    qed
    then show ?thesis using wakes_Ev t st Ev by simp
  qed
qed simp

text \<open>
  What a wait returns: \<open>t\<close> is the state in which it wakes up. A result of 0 is a timeout, with no event of the
  mask pending; otherwise the events taken are no longer pending.
\<close>

definition waited :: "('e, 'm) evt_sys_scheme \<Rightarrow> ('e, 'm) evt_sys_scheme \<Rightarrow> 32 word \<Rightarrow> ('e, 'm) evt_sys_scheme \<Rightarrow> bool" where
  "waited s t m s' \<longleftrightarrow> s' = set_pending (pending t AND NOT m) t \<and> inv t \<and> ev_self t = ev_self s \<and>
     ewait (ev_threads t (ev_self s)) = Running \<and>
     (\<exists>used u w. ev_naps s = used @ ev_naps t \<and> run_ops env (evs used) (set_wait w s) = Inr u \<and> pending t = pending u)"

lemma set_pending_same [simp]: "set_pending (pending s) s = s"
  by (cases s) (simp add: pending_def set_pending_def)

lemma set_wait_Running: "ewait (ev_threads s (ev_self s)) = w \<Longrightarrow> set_wait w s = s"
  by (cases s) (auto simp: set_wait_def)

lemma waited_slept: "wakes (set_wait w s) (ev_naps s) events msg t \<Longrightarrow> waited s t m (set_pending (pending t AND NOT m) t)"
  unfolding wakes_def waited_def by auto

lemma waited_now:
  "inv s \<Longrightarrow> ewait (ev_threads s (ev_self s)) = Running \<Longrightarrow> waited s s m (set_pending (pending s AND NOT m) s)"
  unfolding waited_def by (intro conjI exI [of _ "[]"] exI [of _ "set_wait Running s"] exI [of _ Running]) simp_all

lemma wait_for_waited:
  assumes "wait_for env pick events timeout s = Inr (m, s')" "inv s" "ewait (ev_threads s (ev_self s)) = Running"
  shows "\<exists>t. waited s t m s' \<and> m = (if pending t AND events = 0 then 0 else pick (pending t AND events))"
proof (cases "pending s AND events = 0 \<and> timeout \<noteq> TIME_IMMEDIATE")
  case True
  then obtain msg t where t: "chSchGoSleepTimeoutS_evt env (WaitOr events) timeout s = Inr (msg, t)"
      "(if msg < MSG_OK then Inr (0, t) else Inr (take_events (pick (pending t AND events)) t) :: (_ \<times> _) result) = Inr (m, s')"
    using assms(1) by (auto simp: wait_for_def bindE_Inr_iff)
  have w: "wakes (set_wait (WaitOr events) s) (ev_naps s) events msg t"
    using t(1) assms(2) True
    by (intro evt_sleep_wakes [of timeout]) (auto simp: chSchGoSleepTimeoutS_evt_def inv_wait)
  show ?thesis
  proof (cases "pending t AND events = 0")
    case True
    then have "m = 0" "s' = t" using w t(2) by (auto simp: wakes_def msg_defs)
    then show ?thesis using waited_slept [OF w, of 0] True by auto
  next
    case False
    then have "m = pick (pending t AND events)" "s' = set_pending (pending t AND NOT m) t"
      using w t(2) by (auto simp: wakes_def msg_defs take_events_def)
    then show ?thesis using waited_slept [OF w] False by auto
  qed
next
  case False
  then have "m = (if pending s AND events = 0 then 0 else pick (pending s AND events))"
      "s' = set_pending (pending s AND NOT m) s"
    using assms(1) by (auto simp: wait_for_def take_events_def split: if_splits)
  then show ?thesis using waited_now [OF assms(2,3), of m] by (intro exI [of _ s]) simp
qed

lemma chEvtWaitAnyTimeout_waited:
  assumes "chEvtWaitAnyTimeout env events timeout s = Inr (m, s')" "inv s" "ewait (ev_threads s (ev_self s)) = Running"
  obtains t where "waited s t m s'" "m = pending t AND events"
  using wait_for_waited [of "\<lambda>m. m" events timeout s m s'] assms
  by (auto simp: wait_for_def chEvtWaitAnyTimeout_def split: if_splits)

end

text \<open>If it is known what an event adds to the pending ones, it is known what a wait has gathered.\<close>

locale evt_client = evt_waiter env inv
  for env :: "'e \<Rightarrow> ('e, 'm) evt_sys_scheme \<Rightarrow> ('e, 'm) evt_sys_scheme result" and inv +
  fixes adds :: "tid \<Rightarrow> 'e \<Rightarrow> 32 word"
  assumes adds: "env e s = Inr s' \<Longrightarrow> ev_self s' = ev_self s \<and> pending s' = pending s OR adds (ev_self s) e"
begin

definition gathered :: "tid \<Rightarrow> 'e list \<Rightarrow> 32 word" where
  "gathered t es = foldr (\<lambda>e m. adds t e OR m) es 0"

lemma run_gathers:
  "run_ops env es s = Inr s' \<Longrightarrow> pending s' = pending s OR gathered (ev_self s) es"
  by (induction es arbitrary: s) (auto simp: gathered_def res_simps ac_simps dest: adds)

lemma waited_gathers:
  assumes "waited s t m s'"
  obtains used where "ev_naps s = used @ ev_naps s'" "pending t = pending s OR gathered (ev_self s) (evs used)"
    "pending s' = pending t AND NOT m"
  using assms run_gathers unfolding waited_def by fastforce

end

section \<open>Signals from other threads\<close>

text \<open>\<^verbatim>\<open>chEvtSignal\<close>, called by another thread while this one sleeps.\<close>

fun chEvtSignal :: "tid \<times> 32 word \<Rightarrow> (tid \<times> 32 word, 'm) evt_sys_scheme \<Rightarrow> (tid \<times> 32 word, 'm) evt_sys_scheme result" where
  "chEvtSignal (tp, events) s = Inr (s\<lparr>ev_threads := (ev_threads s)(tp := chEvtSignalI events (ev_threads s tp))\<rparr>)"

definition signalled :: "tid \<Rightarrow> tid \<times> 32 word \<Rightarrow> 32 word" where
  "signalled t e = (if fst e = t then snd e else 0)"

interpretation signals: evt_client chEvtSignal "\<lambda>_. True" signalled
proof unfold_locales
  fix s s' :: "(tid \<times> 32 word, 'm) evt_sys_scheme" and m and e :: "tid \<times> 32 word"
  assume "ewait (ev_threads s (ev_self s)) = WaitOr m" "pending s AND m = 0" "chEvtSignal e s = Inr s'"
  then show "True \<and> ev_self s' = ev_self s \<and>
      ewait (ev_threads s' (ev_self s)) = (if pending s' AND m \<noteq> 0 then Running else WaitOr m)"
    by (cases e; cases s) (auto simp: pending_def split: if_splits)
next
  fix s s' :: "(tid \<times> 32 word, 'm) evt_sys_scheme" and e :: "tid \<times> 32 word"
  assume "chEvtSignal e s = Inr s'"
  then show "ev_self s' = ev_self s \<and> pending s' = pending s OR signalled (ev_self s) e"
    by (cases e; cases s) (auto simp: pending_def signalled_def)
qed simp_all

text \<open>
  C31. Waiting for one event of a mask, with any signals by other threads meanwhile. The wait returns at most one
  event; it belongs to the mask, it was pending or came during the wait, and no event of the mask with a lower
  identifier is left. A result of 0 means a timeout, and then no event of the mask is pending. No event gets lost:
  what is pending afterwards is what was pending before, with all signals of the time slept through, less the
  event returned.
\<close>

theorem chEvtWaitOneTimeout_lowest:
  assumes "chEvtWaitOneTimeout chEvtSignal events timeout s = Inr (m, s')"
    and "ewait (ev_threads s (ev_self s)) = Running"
  shows "\<exists>used p. ev_naps s = used @ ev_naps s' \<and> p = pending s OR signals.gathered (ev_self s) (evs used) \<and>
    pending s' = p AND NOT m \<and>
    (if p AND events = 0 then m = 0
     else \<exists>k < 32. m = EVENT_MASK k \<and> bit (p AND events) k \<and> (\<forall>j < k. \<not> bit (p AND events) j))"
proof -
  have "wait_for chEvtSignal lowest_event events timeout s = Inr (m, s')"
    using assms(1) by (simp add: chEvtWaitOneTimeout_def wait_for_def)
  then obtain t where t: "signals.waited s t m s'" "m = (if pending t AND events = 0 then 0 else lowest_event (pending t AND events))"
    using signals.wait_for_waited assms(2) by blast
  obtain used where u: "ev_naps s = used @ ev_naps s'" "pending t = pending s OR signals.gathered (ev_self s) (evs used)"
      "pending s' = pending t AND NOT m"
    using signals.waited_gathers [OF t(1)] by blast
  have "\<exists>k < 32. m = EVENT_MASK k \<and> bit (pending t AND events) k \<and> (\<forall>j < k. \<not> bit (pending t AND events) j)"
    if "pending t AND events \<noteq> 0"
    using lowest_event_exists [OF that] t(2) that by metis
  then show ?thesis using t(2) u by (intro exI [of _ used] exI [of _ "pending t"]) simp
qed

definition evt_demo :: "(tid \<times> 32 word) evt_sys" where
  "evt_demo = \<lparr>ev_threads = (\<lambda>_. \<lparr>epending = 1, ewait = Running\<rparr>), ev_self = 3,
     ev_naps = [Ev (4, 6), Ev (3, 16), Ev (3, 6), Expire]\<rparr>"

theorem chEvtWaitOneTimeout_lowest_witness:
  "\<exists>s'. chEvtWaitOneTimeout chEvtSignal 6 100 evt_demo = Inr (2, s') \<and> ev_naps s' = [Expire] \<and> pending s' = 21 \<and>
     (\<exists>used p. ev_naps evt_demo = used @ ev_naps s' \<and> p = pending evt_demo OR signals.gathered (ev_self evt_demo) (evs used) \<and>
        pending s' = p AND NOT 2 \<and>
        (if p AND 6 = 0 then (2 :: 32 word) = 0
         else \<exists>k < 32. 2 = EVENT_MASK k \<and> bit (p AND 6) k \<and> (\<forall>j < k. \<not> bit (p AND 6) j)))"
proof -
  obtain s' where s': "chEvtWaitOneTimeout chEvtSignal 6 100 evt_demo = Inr (2, s')" "ev_naps s' = [Expire]" "pending s' = 21"
    by (simp add: chEvtWaitOneTimeout_def evt_demo_def pending_def chSchGoSleepTimeoutS_evt_def set_wait_def chEvtSignalI_def
        Let_def take_events_def lowest_event_def set_pending_def msg_defs TIME_IMMEDIATE_def)
  have "ewait (ev_threads evt_demo (ev_self evt_demo)) = Running" by (simp add: evt_demo_def)
  from chEvtWaitOneTimeout_lowest [OF s'(1) this] s' show ?thesis by blast
qed

end
