(* ===== verification/Can.thy ===== *)
theory Can
  imports Events Pal
begin

text \<open>
  The CAN driver: \<^verbatim>\<open>os/hal/src/hal_can.c\<close>, the macros of \<^verbatim>\<open>os/hal/include/hal_can.h\<close> and the bxCAN back
  end \<^verbatim>\<open>os/hal/ports/STM32/LLD/CANv1/hal_can_lld.c\<close>, for the driver object \<^verbatim>\<open>CAND1\<close> that the application
  uses; of \<^verbatim>\<open>CAND2\<close>, which this build has too, only the state field matters. The controller is part of the
  state: three transmit mailboxes, pending while \<^verbatim>\<open>TXRQ\<close> is set, two receive FIFOs of at most three frames, the
  status and interrupt enable registers. The status registers are computed from these when they are read. What the
  bus and the other threads do while the calling thread sleeps is the script \<open>ev_naps\<close>; \<open>can_step\<close> is the effect
  of one event, and a vector is entered only when an enabled interrupt of the controller is pending.
\<close>

section \<open>Data\<close>

datatype canstate = CAN_UNINIT | CAN_STOP | CAN_STARTING | CAN_READY | CAN_SLEEP

text \<open>
  Bit fields have their width; the union of \<^verbatim>\<open>SID\<close> and \<^verbatim>\<open>EID\<close> is the wider of the two, and \<^verbatim>\<open>SID\<close> its low bits.
\<close>

record CANTxFrame =
  tx_DLC :: "4 word"
  tx_RTR :: "1 word"
  tx_IDE :: "1 word"
  tx_ID :: "29 word"
  tx_data32 :: "32 word \<times> 32 word"

record CANRxFrame =
  rx_FMI :: "8 word"
  rx_TIME :: "16 word"
  rx_DLC :: "4 word"
  rx_RTR :: "1 word"
  rx_IDE :: "1 word"
  rx_ID :: "29 word"
  rx_data32 :: "32 word \<times> 32 word"

definition tx_SID :: "CANTxFrame \<Rightarrow> 11 word" where "tx_SID f = ucast (tx_ID f)"
definition tx_EID :: "CANTxFrame \<Rightarrow> 29 word" where "tx_EID f = tx_ID f"
definition rx_SID :: "CANRxFrame \<Rightarrow> 11 word" where "rx_SID f = ucast (rx_ID f)"
definition rx_EID :: "CANRxFrame \<Rightarrow> 29 word" where "rx_EID f = rx_ID f"

record CANConfig =
  cfg_mcr :: "32 word"
  cfg_btr :: "32 word"

record CANFilter =
  flt_filter :: nat
  flt_mode :: bool
  flt_scale :: bool
  flt_assignment :: bool
  flt_register1 :: "32 word"
  flt_register2 :: "32 word"

text \<open>The four registers of a transmit or receive mailbox: identifier, length and time, low and high data.\<close>

record can_mailbox =
  MIR :: "32 word"
  MDTR :: "32 word"
  MDLR :: "32 word"
  MDHR :: "32 word"

text \<open>
  What can happen while a thread is away: a mailbox is sent or fails, a frame arrives in a FIFO, the controller wakes
  up or reports an error or acknowledges initialization; one of the four vectors is entered; another thread calls
  the driver.
\<close>

datatype can_event = TxDone nat | TxFail nat "32 word" | RxFrame nat can_mailbox | BusWake | BusError "32 word" | InitAck
  | IrqTx | IrqRx0 | IrqRx1 | IrqSce | CallSleep | CallWakeup | CallStop

datatype can_source = RxfullEvent | TxemptyEvent | ErrorEvent | SleepEvent | WakeupEvent

datatype can_queue = TxQueue | RxQueue

text \<open>
  \<open>tx_code\<close> is the number the controller reports in \<^verbatim>\<open>TSR.CODE\<close>, a function of the set of empty mailboxes;
  \<open>bus\<close> and \<open>failed\<close> record the frames that left the mailboxes.
\<close>

record CANDriver = "can_event evt_sys" +
  can_state :: canstate
  can_config :: "CANConfig option"
  can_queue :: "can_queue \<Rightarrow> tid list"
  can_events :: "can_source \<Rightarrow> event_listener list"
  can_readied :: "(tid \<times> msg) list"
  cand2_state :: canstate
  MCR :: "32 word"
  MSR :: "32 word"
  TSR_flags :: "32 word"
  IER :: "32 word"
  ESR :: "32 word"
  BTR :: "32 word"
  sTxMailBox :: "nat \<Rightarrow> can_mailbox"
  tx_code :: "(nat \<Rightarrow> bool) \<Rightarrow> nat"
  fifo :: "nat \<Rightarrow> can_mailbox list"
  FOVR :: "nat \<Rightarrow> bool"
  FMR :: "32 word"
  FM1R :: "32 word"
  FS1R :: "32 word"
  FFA1R :: "32 word"
  FA1R :: "32 word"
  FR1 :: "nat \<Rightarrow> 32 word"
  FR2 :: "nat \<Rightarrow> 32 word"
  bus :: "can_mailbox list"
  failed :: "can_mailbox list"

type_synonym can_op = "CANDriver \<Rightarrow> CANDriver result"

section \<open>Constants\<close>

definition CAN_ANY_MAILBOX :: nat where "CAN_ANY_MAILBOX = 0"
definition CAN_TX_MAILBOXES :: nat where "CAN_TX_MAILBOXES = 3"
definition CAN_RX_MAILBOXES :: nat where "CAN_RX_MAILBOXES = 2"
definition CAN_OVERFLOW_ERROR :: "32 word" where "CAN_OVERFLOW_ERROR = 16"
definition STM32_CAN_MAX_FILTERS :: nat where "STM32_CAN_MAX_FILTERS = 28"

definition CAN_MAILBOX_TO_MASK :: "nat \<Rightarrow> 32 word" where "CAN_MAILBOX_TO_MASK mbx = push_bit (mbx - 1) 1"

definition CAN_BTR_BRP :: "32 word \<Rightarrow> 32 word" where "CAN_BTR_BRP n = n"
definition CAN_BTR_TS1 :: "32 word \<Rightarrow> 32 word" where "CAN_BTR_TS1 n = push_bit 16 n"
definition CAN_BTR_TS2 :: "32 word \<Rightarrow> 32 word" where "CAN_BTR_TS2 n = push_bit 20 n"
definition CAN_BTR_SJW :: "32 word \<Rightarrow> 32 word" where "CAN_BTR_SJW n = push_bit 24 n"

lemmas can_consts = CAN_ANY_MAILBOX_def CAN_TX_MAILBOXES_def CAN_RX_MAILBOXES_def CAN_OVERFLOW_ERROR_def
  STM32_CAN_MAX_FILTERS_def

abbreviation (input) "MCR_INRQ \<equiv> (1 :: 32 word)"
abbreviation (input) "MCR_SLEEP \<equiv> (2 :: 32 word)"
abbreviation (input) "TI0R_TXRQ \<equiv> (1 :: 32 word)"
abbreviation (input) "TI0R_IDE \<equiv> (4 :: 32 word)"
abbreviation (input) "FMR_FINIT \<equiv> (1 :: 32 word)"
abbreviation (input) "TSR_CODE \<equiv> (0x03000000 :: 32 word)"
abbreviation (input) "TSR_TME \<equiv> (0x1C000000 :: 32 word)"

text \<open>The message pending and overrun interrupt enable bits of a FIFO.\<close>

definition IER_FMPIE :: "nat \<Rightarrow> 32 word" where "IER_FMPIE n = (if n = 0 then 2 else 16)"
definition IER_FOVIE :: "nat \<Rightarrow> 32 word" where "IER_FOVIE n = (if n = 0 then 8 else 64)"

text \<open>All sources the driver enables: \<^verbatim>\<open>TMEIE\<close>, \<^verbatim>\<open>FMPIE\<close>, \<^verbatim>\<open>FOVIE\<close>, \<^verbatim>\<open>WKUIE\<close>, \<^verbatim>\<open>ERRIE\<close>, \<^verbatim>\<open>BOFIE\<close>, \<^verbatim>\<open>EPVIE\<close>, \<^verbatim>\<open>EWGIE\<close>.\<close>

definition CAN_IER_START :: "32 word" where
  "CAN_IER_START = 0x00000001 OR 0x00000002 OR 0x00000010 OR 0x00010000 OR 0x00008000 OR 0x00000400 OR 0x00000200
     OR 0x00000100 OR 0x00000008 OR 0x00000040"

section \<open>The controller\<close>

definition mailbox_empty :: "CANDriver \<Rightarrow> nat \<Rightarrow> bool" where
  "mailbox_empty s n \<longleftrightarrow> \<not> bit (MIR (sTxMailBox s n)) 0"

definition read_TSR :: "CANDriver \<Rightarrow> 32 word" where
  "read_TSR s = (TSR_flags s AND 0x000F0F0F) OR push_bit 24 (word_of_nat (tx_code s (mailbox_empty s)) AND 3)
     OR (if mailbox_empty s 0 then 0x04000000 else 0) OR (if mailbox_empty s 1 then 0x08000000 else 0)
     OR (if mailbox_empty s 2 then 0x10000000 else 0)"

text \<open>Writing 1 to a completed flag clears the four result bits of the mailbox.\<close>

definition write_TSR :: "32 word \<Rightarrow> CANDriver \<Rightarrow> CANDriver" where
  "write_TSR v s = s\<lparr>TSR_flags := TSR_flags s AND NOT ((if bit v 0 then 0xF else 0) OR
     (if bit v 8 then 0xF00 else 0) OR (if bit v 16 then 0xF0000 else 0))\<rparr>"

definition write_MSR :: "32 word \<Rightarrow> CANDriver \<Rightarrow> CANDriver" where
  "write_MSR v s = s\<lparr>MSR := MSR s AND NOT (v AND 0x1C)\<rparr>"

definition read_RFR :: "nat \<Rightarrow> CANDriver \<Rightarrow> 32 word" where
  "read_RFR n s = word_of_nat (length (fifo s n)) OR (if length (fifo s n) = 3 then 8 else 0) OR (if FOVR s n then 16 else 0)"

text \<open>Writing \<^verbatim>\<open>RFOM\<close> releases the oldest frame, writing 1 to \<^verbatim>\<open>FOVR\<close> clears it.\<close>

definition write_RFR :: "nat \<Rightarrow> 32 word \<Rightarrow> CANDriver \<Rightarrow> CANDriver" where
  "write_RFR n v s = s\<lparr>fifo := (if bit v 5 then (fifo s)(n := tl (fifo s n)) else fifo s),
     FOVR := (if bit v 4 then (FOVR s)(n := False) else FOVR s)\<rparr>"

text \<open>The output mailbox of a FIFO shows its oldest frame.\<close>

definition sFIFOMailBox :: "CANDriver \<Rightarrow> nat \<Rightarrow> can_mailbox" where
  "sFIFOMailBox s n = (case fifo s n of [] \<Rightarrow> \<lparr>MIR = 0, MDTR = 0, MDLR = 0, MDHR = 0\<rparr> | m # _ \<Rightarrow> m)"

text \<open>A pending mailbox is write protected; a request clears the results of the last one.\<close>

definition write_mailbox :: "nat \<Rightarrow> can_mailbox \<Rightarrow> CANDriver \<Rightarrow> CANDriver" where
  "write_mailbox n m s =
     (if \<not> mailbox_empty s n then s
      else s\<lparr>sTxMailBox := (sTxMailBox s)(n := m), TSR_flags := TSR_flags s AND NOT (push_bit (8 * n) 0xF)\<rparr>)"

definition mailbox_done :: "nat \<Rightarrow> 32 word \<Rightarrow> CANDriver \<Rightarrow> CANDriver" where
  "mailbox_done n result s =
     s\<lparr>sTxMailBox := (sTxMailBox s)(n := (sTxMailBox s n)\<lparr>MIR := MIR (sTxMailBox s n) AND NOT TI0R_TXRQ\<rparr>),
       TSR_flags := TSR_flags s OR push_bit (8 * n) (1 OR result)\<rparr>"

text \<open>A frame for a full FIFO replaces the newest one, as the receive FIFO is not locked.\<close>

definition fifo_arrive :: "nat \<Rightarrow> can_mailbox \<Rightarrow> CANDriver \<Rightarrow> CANDriver" where
  "fifo_arrive n m s =
     (if length (fifo s n) < 3 then s\<lparr>fifo := (fifo s)(n := fifo s n @ [m])\<rparr>
      else s\<lparr>fifo := (fifo s)(n := butlast (fifo s n) @ [m]), FOVR := (FOVR s)(n := True)\<rparr>)"

section \<open>Threads\<close>

definition can_dequeue_all :: "can_queue \<Rightarrow> msg \<Rightarrow> CANDriver \<Rightarrow> CANDriver" where
  "can_dequeue_all q m s = s\<lparr>can_queue := (can_queue s)(q := []),
     can_readied := can_readied s @ map (\<lambda>t. (t, m)) (can_queue s q)\<rparr>"

definition can_broadcast :: "can_source \<Rightarrow> 32 word \<Rightarrow> CANDriver \<Rightarrow> CANDriver" where
  "can_broadcast src flags s =
     (let (ls, ths) = chEvtBroadcastFlagsI flags (can_events s src) (ev_threads s)
      in s\<lparr>can_events := (can_events s)(src := ls), ev_threads := ths\<rparr>)"

section \<open>Interrupts\<close>

definition can_tx_empty_isr :: "32 word \<Rightarrow> CANDriver \<Rightarrow> CANDriver" where
  "can_tx_empty_isr flags s = can_broadcast TxemptyEvent flags (can_dequeue_all TxQueue MSG_OK s)"

definition can_rx_full_isr :: "32 word \<Rightarrow> CANDriver \<Rightarrow> CANDriver" where
  "can_rx_full_isr flags s = can_broadcast RxfullEvent flags (can_dequeue_all RxQueue MSG_OK s)"

definition can_wakeup_isr :: "CANDriver \<Rightarrow> CANDriver" where
  "can_wakeup_isr s = can_broadcast WakeupEvent 0 s"

definition can_error_isr :: "32 word \<Rightarrow> CANDriver \<Rightarrow> CANDriver" where
  "can_error_isr flags s = can_broadcast ErrorEvent flags s"

text \<open>The flag of one mailbox: completed, or in the upper half word when it failed.\<close>

definition tx_flag :: "32 word \<Rightarrow> nat \<Rightarrow> 32 word" where
  "tx_flag tsr n =
     (if bit tsr (8 * n) then
        if bit tsr (8 * n + 2) \<or> bit tsr (8 * n + 3) then push_bit 16 (CAN_MAILBOX_TO_MASK (n + 1))
        else CAN_MAILBOX_TO_MASK (n + 1)
      else 0)"

definition can_lld_tx_handler :: "CANDriver \<Rightarrow> CANDriver" where
  "can_lld_tx_handler s =
     (let tsr = read_TSR s; s = write_TSR tsr s
      in can_tx_empty_isr (tx_flag tsr 0 OR tx_flag tsr 1 OR tx_flag tsr 2) s)"

definition rx_pending :: "nat \<Rightarrow> CANDriver \<Rightarrow> CANDriver" where
  "rx_pending n s =
     (let rfr = read_RFR n s;
          s = (if rfr AND 3 > 0
               then can_rx_full_isr (CAN_MAILBOX_TO_MASK (n + 1)) (s\<lparr>IER := IER s AND NOT (IER_FMPIE n)\<rparr>) else s)
      in if rfr AND 16 > 0 then can_error_isr CAN_OVERFLOW_ERROR (write_RFR n 16 s) else s)"

definition can_lld_rx0_handler :: "CANDriver \<Rightarrow> CANDriver" where "can_lld_rx0_handler s = rx_pending 0 s"
definition can_lld_rx1_handler :: "CANDriver \<Rightarrow> CANDriver" where "can_lld_rx1_handler s = rx_pending 1 s"

definition can_lld_sce_handler :: "CANDriver \<Rightarrow> CANDriver" where
  "can_lld_sce_handler s =
     (let msr = MSR s; s = write_MSR msr s;
          s = (if msr AND 8 \<noteq> 0 then can_wakeup_isr (s\<lparr>can_state := CAN_READY, MCR := MCR s AND NOT MCR_SLEEP\<rparr>) else s)
      in if msr AND 4 \<noteq> 0 then can_error_isr (0 OR push_bit 16 (ESR s)) s else s)"

section \<open>Low level driver\<close>

definition canObjectInit :: "CANDriver \<Rightarrow> CANDriver" where
  "canObjectInit s = s\<lparr>can_state := CAN_STOP, can_config := None, can_queue := (\<lambda>_. []), can_events := (\<lambda>_. [])\<rparr>"

definition set_filter :: "CANFilter \<Rightarrow> CANDriver \<Rightarrow> CANDriver" where
  "set_filter f s =
     (let fmask = push_bit (flt_filter f) 1
      in s\<lparr>FM1R := (if flt_mode f then FM1R s OR fmask else FM1R s),
           FS1R := (if flt_scale f then FS1R s OR fmask else FS1R s),
           FFA1R := (if flt_assignment f then FFA1R s OR fmask else FFA1R s),
           FR1 := (FR1 s)(flt_filter f := flt_register1 f), FR2 := (FR2 s)(flt_filter f := flt_register2 f),
           FA1R := FA1R s OR fmask\<rparr>)"

definition can_lld_set_filters :: "nat \<Rightarrow> CANFilter list \<Rightarrow> CANDriver \<Rightarrow> CANDriver" where
  "can_lld_set_filters can2sb cfp s =
     (let s = s\<lparr>FMR := (FMR s AND 0xFFFF0000) OR FMR_FINIT\<rparr>;
          s = s\<lparr>FMR := (FMR s AND 0xFFFF0000) OR push_bit 8 (word_of_nat can2sb) OR FMR_FINIT\<rparr>;
          s = (if cfp \<noteq> [] then
                 fold set_filter cfp
                   (s\<lparr>FA1R := 0, FM1R := 0, FS1R := 0, FFA1R := 0,
                      FR1 := (\<lambda>i. if i < STM32_CAN_MAX_FILTERS then 0 else FR1 s i),
                      FR2 := (\<lambda>i. if i < STM32_CAN_MAX_FILTERS then 0 else FR2 s i)\<rparr>)
               else s\<lparr>FR1 := (FR1 s)(0 := 0, can2sb := 0), FR2 := (FR2 s)(0 := 0, can2sb := 0), FM1R := 0, FFA1R := 0,
                      FS1R := 1 OR push_bit can2sb 1, FA1R := 1 OR push_bit can2sb 1\<rparr>)
      in s\<lparr>FMR := FMR s AND NOT FMR_FINIT\<rparr>)"

definition can_lld_init :: "CANDriver \<Rightarrow> CANDriver" where
  "can_lld_init s = can_lld_set_filters (STM32_CAN_MAX_FILTERS div 2) [] (canObjectInit s)"

definition canInit :: "CANDriver \<Rightarrow> CANDriver" where "canInit s = can_lld_init s"

definition canSTM32SetFilters :: "nat \<Rightarrow> CANFilter list \<Rightarrow> can_op" where
  "canSTM32SetFilters can2sb cfp s =
     dbgCheck ''canSTM32SetFilters'' (can2sb \<le> STM32_CAN_MAX_FILTERS \<and> length cfp \<le> STM32_CAN_MAX_FILTERS)
     (dbgAssert ''invalid state'' (can_state s = CAN_STOP)
     (dbgAssert ''invalid state'' (cand2_state s = CAN_STOP)
       (Inr (can_lld_set_filters can2sb cfp s))))"

definition can_lld_stop :: can_op where
  "can_lld_stop s =
     (if can_state s = CAN_READY
      then dbgAssert ''CAN2 must be stopped'' (cand2_state s = CAN_STOP) (Inr (s\<lparr>MCR := 0x00010002, IER := 0\<rparr>))
      else Inr s)"

definition can_lld_is_tx_empty :: "nat \<Rightarrow> CANDriver \<Rightarrow> bool" where
  "can_lld_is_tx_empty mailbox s =
     (if mailbox = CAN_ANY_MAILBOX then read_TSR s AND TSR_TME \<noteq> 0
      else if mailbox = 1 then read_TSR s AND 0x04000000 \<noteq> 0
      else if mailbox = 2 then read_TSR s AND 0x08000000 \<noteq> 0
      else if mailbox = 3 then read_TSR s AND 0x10000000 \<noteq> 0
      else False)"

definition encode_TIR :: "CANTxFrame \<Rightarrow> 32 word" where
  "encode_TIR f =
     (if tx_IDE f \<noteq> 0 then push_bit 3 (ucast (tx_EID f)) OR push_bit 1 (ucast (tx_RTR f)) OR TI0R_IDE
      else push_bit 21 (ucast (tx_SID f)) OR push_bit 1 (ucast (tx_RTR f)))"

definition encode_frame :: "CANTxFrame \<Rightarrow> can_mailbox" where
  "encode_frame f = \<lparr>MIR = encode_TIR f OR TI0R_TXRQ, MDTR = ucast (tx_DLC f), MDLR = fst (tx_data32 f), MDHR = snd (tx_data32 f)\<rparr>"

text \<open>There are three mailboxes: a code of 3 would be an access behind the array.\<close>

definition can_lld_transmit :: "nat \<Rightarrow> CANTxFrame \<Rightarrow> can_op" where
  "can_lld_transmit mailbox ctfp s =
     (let put = (\<lambda>n. if 3 \<le> n then Inl (Fault ''sTxMailBox'') else Inr (write_mailbox n (encode_frame ctfp) s))
      in if mailbox = CAN_ANY_MAILBOX then put (unat (drop_bit 24 (read_TSR s AND TSR_CODE)))
         else if mailbox = 1 then put 0
         else if mailbox = 2 then put 1
         else if mailbox = 3 then put 2
         else Inr s)"

definition can_lld_is_rx_nonempty :: "nat \<Rightarrow> CANDriver \<Rightarrow> bool" where
  "can_lld_is_rx_nonempty mailbox s =
     (if mailbox = CAN_ANY_MAILBOX then read_RFR 0 s AND 3 \<noteq> 0 \<or> read_RFR 1 s AND 3 \<noteq> 0
      else if mailbox = 1 then read_RFR 0 s AND 3 \<noteq> 0
      else if mailbox = 2 then read_RFR 1 s AND 3 \<noteq> 0
      else False)"

text \<open>The fields of the receive frame; the union keeps the bits above \<^verbatim>\<open>SID\<close>.\<close>

definition decode_frame :: "can_mailbox \<Rightarrow> CANRxFrame \<Rightarrow> CANRxFrame" where
  "decode_frame m crfp =
     (let rir = MIR m; rdtr = MDTR m; ide = ucast (drop_bit 2 (rir AND 4)) :: 1 word
      in crfp\<lparr>rx_data32 := (MDLR m, MDHR m), rx_RTR := ucast (drop_bit 1 (rir AND 2)), rx_IDE := ide,
        rx_ID := (if ide \<noteq> 0 then ucast (drop_bit 3 rir)
                  else (rx_ID crfp AND NOT (mask 11)) OR ucast (ucast (drop_bit 21 rir) :: 11 word)),
        rx_DLC := ucast (rdtr AND 15), rx_FMI := ucast (drop_bit 8 rdtr), rx_TIME := ucast (drop_bit 16 rdtr)\<rparr>)"

definition fetch :: "nat \<Rightarrow> CANRxFrame \<Rightarrow> CANDriver \<Rightarrow> CANRxFrame \<times> CANDriver" where
  "fetch n crfp s =
     (let m = sFIFOMailBox s n; s = write_RFR n 32 s;
          s = (if read_RFR n s AND 3 = 0 then s\<lparr>IER := IER s OR IER_FMPIE n\<rparr> else s)
      in (decode_frame m crfp, s))"

definition can_lld_receive :: "nat \<Rightarrow> CANRxFrame \<Rightarrow> CANDriver \<Rightarrow> CANRxFrame \<times> CANDriver" where
  "can_lld_receive mailbox crfp s =
     (let mailbox = (if mailbox = CAN_ANY_MAILBOX then
                       if read_RFR 0 s AND 3 \<noteq> 0 then 1 else if read_RFR 1 s AND 3 \<noteq> 0 then 2 else 0
                     else mailbox)
      in if mailbox = 1 then fetch 0 crfp s else if mailbox = 2 then fetch 1 crfp s else (crfp, s))"

definition can_lld_sleep :: "CANDriver \<Rightarrow> CANDriver" where "can_lld_sleep s = s\<lparr>MCR := MCR s OR MCR_SLEEP\<rparr>"
definition can_lld_wakeup :: "CANDriver \<Rightarrow> CANDriver" where "can_lld_wakeup s = s\<lparr>MCR := MCR s AND NOT MCR_SLEEP\<rparr>"

section \<open>Driver without waiting\<close>

definition canStop :: can_op where
  "canStop s =
     dbgAssert ''invalid state'' (can_state s = CAN_STOP \<or> can_state s = CAN_READY)
       (bindE (can_lld_stop s) (\<lambda>s.
          Inr (can_dequeue_all TxQueue MSG_RESET (can_dequeue_all RxQueue MSG_RESET
            (s\<lparr>can_config := None, can_state := CAN_STOP\<rparr>)))))"

definition canSleep :: can_op where
  "canSleep s =
     dbgAssert ''invalid state'' (can_state s = CAN_READY \<or> can_state s = CAN_SLEEP)
       (Inr (if can_state s = CAN_READY then can_broadcast SleepEvent 0 ((can_lld_sleep s)\<lparr>can_state := CAN_SLEEP\<rparr>) else s))"

definition canWakeup :: can_op where
  "canWakeup s =
     dbgAssert ''invalid state'' (can_state s = CAN_READY \<or> can_state s = CAN_SLEEP)
       (Inr (if can_state s = CAN_SLEEP then can_broadcast WakeupEvent 0 ((can_lld_wakeup s)\<lparr>can_state := CAN_READY\<rparr>) else s))"

definition canTryTransmitI :: "nat \<Rightarrow> CANTxFrame \<Rightarrow> CANDriver \<Rightarrow> (bool \<times> CANDriver) result" where
  "canTryTransmitI mailbox ctfp s =
     dbgCheck ''canTryTransmitI'' (mailbox \<le> CAN_TX_MAILBOXES)
     (dbgAssert ''invalid state'' (can_state s = CAN_READY \<or> can_state s = CAN_SLEEP)
       (if \<not> can_lld_is_tx_empty mailbox s then Inr (True, s)
        else bindE (can_lld_transmit mailbox ctfp s) (\<lambda>s. Inr (False, s))))"

definition canTryReceiveI :: "nat \<Rightarrow> CANRxFrame \<Rightarrow> CANDriver \<Rightarrow> (bool \<times> CANRxFrame \<times> CANDriver) result" where
  "canTryReceiveI mailbox crfp s =
     dbgCheck ''canTryReceiveI'' (mailbox \<le> CAN_RX_MAILBOXES)
     (dbgAssert ''invalid state'' (can_state s = CAN_READY \<or> can_state s = CAN_SLEEP)
       (if \<not> can_lld_is_rx_nonempty mailbox s then Inr (True, crfp, s)
        else Inr (False, can_lld_receive mailbox crfp s)))"

section \<open>What happens meanwhile\<close>

text \<open>
  One event. The vectors are entered when an enabled cause is pending; threads call only what the state allows;
  events that cannot happen in a state change nothing.
\<close>

fun can_step :: "can_event \<Rightarrow> can_op" where
  "can_step (TxDone n) s =
     Inr (if n < 3 \<and> \<not> mailbox_empty s n then (mailbox_done n 2 s)\<lparr>bus := bus s @ [sTxMailBox s n]\<rparr> else s)"
| "can_step (TxFail n err) s =
     Inr (if n < 3 \<and> \<not> mailbox_empty s n then (mailbox_done n (err AND 12) s)\<lparr>failed := failed s @ [sTxMailBox s n]\<rparr> else s)"
| "can_step (RxFrame n m) s = Inr (if n < 2 then fifo_arrive n m s else s)"
| "can_step BusWake s = Inr (s\<lparr>MSR := MSR s OR 8\<rparr>)"
| "can_step (BusError esr) s = Inr (s\<lparr>MSR := MSR s OR 4, ESR := esr\<rparr>)"
| "can_step InitAck s = Inr (if MCR s AND MCR_INRQ \<noteq> 0 then s\<lparr>MSR := MSR s OR 1\<rparr> else s)"
| "can_step IrqTx s =
     Inr (if bit (IER s) 0 \<and> TSR_flags s AND 0x00010101 \<noteq> 0 then can_lld_tx_handler s else s)"
| "can_step IrqRx0 s =
     Inr (if IER s AND IER_FMPIE 0 \<noteq> 0 \<and> fifo s 0 \<noteq> [] \<or> IER s AND IER_FOVIE 0 \<noteq> 0 \<and> FOVR s 0
          then can_lld_rx0_handler s else s)"
| "can_step IrqRx1 s =
     Inr (if IER s AND IER_FMPIE 1 \<noteq> 0 \<and> fifo s 1 \<noteq> [] \<or> IER s AND IER_FOVIE 1 \<noteq> 0 \<and> FOVR s 1
          then can_lld_rx1_handler s else s)"
| "can_step IrqSce s = Inr (if bit (IER s) 16 \<and> bit (MSR s) 3 \<or> bit (IER s) 15 \<and> bit (MSR s) 2 then can_lld_sce_handler s else s)"
| "can_step CallSleep s = (if can_state s = CAN_READY then canSleep s else Inr s)"
| "can_step CallWakeup s = (if can_state s = CAN_SLEEP then canWakeup s else Inr s)"
| "can_step CallStop s = (if can_state s = CAN_READY \<and> cand2_state s = CAN_STOP then canStop s else Inr s)"

section \<open>Starting\<close>

text \<open>
  The loop that waits for the controller to enter initialization, sleeping one tick in each turn: the ticks are
  the \<open>Expire\<close> items of the script. The first argument says whether the thread is asleep.
\<close>

function init_wait :: "bool \<Rightarrow> can_event nap list \<Rightarrow> can_op" where
  "init_wait False ns s = (if MSR s AND 1 \<noteq> 0 then Inr (s\<lparr>ev_naps := ns\<rparr>) else init_wait True ns s)"
| "init_wait True [] s = Inl Blocked"
| "init_wait True (Expire # ns) s = init_wait False ns s"
| "init_wait True (Ev e # ns) s = bindE (can_step e s) (init_wait True ns)"
  by pat_completeness auto
termination
  by (relation "measure (\<lambda>(asleep, ns, _). 2 * length ns + (if asleep then 0 else 1))") auto

definition can_lld_start :: can_op where
  "can_lld_start s =
     (let s = s\<lparr>MCR := MCR_INRQ\<rparr>
      in bindE (init_wait False (ev_naps s) s) (\<lambda>s.
           bindE (deref ''config'' (can_config s)) (\<lambda>c.
             Inr (s\<lparr>BTR := cfg_btr c, MCR := cfg_mcr c, IER := CAN_IER_START\<rparr>))))"

definition canStart :: "CANConfig option \<Rightarrow> can_op" where
  "canStart config s =
     dbgAssert ''invalid state'' (can_state s = CAN_STOP)
       (bindE (can_lld_start (s\<lparr>can_state := CAN_STARTING, can_config := config\<rparr>)) (\<lambda>s.
          Inr (s\<lparr>can_state := CAN_READY\<rparr>)))"

section \<open>Driver with waiting\<close>

text \<open>
  The loop \<^verbatim>\<open>while (stuck) osalThreadEnqueueTimeoutS(queue, timeout)\<close>, awake at its head or asleep in the
  queue. The sleep ends when an event takes the thread out of the queue, with the message it was readied with, or when
  the timer expires. A message other than \<^verbatim>\<open>MSG_OK\<close> leaves the loop.
\<close>

function can_wait :: "can_queue \<Rightarrow> (CANDriver \<Rightarrow> bool) \<Rightarrow> sysinterval \<Rightarrow> bool \<Rightarrow> can_event nap list \<Rightarrow> CANDriver \<Rightarrow>
    (msg \<times> CANDriver) result" where
  "can_wait q stuck timeout False ns s =
     (if stuck s then
        if timeout = TIME_IMMEDIATE then Inr (MSG_TIMEOUT, s\<lparr>ev_naps := ns\<rparr>)
        else can_wait q stuck timeout True ns (s\<lparr>can_queue := (can_queue s)(q := can_queue s q @ [ev_self s])\<rparr>)
      else Inr (MSG_OK, s\<lparr>ev_naps := ns\<rparr>))"
| "can_wait q stuck timeout True [] s = Inl Blocked"
| "can_wait q stuck timeout True (Expire # ns) s =
     (if timeout = TIME_INFINITE then can_wait q stuck timeout True ns s
      else Inr (MSG_TIMEOUT, s\<lparr>can_queue := (can_queue s)(q := remove1 (ev_self s) (can_queue s q)), ev_naps := ns\<rparr>))"
| "can_wait q stuck timeout True (Ev e # ns) s =
     bindE (can_step e s) (\<lambda>s.
       if ev_self s \<in> set (can_queue s q) then can_wait q stuck timeout True ns s
       else case map_of (rev (can_readied s)) (ev_self s) of
              None \<Rightarrow> Inl Blocked
            | Some m \<Rightarrow> if m \<noteq> MSG_OK then Inr (m, s\<lparr>ev_naps := ns\<rparr>) else can_wait q stuck timeout False ns s)"
  by pat_completeness auto
termination
  by (relation "measure (\<lambda>(q, stuck, timeout, asleep, ns, _). 2 * length ns + (if asleep then 0 else 1))") auto

definition canTransmitTimeout :: "nat \<Rightarrow> CANTxFrame \<Rightarrow> sysinterval \<Rightarrow> CANDriver \<Rightarrow> (msg \<times> CANDriver) result" where
  "canTransmitTimeout mailbox ctfp timeout s =
     dbgCheck ''canTransmitTimeout'' (mailbox \<le> CAN_TX_MAILBOXES)
     (dbgAssert ''invalid state'' (can_state s = CAN_READY \<or> can_state s = CAN_SLEEP)
       (bindE (can_wait TxQueue (\<lambda>s. can_state s = CAN_SLEEP \<or> \<not> can_lld_is_tx_empty mailbox s) timeout False (ev_naps s) s)
          (\<lambda>(m, s). if m \<noteq> MSG_OK then Inr (m, s) else bindE (can_lld_transmit mailbox ctfp s) (\<lambda>s. Inr (MSG_OK, s)))))"

definition canReceiveTimeout :: "nat \<Rightarrow> CANRxFrame \<Rightarrow> sysinterval \<Rightarrow> CANDriver \<Rightarrow> (msg \<times> CANRxFrame \<times> CANDriver) result" where
  "canReceiveTimeout mailbox crfp timeout s =
     dbgCheck ''canReceiveTimeout'' (mailbox \<le> CAN_RX_MAILBOXES)
     (dbgAssert ''invalid state'' (can_state s = CAN_READY \<or> can_state s = CAN_SLEEP)
       (bindE (can_wait RxQueue (\<lambda>s. can_state s = CAN_SLEEP \<or> \<not> can_lld_is_rx_nonempty mailbox s) timeout False (ev_naps s) s)
          (\<lambda>(m, s). if m \<noteq> MSG_OK then Inr (m, crfp, s) else Inr (MSG_OK, can_lld_receive mailbox crfp s))))"


section \<open>Fields left alone\<close>

lemma can_broadcast_fields [simp]:
  "sTxMailBox (can_broadcast src flags s) = sTxMailBox s"
  "bus (can_broadcast src flags s) = bus s"
  "failed (can_broadcast src flags s) = failed s"
  "tx_code (can_broadcast src flags s) = tx_code s"
  "ev_self (can_broadcast src flags s) = ev_self s"
  "ev_naps (can_broadcast src flags s) = ev_naps s"
  "can_state (can_broadcast src flags s) = can_state s"
  "fifo (can_broadcast src flags s) = fifo s"
  "FOVR (can_broadcast src flags s) = FOVR s"
  "IER (can_broadcast src flags s) = IER s"
  "MSR (can_broadcast src flags s) = MSR s"
  "MCR (can_broadcast src flags s) = MCR s"
  "TSR_flags (can_broadcast src flags s) = TSR_flags s"
  "cand2_state (can_broadcast src flags s) = cand2_state s"
  "can_queue (can_broadcast src flags s) = can_queue s"
  "can_readied (can_broadcast src flags s) = can_readied s"
  by (cases s; simp add: can_broadcast_def split: prod.split)+

lemma can_dequeue_all_fields [simp]:
  "sTxMailBox (can_dequeue_all q m s) = sTxMailBox s"
  "bus (can_dequeue_all q m s) = bus s"
  "failed (can_dequeue_all q m s) = failed s"
  "tx_code (can_dequeue_all q m s) = tx_code s"
  "ev_self (can_dequeue_all q m s) = ev_self s"
  "ev_naps (can_dequeue_all q m s) = ev_naps s"
  "can_state (can_dequeue_all q m s) = can_state s"
  "fifo (can_dequeue_all q m s) = fifo s"
  "FOVR (can_dequeue_all q m s) = FOVR s"
  "IER (can_dequeue_all q m s) = IER s"
  "MSR (can_dequeue_all q m s) = MSR s"
  "MCR (can_dequeue_all q m s) = MCR s"
  "TSR_flags (can_dequeue_all q m s) = TSR_flags s"
  "cand2_state (can_dequeue_all q m s) = cand2_state s"
  "can_events (can_dequeue_all q m s) = can_events s"
  "ev_threads (can_dequeue_all q m s) = ev_threads s"
  by (simp_all add: can_dequeue_all_def)

lemma write_RFR_fields [simp]:
  "sTxMailBox (write_RFR n v s) = sTxMailBox s"
  "bus (write_RFR n v s) = bus s"
  "failed (write_RFR n v s) = failed s"
  "tx_code (write_RFR n v s) = tx_code s"
  "ev_self (write_RFR n v s) = ev_self s"
  "ev_naps (write_RFR n v s) = ev_naps s"
  "can_state (write_RFR n v s) = can_state s"
  "IER (write_RFR n v s) = IER s"
  "MSR (write_RFR n v s) = MSR s"
  "MCR (write_RFR n v s) = MCR s"
  "TSR_flags (write_RFR n v s) = TSR_flags s"
  "cand2_state (write_RFR n v s) = cand2_state s"
  "can_events (write_RFR n v s) = can_events s"
  "ev_threads (write_RFR n v s) = ev_threads s"
  "can_queue (write_RFR n v s) = can_queue s"
  "can_readied (write_RFR n v s) = can_readied s"
  by (simp_all add: write_RFR_def)

lemma write_SR_fields [simp]:
  "sTxMailBox (write_TSR v s) = sTxMailBox s"
  "bus (write_TSR v s) = bus s"
  "failed (write_TSR v s) = failed s"
  "tx_code (write_TSR v s) = tx_code s"
  "ev_self (write_TSR v s) = ev_self s"
  "ev_naps (write_TSR v s) = ev_naps s"
  "can_state (write_TSR v s) = can_state s"
  "fifo (write_TSR v s) = fifo s"
  "FOVR (write_TSR v s) = FOVR s"
  "IER (write_TSR v s) = IER s"
  "MSR (write_TSR v s) = MSR s"
  "MCR (write_TSR v s) = MCR s"
  "cand2_state (write_TSR v s) = cand2_state s"
  "can_events (write_TSR v s) = can_events s"
  "ev_threads (write_TSR v s) = ev_threads s"
  "can_queue (write_TSR v s) = can_queue s"
  "can_readied (write_TSR v s) = can_readied s"
  "sTxMailBox (write_MSR v s) = sTxMailBox s"
  "bus (write_MSR v s) = bus s"
  "failed (write_MSR v s) = failed s"
  "tx_code (write_MSR v s) = tx_code s"
  "ev_self (write_MSR v s) = ev_self s"
  "ev_naps (write_MSR v s) = ev_naps s"
  "can_state (write_MSR v s) = can_state s"
  "fifo (write_MSR v s) = fifo s"
  "FOVR (write_MSR v s) = FOVR s"
  "IER (write_MSR v s) = IER s"
  "MCR (write_MSR v s) = MCR s"
  "TSR_flags (write_MSR v s) = TSR_flags s"
  "cand2_state (write_MSR v s) = cand2_state s"
  "can_events (write_MSR v s) = can_events s"
  "ev_threads (write_MSR v s) = ev_threads s"
  "can_queue (write_MSR v s) = can_queue s"
  "can_readied (write_MSR v s) = can_readied s"
  by (simp_all add: write_TSR_def write_MSR_def)

lemmas can_isr_defs = can_tx_empty_isr_def can_rx_full_isr_def can_wakeup_isr_def can_error_isr_def

lemma rx_pending_fields [simp]:
  "sTxMailBox (rx_pending n s) = sTxMailBox s"
  "bus (rx_pending n s) = bus s"
  "failed (rx_pending n s) = failed s"
  "tx_code (rx_pending n s) = tx_code s"
  "ev_self (rx_pending n s) = ev_self s"
  "ev_naps (rx_pending n s) = ev_naps s"
  "can_state (rx_pending n s) = can_state s"
  "MSR (rx_pending n s) = MSR s"
  "MCR (rx_pending n s) = MCR s"
  "TSR_flags (rx_pending n s) = TSR_flags s"
  "cand2_state (rx_pending n s) = cand2_state s"
  by (simp_all add: rx_pending_def can_isr_defs Let_def)

lemma tx_handler_fields [simp]:
  "sTxMailBox (can_lld_tx_handler s) = sTxMailBox s"
  "bus (can_lld_tx_handler s) = bus s"
  "failed (can_lld_tx_handler s) = failed s"
  "tx_code (can_lld_tx_handler s) = tx_code s"
  "ev_self (can_lld_tx_handler s) = ev_self s"
  "ev_naps (can_lld_tx_handler s) = ev_naps s"
  "can_state (can_lld_tx_handler s) = can_state s"
  "fifo (can_lld_tx_handler s) = fifo s"
  "FOVR (can_lld_tx_handler s) = FOVR s"
  "IER (can_lld_tx_handler s) = IER s"
  "MSR (can_lld_tx_handler s) = MSR s"
  "MCR (can_lld_tx_handler s) = MCR s"
  "cand2_state (can_lld_tx_handler s) = cand2_state s"
  by (simp_all add: can_lld_tx_handler_def can_isr_defs Let_def)

lemma sce_handler_fields [simp]:
  "sTxMailBox (can_lld_sce_handler s) = sTxMailBox s"
  "bus (can_lld_sce_handler s) = bus s"
  "failed (can_lld_sce_handler s) = failed s"
  "tx_code (can_lld_sce_handler s) = tx_code s"
  "ev_self (can_lld_sce_handler s) = ev_self s"
  "ev_naps (can_lld_sce_handler s) = ev_naps s"
  "fifo (can_lld_sce_handler s) = fifo s"
  "FOVR (can_lld_sce_handler s) = FOVR s"
  "IER (can_lld_sce_handler s) = IER s"
  "TSR_flags (can_lld_sce_handler s) = TSR_flags s"
  "cand2_state (can_lld_sce_handler s) = cand2_state s"
  by (simp_all add: can_lld_sce_handler_def can_isr_defs Let_def)

lemma can_queue_isr [simp]:
  "can_queue (can_dequeue_all RxQueue m s) TxQueue = can_queue s TxQueue"
  "can_queue (rx_pending n s) TxQueue = can_queue s TxQueue"
  "can_queue (can_lld_sce_handler s) = can_queue s"
  by (simp_all add: can_dequeue_all_def rx_pending_def can_lld_sce_handler_def can_isr_defs Let_def)

end
