(* ===== verification/CanFrame.thy ===== *)
theory CanFrame
  imports Can
begin

text \<open>
  Frames on their way: what the bus carries from a transmit mailbox of one node to a receive FIFO of another, and
  that the two drivers agree on it.
\<close>

text \<open>The eight data bytes, lowest address first.\<close>

definition data_bytes :: "32 word \<times> 32 word \<Rightarrow> byte list" where
  "data_bytes d = map (\<lambda>i. ucast (drop_bit (8 * i) (fst d))) [0 ..< 4] @ map (\<lambda>i. ucast (drop_bit (8 * i) (snd d))) [0 ..< 4]"

text \<open>
  What a CAN frame carries: the kind of identifier, the remote flag, the identifier of that kind, the length and, in
  a data frame, as many data bytes as the length says. The receiving controller chooses the other bits.
\<close>

definition delivers :: "can_mailbox \<Rightarrow> can_mailbox \<Rightarrow> bool" where
  "delivers t r \<longleftrightarrow>
     (\<forall>n < 32. n = 1 \<or> n = 2 \<or> (if bit (MIR t) 2 then 3 else 21) \<le> n \<longrightarrow> bit (MIR r) n = bit (MIR t) n) \<and>
     MDTR r AND 15 = MDTR t AND 15 \<and>
     (bit (MIR t) 1 \<or> take (unat (MDTR t AND 15)) (data_bytes (MDLR r, MDHR r)) = take (unat (MDTR t AND 15)) (data_bytes (MDLR t, MDHR t)))"

lemma bit1_word: "w \<noteq> 0 \<longleftrightarrow> bit w 0" for w :: "1 word"
proof
  assume "w \<noteq> 0"
  then obtain n where "bit w n" by (auto simp: bit_eq_iff)
  then show "bit w 0" using bit_imp_le_length [of w n] by (cases n) auto
qed auto

text \<open>The bits of an encoded identifier register.\<close>

lemma bit_shifted [bit_simps]:
  "bit (push_bit k (ucast w) :: 32 word) n \<longleftrightarrow> k \<le> n \<and> n < 32 \<and> bit w (n - k)" for w :: "'a::len word"
  by (auto simp: bit_push_bit_iff bit_unsigned_iff)

lemma bit_IDE: "bit TI0R_IDE n \<longleftrightarrow> n = 2"
  using bit_EVENT_MASK [of 2 n] by (auto simp: EVENT_MASK_def)

lemma bit_encode_TIR:
  "bit (encode_TIR f) n \<longleftrightarrow> n < 32 \<and>
     (if tx_IDE f \<noteq> 0 then n = 2 \<or> 3 \<le> n \<and> bit (tx_EID f) (n - 3) \<or> n = 1 \<and> tx_RTR f \<noteq> 0
      else 21 \<le> n \<and> bit (tx_SID f) (n - 21) \<or> n = 1 \<and> tx_RTR f \<noteq> 0)"
proof -
  have r: "1 \<le> n \<and> bit (tx_RTR f) (n - 1) \<longleftrightarrow> n = 1 \<and> tx_RTR f \<noteq> 0"
    using bit_imp_le_length [of "tx_RTR f" "n - 1"] bit1_word [of "tx_RTR f"] by (cases "n = 1") auto
  have "bit (encode_TIR f) n \<longleftrightarrow>
     (if tx_IDE f \<noteq> 0 then (3 \<le> n \<and> n < 32 \<and> bit (tx_EID f) (n - 3) \<or> n < 32 \<and> (1 \<le> n \<and> bit (tx_RTR f) (n - 1))) \<or> n = 2
      else 21 \<le> n \<and> n < 32 \<and> bit (tx_SID f) (n - 21) \<or> n < 32 \<and> (1 \<le> n \<and> bit (tx_RTR f) (n - 1)))"
    unfolding encode_TIR_def if_distrib [of "\<lambda>w. bit w n"] bit_or_iff bit_shifted bit_IDE by auto
  then show ?thesis unfolding r by auto
qed

lemma bit_MIR_encode [simp]: "MIR (encode_frame f) = encode_TIR f OR 1" "MDTR (encode_frame f) = ucast (tx_DLC f)"
  "MDLR (encode_frame f) = fst (tx_data32 f)" "MDHR (encode_frame f) = snd (tx_data32 f)"
  by (simp_all add: encode_frame_def)

lemma data_bytes_length [simp]: "length (data_bytes d) = 8"
  by (simp add: data_bytes_def)


text \<open>Decoding gives back the fields the bits of the register stand for.\<close>

lemma bit_RTR: "bit (2 :: 32 word) n \<longleftrightarrow> n = 1"
  using bit_EVENT_MASK [of 1 n] by (auto simp: EVENT_MASK_def)

lemma and_bit_ucast:
  fixes w :: "32 word"
  shows "(ucast (drop_bit 2 (w AND 4)) :: 1 word) \<noteq> 0 \<longleftrightarrow> bit w 2"
    "(ucast (drop_bit 1 (w AND 2)) :: 1 word) \<noteq> 0 \<longleftrightarrow> bit w 1"
  unfolding bit1_word bit_unsigned_iff bit_drop_bit_eq o_apply bit_and_iff
  using bit_IDE bit_RTR by auto

lemma decode_frame_flags:
  "rx_IDE (decode_frame m c) \<noteq> 0 \<longleftrightarrow> bit (MIR m) 2"
  "rx_RTR (decode_frame m c) \<noteq> 0 \<longleftrightarrow> bit (MIR m) 1"
  unfolding and_bit_ucast [symmetric] decode_frame_def Let_def by simp_all

lemma decode_frame_fields:
  "rx_DLC (decode_frame m c) = ucast (MDTR m AND 15)"
  "rx_data32 (decode_frame m c) = (MDLR m, MDHR m)"
  "rx_ID (decode_frame m c) =
     (if rx_IDE (decode_frame m c) \<noteq> 0 then ucast (drop_bit 3 (MIR m))
      else (rx_ID c AND NOT (mask 11)) OR ucast (ucast (drop_bit 21 (MIR m)) :: 11 word))"
  unfolding decode_frame_def Let_def by simp_all

lemma decode_frame_EID:
  "bit (MIR m) 2 \<Longrightarrow> rx_EID (decode_frame m c) = ucast (drop_bit 3 (MIR m))"
  by (simp add: rx_EID_def decode_frame_fields decode_frame_flags)

lemma decode_frame_SID:
  assumes "\<not> bit (MIR m) 2"
  shows "rx_SID (decode_frame m c) = ucast (drop_bit 21 (MIR m))"
proof -
  have "rx_ID (decode_frame m c) = (rx_ID c AND NOT (mask 11)) OR ucast (ucast (drop_bit 21 (MIR m)) :: 11 word)"
    using assms by (simp add: decode_frame_fields decode_frame_flags)
  then show ?thesis unfolding rx_SID_def
    by (intro bit_word_eqI) (simp add: bit_unsigned_iff bit_or_iff bit_and_iff bit_not_iff bit_mask_iff)
qed

text \<open>What the bus keeps of the identifier register: the two flags, and the identifier of the kind in use.\<close>

lemma delivered_bits:
  assumes "delivers (encode_frame f) m" "n < 32" "n = 1 \<or> n = 2 \<or> (if tx_IDE f \<noteq> 0 then 3 else 21) \<le> n"
  shows "bit (MIR m) n \<longleftrightarrow> bit (encode_TIR f) n"
proof -
  have low: "bit (encode_TIR f OR 1) n \<longleftrightarrow> bit (encode_TIR f) n" if "n \<noteq> 0" for n using that by (simp add: bit_or_iff bit_1_iff)
  have ide: "bit (encode_TIR f) 2 \<longleftrightarrow> tx_IDE f \<noteq> 0" by (simp add: bit_encode_TIR)
  show ?thesis using assms low [of n] low [of 2] unfolding delivers_def bit_MIR_encode ide [symmetric] by fastforce
qed

lemma delivered_flags:
  assumes "delivers (encode_frame f) m"
  shows "rx_IDE (decode_frame m c) = tx_IDE f" "rx_RTR (decode_frame m c) = tx_RTR f"
proof -
  have one: "v \<noteq> 0 \<longleftrightarrow> w \<noteq> 0 \<Longrightarrow> v = w" for v w :: "1 word"
    using bit_imp_le_length [of v] bit_imp_le_length [of w] unfolding bit1_word by (intro bit_word_eqI) auto
  show "rx_IDE (decode_frame m c) = tx_IDE f" "rx_RTR (decode_frame m c) = tx_RTR f"
    using delivered_bits [OF assms, of 2] delivered_bits [OF assms, of 1]
    by (intro one; simp add: decode_frame_flags bit_encode_TIR)+
qed

lemma delivered_identifier:
  assumes d: "delivers (encode_frame f) m"
  shows "tx_IDE f \<noteq> 0 \<Longrightarrow> rx_EID (decode_frame m c) = tx_EID f" "tx_IDE f = 0 \<Longrightarrow> rx_SID (decode_frame m c) = tx_SID f"
proof -
  have ide: "bit (MIR m) 2 \<longleftrightarrow> tx_IDE f \<noteq> 0" using delivered_bits [OF d, of 2] by (simp add: bit_encode_TIR)
  show "rx_EID (decode_frame m c) = tx_EID f" if "tx_IDE f \<noteq> 0"
  proof (rule bit_word_eqI)
    fix n
    assume "n < LENGTH(29)"
    then show "bit (rx_EID (decode_frame m c)) n \<longleftrightarrow> bit (tx_EID f) n"
      using that ide delivered_bits [OF d, of "3 + n"] by (simp add: decode_frame_EID bit_unsigned_iff bit_drop_bit_eq bit_encode_TIR)
  qed
  show "rx_SID (decode_frame m c) = tx_SID f" if "tx_IDE f = 0"
  proof (rule bit_word_eqI)
    fix n
    assume "n < LENGTH(11)"
    then show "bit (rx_SID (decode_frame m c)) n \<longleftrightarrow> bit (tx_SID f) n"
      using that ide delivered_bits [OF d, of "21 + n"] by (simp add: decode_frame_SID bit_unsigned_iff bit_drop_bit_eq bit_encode_TIR)
  qed
qed

lemma DLC_and_15: "(ucast (l :: 4 word) :: 32 word) AND 15 = ucast l"
proof -
  have m: "(15 :: 32 word) = mask 4" by (simp add: mask_eq_exp_minus_1)
  show ?thesis unfolding m
    by (intro bit_word_eqI) (auto simp: bit_and_iff bit_mask_iff bit_unsigned_iff dest: bit_imp_le_length)
qed

lemma delivered_length:
  assumes "delivers (encode_frame f) m"
  shows "rx_DLC (decode_frame m c) = tx_DLC f"
proof -
  have "MDTR m AND 15 = ucast (tx_DLC f)" using assms DLC_and_15 unfolding delivers_def bit_MIR_encode by simp
  then show ?thesis by (intro bit_word_eqI) (simp add: decode_frame_fields bit_unsigned_iff)
qed

lemma delivered_data:
  assumes "delivers (encode_frame f) m" "tx_RTR f = 0"
  shows "take (unat (tx_DLC f)) (data_bytes (rx_data32 (decode_frame m c))) = take (unat (tx_DLC f)) (data_bytes (tx_data32 f))"
proof -
  have rtr: "\<not> bit (encode_TIR f OR 1) 1" using assms(2) by (simp add: bit_encode_TIR bit_or_iff bit_1_iff)
  have "take_bit 32 (unat (tx_DLC f)) = unat (tx_DLC f)"
    using unsigned_less [of "tx_DLC f", where 'a = nat] by (intro take_bit_nat_eq_self) simp
  then have "unat (ucast (tx_DLC f) :: 32 word) = unat (tx_DLC f)" by (simp add: unsigned_ucast_eq take_bit_word_eq_self)
  then show ?thesis
    using assms rtr DLC_and_15 unfolding delivers_def bit_MIR_encode by (simp add: decode_frame_fields)
qed

text \<open>
  C32. A frame keeps its meaning on the way from one node to another. The receiving driver reports the kind of
  identifier, the identifier of that kind, the remote flag and the length the sender's frame had, and of a data
  frame the data bytes up to that length, for every frame and whatever was in the receive buffer before.
\<close>

theorem can_frame_roundtrip:
  assumes "delivers (encode_frame f) m"
  shows "rx_IDE (decode_frame m c) = tx_IDE f \<and> rx_RTR (decode_frame m c) = tx_RTR f \<and>
    rx_DLC (decode_frame m c) = tx_DLC f \<and>
    (if tx_IDE f \<noteq> 0 then rx_EID (decode_frame m c) = tx_EID f else rx_SID (decode_frame m c) = tx_SID f) \<and>
    (tx_RTR f = 0 \<longrightarrow> take (unat (tx_DLC f)) (data_bytes (rx_data32 (decode_frame m c))) =
       take (unat (tx_DLC f)) (data_bytes (tx_data32 f)))"
  using delivered_flags [OF assms] delivered_length [OF assms] delivered_identifier [OF assms] delivered_data [OF assms] by simp

text \<open>The frame of the transmitter thread, and what another node receives.\<close>

definition demo_frame :: CANTxFrame where
  "demo_frame = \<lparr>tx_DLC = 8, tx_RTR = 0, tx_IDE = 1, tx_ID = 0x01234567, tx_data32 = (0x55AA55AA, 0x00FF00FF)\<rparr>"

definition demo_rx :: CANRxFrame where
  "demo_rx = \<lparr>rx_FMI = 7, rx_TIME = 9, rx_DLC = 3, rx_RTR = 1, rx_IDE = 0, rx_ID = 5, rx_data32 = (1, 2)\<rparr>"

theorem can_frame_roundtrip_witness:
  "let m = \<lparr>MIR = 0x091A2B3C, MDTR = 0xABCD0108, MDLR = 0x55AA55AA, MDHR = 0x00FF00FF\<rparr>; r = decode_frame m demo_rx
   in delivers (encode_frame demo_frame) m \<and> rx_EID r = 0x01234567 \<and> rx_DLC r = 8 \<and> rx_TIME r = 0xABCD"
proof -
  let ?m = "\<lparr>MIR = 0x091A2B3C, MDTR = 0xABCD0108, MDLR = 0x55AA55AA, MDHR = 0x00FF00FF\<rparr>"
  have e: "encode_frame demo_frame = \<lparr>MIR = 0x091A2B3C OR 1, MDTR = 8, MDLR = 0x55AA55AA, MDHR = 0x00FF00FF\<rparr>"
    by (simp add: encode_frame_def encode_TIR_def demo_frame_def tx_EID_def)
  have low: "delivers \<lparr>MIR = x OR 1, MDTR = 8, MDLR = y, MDHR = z\<rparr> \<lparr>MIR = x, MDTR = 0xABCD0108, MDLR = y, MDHR = z\<rparr>" for x y z
    unfolding delivers_def by (simp add: bit_or_iff bit_1_iff)
  have d: "delivers (encode_frame demo_frame) ?m" unfolding e by (rule low)
  have "rx_IDE (decode_frame ?m demo_rx) = 1" "tx_IDE demo_frame = 1"
    using can_frame_roundtrip [OF d, of demo_rx] by (simp_all add: demo_frame_def)
  then show ?thesis
    using d can_frame_roundtrip [OF d, of demo_rx]
    by (simp add: demo_frame_def tx_EID_def Let_def) (simp add: decode_frame_def Let_def)
qed

end
