(* ===== verification/CanSend.thy ===== *)
theory CanSend
  imports CanFrame "HOL-Library.Multiset"
begin

text \<open>
  Sending frames: every frame the driver accepts is handed to the controller once and none is overwritten; and the
  way the driver leaves sleep mode, which forgets the threads that wait to send.
\<close>

section \<open>Status of the mailboxes\<close>

text \<open>
  The controller reports a mailbox that is empty, if there is one; which one is its choice.
\<close>

definition hw_code :: "CANDriver \<Rightarrow> bool" where
  "hw_code s \<longleftrightarrow> (\<forall>p. (\<exists>n < 3. p n) \<longrightarrow> tx_code s p < 3 \<and> p (tx_code s p))"

lemma bit_26: "bit (0x04000000 :: 32 word) k \<longleftrightarrow> k = 26"
  using bit_EVENT_MASK [of 26 k] by (auto simp: EVENT_MASK_def)

lemma bit_27: "bit (0x08000000 :: 32 word) k \<longleftrightarrow> k = 27"
  using bit_EVENT_MASK [of 27 k] by (auto simp: EVENT_MASK_def)

lemma bit_28: "bit (0x10000000 :: 32 word) k \<longleftrightarrow> k = 28"
  using bit_EVENT_MASK [of 28 k] by (auto simp: EVENT_MASK_def)

lemma bit_low_3: "bit (3 :: 32 word) k \<longleftrightarrow> k < 2"
proof -
  have "(3 :: 32 word) = mask 2" by (simp add: mask_eq_exp_minus_1)
  then show ?thesis by (simp only: bit_mask_iff) auto
qed

lemma bit_flags: "bit (w AND (0x000F0F0F :: 32 word)) k \<Longrightarrow> k < 20"
proof -
  assume "bit (w AND (0x000F0F0F :: 32 word)) k"
  moreover have "(0x000F0F0F :: 32 word) = take_bit 20 0x000F0F0F" by simp
  ultimately show ?thesis by (metis bit_and_iff bit_take_bit_iff)
qed

lemma bit_read_TSR:
  assumes "24 \<le> k"
  shows "bit (read_TSR s) k \<longleftrightarrow> k = 24 \<and> bit (word_of_nat (tx_code s (mailbox_empty s)) :: 32 word) 0 \<or>
    k = 25 \<and> bit (word_of_nat (tx_code s (mailbox_empty s)) :: 32 word) 1 \<or>
    k = 26 \<and> mailbox_empty s 0 \<or> k = 27 \<and> mailbox_empty s 1 \<or> k = 28 \<and> mailbox_empty s 2"
proof -
  have "\<not> bit (TSR_flags s AND 0x000F0F0F) k" using bit_flags [of "TSR_flags s" k] assms by auto
  moreover have "24 \<le> k \<and> k < 32 \<and> bit (w AND 3) (k - 24) \<longleftrightarrow> k = 24 \<and> bit w 0 \<or> k = 25 \<and> bit w 1" for w :: "32 word"
  proof -
    have "bit w (k - 24) \<and> k - 24 < 2 \<longleftrightarrow> k = 24 \<and> bit w 0 \<or> k = 25 \<and> bit w 1"
      using assms by (cases "k = 24"; cases "k = 25") auto
    then show ?thesis unfolding bit_and_iff bit_low_3 using assms by auto
  qed
  ultimately show ?thesis
    unfolding read_TSR_def bit_or_iff bit_push_bit_iff if_distrib [of "\<lambda>w. bit w k"] bit_26 bit_27 bit_28 bit_0_eq
    by auto
qed


lemma nonzero_bit: "w \<noteq> 0 \<longleftrightarrow> (\<exists>k. bit w k)" for w :: "32 word"
  using bit_eqI [of w 0] by auto

lemma TSR_TME: "read_TSR s AND TSR_TME \<noteq> 0 \<longleftrightarrow> (\<exists>n < 3. mailbox_empty s n)"
proof -
  have m: "TSR_TME = 0x04000000 OR 0x08000000 OR 0x10000000" by simp
  have "read_TSR s AND TSR_TME \<noteq> 0 \<longleftrightarrow> (\<exists>k. bit (read_TSR s AND TSR_TME) k)" by (rule nonzero_bit)
  also have "\<dots> \<longleftrightarrow> bit (read_TSR s) 26 \<or> bit (read_TSR s) 27 \<or> bit (read_TSR s) 28"
    unfolding m bit_and_iff bit_or_iff bit_26 bit_27 bit_28 by auto
  also have "\<dots> \<longleftrightarrow> mailbox_empty s 0 \<or> mailbox_empty s 1 \<or> mailbox_empty s 2" by (simp add: bit_read_TSR)
  also have "\<dots> \<longleftrightarrow> (\<exists>n < 3. mailbox_empty s n)" by (auto simp: numeral_3_eq_3 less_Suc_eq One_nat_def numeral_2_eq_2)
  finally show ?thesis .
qed

lemma and_single: "(\<And>k. bit m k \<longleftrightarrow> k = j) \<Longrightarrow> w AND m \<noteq> 0 \<longleftrightarrow> bit w j" for w m :: "32 word"
proof -
  assume m: "\<And>k. bit m k \<longleftrightarrow> k = j"
  have "w AND m \<noteq> 0 \<longleftrightarrow> (\<exists>k. bit (w AND m) k)" by (rule nonzero_bit)
  then show ?thesis unfolding bit_and_iff m by auto
qed

lemma can_lld_is_tx_empty_iff:
  "can_lld_is_tx_empty mailbox s \<longleftrightarrow>
     (if mailbox = 0 then \<exists>n < 3. mailbox_empty s n else mailbox \<le> 3 \<and> mailbox_empty s (mailbox - 1))"
  unfolding can_lld_is_tx_empty_def CAN_ANY_MAILBOX_def TSR_TME
    and_single [OF bit_26] and_single [OF bit_27] and_single [OF bit_28]
  by (auto simp: bit_read_TSR not_le numeral_eq_Suc le_Suc_eq)

lemma TSR_CODE_eq:
  assumes "tx_code s (mailbox_empty s) < 3"
  shows "unat (drop_bit 24 (read_TSR s AND TSR_CODE)) = tx_code s (mailbox_empty s)"
proof -
  let ?c = "word_of_nat (tx_code s (mailbox_empty s)) :: 32 word"
  have m: "TSR_CODE = push_bit 24 3" by simp
  have "drop_bit 24 (read_TSR s AND TSR_CODE) = ?c AND 3"
  proof (rule bit_word_eqI)
    fix n
    show "bit (drop_bit 24 (read_TSR s AND TSR_CODE)) n \<longleftrightarrow> bit (?c AND 3) n"
      unfolding m bit_drop_bit_eq o_apply bit_and_iff bit_push_bit_iff bit_low_3
      by (auto simp: bit_read_TSR less_2_cases_iff)
  qed
  also have "\<dots> = ?c" using assms by (auto simp: less_Suc_eq numeral_3_eq_3)
  finally show ?thesis using assms by (simp add: unat_of_nat)
qed


section \<open>Frames are neither lost nor doubled\<close>

text \<open>All frames the driver ever handed over: sent, failed, and pending in a mailbox.\<close>

definition pending_mailboxes :: "CANDriver \<Rightarrow> can_mailbox multiset" where
  "pending_mailboxes s = image_mset (sTxMailBox s) (filter_mset (\<lambda>n. \<not> mailbox_empty s n) {#0, 1, 2#})"

definition traffic :: "CANDriver \<Rightarrow> can_mailbox multiset" where
  "traffic s = mset (bus s) + mset (failed s) + pending_mailboxes s"

lemma less_3: "n < 3 \<longleftrightarrow> n = 0 \<or> n = 1 \<or> n = (2 :: nat)"
  by auto

lemma traffic_write_mailbox:
  assumes "n < 3" "mailbox_empty s n" "bit (MIR m) 0"
  shows "traffic (write_mailbox n m s) = traffic s + {#m#}"
  using assms by (auto simp: less_3 traffic_def pending_mailboxes_def write_mailbox_def mailbox_empty_def)

text \<open>A mailbox that is done: its frame moves to one of the records.\<close>

lemma pending_mailbox_done:
  assumes "n < 3" "\<not> mailbox_empty s n"
  shows "pending_mailboxes s = add_mset (sTxMailBox s n) (pending_mailboxes (mailbox_done n r s))"
  using assms by (auto simp: less_3 pending_mailboxes_def mailbox_done_def mailbox_empty_def bit_simps)

text \<open>The fields of sending; most events leave them alone.\<close>

definition same_tx :: "CANDriver \<Rightarrow> CANDriver \<Rightarrow> bool" where
  "same_tx s s' \<longleftrightarrow> sTxMailBox s' = sTxMailBox s \<and> bus s' = bus s \<and> failed s' = failed s \<and> tx_code s' = tx_code s \<and>
     ev_self s' = ev_self s"

lemma same_tx_refl [simp]: "same_tx s s" by (simp add: same_tx_def)

lemma same_tx_trans: "same_tx s t \<Longrightarrow> same_tx t u \<Longrightarrow> same_tx s u" by (simp add: same_tx_def)

lemma same_tx_fields: "same_tx s s' \<Longrightarrow> traffic s' = traffic s \<and> (hw_code s' \<longleftrightarrow> hw_code s) \<and> mailbox_empty s' = mailbox_empty s"
  by (simp add: same_tx_def traffic_def pending_mailboxes_def mailbox_empty_def hw_code_def fun_eq_iff)

lemma can_step_total: "\<exists>s'. can_step e s = Inr s'"
  by (cases e) (auto simp: canSleep_def canWakeup_def canStop_def can_lld_stop_def)

lemma can_step_same_tx:
  assumes "can_step e s = Inr s'" "\<forall>n. e \<noteq> TxDone n" "\<forall>n r. e \<noteq> TxFail n r"
  shows "same_tx s s'"
  using assms
  by (cases e) (auto simp: same_tx_def fifo_arrive_def can_lld_rx0_handler_def can_lld_rx1_handler_def
      canSleep_def canWakeup_def canStop_def can_lld_stop_def can_lld_sleep_def can_lld_wakeup_def split: if_split_asm)

lemma can_step_traffic:
  assumes "can_step e s = Inr s'"
  shows "traffic s' = traffic s \<and> (hw_code s' \<longleftrightarrow> hw_code s) \<and> ev_self s' = ev_self s"
proof (cases "\<exists>n. e = TxDone n \<or> (\<exists>r. e = TxFail n r)")
  case False
  then have same: "same_tx s s'" using can_step_same_tx [OF assms] by blast
  have "ev_self s' = ev_self s" using same by (simp add: same_tx_def)
  then show ?thesis using same_tx_fields [OF same] by blast
next
  case True
  then obtain n r where e: "e = TxDone n \<or> e = TxFail n r" by blast
  have d: "bus (mailbox_done n q s) = bus s" "failed (mailbox_done n q s) = failed s" "tx_code (mailbox_done n q s) = tx_code s"
    "ev_self (mailbox_done n q s) = ev_self s" for q
    by (simp_all add: mailbox_done_def)
  have p: "pending_mailboxes (t\<lparr>bus := b\<rparr>) = pending_mailboxes t" "pending_mailboxes (t\<lparr>failed := b\<rparr>) = pending_mailboxes t" for t b
    by (simp_all add: pending_mailboxes_def mailbox_empty_def)
  show ?thesis
  proof (cases "n < 3 \<and> \<not> mailbox_empty s n")
    case True
    then have pm: "add_mset (sTxMailBox s n) (pending_mailboxes (mailbox_done n q s)) = pending_mailboxes s" for q
      using pending_mailbox_done [of n s q] by simp
    have *: "traffic ((mailbox_done n q s)\<lparr>bus := bus s @ [sTxMailBox s n]\<rparr>) = traffic s"
      "traffic ((mailbox_done n q s)\<lparr>failed := failed s @ [sTxMailBox s n]\<rparr>) = traffic s" for q
      using pm [of q] by (simp_all add: traffic_def p d)
    have h: "hw_code ((mailbox_done n q s)\<lparr>bus := b\<rparr>) = hw_code s" "hw_code ((mailbox_done n q s)\<lparr>failed := b\<rparr>) = hw_code s" for q b
      by (simp_all add: hw_code_def d)
    show ?thesis using e
    proof (elim disjE)
      assume "e = TxDone n"
      then have "s' = (mailbox_done n 2 s)\<lparr>bus := bus s @ [sTxMailBox s n]\<rparr>" using assms True by simp
      then show ?thesis using * h d by simp
    next
      assume "e = TxFail n r"
      then have "s' = (mailbox_done n (r AND 12) s)\<lparr>failed := failed s @ [sTxMailBox s n]\<rparr>" using assms True by simp
      then show ?thesis using * h d by simp
    qed
  next
    case False
    then show ?thesis using assms e by auto
  qed
qed


section \<open>Waiting for a mailbox\<close>

lemma traffic_queue [simp]: "traffic (s\<lparr>can_queue := q\<rparr>) = traffic s" "traffic (s\<lparr>ev_naps := ns\<rparr>) = traffic s"
  "hw_code (s\<lparr>can_queue := q\<rparr>) = hw_code s" "hw_code (s\<lparr>ev_naps := ns\<rparr>) = hw_code s"
  by (simp_all add: traffic_def pending_mailboxes_def mailbox_empty_def hw_code_def)

text \<open>The wait ends or blocks; it hands over no frame, and it succeeds only when the driver is no longer stuck.\<close>

lemma can_wait_traffic:
  assumes "\<And>t ns. stuck (t\<lparr>ev_naps := ns\<rparr>) \<longleftrightarrow> stuck t"
  shows "can_wait q stuck timeout asleep ns s = Inl Blocked \<or>
    (\<exists>m s'. can_wait q stuck timeout asleep ns s = Inr (m, s') \<and> traffic s' = traffic s \<and> (hw_code s' \<longleftrightarrow> hw_code s) \<and>
       (m = MSG_OK \<longrightarrow> \<not> stuck s'))"
  using assms
proof (induction q stuck timeout asleep ns s rule: can_wait.induct)
  case (4 q stuck timeout e ns s)
  obtain t where t: "can_step e s = Inr t" using can_step_total by blast
  show ?case
  proof (cases "ev_self t \<in> set (can_queue t q)")
    case True
    then show ?thesis using 4(1) [OF True 4(3)] t can_step_traffic [OF t] by simp
  next
    case False
    show ?thesis
    proof (cases "map_of (rev (can_readied t)) (ev_self t) = Some MSG_OK")
      case True
      then show ?thesis using False t 4(2) [OF False True] 4(3) can_step_traffic [OF t] by (simp del: can_wait.simps(1))
    next
      case no: False
      then show ?thesis
        using False t can_step_traffic [OF t]
        by (cases "map_of (rev (can_readied t)) (ev_self t)") (auto simp del: can_wait.simps(1))
    qed
  qed
qed (auto simp: msg_defs)


text \<open>
  C33. A call to send a frame ends with the frame in the controller exactly once, or, when it reports a timeout or a
  stop, not at all; no frame of an earlier call is overwritten, lost or doubled, whichever mailboxes finish or
  fail, whatever arrives, and whether the driver sleeps, wakes up or is stopped while the thread waits. The call
  fails no check and no assertion and never reaches behind the mailboxes; it may wait without end when it has no
  timeout.
\<close>

theorem canTransmitTimeout_exactly_once:
  assumes "hw_code s" "mailbox \<le> 3" "can_state s = CAN_READY \<or> can_state s = CAN_SLEEP"
  shows "canTransmitTimeout mailbox f timeout s = Inl Blocked \<or>
    (\<exists>m s'. canTransmitTimeout mailbox f timeout s = Inr (m, s') \<and>
       traffic s' = (if m = MSG_OK then add_mset (encode_frame f) (traffic s) else traffic s))"
proof -
  let ?stuck = "\<lambda>s. can_state s = CAN_SLEEP \<or> \<not> can_lld_is_tx_empty mailbox s"
  let ?w = "can_wait TxQueue ?stuck timeout False (ev_naps s) s"
  have c: "canTransmitTimeout mailbox f timeout s =
      bindE ?w (\<lambda>(m, s). if m \<noteq> MSG_OK then Inr (m, s) else bindE (can_lld_transmit mailbox f s) (\<lambda>s. Inr (MSG_OK, s)))"
    using assms(2,3) by (auto simp: canTransmitTimeout_def CAN_TX_MAILBOXES_def)
  have "?stuck (t\<lparr>ev_naps := ns\<rparr>) \<longleftrightarrow> ?stuck t" for t ns
    by (simp add: can_lld_is_tx_empty_iff mailbox_empty_def)
  from can_wait_traffic [of ?stuck TxQueue timeout False "ev_naps s" s, OF this]
  consider "?w = Inl Blocked" | m s' where "?w = Inr (m, s')" "traffic s' = traffic s" "hw_code s'" "m \<noteq> MSG_OK"
    | s' where "?w = Inr (MSG_OK, s')" "traffic s' = traffic s" "hw_code s'" "\<not> ?stuck s'"
    using assms(1) by blast
  then show ?thesis
  proof cases
    case 3
    have bit0: "bit (MIR (encode_frame f)) 0" by (simp add: bit_or_iff)
    define n where "n = (if mailbox = 0 then tx_code s' (mailbox_empty s') else mailbox - 1)"
    have n: "n < 3" "mailbox_empty s' n"
      using 3(3,4) assms(2) unfolding n_def can_lld_is_tx_empty_iff hw_code_def by (auto split: if_splits)
    have "can_lld_transmit mailbox f s' = Inr (write_mailbox n (encode_frame f) s')"
    proof (cases "mailbox = 0")
      case True
      then show ?thesis using n TSR_CODE_eq [of s'] by (simp add: can_lld_transmit_def CAN_ANY_MAILBOX_def n_def)
    next
      case False
      then have "mailbox = 1 \<or> mailbox = 2 \<or> mailbox = 3" using assms(2) by auto
      then show ?thesis by (auto simp: can_lld_transmit_def CAN_ANY_MAILBOX_def n_def)
    qed
    then show ?thesis using 3 traffic_write_mailbox [OF n bit0] by (simp add: c)
  qed (simp_all add: c)
qed


text \<open>The driver object in cleared memory, with a controller that offers the lowest empty mailbox.\<close>

definition can_power_on :: "can_event nap list \<Rightarrow> CANDriver" where
  "can_power_on ns = \<lparr>ev_threads = (\<lambda>_. \<lparr>epending = 0, ewait = Running\<rparr>), ev_self = 5, ev_naps = ns,
     can_state = CAN_UNINIT, can_config = None, can_queue = (\<lambda>_. []), can_events = (\<lambda>_. []), can_readied = [],
     cand2_state = CAN_STOP, MCR = 0x00010002, MSR = 0, TSR_flags = 0, IER = 0, ESR = 0, BTR = 0,
     sTxMailBox = (\<lambda>_. \<lparr>MIR = 0, MDTR = 0, MDLR = 0, MDHR = 0\<rparr>), tx_code = (\<lambda>p. if p 0 then 0 else if p 1 then 1 else 2),
     fifo = (\<lambda>_. []), FOVR = (\<lambda>_. False), FMR = 0, FM1R = 0, FS1R = 0, FFA1R = 0, FA1R = 0,
     FR1 = (\<lambda>_. 0), FR2 = (\<lambda>_. 0), bus = [], failed = []\<rparr>"

lemma hw_code_power_on: "tx_code s = (\<lambda>p. if p 0 then 0 else if p 1 then 1 else 2) \<Longrightarrow> hw_code s"
  by (auto simp: hw_code_def less_3)

text \<open>All three mailboxes are pending; while the thread waits, the second is sent and its interrupt served.\<close>

definition busy_can :: CANDriver where
  "busy_can = (can_power_on [Ev (TxDone 1), Ev IrqTx, Expire])\<lparr>can_state := CAN_READY, IER := CAN_IER_START,
     sTxMailBox := (\<lambda>n. \<lparr>MIR = 1, MDTR = word_of_nat n, MDLR = 0, MDHR = 0\<rparr>)\<rparr>"

lemma all_3: "(\<forall>n < 3. P n) \<longleftrightarrow> P 0 \<and> P 1 \<and> P (2 :: nat)"
  unfolding less_3 by auto

theorem canTransmitTimeout_exactly_once_witness:
  "\<exists>s'. canTransmitTimeout 0 demo_frame 100 busy_can = Inr (MSG_OK, s') \<and> sTxMailBox s' 1 = encode_frame demo_frame \<and>
     bus s' = [sTxMailBox busy_can 1] \<and> ev_naps s' = [Expire] \<and>
     traffic s' = add_mset (encode_frame demo_frame) (traffic busy_can)"
proof -
  have h: "hw_code busy_can" by (intro hw_code_power_on) (simp add: busy_can_def can_power_on_def)
  obtain s' where s': "canTransmitTimeout 0 demo_frame 100 busy_can = Inr (MSG_OK, s')" "sTxMailBox s' 1 = encode_frame demo_frame"
      "bus s' = [sTxMailBox busy_can 1]" "ev_naps s' = [Expire]"
    by (simp add: canTransmitTimeout_def can_consts can_lld_is_tx_empty_iff busy_can_def can_power_on_def mailbox_empty_def
        TIME_IMMEDIATE_def all_3 mailbox_done_def CAN_IER_START_def can_lld_tx_handler_def can_isr_defs can_dequeue_all_def
        can_broadcast_def can_lld_transmit_def read_TSR_def write_TSR_def write_mailbox_def Let_def)
  then show ?thesis
    using canTransmitTimeout_exactly_once [OF h, of 0 demo_frame 100] by (simp add: busy_can_def)
qed

section \<open>Waking up\<close>

text \<open>A thread in the queue of senders, while no mailbox is in use.\<close>

definition forgotten :: "CANDriver \<Rightarrow> bool" where
  "forgotten s \<longleftrightarrow> (\<forall>n < 3. mailbox_empty s n) \<and> TSR_flags s AND 0x00010101 = 0 \<and> ev_self s \<in> set (can_queue s TxQueue)"

lemma forgotten_step:
  assumes "forgotten s" "can_step e s = Inr s'" "e \<noteq> CallStop"
  shows "forgotten s'"
  using assms
  by (cases e)
    (auto simp: forgotten_def mailbox_empty_def fifo_arrive_def can_lld_rx0_handler_def can_lld_rx1_handler_def
      canSleep_def canWakeup_def can_lld_sleep_def can_lld_wakeup_def split: if_split_asm)

lemma forgotten_waits:
  assumes "forgotten s" "CallStop \<notin> set es"
  shows "can_wait TxQueue stuck TIME_INFINITE True (map Ev es) s = Inl Blocked"
  using assms
proof (induction es arbitrary: s)
  case (Cons e es)
  obtain t where t: "can_step e s = Inr t" using can_step_total by blast
  then have "forgotten t" using forgotten_step [OF Cons.prems(1)] Cons.prems(2) by auto
  then show ?case using Cons t by (simp add: forgotten_def)
qed simp


text \<open>
  C34. A thread that wants to send while the driver sleeps is not told when it wakes up. In sleep mode
  \<^verbatim>\<open>canTransmitTimeout\<close> queues the thread even though all mailboxes are empty. When the driver leaves sleep mode,
  by \<^verbatim>\<open>canWakeup\<close> of another thread or by the wakeup interrupt, it is ready and could send at once, but neither
  takes the thread out of the queue; only an interrupt of a transmission would, and there is none. Without a timeout
  the call never returns, whatever the controller reports and however often other threads put the driver to sleep and wake
  it, as long as nobody stops it or sends a frame.
\<close>

theorem sleeping_sender_is_forgotten:
  assumes "can_state s = CAN_SLEEP" "\<forall>n < 3. mailbox_empty s n" "TSR_flags s AND 0x00010101 = 0"
    and "ws = [CallWakeup] \<or> ws = [BusWake, IrqSce] \<and> bit (IER s) 16"
    and "CallStop \<notin> set es" "mailbox \<le> 3"
  shows "\<exists>t. run_ops can_step ws s = Inr t \<and> can_state t = CAN_READY \<and> can_lld_is_tx_empty mailbox t \<and>
    canTransmitTimeout mailbox f TIME_INFINITE (s\<lparr>ev_naps := map Ev (ws @ es)\<rparr>) = Inl Blocked"
proof -
  let ?s = "s\<lparr>ev_naps := map Ev (ws @ es)\<rparr>"
  let ?q = "?s\<lparr>can_queue := (can_queue ?s)(TxQueue := can_queue ?s TxQueue @ [ev_self ?s])\<rparr>"
  have "forgotten ?q" using assms(2,3) by (simp add: forgotten_def mailbox_empty_def)
  moreover have "CallStop \<notin> set (ws @ es)" using assms(4,5) by auto
  ultimately have "can_wait TxQueue stuck TIME_INFINITE True (map Ev (ws @ es)) ?q = Inl Blocked" for stuck
    by (rule forgotten_waits)
  then have "canTransmitTimeout mailbox f TIME_INFINITE ?s = Inl Blocked"
    using assms(1,6)
    by (simp add: canTransmitTimeout_def CAN_TX_MAILBOXES_def TIME_INFINITE_def TIME_IMMEDIATE_def del: map_append can_wait.simps(3,4))
  moreover have "\<exists>t. run_ops can_step ws s = Inr t \<and> can_state t = CAN_READY \<and> mailbox_empty t = mailbox_empty s"
    using assms(4)
  proof (elim disjE conjE)
    assume "ws = [CallWakeup]"
    then show ?thesis using assms(1) by (simp add: canWakeup_def can_lld_wakeup_def mailbox_empty_def fun_eq_iff)
  next
    assume "ws = [BusWake, IrqSce]" "bit (IER s) 16"
    moreover have "bit (MSR s OR 8) 3" "(MSR s OR 8) AND 8 \<noteq> 0"
      using and_single [of 8 3 "MSR s OR 8"] bit_EVENT_MASK [of 3] by (simp_all add: EVENT_MASK_def bit_or_iff)
    moreover have "can_state (can_lld_sce_handler t) = CAN_READY" if "MSR t AND 8 \<noteq> 0" for t
      using that by (simp add: can_lld_sce_handler_def can_isr_defs Let_def)
    ultimately show ?thesis by (simp add: mailbox_empty_def fun_eq_iff)
  qed
  moreover have "can_lld_is_tx_empty mailbox t" if "mailbox_empty t = mailbox_empty s" for t
    using assms(2,6) that unfolding can_lld_is_tx_empty_iff by (auto intro: exI [of _ 0])
  ultimately show ?thesis by blast
qed


theorem sleeping_sender_is_forgotten_witness:
  "let s = (can_power_on [])\<lparr>can_state := CAN_SLEEP, IER := CAN_IER_START\<rparr>; es = [IrqTx, RxFrame 0 (encode_frame demo_frame), IrqRx0]
   in (\<exists>t. run_ops can_step [BusWake, IrqSce] s = Inr t \<and> can_state t = CAN_READY \<and> can_lld_is_tx_empty 0 t) \<and>
     canTransmitTimeout 0 demo_frame TIME_INFINITE (s\<lparr>ev_naps := map Ev ([BusWake, IrqSce] @ es)\<rparr>) = Inl Blocked"
proof -
  let ?s = "(can_power_on [])\<lparr>can_state := CAN_SLEEP, IER := CAN_IER_START\<rparr>"
  let ?es = "[IrqTx, RxFrame 0 (encode_frame demo_frame), IrqRx0]"
  have 1: "can_state ?s = CAN_SLEEP" "\<forall>n < 3. mailbox_empty ?s n" "TSR_flags ?s AND 0x00010101 = 0"
    by (simp_all add: can_power_on_def mailbox_empty_def)
  have 2: "[BusWake, IrqSce] = [CallWakeup] \<or> [BusWake, IrqSce] = [BusWake, IrqSce] \<and> bit (IER ?s) 16"
    by (simp add: CAN_IER_START_def)
  have 3: "CallStop \<notin> set ?es" "(0 :: nat) \<le> 3" by simp_all
  show ?thesis unfolding Let_def using sleeping_sender_is_forgotten [OF 1 2 3, of demo_frame] by blast
qed

end
