(* ===== verification/CanRx.thy ===== *)
theory CanRx
  imports CanSend SduNode
begin

text \<open>
  The two CAN threads of \<^verbatim>\<open>src/src/main.c\<close>. The receiver registers for the event of a nonempty FIFO and then
  waits for it and drains the FIFOs, toggling a LED for each frame. The driver disables the interrupt of a FIFO when it
  broadcasts the event and enables it again when the FIFO has been emptied, so the receiver depends on hearing
  every broadcast.
\<close>

section \<open>The threads\<close>

definition can_rx_register :: "CANDriver \<Rightarrow> CANDriver" where
  "can_rx_register s = s\<lparr>can_events := (can_events s)(RxfullEvent := chEvtRegister (ev_self s) 0 (can_events s RxfullEvent))\<rparr>"

lemma can_receive_now:
  "canReceiveTimeout 0 f TIME_IMMEDIATE s =
     dbgAssert ''invalid state'' (can_state s = CAN_READY \<or> can_state s = CAN_SLEEP)
       (if can_state s = CAN_SLEEP \<or> \<not> can_lld_is_rx_nonempty 0 s then Inr (MSG_TIMEOUT, f, s)
        else Inr (MSG_OK, can_lld_receive 0 f s))"
  by (simp add: canReceiveTimeout_def CAN_RX_MAILBOXES_def dbgAssert_def msg_defs)

lemma FMP_nonempty: "read_RFR n s AND 3 \<noteq> 0 \<Longrightarrow> fifo s n \<noteq> []"
  by (auto simp: read_RFR_def split: if_splits)

lemma FMP_iff: "length (fifo s n) \<le> 3 \<Longrightarrow> read_RFR n s AND 3 \<noteq> 0 \<longleftrightarrow> fifo s n \<noteq> []"
proof -
  assume "length (fifo s n) \<le> 3"
  moreover obtain k where k: "length (fifo s n) = k" by simp
  ultimately have "k = 0 \<or> k = 1 \<or> k = 2 \<or> k = 3" by presburger
  moreover have "fifo s n \<noteq> [] \<longleftrightarrow> k \<noteq> 0" using k by auto
  ultimately show ?thesis unfolding read_RFR_def k by auto
qed

text \<open>\<open>rx_next\<close> is the FIFO a receive from any mailbox takes the next frame from.\<close>

definition rx_next :: "CANDriver \<Rightarrow> nat" where
  "rx_next s = (if read_RFR 0 s AND 3 \<noteq> 0 then 0 else 1)"

lemma can_lld_receive_any:
  "can_lld_is_rx_nonempty 0 s \<Longrightarrow> can_lld_receive 0 f s = fetch (rx_next s) f s"
  by (auto simp: can_lld_is_rx_nonempty_def can_lld_receive_def rx_next_def CAN_ANY_MAILBOX_def)

lemma rx_next: "can_lld_is_rx_nonempty 0 s \<Longrightarrow> rx_next s < 2 \<and> fifo s (rx_next s) \<noteq> []"
  using FMP_nonempty by (auto simp: can_lld_is_rx_nonempty_def rx_next_def CAN_ANY_MAILBOX_def)

lemma fetch_fields [simp]:
  "fifo (snd (fetch n f s)) = (fifo s)(n := tl (fifo s n))"
  "can_state (snd (fetch n f s)) = can_state s" "can_events (snd (fetch n f s)) = can_events s"
  "ev_threads (snd (fetch n f s)) = ev_threads s" "ev_self (snd (fetch n f s)) = ev_self s"
  "ev_naps (snd (fetch n f s)) = ev_naps s" "FOVR (snd (fetch n f s)) = FOVR s"
proof -
  have "bit (32 :: 32 word) 5" "\<not> bit (32 :: 32 word) 4"
    using bit_EVENT_MASK [of 5 5] bit_EVENT_MASK [of 5 4] by (simp_all add: EVENT_MASK_def)
  then show "fifo (snd (fetch n f s)) = (fifo s)(n := tl (fifo s n))"
    "can_state (snd (fetch n f s)) = can_state s" "can_events (snd (fetch n f s)) = can_events s"
    "ev_threads (snd (fetch n f s)) = ev_threads s" "ev_self (snd (fetch n f s)) = ev_self s"
    "ev_naps (snd (fetch n f s)) = ev_naps s" "FOVR (snd (fetch n f s)) = FOVR s"
    by (simp_all add: fetch_def Let_def write_RFR_def)
qed

definition frames_left :: "CANDriver \<Rightarrow> nat" where
  "frames_left s = length (fifo s 0) + length (fifo s 1)"

lemma frames_left_receive:
  assumes "can_lld_is_rx_nonempty 0 s"
  shows "frames_left (snd (can_lld_receive 0 f s)) < frames_left s"
proof -
  have "rx_next s < 2" "fifo s (rx_next s) \<noteq> []" using rx_next [OF assms] by auto
  then show ?thesis
    by (cases "fifo s (rx_next s)") (auto simp: can_lld_receive_any [OF assms] frames_left_def less_2_cases_iff)
qed

text \<open>
  The loop over the messages: \<^verbatim>\<open>canReceive\<close> without waiting, then the LED. \<open>gaps\<close> are the events between
  two turns of the loop. The result lists the frames received.
\<close>

definition gap :: "can_event list list \<Rightarrow> can_op" where
  "gap gaps s = (case gaps of [] \<Rightarrow> Inr s | es # _ \<Rightarrow> run_ops can_step es s)"

function can_rx_drain :: "can_event list list \<Rightarrow> CANRxFrame \<Rightarrow> gpio \<Rightarrow> CANDriver \<Rightarrow> (CANRxFrame list \<times> gpio \<times> CANDriver) result" where
  "can_rx_drain gaps rxmsg g s =
     (case canReceiveTimeout CAN_ANY_MAILBOX rxmsg TIME_IMMEDIATE s of
        Inl e \<Rightarrow> Inl e
      | Inr (m, rxmsg, s) \<Rightarrow>
          if m \<noteq> MSG_OK then Inr ([], g, s)
          else case gap gaps s of
            Inl e \<Rightarrow> Inl e
          | Inr s \<Rightarrow> (case can_rx_drain (tl gaps) rxmsg (palTogglePad g GPIOD 13) s of
              Inl e \<Rightarrow> Inl e
            | Inr (fs, r) \<Rightarrow> Inr (rxmsg # fs, r)))"
  by pat_completeness auto
termination
proof (relation "measures [\<lambda>(gaps, _, _, s). length gaps, \<lambda>(gaps, _, _, s). frames_left s]", goal_cases)
  case (2 gaps rxmsg g s a m c f t u)
  then have "can_lld_is_rx_nonempty 0 s" "(f, t) = can_lld_receive 0 rxmsg s"
    by (auto simp: can_receive_now CAN_ANY_MAILBOX_def dbgAssert_def msg_defs split: if_splits)
  then have "frames_left t < frames_left s" using frames_left_receive [of s rxmsg] by (metis snd_conv)
  then show ?case using 2 by (cases gaps) (auto simp: gap_def)
qed simp

declare can_rx_drain.simps [simp del]

text \<open>One turn of the receiver: \<^verbatim>\<open>continue\<close> is a turn without a frame.\<close>

definition can_rx_turn :: "can_event list list \<Rightarrow> CANRxFrame \<Rightarrow> gpio \<Rightarrow> CANDriver \<Rightarrow> (CANRxFrame list \<times> gpio \<times> CANDriver) result" where
  "can_rx_turn gaps rxmsg g s =
     bindE (chEvtWaitAnyTimeout can_step ALL_EVENTS (TIME_MS2I 100) s) (\<lambda>(m, s).
       if m = 0 then Inr ([], g, s) else can_rx_drain gaps rxmsg g s)"

text \<open>Some turns of the endless loop.\<close>

fun can_rx_turns :: "nat \<Rightarrow> CANRxFrame \<Rightarrow> gpio \<Rightarrow> CANDriver \<Rightarrow> (CANRxFrame list \<times> gpio \<times> CANDriver) result" where
  "can_rx_turns 0 rxmsg g s = Inr ([], g, s)"
| "can_rx_turns (Suc n) rxmsg g s =
     bindE (can_rx_turn [] rxmsg g s) (\<lambda>(fs, g, s).
       bindE (can_rx_turns n (last (rxmsg # fs)) g s) (\<lambda>(fs', r). Inr (fs @ fs', r)))"

text \<open>One turn of the transmitter; the fifty milliseconds of sleep are not part of the driver.\<close>

definition can_tx_msg :: CANTxFrame where
  "can_tx_msg = \<lparr>tx_DLC = 8, tx_RTR = 0, tx_IDE = 1, tx_ID = 0x01234567, tx_data32 = (0x55AA55AA, 0x00FF00FF)\<rparr>"

definition can_tx_turn :: "CANDriver \<Rightarrow> (msg \<times> CANDriver) result" where
  "can_tx_turn s = canTransmitTimeout CAN_ANY_MAILBOX can_tx_msg (TIME_MS2I 100) s"


section \<open>The receiver is not deaf\<close>

text \<open>
  The receiver is registered, the driver is awake, and of each FIFO the interrupt is enabled, unless there is a frame in
  it and the event is already pending, or, if \<open>b\<close>, the receiver is about to read it.
\<close>

definition rx_ok :: "bool \<Rightarrow> CANDriver \<Rightarrow> bool" where
  "rx_ok b s \<longleftrightarrow> hears (ev_self s) (can_events s RxfullEvent) \<and> can_state s = CAN_READY \<and>
     (\<forall>n < 2. length (fifo s n) \<le> 3 \<and> (IER s AND IER_FMPIE n \<noteq> 0 \<or> fifo s n \<noteq> [] \<and> (b \<or> pending s \<noteq> 0)))"

lemma can_broadcast_threads:
  "ev_threads (can_broadcast src flags s) = snd (chEvtBroadcastFlagsI flags (can_events s src) (ev_threads s))"
  "can_events (can_broadcast src flags s) =
     (can_events s)(src := fst (chEvtBroadcastFlagsI flags (can_events s src) (ev_threads s)))"
  by (simp_all add: can_broadcast_def split: prod.split)

lemma hears_can_broadcast [simp]:
  "hears t (can_events (can_broadcast src flags s) src') \<longleftrightarrow> hears t (can_events s src')"
  by (simp add: can_broadcast_threads)

lemma pending_can_broadcast:
  "pending s \<noteq> 0 \<Longrightarrow> pending (can_broadcast src flags s) \<noteq> 0"
  "hears (ev_self s) (can_events s src) \<Longrightarrow> flags \<noteq> 0 \<Longrightarrow> pending (can_broadcast src flags s) \<noteq> 0"
  unfolding pending_def can_broadcast_threads can_broadcast_fields
  by (rule broadcast_pending_mono, assumption) (rule broadcast_heard)

lemma closed_can_broadcast:
  "signal_closed P \<Longrightarrow> P (ev_threads s t) \<Longrightarrow> P (ev_threads (can_broadcast src flags s) t)"
  unfolding can_broadcast_threads by (rule signal_closed_broadcast)

lemma rx_ok_broadcast: "rx_ok b s \<Longrightarrow> rx_ok b (can_broadcast src flags s)"
  using pending_can_broadcast(1) [of s src flags] by (auto simp: rx_ok_def)

lemma pending_dequeue [simp]: "pending (can_dequeue_all q m s) = pending s" "pending (write_RFR n v s) = pending s"
  "pending (write_TSR v s) = pending s" "pending (write_MSR v s) = pending s"
  by (simp_all add: pending_def)

lemma rx_ok_dequeue [simp]: "rx_ok b (can_dequeue_all q m s) = rx_ok b s" "rx_ok b (write_TSR v s) = rx_ok b s" "rx_ok b (write_MSR v s) = rx_ok b s"
  by (simp_all add: rx_ok_def)

lemma rx_ok_fifo:
  "rx_ok b s \<Longrightarrow> fifo s' = fifo s \<Longrightarrow> IER s' = IER s \<Longrightarrow> ev_threads s' = ev_threads s \<Longrightarrow> ev_self s' = ev_self s \<Longrightarrow>
   can_events s' = can_events s \<Longrightarrow> can_state s' = CAN_READY \<Longrightarrow> rx_ok b s'"
  by (simp add: rx_ok_def pending_def)

lemma FMPIE_bit: "w AND IER_FMPIE n \<noteq> 0 \<longleftrightarrow> bit w (if n = 0 then 1 else 4)"
  using and_EVENT_MASK [of 1 w] and_EVENT_MASK [of 4 w] by (simp add: IER_FMPIE_def EVENT_MASK_def)

lemma FMPIE_disable:
  "k < 2 \<Longrightarrow> n < 2 \<Longrightarrow> k \<noteq> n \<Longrightarrow> (w AND NOT (IER_FMPIE n)) AND IER_FMPIE k \<noteq> 0 \<longleftrightarrow> w AND IER_FMPIE k \<noteq> 0"
  using bit_EVENT_MASK [of 1] bit_EVENT_MASK [of 4]
  unfolding FMPIE_bit by (auto simp: bit_and_iff bit_not_iff less_2_cases_iff IER_FMPIE_def EVENT_MASK_def)

lemma MAILBOX_MASK_nz: "n < 2 \<Longrightarrow> CAN_MAILBOX_TO_MASK (n + 1) \<noteq> 0"
  by (auto simp: CAN_MAILBOX_TO_MASK_def less_2_cases_iff)

text \<open>The interrupt of a FIFO.\<close>

lemma rx_pending_ok:
  assumes ok: "rx_ok b s" and n: "n < 2"
  shows "rx_ok b (rx_pending n s)" "fifo s n \<noteq> [] \<Longrightarrow> pending (rx_pending n s) \<noteq> 0"
proof -
  let ?b = "can_rx_full_isr (CAN_MAILBOX_TO_MASK (n + 1)) (s\<lparr>IER := IER s AND NOT (IER_FMPIE n)\<rparr>)"
  let ?t = "if read_RFR n s AND 3 > 0 then ?b else s"
  have h: "pending ?b \<noteq> 0"
    unfolding can_rx_full_isr_def
    by (rule pending_can_broadcast(2)) (use ok MAILBOX_MASK_nz [OF n] in \<open>simp_all add: rx_ok_def\<close>)
  have t: "rx_ok b ?t"
  proof (cases "read_RFR n s AND 3 > 0")
    case True
    then have "fifo s n \<noteq> []" using FMP_nonempty [of n s] by (simp add: word_greater_zero_iff)
    moreover have "(IER s AND NOT (IER_FMPIE n)) AND IER_FMPIE k \<noteq> 0 \<or> fifo s k \<noteq> []" if "k < 2" "k \<noteq> n" for k
      using FMPIE_disable [OF that(1) n that(2), of "IER s"] ok that(1) by (auto simp: rx_ok_def)
    ultimately have "rx_ok b ?b" using ok h by (auto simp: rx_ok_def can_rx_full_isr_def)
    then show ?thesis using True by simp
  qed (use ok in simp)
  have fin: "rx_pending n s = (if read_RFR n s AND 16 > 0 then can_broadcast ErrorEvent CAN_OVERFLOW_ERROR (write_RFR n 16 ?t) else ?t)"
    by (simp add: rx_pending_def Let_def can_error_isr_def)
  have w: "rx_ok b (write_RFR n 16 u)" if "rx_ok b u" for u
  proof (rule rx_ok_fifo [OF that])
    show "fifo (write_RFR n 16 u) = fifo u"
      using bit_EVENT_MASK [of 4 5] by (simp add: write_RFR_def EVENT_MASK_def)
  qed (use that in \<open>simp_all add: rx_ok_def\<close>)
  show "rx_ok b (rx_pending n s)" unfolding fin using rx_ok_broadcast [OF w [OF t]] t by simp
  assume "fifo s n \<noteq> []"
  then have "read_RFR n s AND 3 > 0" using FMP_iff [of s n] ok n by (simp add: rx_ok_def word_greater_zero_iff)
  then have "pending ?t \<noteq> 0" using h by simp
  then show "pending (rx_pending n s) \<noteq> 0" unfolding fin using pending_can_broadcast(1) by simp
qed


text \<open>Events of the controller and other threads that leave the driver awake and started.\<close>

definition quiet :: "can_event \<Rightarrow> bool" where
  "quiet e \<longleftrightarrow> e \<noteq> CallSleep \<and> e \<noteq> CallStop"

definition irq_rx :: "nat \<Rightarrow> can_event" where
  "irq_rx n = (if n = 0 then IrqRx0 else IrqRx1)"

lemma rx_ok_arrive:
  assumes "rx_ok b s" "n < 2"
  shows "rx_ok b (fifo_arrive n m s)" "ev_threads (fifo_arrive n m s) = ev_threads s" "ev_self (fifo_arrive n m s) = ev_self s"
    "fifo s k \<noteq> [] \<Longrightarrow> fifo (fifo_arrive n m s) k \<noteq> []"
  using assms by (auto simp: rx_ok_def fifo_arrive_def pending_def)

lemma closed_handlers:
  assumes "signal_closed P" "P (ev_threads s t)"
  shows "P (ev_threads (rx_pending n s) t)" "P (ev_threads (can_lld_tx_handler s) t)"
    "P (ev_threads (can_lld_sce_handler s) t)"
  using assms
  by (simp_all add: rx_pending_def can_lld_tx_handler_def can_lld_sce_handler_def can_isr_defs Let_def
      closed_can_broadcast [OF assms(1)])

lemma rx_ok_handlers:
  assumes "rx_ok b s"
  shows "rx_ok b (can_lld_tx_handler s)" "rx_ok b (can_lld_sce_handler s)"
proof -
  show "rx_ok b (can_lld_tx_handler s)"
    using assms by (simp add: can_lld_tx_handler_def can_isr_defs Let_def rx_ok_broadcast)
  have "rx_ok b ((write_MSR v s)\<lparr>can_state := CAN_READY, MCR := w\<rparr>)" for v w
    by (rule rx_ok_fifo [OF assms]) simp_all
  then show "rx_ok b (can_lld_sce_handler s)"
    using assms by (simp add: can_lld_sce_handler_def can_isr_defs Let_def rx_ok_broadcast)
qed

lemma pending_handlers:
  assumes "pending s \<noteq> 0"
  shows "pending (rx_pending n s) \<noteq> 0" "pending (can_lld_tx_handler s) \<noteq> 0" "pending (can_lld_sce_handler s) \<noteq> 0"
proof -
  have b: "pending (can_broadcast src flags u) \<noteq> 0" if "pending u \<noteq> 0" for src flags u
    using that by (rule pending_can_broadcast(1))
  have p: "pending (s\<lparr>IER := i\<rparr>) = pending s" "pending ((write_MSR v s)\<lparr>can_state := c, MCR := w\<rparr>) = pending s" for i v w c
    by (simp_all add: pending_def)
  show "pending (rx_pending n s) \<noteq> 0" "pending (can_lld_tx_handler s) \<noteq> 0" "pending (can_lld_sce_handler s) \<noteq> 0"
    using assms by (simp_all add: rx_pending_def can_lld_tx_handler_def can_lld_sce_handler_def can_isr_defs Let_def b p)
qed

text \<open>One step of the rest of the system, as far as the receiver is concerned.\<close>

definition rx_step :: "bool \<Rightarrow> CANDriver \<Rightarrow> CANDriver \<Rightarrow> bool" where
  "rx_step b s s' \<longleftrightarrow> rx_ok b s' \<and> ev_self s' = ev_self s \<and> (pending s \<noteq> 0 \<longrightarrow> pending s' \<noteq> 0) \<and>
     (\<forall>P. signal_closed P \<longrightarrow> P (ev_threads s (ev_self s)) \<longrightarrow> P (ev_threads s' (ev_self s))) \<and>
     (\<forall>k. fifo s k \<noteq> [] \<longrightarrow> fifo s' k \<noteq> [])"

lemma rx_step_same:
  "rx_ok b s \<Longrightarrow> fifo s' = fifo s \<Longrightarrow> IER s' = IER s \<Longrightarrow> ev_threads s' = ev_threads s \<Longrightarrow> ev_self s' = ev_self s \<Longrightarrow>
   can_events s' = can_events s \<Longrightarrow> can_state s' = CAN_READY \<Longrightarrow> rx_step b s s'"
  using rx_ok_fifo [of b s s'] by (simp add: rx_step_def pending_def)

lemma rx_step_handlers:
  assumes "rx_ok b s"
  shows "n < 2 \<Longrightarrow> rx_step b s (rx_pending n s)" "rx_step b s (can_lld_tx_handler s)" "rx_step b s (can_lld_sce_handler s)"
proof -
  have f: "fifo (rx_pending n s) = fifo s"
    using bit_EVENT_MASK [of 4 5] by (simp add: rx_pending_def can_isr_defs Let_def write_RFR_def EVENT_MASK_def)
  show "rx_step b s (rx_pending n s)" if "n < 2"
    unfolding rx_step_def f using rx_pending_ok(1) [OF assms that] pending_handlers(1) by (auto intro: closed_handlers)
  show "rx_step b s (can_lld_tx_handler s)"
    unfolding rx_step_def using rx_ok_handlers(1) [OF assms] pending_handlers(2) by (auto intro: closed_handlers)
  show "rx_step b s (can_lld_sce_handler s)"
    unfolding rx_step_def using rx_ok_handlers(2) [OF assms] pending_handlers(3) by (auto intro: closed_handlers)
qed

lemma quiet_rx_step:
  assumes step: "can_step e s = Inr s'" and e: "quiet e" and ok: "rx_ok b s"
  shows "rx_step b s s'"
proof -
  note ready = ok [unfolded rx_ok_def, THEN conjunct2, THEN conjunct1]
  have refl: "rx_step b s s" by (rule rx_step_same [OF ok]) (simp_all add: ready)
  show ?thesis
  proof (cases e)
    case (RxFrame n m)
    then show ?thesis using step refl rx_ok_arrive [OF ok, where n = n and m = m] by (cases "n < 2") (auto simp: rx_step_def pending_def)
  next
    case IrqRx0
    then show ?thesis using step refl rx_step_handlers(1) [OF ok, of 0] by (auto simp: can_lld_rx0_handler_def split: if_splits)
  next
    case IrqRx1
    then show ?thesis using step refl rx_step_handlers(1) [OF ok, of 1] by (auto simp: can_lld_rx1_handler_def split: if_splits)
  next
    case IrqTx
    then show ?thesis using step refl rx_step_handlers(2) [OF ok] by (auto split: if_splits)
  next
    case IrqSce
    then show ?thesis using step refl rx_step_handlers(3) [OF ok] by (auto split: if_splits)
  qed (use step e ready refl in \<open>auto simp: quiet_def mailbox_done_def intro!: rx_step_same [OF ok] split: if_splits\<close>)
qed

text \<open>The interrupt of a FIFO with a frame makes the event pending, if it is not yet.\<close>

lemma irq_rx_pending:
  assumes step: "can_step (irq_rx k) s = Inr s'" and ok: "rx_ok False s" and k: "k < 2" "fifo s k \<noteq> []"
  shows "pending s' \<noteq> 0"
proof (cases "IER s AND IER_FMPIE k \<noteq> 0")
  case True
  then have "s' = rx_pending k s"
    using step k by (auto simp: irq_rx_def less_2_cases_iff can_lld_rx0_handler_def can_lld_rx1_handler_def)
  then show ?thesis using rx_pending_ok(2) [OF ok k] by simp
next
  case False
  then have "pending s \<noteq> 0" using ok k by (auto simp: rx_ok_def)
  moreover have "quiet (irq_rx k)" by (simp add: quiet_def irq_rx_def)
  ultimately show ?thesis using quiet_rx_step [OF step _ ok] by (simp add: rx_step_def)
qed


text \<open>Any number of quiet events between two turns of the loop.\<close>

lemma rx_step_closed:
  "rx_step b s t \<Longrightarrow> signal_closed P \<Longrightarrow> P (ev_threads s (ev_self s)) \<Longrightarrow> P (ev_threads t (ev_self s))"
  unfolding rx_step_def by blast

lemma rx_step_trans: "rx_step b s t \<Longrightarrow> rx_step b t u \<Longrightarrow> rx_step b s u"
  unfolding rx_step_def by auto

lemma run_quiet:
  assumes "list_all quiet es" "rx_ok b s"
  shows "\<exists>s'. run_ops can_step es s = Inr s' \<and> rx_step b s s'"
  using assms
proof (induction es arbitrary: s)
  case Nil
  then show ?case by (auto intro!: rx_step_same simp: rx_ok_def)
next
  case (Cons e es)
  obtain t where t: "can_step e s = Inr t" using can_step_total by blast
  then have st: "rx_step b s t" using quiet_rx_step [OF t] Cons.prems by simp
  moreover have "rx_ok b t" using st by (simp add: rx_step_def)
  ultimately obtain u where "run_ops can_step es t = Inr u" "rx_step b t u" using Cons by auto
  then show ?case using t rx_step_trans [OF st] by auto
qed

section \<open>Draining\<close>

lemma rx_ok_drained: "rx_ok True s \<Longrightarrow> fifo s 0 = [] \<Longrightarrow> fifo s 1 = [] \<Longrightarrow> rx_ok False s"
  by (auto simp: rx_ok_def less_2_cases_iff)

lemma rx_ok_nonempty: "rx_ok b s \<Longrightarrow> can_lld_is_rx_nonempty 0 s \<longleftrightarrow> fifo s 0 \<noteq> [] \<or> fifo s 1 \<noteq> []"
  using FMP_iff [of s 0] FMP_iff [of s 1] by (auto simp: rx_ok_def can_lld_is_rx_nonempty_def CAN_ANY_MAILBOX_def)

lemma IER_fetch:
  "IER (snd (fetch n f s)) = (if read_RFR n (write_RFR n 32 s) AND 3 = 0 then IER s OR IER_FMPIE n else IER s)"
  by (simp add: fetch_def Let_def)

lemma rx_ok_fetch:
  assumes ok: "rx_ok True s" and n: "n < 2" "fifo s n \<noteq> []"
  shows "rx_ok True (snd (fetch n f s))"
proof -
  let ?s = "snd (fetch n f s)" and ?w = "write_RFR n 32 s"
  have w: "fifo ?w = (fifo s)(n := tl (fifo s n))"
    using bit_EVENT_MASK [of 5 5] by (simp add: write_RFR_def EVENT_MASK_def)
  have len: "length (fifo s k) \<le> 3" if "k < 2" for k using ok that by (simp add: rx_ok_def)
  have "IER ?s AND IER_FMPIE k \<noteq> 0 \<or> fifo ?s k \<noteq> []" if k: "k < 2" for k
  proof (cases "k = n")
    case True
    show ?thesis
    proof (cases "tl (fifo s n) = []")
      case True
      then have "IER ?s = IER s OR IER_FMPIE n"
        using FMP_iff [of ?w n] len [OF n(1)] by (simp add: IER_fetch w)
      then show ?thesis using \<open>k = n\<close> unfolding FMPIE_bit
        using bit_EVENT_MASK [of 1 1] bit_EVENT_MASK [of 4 4]
        by (auto simp: bit_or_iff IER_FMPIE_def EVENT_MASK_def)
    qed (use True in simp)
  next
    case False
    then show ?thesis using ok k unfolding FMPIE_bit
      by (auto simp: rx_ok_def IER_fetch bit_or_iff FMPIE_bit)
  qed
  moreover have "length (fifo s n) - Suc 0 \<le> 3" using len [OF n(1)] by simp
  ultimately show ?thesis using ok len by (auto simp: rx_ok_def)
qed


text \<open>
  The loop ends with both FIFOs empty and their interrupts enabled, and with a frame if there was one at the start.
\<close>

definition toggles :: "nat \<Rightarrow> gpio \<Rightarrow> gpio" where
  "toggles n g = ((\<lambda>g. palTogglePad g GPIOD 13) ^^ n) g"

lemma toggles_simps [simp]: "toggles 0 g = g" "toggles (Suc n) g = toggles n (palTogglePad g GPIOD 13)"
  by (simp_all add: toggles_def funpow_Suc_right del: funpow.simps(2))

definition drained :: "CANDriver \<Rightarrow> CANRxFrame list \<Rightarrow> gpio \<Rightarrow> gpio \<Rightarrow> CANDriver \<Rightarrow> bool" where
  "drained s fs g g' s' \<longleftrightarrow> rx_ok False s' \<and> fifo s' 0 = [] \<and> fifo s' 1 = [] \<and> ev_self s' = ev_self s \<and>
     (ewait (ev_threads s (ev_self s)) = Running \<longrightarrow> ewait (ev_threads s' (ev_self s)) = Running) \<and>
     g' = toggles (length fs) g \<and> (fs = [] \<longrightarrow> fifo s 0 = [] \<and> fifo s 1 = [])"

lemma can_rx_drain_ok:
  assumes "rx_ok True s" "list_all (list_all quiet) gaps"
  shows "\<exists>fs g' s'. can_rx_drain gaps f g s = Inr (fs, g', s') \<and> drained s fs g g' s'"
  using assms
proof (induction gaps f g s rule: can_rx_drain.induct)
  case (1 gaps f g s)
  note ready = 1(2) [unfolded rx_ok_def, THEN conjunct2, THEN conjunct1]
  show ?case
  proof (cases "can_lld_is_rx_nonempty 0 s")
    case False
    then have e: "fifo s 0 = []" "fifo s 1 = []" using rx_ok_nonempty [OF 1(2)] by auto
    have "can_rx_drain gaps f g s = Inr ([], g, s)"
      by (subst can_rx_drain.simps)
        (simp add: can_receive_now CAN_ANY_MAILBOX_def ready False msg_defs)
    then show ?thesis using e rx_ok_drained [OF 1(2) e] by (simp add: drained_def)
  next
    case True
    let ?r = "can_lld_receive 0 f s" and ?g = "palTogglePad g GPIOD 13"
    obtain m t where mt: "?r = (m, t)" by (cases ?r)
    then have t: "t = snd (fetch (rx_next s) f s)" using can_lld_receive_any [OF True, of f] by (metis snd_conv)
    have rx: "canReceiveTimeout CAN_ANY_MAILBOX f TIME_IMMEDIATE s = Inr (MSG_OK, m, t)"
      by (simp add: can_receive_now CAN_ANY_MAILBOX_def ready True mt)
    have okt: "rx_ok True t" unfolding t using rx_ok_fetch [OF 1(2)] rx_next [OF True] by blast
    define es where "es = (case gaps of [] \<Rightarrow> [] | es # _ \<Rightarrow> es)"
    have "gap gaps t = run_ops can_step es t" "list_all quiet es" "list_all (list_all quiet) (tl gaps)"
      using 1(3) by (cases gaps; simp add: gap_def es_def)+
    then obtain u where u: "gap gaps t = Inr u" "rx_step True t u" "list_all (list_all quiet) (tl gaps)"
      using run_quiet okt by metis
    have "rx_ok True u" using u(2) by (simp add: rx_step_def)
    then obtain fs g' s' where d: "can_rx_drain (tl gaps) m ?g u = Inr (fs, g', s')" "drained u fs ?g g' s'"
      using 1(1) [OF rx refl refl _ u(1) _ u(3)] by auto
    have "can_rx_drain gaps f g s = Inr (m # fs, g', s')"
      by (subst can_rx_drain.simps) (simp add: rx u d)
    moreover have "ewait (ev_threads s (ev_self s)) = Running \<longrightarrow> ewait (ev_threads u (ev_self s)) = Running"
      using rx_step_closed [OF u(2) signal_closed_Running] unfolding t by simp
    moreover have "ev_self u = ev_self s" using u(2) unfolding rx_step_def t by simp
    ultimately show ?thesis using d(2) by (auto simp: drained_def)
  qed
qed


section \<open>Sleeping\<close>

lemma rx_ok_set [simp]:
  "rx_ok b (set_wait w s) = rx_ok b s" "rx_ok b (s\<lparr>ev_naps := ns\<rparr>) = rx_ok b s" "fifo (set_wait w s) = fifo s"
  "fifo (set_pending p s) = fifo s"
  by (simp_all add: rx_ok_def set_wait_def set_pending_def pending_def)

lemma rx_ok_read: "rx_ok False s \<Longrightarrow> rx_ok True (set_pending p s)"
  by (auto simp: rx_ok_def set_pending_def)

lemma all_events [simp]: "w AND ALL_EVENTS = w" "ALL_EVENTS \<noteq> 0"
  by (simp_all add: ALL_EVENTS_def)

text \<open>A FIFO with a frame whose interrupt is served before the timer expires.\<close>

definition irq_due :: "CANDriver \<Rightarrow> can_event nap list \<Rightarrow> bool" where
  "irq_due s ns \<longleftrightarrow> (\<exists>k < 2. fifo s k \<noteq> [] \<and> irq_rx k \<in> set (evs (takeWhile (\<lambda>n. n \<noteq> Expire) ns)))"

definition slept :: "CANDriver \<Rightarrow> can_event nap list \<Rightarrow> msg \<Rightarrow> CANDriver \<Rightarrow> bool" where
  "slept s ns m s' \<longleftrightarrow> rx_ok False s' \<and> ev_self s' = ev_self s \<and> ewait (ev_threads s' (ev_self s)) = Running \<and>
     m = (if pending s' = 0 then MSG_TIMEOUT else MSG_OK) \<and> (\<forall>k. fifo s k \<noteq> [] \<longrightarrow> fifo s' k \<noteq> []) \<and>
     (irq_due s ns \<longrightarrow> pending s' \<noteq> 0)"

lemma evt_sleep_rx:
  assumes "rx_ok False s" "awake_iff ALL_EVENTS (ev_threads s (ev_self s))" "pending s = 0"
    "list_all quiet (evs ns)" "timeout \<noteq> TIME_INFINITE"
  shows "evt_sleep can_step timeout ns s = Inl Blocked \<and> \<not> irq_due s ns \<or>
    (\<exists>m s'. evt_sleep can_step timeout ns s = Inr (m, s') \<and> slept s ns m s')"
  using assms
proof (induction ns arbitrary: s)
  case (Cons n ns)
  show ?case
  proof (cases n)
    case Expire
    have "slept s (n # ns) MSG_TIMEOUT ((set_wait Running s)\<lparr>ev_naps := ns\<rparr>)"
      using Cons.prems Expire by (simp add: slept_def irq_due_def)
    then show ?thesis using Cons.prems Expire by simp
  next
    case (Ev e)
    obtain t where t: "can_step e s = Inr t" using can_step_total by blast
    have st: "rx_step False s t" using quiet_rx_step [OF t] Cons.prems Ev by simp
    have th: "awake_iff ALL_EVENTS (ev_threads t (ev_self t))" "rx_ok False t" "ev_self t = ev_self s"
      "\<forall>k. fifo s k \<noteq> [] \<longrightarrow> fifo t k \<noteq> []"
      using rx_step_closed [OF st signal_closed_awake_iff Cons.prems(2)] st by (simp_all add: rx_step_def)
    show ?thesis
    proof (cases "pending t = 0")
      case False
      then have "ewait (ev_threads t (ev_self t)) = Running" using th(1) by (simp add: awake_iff_def pending_def)
      moreover have "slept s (n # ns) MSG_OK (t\<lparr>ev_naps := ns\<rparr>)" using False th calculation by (simp add: slept_def)
      ultimately show ?thesis using Ev t by simp
    next
      case True
      have "ewait (ev_threads t (ev_self t)) \<noteq> Running" using th(1) True by (simp add: awake_iff_def pending_def)
      then have go: "evt_sleep can_step timeout (n # ns) s = evt_sleep can_step timeout ns t" using Ev t by simp
      have due: "irq_due s (n # ns) \<longrightarrow> irq_due t ns"
        using irq_rx_pending [OF _ Cons.prems(1)] t True th(4) Ev unfolding irq_due_def by fastforce
      have "list_all quiet (evs ns)" using Cons.prems(4) Ev by simp
      then show ?thesis
        using Cons.IH [OF th(2,1) True _ Cons.prems(5)] due th(3,4) unfolding go slept_def by auto
    qed
  qed
qed (simp add: irq_due_def)


section \<open>Turns\<close>

lemma TIME_100: "TIME_MS2I 100 \<noteq> TIME_INFINITE" "TIME_MS2I 100 \<noteq> TIME_IMMEDIATE"
  by (simp_all add: TIME_MS2I_def CH_CFG_ST_FREQUENCY_def TIME_INFINITE_def TIME_IMMEDIATE_def)

definition rx_due :: "CANDriver \<Rightarrow> bool" where
  "rx_due s \<longleftrightarrow> pending s \<noteq> 0 \<and> (\<exists>k < 2. fifo s k \<noteq> []) \<or> irq_due s (ev_naps s)"

text \<open>What a turn promises.\<close>

definition turned :: "CANDriver \<Rightarrow> CANRxFrame list \<Rightarrow> gpio \<Rightarrow> gpio \<Rightarrow> CANDriver \<Rightarrow> bool" where
  "turned s fs g g' s' \<longleftrightarrow> rx_ok False s' \<and> ev_self s' = ev_self s \<and> ewait (ev_threads s' (ev_self s)) = Running \<and>
     g' = toggles (length fs) g \<and> (rx_due s \<longrightarrow> fs \<noteq> [] \<and> fifo s' 0 = [] \<and> fifo s' 1 = [])"

text \<open>Taking the events and draining, from the state in which the wait ends.\<close>

lemma drain_turned:
  assumes t: "rx_ok False t" "ev_self t = ev_self s" "ewait (ev_threads t (ev_self s)) = Running"
    and "list_all (list_all quiet) gaps" "rx_due s \<longrightarrow> (\<exists>k < 2. fifo t k \<noteq> [])"
  shows "\<exists>fs g' s'. can_rx_drain gaps f g (set_pending p t) = Inr (fs, g', s') \<and> turned s fs g g' s'"
proof -
  obtain fs g' s' where "can_rx_drain gaps f g (set_pending p t) = Inr (fs, g', s')" "drained (set_pending p t) fs g g' s'"
    using can_rx_drain_ok [OF rx_ok_read [OF t(1)] assms(4)] by blast
  then show ?thesis using t assms(5) by (auto simp: drained_def turned_def less_2_cases_iff)
qed

text \<open>A turn with an event pending reads at once; one without sleeps before.\<close>

lemma can_rx_turn_pending:
  "pending s \<noteq> 0 \<Longrightarrow> can_rx_turn gaps f g s = can_rx_drain gaps f g (set_pending (pending s AND NOT (pending s)) s)"
  by (simp add: can_rx_turn_def chEvtWaitAnyTimeout_def take_events_def)

lemma can_rx_turn_sleeps:
  "pending s = 0 \<Longrightarrow>
   can_rx_turn gaps f g s = bindE (evt_sleep can_step (TIME_MS2I 100) (ev_naps s) (set_wait (WaitOr ALL_EVENTS) s)) (\<lambda>(msg, t).
      if msg < MSG_OK then Inr ([], g, t)
      else bindE (Inr (take_events (pending t) t)) (\<lambda>(m, s). if m = 0 then Inr ([], g, s) else can_rx_drain gaps f g s))"
  using TIME_100
  by (cases "evt_sleep can_step (TIME_MS2I 100) (ev_naps s) (set_wait (WaitOr ALL_EVENTS) s)")
    (auto simp: can_rx_turn_def chEvtWaitAnyTimeout_def chSchGoSleepTimeoutS_evt_def)

lemma can_rx_turn_slept:
  assumes "pending s = 0" "rx_ok False s" "list_all quiet (evs (ev_naps s))"
  obtains "can_rx_turn gaps f g s = Inl Blocked" "\<not> rx_due s"
  | t where "can_rx_turn gaps f g s = Inr ([], g, t)" "turned s [] g g t"
  | m t where "slept (set_wait (WaitOr ALL_EVENTS) s) (ev_naps s) m t" "rx_due s \<longrightarrow> (\<exists>k < 2. fifo t k \<noteq> [])"
      "can_rx_turn gaps f g s = can_rx_drain gaps f g (set_pending (pending t AND NOT (pending t)) t)"
proof -
  let ?s = "set_wait (WaitOr ALL_EVENTS) s"
  have aw: "awake_iff ALL_EVENTS (ev_threads ?s (ev_self ?s))" "pending ?s = 0" "rx_ok False ?s"
    using assms pending_set_wait(1) [of "WaitOr ALL_EVENTS" s] pending_set_wait(4) [of "WaitOr ALL_EVENTS" s]
    by (simp_all add: awake_iff_def pending_def)
  have due: "irq_due ?s = irq_due s" by (simp add: irq_due_def fun_eq_iff)
  note w = can_rx_turn_sleeps [OF assms(1), of gaps f g]
  consider "evt_sleep can_step (TIME_MS2I 100) (ev_naps s) ?s = Inl Blocked" "\<not> irq_due s (ev_naps s)"
    | m t where "evt_sleep can_step (TIME_MS2I 100) (ev_naps s) ?s = Inr (m, t)" "slept ?s (ev_naps s) m t"
    using evt_sleep_rx [OF aw(3,1,2) assms(3) TIME_100(1)] unfolding due by auto
  then show ?thesis
  proof cases
    case 1
    then show ?thesis using assms(1) by (intro that(1)) (simp_all add: w rx_due_def)
  next
    case 2
    note t = 2(2) [unfolded slept_def due]
    show ?thesis
    proof (cases "pending t = 0")
      case True
      then show ?thesis using 2(1) t assms(1) by (intro that(2) [of t]) (simp_all add: w msg_defs turned_def rx_due_def)
    next
      case False
      then show ?thesis using 2 t assms(1) by (intro that(3) [of m t]) (auto simp: w msg_defs take_events_def rx_due_def irq_due_def)
    qed
  qed
qed



text \<open>The configuration of \<^verbatim>\<open>main.c\<close>, and the receiver registered before the first frame.\<close>

definition cancfg :: CANConfig where
  "cancfg = \<lparr>cfg_mcr = 0x40 OR 0x20 OR 0x04, cfg_btr = CAN_BTR_SJW 0 OR CAN_BTR_TS2 1 OR CAN_BTR_TS1 8 OR CAN_BTR_BRP 6\<rparr>"

definition can_started :: "can_event nap list \<Rightarrow> CANDriver result" where
  "can_started ns = canStart (Some cancfg) (canInit (can_power_on (Ev InitAck # Expire # ns)))"

lemma can_started_fields:
  obtains s where "can_started ns = Inr s" "can_state s = CAN_READY" "IER s = CAN_IER_START" "fifo s = (\<lambda>_. [])"
    "FOVR s = (\<lambda>_. False)" "ev_naps s = ns" "can_events s = (\<lambda>_. [])" "pending s = 0"
    "ewait (ev_threads s (ev_self s)) = Running"
  by (simp add: can_started_def canStart_def can_lld_start_def canInit_def can_lld_init_def canObjectInit_def
      can_lld_set_filters_def can_power_on_def Let_def pending_def)

lemma hears_registered: "hears t (chEvtRegister t 0 ls)"
  by (simp add: hears_def chEvtRegister_def chEvtRegisterMask_def chEvtRegisterMaskWithFlags_def EVENT_MASK_def)

lemma IER_START: "n < 2 \<Longrightarrow> CAN_IER_START AND IER_FMPIE n \<noteq> 0"
  by (auto simp: CAN_IER_START_def IER_FMPIE_def less_2_cases_iff)

definition can_gpio :: gpio where
  "can_gpio _ = \<lparr>MODER = 0, OTYPER = 0, OSPEEDR = 0, PUPDR = 0, IDR = 0, ODR = 0, AFRL = 0, AFRH = 0\<rparr>"


section \<open>A receiver that comes too late\<close>

definition is_rx :: "nat \<Rightarrow> can_event \<Rightarrow> bool" where
  "is_rx n e \<longleftrightarrow> (case e of RxFrame k _ \<Rightarrow> k = n | _ \<Rightarrow> False)"

definition deaf :: "CANDriver \<Rightarrow> bool" where
  "deaf s \<longleftrightarrow> can_state s = CAN_READY \<and> (\<forall>src. src \<noteq> RxfullEvent \<longrightarrow> can_events s src = []) \<and>
     IER s AND IER_FMPIE 0 = 0 \<and> fifo s 0 \<noteq> [] \<and> \<not> FOVR s 0 \<and> fifo s 1 = [] \<and> \<not> FOVR s 1"

lemma can_broadcast_unheard: "can_events s src = [] \<Longrightarrow> can_broadcast src flags s = s"
  by (cases s) (auto simp: can_broadcast_def fun_eq_iff)

lemma deaf_step:
  assumes "deaf s" "can_step e s = Inr s'" "quiet e" "\<not> is_rx 1 e" "length (fifo s 0) + (if is_rx 0 e then 1 else 0) \<le> 3"
  shows "deaf s' \<and> ev_threads s' = ev_threads s \<and> ev_self s' = ev_self s \<and>
    length (fifo s' 0) = length (fifo s 0) + (if is_rx 0 e then 1 else 0)"
proof -
  note d = assms(1) [unfolded deaf_def]
  have same: "deaf t \<and> ev_threads t = ev_threads s \<and> ev_self t = ev_self s \<and> fifo t = fifo s"
    if "can_state t = can_state s" "can_events t = can_events s" "IER t = IER s" "fifo t = fifo s" "FOVR t = FOVR s"
      "ev_threads t = ev_threads s" "ev_self t = ev_self s" for t
    using assms(1) that by (simp add: deaf_def)
  have b: "can_broadcast TxemptyEvent flags t = t" "can_broadcast ErrorEvent flags t = t" "can_broadcast WakeupEvent flags t = t"
    if "can_events t = can_events s" for flags t
    using d that by (simp_all add: can_broadcast_unheard)
  have tx: "can_lld_tx_handler s = can_dequeue_all TxQueue MSG_OK (write_TSR (read_TSR s) s)"
    by (simp add: can_lld_tx_handler_def can_isr_defs Let_def b)
  have sce: "can_lld_sce_handler s = (if MSR s AND 8 \<noteq> 0 then (write_MSR (MSR s) s)\<lparr>can_state := CAN_READY, MCR := MCR s AND NOT MCR_SLEEP\<rparr>
      else write_MSR (MSR s) s)"
    by (simp add: can_lld_sce_handler_def can_isr_defs Let_def b)
  show ?thesis
  proof (cases "is_rx 0 e")
    case True
    then obtain m where "e = RxFrame 0 m" by (auto simp: is_rx_def split: can_event.splits)
    then have "s' = s\<lparr>fifo := (fifo s)(0 := fifo s 0 @ [m])\<rparr>" using assms(2,5) True by (simp add: fifo_arrive_def)
    then show ?thesis using d True by (simp add: deaf_def)
  next
    case False
    have "deaf s' \<and> ev_threads s' = ev_threads s \<and> ev_self s' = ev_self s \<and> fifo s' = fifo s"
    proof (cases e)
      case (RxFrame n m)
      then have "s' = s" using assms(2,4) False by (auto simp: is_rx_def less_2_cases_iff)
      then show ?thesis using assms(1) by simp
    next
      case IrqTx
      then show ?thesis using assms(2) tx by (intro same) (auto split: if_splits)
    next
      case IrqSce
      then show ?thesis using assms(2) sce d by (intro same) (auto split: if_splits)
    qed (use assms(2,3) d in \<open>intro same; auto simp: quiet_def mailbox_done_def split: if_splits\<close>)+
    then show ?thesis using False by simp
  qed
qed


text \<open>Turns of a receiver that registered while the interrupt of FIFO 0 is disabled.\<close>

lemma deaf_set [simp]: "deaf (set_wait w s) = deaf s" "deaf (s\<lparr>ev_naps := ns\<rparr>) = deaf s"
  by (simp_all add: deaf_def set_wait_def)

lemma evt_sleep_deaf:
  assumes "deaf s" "ewait (ev_threads s (ev_self s)) \<noteq> Running" "Expire \<in> set ns" "timeout \<noteq> TIME_INFINITE"
    "list_all quiet (evs ns)" "list_all (\<lambda>e. \<not> is_rx 1 e) (evs ns)" "length (fifo s 0) + length (filter (is_rx 0) (evs ns)) \<le> 3"
  shows "\<exists>s' rest. evt_sleep can_step timeout ns s = Inr (MSG_TIMEOUT, s') \<and> deaf s' \<and> pending s' = pending s \<and>
    ev_naps s' = rest \<and> (\<exists>used. ns = used @ Expire # rest \<and> Expire \<notin> set used) \<and>
    length (fifo s' 0) + length (filter (is_rx 0) (evs rest)) \<le> 3"
  using assms
proof (induction ns arbitrary: s)
  case (Cons n ns)
  show ?case
  proof (cases n)
    case Expire
    then show ?thesis using Cons.prems by (intro exI [of _ "(set_wait Running s)\<lparr>ev_naps := ns\<rparr>"] exI [of _ ns]) auto
  next
    case (Ev e)
    obtain t where t: "can_step e s = Inr t" using can_step_total by blast
    have st: "deaf t \<and> ev_threads t = ev_threads s \<and> ev_self t = ev_self s \<and>
        length (fifo t 0) = length (fifo s 0) + (if is_rx 0 e then 1 else 0)"
      using Cons.prems Ev by (intro deaf_step [OF _ t]) auto
    obtain s' rest used where "evt_sleep can_step timeout ns t = Inr (MSG_TIMEOUT, s')" "deaf s'" "pending s' = pending t"
        "ev_naps s' = rest" "ns = used @ Expire # rest" "Expire \<notin> set used"
        "length (fifo s' 0) + length (filter (is_rx 0) (evs rest)) \<le> 3"
      using Cons.IH [of t] Cons.prems Ev st by (auto split: if_splits)
    then show ?thesis using Cons.prems(2) Ev t st
      by (intro exI [of _ s'] exI [of _ rest]) (auto simp: pending_def intro: exI [of _ "Ev e # used"])
  qed
qed simp


lemma can_rx_turn_deaf:
  assumes "deaf s" "pending s = 0" "ev_naps s = ns" "Expire \<in> set ns" "list_all quiet (evs ns)" "list_all (\<lambda>e. \<not> is_rx 1 e) (evs ns)"
    "length (fifo s 0) + length (filter (is_rx 0) (evs ns)) \<le> 3"
  obtains s' used rest where "can_rx_turn gaps f g s = Inr ([], g, s')" "deaf s'" "pending s' = 0" "ev_naps s' = rest"
    "ns = used @ Expire # rest" "Expire \<notin> set used" "length (fifo s' 0) + length (filter (is_rx 0) (evs rest)) \<le> 3"
proof -
  let ?s = "set_wait (WaitOr ALL_EVENTS) s"
  have "ewait (ev_threads ?s (ev_self ?s)) \<noteq> Running" by simp
  then obtain s' rest used where r: "evt_sleep can_step (TIME_MS2I 100) ns ?s = Inr (MSG_TIMEOUT, s')" "deaf s'"
      "pending s' = pending ?s" "ev_naps s' = rest" "ns = used @ Expire # rest" "Expire \<notin> set used"
      "length (fifo s' 0) + length (filter (is_rx 0) (evs rest)) \<le> 3"
    using evt_sleep_deaf [of ?s ns "TIME_MS2I 100"] assms TIME_100 by auto
  moreover have "can_rx_turn gaps f g s = Inr ([], g, s')"
    using assms(2,3) TIME_100 r(1)
    by (simp add: can_rx_turn_def chEvtWaitAnyTimeout_def chSchGoSleepTimeoutS_evt_def msg_defs)
  ultimately show ?thesis using that assms(2) by simp
qed

definition expiries :: "can_event nap list \<Rightarrow> nat" where
  "expiries ns = length (filter (\<lambda>n. n = Expire) ns)"

lemma evs_append: "evs (xs @ ys) = evs xs @ evs ys"
  by (induction xs rule: evs.induct) simp_all

lemma can_rx_turns_deaf:
  assumes "deaf s" "pending s = 0" "n \<le> expiries (ev_naps s)" "list_all quiet (evs (ev_naps s))"
    "list_all (\<lambda>e. \<not> is_rx 1 e) (evs (ev_naps s))" "length (fifo s 0) + length (filter (is_rx 0) (evs (ev_naps s))) \<le> 3"
  shows "\<exists>s'. can_rx_turns n f g s = Inr ([], g, s') \<and> fifo s' 0 \<noteq> []"
  using assms
proof (induction n arbitrary: s)
  case (Suc n)
  have "Expire \<in> set (ev_naps s)" using Suc.prems(3) by (cases "filter (\<lambda>n. n = Expire) (ev_naps s)") (auto simp: expiries_def filter_eq_Cons_iff)
  then obtain t used rest where t: "can_rx_turn [] f g s = Inr ([], g, t)" "deaf t" "pending t = 0" "ev_naps t = rest"
      "ev_naps s = used @ Expire # rest" "Expire \<notin> set used" "length (fifo t 0) + length (filter (is_rx 0) (evs rest)) \<le> 3"
    using can_rx_turn_deaf [of s "ev_naps s" "[]" f g] Suc.prems by blast
  have "filter (\<lambda>n. n = Expire) used = []" using t(6) by (auto simp: filter_empty_conv)
  then have "n \<le> expiries rest" using Suc.prems(3) t(5) by (simp add: expiries_def)
  then obtain s' where "can_rx_turns n f g t = Inr ([], g, s')" "fifo s' 0 \<noteq> []"
    using Suc.IH [of t] Suc.prems(4,5) t by (auto simp: evs_append)
  then show ?case using t(1) by simp
qed (simp add: deaf_def)

text \<open>
  C36. A receiver that registers after the first frame misses it. The main thread starts the driver, with all
  interrupts enabled, before it creates the receiver. If a frame arrives in FIFO 0 and its interrupt is served
  before the receiver has registered, nobody hears the broadcast, and the interrupt stays disabled.
  However many turns the receiver then makes, each of them times out and reads nothing, although the frame is there and up
  to two more arrive; only an overrun of the FIFO, or a frame in the other one, would wake it up.
\<close>

theorem late_receiver_is_deaf:
  assumes "can_started ns' = Inr s" and "n \<le> expiries ns" "list_all quiet (evs ns)" "list_all (\<lambda>e. \<not> is_rx 1 e) (evs ns)" "length (filter (is_rx 0) (evs ns)) \<le> 2"
  shows "\<exists>t s'. run_ops can_step [RxFrame 0 m, IrqRx0] s = Inr t \<and>
    can_rx_turns n f g (can_rx_register (t\<lparr>ev_naps := ns\<rparr>)) = Inr ([], g, s') \<and> fifo s' 0 \<noteq> []"
proof -
  obtain u where u: "s = u" "can_state u = CAN_READY" "IER u = CAN_IER_START"
      "fifo u = (\<lambda>_. [])" "FOVR u = (\<lambda>_. False)" "can_events u = (\<lambda>_. [])" "pending u = 0"
    using can_started_fields [of ns'] assms(1) by (metis Inr_inject)
  let ?a = "u\<lparr>fifo := (fifo u)(0 := [m])\<rparr>"
  have a: "can_step (RxFrame 0 m) s = Inr ?a" using u by (simp add: fifo_arrive_def)
  have "rx_pending 0 ?a = can_dequeue_all RxQueue MSG_OK (?a\<lparr>IER := IER ?a AND NOT (IER_FMPIE 0)\<rparr>)"
    using u by (simp add: rx_pending_def read_RFR_def can_isr_defs Let_def can_broadcast_unheard)
  then obtain t where t: "run_ops can_step [RxFrame 0 m, IrqRx0] s = Inr t" "t = can_dequeue_all RxQueue MSG_OK (?a\<lparr>IER := IER ?a AND NOT (IER_FMPIE 0)\<rparr>)"
    using a u IER_START [of 0] by (simp add: can_lld_rx0_handler_def)
  let ?r = "can_rx_register (t\<lparr>ev_naps := ns\<rparr>)"
  have "\<not> bit (CAN_IER_START AND NOT (IER_FMPIE 0)) 1"
    using bit_EVENT_MASK [of 1] by (simp add: IER_FMPIE_def EVENT_MASK_def bit_and_iff bit_not_iff)
  then have ier: "IER ?r AND IER_FMPIE 0 = 0"
    using FMPIE_bit [of "IER ?r" 0] u(3) by (simp add: t(2) can_rx_register_def)
  have "deaf ?r" "pending ?r = 0" "ev_naps ?r = ns" "fifo ?r 0 = [m]"
    using u ier by (simp_all add: deaf_def t(2) can_rx_register_def pending_def)
  then show ?thesis using can_rx_turns_deaf [of ?r n f g] t(1) assms(2-5) by auto
qed

theorem late_receiver_is_deaf_witness:
  "\<exists>s t s'. can_started [] = Inr s \<and> run_ops can_step [RxFrame 0 (encode_frame demo_frame), IrqRx0] s = Inr t \<and>
     can_rx_turns 3 demo_rx can_gpio (can_rx_register (t\<lparr>ev_naps :=
       [Expire, Ev (RxFrame 0 (encode_frame demo_frame)), Ev IrqRx0, Expire, Ev (BusError 3), Ev IrqSce, Expire]\<rparr>)) =
       Inr ([], can_gpio, s') \<and> fifo s' 0 \<noteq> []"
proof -
  let ?ns = "[Expire, Ev (RxFrame 0 (encode_frame demo_frame)), Ev IrqRx0, Expire, Ev (BusError 3), Ev IrqSce, Expire]"
  obtain s where s: "can_started [] = Inr s" using can_started_fields [of "[]"] by metis
  have "3 \<le> expiries ?ns" "list_all quiet (evs ?ns)" "list_all (\<lambda>e. \<not> is_rx 1 e) (evs ?ns)"
    "length (filter (is_rx 0) (evs ?ns)) \<le> 2"
    by (simp_all add: expiries_def quiet_def is_rx_def)
  from late_receiver_is_deaf [OF s this] s show ?thesis by blast
qed

end
