(* ===== verification/Dma.thy ===== *)
theory Dma
  imports Pal
begin

text \<open>
  The DMA controllers: the helper driver \<^verbatim>\<open>os/hal/ports/STM32/LLD/DMAv2/stm32_dma.c\<close> with the macros of
  \<^verbatim>\<open>stm32_dma.h\<close>, and the controller as far as the ADC driver uses it: transfers of half words from a
  peripheral to memory. A stream is a number from 0 to 15, the index in the table of streams. Handlers are names;
  the parameter \<open>funs\<close> says what they do. Drivers extend the state.
\<close>

section \<open>Registers\<close>

text \<open>
  Of a stream \<open>SxCR\<close> is the configuration, \<open>NDTR\<close> what is left to transfer, \<open>M0AR\<close> the memory and \<open>PAR\<close> the
  peripheral address. The controller keeps the next memory address and the number to reload.
\<close>

record dma_stream =
  SxCR :: "32 word"
  NDTR :: "16 word"
  PAR :: nat
  M0AR :: nat
  M1AR :: nat
  FCR :: "32 word"
  dma_next :: nat
  dma_count :: "16 word"

text \<open>The four status registers, two for each controller.\<close>

datatype dma_isr = LISR1 | HISR1 | LISR2 | HISR2

record dma_sys =
  dma_streams_mask :: "32 word"
  dma_isr_redir :: "nat \<Rightarrow> nat option"
  dma_stream :: "nat \<Rightarrow> dma_stream"
  dma_ISR :: "dma_isr \<Rightarrow> 32 word"
  dma_vector :: "nat \<Rightarrow> bool"
  rcc_dma :: "bool \<times> bool"
  ram :: mem

text \<open>The table of streams: the status register, the shift of the stream's flags in it, its vector.\<close>

definition stm32_dma_streams :: "(dma_isr \<times> nat \<times> nat) list" where
  "stm32_dma_streams =
     [(LISR1, 0, 11), (LISR1, 6, 12), (LISR1, 16, 13), (LISR1, 22, 14),
      (HISR1, 0, 15), (HISR1, 6, 16), (HISR1, 16, 17), (HISR1, 22, 47),
      (LISR2, 0, 56), (LISR2, 6, 57), (LISR2, 16, 58), (LISR2, 22, 59),
      (HISR2, 0, 60), (HISR2, 6, 68), (HISR2, 16, 69), (HISR2, 22, 70)]"

abbreviation ifcr :: "nat \<Rightarrow> dma_isr" where "ifcr i \<equiv> fst (stm32_dma_streams ! i)"
abbreviation ishift :: "nat \<Rightarrow> nat" where "ishift i \<equiv> fst (snd (stm32_dma_streams ! i))"
abbreviation dma_number :: "nat \<Rightarrow> nat" where "dma_number i \<equiv> snd (snd (stm32_dma_streams ! i))"

definition STM32_DMA_STREAMS :: nat where "STM32_DMA_STREAMS = 16"
definition STM32_DMA_STREAM_ID :: "nat \<Rightarrow> nat \<Rightarrow> nat" where "STM32_DMA_STREAM_ID dma stream = (dma - 1) * 8 + stream"
definition STM32_DMA_GETCHANNEL :: "nat \<Rightarrow> 32 word \<Rightarrow> 32 word" where
  "STM32_DMA_GETCHANNEL i c = drop_bit ((i mod 8) * 4) c AND 15"

definition STM32_DMA1_STREAMS_MASK :: "32 word" where "STM32_DMA1_STREAMS_MASK = 0x000000FF"
definition STM32_DMA2_STREAMS_MASK :: "32 word" where "STM32_DMA2_STREAMS_MASK = 0x0000FF00"

definition STM32_DMA_CR_RESET_VALUE :: "32 word" where "STM32_DMA_CR_RESET_VALUE = 0"
definition STM32_DMA_CR_EN :: "32 word" where "STM32_DMA_CR_EN = push_bit 0 1"
definition STM32_DMA_CR_DMEIE :: "32 word" where "STM32_DMA_CR_DMEIE = push_bit 1 1"
definition STM32_DMA_CR_TEIE :: "32 word" where "STM32_DMA_CR_TEIE = push_bit 2 1"
definition STM32_DMA_CR_HTIE :: "32 word" where "STM32_DMA_CR_HTIE = push_bit 3 1"
definition STM32_DMA_CR_TCIE :: "32 word" where "STM32_DMA_CR_TCIE = push_bit 4 1"
definition STM32_DMA_CR_DIR_P2M :: "32 word" where "STM32_DMA_CR_DIR_P2M = 0"
definition STM32_DMA_CR_CIRC :: "32 word" where "STM32_DMA_CR_CIRC = push_bit 8 1"
definition STM32_DMA_CR_MINC :: "32 word" where "STM32_DMA_CR_MINC = push_bit 10 1"
definition STM32_DMA_CR_PSIZE_HWORD :: "32 word" where "STM32_DMA_CR_PSIZE_HWORD = push_bit 11 1"
definition STM32_DMA_CR_MSIZE_HWORD :: "32 word" where "STM32_DMA_CR_MSIZE_HWORD = push_bit 13 1"
definition STM32_DMA_CR_PL :: "32 word \<Rightarrow> 32 word" where "STM32_DMA_CR_PL n = push_bit 16 n"
definition STM32_DMA_CR_CHSEL :: "32 word \<Rightarrow> 32 word" where "STM32_DMA_CR_CHSEL n = push_bit 25 n"
definition STM32_DMA_FCR_RESET_VALUE :: "32 word" where "STM32_DMA_FCR_RESET_VALUE = 0x21"

definition STM32_DMA_ISR_MASK :: "32 word" where "STM32_DMA_ISR_MASK = 0x3D"
definition STM32_DMA_ISR_DMEIF :: "32 word" where "STM32_DMA_ISR_DMEIF = push_bit 2 1"
definition STM32_DMA_ISR_TEIF :: "32 word" where "STM32_DMA_ISR_TEIF = push_bit 3 1"
definition STM32_DMA_ISR_HTIF :: "32 word" where "STM32_DMA_ISR_HTIF = push_bit 4 1"
definition STM32_DMA_ISR_TCIF :: "32 word" where "STM32_DMA_ISR_TCIF = push_bit 5 1"

section \<open>Operations\<close>

definition on_stream :: "nat \<Rightarrow> (dma_stream \<Rightarrow> dma_stream) \<Rightarrow> 'm dma_sys_scheme \<Rightarrow> 'm dma_sys_scheme" where
  "on_stream i f s = s\<lparr>dma_stream := (dma_stream s)(i := f (dma_stream s i))\<rparr>"

text \<open>Writing the clear register resets the flags written as 1.\<close>

definition write_IFCR :: "dma_isr \<Rightarrow> 32 word \<Rightarrow> 'm dma_sys_scheme \<Rightarrow> 'm dma_sys_scheme" where
  "write_IFCR r v s = s\<lparr>dma_ISR := (dma_ISR s)(r := dma_ISR s r AND NOT v)\<rparr>"

definition dmaStreamSetPeripheral :: "nat \<Rightarrow> nat \<Rightarrow> 'm dma_sys_scheme \<Rightarrow> 'm dma_sys_scheme" where
  "dmaStreamSetPeripheral i addr = on_stream i (\<lambda>d. d\<lparr>PAR := addr\<rparr>)"

definition dmaStreamSetMemory0 :: "nat \<Rightarrow> nat \<Rightarrow> 'm dma_sys_scheme \<Rightarrow> 'm dma_sys_scheme" where
  "dmaStreamSetMemory0 i addr = on_stream i (\<lambda>d. d\<lparr>M0AR := addr\<rparr>)"

definition dmaStreamSetMemory1 :: "nat \<Rightarrow> nat \<Rightarrow> 'm dma_sys_scheme \<Rightarrow> 'm dma_sys_scheme" where
  "dmaStreamSetMemory1 i addr = on_stream i (\<lambda>d. d\<lparr>M1AR := addr\<rparr>)"

text \<open>The register has sixteen bits.\<close>

definition dmaStreamSetTransactionSize :: "nat \<Rightarrow> 32 word \<Rightarrow> 'm dma_sys_scheme \<Rightarrow> 'm dma_sys_scheme" where
  "dmaStreamSetTransactionSize i sz = on_stream i (\<lambda>d. d\<lparr>NDTR := ucast sz\<rparr>)"

definition dmaStreamGetTransactionSize :: "nat \<Rightarrow> 'm dma_sys_scheme \<Rightarrow> nat" where
  "dmaStreamGetTransactionSize i s = unat (NDTR (dma_stream s i))"

definition dmaStreamSetMode :: "nat \<Rightarrow> 32 word \<Rightarrow> 'm dma_sys_scheme \<Rightarrow> 'm dma_sys_scheme" where
  "dmaStreamSetMode i mode = on_stream i (\<lambda>d. d\<lparr>SxCR := mode\<rparr>)"

definition dmaStreamSetFIFO :: "nat \<Rightarrow> 32 word \<Rightarrow> 'm dma_sys_scheme \<Rightarrow> 'm dma_sys_scheme" where
  "dmaStreamSetFIFO i mode = on_stream i (\<lambda>d. d\<lparr>FCR := mode\<rparr>)"

text \<open>An enabled stream starts at the memory address with the number of transfers then set.\<close>

definition dmaStreamEnable :: "nat \<Rightarrow> 'm dma_sys_scheme \<Rightarrow> 'm dma_sys_scheme" where
  "dmaStreamEnable i = on_stream i (\<lambda>d. d\<lparr>SxCR := SxCR d OR STM32_DMA_CR_EN, dma_next := M0AR d, dma_count := NDTR d\<rparr>)"

definition dmaStreamClearInterrupt :: "nat \<Rightarrow> 'm dma_sys_scheme \<Rightarrow> 'm dma_sys_scheme" where
  "dmaStreamClearInterrupt i = write_IFCR (ifcr i) (push_bit (ishift i) STM32_DMA_ISR_MASK)"

text \<open>The stream is off as soon as it is told to; the loop that waits for it ends at once.\<close>

definition dmaStreamDisable :: "nat \<Rightarrow> 'm dma_sys_scheme \<Rightarrow> 'm dma_sys_scheme" where
  "dmaStreamDisable i s = dmaStreamClearInterrupt i (on_stream i (\<lambda>d. d\<lparr>SxCR := SxCR d AND NOT (STM32_DMA_CR_TCIE OR
     STM32_DMA_CR_HTIE OR STM32_DMA_CR_TEIE OR STM32_DMA_CR_DMEIE OR STM32_DMA_CR_EN)\<rparr>) s)"

definition dmaInit :: "'m dma_sys_scheme \<Rightarrow> 'm dma_sys_scheme" where
  "dmaInit s = write_IFCR HISR2 (-1) (write_IFCR LISR2 (-1) (write_IFCR HISR1 (-1) (write_IFCR LISR1 (-1)
     (s\<lparr>dma_streams_mask := 0,
        dma_stream := (\<lambda>i. if i < STM32_DMA_STREAMS then (dma_stream s i)\<lparr>SxCR := 0\<rparr> else dma_stream s i),
        dma_isr_redir := (\<lambda>i. if i < STM32_DMA_STREAMS then None else dma_isr_redir s i)\<rparr>))))"

definition dma_clocks_on :: "'m dma_sys_scheme \<Rightarrow> 'm dma_sys_scheme" where
  "dma_clocks_on s = s\<lparr>rcc_dma :=
     (fst (rcc_dma s) \<or> dma_streams_mask s AND STM32_DMA1_STREAMS_MASK \<noteq> 0,
      snd (rcc_dma s) \<or> dma_streams_mask s AND STM32_DMA2_STREAMS_MASK \<noteq> 0)\<rparr>"

definition dma_clocks_off :: "'m dma_sys_scheme \<Rightarrow> 'm dma_sys_scheme" where
  "dma_clocks_off s = s\<lparr>rcc_dma :=
     (fst (rcc_dma s) \<and> dma_streams_mask s AND STM32_DMA1_STREAMS_MASK \<noteq> 0,
      snd (rcc_dma s) \<and> dma_streams_mask s AND STM32_DMA2_STREAMS_MASK \<noteq> 0)\<rparr>"

definition dmaStreamAllocate :: "nat \<Rightarrow> nat option \<Rightarrow> 'm dma_sys_scheme \<Rightarrow> bool \<times> 'm dma_sys_scheme" where
  "dmaStreamAllocate i func s =
     (if bit (dma_streams_mask s) i then (True, s)
      else
        let s = dma_clocks_on (s\<lparr>dma_isr_redir := (dma_isr_redir s)(i := func),
                  dma_streams_mask := dma_streams_mask s OR push_bit i 1\<rparr>);
            s = on_stream i (\<lambda>d. d\<lparr>SxCR := STM32_DMA_CR_RESET_VALUE, FCR := STM32_DMA_FCR_RESET_VALUE\<rparr>) (dmaStreamDisable i s)
        in (False, if func \<noteq> None then s\<lparr>dma_vector := (dma_vector s)(dma_number i := True)\<rparr> else s))"

definition dmaStreamRelease :: "nat \<Rightarrow> 'm dma_sys_scheme \<Rightarrow> 'm dma_sys_scheme result" where
  "dmaStreamRelease i s =
     dbgAssert ''not allocated'' (bit (dma_streams_mask s) i)
       (Inr (dma_clocks_off (s\<lparr>dma_vector := (dma_vector s)(dma_number i := False),
          dma_streams_mask := dma_streams_mask s AND NOT (push_bit i 1)\<rparr>)))"

section \<open>Interrupts\<close>

text \<open>The common body of the handlers, which differ in the register, the shift and the index of the redirector.\<close>

definition dma_serve ::
  "(nat \<Rightarrow> 32 word \<Rightarrow> 'm dma_sys_scheme \<Rightarrow> 'm dma_sys_scheme result) \<Rightarrow> dma_isr \<Rightarrow> nat \<Rightarrow> nat \<Rightarrow>
    'm dma_sys_scheme \<Rightarrow> 'm dma_sys_scheme result" where
  "dma_serve funs isr shift i s =
     (let flags = drop_bit shift (dma_ISR s isr) AND STM32_DMA_ISR_MASK;
          s = write_IFCR isr (push_bit shift flags) s
      in case dma_isr_redir s i of None \<Rightarrow> Inr s | Some f \<Rightarrow> funs f flags s)"

definition STM32_DMA1_CH0_HANDLER where "STM32_DMA1_CH0_HANDLER funs = dma_serve funs LISR1 0 0"
definition STM32_DMA1_CH1_HANDLER where "STM32_DMA1_CH1_HANDLER funs = dma_serve funs LISR1 6 1"
definition STM32_DMA1_CH2_HANDLER where "STM32_DMA1_CH2_HANDLER funs = dma_serve funs LISR1 16 2"
definition STM32_DMA1_CH3_HANDLER where "STM32_DMA1_CH3_HANDLER funs = dma_serve funs LISR1 22 3"
definition STM32_DMA1_CH4_HANDLER where "STM32_DMA1_CH4_HANDLER funs = dma_serve funs HISR1 0 4"
definition STM32_DMA1_CH5_HANDLER where "STM32_DMA1_CH5_HANDLER funs = dma_serve funs HISR1 6 5"
definition STM32_DMA1_CH6_HANDLER where "STM32_DMA1_CH6_HANDLER funs = dma_serve funs HISR1 16 6"
definition STM32_DMA1_CH7_HANDLER where "STM32_DMA1_CH7_HANDLER funs = dma_serve funs HISR1 22 7"
definition STM32_DMA2_CH0_HANDLER where "STM32_DMA2_CH0_HANDLER funs = dma_serve funs LISR2 0 8"
definition STM32_DMA2_CH1_HANDLER where "STM32_DMA2_CH1_HANDLER funs = dma_serve funs LISR2 6 9"
definition STM32_DMA2_CH2_HANDLER where "STM32_DMA2_CH2_HANDLER funs = dma_serve funs LISR2 16 10"
definition STM32_DMA2_CH3_HANDLER where "STM32_DMA2_CH3_HANDLER funs = dma_serve funs LISR2 22 11"
definition STM32_DMA2_CH4_HANDLER where "STM32_DMA2_CH4_HANDLER funs = dma_serve funs HISR2 0 12"
definition STM32_DMA2_CH5_HANDLER where "STM32_DMA2_CH5_HANDLER funs = dma_serve funs HISR2 6 13"
definition STM32_DMA2_CH6_HANDLER where "STM32_DMA2_CH6_HANDLER funs = dma_serve funs HISR2 16 14"
definition STM32_DMA2_CH7_HANDLER where "STM32_DMA2_CH7_HANDLER funs = dma_serve funs HISR2 22 15"

lemmas dma_handler_defs =
  STM32_DMA1_CH0_HANDLER_def STM32_DMA1_CH1_HANDLER_def STM32_DMA1_CH2_HANDLER_def STM32_DMA1_CH3_HANDLER_def
  STM32_DMA1_CH4_HANDLER_def STM32_DMA1_CH5_HANDLER_def STM32_DMA1_CH6_HANDLER_def STM32_DMA1_CH7_HANDLER_def
  STM32_DMA2_CH0_HANDLER_def STM32_DMA2_CH1_HANDLER_def STM32_DMA2_CH2_HANDLER_def STM32_DMA2_CH3_HANDLER_def
  STM32_DMA2_CH4_HANDLER_def STM32_DMA2_CH5_HANDLER_def STM32_DMA2_CH6_HANDLER_def STM32_DMA2_CH7_HANDLER_def

section \<open>The controller\<close>

text \<open>A flag of a stream.\<close>

definition dma_raise :: "nat \<Rightarrow> 32 word \<Rightarrow> 'm dma_sys_scheme \<Rightarrow> 'm dma_sys_scheme" where
  "dma_raise i f s = s\<lparr>dma_ISR := (dma_ISR s)(ifcr i := dma_ISR s (ifcr i) OR push_bit (ishift i) f)\<rparr>"

text \<open>
  A request of the peripheral: an enabled stream stores a half word and counts down. Halfway and at the end it raises a
  flag; at the end it starts again, or turns itself off.
\<close>

definition dma_request :: "nat \<Rightarrow> 16 word \<Rightarrow> 'm dma_sys_scheme \<Rightarrow> 'm dma_sys_scheme" where
  "dma_request i v s =
     (let d = dma_stream s i in
      if \<not> bit (SxCR d) 0 \<or> NDTR d = 0 then s
      else
        let n = NDTR d - 1;
            s = s\<lparr>ram := store_bytes (ram s) (dma_next d) [ucast v, ucast (drop_bit 8 v)]\<rparr>;
            s = (if n = drop_bit 1 (dma_count d) then dma_raise i STM32_DMA_ISR_HTIF s else s)
        in if n \<noteq> 0 then on_stream i (\<lambda>d. d\<lparr>NDTR := n, dma_next := (if bit (SxCR d) 10 then dma_next d + 2 else dma_next d)\<rparr>) s
           else if bit (SxCR d) 8 then dma_raise i STM32_DMA_ISR_TCIF (on_stream i (\<lambda>d. d\<lparr>NDTR := dma_count d, dma_next := M0AR d\<rparr>) s)
           else dma_raise i STM32_DMA_ISR_TCIF (on_stream i (\<lambda>d. d\<lparr>NDTR := 0, SxCR := SxCR d AND NOT STM32_DMA_CR_EN\<rparr>) s))"

text \<open>A bus error turns the stream off.\<close>

definition dma_error :: "nat \<Rightarrow> 'm dma_sys_scheme \<Rightarrow> 'm dma_sys_scheme" where
  "dma_error i s = (if bit (SxCR (dma_stream s i)) 0
     then dma_raise i STM32_DMA_ISR_TEIF (on_stream i (\<lambda>d. d\<lparr>SxCR := SxCR d AND NOT STM32_DMA_CR_EN\<rparr>) s) else s)"


section \<open>Flags\<close>

lemma bit_single: "bit (push_bit k 1 :: 32 word) n \<longleftrightarrow> n = k \<and> k < 32"
  by (auto simp: bit_simps)

lemma bit_MASK [bit_simps]: "bit STM32_DMA_ISR_MASK n \<longleftrightarrow> n = 0 \<or> n = 2 \<or> n = 3 \<or> n = 4 \<or> n = 5"
proof -
  have m: "STM32_DMA_ISR_MASK = push_bit 0 1 OR push_bit 2 1 OR push_bit 3 1 OR push_bit 4 1 OR push_bit 5 1"
    by (simp add: STM32_DMA_ISR_MASK_def)
  show ?thesis unfolding m bit_or_iff bit_single by auto
qed

lemma bit_dma_consts [bit_simps]:
  "bit STM32_DMA_CR_EN n \<longleftrightarrow> n = 0" "bit STM32_DMA_CR_DMEIE n \<longleftrightarrow> n = 1" "bit STM32_DMA_CR_TEIE n \<longleftrightarrow> n = 2"
  "bit STM32_DMA_CR_HTIE n \<longleftrightarrow> n = 3" "bit STM32_DMA_CR_TCIE n \<longleftrightarrow> n = 4" "bit STM32_DMA_CR_CIRC n \<longleftrightarrow> n = 8"
  "bit STM32_DMA_CR_MINC n \<longleftrightarrow> n = 10" "bit STM32_DMA_CR_PSIZE_HWORD n \<longleftrightarrow> n = 11" "bit STM32_DMA_CR_MSIZE_HWORD n \<longleftrightarrow> n = 13"
  "bit STM32_DMA_ISR_DMEIF n \<longleftrightarrow> n = 2" "bit STM32_DMA_ISR_TEIF n \<longleftrightarrow> n = 3" "bit STM32_DMA_ISR_HTIF n \<longleftrightarrow> n = 4"
  "bit STM32_DMA_ISR_TCIF n \<longleftrightarrow> n = 5"
  unfolding STM32_DMA_CR_EN_def STM32_DMA_CR_DMEIE_def STM32_DMA_CR_TEIE_def STM32_DMA_CR_HTIE_def STM32_DMA_CR_TCIE_def
    STM32_DMA_CR_CIRC_def STM32_DMA_CR_MINC_def STM32_DMA_CR_PSIZE_HWORD_def STM32_DMA_CR_MSIZE_HWORD_def STM32_DMA_ISR_DMEIF_def
    STM32_DMA_ISR_TEIF_def STM32_DMA_ISR_HTIF_def STM32_DMA_ISR_TCIF_def bit_single
  by simp_all

text \<open>Every handler reads the flags that the table gives to its stream, and no two streams share a flag.\<close>

definition dma_handlers where
  "dma_handlers funs =
     [STM32_DMA1_CH0_HANDLER funs, STM32_DMA1_CH1_HANDLER funs, STM32_DMA1_CH2_HANDLER funs, STM32_DMA1_CH3_HANDLER funs,
      STM32_DMA1_CH4_HANDLER funs, STM32_DMA1_CH5_HANDLER funs, STM32_DMA1_CH6_HANDLER funs, STM32_DMA1_CH7_HANDLER funs,
      STM32_DMA2_CH0_HANDLER funs, STM32_DMA2_CH1_HANDLER funs, STM32_DMA2_CH2_HANDLER funs, STM32_DMA2_CH3_HANDLER funs,
      STM32_DMA2_CH4_HANDLER funs, STM32_DMA2_CH5_HANDLER funs, STM32_DMA2_CH6_HANDLER funs, STM32_DMA2_CH7_HANDLER funs]"

lemma less_16: "i < 16 \<longleftrightarrow> i \<in> {0, 1, 2, 3, 4, 5, 6, 7, 8, 9, 10, 11, 12, 13, 14, 15 :: nat}"
  by (simp, presburger)

lemma dma_handlers_nth: "i < 16 \<Longrightarrow> dma_handlers funs ! i = dma_serve funs (ifcr i) (ishift i) i"
  unfolding less_16 by (auto simp: dma_handlers_def dma_handler_defs stm32_dma_streams_def fun_eq_iff)

lemma streams_apart:
  assumes "i < 16" "j < 16" "i \<noteq> j" "ifcr i = ifcr j"
  shows "ishift i + 5 < ishift j \<or> ishift j + 5 < ishift i"
proof -
  have "list_all (\<lambda>i. list_all (\<lambda>j. i = j \<or> ifcr i \<noteq> ifcr j \<or> ishift i + 5 < ishift j \<or> ishift j + 5 < ishift i) [0 ..< 16]) [0 ..< 16]"
    by code_simp
  then have "i \<in> {0 ..< 16} \<Longrightarrow> j \<in> {0 ..< 16} \<Longrightarrow> ?thesis" using assms(3,4) unfolding list_all_iff set_upt by blast
  then show ?thesis using assms(1,2) by simp
qed

definition dma_flags :: "nat \<Rightarrow> 'm dma_sys_scheme \<Rightarrow> 32 word" where
  "dma_flags i s = drop_bit (ishift i) (dma_ISR s (ifcr i)) AND STM32_DMA_ISR_MASK"

lemma bit_dma_flags:
  "bit (dma_flags i s) n \<longleftrightarrow> bit STM32_DMA_ISR_MASK n \<and> bit (dma_ISR s (ifcr i)) (ishift i + n)"
  unfolding dma_flags_def bit_and_iff bit_drop_bit_eq o_apply by auto

lemma dma_flags_cleared:
  assumes "i < 16" "j < 16"
  shows "dma_flags j (dmaStreamClearInterrupt i s) = (if i = j then 0 else dma_flags j s)"
proof (rule bit_word_eqI)
  fix n
  assume "n < LENGTH(32)"
  have eq: "bit (dma_flags j (dmaStreamClearInterrupt i s)) n \<longleftrightarrow> bit STM32_DMA_ISR_MASK n \<and> bit (dma_ISR s (ifcr j)) (ishift j + n) \<and>
      \<not> (ifcr i = ifcr j \<and> ishift i \<le> ishift j + n \<and> bit STM32_DMA_ISR_MASK (ishift j + n - ishift i) \<and> ishift j + n < 32)"
    unfolding bit_dma_flags dmaStreamClearInterrupt_def write_IFCR_def
    by (auto simp: bit_and_iff bit_not_iff bit_push_bit_iff dest: bit_imp_le_length)
  show "bit (dma_flags j (dmaStreamClearInterrupt i s)) n \<longleftrightarrow> bit (if i = j then 0 else dma_flags j s) n"
  proof (cases "i = j")
    case True
    then show ?thesis unfolding eq by (auto dest: bit_imp_le_length)
  next
    case False
    have "\<not> (ishift i \<le> ishift j + n \<and> bit STM32_DMA_ISR_MASK (ishift j + n - ishift i))"
      if "bit STM32_DMA_ISR_MASK n" "ifcr i = ifcr j"
      using streams_apart [OF assms False that(2)] that(1) unfolding bit_MASK by linarith
    then show ?thesis using False unfolding eq by (auto simp: bit_dma_flags)
  qed
qed

end
