(* ===== verification/Adc.thy ===== *)
theory Adc
  imports Dma
begin

text \<open>
  The ADC driver: \<^verbatim>\<open>os/hal/src/hal_adc.c\<close>, the macros of \<^verbatim>\<open>os/hal/include/hal_adc.h\<close> and the back end
  \<^verbatim>\<open>os/hal/ports/STM32/LLD/ADCv2/hal_adc_lld.c\<close> for ADC1, the only one this build uses, and the thread of
  \<^verbatim>\<open>src/src/source/adcThread.c\<close>. The converter is part of the state. The two callbacks of a conversion group are
  names that the parameters \<open>cb\<close> and \<open>ecb\<close> interpret.
\<close>

section \<open>Data\<close>

datatype adcstate = ADC_UNINIT | ADC_STOP | ADC_READY | ADC_ACTIVE | ADC_COMPLETE | ADC_ERROR

datatype adcerror = ADC_ERR_DMAFAILURE | ADC_ERR_OVERFLOW

record ADCConversionGroup =
  grp_circular :: bool
  grp_num_channels :: "16 word"
  grp_end_cb :: "nat option"
  grp_error_cb :: "nat option"
  grp_cr1 :: "32 word"
  grp_cr2 :: "32 word"
  grp_smpr1 :: "32 word"
  grp_smpr2 :: "32 word"
  grp_sqr1 :: "32 word"
  grp_sqr2 :: "32 word"
  grp_sqr3 :: "32 word"

record ADCConfig =
  dummy :: "32 word"

text \<open>
  What happens while the thread waits: the converter finishes a conversion, the argument gives the voltage at each
  channel; an external trigger; a conversion that the DMA did not fetch in time; an error of the DMA; one of the two
  vectors; another thread stops the conversion.
\<close>

datatype adc_event = Convert "nat \<Rightarrow> 16 word" | Trigger | Overrun | DmaError | IrqDma | IrqAdc | CallStopConversion | CallStopConversionI

text \<open>
  \<open>adc_rdymsg\<close> is the message with which the waiting thread was made ready. \<open>adc_running\<close> says that the converter
  works through its sequence, \<open>adc_pos\<close> at which place it is.
\<close>

record ADCDriver = dma_sys +
  adc_state :: adcstate
  adc_config :: "ADCConfig option"
  adc_samples :: nat
  adc_depth :: nat
  adc_grpp :: "ADCConversionGroup option"
  adc_thread :: "tid option"
  adc_dmamode :: "32 word"
  adc_SR :: "32 word"
  adc_CR1 :: "32 word"
  adc_CR2 :: "32 word"
  adc_SMPR1 :: "32 word"
  adc_SMPR2 :: "32 word"
  adc_SQR1 :: "32 word"
  adc_SQR2 :: "32 word"
  adc_SQR3 :: "32 word"
  adc_CCR :: "32 word"
  rcc_adc :: bool
  adc_vector :: bool
  adc_running :: bool
  adc_pos :: nat
  adc_self :: tid
  adc_rdymsg :: "msg option"
  adc_naps :: "adc_event list"

type_synonym adc_op = "ADCDriver \<Rightarrow> ADCDriver result"
type_synonym adc_cb = "nat \<Rightarrow> nat \<Rightarrow> nat \<Rightarrow> adc_op"
type_synonym adc_ecb = "nat \<Rightarrow> adcerror \<Rightarrow> adc_op"

section \<open>Constants\<close>

definition ADC_SR_OVR :: "32 word" where "ADC_SR_OVR = push_bit 5 1"
definition ADC_CR1_SCAN :: "32 word" where "ADC_CR1_SCAN = push_bit 8 1"
definition ADC_CR1_OVRIE :: "32 word" where "ADC_CR1_OVRIE = push_bit 26 1"
definition ADC_CR2_ADON :: "32 word" where "ADC_CR2_ADON = push_bit 0 1"
definition ADC_CR2_CONT :: "32 word" where "ADC_CR2_CONT = push_bit 1 1"
definition ADC_CR2_DMA :: "32 word" where "ADC_CR2_DMA = push_bit 8 1"
definition ADC_CR2_DDS :: "32 word" where "ADC_CR2_DDS = push_bit 9 1"
definition ADC_CR2_SWSTART :: "32 word" where "ADC_CR2_SWSTART = push_bit 30 1"
definition ADC_CCR_VBATE :: "32 word" where "ADC_CCR_VBATE = push_bit 22 1"
definition ADC_CCR_TSVREFE :: "32 word" where "ADC_CCR_TSVREFE = push_bit 23 1"
definition STM32_ADC_ADCPRE :: "32 word" where "STM32_ADC_ADCPRE = 1"
definition STM32_ADC_ADC1_DMA_STREAM :: nat where "STM32_ADC_ADC1_DMA_STREAM = STM32_DMA_STREAM_ID 2 4"
definition STM32_ADC_ADC1_DMA_PRIORITY :: "32 word" where "STM32_ADC_ADC1_DMA_PRIORITY = 2"
definition STM32_ADC1_DMA_CHN :: "32 word" where "STM32_ADC1_DMA_CHN = 0"
definition ADC1_DMA_CHANNEL :: "32 word" where
  "ADC1_DMA_CHANNEL = STM32_DMA_GETCHANNEL STM32_ADC_ADC1_DMA_STREAM STM32_ADC1_DMA_CHN"

definition ADC_SQR1_NUM_CH :: "32 word \<Rightarrow> 32 word" where "ADC_SQR1_NUM_CH n = push_bit 20 (n - 1)"
definition ADC_SQR3_SQ1_N :: "32 word \<Rightarrow> 32 word" where "ADC_SQR3_SQ1_N n = push_bit 0 n"
definition ADC_SQR3_SQ2_N :: "32 word \<Rightarrow> 32 word" where "ADC_SQR3_SQ2_N n = push_bit 5 n"
definition ADC_SQR3_SQ3_N :: "32 word \<Rightarrow> 32 word" where "ADC_SQR3_SQ3_N n = push_bit 10 n"
definition ADC_SQR3_SQ4_N :: "32 word \<Rightarrow> 32 word" where "ADC_SQR3_SQ4_N n = push_bit 15 n"
definition ADC_SQR3_SQ5_N :: "32 word \<Rightarrow> 32 word" where "ADC_SQR3_SQ5_N n = push_bit 20 n"
definition ADC_SQR3_SQ6_N :: "32 word \<Rightarrow> 32 word" where "ADC_SQR3_SQ6_N n = push_bit 25 n"
definition ADC_SMPR1_SMP_AN10 :: "32 word \<Rightarrow> 32 word" where "ADC_SMPR1_SMP_AN10 n = push_bit 0 n"
definition ADC_SMPR1_SMP_AN11 :: "32 word \<Rightarrow> 32 word" where "ADC_SMPR1_SMP_AN11 n = push_bit 3 n"
definition ADC_SMPR1_SMP_AN12 :: "32 word \<Rightarrow> 32 word" where "ADC_SMPR1_SMP_AN12 n = push_bit 6 n"
definition ADC_SMPR1_SMP_AN13 :: "32 word \<Rightarrow> 32 word" where "ADC_SMPR1_SMP_AN13 n = push_bit 9 n"
definition ADC_SMPR1_SMP_AN14 :: "32 word \<Rightarrow> 32 word" where "ADC_SMPR1_SMP_AN14 n = push_bit 12 n"
definition ADC_SMPR1_SMP_AN15 :: "32 word \<Rightarrow> 32 word" where "ADC_SMPR1_SMP_AN15 n = push_bit 15 n"
definition ADC_SAMPLE_3 :: "32 word" where "ADC_SAMPLE_3 = 0"
definition ADC_CHANNEL_IN10 :: "32 word" where "ADC_CHANNEL_IN10 = 10"
definition ADC_CHANNEL_IN11 :: "32 word" where "ADC_CHANNEL_IN11 = 11"
definition ADC_CHANNEL_IN12 :: "32 word" where "ADC_CHANNEL_IN12 = 12"
definition ADC_CHANNEL_IN13 :: "32 word" where "ADC_CHANNEL_IN13 = 13"
definition ADC_CHANNEL_IN14 :: "32 word" where "ADC_CHANNEL_IN14 = 14"
definition ADC_CHANNEL_IN15 :: "32 word" where "ADC_CHANNEL_IN15 = 15"

section \<open>The converter\<close>

text \<open>
  Turning it on with \<^verbatim>\<open>SWSTART\<close> starts the sequence; without \<^verbatim>\<open>CONT\<close> a sequence under way does not start
  again, which for the driver is as good as stopping, as it turns the DMA off before. Writing a sequence register
  starts the sequence from the front.
\<close>

definition write_CR2 :: "32 word \<Rightarrow> ADCDriver \<Rightarrow> ADCDriver" where
  "write_CR2 v s = s\<lparr>adc_CR2 := v, adc_running := bit v 0 \<and> (bit v 30 \<or> bit v 1 \<and> adc_running s)\<rparr>"

definition write_SQR :: "32 word \<Rightarrow> 32 word \<Rightarrow> 32 word \<Rightarrow> ADCDriver \<Rightarrow> ADCDriver" where
  "write_SQR q1 q2 q3 s = s\<lparr>adc_SQR1 := q1, adc_SQR2 := q2, adc_SQR3 := q3, adc_pos := 0\<rparr>"

text \<open>The length of the sequence, and the channel at a place of it.\<close>

definition seq_length :: "32 word \<Rightarrow> nat" where
  "seq_length q1 = unat (take_bit 4 (drop_bit 20 q1)) + 1"

definition seq_channel :: "32 word \<Rightarrow> 32 word \<Rightarrow> 32 word \<Rightarrow> nat \<Rightarrow> nat" where
  "seq_channel q1 q2 q3 k = unat (take_bit 5
     (if k < 6 then drop_bit (5 * k) q3 else if k < 12 then drop_bit (5 * (k - 6)) q2 else drop_bit (5 * (k - 12)) q1))"

text \<open>A conversion: its result goes to the DMA, if \<^verbatim>\<open>CR2.DMA\<close> is set. After the last channel the sequence goes on if \<^verbatim>\<open>CONT\<close> is set.\<close>

definition adc_conversion :: "(nat \<Rightarrow> 16 word) \<Rightarrow> ADCDriver \<Rightarrow> ADCDriver" where
  "adc_conversion v s =
     (let x = v (seq_channel (adc_SQR1 s) (adc_SQR2 s) (adc_SQR3 s) (adc_pos s));
          s' = (if bit (adc_CR2 s) 8 then dma_request STM32_ADC_ADC1_DMA_STREAM x s else s)
      in if adc_pos s + 1 < seq_length (adc_SQR1 s) then s'\<lparr>adc_pos := adc_pos s + 1\<rparr>
         else s'\<lparr>adc_pos := 0, adc_running := bit (adc_CR2 s) 1\<rparr>)"

section \<open>Low level driver\<close>

definition adcObjectInit :: "ADCDriver \<Rightarrow> ADCDriver" where
  "adcObjectInit s = s\<lparr>adc_state := ADC_STOP, adc_config := None, adc_samples := 0, adc_depth := 0, adc_grpp := None, adc_thread := None\<rparr>"

definition adc_lld_init :: "ADCDriver \<Rightarrow> ADCDriver" where
  "adc_lld_init s = (adcObjectInit s)\<lparr>adc_dmamode :=
       STM32_DMA_CR_CHSEL ADC1_DMA_CHANNEL OR STM32_DMA_CR_PL STM32_ADC_ADC1_DMA_PRIORITY OR STM32_DMA_CR_DIR_P2M OR
       STM32_DMA_CR_MSIZE_HWORD OR STM32_DMA_CR_PSIZE_HWORD OR STM32_DMA_CR_MINC OR STM32_DMA_CR_TCIE OR
       STM32_DMA_CR_DMEIE OR STM32_DMA_CR_TEIE,
     adc_vector := True\<rparr>"

definition adcInit :: "ADCDriver \<Rightarrow> ADCDriver" where "adcInit s = adc_lld_init s"

text \<open>The name of \<^verbatim>\<open>adc_lld_serve_rx_interrupt\<close> in the redirector, and the address of the data register.\<close>

definition ADC_RX_ISR :: nat where "ADC_RX_ISR = 0"
definition ADC1_DR :: nat where "ADC1_DR = 0x4001204C"

definition adc_lld_start :: adc_op where
  "adc_lld_start s =
     (if adc_state s = ADC_STOP then
        let (b, s) = dmaStreamAllocate STM32_ADC_ADC1_DMA_STREAM (Some ADC_RX_ISR) s
        in dbgAssert ''stream already allocated'' (\<not> b)
          (let s = (dmaStreamSetPeripheral STM32_ADC_ADC1_DMA_STREAM ADC1_DR s)\<lparr>rcc_adc := True\<rparr>;
               s = s\<lparr>adc_CCR := (adc_CCR s AND (ADC_CCR_TSVREFE OR ADC_CCR_VBATE)) OR push_bit 16 STM32_ADC_ADCPRE\<rparr>
           in Inr (write_CR2 ADC_CR2_ADON (write_CR2 0 (s\<lparr>adc_CR1 := 0\<rparr>))))
      else Inr s)"

definition adc_lld_stop :: adc_op where
  "adc_lld_stop s =
     (if adc_state s = ADC_READY
      then bindE (dmaStreamRelease STM32_ADC_ADC1_DMA_STREAM s) (\<lambda>s. Inr ((write_CR2 0 (s\<lparr>adc_CR1 := 0\<rparr>))\<lparr>rcc_adc := False\<rparr>))
      else Inr s)"

definition adc_lld_start_conversion :: adc_op where
  "adc_lld_start_conversion s =
     bindE (deref ''grpp'' (adc_grpp s)) (\<lambda>grpp.
       let mode = adc_dmamode s;
           mode = (if grp_circular grpp then
                     let mode = mode OR STM32_DMA_CR_CIRC in if 1 < adc_depth s then mode OR STM32_DMA_CR_HTIE else mode
                   else mode);
           s = dmaStreamSetMemory0 STM32_ADC_ADC1_DMA_STREAM (adc_samples s) s;
           s = dmaStreamSetTransactionSize STM32_ADC_ADC1_DMA_STREAM (ucast (grp_num_channels grpp) * word_of_nat (adc_depth s)) s;
           s = dmaStreamSetMode STM32_ADC_ADC1_DMA_STREAM mode s;
           s = dmaStreamEnable STM32_ADC_ADC1_DMA_STREAM s;
           s = s\<lparr>adc_SR := 0, adc_SMPR1 := grp_smpr1 grpp, adc_SMPR2 := grp_smpr2 grpp\<rparr>;
           s = write_SQR (grp_sqr1 grpp OR ADC_SQR1_NUM_CH (ucast (grp_num_channels grpp))) (grp_sqr2 grpp) (grp_sqr3 grpp) s;
           s = s\<lparr>adc_CR1 := grp_cr1 grpp OR ADC_CR1_OVRIE OR ADC_CR1_SCAN\<rparr>;
           cr2 = grp_cr2 grpp OR ADC_CR2_DMA OR ADC_CR2_DDS OR ADC_CR2_ADON
       in Inr (if cr2 AND ADC_CR2_SWSTART \<noteq> 0
               then write_CR2 (cr2 OR ADC_CR2_CONT) (write_CR2 ((cr2 OR ADC_CR2_CONT) AND NOT ADC_CR2_SWSTART) s)
               else write_CR2 cr2 s))"

definition adc_lld_stop_conversion :: "ADCDriver \<Rightarrow> ADCDriver" where
  "adc_lld_stop_conversion s =
     (let s = (dmaStreamDisable STM32_ADC_ADC1_DMA_STREAM s)\<lparr>adc_CR1 := 0\<rparr>
      in write_CR2 ADC_CR2_ADON (write_CR2 (adc_CR2 s AND NOT ADC_CR2_SWSTART) s))"

definition adcSTM32EnableTSVREFE :: "ADCDriver \<Rightarrow> ADCDriver" where "adcSTM32EnableTSVREFE s = s\<lparr>adc_CCR := adc_CCR s OR ADC_CCR_TSVREFE\<rparr>"
definition adcSTM32DisableTSVREFE :: "ADCDriver \<Rightarrow> ADCDriver" where "adcSTM32DisableTSVREFE s = s\<lparr>adc_CCR := adc_CCR s AND NOT ADC_CCR_TSVREFE\<rparr>"
definition adcSTM32EnableVBATE :: "ADCDriver \<Rightarrow> ADCDriver" where "adcSTM32EnableVBATE s = s\<lparr>adc_CCR := adc_CCR s OR ADC_CCR_VBATE\<rparr>"
definition adcSTM32DisableVBATE :: "ADCDriver \<Rightarrow> ADCDriver" where "adcSTM32DisableVBATE s = s\<lparr>adc_CCR := adc_CCR s AND NOT ADC_CCR_VBATE\<rparr>"

section \<open>Waking the waiting thread\<close>

text \<open>\<^verbatim>\<open>osalThreadResumeI\<close> on the driver's thread reference.\<close>

definition adc_resume :: "msg \<Rightarrow> ADCDriver \<Rightarrow> ADCDriver" where
  "adc_resume m s = (case adc_thread s of None \<Rightarrow> s | Some _ \<Rightarrow> s\<lparr>adc_thread := None, adc_rdymsg := Some m\<rparr>)"

definition adc_reset_i :: "ADCDriver \<Rightarrow> ADCDriver" where "adc_reset_i s = adc_resume MSG_RESET s"
definition adc_reset_s :: "ADCDriver \<Rightarrow> ADCDriver" where "adc_reset_s s = adc_resume MSG_RESET s"
definition adc_wakeup_isr :: "ADCDriver \<Rightarrow> ADCDriver" where "adc_wakeup_isr s = adc_resume MSG_OK s"
definition adc_timeout_isr :: "ADCDriver \<Rightarrow> ADCDriver" where "adc_timeout_isr s = adc_resume MSG_TIMEOUT s"

section \<open>Interrupts\<close>

definition adc_isr_half_code :: "adc_cb \<Rightarrow> adc_op" where
  "adc_isr_half_code cb s =
     bindE (deref ''grpp'' (adc_grpp s)) (\<lambda>grpp.
       case grp_end_cb grpp of None \<Rightarrow> Inr s | Some f \<Rightarrow> cb f (adc_samples s) (adc_depth s div 2) s)"

text \<open>A sample has two bytes.\<close>

definition adc_isr_full_code :: "adc_cb \<Rightarrow> adc_op" where
  "adc_isr_full_code cb s =
     bindE (deref ''grpp'' (adc_grpp s)) (\<lambda>grpp.
       if grp_circular grpp then
         case grp_end_cb grpp of
           None \<Rightarrow> Inr s
         | Some f \<Rightarrow>
             if 1 < adc_depth s then
               let half = adc_depth s div 2; half_index = half * unat (grp_num_channels grpp)
               in cb f (adc_samples s + 2 * half_index) half s
             else cb f (adc_samples s) (adc_depth s) s
       else
         let s = adc_lld_stop_conversion s in
         bindE (case grp_end_cb grpp of
                  Some f \<Rightarrow> bindE (cb f (adc_samples s) (adc_depth s) (s\<lparr>adc_state := ADC_COMPLETE\<rparr>)) (\<lambda>s.
                    Inr (if adc_state s = ADC_COMPLETE then s\<lparr>adc_state := ADC_READY, adc_grpp := None\<rparr> else s))
                | None \<Rightarrow> Inr (s\<lparr>adc_state := ADC_READY, adc_grpp := None\<rparr>))
           (\<lambda>s. Inr (adc_wakeup_isr s)))"

text \<open>
  In the branch with a callback only the assignment of the state depends on the last test; the group is reset in
  any case.
\<close>

definition adc_isr_error_code :: "adc_ecb \<Rightarrow> adcerror \<Rightarrow> adc_op" where
  "adc_isr_error_code ecb err s =
     (let s = adc_lld_stop_conversion s in
      bindE (deref ''grpp'' (adc_grpp s)) (\<lambda>grpp.
        bindE (case grp_error_cb grpp of
                 Some f \<Rightarrow> bindE (ecb f err (s\<lparr>adc_state := ADC_ERROR\<rparr>)) (\<lambda>s.
                   let s = (if adc_state s = ADC_ERROR then s\<lparr>adc_state := ADC_READY\<rparr> else s) in Inr (s\<lparr>adc_grpp := None\<rparr>))
               | None \<Rightarrow> Inr (s\<lparr>adc_state := ADC_READY, adc_grpp := None\<rparr>))
          (\<lambda>s. Inr (adc_timeout_isr s))))"

definition adc_lld_serve_rx_interrupt :: "adc_cb \<Rightarrow> adc_ecb \<Rightarrow> 32 word \<Rightarrow> adc_op" where
  "adc_lld_serve_rx_interrupt cb ecb flags s =
     (if flags AND (STM32_DMA_ISR_TEIF OR STM32_DMA_ISR_DMEIF) \<noteq> 0 then adc_isr_error_code ecb ADC_ERR_DMAFAILURE s
      else if adc_grpp s \<noteq> None then
        if flags AND STM32_DMA_ISR_TCIF \<noteq> 0 then adc_isr_full_code cb s
        else if flags AND STM32_DMA_ISR_HTIF \<noteq> 0 then adc_isr_half_code cb s
        else Inr s
      else Inr s)"

definition STM32_ADC_HANDLER :: "adc_ecb \<Rightarrow> adc_op" where
  "STM32_ADC_HANDLER ecb s =
     (let sr = adc_SR s; s = s\<lparr>adc_SR := 0\<rparr>
      in if sr AND ADC_SR_OVR \<noteq> 0 \<and> 0 < dmaStreamGetTransactionSize STM32_ADC_ADC1_DMA_STREAM s \<and> adc_grpp s \<noteq> None
         then adc_isr_error_code ecb ADC_ERR_OVERFLOW s else Inr s)"

section \<open>Driver\<close>

definition adcStart :: "ADCConfig option \<Rightarrow> adc_op" where
  "adcStart config s =
     dbgAssert ''invalid state'' (adc_state s = ADC_STOP \<or> adc_state s = ADC_READY)
       (bindE (adc_lld_start (s\<lparr>adc_config := config\<rparr>)) (\<lambda>s. Inr (s\<lparr>adc_state := ADC_READY\<rparr>)))"

definition adcStop :: adc_op where
  "adcStop s =
     dbgAssert ''invalid state'' (adc_state s = ADC_STOP \<or> adc_state s = ADC_READY)
       (bindE (adc_lld_stop s) (\<lambda>s. Inr (s\<lparr>adc_config := None, adc_state := ADC_STOP\<rparr>)))"

definition adcStartConversionI :: "ADCConversionGroup option \<Rightarrow> nat \<Rightarrow> nat \<Rightarrow> adc_op" where
  "adcStartConversionI grpp samples depth s =
     dbgCheck ''adcStartConversionI'' (grpp \<noteq> None \<and> samples \<noteq> 0 \<and> 0 < depth \<and> (depth = 1 \<or> even depth))
     (dbgAssert ''not ready'' (adc_state s = ADC_READY \<or> adc_state s = ADC_COMPLETE \<or> adc_state s = ADC_ERROR)
       (adc_lld_start_conversion (s\<lparr>adc_samples := samples, adc_depth := depth, adc_grpp := grpp, adc_state := ADC_ACTIVE\<rparr>)))"

definition adcStartConversion :: "ADCConversionGroup option \<Rightarrow> nat \<Rightarrow> nat \<Rightarrow> adc_op" where
  "adcStartConversion grpp samples depth s = adcStartConversionI grpp samples depth s"

definition adcStopConversion :: adc_op where
  "adcStopConversion s =
     dbgAssert ''invalid state'' (adc_state s = ADC_READY \<or> adc_state s = ADC_ACTIVE)
       (Inr (if adc_state s \<noteq> ADC_READY
             then adc_reset_s ((adc_lld_stop_conversion s)\<lparr>adc_grpp := None, adc_state := ADC_READY\<rparr>) else s))"

definition adcStopConversionI :: adc_op where
  "adcStopConversionI s =
     dbgAssert ''invalid state'' (adc_state s = ADC_READY \<or> adc_state s = ADC_ACTIVE \<or> adc_state s = ADC_COMPLETE)
       (Inr (if adc_state s \<noteq> ADC_READY
             then adc_reset_i ((adc_lld_stop_conversion s)\<lparr>adc_grpp := None, adc_state := ADC_READY\<rparr>) else s))"

section \<open>What happens meanwhile\<close>

text \<open>
  The vectors may be entered at any time, also when their cause is gone by then: the interrupt controller keeps a
  request pending. Bits 28 and 29 of \<^verbatim>\<open>CR2\<close> enable the external trigger.
\<close>

fun adc_step :: "adc_cb \<Rightarrow> adc_ecb \<Rightarrow> adc_event \<Rightarrow> adc_op" where
  "adc_step cb ecb (Convert v) s = Inr (if adc_running s then adc_conversion v s else s)"
| "adc_step cb ecb Trigger s = Inr (if bit (adc_CR2 s) 0 \<and> (bit (adc_CR2 s) 28 \<or> bit (adc_CR2 s) 29) then s\<lparr>adc_running := True\<rparr> else s)"
| "adc_step cb ecb Overrun s = Inr (if adc_running s then s\<lparr>adc_SR := adc_SR s OR ADC_SR_OVR, adc_running := False\<rparr> else s)"
| "adc_step cb ecb DmaError s = Inr (dma_error STM32_ADC_ADC1_DMA_STREAM s)"
| "adc_step cb ecb IrqDma s =
     (if dma_vector s (dma_number STM32_ADC_ADC1_DMA_STREAM)
      then STM32_DMA2_CH4_HANDLER (\<lambda>_. adc_lld_serve_rx_interrupt cb ecb) s else Inr s)"
| "adc_step cb ecb IrqAdc s = (if adc_vector s then STM32_ADC_HANDLER ecb s else Inr s)"
| "adc_step cb ecb CallStopConversion s = adcStopConversion s"
| "adc_step cb ecb CallStopConversionI s = adcStopConversionI s"

section \<open>Waiting for a conversion\<close>

fun adc_sleep :: "adc_cb \<Rightarrow> adc_ecb \<Rightarrow> adc_event list \<Rightarrow> ADCDriver \<Rightarrow> (msg \<times> ADCDriver) result" where
  "adc_sleep cb ecb [] s = Inl Blocked"
| "adc_sleep cb ecb (e # es) s =
     bindE (adc_step cb ecb e s) (\<lambda>s. case adc_rdymsg s of
       None \<Rightarrow> adc_sleep cb ecb es s
     | Some m \<Rightarrow> Inr (m, s\<lparr>adc_naps := es\<rparr>))"

text \<open>\<^verbatim>\<open>osalThreadSuspendS\<close> on the driver's thread reference.\<close>

definition adc_suspend :: "adc_cb \<Rightarrow> adc_ecb \<Rightarrow> ADCDriver \<Rightarrow> (msg \<times> ADCDriver) result" where
  "adc_suspend cb ecb s = adc_sleep cb ecb (adc_naps s) (s\<lparr>adc_thread := Some (adc_self s), adc_rdymsg := None\<rparr>)"

definition adcConvert :: "adc_cb \<Rightarrow> adc_ecb \<Rightarrow> ADCConversionGroup option \<Rightarrow> nat \<Rightarrow> nat \<Rightarrow> ADCDriver \<Rightarrow> (msg \<times> ADCDriver) result" where
  "adcConvert cb ecb grpp samples depth s =
     dbgAssert ''already waiting'' (adc_thread s = None)
       (bindE (adcStartConversionI grpp samples depth s) (adc_suspend cb ecb))"

section \<open>The thread\<close>

definition ADC_GRP1_NUM_CHANNELS :: nat where "ADC_GRP1_NUM_CHANNELS = 6"
definition ADC_GRP1_BUF_DEPTH :: nat where "ADC_GRP1_BUF_DEPTH = 4"

definition adcgrpcfg :: ADCConversionGroup where
  "adcgrpcfg =
     \<lparr>grp_circular = False, grp_num_channels = word_of_nat ADC_GRP1_NUM_CHANNELS, grp_end_cb = None, grp_error_cb = None,
      grp_cr1 = 0, grp_cr2 = ADC_CR2_SWSTART,
      grp_smpr1 = ADC_SMPR1_SMP_AN10 ADC_SAMPLE_3 OR ADC_SMPR1_SMP_AN11 ADC_SAMPLE_3 OR ADC_SMPR1_SMP_AN12 ADC_SAMPLE_3 OR
        ADC_SMPR1_SMP_AN13 ADC_SAMPLE_3 OR ADC_SMPR1_SMP_AN14 ADC_SAMPLE_3 OR ADC_SMPR1_SMP_AN15 ADC_SAMPLE_3,
      grp_smpr2 = 0, grp_sqr1 = ADC_SQR1_NUM_CH (word_of_nat ADC_GRP1_NUM_CHANNELS), grp_sqr2 = 0,
      grp_sqr3 = ADC_SQR3_SQ1_N ADC_CHANNEL_IN10 OR ADC_SQR3_SQ2_N ADC_CHANNEL_IN11 OR ADC_SQR3_SQ3_N ADC_CHANNEL_IN12 OR
        ADC_SQR3_SQ4_N ADC_CHANNEL_IN13 OR ADC_SQR3_SQ5_N ADC_CHANNEL_IN14 OR ADC_SQR3_SQ6_N ADC_CHANNEL_IN15\<rparr>"

text \<open>One turn of the thread; \<open>samples\<close> is the address of the buffer it shares with the communication thread.\<close>

definition adcSample_turn :: "adc_cb \<Rightarrow> adc_ecb \<Rightarrow> nat \<Rightarrow> ADCDriver \<Rightarrow> (msg \<times> ADCDriver) result" where
  "adcSample_turn cb ecb samples s = adcConvert cb ecb (Some adcgrpcfg) samples ADC_GRP1_BUF_DEPTH s"

end
