(* ===== verification/AdcSpec.thy ===== *)
theory AdcSpec
  imports Adc
begin

text \<open>
  What the ADC driver promises: whatever the converter, the DMA and other threads do, it does not stop the system and
  writes nothing outside the buffer; a conversion that ends well has filled the buffer row by row.
\<close>

section \<open>The stream of the driver\<close>

lemma adc_stream [simp]: "STM32_ADC_ADC1_DMA_STREAM = 12" "ifcr 12 = HISR2" "ishift 12 = 0" "dma_number 12 = 60"
  by (simp_all add: STM32_ADC_ADC1_DMA_STREAM_def STM32_DMA_STREAM_ID_def stm32_dma_streams_def)

abbreviation stream :: "ADCDriver \<Rightarrow> dma_stream" where "stream s \<equiv> dma_stream s 12"
abbreviation enabled :: "ADCDriver \<Rightarrow> bool" where "enabled s \<equiv> bit (SxCR (stream s)) 0"

lemma flags_12: "dma_flags 12 s = dma_ISR s HISR2 AND STM32_DMA_ISR_MASK"
  by (simp add: dma_flags_def)

lemma flags_and: "(dma_flags i s AND (STM32_DMA_ISR_TEIF OR STM32_DMA_ISR_DMEIF) \<noteq> 0) = (bit (dma_flags i s) 3 \<or> bit (dma_flags i s) 2)"
  "(dma_flags i s AND STM32_DMA_ISR_TCIF \<noteq> 0) = bit (dma_flags i s) 5"
  "(dma_flags i s AND STM32_DMA_ISR_HTIF \<noteq> 0) = bit (dma_flags i s) 4"
proof -
  have e: "w AND v \<noteq> 0 \<longleftrightarrow> (\<exists>n. bit w n \<and> bit v n)" for w v :: "32 word"
  proof -
    have "w AND v \<noteq> 0 \<longleftrightarrow> (\<exists>n. bit (w AND v) n)" using bit_eqI [of "w AND v" 0] by auto
    then show ?thesis unfolding bit_and_iff .
  qed
  show "(dma_flags i s AND (STM32_DMA_ISR_TEIF OR STM32_DMA_ISR_DMEIF) \<noteq> 0) = (bit (dma_flags i s) 3 \<or> bit (dma_flags i s) 2)"
    "(dma_flags i s AND STM32_DMA_ISR_TCIF \<noteq> 0) = bit (dma_flags i s) 5"
    "(dma_flags i s AND STM32_DMA_ISR_HTIF \<noteq> 0) = bit (dma_flags i s) 4"
    unfolding e bit_or_iff bit_dma_consts by auto
qed

lemma flags_update [simp]:
  "dma_flags i (s\<lparr>adc_state := st\<rparr>) = dma_flags i s" "dma_flags i (s\<lparr>adc_grpp := g\<rparr>) = dma_flags i s"
  "dma_flags i (s\<lparr>adc_thread := t\<rparr>) = dma_flags i s" "dma_flags i (s\<lparr>adc_rdymsg := m\<rparr>) = dma_flags i s"
  "dma_flags i (s\<lparr>adc_SR := v\<rparr>) = dma_flags i s" "dma_flags i (s\<lparr>adc_running := r\<rparr>) = dma_flags i s"
  "dma_flags i (s\<lparr>adc_pos := p\<rparr>) = dma_flags i s" "dma_flags i (s\<lparr>adc_config := c\<rparr>) = dma_flags i s"
  "dma_flags i (s\<lparr>adc_naps := ns\<rparr>) = dma_flags i s"
  by (simp_all add: dma_flags_def)

lemma flags_raise: "bit (dma_flags 12 (dma_raise 12 f s)) n \<longleftrightarrow> bit STM32_DMA_ISR_MASK n \<and> (bit f n \<or> bit (dma_ISR s HISR2) n)"
  by (auto simp: flags_12 dma_raise_def bit_and_iff bit_or_iff)

text \<open>Serving the interrupt reads the flags and clears them.\<close>

definition flags_served :: "ADCDriver \<Rightarrow> ADCDriver" where
  "flags_served s = write_IFCR HISR2 (dma_flags 12 s) s"

lemma flags_served_fields [simp]:
  "dma_flags 12 (flags_served s) = 0" "adc_state (flags_served s) = adc_state s" "adc_grpp (flags_served s) = adc_grpp s"
  "dma_stream (flags_served s) = dma_stream s" "ram (flags_served s) = ram s" "adc_samples (flags_served s) = adc_samples s"
  "adc_depth (flags_served s) = adc_depth s" "adc_dmamode (flags_served s) = adc_dmamode s" "adc_thread (flags_served s) = adc_thread s"
  "adc_rdymsg (flags_served s) = adc_rdymsg s" "dma_isr_redir (flags_served s) = dma_isr_redir s" "dma_vector (flags_served s) = dma_vector s"
  "dma_streams_mask (flags_served s) = dma_streams_mask s"
  "adc_running (flags_served s) = adc_running s" "adc_CR2 (flags_served s) = adc_CR2 s" "adc_SR (flags_served s) = adc_SR s"
  "adc_vector (flags_served s) = adc_vector s" "adc_self (flags_served s) = adc_self s" "adc_naps (flags_served s) = adc_naps s"
  "adc_SQR1 (flags_served s) = adc_SQR1 s" "adc_SQR2 (flags_served s) = adc_SQR2 s" "adc_SQR3 (flags_served s) = adc_SQR3 s"
  "adc_pos (flags_served s) = adc_pos s"
proof -
  show "dma_flags 12 (flags_served s) = 0"
    by (rule bit_word_eqI) (auto simp: flags_12 flags_served_def write_IFCR_def bit_and_iff bit_or_iff bit_not_iff)
qed (simp_all add: flags_served_def write_IFCR_def)

lemma IrqDma_eq:
  assumes "dma_isr_redir s 12 = Some ADC_RX_ISR"
  shows "STM32_DMA2_CH4_HANDLER (\<lambda>_. adc_lld_serve_rx_interrupt cb ecb) s = adc_lld_serve_rx_interrupt cb ecb (dma_flags 12 s) (flags_served s)"
  using assms by (simp add: STM32_DMA2_CH4_HANDLER_def dma_serve_def flags_served_def dma_flags_def Let_def write_IFCR_def)

lemma stop_fields [simp]:
  "\<not> enabled (adc_lld_stop_conversion s)" "dma_flags 12 (adc_lld_stop_conversion s) = 0"
  "adc_state (adc_lld_stop_conversion s) = adc_state s" "adc_grpp (adc_lld_stop_conversion s) = adc_grpp s"
  "ram (adc_lld_stop_conversion s) = ram s" "adc_samples (adc_lld_stop_conversion s) = adc_samples s"
  "adc_depth (adc_lld_stop_conversion s) = adc_depth s" "adc_dmamode (adc_lld_stop_conversion s) = adc_dmamode s"
  "adc_thread (adc_lld_stop_conversion s) = adc_thread s" "adc_rdymsg (adc_lld_stop_conversion s) = adc_rdymsg s"
  "dma_isr_redir (adc_lld_stop_conversion s) = dma_isr_redir s" "dma_vector (adc_lld_stop_conversion s) = dma_vector s"
  "dma_streams_mask (adc_lld_stop_conversion s) = dma_streams_mask s"
  "\<not> adc_running (adc_lld_stop_conversion s)" "adc_vector (adc_lld_stop_conversion s) = adc_vector s"
  "adc_self (adc_lld_stop_conversion s) = adc_self s" "adc_naps (adc_lld_stop_conversion s) = adc_naps s"
proof -
  have "adc_lld_stop_conversion s = write_CR2 ADC_CR2_ADON (write_CR2 (adc_CR2 s AND NOT ADC_CR2_SWSTART)
      ((dmaStreamDisable 12 s)\<lparr>adc_CR1 := 0\<rparr>))" (is "_ = ?t")
    by (simp add: adc_lld_stop_conversion_def Let_def dmaStreamDisable_def dmaStreamClearInterrupt_def write_IFCR_def on_stream_def)
  moreover have "dma_flags 12 ?t = 0"
    by (rule bit_word_eqI)
      (simp add: flags_12 write_CR2_def dmaStreamDisable_def dmaStreamClearInterrupt_def write_IFCR_def on_stream_def bit_and_iff bit_not_iff)
  moreover have "\<not> enabled ?t"
    by (simp add: write_CR2_def dmaStreamDisable_def dmaStreamClearInterrupt_def write_IFCR_def on_stream_def bit_and_iff bit_not_iff bit_or_iff bit_dma_consts)
  moreover have "\<not> adc_running ?t"
    unfolding write_CR2_def ADC_CR2_ADON_def bit_single by simp
  ultimately show "\<not> enabled (adc_lld_stop_conversion s)" "dma_flags 12 (adc_lld_stop_conversion s) = 0"
    "\<not> adc_running (adc_lld_stop_conversion s)"
    by simp_all
qed (simp_all add: adc_lld_stop_conversion_def Let_def write_CR2_def dmaStreamDisable_def dmaStreamClearInterrupt_def write_IFCR_def on_stream_def)


section \<open>A transfer stays in its buffer\<close>

definition transfer_ok :: "nat \<Rightarrow> nat \<Rightarrow> ADCDriver \<Rightarrow> bool" where
  "transfer_ok buf n s \<longleftrightarrow> M0AR (stream s) = buf \<and> unat (dma_count (stream s)) = n \<and>
     (enabled s \<longrightarrow> bit (SxCR (stream s)) 10 \<and> NDTR (stream s) \<noteq> 0 \<and> unat (NDTR (stream s)) \<le> n \<and>
        dma_next (stream s) = buf + 2 * (n - unat (NDTR (stream s))))"

lemma dma_request_fields [simp]:
  "adc_state (dma_request i x s) = adc_state s" "adc_grpp (dma_request i x s) = adc_grpp s"
  "adc_samples (dma_request i x s) = adc_samples s" "adc_depth (dma_request i x s) = adc_depth s"
  "adc_dmamode (dma_request i x s) = adc_dmamode s" "adc_thread (dma_request i x s) = adc_thread s"
  "adc_rdymsg (dma_request i x s) = adc_rdymsg s" "dma_isr_redir (dma_request i x s) = dma_isr_redir s"
  "dma_vector (dma_request i x s) = dma_vector s" "dma_streams_mask (dma_request i x s) = dma_streams_mask s"
  "adc_running (dma_request i x s) = adc_running s" "adc_CR2 (dma_request i x s) = adc_CR2 s" "adc_SR (dma_request i x s) = adc_SR s"
  "adc_vector (dma_request i x s) = adc_vector s" "adc_self (dma_request i x s) = adc_self s" "adc_naps (dma_request i x s) = adc_naps s"
  "adc_SQR1 (dma_request i x s) = adc_SQR1 s" "adc_SQR2 (dma_request i x s) = adc_SQR2 s" "adc_SQR3 (dma_request i x s) = adc_SQR3 s"
  "adc_pos (dma_request i x s) = adc_pos s"
  by (simp_all add: dma_request_def Let_def dma_raise_def on_stream_def)

text \<open>The stream after a request, without the flags.\<close>

definition requested :: "dma_stream \<Rightarrow> dma_stream" where
  "requested d =
     (if NDTR d - 1 \<noteq> 0 then d\<lparr>NDTR := NDTR d - 1, dma_next := (if bit (SxCR d) 10 then dma_next d + 2 else dma_next d)\<rparr>
      else if bit (SxCR d) 8 then d\<lparr>NDTR := dma_count d, dma_next := M0AR d\<rparr>
      else d\<lparr>NDTR := 0, SxCR := SxCR d AND NOT STM32_DMA_CR_EN\<rparr>)"

lemma dma_request_effect:
  "stream (dma_request 12 x s) = (if enabled s \<and> NDTR (stream s) \<noteq> 0 then requested (stream s) else stream s)"
  "ram (dma_request 12 x s) = (if enabled s \<and> NDTR (stream s) \<noteq> 0
     then store_bytes (ram s) (dma_next (stream s)) [ucast x, ucast (drop_bit 8 x)] else ram s)"
  by (auto simp: dma_request_def Let_def dma_raise_def on_stream_def requested_def)

lemma requested_ok:
  assumes "transfer_ok buf n s" "enabled s" "0 < n" and s': "stream s' = requested (stream s)"
  shows "transfer_ok buf n s'"
proof -
  let ?d = "stream s"
  have d: "M0AR ?d = buf" "unat (dma_count ?d) = n" "bit (SxCR ?d) 10" "NDTR ?d \<noteq> 0" "unat (NDTR ?d) \<le> n"
    "dma_next ?d = buf + 2 * (n - unat (NDTR ?d))"
    using assms(1,2) by (auto simp: transfer_ok_def)
  have m: "unat (NDTR ?d - 1) = unat (NDTR ?d) - 1" using d(4) by (rule unat_minus_one)
  consider "NDTR ?d - 1 \<noteq> 0" | "NDTR ?d - 1 = 0" "bit (SxCR ?d) 8" | "NDTR ?d - 1 = 0" "\<not> bit (SxCR ?d) 8" by blast
  then show ?thesis
  proof cases
    case 1
    then have r: "requested ?d = ?d\<lparr>NDTR := NDTR ?d - 1, dma_next := dma_next ?d + 2\<rparr>" using d(3) by (simp add: requested_def)
    have p: "0 < unat (NDTR ?d)" using d(4) unfolding unat_gt_0 .
    have a: "dma_next ?d + 2 = buf + 2 * (n - unat (NDTR ?d - 1))" "unat (NDTR ?d - 1) \<le> n"
      unfolding m d(6) using p d(5) by arith+
    show ?thesis unfolding transfer_ok_def s' r using d(1-4) 1 a by simp
  next
    case 2
    then have r: "requested ?d = ?d\<lparr>NDTR := dma_count ?d, dma_next := M0AR ?d\<rparr>" by (simp add: requested_def)
    have "dma_count ?d \<noteq> 0" using d(2) assms(3) by auto
    then show ?thesis using d unfolding transfer_ok_def s' r by simp
  next
    case 3
    then have r: "requested ?d = ?d\<lparr>NDTR := 0, SxCR := SxCR ?d AND NOT STM32_DMA_CR_EN\<rparr>" by (simp add: requested_def)
    have "\<not> bit (SxCR ?d AND NOT STM32_DMA_CR_EN) 0" unfolding bit_and_iff bit_not_iff bit_dma_consts by simp
    then show ?thesis using d(1,2) unfolding transfer_ok_def s' r by simp
  qed
qed

lemma request_ok:
  assumes "transfer_ok buf n s" "0 < n"
  shows "transfer_ok buf n (dma_request 12 x s)" "a \<notin> {buf ..< buf + 2 * n} \<Longrightarrow> ram (dma_request 12 x s) a = ram s a"
proof -
  show "transfer_ok buf n (dma_request 12 x s)"
  proof (cases "enabled s \<and> NDTR (stream s) \<noteq> 0")
    case True
    then show ?thesis using requested_ok [OF assms(1) _ assms(2)] dma_request_effect(1) [of x s] by simp
  next
    case False
    then show ?thesis using assms(1) dma_request_effect(1) [of x s] by (simp add: transfer_ok_def)
  qed
  assume a: "a \<notin> {buf ..< buf + 2 * n}"
  show "ram (dma_request 12 x s) a = ram s a"
  proof (cases "enabled s \<and> NDTR (stream s) \<noteq> 0")
    case True
    then have "dma_next (stream s) = buf + 2 * (n - unat (NDTR (stream s)))" "0 < unat (NDTR (stream s))" "unat (NDTR (stream s)) \<le> n"
      using assms(1) by (auto simp: transfer_ok_def unat_gt_0)
    then have "a < dma_next (stream s) \<or> dma_next (stream s) + 2 \<le> a" using a by auto
    then show ?thesis unfolding dma_request_effect(2) by (simp add: store_bytes_frame)
  next
    case False
    then show ?thesis unfolding dma_request_effect(2) by (simp only: if_False)
  qed
qed

section \<open>The driver as a whole\<close>

definition rows :: "ADCConversionGroup \<Rightarrow> nat \<Rightarrow> nat" where
  "rows g depth = unat (grp_num_channels g) * depth"

definition plain :: "ADCConversionGroup \<Rightarrow> bool" where
  "plain g \<longleftrightarrow> grp_end_cb g = None \<and> grp_error_cb g = None"

definition fits :: "nat set \<Rightarrow> ADCConversionGroup \<Rightarrow> nat \<Rightarrow> nat \<Rightarrow> bool" where
  "fits R g buf depth \<longleftrightarrow> 0 < rows g depth \<and> rows g depth < 65536 \<and> {buf ..< buf + 2 * rows g depth} \<subseteq> R"

definition installed :: "ADCDriver \<Rightarrow> bool" where
  "installed s \<longleftrightarrow> dma_isr_redir s 12 = Some ADC_RX_ISR \<and> bit (dma_streams_mask s) 12"

definition idle :: "ADCDriver \<Rightarrow> bool" where
  "idle s \<longleftrightarrow> adc_state s = ADC_READY \<and> installed s \<and> \<not> enabled s \<and> dma_flags 12 s = 0 \<and> adc_grpp s = None"

definition stopped :: "ADCDriver \<Rightarrow> bool" where
  "stopped s \<longleftrightarrow> adc_state s = ADC_STOP \<and> \<not> bit (dma_streams_mask s) 12 \<and> \<not> dma_vector s 60 \<and> \<not> enabled s \<and> adc_grpp s = None"

definition converting :: "nat set \<Rightarrow> ADCDriver \<Rightarrow> bool" where
  "converting R s \<longleftrightarrow> adc_state s = ADC_ACTIVE \<and> installed s \<and>
     (\<exists>g. adc_grpp s = Some g \<and> plain g \<and> fits R g (adc_samples s) (adc_depth s) \<and>
        transfer_ok (adc_samples s) (rows g (adc_depth s)) s)"

definition dmamode_ok :: "ADCDriver \<Rightarrow> bool" where
  "dmamode_ok s \<longleftrightarrow> bit (adc_dmamode s) 10 \<and> \<not> bit (adc_dmamode s) 8 \<and> \<not> bit (adc_dmamode s) 0"

definition adc_inv :: "nat set \<Rightarrow> mem \<Rightarrow> ADCDriver \<Rightarrow> bool" where
  "adc_inv R m s \<longleftrightarrow> dmamode_ok s \<and> (\<forall>a. a \<notin> R \<longrightarrow> ram s a = m a) \<and> (stopped s \<or> idle s \<or> converting R s)"

text \<open>What ends a conversion, in one state or another, leaves the driver idle.\<close>

lemma idle_stop:
  "installed s \<Longrightarrow> idle ((adc_lld_stop_conversion s)\<lparr>adc_state := ADC_READY, adc_grpp := None\<rparr>)"
  by (simp add: idle_def installed_def)


section \<open>Starting\<close>

definition adc_mode :: "ADCConversionGroup \<Rightarrow> nat \<Rightarrow> ADCDriver \<Rightarrow> 32 word" where
  "adc_mode g depth s =
     (if grp_circular g then if 1 < depth then (adc_dmamode s OR STM32_DMA_CR_CIRC) OR STM32_DMA_CR_HTIE else adc_dmamode s OR STM32_DMA_CR_CIRC
      else adc_dmamode s)"

lemma transaction_size:
  "(ucast (ucast num * word_of_nat depth :: 32 word) :: 16 word) = word_of_nat (unat (num :: 16 word) * depth)"
proof -
  have "(ucast num :: 32 word) = word_of_nat (unat num)" by simp
  then have e: "(ucast num * word_of_nat depth :: 32 word) = word_of_nat (unat num * depth)" by (simp del: of_nat_unat)
  have "(ucast (word_of_nat k :: 32 word) :: 16 word) = word_of_nat k" for k
    by (rule bit_word_eqI) (simp add: bit_unsigned_iff bit_simps)
  then show ?thesis unfolding e .
qed

text \<open>The state after a start.\<close>

definition started :: "ADCConversionGroup \<Rightarrow> nat \<Rightarrow> nat \<Rightarrow> ADCDriver \<Rightarrow> ADCDriver \<Rightarrow> bool" where
  "started g buf depth s t \<longleftrightarrow>
     adc_state t = ADC_ACTIVE \<and> adc_grpp t = Some g \<and> adc_samples t = buf \<and> adc_depth t = depth \<and>
     stream t = (stream s)\<lparr>M0AR := buf, NDTR := word_of_nat (rows g depth), SxCR := adc_mode g depth s OR STM32_DMA_CR_EN,
       dma_next := buf, dma_count := word_of_nat (rows g depth)\<rparr> \<and>
     ram t = ram s \<and> dma_ISR t = dma_ISR s \<and> adc_dmamode t = adc_dmamode s \<and> dma_isr_redir t = dma_isr_redir s \<and>
     dma_streams_mask t = dma_streams_mask s \<and> dma_vector t = dma_vector s \<and> adc_vector t = adc_vector s \<and>
     adc_thread t = adc_thread s \<and> adc_self t = adc_self s \<and> adc_naps t = adc_naps s \<and> adc_SR t = 0 \<and> adc_pos t = 0 \<and>
     adc_SQR1 t = grp_sqr1 g OR ADC_SQR1_NUM_CH (ucast (grp_num_channels g)) \<and> adc_SQR2 t = grp_sqr2 g \<and> adc_SQR3 t = grp_sqr3 g \<and>
     bit (adc_CR2 t) 8 \<and> (bit (grp_cr2 g) 30 \<longrightarrow> adc_CR2 t = grp_cr2 g OR ADC_CR2_DMA OR ADC_CR2_DDS OR ADC_CR2_ADON OR ADC_CR2_CONT \<and> adc_running t)"

lemma bit_adc_consts [bit_simps]:
  "bit ADC_SR_OVR n \<longleftrightarrow> n = 5" "bit ADC_CR2_ADON n \<longleftrightarrow> n = 0" "bit ADC_CR2_CONT n \<longleftrightarrow> n = 1" "bit ADC_CR2_DMA n \<longleftrightarrow> n = 8"
  "bit ADC_CR2_DDS n \<longleftrightarrow> n = 9" "bit ADC_CR2_SWSTART n \<longleftrightarrow> n = 30"
  unfolding ADC_SR_OVR_def ADC_CR2_ADON_def ADC_CR2_CONT_def ADC_CR2_DMA_def ADC_CR2_DDS_def ADC_CR2_SWSTART_def bit_single
  by simp_all

lemma and_nonzero: "w AND v \<noteq> 0 \<longleftrightarrow> (\<exists>n. bit w n \<and> bit v n)" for w v :: "32 word"
proof -
  have "w AND v \<noteq> 0 \<longleftrightarrow> (\<exists>n. bit (w AND v) n)" using bit_eqI [of "w AND v" 0] by auto
  then show ?thesis unfolding bit_and_iff .
qed

lemma start_effect:
  assumes "rows g depth < 65536" "buf \<noteq> 0" "0 < depth" "depth = 1 \<or> even depth"
    and "adc_state s = ADC_READY \<or> adc_state s = ADC_COMPLETE \<or> adc_state s = ADC_ERROR"
  shows "\<exists>t. adcStartConversionI (Some g) buf depth s = Inr t \<and> started g buf depth s t"
proof -
  let ?cr2 = "grp_cr2 g OR ADC_CR2_DMA OR ADC_CR2_DDS OR ADC_CR2_ADON"
  have n: "(ucast (ucast (grp_num_channels g) * word_of_nat depth :: 32 word) :: 16 word) = word_of_nat (rows g depth)"
    unfolding rows_def by (rule transaction_size)
  have sw: "?cr2 AND ADC_CR2_SWSTART \<noteq> 0 \<longleftrightarrow> bit (grp_cr2 g) 30"
    unfolding and_nonzero bit_or_iff bit_adc_consts by auto
  have b: "bit ?cr2 8" "bit ?cr2 0" "bit (?cr2 OR ADC_CR2_CONT) 8" "bit (?cr2 OR ADC_CR2_CONT) 0"
    "bit (grp_cr2 g) 30 \<Longrightarrow> bit (?cr2 OR ADC_CR2_CONT) 30"
    unfolding bit_or_iff bit_adc_consts by simp_all
  define u where "u = write_SQR (grp_sqr1 g OR ADC_SQR1_NUM_CH (ucast (grp_num_channels g))) (grp_sqr2 g) (grp_sqr3 g)
     ((dmaStreamEnable 12 (dmaStreamSetMode 12 (adc_mode g depth s) (dmaStreamSetTransactionSize 12
       (ucast (grp_num_channels g) * word_of_nat depth) (dmaStreamSetMemory0 12 buf
         (s\<lparr>adc_samples := buf, adc_depth := depth, adc_grpp := Some g, adc_state := ADC_ACTIVE\<rparr>)))))
       \<lparr>adc_SR := 0, adc_SMPR1 := grp_smpr1 g, adc_SMPR2 := grp_smpr2 g\<rparr>)"
  define v where "v = u\<lparr>adc_CR1 := grp_cr1 g OR ADC_CR1_OVRIE OR ADC_CR1_SCAN\<rparr>"
  define t where "t = (if bit (grp_cr2 g) 30 then write_CR2 (?cr2 OR ADC_CR2_CONT) (write_CR2 ((?cr2 OR ADC_CR2_CONT) AND NOT ADC_CR2_SWSTART) v)
     else write_CR2 ?cr2 v)"
  have start: "adcStartConversionI (Some g) buf depth s = Inr t"
    using assms(2-5) unfolding adcStartConversionI_def adc_lld_start_conversion_def t_def v_def u_def sw [symmetric]
    by (simp add: Let_def adc_mode_def dmaStreamSetMemory0_def dmaStreamSetTransactionSize_def on_stream_def)
  have v: "adc_state v = ADC_ACTIVE \<and> adc_grpp v = Some g \<and> adc_samples v = buf \<and> adc_depth v = depth \<and>
     stream v = (stream s)\<lparr>M0AR := buf, NDTR := word_of_nat (rows g depth), SxCR := adc_mode g depth s OR STM32_DMA_CR_EN,
       dma_next := buf, dma_count := word_of_nat (rows g depth)\<rparr> \<and>
     ram v = ram s \<and> dma_ISR v = dma_ISR s \<and> adc_dmamode v = adc_dmamode s \<and> dma_isr_redir v = dma_isr_redir s \<and>
     dma_streams_mask v = dma_streams_mask s \<and> dma_vector v = dma_vector s \<and> adc_vector v = adc_vector s \<and>
     adc_thread v = adc_thread s \<and> adc_self v = adc_self s \<and> adc_naps v = adc_naps s \<and> adc_SR v = 0 \<and> adc_pos v = 0 \<and>
     adc_SQR1 v = grp_sqr1 g OR ADC_SQR1_NUM_CH (ucast (grp_num_channels g)) \<and> adc_SQR2 v = grp_sqr2 g \<and> adc_SQR3 v = grp_sqr3 g"
    by (simp add: v_def u_def write_SQR_def dmaStreamSetMemory0_def dmaStreamSetTransactionSize_def dmaStreamSetMode_def
        dmaStreamEnable_def on_stream_def n)
  then have "started g buf depth s t"
    using b unfolding started_def t_def write_CR2_def by (simp add: or.assoc)
  then show ?thesis using start by blast
qed

lemma started_converting:
  assumes t: "started g buf depth s t" and "installed s" "dmamode_ok s" "plain g" "fits R g buf depth"
  shows "converting R t" "enabled t"
proof -
  have n: "rows g depth < 65536" "0 < rows g depth" using assms(5) by (auto simp: fits_def)
  then have u: "unat (word_of_nat (rows g depth) :: 16 word) = rows g depth" by (simp add: unat_of_nat)
  have nz: "(word_of_nat (rows g depth) :: 16 word) \<noteq> 0"
  proof
    assume "(word_of_nat (rows g depth) :: 16 word) = 0"
    then show False using u n(2) by simp
  qed
  have b: "bit (adc_mode g depth s OR STM32_DMA_CR_EN) 10" "bit (adc_mode g depth s OR STM32_DMA_CR_EN) 0"
    using assms(3) unfolding adc_mode_def dmamode_ok_def bit_or_iff if_distrib [of "\<lambda>w. bit w _"] bit_dma_consts by auto
  have "transfer_ok buf (rows g depth) t"
    using t u nz b unfolding transfer_ok_def started_def by simp
  then show "converting R t" using t assms(2,4,5) unfolding converting_def started_def installed_def by simp
  show "enabled t" using t b unfolding started_def by simp
qed


section \<open>Ending\<close>

text \<open>The end of a conversion, whatever the reason.\<close>

definition ended :: "msg \<Rightarrow> ADCDriver \<Rightarrow> ADCDriver" where
  "ended m s = adc_resume m ((adc_lld_stop_conversion s)\<lparr>adc_state := ADC_READY, adc_grpp := None\<rparr>)"

lemma resume_fields [simp]:
  "adc_state (adc_resume m s) = adc_state s" "adc_grpp (adc_resume m s) = adc_grpp s" "dma_stream (adc_resume m s) = dma_stream s"
  "dma_flags i (adc_resume m s) = dma_flags i s" "ram (adc_resume m s) = ram s" "adc_dmamode (adc_resume m s) = adc_dmamode s"
  "dma_isr_redir (adc_resume m s) = dma_isr_redir s" "dma_streams_mask (adc_resume m s) = dma_streams_mask s"
  "dma_vector (adc_resume m s) = dma_vector s" "adc_vector (adc_resume m s) = adc_vector s" "adc_self (adc_resume m s) = adc_self s"
  "adc_thread (adc_resume m s) = None" "adc_naps (adc_resume m s) = adc_naps s"
  "adc_rdymsg (adc_resume m s) = (if adc_thread s = None then adc_rdymsg s else Some m)"
  by (simp_all add: adc_resume_def split: option.split)

lemma ended_fields [simp]:
  "ram (ended m s) = ram s" "adc_dmamode (ended m s) = adc_dmamode s" "adc_thread (ended m s) = None"
  "adc_rdymsg (ended m s) = (if adc_thread s = None then adc_rdymsg s else Some m)" "adc_naps (ended m s) = adc_naps s"
  "adc_vector (ended m s) = adc_vector s" "dma_vector (ended m s) = dma_vector s" "adc_self (ended m s) = adc_self s"
  by (simp_all add: ended_def)

lemma idle_ended: "installed s \<Longrightarrow> idle (ended m s)"
  using idle_stop [of s] by (simp add: idle_def installed_def ended_def)

lemma isr_codes:
  assumes "adc_grpp s = Some g" "plain g"
  shows "adc_isr_error_code ecb err s = Inr (ended MSG_TIMEOUT s)"
    "adc_isr_full_code cb s = Inr (if grp_circular g then s else ended MSG_OK s)"
    "adc_isr_half_code cb s = Inr s"
  using assms
  by (simp_all add: plain_def adc_isr_error_code_def adc_isr_full_code_def adc_isr_half_code_def ended_def adc_timeout_isr_def
      adc_wakeup_isr_def Let_def)

text \<open>The two interrupts while a plain group is converted.\<close>

lemma IrqDma_converting:
  assumes "adc_grpp s = Some g" "plain g" "dma_isr_redir s 12 = Some ADC_RX_ISR" "dma_vector s 60"
  shows "adc_step cb ecb IrqDma s = Inr
     (if bit (dma_flags 12 s) 3 \<or> bit (dma_flags 12 s) 2 then ended MSG_TIMEOUT (flags_served s)
      else if bit (dma_flags 12 s) 5 \<and> \<not> grp_circular g then ended MSG_OK (flags_served s) else flags_served s)"
  using assms isr_codes [of "flags_served s" g]
  by (simp add: IrqDma_eq adc_lld_serve_rx_interrupt_def flags_and)

lemma IrqDma_idle:
  assumes "adc_grpp s = None" "dma_isr_redir s 12 = Some ADC_RX_ISR" "dma_flags 12 s = 0" "dma_vector s 60"
  shows "adc_step cb ecb IrqDma s = Inr (flags_served s)"
  using assms by (simp add: IrqDma_eq adc_lld_serve_rx_interrupt_def)

lemma IrqAdc_eq:
  assumes "\<forall>g. adc_grpp s = Some g \<longrightarrow> plain g" "adc_vector s"
  shows "adc_step cb ecb IrqAdc s = Inr
     (if adc_SR s AND ADC_SR_OVR \<noteq> 0 \<and> NDTR (stream s) \<noteq> 0 \<and> adc_grpp s \<noteq> None then ended MSG_TIMEOUT (s\<lparr>adc_SR := 0\<rparr>) else s\<lparr>adc_SR := 0\<rparr>)"
  using assms isr_codes(1) [of "s\<lparr>adc_SR := 0\<rparr>" _ ecb]
  by (auto simp: STM32_ADC_HANDLER_def Let_def dmaStreamGetTransactionSize_def unat_gt_0)

section \<open>All calls and events\<close>

datatype adc_action = Happens adc_event | CallStart "ADCConfig option" | CallStop
  | CallStartConversion ADCConversionGroup nat nat

fun adc_call :: "adc_cb \<Rightarrow> adc_ecb \<Rightarrow> adc_action \<Rightarrow> adc_op" where
  "adc_call cb ecb (Happens e) s = adc_step cb ecb e s"
| "adc_call cb ecb (CallStart config) s = adcStart config s"
| "adc_call cb ecb CallStop s = adcStop s"
| "adc_call cb ecb (CallStartConversion g buf depth) s = adcStartConversion (Some g) buf depth s"

text \<open>What the interface of the driver demands of its callers; \<open>R\<close> is the memory the buffers may be in.\<close>

fun adc_guard :: "nat set \<Rightarrow> adc_action \<Rightarrow> ADCDriver \<Rightarrow> bool" where
  "adc_guard R (Happens e) s \<longleftrightarrow> (e = CallStopConversion \<or> e = CallStopConversionI \<longrightarrow> adc_state s = ADC_READY \<or> adc_state s = ADC_ACTIVE)"
| "adc_guard R (CallStart _) s \<longleftrightarrow> adc_state s = ADC_STOP \<or> adc_state s = ADC_READY"
| "adc_guard R CallStop s \<longleftrightarrow> adc_state s = ADC_STOP \<or> adc_state s = ADC_READY"
| "adc_guard R (CallStartConversion g buf depth) s \<longleftrightarrow>
     adc_state s = ADC_READY \<and> plain g \<and> fits R g buf depth \<and> buf \<noteq> 0 \<and> (depth = 1 \<or> even depth)"

lemma adc_inv_cases:
  assumes "adc_inv R m s"
  obtains "stopped s" | "idle s" | "converting R s"
  using assms by (auto simp: adc_inv_def)

text \<open>Changes that concern neither the stream nor the group.\<close>

lemma adc_inv_same:
  assumes "adc_inv R m s" "adc_state t = adc_state s" "adc_grpp t = adc_grpp s" "dma_stream t = dma_stream s"
    "dma_flags 12 t = dma_flags 12 s \<or> dma_flags 12 t = 0" "ram t = ram s" "adc_samples t = adc_samples s" "adc_depth t = adc_depth s"
    "adc_dmamode t = adc_dmamode s" "dma_isr_redir t = dma_isr_redir s" "dma_streams_mask t = dma_streams_mask s" "dma_vector t = dma_vector s"
  shows "adc_inv R m t"
  using assms by (auto simp: adc_inv_def dmamode_ok_def stopped_def idle_def converting_def installed_def transfer_ok_def)

lemma adc_inv_ended:
  "adc_inv R m s \<Longrightarrow> installed s \<Longrightarrow> adc_inv R m (ended msg s)"
  using idle_ended [of s msg] by (simp add: adc_inv_def dmamode_ok_def)

lemma converting_inv:
  "adc_inv R m s \<Longrightarrow> adc_grpp s = Some g \<Longrightarrow> converting R s \<and> plain g \<and> installed s"
  by (auto simp: adc_inv_def stopped_def idle_def converting_def)


text \<open>Clients that keep to the interface: a call it forbids is not made.\<close>

definition adc_client :: "nat set \<Rightarrow> adc_cb \<Rightarrow> adc_ecb \<Rightarrow> adc_action \<Rightarrow> adc_op" where
  "adc_client R cb ecb a s = (if adc_guard R a s then adc_call cb ecb a s else Inr s)"

definition kept :: "nat set \<Rightarrow> mem \<Rightarrow> ADCDriver result \<Rightarrow> bool" where
  "kept R m r \<longleftrightarrow> (\<exists>t. r = Inr t \<and> adc_inv R m t)"

lemma kept_Inr [simp]: "kept R m (Inr t) \<longleftrightarrow> adc_inv R m t"
  by (simp add: kept_def)

lemma conversion_kept:
  assumes "adc_inv R m s"
  shows "adc_inv R m (adc_conversion v s)"
proof -
  have pos: "adc_inv R m (t\<lparr>adc_pos := p\<rparr>) = adc_inv R m t" "adc_inv R m (t\<lparr>adc_pos := p, adc_running := r\<rparr>) = adc_inv R m t" for t p r
    by (auto simp: adc_inv_def dmamode_ok_def stopped_def idle_def converting_def installed_def transfer_ok_def dma_flags_def)
  have "adc_inv R m (dma_request 12 x s)" for x
    using assms
  proof (cases rule: adc_inv_cases)
    case 3
    then obtain g where g: "adc_grpp s = Some g" "plain g" "fits R g (adc_samples s) (adc_depth s)"
        "transfer_ok (adc_samples s) (rows g (adc_depth s)) s" "adc_state s = ADC_ACTIVE" "installed s"
      by (auto simp: converting_def)
    have n: "0 < rows g (adc_depth s)" "{adc_samples s ..< adc_samples s + 2 * rows g (adc_depth s)} \<subseteq> R"
      using g(3) by (auto simp: fits_def)
    note t = request_ok [OF g(4) n(1)]
    have "ram (dma_request 12 x s) a = m a" if "a \<notin> R" for a
    proof -
      have "a \<notin> {adc_samples s ..< adc_samples s + 2 * rows g (adc_depth s)}" using n(2) that by blast
      then show ?thesis using t(2) [of a x] that assms by (simp add: adc_inv_def)
    qed
    moreover have "converting R (dma_request 12 x s)" using g t(1) by (simp add: converting_def installed_def)
    ultimately show ?thesis using assms by (simp add: adc_inv_def dmamode_ok_def)
  next
    case 1
    then have "dma_request 12 x s = s" by (simp add: stopped_def dma_request_def Let_def)
    then show ?thesis using assms by simp
  next
    case 2
    then have "dma_request 12 x s = s" by (simp add: idle_def dma_request_def Let_def)
    then show ?thesis using assms by simp
  qed
  then show ?thesis using assms by (simp add: adc_conversion_def Let_def pos)
qed

lemma dma_error_kept:
  assumes "adc_inv R m s"
  shows "adc_inv R m (dma_error 12 s)"
proof (cases "enabled s")
  case True
  then obtain g where g: "adc_grpp s = Some g" "plain g" "fits R g (adc_samples s) (adc_depth s)"
      "transfer_ok (adc_samples s) (rows g (adc_depth s)) s" "adc_state s = ADC_ACTIVE" "installed s"
    using assms by (auto simp: adc_inv_def stopped_def idle_def converting_def)
  have "\<not> bit (SxCR (stream s) AND NOT STM32_DMA_CR_EN) 0" unfolding bit_and_iff bit_not_iff bit_dma_consts by simp
  then have "converting R (dma_error 12 s)"
    using g by (simp add: converting_def installed_def dma_error_def dma_raise_def on_stream_def transfer_ok_def)
  then show ?thesis using assms by (simp add: adc_inv_def dmamode_ok_def dma_error_def dma_raise_def on_stream_def)
qed (use assms in \<open>simp add: dma_error_def\<close>)

lemma Irq_kept:
  assumes inv: "adc_inv R m s"
  shows "kept R m (adc_step cb ecb IrqDma s)" "kept R m (adc_step cb ecb IrqAdc s)"
proof -
  have served: "adc_inv R m (flags_served s)" by (rule adc_inv_same [OF inv]) simp_all
  have sr: "adc_inv R m (s\<lparr>adc_SR := 0\<rparr>)" by (rule adc_inv_same [OF inv]) simp_all
  show "kept R m (adc_step cb ecb IrqDma s)"
  proof (cases "dma_vector s 60")
    case True
    then have i: "installed s" using inv by (auto simp: adc_inv_def stopped_def idle_def converting_def)
    show ?thesis
    proof (cases "adc_grpp s")
      case None
      then have "idle s" using inv True by (auto simp: adc_inv_def stopped_def converting_def)
      then show ?thesis using None True i served IrqDma_idle [of s] by (simp add: idle_def installed_def)
    next
      case (Some g)
      have "installed (flags_served s)" using i by (simp add: installed_def)
      then have "adc_inv R m (ended msg (flags_served s))" for msg using adc_inv_ended [OF served] by blast
      then show ?thesis
        using IrqDma_converting [of s g] Some converting_inv [OF inv Some] True served i by (simp add: installed_def)
    qed
  qed (use inv in simp)
  show "kept R m (adc_step cb ecb IrqAdc s)"
  proof (cases "adc_vector s")
    case True
    have pl: "\<forall>g. adc_grpp s = Some g \<longrightarrow> plain g" using converting_inv [OF inv] by blast
    have "adc_inv R m (ended MSG_TIMEOUT (s\<lparr>adc_SR := 0\<rparr>))" if "adc_grpp s \<noteq> None"
      using adc_inv_ended [OF sr] that converting_inv [OF inv] by (auto simp: installed_def)
    then show ?thesis using IrqAdc_eq [OF pl True, of cb ecb] sr by simp
  qed (use inv in simp)
qed


text \<open>The calls that start, stop and release.\<close>

lemma stop_conversion_kept:
  assumes inv: "adc_inv R m s" and st: "adc_state s = ADC_READY \<or> adc_state s = ADC_ACTIVE"
  shows "kept R m (adcStopConversion s)" "kept R m (adcStopConversionI s)"
proof -
  have e: "adc_resume MSG_RESET ((adc_lld_stop_conversion s)\<lparr>adc_grpp := None, adc_state := ADC_READY\<rparr>) = ended MSG_RESET s"
    by (cases "adc_lld_stop_conversion s") (simp add: ended_def)
  have "installed s" using inv st by (auto simp: adc_inv_def stopped_def idle_def converting_def)
  then have "adc_inv R m (ended MSG_RESET s)" by (rule adc_inv_ended [OF inv])
  then show "kept R m (adcStopConversion s)" "kept R m (adcStopConversionI s)"
    using st inv by (auto simp: adcStopConversion_def adcStopConversionI_def adc_reset_s_def adc_reset_i_def e)
qed

lemma start_conversion_kept:
  assumes inv: "adc_inv R m s" and g: "adc_guard R (CallStartConversion g buf depth) s"
  shows "kept R m (adcStartConversion (Some g) buf depth s)"
proof -
  have i: "idle s" using inv g by (auto simp: adc_inv_def stopped_def converting_def)
  have "0 < depth" "rows g depth < 65536" using g by (auto simp: fits_def rows_def)
  then obtain t where t: "adcStartConversionI (Some g) buf depth s = Inr t" "started g buf depth s t"
    using start_effect [of g depth buf s] g by auto
  have "converting R t" using started_converting(1) [OF t(2)] i inv g by (simp add: idle_def adc_inv_def)
  then show ?thesis using t inv by (simp add: adcStartConversion_def adc_inv_def started_def dmamode_ok_def)
qed

lemma stop_kept:
  assumes inv: "adc_inv R m s" and st: "adc_state s = ADC_STOP \<or> adc_state s = ADC_READY"
  shows "kept R m (adcStop s)"
proof (cases "adc_state s = ADC_READY")
  case True
  then have i: "idle s" using inv by (auto simp: adc_inv_def stopped_def converting_def)
  obtain t where t: "adcStop s = Inr t" "adc_state t = ADC_STOP" "stream t = stream s" "adc_grpp t = adc_grpp s"
      "dma_streams_mask t = dma_streams_mask s AND NOT (push_bit 12 1)" "\<not> dma_vector t 60" "ram t = ram s" "adc_dmamode t = adc_dmamode s"
    using True i by (auto simp: adcStop_def adc_lld_stop_def dmaStreamRelease_def idle_def installed_def dma_clocks_off_def write_CR2_def)
  have "\<not> bit (dma_streams_mask t) 12" unfolding t(5) bit_and_iff bit_not_iff bit_single by simp
  then have "stopped t" using t i by (simp add: stopped_def idle_def)
  then show ?thesis using t inv by (simp add: adc_inv_def dmamode_ok_def)
next
  case False
  then have "stopped s" using inv st by (auto simp: adc_inv_def idle_def converting_def)
  then have "adc_inv R m (s\<lparr>adc_config := None, adc_state := ADC_STOP\<rparr>)"
    using inv by (auto simp: adc_inv_def stopped_def dmamode_ok_def)
  then show ?thesis using False st by (simp add: adcStop_def adc_lld_stop_def)
qed

lemma start_installs:
  assumes st: "adc_state s = ADC_STOP" "\<not> bit (dma_streams_mask s) 12"
  obtains t where "adcStart config s = Inr t" "adc_state t = ADC_READY" "installed t" "\<not> enabled t" "dma_flags 12 t = 0"
    "adc_grpp t = adc_grpp s" "ram t = ram s" "adc_dmamode t = adc_dmamode s" "adc_thread t = adc_thread s" "dma_vector t 60"
    "adc_vector t = adc_vector s" "adc_naps t = adc_naps s" "adc_self t = adc_self s"
proof -
  define a where "a = snd (dmaStreamAllocate 12 (Some ADC_RX_ISR) (s\<lparr>adc_config := config\<rparr>))"
  define u where "u = (dmaStreamSetPeripheral 12 ADC1_DR a)\<lparr>rcc_adc := True\<rparr>"
  define t where "t = (write_CR2 ADC_CR2_ADON (write_CR2 0 (u\<lparr>adc_CCR := (adc_CCR u AND (ADC_CCR_TSVREFE OR ADC_CCR_VBATE)) OR
     push_bit 16 STM32_ADC_ADCPRE, adc_CR1 := 0\<rparr>)))\<lparr>adc_state := ADC_READY\<rparr>"
  have alloc: "dmaStreamAllocate 12 (Some ADC_RX_ISR) (s\<lparr>adc_config := config\<rparr>) = (False, a)"
    using st(2) by (simp add: a_def dmaStreamAllocate_def Let_def)
  have "adcStart config s = Inr t"
    using st by (simp add: adcStart_def adc_lld_start_def alloc t_def u_def Let_def)
  moreover have "dma_isr_redir a 12 = Some ADC_RX_ISR" "dma_streams_mask a = dma_streams_mask s OR push_bit 12 1" "SxCR (stream a) = 0"
      "dma_ISR a = (dma_ISR s)(HISR2 := dma_ISR s HISR2 AND NOT STM32_DMA_ISR_MASK)" "dma_vector a 60"
      "adc_grpp a = adc_grpp s" "ram a = ram s" "adc_dmamode a = adc_dmamode s" "adc_thread a = adc_thread s"
      "adc_vector a = adc_vector s" "adc_naps a = adc_naps s" "adc_self a = adc_self s"
    using st(2) unfolding a_def dmaStreamAllocate_def
    by (simp_all add: Let_def on_stream_def dmaStreamDisable_def dmaStreamClearInterrupt_def write_IFCR_def dma_clocks_on_def
        STM32_DMA_CR_RESET_VALUE_def)
  note a = this
  have "bit (dma_streams_mask a) 12" unfolding a(2) bit_or_iff bit_single by simp
  then have "installed t" using a(1) by (simp add: installed_def t_def u_def write_CR2_def dmaStreamSetPeripheral_def on_stream_def)
  moreover have "dma_flags 12 t = 0"
    by (rule bit_word_eqI)
      (simp add: flags_12 t_def u_def write_CR2_def dmaStreamSetPeripheral_def on_stream_def a(4) bit_and_iff bit_not_iff)
  moreover have "\<not> enabled t" using a(3) by (simp add: t_def u_def write_CR2_def dmaStreamSetPeripheral_def on_stream_def)
  ultimately show ?thesis
    using that [of t] a(5-12) \<open>adcStart config s = Inr t\<close>
    by (simp add: t_def u_def write_CR2_def dmaStreamSetPeripheral_def on_stream_def)
qed

lemma start_kept:
  assumes inv: "adc_inv R m s" and st: "adc_state s = ADC_STOP \<or> adc_state s = ADC_READY"
  shows "kept R m (adcStart config s)"
proof (cases "adc_state s = ADC_STOP")
  case True
  then have s: "stopped s" using inv by (auto simp: adc_inv_def idle_def converting_def)
  obtain t where "adcStart config s = Inr t" "adc_state t = ADC_READY" "installed t" "\<not> enabled t" "dma_flags 12 t = 0"
      "adc_grpp t = adc_grpp s" "ram t = ram s" "adc_dmamode t = adc_dmamode s"
    using start_installs [of s config] s by (auto simp: stopped_def)
  then show ?thesis using inv s by (simp add: adc_inv_def idle_def stopped_def dmamode_ok_def)
next
  case False
  then have "adc_inv R m (s\<lparr>adc_config := config, adc_state := ADC_READY\<rparr>)"
    using st by (intro adc_inv_same [OF inv]) simp_all
  then show ?thesis using False st by (simp add: adcStart_def adc_lld_start_def)
qed

lemma adc_client_kept:
  assumes inv: "adc_inv R m s"
  shows "kept R m (adc_client R cb ecb a s)"
proof -
  have "kept R m (adc_call cb ecb a s)" if g: "adc_guard R a s"
  proof (cases a)
    case (Happens e)
    show ?thesis
    proof (cases e)
      case (Convert v)
      then show ?thesis using Happens inv conversion_kept by simp
    next
      case Trigger
      then show ?thesis using Happens inv by (auto intro!: adc_inv_same [OF inv])
    next
      case Overrun
      then show ?thesis using Happens inv by (auto intro!: adc_inv_same [OF inv])
    next
      case DmaError
      then show ?thesis using Happens inv dma_error_kept by simp
    next
      case IrqDma
      then show ?thesis using Happens Irq_kept(1) [OF inv] by simp
    next
      case IrqAdc
      then show ?thesis using Happens Irq_kept(2) [OF inv] by simp
    next
      case CallStopConversion
      then show ?thesis using Happens stop_conversion_kept(1) [OF inv] g by simp
    next
      case CallStopConversionI
      then show ?thesis using Happens stop_conversion_kept(2) [OF inv] g by simp
    qed
  next
    case (CallStart config)
    then show ?thesis using start_kept [OF inv] g by simp
  next
    case CallStop
    then show ?thesis using stop_kept [OF inv] g by simp
  next
    case (CallStartConversion gr buf depth)
    then show ?thesis using start_conversion_kept [OF inv] g by simp
  qed
  then show ?thesis using inv by (simp add: adc_client_def)
qed

interpretation adck: keeps_total "adc_client R cb ecb" "adc_inv R m" "\<lambda>_ _. True" for R cb ecb m
proof unfold_locales
  fix s e s'
  assume "adc_inv R m s" "adc_client R cb ecb e s = Inr s'"
  then show "adc_inv R m s'" using adc_client_kept [of R m s cb ecb e] by (simp add: kept_def)
next
  fix s e
  assume "adc_inv R m s"
  then show "\<exists>s'. adc_client R cb ecb e s = Inr s'" using adc_client_kept [of R m s cb ecb e] by (auto simp: kept_def)
qed

end
