(* ===== verification/AdcConvert.thy ===== *)
theory AdcConvert
  imports AdcSpec
begin

text \<open>Waiting for a conversion: what the buffer holds when \<^verbatim>\<open>adcConvert\<close> returns.\<close>

section \<open>Samples\<close>

definition sample_at :: "mem \<Rightarrow> nat \<Rightarrow> nat \<Rightarrow> 16 word" where
  "sample_at m buf i = ucast (m (buf + 2 * i)) OR push_bit 8 (ucast (m (buf + 2 * i + 1)))"

lemma sample_at_store [simp]:
  "sample_at (store_bytes m (buf + 2 * i) [ucast x, ucast (drop_bit 8 x)]) buf i = x"
proof (rule bit_word_eqI)
  fix n
  assume "n < LENGTH(16)"
  then show "bit (sample_at (store_bytes m (buf + 2 * i) [ucast x, ucast (drop_bit 8 x)]) buf i) n \<longleftrightarrow> bit x n"
    by (cases "n < 8") (auto simp: sample_at_def store_bytes_def bit_or_iff bit_unsigned_iff bit_push_bit_iff bit_drop_bit_eq)
qed

lemma sample_at_other:
  "i \<noteq> j \<Longrightarrow> sample_at (store_bytes m (buf + 2 * j) [x, y]) buf i = sample_at m buf i"
  by (auto simp: sample_at_def store_bytes_def)

fun conversions :: "adc_event list \<Rightarrow> (nat \<Rightarrow> 16 word) list" where
  "conversions [] = []"
| "conversions (Convert v # es) = v # conversions es"
| "conversions (_ # es) = conversions es"

lemma conversions_append [simp]: "conversions (xs @ ys) = conversions xs @ conversions ys"
  by (induction xs rule: conversions.induct) simp_all

section \<open>Waiting\<close>

text \<open>A group that this back end converts with a software start, once.\<close>

definition one_shot :: "ADCConversionGroup \<Rightarrow> bool" where
  "one_shot g \<longleftrightarrow> plain g \<and> \<not> grp_circular g \<and> bit (grp_cr2 g) 30 \<and> \<not> bit (grp_cr2 g) 28 \<and> \<not> bit (grp_cr2 g) 29 \<and>
     seq_length (grp_sqr1 g OR ADC_SQR1_NUM_CH (ucast (grp_num_channels g))) = unat (grp_num_channels g)"

definition channel_of :: "ADCConversionGroup \<Rightarrow> nat \<Rightarrow> nat" where
  "channel_of g i = seq_channel (grp_sqr1 g OR ADC_SQR1_NUM_CH (ucast (grp_num_channels g))) (grp_sqr2 g) (grp_sqr3 g)
     (i mod unat (grp_num_channels g))"

text \<open>The first \<open>k\<close> samples of the buffer are those of the conversions, row by row.\<close>

definition filled :: "ADCConversionGroup \<Rightarrow> nat \<Rightarrow> (nat \<Rightarrow> 16 word) list \<Rightarrow> nat \<Rightarrow> mem \<Rightarrow> bool" where
  "filled g buf vs k m \<longleftrightarrow> k \<le> length vs \<and> (\<forall>i < k. sample_at m buf i = (vs ! i) (channel_of g i))"

definition trouble :: "adc_event list \<Rightarrow> bool" where
  "trouble es \<longleftrightarrow> Overrun \<in> set es \<or> DmaError \<in> set es"

text \<open>
  The three phases of a wait after the events \<open>es\<close>: converting, with as many samples stored as there were conversions;
  done, with the flag of the stream up; or disturbed, without the flag.
\<close>

definition phase_run :: "ADCConversionGroup \<Rightarrow> nat \<Rightarrow> nat \<Rightarrow> adc_event list \<Rightarrow> ADCDriver \<Rightarrow> bool" where
  "phase_run g buf n es s \<longleftrightarrow> enabled s \<and> adc_running s \<and> unat (NDTR (stream s)) + length (conversions es) = n \<and>
     filled g buf (conversions es) (length (conversions es)) (ram s) \<and> \<not> bit (dma_flags 12 s) 5 \<and>
     adc_pos s = length (conversions es) mod unat (grp_num_channels g)"

definition phase_done :: "ADCConversionGroup \<Rightarrow> nat \<Rightarrow> nat \<Rightarrow> adc_event list \<Rightarrow> ADCDriver \<Rightarrow> bool" where
  "phase_done g buf n es s \<longleftrightarrow> \<not> enabled s \<and> NDTR (stream s) = 0 \<and> filled g buf (conversions es) n (ram s) \<and> bit (dma_flags 12 s) 5"

definition phase_disturbed :: "adc_event list \<Rightarrow> ADCDriver \<Rightarrow> bool" where
  "phase_disturbed es s \<longleftrightarrow> trouble es \<and> \<not> bit (dma_flags 12 s) 5 \<and> (\<not> enabled s \<or> \<not> adc_running s)"

definition waiting :: "ADCConversionGroup \<Rightarrow> nat \<Rightarrow> nat \<Rightarrow> mem \<Rightarrow> adc_event list \<Rightarrow> ADCDriver \<Rightarrow> bool" where
  "waiting g buf depth m es s \<longleftrightarrow>
     adc_inv {buf ..< buf + 2 * rows g depth} m s \<and> adc_state s = ADC_ACTIVE \<and> adc_grpp s = Some g \<and> adc_samples s = buf \<and>
     adc_depth s = depth \<and> dma_vector s 60 \<and> adc_vector s \<and> adc_thread s \<noteq> None \<and> adc_rdymsg s = None \<and>
     \<not> bit (SxCR (stream s)) 8 \<and>
     adc_SQR1 s = grp_sqr1 g OR ADC_SQR1_NUM_CH (ucast (grp_num_channels g)) \<and> adc_SQR2 s = grp_sqr2 g \<and> adc_SQR3 s = grp_sqr3 g \<and>
     bit (adc_CR2 s) 8 \<and> bit (adc_CR2 s) 1 \<and> \<not> bit (adc_CR2 s) 28 \<and> \<not> bit (adc_CR2 s) 29 \<and>
     (bit (adc_SR s) 5 \<or> bit (dma_flags 12 s) 3 \<or> bit (dma_flags 12 s) 2 \<longrightarrow> trouble es) \<and>
     (phase_run g buf (rows g depth) es s \<or> phase_done g buf (rows g depth) es s \<or> phase_disturbed es s)"

definition outcome :: "ADCConversionGroup \<Rightarrow> nat \<Rightarrow> nat \<Rightarrow> mem \<Rightarrow> adc_event list \<Rightarrow> msg \<Rightarrow> ADCDriver \<Rightarrow> bool" where
  "outcome g buf depth m es msg t \<longleftrightarrow>
     idle t \<and> dmamode_ok t \<and> adc_thread t = None \<and> dma_vector t 60 \<and> adc_vector t \<and>
     (\<forall>a. a \<notin> {buf ..< buf + 2 * rows g depth} \<longrightarrow> ram t a = m a) \<and>
     (msg = MSG_OK \<and> filled g buf (conversions es) (rows g depth) (ram t) \<or>
      msg = MSG_TIMEOUT \<and> trouble es \<or>
      msg = MSG_RESET \<and> (CallStopConversion \<in> set es \<or> CallStopConversionI \<in> set es))"

text \<open>The end of a conversion is an outcome.\<close>

lemma outcome_ended:
  assumes w: "waiting g buf depth m es s"
    and s': "adc_inv {buf ..< buf + 2 * rows g depth} m s'" "installed s'" "ram s' = ram s" "dma_vector s' = dma_vector s" "adc_vector s' = adc_vector s"
    and msg: "msg = MSG_OK \<and> filled g buf (conversions es') (rows g depth) (ram s) \<or> msg = MSG_TIMEOUT \<and> trouble es' \<or>
      msg = MSG_RESET \<and> (CallStopConversion \<in> set es' \<or> CallStopConversionI \<in> set es')"
  shows "outcome g buf depth m es' msg (ended msg s')"
  using w s' msg idle_ended [OF s'(2)] by (simp add: outcome_def waiting_def adc_inv_def dmamode_ok_def)

text \<open>The wait goes on in a state that differs in nothing that matters.\<close>

lemma waiting_more:
  assumes w: "waiting g buf depth m es s" and "adc_inv {buf ..< buf + 2 * rows g depth} m t"
    and "adc_state t = adc_state s" "adc_grpp t = adc_grpp s" "adc_samples t = adc_samples s" "adc_depth t = adc_depth s"
      "dma_vector t = dma_vector s" "adc_vector t = adc_vector s" "adc_thread t = adc_thread s" "adc_rdymsg t = adc_rdymsg s"
      "dma_stream t = dma_stream s" "adc_SQR1 t = adc_SQR1 s" "adc_SQR2 t = adc_SQR2 s" "adc_SQR3 t = adc_SQR3 s" "adc_CR2 t = adc_CR2 s"
      "adc_running t = adc_running s" "adc_pos t = adc_pos s" "ram t = ram s"
    and "conversions es' = conversions es" "set es \<subseteq> set es'"
    and "bit (dma_flags 12 t) 5 = bit (dma_flags 12 s) 5"
    and "bit (adc_SR t) 5 \<or> bit (dma_flags 12 t) 3 \<or> bit (dma_flags 12 t) 2 \<longrightarrow> trouble es'"
  shows "waiting g buf depth m es' t"
proof -
  have "trouble es \<longrightarrow> trouble es'" using assms by (auto simp: trouble_def)
  then show ?thesis
    using assms unfolding waiting_def phase_run_def phase_done_def phase_disturbed_def by auto
qed


section \<open>One event\<close>

lemma filled_append: "filled g buf vs k m \<Longrightarrow> filled g buf (vs @ ws) k m"
  by (auto simp: filled_def nth_append)

lemma filled_step:
  assumes "filled g buf vs (length vs) m" "x = v (channel_of g (length vs))"
  shows "filled g buf (vs @ [v]) (length (vs @ [v])) (store_bytes m (buf + 2 * length vs) [ucast x, ucast (drop_bit 8 x)])"
proof -
  have "sample_at (store_bytes m (buf + 2 * length vs) [ucast x, ucast (drop_bit 8 x)]) buf i = ((vs @ [v]) ! i) (channel_of g i)"
    if "i < length (vs @ [v])" for i
    using assms that by (cases "i = length vs") (auto simp: filled_def nth_append sample_at_other less_Suc_eq)
  then show ?thesis unfolding filled_def by blast
qed

lemma dma_request_flags:
  "bit (dma_flags 12 (dma_request 12 x s)) 2 = bit (dma_flags 12 s) 2" "bit (dma_flags 12 (dma_request 12 x s)) 3 = bit (dma_flags 12 s) 3"
  "bit (dma_flags 12 (dma_request 12 x s)) 5 \<longleftrightarrow> bit (dma_flags 12 s) 5 \<or> enabled s \<and> NDTR (stream s) \<noteq> 0 \<and> NDTR (stream s) - 1 = 0"
proof -
  have r: "bit (dma_ISR (dma_raise 12 f t) HISR2) n \<longleftrightarrow> bit (dma_ISR t HISR2) n \<or> bit f n" for f t n
    by (simp add: dma_raise_def bit_or_iff)
  have o: "dma_ISR (on_stream 12 f t) = dma_ISR t" "dma_ISR (t\<lparr>ram := w\<rparr>) = dma_ISR t" for f t w
    by (simp_all add: on_stream_def)
  have "bit (dma_ISR (dma_request 12 x s) HISR2) n \<longleftrightarrow> bit (dma_ISR s HISR2) n \<or> enabled s \<and> NDTR (stream s) \<noteq> 0 \<and>
      (NDTR (stream s) - 1 = drop_bit 1 (dma_count (stream s)) \<and> n = 4 \<or> NDTR (stream s) - 1 = 0 \<and> n = 5)" for n
    unfolding dma_request_def Let_def if_distrib [of "\<lambda>t. bit (dma_ISR t HISR2) n"] r o bit_dma_consts by auto
  then show "bit (dma_flags 12 (dma_request 12 x s)) 2 = bit (dma_flags 12 s) 2" "bit (dma_flags 12 (dma_request 12 x s)) 3 = bit (dma_flags 12 s) 3"
    "bit (dma_flags 12 (dma_request 12 x s)) 5 \<longleftrightarrow> bit (dma_flags 12 s) 5 \<or> enabled s \<and> NDTR (stream s) \<noteq> 0 \<and> NDTR (stream s) - 1 = 0"
    unfolding flags_12 bit_and_iff bit_MASK by simp_all
qed

lemma conversion_fields [simp]:
  "adc_state (adc_conversion v s) = adc_state s" "adc_grpp (adc_conversion v s) = adc_grpp s" "adc_samples (adc_conversion v s) = adc_samples s"
  "adc_depth (adc_conversion v s) = adc_depth s" "dma_vector (adc_conversion v s) = dma_vector s" "adc_vector (adc_conversion v s) = adc_vector s"
  "adc_thread (adc_conversion v s) = adc_thread s" "adc_rdymsg (adc_conversion v s) = adc_rdymsg s"
  "adc_SQR1 (adc_conversion v s) = adc_SQR1 s" "adc_SQR2 (adc_conversion v s) = adc_SQR2 s" "adc_SQR3 (adc_conversion v s) = adc_SQR3 s"
  "adc_CR2 (adc_conversion v s) = adc_CR2 s" "adc_SR (adc_conversion v s) = adc_SR s"
  by (simp_all add: adc_conversion_def Let_def)

lemma conversion_effect:
  assumes "bit (adc_CR2 s) 8" "bit (adc_CR2 s) 1" "adc_running s"
  shows "dma_stream (adc_conversion v s) = dma_stream (dma_request 12 (v (seq_channel (adc_SQR1 s) (adc_SQR2 s) (adc_SQR3 s) (adc_pos s))) s)"
    "ram (adc_conversion v s) = ram (dma_request 12 (v (seq_channel (adc_SQR1 s) (adc_SQR2 s) (adc_SQR3 s) (adc_pos s))) s)"
    "dma_flags 12 (adc_conversion v s) = dma_flags 12 (dma_request 12 (v (seq_channel (adc_SQR1 s) (adc_SQR2 s) (adc_SQR3 s) (adc_pos s))) s)"
    "adc_running (adc_conversion v s)"
    "adc_pos (adc_conversion v s) = (if adc_pos s + 1 < seq_length (adc_SQR1 s) then adc_pos s + 1 else 0)"
  using assms by (auto simp: adc_conversion_def Let_def dma_flags_def)

lemma waiting_Convert:
  assumes w: "waiting g buf depth m es s" and g: "one_shot g"
  shows "\<exists>t. adc_step cb ecb (Convert v) s = Inr t \<and> waiting g buf depth m (es @ [Convert v]) t"
proof (cases "adc_running s")
  case False
  have "waiting g buf depth m (es @ [Convert v]) s"
  proof -
    have "phase_done g buf (rows g depth) (es @ [Convert v]) s \<or> phase_disturbed (es @ [Convert v]) s"
      using w False filled_append by (auto simp: waiting_def phase_run_def phase_done_def phase_disturbed_def trouble_def)
    then show ?thesis using w by (auto simp: waiting_def trouble_def)
  qed
  then show ?thesis using False by simp
next
  case True
  let ?n = "rows g depth" and ?k = "length (conversions es)" and ?L = "unat (grp_num_channels g)"
  let ?t = "adc_conversion v s" and ?x = "v (seq_channel (adc_SQR1 s) (adc_SQR2 s) (adc_SQR3 s) (adc_pos s))"
  have cr: "bit (adc_CR2 s) 8" "bit (adc_CR2 s) 1" using w by (auto simp: waiting_def)
  note e = conversion_effect [OF cr True, of v]
  have inv: "adc_inv {buf ..< buf + 2 * ?n} m ?t" using conversion_kept w by (auto simp: waiting_def)
  have phase: "phase_run g buf ?n (es @ [Convert v]) ?t \<or> phase_done g buf ?n (es @ [Convert v]) ?t \<or> phase_disturbed (es @ [Convert v]) ?t"
  proof (cases "enabled s")
    case False
    then have off: "dma_request 12 x s = s" for x by (simp add: dma_request_def Let_def)
    have "\<not> enabled ?t" "NDTR (stream ?t) = NDTR (stream s)" "ram ?t = ram s" "bit (dma_flags 12 ?t) 5 = bit (dma_flags 12 s) 5"
      unfolding e off using False by simp_all
    moreover have "phase_done g buf ?n es s \<or> phase_disturbed es s" using w False by (auto simp: waiting_def phase_run_def)
    ultimately show ?thesis by (auto simp: phase_done_def phase_disturbed_def trouble_def intro: filled_append)
  next
    case en: True
    then have run: "phase_run g buf ?n es s" using w True by (auto simp: waiting_def phase_done_def phase_disturbed_def)
    have tr: "transfer_ok buf ?n s" using w by (auto simp: waiting_def adc_inv_def stopped_def idle_def converting_def)
    then have d: "NDTR (stream s) \<noteq> 0" "dma_next (stream s) = buf + 2 * (?n - unat (NDTR (stream s)))" "bit (SxCR (stream s)) 10"
      using en by (auto simp: transfer_ok_def)
    then have next_eq: "dma_next (stream s) = buf + 2 * ?k" using run by (auto simp: phase_run_def)
    have x: "?x = v (channel_of g ?k)" using run w by (simp add: phase_run_def waiting_def channel_of_def)
    have "filled g buf (conversions es @ [v]) (length (conversions es @ [v])) (ram ?t)"
      unfolding e dma_request_effect(2) next_eq using filled_step [of g buf "conversions es" "ram s" ?x v] run x en d(1)
      by (simp add: phase_run_def)
    then have fill: "filled g buf (conversions (es @ [Convert v])) (length (conversions (es @ [Convert v]))) (ram ?t)" by simp
    have st: "stream ?t = requested (stream s)" unfolding e dma_request_effect(1) using en d(1) by simp
    have m: "unat (NDTR (stream s) - 1) = unat (NDTR (stream s)) - 1" "0 < unat (NDTR (stream s))"
      using d(1) by (simp_all add: unat_minus_one unat_gt_0)
    have cnt: "unat (NDTR (stream s)) + ?k = ?n" "adc_pos s = ?k mod ?L" "\<not> bit (dma_flags 12 s) 5" using run by (auto simp: phase_run_def)
    show ?thesis
    proof (cases "NDTR (stream s) - 1 = 0")
      case False
      then have r: "stream ?t = (stream s)\<lparr>NDTR := NDTR (stream s) - 1, dma_next := dma_next (stream s) + 2\<rparr>"
        using d(3) by (simp add: st requested_def)
      have L: "seq_length (adc_SQR1 s) = ?L" using g w by (simp add: one_shot_def waiting_def)
      have "0 < ?L" unfolding L [symmetric] by (simp add: seq_length_def)
      then have "Suc (?k mod ?L) \<le> ?L" by (simp add: Suc_leI)
      then have "adc_pos ?t = length (conversions (es @ [Convert v])) mod ?L"
        unfolding e L cnt(2) by (auto simp: mod_Suc)
      moreover have "\<not> bit (dma_flags 12 ?t) 5" unfolding e dma_request_flags using cnt(3) False by simp
      moreover have "unat (NDTR (stream ?t)) + length (conversions (es @ [Convert v])) = ?n" unfolding r using m cnt(1) by simp
      moreover have "enabled ?t" unfolding r using en by simp
      ultimately have "phase_run g buf ?n (es @ [Convert v]) ?t" using fill e(4) unfolding phase_run_def by blast
      then show ?thesis by blast
    next
      case last: True
      have nc: "\<not> bit (SxCR (stream s)) 8" using w by (simp add: waiting_def)
      then have r: "stream ?t = (stream s)\<lparr>NDTR := 0, SxCR := SxCR (stream s) AND NOT STM32_DMA_CR_EN\<rparr>"
        using last by (simp add: st requested_def)
      have off: "\<not> bit (SxCR (stream s) AND NOT STM32_DMA_CR_EN) 0" unfolding bit_and_iff bit_not_iff bit_dma_consts by simp
      have "unat (NDTR (stream s)) = 1" using last m by simp
      then have "length (conversions (es @ [Convert v])) = ?n" using cnt(1) by simp
      then have "filled g buf (conversions (es @ [Convert v])) ?n (ram ?t)" using fill by simp
      moreover have "bit (dma_flags 12 ?t) 5" unfolding e dma_request_flags using en d(1) last by simp
      ultimately show ?thesis unfolding phase_done_def r using off by simp
    qed
  qed
  have "\<not> bit (SxCR (stream ?t)) 8"
  proof -
    have "\<not> bit (SxCR (stream s)) 8" using w by (simp add: waiting_def)
    then show ?thesis unfolding e dma_request_effect(1) requested_def by (simp add: bit_and_iff)
  qed
  moreover have "bit (adc_SR ?t) 5 \<or> bit (dma_flags 12 ?t) 3 \<or> bit (dma_flags 12 ?t) 2 \<longrightarrow> trouble (es @ [Convert v])"
    using w unfolding e dma_request_flags conversion_fields by (auto simp: waiting_def trouble_def)
  ultimately have "waiting g buf depth m (es @ [Convert v]) ?t"
    using w inv phase unfolding waiting_def conversion_fields by blast
  then show ?thesis using True by simp
qed


lemma waiting_inv:
  assumes "waiting g buf depth m es s"
  shows "adc_inv {buf ..< buf + 2 * rows g depth} m s" "adc_grpp s = Some g" "adc_state s = ADC_ACTIVE" "dma_vector s 60" "adc_vector s"
    "adc_thread s \<noteq> None" "installed s" "adc_rdymsg s = None"
  using assms by (auto simp: waiting_def adc_inv_def stopped_def idle_def converting_def)

text \<open>Every event is served; the wait goes on or has an outcome.\<close>

definition proceeds :: "ADCConversionGroup \<Rightarrow> nat \<Rightarrow> nat \<Rightarrow> mem \<Rightarrow> adc_event list \<Rightarrow> ADCDriver \<Rightarrow> bool" where
  "proceeds g buf depth m es t \<longleftrightarrow> waiting g buf depth m es t \<or> (\<exists>msg. adc_rdymsg t = Some msg \<and> outcome g buf depth m es msg t)"

lemma waiting_same:
  assumes w: "waiting g buf depth m es s" and "conversions [e] = []"
  shows "waiting g buf depth m (es @ [e]) s"
  using w assms(2) by (intro waiting_more [OF w waiting_inv(1) [OF w]]) (auto simp: waiting_def trouble_def)

lemma waiting_disturbed:
  assumes w: "waiting g buf depth m es s" and s: "adc_running s \<or> enabled s"
  shows "adc_running s \<Longrightarrow> waiting g buf depth m (es @ [Overrun]) (s\<lparr>adc_SR := adc_SR s OR ADC_SR_OVR, adc_running := False\<rparr>)"
    "enabled s \<Longrightarrow> waiting g buf depth m (es @ [DmaError]) (dma_error 12 s)"
proof -
  have inv: "adc_inv {buf ..< buf + 2 * rows g depth} m (s\<lparr>adc_SR := adc_SR s OR ADC_SR_OVR, adc_running := False\<rparr>)"
    by (rule adc_inv_same [OF waiting_inv(1) [OF w]]) simp_all
  assume "adc_running s"
  have "phase_done g buf (rows g depth) (es @ [Overrun]) (s\<lparr>adc_SR := adc_SR s OR ADC_SR_OVR, adc_running := False\<rparr>) \<or>
      phase_disturbed (es @ [Overrun]) (s\<lparr>adc_SR := adc_SR s OR ADC_SR_OVR, adc_running := False\<rparr>)"
    using w by (auto simp: waiting_def phase_run_def phase_done_def phase_disturbed_def trouble_def)
  then show "waiting g buf depth m (es @ [Overrun]) (s\<lparr>adc_SR := adc_SR s OR ADC_SR_OVR, adc_running := False\<rparr>)"
    using w inv by (auto simp: waiting_def trouble_def)
next
  assume en: "enabled s"
  let ?t = "dma_error 12 s"
  have inv: "adc_inv {buf ..< buf + 2 * rows g depth} m ?t" by (rule dma_error_kept [OF waiting_inv(1) [OF w]])
  have off: "\<not> bit (SxCR (stream s) AND NOT STM32_DMA_CR_EN) 0" unfolding bit_and_iff bit_not_iff bit_dma_consts by simp
  have keep: "\<not> bit (SxCR (stream s) AND NOT STM32_DMA_CR_EN) 8" using w by (simp add: waiting_def bit_and_iff)
  have "bit (dma_flags 12 ?t) 5 = bit (dma_flags 12 s) 5"
    using en by (simp add: dma_error_def flags_12 dma_raise_def on_stream_def bit_and_iff bit_or_iff bit_dma_consts)
  moreover have "\<not> bit (dma_flags 12 s) 5" using w en by (auto simp: waiting_def phase_run_def phase_done_def phase_disturbed_def)
  ultimately have "phase_disturbed (es @ [DmaError]) ?t"
    using en off by (simp add: phase_disturbed_def trouble_def dma_error_def dma_raise_def on_stream_def)
  then show "waiting g buf depth m (es @ [DmaError]) ?t"
    using w inv keep en by (simp add: waiting_def trouble_def dma_error_def dma_raise_def on_stream_def)
qed

lemma waiting_step:
  assumes w: "waiting g buf depth m es s" and g: "one_shot g"
  shows "\<exists>t. adc_step cb ecb e s = Inr t \<and> proceeds g buf depth m (es @ [e]) t"
proof -
  let ?R = "{buf ..< buf + 2 * rows g depth}"
  note i = waiting_inv [OF w]
  have pl: "plain g" "\<not> grp_circular g" using g by (auto simp: one_shot_def)
  have served: "adc_inv ?R m (flags_served s)" by (rule adc_inv_same [OF i(1)]) simp_all
  have sr: "adc_inv ?R m (s\<lparr>adc_SR := 0\<rparr>)" by (rule adc_inv_same [OF i(1)]) simp_all
  have reset: "adc_resume MSG_RESET ((adc_lld_stop_conversion s)\<lparr>adc_grpp := None, adc_state := ADC_READY\<rparr>) = ended MSG_RESET s"
    by (cases "adc_lld_stop_conversion s") (simp add: ended_def)
  show ?thesis
  proof (cases e)
    case (Convert v)
    then show ?thesis using waiting_Convert [OF w g] by (auto simp: proceeds_def)
  next
    case Trigger
    then have "adc_step cb ecb e s = Inr s" using w by (simp add: waiting_def)
    then show ?thesis using waiting_same [OF w, of e] Trigger by (simp add: proceeds_def)
  next
    case Overrun
    then show ?thesis using waiting_disturbed(1) [OF w] waiting_same [OF w, of e] by (cases "adc_running s") (auto simp: proceeds_def)
  next
    case DmaError
    then show ?thesis using waiting_disturbed(2) [OF w] waiting_same [OF w, of e] by (cases "enabled s") (auto simp: proceeds_def dma_error_def)
  next
    case IrqDma
    have inst: "installed (flags_served s)" using i(7) by (simp add: installed_def)
    have step: "adc_step cb ecb IrqDma s = Inr
       (if bit (dma_flags 12 s) 3 \<or> bit (dma_flags 12 s) 2 then ended MSG_TIMEOUT (flags_served s)
        else if bit (dma_flags 12 s) 5 then ended MSG_OK (flags_served s) else flags_served s)"
      using IrqDma_converting [OF i(2) pl(1) _ i(4)] i(7) pl(2) by (simp add: installed_def)
    consider (err) "bit (dma_flags 12 s) 3 \<or> bit (dma_flags 12 s) 2"
      | (full) "\<not> (bit (dma_flags 12 s) 3 \<or> bit (dma_flags 12 s) 2)" "bit (dma_flags 12 s) 5"
      | (none) "\<not> (bit (dma_flags 12 s) 3 \<or> bit (dma_flags 12 s) 2)" "\<not> bit (dma_flags 12 s) 5"
      by blast
    then show ?thesis
    proof cases
      case err
      then have "trouble (es @ [IrqDma])" using w by (auto simp: waiting_def trouble_def)
      then have "outcome g buf depth m (es @ [e]) MSG_TIMEOUT (ended MSG_TIMEOUT (flags_served s))"
        using IrqDma by (intro outcome_ended [OF w served inst]) auto
      then have "proceeds g buf depth m (es @ [e]) (ended MSG_TIMEOUT (flags_served s))" using i(6) by (auto simp: proceeds_def)
      then show ?thesis using err unfolding IrqDma step by auto
    next
      case full
      then have "filled g buf (conversions (es @ [e])) (rows g depth) (ram s)"
        using w IrqDma by (auto simp: waiting_def phase_run_def phase_done_def phase_disturbed_def)
      then have "outcome g buf depth m (es @ [e]) MSG_OK (ended MSG_OK (flags_served s))"
        by (intro outcome_ended [OF w served inst]) auto
      then have "proceeds g buf depth m (es @ [e]) (ended MSG_OK (flags_served s))" using i(6) by (auto simp: proceeds_def)
      then show ?thesis using full unfolding IrqDma step by auto
    next
      case none
      have "waiting g buf depth m (es @ [e]) (flags_served s)"
        by (rule waiting_more [OF w served]) (use IrqDma none w in \<open>auto simp: waiting_def trouble_def\<close>)
      then show ?thesis using none unfolding IrqDma step by (auto simp: proceeds_def)
    qed
  next
    case IrqAdc
    have "\<forall>g. adc_grpp s = Some g \<longrightarrow> plain g" using i(2) pl by simp
    note step = IrqAdc_eq [OF this i(5), of cb ecb]
    have ovr: "adc_SR s AND ADC_SR_OVR \<noteq> 0 \<Longrightarrow> bit (adc_SR s) 5" unfolding and_nonzero bit_adc_consts by auto
    have inst: "installed (s\<lparr>adc_SR := 0\<rparr>)" using i(7) by (simp add: installed_def)
    show ?thesis
    proof (cases "adc_SR s AND ADC_SR_OVR \<noteq> 0 \<and> NDTR (stream s) \<noteq> 0")
      case True
      then have "trouble (es @ [e])" using w ovr by (auto simp: waiting_def trouble_def)
      then have "outcome g buf depth m (es @ [e]) MSG_TIMEOUT (ended MSG_TIMEOUT (s\<lparr>adc_SR := 0\<rparr>))"
        by (intro outcome_ended [OF w sr inst]) auto
      then have "proceeds g buf depth m (es @ [e]) (ended MSG_TIMEOUT (s\<lparr>adc_SR := 0\<rparr>))" using i(6) by (auto simp: proceeds_def)
      then show ?thesis using True i(2) unfolding IrqAdc step by auto
    next
      case False
      have "waiting g buf depth m (es @ [e]) (s\<lparr>adc_SR := 0\<rparr>)"
        by (rule waiting_more [OF w sr]) (use IrqAdc w in \<open>auto simp: waiting_def trouble_def\<close>)
      then show ?thesis using False unfolding IrqAdc step by (auto simp: proceeds_def)
    qed
  next
    case CallStopConversion
    have "outcome g buf depth m (es @ [e]) MSG_RESET (ended MSG_RESET s)"
      using CallStopConversion by (intro outcome_ended [OF w i(1,7)]) auto
    then show ?thesis using CallStopConversion i(3,6) by (auto simp: adcStopConversion_def adc_reset_s_def reset proceeds_def)
  next
    case CallStopConversionI
    have "outcome g buf depth m (es @ [e]) MSG_RESET (ended MSG_RESET s)"
      using CallStopConversionI by (intro outcome_ended [OF w i(1,7)]) auto
    then show ?thesis using CallStopConversionI i(3,6) by (auto simp: adcStopConversionI_def adc_reset_i_def reset proceeds_def)
  qed
qed


section \<open>The whole wait\<close>

lemma outcome_naps [simp]: "outcome g buf depth m es msg (t\<lparr>adc_naps := ns\<rparr>) = outcome g buf depth m es msg t"
  by (simp add: outcome_def idle_def installed_def dmamode_ok_def)

lemma adc_sleep_outcome:
  assumes "waiting g buf depth m es s" "one_shot g"
  shows "adc_sleep cb ecb ns s = Inl Blocked \<or>
    (\<exists>msg t used. adc_sleep cb ecb ns s = Inr (msg, t) \<and> ns = used @ adc_naps t \<and> outcome g buf depth m (es @ used) msg t)"
  using assms(1)
proof (induction ns arbitrary: es s)
  case (Cons e ns)
  obtain t where t: "adc_step cb ecb e s = Inr t" "proceeds g buf depth m (es @ [e]) t"
    using waiting_step [OF Cons.prems assms(2)] by blast
  from t(2) [unfolded proceeds_def] show ?case
  proof (elim disjE exE conjE)
    assume w: "waiting g buf depth m (es @ [e]) t"
    then have "adc_sleep cb ecb (e # ns) s = adc_sleep cb ecb ns t" using t(1) by (simp add: waiting_def)
    then show ?thesis using Cons.IH [OF w] by (auto intro: exI [of _ "e # _"])
  next
    fix msg
    assume "adc_rdymsg t = Some msg" "outcome g buf depth m (es @ [e]) msg t"
    then have "adc_sleep cb ecb (e # ns) s = Inr (msg, t\<lparr>adc_naps := ns\<rparr>) \<and> e # ns = [e] @ adc_naps (t\<lparr>adc_naps := ns\<rparr>) \<and>
        outcome g buf depth m (es @ [e]) msg (t\<lparr>adc_naps := ns\<rparr>)"
      using t(1) by simp
    then show ?thesis by blast
  qed
qed simp

lemma started_waiting:
  assumes t: "started g buf depth s t" and s: "idle s" "dmamode_ok s" "dma_vector s 60" "adc_vector s"
    and g: "one_shot g" and fit: "rows g depth < 65536" "0 < rows g depth"
  shows "waiting g buf depth (ram s) [] (t\<lparr>adc_thread := Some me, adc_rdymsg := None\<rparr>)"
proof -
  let ?R = "{buf ..< buf + 2 * rows g depth}" and ?t = "t\<lparr>adc_thread := Some me, adc_rdymsg := None\<rparr>"
  have pl: "plain g" "\<not> grp_circular g" "bit (grp_cr2 g) 30" "\<not> bit (grp_cr2 g) 28" "\<not> bit (grp_cr2 g) 29"
    using g by (auto simp: one_shot_def)
  have "fits ?R g buf depth" using fit by (simp add: fits_def)
  then have c: "converting ?R t" "enabled t" using started_converting [OF t _ s(2) pl(1)] s(1) by (auto simp: idle_def)
  have n: "unat (word_of_nat (rows g depth) :: 16 word) = rows g depth" using fit(1) by (simp add: unat_of_nat)
  have st: "stream t = (stream s)\<lparr>M0AR := buf, NDTR := word_of_nat (rows g depth), SxCR := adc_dmamode s OR STM32_DMA_CR_EN,
      dma_next := buf, dma_count := word_of_nat (rows g depth)\<rparr>" "adc_running t"
    "adc_CR2 t = grp_cr2 g OR ADC_CR2_DMA OR ADC_CR2_DDS OR ADC_CR2_ADON OR ADC_CR2_CONT"
    using t pl by (simp_all add: started_def adc_mode_def)
  have m8: "\<not> bit (adc_dmamode s OR STM32_DMA_CR_EN) 8" using s(2) unfolding dmamode_ok_def bit_or_iff bit_dma_consts by simp
  have cr2: "bit (adc_CR2 t) 8" "bit (adc_CR2 t) 1" "\<not> bit (adc_CR2 t) 28" "\<not> bit (adc_CR2 t) 29"
    unfolding st bit_or_iff bit_adc_consts using pl(4,5) by simp_all
  have fl: "dma_flags 12 t = dma_flags 12 s" using t by (simp add: started_def dma_flags_def)
  have inv: "adc_inv ?R (ram s) ?t"
  proof (rule adc_inv_same)
    show "adc_inv ?R (ram s) t" using c(1) t s(2) by (simp add: adc_inv_def started_def dmamode_ok_def)
  qed simp_all
  have "phase_run g buf (rows g depth) [] ?t"
  proof -
    have "ram t = ram s" "adc_pos t = 0" "NDTR (stream t) = word_of_nat (rows g depth)" using t by (simp_all add: started_def)
    moreover have "dma_flags 12 t = 0" using fl s(1) by (simp add: idle_def)
    ultimately show ?thesis using c(2) st(2) n by (simp add: phase_run_def filled_def)
  qed
  then show ?thesis
  proof -
    have "\<not> bit (SxCR (stream t)) 8" unfolding st(1) using m8 by simp
    moreover have "\<not> bit (dma_flags 12 t) k" for k using fl s(1) by (simp add: idle_def)
    moreover have "adc_state t = ADC_ACTIVE" "adc_grpp t = Some g" "adc_samples t = buf" "adc_depth t = depth" "dma_vector t 60" "adc_vector t"
      "adc_SQR1 t = grp_sqr1 g OR ADC_SQR1_NUM_CH (ucast (grp_num_channels g))" "adc_SQR2 t = grp_sqr2 g" "adc_SQR3 t = grp_sqr3 g" "adc_SR t = 0"
      using t s(3,4) by (simp_all add: started_def)
    ultimately show ?thesis using inv cr2 \<open>phase_run g buf (rows g depth) [] ?t\<close> by (simp add: waiting_def)
  qed
qed


text \<open>Enough conversions and then the interrupt of the DMA end the wait.\<close>

lemma sleep_converts:
  assumes "waiting g buf depth m es s" "one_shot g"
  shows "\<exists>t. adc_sleep cb ecb (map Convert vs @ ns) s = adc_sleep cb ecb ns t \<and> waiting g buf depth m (es @ map Convert vs) t"
  using assms(1)
proof (induction vs arbitrary: es s)
  case (Cons v vs)
  obtain t where t: "adc_step cb ecb (Convert v) s = Inr t" "waiting g buf depth m (es @ [Convert v]) t"
    using waiting_Convert [OF Cons.prems assms(2)] by blast
  then have "adc_sleep cb ecb (map Convert (v # vs) @ ns) s = adc_sleep cb ecb (map Convert vs @ ns) t"
    by (simp add: waiting_def del: adc_step.simps)
  then show ?case using Cons.IH [OF t(2)] by simp
qed auto

lemma conversions_map [simp]: "conversions (map Convert vs) = vs"
  by (induction vs) simp_all

lemma sleep_served:
  assumes w: "waiting g buf depth m [] s" and g: "one_shot g" and vs: "rows g depth \<le> length vs"
  shows "adc_sleep cb ecb (map Convert vs @ IrqDma # ns) s \<noteq> Inl Blocked"
proof -
  obtain t where t: "adc_sleep cb ecb (map Convert vs @ IrqDma # ns) s = adc_sleep cb ecb (IrqDma # ns) t"
      "waiting g buf depth m (map Convert vs) t"
    using sleep_converts [OF w g, of cb ecb vs "IrqDma # ns"] by auto
  note i = waiting_inv [OF t(2)]
  have no: "\<not> trouble (map Convert vs)" by (auto simp: trouble_def)
  have tr: "transfer_ok buf (rows g depth) t" using t(2) by (auto simp: waiting_def adc_inv_def stopped_def idle_def converting_def)
  have "\<not> phase_run g buf (rows g depth) (map Convert vs) t"
    using tr vs unat_gt_0 [of "NDTR (stream t)"] by (auto simp: phase_run_def transfer_ok_def)
  then have "bit (dma_flags 12 t) 5" using t(2) no by (auto simp: waiting_def phase_done_def phase_disturbed_def)
  moreover have "\<not> (bit (dma_flags 12 t) 3 \<or> bit (dma_flags 12 t) 2)" using t(2) no by (auto simp: waiting_def)
  ultimately have "adc_step cb ecb IrqDma t = Inr (ended MSG_OK (flags_served t))"
    using IrqDma_converting [OF i(2) _ _ i(4)] i(7) g by (simp add: installed_def one_shot_def del: adc_step.simps)
  then show ?thesis using i(6) unfolding t(1) by (auto simp del: adc_step.simps)
qed

lemma adcConvert_outcome:
  assumes "idle s" "dmamode_ok s" "dma_vector s 60" "adc_vector s" "adc_thread s = None"
    and "one_shot g" "rows g depth < 65536" "0 < unat (grp_num_channels g)" "buf \<noteq> 0" "0 < depth" "depth = 1 \<or> even depth"
  shows "adcConvert cb ecb (Some g) buf depth s = Inl Blocked \<and>
      \<not> (\<exists>vs ns. adc_naps s = map Convert vs @ IrqDma # ns \<and> rows g depth \<le> length vs) \<or>
    (\<exists>msg t used. adcConvert cb ecb (Some g) buf depth s = Inr (msg, t) \<and> adc_naps s = used @ adc_naps t \<and>
       outcome g buf depth (ram s) used msg t)"
proof -
  obtain t where t: "adcStartConversionI (Some g) buf depth s = Inr t" "started g buf depth s t"
    using start_effect [of g depth buf s] assms by (auto simp: idle_def)
  have pos: "0 < rows g depth" using assms(8,10) by (simp add: rows_def)
  have w: "waiting g buf depth (ram s) [] (t\<lparr>adc_thread := Some (adc_self t), adc_rdymsg := None\<rparr>)"
    by (rule started_waiting [OF t(2) assms(1-4,6,7) pos])
  have "adcConvert cb ecb (Some g) buf depth s = adc_sleep cb ecb (adc_naps s) (t\<lparr>adc_thread := Some (adc_self t), adc_rdymsg := None\<rparr>)"
    using t assms(5) by (simp add: adcConvert_def adc_suspend_def started_def)
  then show ?thesis
    using adc_sleep_outcome [OF w assms(6), of cb ecb "adc_naps s"] sleep_served [OF w assms(6), of _ cb ecb] by fastforce
qed

section \<open>The sampling thread\<close>

lemma num_channels: "unat (grp_num_channels adcgrpcfg) = 6" "rows adcgrpcfg ADC_GRP1_BUF_DEPTH = 24"
  by (simp_all add: adcgrpcfg_def ADC_GRP1_NUM_CHANNELS_def rows_def ADC_GRP1_BUF_DEPTH_def)

lemmas adcgrpcfg_defs = adcgrpcfg_def ADC_GRP1_NUM_CHANNELS_def ADC_SQR1_NUM_CH_def ADC_SQR3_SQ1_N_def ADC_SQR3_SQ2_N_def
  ADC_SQR3_SQ3_N_def ADC_SQR3_SQ4_N_def ADC_SQR3_SQ5_N_def ADC_SQR3_SQ6_N_def ADC_CHANNEL_IN10_def ADC_CHANNEL_IN11_def
  ADC_CHANNEL_IN12_def ADC_CHANNEL_IN13_def ADC_CHANNEL_IN14_def ADC_CHANNEL_IN15_def

lemma one_shot_adcgrpcfg: "one_shot adcgrpcfg"
proof -
  have "seq_length (grp_sqr1 adcgrpcfg OR ADC_SQR1_NUM_CH (ucast (grp_num_channels adcgrpcfg))) = 6"
    by (simp add: adcgrpcfg_defs seq_length_def)
  moreover have "bit (grp_cr2 adcgrpcfg) 30" "\<not> bit (grp_cr2 adcgrpcfg) 28" "\<not> bit (grp_cr2 adcgrpcfg) 29"
    using bit_adc_consts(6) by (simp_all add: adcgrpcfg_def)
  moreover have "plain adcgrpcfg" "\<not> grp_circular adcgrpcfg" by (simp_all add: plain_def adcgrpcfg_def)
  ultimately show ?thesis by (simp add: one_shot_def num_channels)
qed

lemma channel_adcgrpcfg: "channel_of adcgrpcfg i = 10 + i mod 6"
proof -
  have "i mod 6 < 6" by simp
  then have "i mod 6 \<in> {0, 1, 2, 3, 4, 5}" by auto
  then show ?thesis unfolding channel_of_def num_channels by (auto simp: seq_channel_def adcgrpcfg_defs)
qed

text \<open>The converter finishes enough conversions before anything else happens, then the interrupt of the DMA is served.\<close>

definition served :: "ADCDriver \<Rightarrow> bool" where
  "served s \<longleftrightarrow> (\<exists>vs ns. adc_naps s = map Convert vs @ IrqDma # ns \<and> 24 \<le> length vs)"

text \<open>
  C37. A turn of the sampling thread. If the conversion ends well, the buffer holds the results of the first 24
  conversions after the start, row by row: sample \<open>i\<close> is what the converter measured in conversion \<open>i\<close> at channel
  \<open>10 + i mod 6\<close>. It reports a timeout only if the converter was overrun or the DMA failed, and a reset only if another
  thread stopped the conversion. In every case nothing outside the 48 bytes of the buffer is written, the driver
  is idle again and nobody waits in it, so that the next turn can start; until then the thread waits, and it does not
  wait any longer when 24 conversions are followed by the interrupt of the DMA. The interrupts may come at any time, late,
  or without cause.
\<close>

theorem adcSample_turn_fills_buffer:
  assumes "idle s" "dmamode_ok s" "dma_vector s 60" "adc_vector s" "adc_thread s = None" "buf \<noteq> 0"
  shows "adcSample_turn cb ecb buf s = Inl Blocked \<and> \<not> served s \<or>
    (\<exists>msg t used. adcSample_turn cb ecb buf s = Inr (msg, t) \<and> adc_naps s = used @ adc_naps t \<and>
       idle t \<and> dmamode_ok t \<and> dma_vector t 60 \<and> adc_vector t \<and> adc_thread t = None \<and>
       (\<forall>a. a < buf \<or> buf + 48 \<le> a \<longrightarrow> ram t a = ram s a) \<and>
       (msg = MSG_OK \<and> 24 \<le> length (conversions used) \<and>
          (\<forall>i < 24. sample_at (ram t) buf i = (conversions used ! i) (10 + i mod 6)) \<or>
        msg = MSG_TIMEOUT \<and> (Overrun \<in> set used \<or> DmaError \<in> set used) \<or>
        msg = MSG_RESET \<and> (CallStopConversion \<in> set used \<or> CallStopConversionI \<in> set used)))"
proof -
  have "adcSample_turn cb ecb buf s = Inl Blocked \<and> \<not> served s \<or>
    (\<exists>msg t used. adcSample_turn cb ecb buf s = Inr (msg, t) \<and> adc_naps s = used @ adc_naps t \<and>
       outcome adcgrpcfg buf ADC_GRP1_BUF_DEPTH (ram s) used msg t)"
    unfolding adcSample_turn_def served_def num_channels(2) [symmetric]
    by (rule adcConvert_outcome [OF assms(1-5) one_shot_adcgrpcfg])
      (use assms(6) in \<open>simp_all add: num_channels num_channels(2) [unfolded ADC_GRP1_BUF_DEPTH_def] ADC_GRP1_BUF_DEPTH_def\<close>)
  moreover have "outcome adcgrpcfg buf ADC_GRP1_BUF_DEPTH (ram s) used msg t \<longleftrightarrow>
      idle t \<and> dmamode_ok t \<and> adc_thread t = None \<and> dma_vector t 60 \<and> adc_vector t \<and>
      (\<forall>a. a < buf \<or> buf + 48 \<le> a \<longrightarrow> ram t a = ram s a) \<and>
       (msg = MSG_OK \<and> 24 \<le> length (conversions used) \<and>
          (\<forall>i < 24. sample_at (ram t) buf i = (conversions used ! i) (10 + i mod 6)) \<or>
        msg = MSG_TIMEOUT \<and> (Overrun \<in> set used \<or> DmaError \<in> set used) \<or>
        msg = MSG_RESET \<and> (CallStopConversion \<in> set used \<or> CallStopConversionI \<in> set used))" for used msg t
    by (auto simp: outcome_def num_channels filled_def channel_adcgrpcfg trouble_def not_le not_less)
  ultimately show ?thesis by blast
qed


text \<open>Power on, then initialization and start; the converter measures 100 times the number of the conversion plus the channel.\<close>

definition adc_power_on :: "adc_event list \<Rightarrow> ADCDriver" where
  "adc_power_on ns = \<lparr>dma_streams_mask = 0, dma_isr_redir = (\<lambda>_. None),
     dma_stream = (\<lambda>_. \<lparr>SxCR = 0, NDTR = 0, PAR = 0, M0AR = 0, M1AR = 0, FCR = 0, dma_next = 0, dma_count = 0\<rparr>), dma_ISR = (\<lambda>_. 0),
     dma_vector = (\<lambda>_. False), rcc_dma = (False, False), ram = (\<lambda>_. 0),
     adc_state = ADC_UNINIT, adc_config = None, adc_samples = 0, adc_depth = 0, adc_grpp = None, adc_thread = None, adc_dmamode = 0,
     adc_SR = 0, adc_CR1 = 0, adc_CR2 = 0, adc_SMPR1 = 0, adc_SMPR2 = 0, adc_SQR1 = 0, adc_SQR2 = 0, adc_SQR3 = 0, adc_CCR = 0,
     rcc_adc = False, adc_vector = False, adc_running = False, adc_pos = 0, adc_self = 7, adc_rdymsg = None, adc_naps = ns\<rparr>"

definition adc_ready :: "adc_event list \<Rightarrow> ADCDriver result" where
  "adc_ready ns = adcStart None (adcInit (dmaInit (adc_power_on ns)))"

lemma adcInit_dmamode: "dmamode_ok (adcInit s)"
proof -
  have z: "ADC1_DMA_CHANNEL = 0" by (simp add: ADC1_DMA_CHANNEL_def STM32_DMA_GETCHANNEL_def STM32_ADC1_DMA_CHN_def)
  have c: "\<not> bit (STM32_DMA_CR_PL STM32_ADC_ADC1_DMA_PRIORITY) k" if "k < 16" for k
    using that unfolding STM32_DMA_CR_PL_def bit_push_bit_iff by simp
  have d: "STM32_DMA_CR_CHSEL 0 = 0" "STM32_DMA_CR_DIR_P2M = 0" by (simp_all add: STM32_DMA_CR_CHSEL_def STM32_DMA_CR_DIR_P2M_def)
  have m: "adc_dmamode (adcInit s) = STM32_DMA_CR_CHSEL 0 OR STM32_DMA_CR_PL STM32_ADC_ADC1_DMA_PRIORITY OR STM32_DMA_CR_DIR_P2M OR
       STM32_DMA_CR_MSIZE_HWORD OR STM32_DMA_CR_PSIZE_HWORD OR STM32_DMA_CR_MINC OR STM32_DMA_CR_TCIE OR
       STM32_DMA_CR_DMEIE OR STM32_DMA_CR_TEIE"
    by (simp add: adcInit_def adc_lld_init_def z)
  show ?thesis unfolding dmamode_ok_def m d bit_or_iff bit_dma_consts using c by simp
qed

lemma adcInit_fields [simp]:
  "adc_state (adcInit s) = ADC_STOP" "adc_grpp (adcInit s) = None" "adc_thread (adcInit s) = None" "adc_vector (adcInit s)"
  "dma_streams_mask (adcInit s) = dma_streams_mask s" "dma_vector (adcInit s) = dma_vector s" "dma_stream (adcInit s) = dma_stream s"
  "ram (adcInit s) = ram s" "adc_naps (adcInit s) = adc_naps s"
  by (simp_all add: adcInit_def adc_lld_init_def adcObjectInit_def)

lemma dmaInit_fields [simp]:
  "dma_streams_mask (dmaInit s) = 0" "SxCR (dma_stream (dmaInit s) 12) = 0" "dma_vector (dmaInit s) = dma_vector s" "ram (dmaInit s) = ram s"
  "adc_naps (dmaInit s) = adc_naps s"
  by (simp_all add: dmaInit_def write_IFCR_def STM32_DMA_STREAMS_def)

lemma adc_ready:
  obtains s where "adc_ready ns = Inr s" "idle s" "dmamode_ok s" "dma_vector s 60" "adc_vector s" "adc_thread s = None" "adc_naps s = ns"
    "ram s = (\<lambda>_. 0)"
proof -
  let ?i = "adcInit (dmaInit (adc_power_on ns))"
  have "adc_state ?i = ADC_STOP" "\<not> bit (dma_streams_mask ?i) 12" by simp_all
  then obtain t where t: "adcStart None ?i = Inr t" "adc_state t = ADC_READY" "installed t" "\<not> enabled t" "dma_flags 12 t = 0"
    "adc_grpp t = adc_grpp ?i" "ram t = ram ?i" "adc_dmamode t = adc_dmamode ?i" "adc_thread t = adc_thread ?i" "dma_vector t 60"
    "adc_vector t = adc_vector ?i" "adc_naps t = adc_naps ?i"
    by (rule start_installs)
  then show ?thesis
    using that [of t] adcInit_dmamode [of "dmaInit (adc_power_on ns)"]
    by (simp add: adc_ready_def idle_def dmamode_ok_def adc_power_on_def)
qed

definition demo_vs :: "(nat \<Rightarrow> 16 word) list" where
  "demo_vs = map (\<lambda>k ch. word_of_nat (100 * k + ch)) [0 ..< 24]"

theorem adcSample_turn_fills_buffer_witness:
  "\<exists>s t. adc_ready (map Convert demo_vs @ [IrqDma]) = Inr s \<and>
     adcSample_turn (\<lambda>_ _ _ s. Inr s) (\<lambda>_ _ s. Inr s) 0x20000000 s = Inr (MSG_OK, t) \<and>
     (\<forall>i < 24. sample_at (ram t) 0x20000000 i = word_of_nat (100 * i + (10 + i mod 6))) \<and> ram t 0x20000030 = 0"
proof -
  obtain s where s: "adc_ready (map Convert demo_vs @ [IrqDma]) = Inr s" "idle s" "dmamode_ok s" "dma_vector s 60" "adc_vector s"
      "adc_thread s = None" "adc_naps s = map Convert demo_vs @ [IrqDma]" "ram s = (\<lambda>_. 0)"
    by (rule adc_ready)
  have len: "length demo_vs = 24" by (simp add: demo_vs_def)
  then have "served s" using s(7) unfolding served_def by (intro exI [of _ demo_vs] exI [of _ "[]"]) simp
  then obtain msg t used where t: "adcSample_turn (\<lambda>_ _ _ s. Inr s) (\<lambda>_ _ s. Inr s) 0x20000000 s = Inr (msg, t)"
      "adc_naps s = used @ adc_naps t" "\<forall>a. a < 0x20000000 \<or> 0x20000000 + 48 \<le> a \<longrightarrow> ram t a = ram s a"
      "msg = MSG_OK \<and> 24 \<le> length (conversions used) \<and>
          (\<forall>i < 24. sample_at (ram t) 0x20000000 i = (conversions used ! i) (10 + i mod 6)) \<or>
        msg = MSG_TIMEOUT \<and> (Overrun \<in> set used \<or> DmaError \<in> set used) \<or>
        msg = MSG_RESET \<and> (CallStopConversion \<in> set used \<or> CallStopConversionI \<in> set used)"
    using adcSample_turn_fills_buffer [OF s(2-6), where buf = "0x20000000" and cb = "\<lambda>_ _ _ s. Inr s" and ecb = "\<lambda>_ _ s. Inr s"]
    by auto
  have "set used \<subseteq> set (adc_naps s)" unfolding t(2) by simp
  then have "Overrun \<notin> set used" "DmaError \<notin> set used" "CallStopConversion \<notin> set used" "CallStopConversionI \<notin> set used"
    unfolding s(7) by auto
  then have ok: "msg = MSG_OK" "24 \<le> length (conversions used)" "\<forall>i < 24. sample_at (ram t) 0x20000000 i = (conversions used ! i) (10 + i mod 6)"
    using t(4) by auto
  have "conversions used @ conversions (adc_naps t) = demo_vs"
    using arg_cong [OF t(2), of conversions] unfolding s(7) by simp
  then have "conversions used = demo_vs" using ok(2) len by (metis append_eq_conv_conj length_append add_leE le_add1 le_antisym take_all)
  then show ?thesis using s t(1,3) ok by (intro exI [of _ s] exI [of _ t]) (simp add: demo_vs_def)
qed

end
