(* ===== verification/AdcFaults.thy ===== *)
theory AdcFaults
  imports AdcConvert
begin

text \<open>The ADC driver in any use its interface allows, and an error callback that starts a conversion.\<close>

text \<open>
  C38. The ADC driver never stops the system and never writes outside the buffers. After initialization, clients
  may start and stop the driver and conversions, single or circular, in any order the interface allows, with
  buffers in a region \<open>R\<close> and groups without callbacks; conversions, overruns and DMA errors happen at any time, and
  interrupts are entered at any time, also without cause. Then no check or assertion fails, no null group is used, and
  the memory outside \<open>R\<close> is as before.
\<close>

theorem adc_never_halts:
  assumes "\<not> dma_vector s 60"
  shows "\<exists>t. run_ops (adc_client R cb ecb) as (adcInit (dmaInit s)) = Inr t \<and> (\<forall>a. a \<notin> R \<longrightarrow> ram t a = ram s a) \<and>
    adc_state t \<in> {ADC_STOP, ADC_READY, ADC_ACTIVE} \<and> (adc_state t = ADC_ACTIVE \<longleftrightarrow> adc_grpp t \<noteq> None)"
proof -
  have "stopped (adcInit (dmaInit s))" using assms by (simp add: stopped_def)
  then have "adc_inv R (ram s) (adcInit (dmaInit s))" using adcInit_dmamode [of "dmaInit s"] by (simp add: adc_inv_def)
  then obtain t where "run_ops (adc_client R cb ecb) as (adcInit (dmaInit s)) = Inr t" "adc_inv R (ram s) t"
    using adck.run_total [OF _ all_enabled_True] by blast
  then show ?thesis by (auto simp: adc_inv_def stopped_def idle_def converting_def)
qed

definition adc_circular :: ADCConversionGroup where
  "adc_circular = adcgrpcfg\<lparr>grp_circular := True\<rparr>"

theorem adc_never_halts_witness:
  "\<exists>t. run_ops (adc_client {0x20000000 ..< 0x20000030} (\<lambda>_ _ _ s. Inr s) (\<lambda>_ _ s. Inr s))
       ([CallStart None, CallStartConversion adc_circular 0x20000000 4] @ map (\<lambda>v. Happens (Convert v)) (demo_vs @ demo_vs) @
        [Happens IrqDma, Happens DmaError, Happens Overrun, Happens IrqAdc, Happens IrqDma, CallStop])
       (adcInit (dmaInit (adc_power_on []))) = Inr t \<and> ram t 0x20000030 = 0 \<and> ram t 0x1FFFFFFF = 0"
proof -
  have v: "\<not> dma_vector (adc_power_on []) 60" by (simp add: adc_power_on_def)
  show ?thesis
    using adc_never_halts [OF v, of "{0x20000000 ..< 0x20000030}" "\<lambda>_ _ _ s. Inr s" "\<lambda>_ _ s. Inr s"
        "[CallStart None, CallStartConversion adc_circular 0x20000000 4] @ map (\<lambda>v. Happens (Convert v)) (demo_vs @ demo_vs) @
        [Happens IrqDma, Happens DmaError, Happens Overrun, Happens IrqAdc, Happens IrqDma, CallStop]"]
    by (elim exE conjE) (auto simp: adc_power_on_def)
qed

section \<open>Starting a conversion in the error callback\<close>

text \<open>The driver is active, but without a group.\<close>

definition orphaned :: "ADCDriver \<Rightarrow> bool" where
  "orphaned s \<longleftrightarrow> adc_state s = ADC_ACTIVE \<and> adc_grpp s = None \<and> adc_thread s = None \<and> installed s \<and> dma_vector s 60 \<and> adc_vector s \<and>
     \<not> bit (dma_flags 12 s) 2 \<and> \<not> bit (dma_flags 12 s) 3"

text \<open>What the hardware does without an error of the DMA, and the interrupts.\<close>

definition undisturbed :: "adc_event \<Rightarrow> bool" where
  "undisturbed e \<longleftrightarrow> (case e of Convert _ \<Rightarrow> True | Trigger \<Rightarrow> True | Overrun \<Rightarrow> True | IrqDma \<Rightarrow> True | IrqAdc \<Rightarrow> True | _ \<Rightarrow> False)"

lemma orphaned_step:
  assumes o: "orphaned s" and e: "undisturbed e"
  shows "\<exists>t. adc_step cb ecb e s = Inr t \<and> orphaned t \<and> adc_rdymsg t = adc_rdymsg s"
proof (cases e)
  case (Convert v)
  have "orphaned (adc_conversion v s)"
    using o by (auto simp: adc_conversion_def Let_def orphaned_def installed_def dma_request_flags)
  moreover have "adc_rdymsg (adc_conversion v s) = adc_rdymsg s" by (simp add: adc_conversion_def Let_def)
  ultimately show ?thesis using Convert o by simp
next
  case IrqDma
  have "\<not> (bit (dma_flags 12 s) 3 \<or> bit (dma_flags 12 s) 2)" using o by (simp add: orphaned_def)
  then have "adc_step cb ecb IrqDma s = Inr (flags_served s)"
    using o flags_and(1) [of 12 s] IrqDma_eq [of s cb ecb] by (simp add: orphaned_def installed_def adc_lld_serve_rx_interrupt_def)
  then show ?thesis using o IrqDma by (simp add: orphaned_def installed_def del: adc_step.simps)
next
  case IrqAdc
  then show ?thesis using o by (simp add: orphaned_def installed_def STM32_ADC_HANDLER_def Let_def)
next
  case Trigger
  then show ?thesis using o by (simp add: orphaned_def installed_def)
next
  case Overrun
  then show ?thesis using o by (simp add: orphaned_def installed_def)
qed (use e in \<open>simp_all add: undisturbed_def\<close>)

lemma orphaned_run:
  "orphaned s \<Longrightarrow> list_all undisturbed es \<Longrightarrow>
   \<exists>t. run_ops (adc_step cb ecb) es s = Inr t \<and> orphaned t \<and> adc_rdymsg t = adc_rdymsg s"
proof (induction es arbitrary: s)
  case (Cons e es)
  obtain t where t: "adc_step cb ecb e s = Inr t" "orphaned t" "adc_rdymsg t = adc_rdymsg s"
    using orphaned_step [OF Cons.prems(1), of e cb ecb] Cons.prems(2) by auto
  then show ?case using Cons.IH [OF t(2)] Cons.prems(2) by (simp del: adc_step.simps)
qed simp

text \<open>
  C39. A conversion that the error callback starts is lost. The interface allows a callback to start the next
  conversion, and after an overrun the driver calls it in the state \<^verbatim>\<open>ADC_ERROR\<close>, from which a conversion may be
  started. But when the callback returns, the macro \<^verbatim>\<open>_adc_isr_error_code\<close> resets the group in any case: the braces
  after the test of the state are missing. The new conversion runs and fills its buffer, but the driver stays active
  for good: whatever conversions, overruns and interrupts follow, no callback is called and no thread is made ready.
  When the DMA reports an error then, its interrupt reads the group through a null pointer.
\<close>

theorem restart_in_error_callback_is_lost:
  assumes "adc_state s = ADC_ACTIVE" "adc_grpp s = Some g" "grp_error_cb g = Some f"
    and "ecb f ADC_ERR_OVERFLOW = adcStartConversionI (Some g') buf depth"
    and "rows g' depth < 65536" "0 < rows g' depth" "buf \<noteq> 0" "depth = 1 \<or> even depth"
    and "installed s" "dmamode_ok s" "dma_vector s 60" "adc_vector s"
    and "adc_SR s = ADC_SR_OVR" "NDTR (stream s) \<noteq> 0" "list_all undisturbed es"
  shows "\<exists>t u. adc_step cb ecb IrqAdc s = Inr t \<and> enabled t \<and> M0AR (stream t) = buf \<and>
    run_ops (adc_step cb ecb) es t = Inr u \<and> adc_state u = ADC_ACTIVE \<and> adc_grpp u = None \<and> adc_rdymsg u = adc_rdymsg t \<and>
    run_ops (adc_step cb ecb) [DmaError, IrqDma] t = Inl (Fault ''grpp'')"
proof -
  let ?s = "(adc_lld_stop_conversion (s\<lparr>adc_SR := 0\<rparr>))\<lparr>adc_state := ADC_ERROR\<rparr>"
  have d: "0 < depth" using assms(6) by (simp add: rows_def)
  obtain r where r: "adcStartConversionI (Some g') buf depth ?s = Inr r" "started g' buf depth ?s r"
    using start_effect [of g' depth buf ?s] assms(5,7,8) d by auto
  let ?t = "adc_timeout_isr (r\<lparr>adc_grpp := None\<rparr>)"
  have ovr: "adc_SR s AND ADC_SR_OVR \<noteq> 0" unfolding and_nonzero assms(13) using bit_adc_consts(1) by blast
  have step: "adc_step cb ecb IrqAdc s = Inr ?t"
    using assms(2,3,4,12,14) ovr r
    by (simp add: STM32_ADC_HANDLER_def Let_def dmaStreamGetTransactionSize_def unat_gt_0 adc_isr_error_code_def started_def)
  have m: "bit (adc_mode g' depth ?s OR STM32_DMA_CR_EN) 0" unfolding bit_or_iff bit_dma_consts by simp
  have st: "stream ?t = stream r" "enabled r" "M0AR (stream r) = buf"
    using r(2) m by (simp_all add: started_def adc_timeout_isr_def)
  have fl: "dma_flags 12 ?t = 0"
  proof -
    have "dma_flags 12 r = dma_flags 12 ?s" using r(2) by (simp add: started_def dma_flags_def)
    then show ?thesis by (simp add: adc_timeout_isr_def)
  qed
  have orph: "orphaned ?t"
    using r(2) assms(9,11,12) fl unfolding orphaned_def by (simp add: started_def installed_def adc_timeout_isr_def)
  obtain u where u: "run_ops (adc_step cb ecb) es ?t = Inr u" "orphaned u" "adc_rdymsg u = adc_rdymsg ?t"
    using orphaned_run [OF orph assms(15)] by blast
  have "run_ops (adc_step cb ecb) [DmaError, IrqDma] ?t = Inl (Fault ''grpp'')"
  proof -
    let ?e = "dma_error 12 ?t"
    have e: "dma_isr_redir ?e 12 = Some ADC_RX_ISR" "dma_vector ?e 60" "adc_grpp ?e = None"
      using orph by (simp_all add: orphaned_def installed_def dma_error_def dma_raise_def on_stream_def)
    have "bit (dma_flags 12 ?e) 3"
      using st by (simp add: dma_error_def flags_raise bit_MASK bit_dma_consts)
    then have "adc_step cb ecb IrqDma ?e = Inl (Fault ''grpp'')"
      using e flags_and(1) [of 12 ?e] by (simp add: IrqDma_eq adc_lld_serve_rx_interrupt_def adc_isr_error_code_def Let_def)
    then show ?thesis by (simp del: adc_step.simps(5))
  qed
  moreover have "adc_state u = ADC_ACTIVE" "adc_grpp u = None" using u(2) by (simp_all add: orphaned_def)
  ultimately show ?thesis using step st u(1,3) by (intro exI [of _ ?t] exI [of _ u]) (simp del: adc_step.simps run_ops.simps)
qed


definition restart_group :: ADCConversionGroup where
  "restart_group = adcgrpcfg\<lparr>grp_error_cb := Some 1\<rparr>"

definition restart_ecb :: adc_ecb where
  "restart_ecb f err = adcStartConversionI (Some adcgrpcfg) 0x20000100 4"

theorem restart_in_error_callback_is_lost_witness:
  "\<exists>s t u. bindE (adc_ready []) (\<lambda>s. bindE (adcStartConversion (Some restart_group) 0x20000000 4 s)
       (adc_step (\<lambda>_ _ _ s. Inr s) restart_ecb Overrun)) = Inr s \<and>
     adc_step (\<lambda>_ _ _ s. Inr s) restart_ecb IrqAdc s = Inr t \<and> enabled t \<and>
     run_ops (adc_step (\<lambda>_ _ _ s. Inr s) restart_ecb) (map Convert demo_vs @ [IrqDma]) t = Inr u \<and> adc_state u = ADC_ACTIVE \<and>
     run_ops (adc_step (\<lambda>_ _ _ s. Inr s) restart_ecb) [DmaError, IrqDma] t = Inl (Fault ''grpp'')"
proof -
  obtain s0 where s0: "adc_ready [] = Inr s0" "idle s0" "dmamode_ok s0" "dma_vector s0 60" "adc_vector s0"
    using adc_ready [of "[]"] by metis
  have rows: "rows restart_group 4 = 24" "rows adcgrpcfg 4 = 24"
    using num_channels(1) by (simp_all add: rows_def restart_group_def)
  obtain s1 where s1: "adcStartConversionI (Some restart_group) 0x20000000 4 s0 = Inr s1" "started restart_group 0x20000000 4 s0 s1"
    using start_effect [of restart_group 4 "0x20000000" s0] rows s0(2) by (auto simp: idle_def)
  have run: "adc_running s1" "adc_SR s1 = 0"
    using s1(2) one_shot_adcgrpcfg by (auto simp: started_def restart_group_def one_shot_def)
  let ?s = "s1\<lparr>adc_SR := ADC_SR_OVR, adc_running := False\<rparr>"
  have 1: "bindE (adc_ready []) (\<lambda>s. bindE (adcStartConversion (Some restart_group) 0x20000000 4 s)
      (adc_step (\<lambda>_ _ _ s. Inr s) restart_ecb Overrun)) = Inr ?s"
    using s0(1) s1(1) run by (simp add: adcStartConversion_def)
  have 2: "adc_state ?s = ADC_ACTIVE" "adc_grpp ?s = Some restart_group" "grp_error_cb restart_group = Some 1"
      "installed ?s" "dmamode_ok ?s" "dma_vector ?s 60" "adc_vector ?s" "adc_SR ?s = ADC_SR_OVR" "NDTR (stream ?s) \<noteq> 0"
    using s1(2) s0(2-5) rows by (simp_all add: started_def installed_def dmamode_ok_def idle_def restart_group_def)
  have 3: "restart_ecb 1 ADC_ERR_OVERFLOW = adcStartConversionI (Some adcgrpcfg) 0x20000100 4"
    by (simp add: restart_ecb_def fun_eq_iff)
  have 4: "list_all undisturbed (map Convert demo_vs @ [IrqDma])" by (simp add: undisturbed_def list_all_iff)
  have 5: "rows adcgrpcfg 4 < 65536" "0 < rows adcgrpcfg 4" "(0x20000100 :: nat) \<noteq> 0" "(4 :: nat) = 1 \<or> even (4 :: nat)"
    using rows by simp_all
  define s2 where "s2 = ?s"
  note s2 = 2 [folded s2_def]
  from restart_in_error_callback_is_lost [where s = s2 and cb = "\<lambda>_ _ _ s. Inr s" and ecb = restart_ecb, OF s2(1-3) 3 5 s2(4-9) 4] 1
  show ?thesis unfolding s2_def by blast
qed

end
