(* ===== verification/KernelTypes.thy ===== *)
theory KernelTypes
  imports KernelSpec
begin

text \<open>
  The union in a thread object: which member is valid depends on the state of the thread, and the code reads it without
  a test. Here: every thread in every reachable state has the member that its state calls for.
\<close>

section \<open>Typed threads\<close>

text \<open>A thread is linked into the queue of a header.\<close>

definition in_queue :: "threads \<Rightarrow> nat \<Rightarrow> nat \<Rightarrow> bool" where
  "in_queue x h t \<longleftrightarrow> (\<exists>ts. ring (q_next x) (q_prev x) h ts \<and> t \<in> set ts)"

text \<open>
  \<open>S\<close> are the semaphores, \<open>D\<close> all headers of queues. A thread that wakes up reads its message (\<open>cont\<close> says that one does).
\<close>

definition thread_typed :: "nat set \<Rightarrow> nat set \<Rightarrow> threads \<Rightarrow> nat \<Rightarrow> bool" where
  "thread_typed S D x t \<longleftrightarrow> (case th_state x t of
     CH_STATE_READY \<Rightarrow> in_queue x RLIST t \<and> (cont x t \<noteq> None \<longrightarrow> (\<exists>m. th_u x t = U_rdymsg m))
   | CH_STATE_CURRENT \<Rightarrow> t = current x
   | CH_STATE_SUSPENDED \<Rightarrow> \<exists>r. th_u x t = U_wttrp r \<and> thread_ref x r = Some t
   | CH_STATE_QUEUED \<Rightarrow> \<exists>h \<in> D - S - {RLIST}. in_queue x h t
   | CH_STATE_WTSEM \<Rightarrow> \<exists>h \<in> S. th_u x t = U_wtobjp h \<and> in_queue x h t \<and> sem_cnt x h < 0
   | CH_STATE_SLEEPING \<Rightarrow> True
   | CH_STATE_WTSTART \<Rightarrow> True
   | CH_STATE_FINAL \<Rightarrow> True
   | _ \<Rightarrow> False)"

text \<open>What a queue says of its threads.\<close>

definition queue_typed :: "nat set \<Rightarrow> threads \<Rightarrow> nat \<Rightarrow> nat \<Rightarrow> bool" where
  "queue_typed S x h t \<longleftrightarrow>
     (if h = RLIST then th_state x t = CH_STATE_READY
      else if h \<in> S then th_state x t = CH_STATE_WTSEM \<and> th_u x t = U_wtobjp h
      else th_state x t = CH_STATE_QUEUED)"

lemma in_queue_iff:
  assumes "queues (q_next x) (q_prev x) Q pl" "h \<in> dom Q"
  shows "in_queue x h t \<longleftrightarrow> pl t = In h"
proof -
  obtain ts where ts: "Q h = Some ts" using assms(2) by blast
  then have "in_queue x h t \<longleftrightarrow> t \<in> set ts"
    using queuesD(1) [OF assms(1) ts] by (auto simp: in_queue_def dest: ring_unique)
  then show ?thesis using queuesD(2) [OF assms(1) ts] by simp
qed

lemma kernel_inv_typed:
  assumes "kernel_inv i S D s"
  shows "thread_typed S D (thr s) t" "h \<in> D \<Longrightarrow> in_queue (thr s) h t \<Longrightarrow> queue_typed S (thr s) h t"
    "h \<in> D \<Longrightarrow> h' \<in> D \<Longrightarrow> in_queue (thr s) h t \<Longrightarrow> in_queue (thr s) h' t \<Longrightarrow> h = h'"
    "thread_ref (thr s) r = Some t \<Longrightarrow> th_state (thr s) t = CH_STATE_SUSPENDED \<and> th_u (thr s) t = U_wttrp r"
proof -
  obtain T L ds Q pl where k: "sched_inv Q pl S (thr s)" "waits {} ds (vt_par s) pl (thr s)" "dom Q = D"
    using assms by (auto simp: kernel_inv_def kernel_ok_def)
  have core: "sched_core Q pl S (thr s)" and run: "pl t = Running \<longleftrightarrow> t = current (thr s)" and nl: "pl t \<noteq> Limbo"
    and sems: "sems_ok Q S (sem_cnt (thr s))"
    using k(1) by (auto simp: sched_inv_def)
  have q: "queues (q_next (thr s)) (q_prev (thr s)) Q pl" by (rule sched_coreD(1) [OF core])
  have ok: "place_ok S (pl t) (th_state (thr s) t) (th_u (thr s) t)" by (rule sched_coreD(2) [OF core])
  have D: "RLIST \<in> D" "RLIST \<notin> S" "S \<subseteq> D" "pl t = In h \<Longrightarrow> h \<in> D" for h
    using core q k(3) by (auto simp: sched_core_def queues_def)
  note iq = in_queue_iff [OF q, unfolded k(3)]
  show "thread_typed S D (thr s) t"
  proof (cases "pl t")
    case (In h)
    have "sem_cnt (thr s) h < 0" if h: "h \<in> S"
    proof -
      obtain ts where ts: "Q h = Some ts" using D(3) h k(3) by blast
      have "t \<in> set ts" using queuesD(2) [OF q ts] In by simp
      then have "ts \<noteq> []" by auto
      then have "sem_cnt (thr s) h = - int (length ts)" using sems h ts by (auto simp: sems_ok_def)
      then show ?thesis using \<open>ts \<noteq> []\<close> by simp
    qed
    moreover have "cont (thr s) t \<noteq> None \<Longrightarrow> h = RLIST \<Longrightarrow> \<exists>m. th_u (thr s) t = U_rdymsg m"
      using waitsD(3) [OF k(2), of t] In by auto
    ultimately show ?thesis using ok In D iq by (auto simp: thread_typed_def split: if_splits)
  next
    case (Ref r)
    then show ?thesis using ok sched_coreD(6) [OF core, of r t] by (auto simp: thread_typed_def)
  qed (use ok run nl in \<open>auto simp: thread_typed_def\<close>)
  show "queue_typed S (thr s) h t" if "h \<in> D" "in_queue (thr s) h t"
    using ok that iq by (auto simp: queue_typed_def split: if_splits)
  show "h = h'" if "h \<in> D" "h' \<in> D" "in_queue (thr s) h t" "in_queue (thr s) h' t"
    using that iq by auto
  show "th_state (thr s) t = CH_STATE_SUSPENDED \<and> th_u (thr s) t = U_wttrp r" if "thread_ref (thr s) r = Some t"
    using ok sched_coreD(6) [OF core, of r t] that by auto
qed

section \<open>Property\<close>


text \<open>The run of \<open>KernelSpec\<close>, cut before the clock wakes thread 5: it waits for the semaphore at address 4.\<close>

lemma demo_waits:
  "\<exists>s0 s. kernel_boot 1 2 [3] demo_sems = Some (Inr s0) \<and>
     kernel_legal 2 (fst ` set demo_sems) (boot_queues [3] demo_sems) (take 4 demo_events) s0 \<and>
     kernel_run (take 4 demo_events) s0 = Some (Inr s) \<and> th_state (thr s) 5 = CH_STATE_WTSEM \<and> sem_cnt (thr s) 4 = -1"
  by (simp add: demo_events_def demo_sems_def kernel_eval cong: bindP_weak_cong)


end
