(* ===== verification/Blinker.thy ===== *)
theory Blinker
  imports Events Pal
begin

text \<open>
  The thread that shows the traffic on the serial port: \<^verbatim>\<open>usbThreadFunction\<close> of
  \<^verbatim>\<open>src/src/source/communicationThread.c\<close>, a listener to the flags that the serial driver broadcasts.
\<close>

declare One_nat_def [simp del]

section \<open>State\<close>

text \<open>What happens while the thread sleeps: the driver broadcasts flags.\<close>

datatype blink_event = Flags "32 word"

record blinker = "blink_event evt_sys" +
  usbData :: event_listener
  leds :: gpio

type_synonym blink_op = "blinker \<Rightarrow> blinker result"

fun blink_step :: "blink_event \<Rightarrow> blink_op" where
  "blink_step (Flags f) s =
     (let (ls, ths) = chEvtBroadcastFlagsI f [usbData s] (ev_threads s) in Inr (s\<lparr>ev_threads := ths, usbData := hd ls\<rparr>))"

section \<open>The thread\<close>

definition usbThread_register :: "blinker \<Rightarrow> blinker" where
  "usbThread_register s = s\<lparr>usbData := hd (chEvtRegisterMask (ev_self s) (EVENT_MASK 1) [])\<rparr>"

text \<open>\<^verbatim>\<open>chThdSleepMilliseconds(50)\<close>: signals do not end it.\<close>

fun thd_sleep :: "blink_event nap list \<Rightarrow> blink_op" where
  "thd_sleep [] s = Inl Blocked"
| "thd_sleep (Expire # ns) s = Inr (s\<lparr>ev_naps := ns\<rparr>)"
| "thd_sleep (Ev e # ns) s = bindE (blink_step e s) (thd_sleep ns)"

definition chThdSleep_blink :: blink_op where "chThdSleep_blink s = thd_sleep (ev_naps s) s"

text \<open>One turn of the loop; the first result is the state of the pins during the first sleep.\<close>

definition usbThread_turn :: "blinker \<Rightarrow> (gpio \<times> blinker) result" where
  "usbThread_turn s =
     bindE (chEvtWaitAny blink_step (EVENT_MASK 1) s) (\<lambda>(_, s).
       let (flags, l) = chEvtGetAndClearFlags (usbData s);
           s = s\<lparr>usbData := l\<rparr>;
           s = (if flags AND CHN_INPUT_AVAILABLE \<noteq> 0 then s\<lparr>leds := palSetLine (leds s) LINE_LED5\<rparr> else s);
           s = (if flags AND CHN_OUTPUT_EMPTY \<noteq> 0 then s\<lparr>leds := palSetLine (leds s) LINE_LED6\<rparr> else s);
           g = leds s
       in bindE (chThdSleep_blink s) (\<lambda>s.
            let s = s\<lparr>leds := palClearLine (leds s) LINE_LED5\<rparr>;
                s = s\<lparr>leds := palClearLine (leds s) LINE_LED6\<rparr>
            in bindE (chThdSleep_blink s) (\<lambda>s. Inr (g, s))))"

section \<open>No flag is lost\<close>

text \<open>The flags of a script.\<close>

fun flags_of :: "blink_event nap list \<Rightarrow> 32 word" where
  "flags_of [] = 0"
| "flags_of (Expire # ns) = flags_of ns"
| "flags_of (Ev (Flags f) # ns) = f OR flags_of ns"

lemma flags_of_append: "flags_of (u @ v) = flags_of u OR flags_of v"
  by (induction u rule: flags_of.induct) (simp_all add: or.assoc)

definition expiries_in :: "blink_event nap list \<Rightarrow> nat" where
  "expiries_in ns = length (filter ((=) Expire) ns)"

definition leading :: "blink_event nap list \<Rightarrow> nat" where
  "leading ns = length (takeWhile ((=) Expire) ns)"

lemma expiries_simps [simp]:
  "expiries_in [] = 0" "expiries_in (Expire # ns) = Suc (expiries_in ns)" "expiries_in (Ev e # ns) = expiries_in ns"
  "expiries_in (u @ v) = expiries_in u + expiries_in v"
  "leading [] = 0" "leading (Expire # ns) = Suc (leading ns)" "leading (Ev e # ns) = 0"
  by (simp_all add: expiries_in_def leading_def)

lemma no_events: "evs ns = [] \<Longrightarrow> expiries_in ns = leading ns"
proof (induction ns)
  case (Cons n ns)
  then show ?case by (cases n) simp_all
qed simp

text \<open>The thread has registered, and it will run if a flag waits for it.\<close>

definition blink_ok :: "blinker \<Rightarrow> bool" where
  "blink_ok s \<longleftrightarrow> el_thread (usbData s) = ev_self s \<and> el_events (usbData s) = EVENT_MASK 1 \<and> el_wflags (usbData s) = -1 \<and>
     (el_flags (usbData s) \<noteq> 0 \<longrightarrow> pending s AND EVENT_MASK 1 \<noteq> 0)"

text \<open>The effect of a broadcast on this listener.\<close>

definition blink_effect :: "32 word \<Rightarrow> blinker \<Rightarrow> blinker \<Rightarrow> bool" where
  "blink_effect f s t \<longleftrightarrow> el_flags (usbData t) = el_flags (usbData s) OR f \<and> leds t = leds s \<and> ev_self t = ev_self s"

lemma mask_1: "EVENT_MASK 1 \<noteq> 0" "(p OR EVENT_MASK 1) AND EVENT_MASK 1 \<noteq> 0"
proof -
  show m: "EVENT_MASK 1 \<noteq> 0" by (simp add: EVENT_MASK_def)
  then show "(p OR EVENT_MASK 1) AND EVENT_MASK 1 \<noteq> 0" by (simp add: or_and_zero)
qed

lemma blink_step_ok:
  assumes "blink_ok s"
  shows "\<exists>t. blink_step (Flags f) s = Inr t \<and> blink_ok t \<and> blink_effect f s t \<and> ev_naps t = ev_naps s \<and>
    (awake_iff (EVENT_MASK 1) (ev_threads s (ev_self s)) \<longrightarrow> awake_iff (EVENT_MASK 1) (ev_threads t (ev_self t))) \<and>
    (ewait (ev_threads s (ev_self s)) = Running \<longrightarrow> ewait (ev_threads t (ev_self t)) = Running)"
proof -
  let ?l = "usbData s"
  let ?l' = "?l\<lparr>el_flags := el_flags ?l OR f\<rparr>"
  let ?ths = "snd (chEvtBroadcastFlagsI f [?l] (ev_threads s))"
  let ?t = "s\<lparr>ev_threads := ?ths, usbData := ?l'\<rparr>"
  have t: "blink_step (Flags f) s = Inr ?t" by (simp add: Let_def)
  have th: "?ths = notify f ?l (ev_threads s)" by (simp add: broadcast_Cons del: chEvtBroadcastFlagsI.simps(2))
  have l: "el_thread ?l = ev_self s" "el_events ?l = EVENT_MASK 1" "el_wflags ?l = -1" using assms by (auto simp: blink_ok_def)
  have "pending ?t AND EVENT_MASK 1 \<noteq> 0" if "el_flags ?l OR f \<noteq> 0"
    using that l mask_1(2) unfolding pending_def by (simp add: th notify_def del: chEvtBroadcastFlagsI.simps)
  then have "blink_ok ?t" using l by (simp add: blink_ok_def del: chEvtBroadcastFlagsI.simps)
  moreover have "awake_iff (EVENT_MASK 1) (ev_threads s (ev_self s)) \<longrightarrow> awake_iff (EVENT_MASK 1) (?ths (ev_self s))"
    using signal_closed_broadcast [OF signal_closed_awake_iff] by blast
  moreover have "ewait (ev_threads s (ev_self s)) = Running \<longrightarrow> ewait (?ths (ev_self s)) = Running"
    using signal_closed_broadcast [OF signal_closed_Running] by blast
  ultimately show ?thesis using t by (intro exI [of _ ?t]) (simp add: blink_effect_def del: chEvtBroadcastFlagsI.simps)
qed

lemma thd_sleep_ok:
  "blink_ok s \<Longrightarrow> ewait (ev_threads s (ev_self s)) = Running \<Longrightarrow>
   thd_sleep ns s = Inl Blocked \<and> expiries_in ns = 0 \<or>
   (\<exists>used t. thd_sleep ns s = Inr t \<and> ns = used @ ev_naps t \<and> expiries_in used = 1 \<and> blink_ok t \<and>
      blink_effect (flags_of used) s t \<and> ewait (ev_threads t (ev_self t)) = Running)"
proof (induction ns arbitrary: s)
  case (Cons n ns)
  show ?case
  proof (cases n)
    case Expire
    then have "thd_sleep (n # ns) s = Inr (s\<lparr>ev_naps := ns\<rparr>) \<and> n # ns = [Expire] @ ns" by simp
    then show ?thesis
      using Cons.prems by (intro disjI2 exI [of _ "[Expire]"] exI [of _ "s\<lparr>ev_naps := ns\<rparr>"]) (simp add: blink_ok_def blink_effect_def One_nat_def)
  next
    case (Ev e)
    obtain f where e: "e = Flags f" by (cases e)
    obtain u where u: "blink_step (Flags f) s = Inr u" "blink_ok u" "blink_effect f s u" "ewait (ev_threads u (ev_self u)) = Running"
      using blink_step_ok [OF Cons.prems(1)] Cons.prems(2) by blast
    have step: "thd_sleep (n # ns) s = thd_sleep ns u" using u(1) Ev e by (simp del: blink_step.simps)
    from Cons.IH [OF u(2,4)] show ?thesis
    proof (elim disjE exE conjE)
      assume "thd_sleep ns u = Inl Blocked" "expiries_in ns = 0"
      then show ?thesis using step Ev by simp
    next
      fix used t assume t: "thd_sleep ns u = Inr t" "ns = used @ ev_naps t" "expiries_in used = 1" "blink_ok t" "blink_effect (flags_of used) u t"
        "ewait (ev_threads t (ev_self t)) = Running"
      then have "blink_effect (flags_of (n # used)) s t" using u(3) Ev e by (simp add: blink_effect_def or.assoc)
      then show ?thesis using t step Ev by (intro disjI2 exI [of _ "n # used"] exI [of _ t]) simp
    qed
  qed
qed simp


text \<open>Waiting for a flag: any broadcast ends it.\<close>

lemma evt_sleep_blink:
  "blink_ok s \<Longrightarrow> ewait (ev_threads s (ev_self s)) = WaitOr (EVENT_MASK 1) \<Longrightarrow> pending s AND EVENT_MASK 1 = 0 \<Longrightarrow>
   evt_sleep blink_step TIME_INFINITE ns s = Inl Blocked \<and> evs ns = [] \<or>
   (\<exists>used t. evt_sleep blink_step TIME_INFINITE ns s = Inr (MSG_OK, t) \<and> ns = used @ ev_naps t \<and> expiries_in used = leading ns \<and> blink_ok t \<and>
      blink_effect (flags_of used) s t \<and> ewait (ev_threads t (ev_self t)) = Running)"
proof (induction ns)
  case (Cons n ns)
  show ?case
  proof (cases n)
    case Expire
    from Cons.IH [OF Cons.prems] show ?thesis
    proof (elim disjE exE conjE)
      fix used t
      assume "evt_sleep blink_step TIME_INFINITE ns s = Inr (MSG_OK, t)" "ns = used @ ev_naps t" "expiries_in used = leading ns" "blink_ok t"
        "blink_effect (flags_of used) s t" "ewait (ev_threads t (ev_self t)) = Running"
      then show ?thesis using Expire by (intro disjI2 exI [of _ "Expire # used"] exI [of _ t]) simp
    qed (use Expire in simp)
  next
    case (Ev e)
    obtain f where e: "e = Flags f" by (cases e)
    have l: "el_thread (usbData s) = ev_self s" "el_events (usbData s) = EVENT_MASK 1" "el_wflags (usbData s) = -1"
      using Cons.prems(1) by (auto simp: blink_ok_def)
    have aw: "awake_iff (EVENT_MASK 1) (ev_threads s (ev_self s))" using Cons.prems(2,3) by (simp add: awake_iff_def pending_def)
    obtain u where u: "blink_step (Flags f) s = Inr u" "blink_ok u" "blink_effect f s u"
      "awake_iff (EVENT_MASK 1) (ev_threads u (ev_self u))"
      using blink_step_ok [OF Cons.prems(1)] aw by blast
    have "pending u AND EVENT_MASK 1 \<noteq> 0"
      using u(1) l mask_1(2) Cons.prems(2) by (auto simp: Let_def pending_def or_zero chEvtSignalI_def)
    then have run: "ewait (ev_threads u (ev_self u)) = Running" using u(4) by (simp add: awake_iff_def pending_def)
    let ?t = "u\<lparr>ev_naps := ns\<rparr>"
    have "evt_sleep blink_step TIME_INFINITE (n # ns) s = Inr (MSG_OK, ?t)"
      using u(1) run Ev e by (simp del: blink_step.simps)
    moreover have "blink_ok ?t" "blink_effect (flags_of [n]) s ?t" "ewait (ev_threads ?t (ev_self ?t)) = Running"
      using u(2,3) run Ev e by (simp_all add: blink_ok_def blink_effect_def)
    ultimately show ?thesis using Ev by (intro disjI2 exI [of _ "[n]"] exI [of _ ?t]) simp
  qed
qed simp

lemma chEvtWaitAny_blink:
  assumes "blink_ok s" "ewait (ev_threads s (ev_self s)) = Running"
  shows "chEvtWaitAny blink_step (EVENT_MASK 1) s = Inl Blocked \<and> evs (ev_naps s) = [] \<or>
   (\<exists>m used t. chEvtWaitAny blink_step (EVENT_MASK 1) s = Inr (m, t) \<and> ev_naps s = used @ ev_naps t \<and>
      expiries_in used \<le> leading (ev_naps s) \<and> el_thread (usbData t) = ev_self t \<and> el_events (usbData t) = EVENT_MASK 1 \<and> el_wflags (usbData t) = -1 \<and>
      blink_effect (flags_of used) s t \<and> ewait (ev_threads t (ev_self t)) = Running)"
proof (cases "pending s AND EVENT_MASK 1 = 0")
  case False
  let ?t = "set_pending (pending s AND NOT (pending s AND EVENT_MASK 1)) s"
  have "chEvtWaitAny blink_step (EVENT_MASK 1) s = Inr (pending s AND EVENT_MASK 1, ?t)"
    using False by (simp add: chEvtWaitAny_def take_events_def)
  then show ?thesis using assms
    by (intro disjI2 exI [of _ "[]"] exI [of _ ?t] exI) (auto simp: blink_ok_def blink_effect_def set_pending_def)
next
  case True
  let ?w = "set_wait (WaitOr (EVENT_MASK 1)) s"
  have w: "blink_ok ?w" "ewait (ev_threads ?w (ev_self ?w)) = WaitOr (EVENT_MASK 1)" "pending ?w AND EVENT_MASK 1 = 0"
    using assms True by (simp_all add: blink_ok_def set_wait_def pending_def)
  have eq: "chEvtWaitAny blink_step (EVENT_MASK 1) s =
      bindE (evt_sleep blink_step TIME_INFINITE (ev_naps s) ?w) (\<lambda>(_, s). Inr (take_events (pending s AND EVENT_MASK 1) s))"
    using True by (cases "evt_sleep blink_step TIME_INFINITE (ev_naps s) ?w")
      (auto simp: chEvtWaitAny_def chSchGoSleepTimeoutS_evt_def)
  from evt_sleep_blink [OF w, of "ev_naps s"] show ?thesis
  proof (elim disjE exE conjE)
    assume "evt_sleep blink_step TIME_INFINITE (ev_naps s) ?w = Inl Blocked" "evs (ev_naps s) = []"
    then show ?thesis by (simp add: eq)
  next
    fix used u
    assume u: "evt_sleep blink_step TIME_INFINITE (ev_naps s) ?w = Inr (MSG_OK, u)" "ev_naps s = used @ ev_naps u"
      "expiries_in used = leading (ev_naps s)" "blink_ok u"
      "blink_effect (flags_of used) ?w u" "ewait (ev_threads u (ev_self u)) = Running"
    let ?t = "set_pending (pending u AND NOT (pending u AND EVENT_MASK 1)) u"
    have "chEvtWaitAny blink_step (EVENT_MASK 1) s = Inr (pending u AND EVENT_MASK 1, ?t)"
      by (simp add: eq u(1) take_events_def)
    then show ?thesis using u
      by (intro disjI2 exI [of _ used] exI [of _ ?t] exI) (auto simp: blink_ok_def blink_effect_def set_pending_def set_wait_def)
  qed
qed

section \<open>A turn\<close>

definition lit :: "32 word \<Rightarrow> gpio \<Rightarrow> gpio" where
  "lit flags g = (let g = (if flags AND CHN_INPUT_AVAILABLE \<noteq> 0 then palSetLine g LINE_LED5 else g)
                  in if flags AND CHN_OUTPUT_EMPTY \<noteq> 0 then palSetLine g LINE_LED6 else g)"

definition dark :: "gpio \<Rightarrow> gpio" where
  "dark g = palClearLine (palClearLine g LINE_LED5) LINE_LED6"

text \<open>
  A turn of the thread shows on the two LEDs exactly the flags broadcast since the turn before, and those broadcast
  while it sleeps are left for the next turn, which does not wait then. It stays blocked only when no flag comes or the
  script ends inside one of its two sleeps.
\<close>

theorem usbThread_turn_shows_flags:
  assumes "blink_ok s" "ewait (ev_threads s (ev_self s)) = Running"
  shows "usbThread_turn s = Inl Blocked \<and> expiries_in (ev_naps s) < leading (ev_naps s) + 2 \<or>
    (\<exists>t u v. usbThread_turn s = Inr (lit (el_flags (usbData s) OR flags_of u) (leds s), t) \<and> ev_naps s = u @ v @ ev_naps t \<and>
      leds t = dark (lit (el_flags (usbData s) OR flags_of u) (leds s)) \<and> el_flags (usbData t) = flags_of v \<and>
      blink_ok t \<and> ewait (ev_threads t (ev_self t)) = Running)"
proof -
  from chEvtWaitAny_blink [OF assms] show ?thesis
  proof (elim disjE exE conjE)
    assume "chEvtWaitAny blink_step (EVENT_MASK 1) s = Inl Blocked" "evs (ev_naps s) = []"
    then show ?thesis using no_events [of "ev_naps s"] by (simp add: usbThread_turn_def)
  next
    fix m u a
    assume w: "chEvtWaitAny blink_step (EVENT_MASK 1) s = Inr (m, a)" "ev_naps s = u @ ev_naps a" "expiries_in u \<le> leading (ev_naps s)"
      "el_thread (usbData a) = ev_self a" "el_events (usbData a) = EVENT_MASK 1" "el_wflags (usbData a) = -1"
      "blink_effect (flags_of u) s a" "ewait (ev_threads a (ev_self a)) = Running"
    let ?F = "el_flags (usbData s) OR flags_of u"
    let ?b = "a\<lparr>usbData := (usbData a)\<lparr>el_flags := 0\<rparr>, leds := lit ?F (leds s)\<rparr>"
    have F: "el_flags (usbData a) = ?F" "leds a = leds s" using w(7) by (simp_all add: blink_effect_def)
    have turn: "usbThread_turn s = bindE (thd_sleep (ev_naps a) ?b) (\<lambda>c.
        bindE (thd_sleep (ev_naps c) (c\<lparr>leds := dark (leds c)\<rparr>)) (\<lambda>d. Inr (lit ?F (leds s), d)))"
      using F by (cases a) (simp add: usbThread_turn_def w(1) chEvtGetAndClearFlags_def lit_def dark_def chThdSleep_blink_def Let_def)
    have b: "blink_ok ?b" "ewait (ev_threads ?b (ev_self ?b)) = Running" using w by (simp_all add: blink_ok_def)
    show ?thesis using thd_sleep_ok [OF b, of "ev_naps a"]
    proof (elim disjE exE conjE)
      assume "thd_sleep (ev_naps a) ?b = Inl Blocked" "expiries_in (ev_naps a) = 0"
      then show ?thesis using w(2,3) by (simp add: turn)
    next
      fix v c
      assume c: "thd_sleep (ev_naps a) ?b = Inr c" "ev_naps a = v @ ev_naps c" "expiries_in v = 1" "blink_ok c"
        "blink_effect (flags_of v) ?b c" "ewait (ev_threads c (ev_self c)) = Running"
      let ?d = "c\<lparr>leds := dark (leds c)\<rparr>"
      have d: "blink_ok ?d" "ewait (ev_threads ?d (ev_self ?d)) = Running" using c by (simp_all add: blink_ok_def pending_def)
      show ?thesis using thd_sleep_ok [OF d, of "ev_naps c"]
      proof (elim disjE exE conjE)
        assume "thd_sleep (ev_naps c) ?d = Inl Blocked" "expiries_in (ev_naps c) = 0"
        then show ?thesis using w(2,3) c by (simp add: turn)
      next
        fix v' t
        assume t: "thd_sleep (ev_naps c) ?d = Inr t" "ev_naps c = v' @ ev_naps t" "expiries_in v' = 1" "blink_ok t"
          "blink_effect (flags_of v') ?d t" "ewait (ev_threads t (ev_self t)) = Running"
        have "usbThread_turn s = Inr (lit ?F (leds s), t)" using c(1) t(1) by (simp add: turn)
        moreover have "el_flags (usbData t) = flags_of (v @ v')" "leds t = dark (lit ?F (leds s))"
          using c(5) t(5) by (simp_all add: blink_effect_def flags_of_append)
        ultimately show ?thesis using w(2) c(2) t(2,4,6)
          by (intro disjI2 exI [of _ t] exI [of _ u] exI [of _ "v @ v'"]) simp
      qed
    qed
  qed
qed

end
