(* ===== verification/Board.thy ===== *)
theory Board
  imports Pal
begin

text \<open>
  The board: the pins of ports A to E as \<^verbatim>\<open>os/hal/boards/ST_STM32F4_DISCOVERY/board.h\<close> names and configures them, and
  \<^verbatim>\<open>stm32_gpio_init\<close> of \<^verbatim>\<open>board.c\<close>, the first code of the firmware that runs. The application uses
  no pin of the other ports.
\<close>

section \<open>Pins\<close>

definition GPIOA_BUTTON :: nat where "GPIOA_BUTTON = 0"
definition GPIOA_PIN1 :: nat where "GPIOA_PIN1 = 1"
definition GPIOA_PIN2 :: nat where "GPIOA_PIN2 = 2"
definition GPIOA_PIN3 :: nat where "GPIOA_PIN3 = 3"
definition GPIOA_LRCK :: nat where "GPIOA_LRCK = 4"
definition GPIOA_SPC :: nat where "GPIOA_SPC = 5"
definition GPIOA_SDO :: nat where "GPIOA_SDO = 6"
definition GPIOA_SDI :: nat where "GPIOA_SDI = 7"
definition GPIOA_PIN8 :: nat where "GPIOA_PIN8 = 8"
definition GPIOA_VBUS_FS :: nat where "GPIOA_VBUS_FS = 9"
definition GPIOA_OTG_FS_ID :: nat where "GPIOA_OTG_FS_ID = 10"
definition GPIOA_PIN11 :: nat where "GPIOA_PIN11 = 11"
definition GPIOA_PIN12 :: nat where "GPIOA_PIN12 = 12"
definition GPIOA_SWDIO :: nat where "GPIOA_SWDIO = 13"
definition GPIOA_SWCLK :: nat where "GPIOA_SWCLK = 14"
definition GPIOA_PIN15 :: nat where "GPIOA_PIN15 = 15"
definition GPIOB_PWM_LINEAR_ACTUATOR :: nat where "GPIOB_PWM_LINEAR_ACTUATOR = 0"
definition GPIOB_PWM_PRESSURE :: nat where "GPIOB_PWM_PRESSURE = 1"
definition GPIOB_PIN2 :: nat where "GPIOB_PIN2 = 2"
definition GPIOB_SWO :: nat where "GPIOB_SWO = 3"
definition GPIOB_PIN4 :: nat where "GPIOB_PIN4 = 4"
definition GPIOB_PWM_ASSI_RED :: nat where "GPIOB_PWM_ASSI_RED = 5"
definition GPIOB_PWM_ASSI_GREEN :: nat where "GPIOB_PWM_ASSI_GREEN = 6"
definition GPIOB_PWM_ASSI_BLUE :: nat where "GPIOB_PWM_ASSI_BLUE = 7"
definition GPIOB_CAN1_RX :: nat where "GPIOB_CAN1_RX = 8"
definition GPIOB_CAN1_TX :: nat where "GPIOB_CAN1_TX = 9"
definition GPIOB_CLK_IN :: nat where "GPIOB_CLK_IN = 10"
definition GPIOB_PIN11 :: nat where "GPIOB_PIN11 = 11"
definition GPIOB_CAN2_RX :: nat where "GPIOB_CAN2_RX = 12"
definition GPIOB_CAN2_TX :: nat where "GPIOB_CAN2_TX = 13"
definition GPIOB_PIN14 :: nat where "GPIOB_PIN14 = 14"
definition GPIOB_PIN15 :: nat where "GPIOB_PIN15 = 15"
definition GPIOC_EBS_LINE_READ :: nat where "GPIOC_EBS_LINE_READ = 0"
definition GPIOC_EBS_ACTUATOR_READ :: nat where "GPIOC_EBS_ACTUATOR_READ = 1"
definition GPIOC_PRESSURE_RAD_READ :: nat where "GPIOC_PRESSURE_RAD_READ = 2"
definition GPIOC_SERVICE_TANK_READ :: nat where "GPIOC_SERVICE_TANK_READ = 3"
definition GPIOC_POSITION_RACK_READ :: nat where "GPIOC_POSITION_RACK_READ = 4"
definition GPIOC_STEARING_POS_READ :: nat where "GPIOC_STEARING_POS_READ = 5"
definition GPIOC_PIN6 :: nat where "GPIOC_PIN6 = 6"
definition GPIOC_MCLK :: nat where "GPIOC_MCLK = 7"
definition GPIOC_PIN8 :: nat where "GPIOC_PIN8 = 8"
definition GPIOC_PIN9 :: nat where "GPIOC_PIN9 = 9"
definition GPIOC_SCLK :: nat where "GPIOC_SCLK = 10"
definition GPIOC_PIN11 :: nat where "GPIOC_PIN11 = 11"
definition GPIOC_SDIN :: nat where "GPIOC_SDIN = 12"
definition GPIOC_ASMS_READ :: nat where "GPIOC_ASMS_READ = 13"
definition GPIOC_CLAMPED_SENS_READ :: nat where "GPIOC_CLAMPED_SENS_READ = 14"
definition GPIOC_EBS_OK_READ :: nat where "GPIOC_EBS_OK_READ = 15"
definition GPIOD_HEART_BEAT :: nat where "GPIOD_HEART_BEAT = 0"
definition GPIOD_RACK_RIGHT :: nat where "GPIOD_RACK_RIGHT = 1"
definition GPIOD_RACK_LEFT :: nat where "GPIOD_RACK_LEFT = 2"
definition GPIOD_SERVICE_BREAK :: nat where "GPIOD_SERVICE_BREAK = 3"
definition GPIOD_REDUNDENCY :: nat where "GPIOD_REDUNDENCY = 4"
definition GPIOD_GPIOD_OVER_CURRENT :: nat where "GPIOD_GPIOD_OVER_CURRENT = 5"
definition GPIOD_SHUTDOWN :: nat where "GPIOD_SHUTDOWN = 6"
definition GPIOD_SPARE :: nat where "GPIOD_SPARE = 7"
definition GPIOD_CLAMP_SET :: nat where "GPIOD_CLAMP_SET = 8"
definition GPIOD_COMPRESSOR :: nat where "GPIOD_COMPRESSOR = 9"
definition GPIOD_EBS_RELIEF :: nat where "GPIOD_EBS_RELIEF = 10"
definition GPIOD_EBS_SPEAKER :: nat where "GPIOD_EBS_SPEAKER = 11"
definition GPIOD_FINISHED :: nat where "GPIOD_FINISHED = 12"
definition GPIOD_LED3 :: nat where "GPIOD_LED3 = 13"
definition GPIOD_LED5 :: nat where "GPIOD_LED5 = 14"
definition GPIOD_LED6 :: nat where "GPIOD_LED6 = 15"
definition GPIOE_INT1 :: nat where "GPIOE_INT1 = 0"
definition GPIOE_INT2 :: nat where "GPIOE_INT2 = 1"
definition GPIOE_PIN2 :: nat where "GPIOE_PIN2 = 2"
definition GPIOE_CS_SPI :: nat where "GPIOE_CS_SPI = 3"
definition GPIOE_PIN4 :: nat where "GPIOE_PIN4 = 4"
definition GPIOE_PIN5 :: nat where "GPIOE_PIN5 = 5"
definition GPIOE_PIN6 :: nat where "GPIOE_PIN6 = 6"
definition GPIOE_PIN7 :: nat where "GPIOE_PIN7 = 7"
definition GPIOE_PIN8 :: nat where "GPIOE_PIN8 = 8"
definition GPIOE_PIN9 :: nat where "GPIOE_PIN9 = 9"
definition GPIOE_PIN10 :: nat where "GPIOE_PIN10 = 10"
definition GPIOE_PIN11 :: nat where "GPIOE_PIN11 = 11"
definition GPIOE_PIN12 :: nat where "GPIOE_PIN12 = 12"
definition GPIOE_PIN13 :: nat where "GPIOE_PIN13 = 13"
definition GPIOE_PIN14 :: nat where "GPIOE_PIN14 = 14"
definition GPIOE_PIN15 :: nat where "GPIOE_PIN15 = 15"

lemmas pad_defs =
  GPIOA_BUTTON_def GPIOA_PIN1_def GPIOA_PIN2_def GPIOA_PIN3_def GPIOA_LRCK_def GPIOA_SPC_def GPIOA_SDO_def GPIOA_SDI_def
  GPIOA_PIN8_def GPIOA_VBUS_FS_def GPIOA_OTG_FS_ID_def GPIOA_PIN11_def GPIOA_PIN12_def GPIOA_SWDIO_def GPIOA_SWCLK_def
  GPIOA_PIN15_def GPIOB_PWM_LINEAR_ACTUATOR_def GPIOB_PWM_PRESSURE_def GPIOB_PIN2_def GPIOB_SWO_def GPIOB_PIN4_def
  GPIOB_PWM_ASSI_RED_def GPIOB_PWM_ASSI_GREEN_def GPIOB_PWM_ASSI_BLUE_def GPIOB_CAN1_RX_def GPIOB_CAN1_TX_def GPIOB_CLK_IN_def
  GPIOB_PIN11_def GPIOB_CAN2_RX_def GPIOB_CAN2_TX_def GPIOB_PIN14_def GPIOB_PIN15_def GPIOC_EBS_LINE_READ_def
  GPIOC_EBS_ACTUATOR_READ_def GPIOC_PRESSURE_RAD_READ_def GPIOC_SERVICE_TANK_READ_def GPIOC_POSITION_RACK_READ_def
  GPIOC_STEARING_POS_READ_def GPIOC_PIN6_def GPIOC_MCLK_def GPIOC_PIN8_def GPIOC_PIN9_def GPIOC_SCLK_def GPIOC_PIN11_def
  GPIOC_SDIN_def GPIOC_ASMS_READ_def GPIOC_CLAMPED_SENS_READ_def GPIOC_EBS_OK_READ_def GPIOD_HEART_BEAT_def GPIOD_RACK_RIGHT_def
  GPIOD_RACK_LEFT_def GPIOD_SERVICE_BREAK_def GPIOD_REDUNDENCY_def GPIOD_GPIOD_OVER_CURRENT_def GPIOD_SHUTDOWN_def
  GPIOD_SPARE_def GPIOD_CLAMP_SET_def GPIOD_COMPRESSOR_def GPIOD_EBS_RELIEF_def GPIOD_EBS_SPEAKER_def GPIOD_FINISHED_def
  GPIOD_LED3_def GPIOD_LED5_def GPIOD_LED6_def GPIOE_INT1_def GPIOE_INT2_def GPIOE_PIN2_def GPIOE_CS_SPI_def GPIOE_PIN4_def
  GPIOE_PIN5_def GPIOE_PIN6_def GPIOE_PIN7_def GPIOE_PIN8_def GPIOE_PIN9_def GPIOE_PIN10_def GPIOE_PIN11_def GPIOE_PIN12_def
  GPIOE_PIN13_def GPIOE_PIN14_def GPIOE_PIN15_def

section \<open>Fields of the registers\<close>

definition PIN_MODE_INPUT :: "nat \<Rightarrow> 32 word" where "PIN_MODE_INPUT n = push_bit (n * 2) 0"
definition PIN_MODE_OUTPUT :: "nat \<Rightarrow> 32 word" where "PIN_MODE_OUTPUT n = push_bit (n * 2) 1"
definition PIN_MODE_ALTERNATE :: "nat \<Rightarrow> 32 word" where "PIN_MODE_ALTERNATE n = push_bit (n * 2) 2"
definition PIN_MODE_ANALOG :: "nat \<Rightarrow> 32 word" where "PIN_MODE_ANALOG n = push_bit (n * 2) 3"
definition PIN_ODR_LOW :: "nat \<Rightarrow> 32 word" where "PIN_ODR_LOW n = push_bit (n) 0"
definition PIN_ODR_HIGH :: "nat \<Rightarrow> 32 word" where "PIN_ODR_HIGH n = push_bit (n) 1"
definition PIN_OTYPE_PUSHPULL :: "nat \<Rightarrow> 32 word" where "PIN_OTYPE_PUSHPULL n = push_bit (n) 0"
definition PIN_OSPEED_VERYLOW :: "nat \<Rightarrow> 32 word" where "PIN_OSPEED_VERYLOW n = push_bit (n * 2) 0"
definition PIN_OSPEED_LOW :: "nat \<Rightarrow> 32 word" where "PIN_OSPEED_LOW n = push_bit (n * 2) 1"
definition PIN_OSPEED_MEDIUM :: "nat \<Rightarrow> 32 word" where "PIN_OSPEED_MEDIUM n = push_bit (n * 2) 2"
definition PIN_OSPEED_HIGH :: "nat \<Rightarrow> 32 word" where "PIN_OSPEED_HIGH n = push_bit (n * 2) 3"
definition PIN_PUPDR_FLOATING :: "nat \<Rightarrow> 32 word" where "PIN_PUPDR_FLOATING n = push_bit (n * 2) 0"
definition PIN_PUPDR_PULLUP :: "nat \<Rightarrow> 32 word" where "PIN_PUPDR_PULLUP n = push_bit (n * 2) 1"
definition PIN_PUPDR_PULLDOWN :: "nat \<Rightarrow> 32 word" where "PIN_PUPDR_PULLDOWN n = push_bit (n * 2) 2"
definition PIN_AFIO_AF :: "nat \<Rightarrow> 32 word \<Rightarrow> 32 word" where "PIN_AFIO_AF n v = push_bit ((n mod 8) * 4) v"

lemmas pin_defs = PIN_MODE_INPUT_def PIN_MODE_OUTPUT_def PIN_MODE_ALTERNATE_def PIN_MODE_ANALOG_def
  PIN_ODR_LOW_def PIN_ODR_HIGH_def PIN_OTYPE_PUSHPULL_def PIN_OSPEED_VERYLOW_def PIN_OSPEED_LOW_def
  PIN_OSPEED_MEDIUM_def PIN_OSPEED_HIGH_def PIN_PUPDR_FLOATING_def PIN_PUPDR_PULLUP_def PIN_PUPDR_PULLDOWN_def PIN_AFIO_AF_def

section \<open>Values\<close>

definition VAL_GPIOA_MODER :: "32 word" where
  "VAL_GPIOA_MODER =
     PIN_MODE_INPUT GPIOA_BUTTON OR PIN_MODE_INPUT GPIOA_PIN1 OR PIN_MODE_INPUT GPIOA_PIN2 OR PIN_MODE_INPUT GPIOA_PIN3 OR
     PIN_MODE_ALTERNATE GPIOA_LRCK OR PIN_MODE_ALTERNATE GPIOA_SPC OR PIN_MODE_ALTERNATE GPIOA_SDO OR PIN_MODE_ALTERNATE GPIOA_SDI OR
     PIN_MODE_INPUT GPIOA_PIN8 OR PIN_MODE_INPUT GPIOA_VBUS_FS OR PIN_MODE_ALTERNATE GPIOA_OTG_FS_ID OR
     PIN_MODE_OUTPUT GPIOA_PIN11 OR PIN_MODE_OUTPUT GPIOA_PIN12 OR PIN_MODE_ALTERNATE GPIOA_SWDIO OR
     PIN_MODE_ALTERNATE GPIOA_SWCLK OR PIN_MODE_INPUT GPIOA_PIN15"

definition VAL_GPIOA_OTYPER :: "32 word" where
  "VAL_GPIOA_OTYPER =
     PIN_OTYPE_PUSHPULL GPIOA_BUTTON OR PIN_OTYPE_PUSHPULL GPIOA_PIN1 OR PIN_OTYPE_PUSHPULL GPIOA_PIN2 OR
     PIN_OTYPE_PUSHPULL GPIOA_PIN3 OR PIN_OTYPE_PUSHPULL GPIOA_LRCK OR PIN_OTYPE_PUSHPULL GPIOA_SPC OR
     PIN_OTYPE_PUSHPULL GPIOA_SDO OR PIN_OTYPE_PUSHPULL GPIOA_SDI OR PIN_OTYPE_PUSHPULL GPIOA_PIN8 OR
     PIN_OTYPE_PUSHPULL GPIOA_VBUS_FS OR PIN_OTYPE_PUSHPULL GPIOA_OTG_FS_ID OR PIN_OTYPE_PUSHPULL GPIOA_PIN11 OR
     PIN_OTYPE_PUSHPULL GPIOA_PIN12 OR PIN_OTYPE_PUSHPULL GPIOA_SWDIO OR PIN_OTYPE_PUSHPULL GPIOA_SWCLK OR
     PIN_OTYPE_PUSHPULL GPIOA_PIN15"

definition VAL_GPIOA_OSPEEDR :: "32 word" where
  "VAL_GPIOA_OSPEEDR =
     PIN_OSPEED_HIGH GPIOA_BUTTON OR PIN_OSPEED_HIGH GPIOA_PIN1 OR PIN_OSPEED_HIGH GPIOA_PIN2 OR PIN_OSPEED_HIGH GPIOA_PIN3 OR
     PIN_OSPEED_HIGH GPIOA_LRCK OR PIN_OSPEED_MEDIUM GPIOA_SPC OR PIN_OSPEED_MEDIUM GPIOA_SDO OR PIN_OSPEED_MEDIUM GPIOA_SDI OR
     PIN_OSPEED_HIGH GPIOA_PIN8 OR PIN_OSPEED_HIGH GPIOA_VBUS_FS OR PIN_OSPEED_HIGH GPIOA_OTG_FS_ID OR PIN_OSPEED_HIGH GPIOA_PIN11 OR
     PIN_OSPEED_HIGH GPIOA_PIN12 OR PIN_OSPEED_HIGH GPIOA_SWDIO OR PIN_OSPEED_HIGH GPIOA_SWCLK OR PIN_OSPEED_HIGH GPIOA_PIN15"

definition VAL_GPIOA_PUPDR :: "32 word" where
  "VAL_GPIOA_PUPDR =
     PIN_PUPDR_FLOATING GPIOA_BUTTON OR PIN_PUPDR_PULLUP GPIOA_PIN1 OR PIN_PUPDR_PULLUP GPIOA_PIN2 OR PIN_PUPDR_PULLUP GPIOA_PIN3 OR
     PIN_PUPDR_FLOATING GPIOA_LRCK OR PIN_PUPDR_FLOATING GPIOA_SPC OR PIN_PUPDR_FLOATING GPIOA_SDO OR PIN_PUPDR_FLOATING GPIOA_SDI OR
     PIN_PUPDR_PULLUP GPIOA_PIN8 OR PIN_PUPDR_FLOATING GPIOA_VBUS_FS OR PIN_PUPDR_FLOATING GPIOA_OTG_FS_ID OR
     PIN_PUPDR_FLOATING GPIOA_PIN11 OR PIN_PUPDR_FLOATING GPIOA_PIN12 OR PIN_PUPDR_FLOATING GPIOA_SWDIO OR
     PIN_PUPDR_FLOATING GPIOA_SWCLK OR PIN_PUPDR_PULLUP GPIOA_PIN15"

definition VAL_GPIOA_ODR :: "32 word" where
  "VAL_GPIOA_ODR =
     PIN_ODR_HIGH GPIOA_BUTTON OR PIN_ODR_HIGH GPIOA_PIN1 OR PIN_ODR_HIGH GPIOA_PIN2 OR PIN_ODR_HIGH GPIOA_PIN3 OR
     PIN_ODR_HIGH GPIOA_LRCK OR PIN_ODR_HIGH GPIOA_SPC OR PIN_ODR_HIGH GPIOA_SDO OR PIN_ODR_HIGH GPIOA_SDI OR
     PIN_ODR_HIGH GPIOA_PIN8 OR PIN_ODR_HIGH GPIOA_VBUS_FS OR PIN_ODR_HIGH GPIOA_OTG_FS_ID OR PIN_ODR_HIGH GPIOA_PIN11 OR
     PIN_ODR_HIGH GPIOA_PIN12 OR PIN_ODR_HIGH GPIOA_SWDIO OR PIN_ODR_HIGH GPIOA_SWCLK OR PIN_ODR_HIGH GPIOA_PIN15"

definition VAL_GPIOA_AFRL :: "32 word" where
  "VAL_GPIOA_AFRL =
     PIN_AFIO_AF GPIOA_BUTTON 0 OR PIN_AFIO_AF GPIOA_PIN1 0 OR PIN_AFIO_AF GPIOA_PIN2 0 OR PIN_AFIO_AF GPIOA_PIN3 0 OR
     PIN_AFIO_AF GPIOA_LRCK 6 OR PIN_AFIO_AF GPIOA_SPC 5 OR PIN_AFIO_AF GPIOA_SDO 5 OR PIN_AFIO_AF GPIOA_SDI 5"

definition VAL_GPIOA_AFRH :: "32 word" where
  "VAL_GPIOA_AFRH =
     PIN_AFIO_AF GPIOA_PIN8 0 OR PIN_AFIO_AF GPIOA_VBUS_FS 0 OR PIN_AFIO_AF GPIOA_OTG_FS_ID 10 OR PIN_AFIO_AF GPIOA_PIN11 0 OR
     PIN_AFIO_AF GPIOA_PIN12 0 OR PIN_AFIO_AF GPIOA_SWDIO 0 OR PIN_AFIO_AF GPIOA_SWCLK 0 OR PIN_AFIO_AF GPIOA_PIN15 0"

definition VAL_GPIOB_MODER :: "32 word" where
  "VAL_GPIOB_MODER =
     PIN_MODE_ALTERNATE GPIOB_PWM_LINEAR_ACTUATOR OR PIN_MODE_ALTERNATE GPIOB_PWM_PRESSURE OR PIN_MODE_INPUT GPIOB_PIN2 OR
     PIN_MODE_ALTERNATE GPIOB_SWO OR PIN_MODE_INPUT GPIOB_PIN4 OR PIN_MODE_ALTERNATE GPIOB_PWM_ASSI_RED OR
     PIN_MODE_ALTERNATE GPIOB_PWM_ASSI_GREEN OR PIN_MODE_ALTERNATE GPIOB_PWM_ASSI_BLUE OR PIN_MODE_ALTERNATE GPIOB_CAN1_RX OR
     PIN_MODE_ALTERNATE GPIOB_CAN1_TX OR PIN_MODE_INPUT GPIOB_CLK_IN OR PIN_MODE_INPUT GPIOB_PIN11 OR
     PIN_MODE_ALTERNATE GPIOB_CAN2_RX OR PIN_MODE_ALTERNATE GPIOB_CAN2_TX OR PIN_MODE_INPUT GPIOB_PIN14 OR
     PIN_MODE_INPUT GPIOB_PIN15"

definition VAL_GPIOB_OTYPER :: "32 word" where
  "VAL_GPIOB_OTYPER =
     PIN_OTYPE_PUSHPULL GPIOB_PWM_LINEAR_ACTUATOR OR PIN_OTYPE_PUSHPULL GPIOB_PWM_PRESSURE OR PIN_OTYPE_PUSHPULL GPIOB_PIN2 OR
     PIN_OTYPE_PUSHPULL GPIOB_SWO OR PIN_OTYPE_PUSHPULL GPIOB_PIN4 OR PIN_OTYPE_PUSHPULL GPIOB_PWM_ASSI_RED OR
     PIN_OTYPE_PUSHPULL GPIOB_PWM_ASSI_GREEN OR PIN_OTYPE_PUSHPULL GPIOB_PWM_ASSI_BLUE OR PIN_OTYPE_PUSHPULL GPIOB_CAN1_RX OR
     PIN_OTYPE_PUSHPULL GPIOB_CAN1_TX OR PIN_OTYPE_PUSHPULL GPIOB_CLK_IN OR PIN_OTYPE_PUSHPULL GPIOB_PIN11 OR
     PIN_OTYPE_PUSHPULL GPIOB_CAN2_RX OR PIN_OTYPE_PUSHPULL GPIOB_CAN2_TX OR PIN_OTYPE_PUSHPULL GPIOB_PIN14 OR
     PIN_OTYPE_PUSHPULL GPIOB_PIN15"

definition VAL_GPIOB_OSPEEDR :: "32 word" where
  "VAL_GPIOB_OSPEEDR =
     PIN_OSPEED_HIGH GPIOB_PWM_LINEAR_ACTUATOR OR PIN_OSPEED_HIGH GPIOB_PWM_PRESSURE OR PIN_OSPEED_HIGH GPIOB_PIN2 OR
     PIN_OSPEED_HIGH GPIOB_SWO OR PIN_OSPEED_HIGH GPIOB_PIN4 OR PIN_OSPEED_HIGH GPIOB_PWM_ASSI_RED OR
     PIN_OSPEED_HIGH GPIOB_PWM_ASSI_GREEN OR PIN_OSPEED_HIGH GPIOB_PWM_ASSI_BLUE OR PIN_OSPEED_MEDIUM GPIOB_CAN1_RX OR
     PIN_OSPEED_MEDIUM GPIOB_CAN1_TX OR PIN_OSPEED_HIGH GPIOB_CLK_IN OR PIN_OSPEED_HIGH GPIOB_PIN11 OR
     PIN_OSPEED_HIGH GPIOB_CAN2_RX OR PIN_OSPEED_HIGH GPIOB_CAN2_TX OR PIN_OSPEED_HIGH GPIOB_PIN14 OR PIN_OSPEED_HIGH GPIOB_PIN15"

definition VAL_GPIOB_PUPDR :: "32 word" where
  "VAL_GPIOB_PUPDR =
     PIN_PUPDR_PULLUP GPIOB_PWM_LINEAR_ACTUATOR OR PIN_PUPDR_PULLUP GPIOB_PWM_PRESSURE OR PIN_PUPDR_PULLUP GPIOB_PIN2 OR
     PIN_PUPDR_FLOATING GPIOB_SWO OR PIN_PUPDR_PULLUP GPIOB_PIN4 OR PIN_PUPDR_PULLUP GPIOB_PWM_ASSI_RED OR
     PIN_PUPDR_PULLUP GPIOB_PWM_ASSI_GREEN OR PIN_PUPDR_PULLUP GPIOB_PWM_ASSI_BLUE OR PIN_PUPDR_FLOATING GPIOB_CAN1_RX OR
     PIN_PUPDR_FLOATING GPIOB_CAN1_TX OR PIN_PUPDR_PULLUP GPIOB_CLK_IN OR PIN_PUPDR_PULLUP GPIOB_PIN11 OR
     PIN_PUPDR_FLOATING GPIOB_CAN2_RX OR PIN_PUPDR_FLOATING GPIOB_CAN2_TX OR PIN_PUPDR_PULLUP GPIOB_PIN14 OR
     PIN_PUPDR_PULLUP GPIOB_PIN15"

definition VAL_GPIOB_ODR :: "32 word" where
  "VAL_GPIOB_ODR =
     PIN_ODR_HIGH GPIOB_PWM_LINEAR_ACTUATOR OR PIN_ODR_HIGH GPIOB_PWM_PRESSURE OR PIN_ODR_HIGH GPIOB_PIN2 OR
     PIN_ODR_HIGH GPIOB_SWO OR PIN_ODR_HIGH GPIOB_PIN4 OR PIN_ODR_HIGH GPIOB_PWM_ASSI_RED OR PIN_ODR_HIGH GPIOB_PWM_ASSI_GREEN OR
     PIN_ODR_HIGH GPIOB_PWM_ASSI_BLUE OR PIN_ODR_HIGH GPIOB_CAN1_RX OR PIN_ODR_HIGH GPIOB_CAN1_TX OR PIN_ODR_HIGH GPIOB_CLK_IN OR
     PIN_ODR_HIGH GPIOB_PIN11 OR PIN_ODR_HIGH GPIOB_CAN2_RX OR PIN_ODR_HIGH GPIOB_CAN2_TX OR PIN_ODR_HIGH GPIOB_PIN14 OR
     PIN_ODR_HIGH GPIOB_PIN15"

definition VAL_GPIOB_AFRL :: "32 word" where
  "VAL_GPIOB_AFRL =
     PIN_AFIO_AF GPIOB_PWM_LINEAR_ACTUATOR 2 OR PIN_AFIO_AF GPIOB_PWM_PRESSURE 2 OR PIN_AFIO_AF GPIOB_PIN2 0 OR
     PIN_AFIO_AF GPIOB_SWO 0 OR PIN_AFIO_AF GPIOB_PIN4 0 OR PIN_AFIO_AF GPIOB_PWM_ASSI_RED 2 OR PIN_AFIO_AF GPIOB_PWM_ASSI_GREEN 2 OR
     PIN_AFIO_AF GPIOB_PWM_ASSI_BLUE 2"

definition VAL_GPIOB_AFRH :: "32 word" where
  "VAL_GPIOB_AFRH =
     PIN_AFIO_AF GPIOB_CAN1_RX 9 OR PIN_AFIO_AF GPIOB_CAN1_TX 9 OR PIN_AFIO_AF GPIOB_CLK_IN 0 OR PIN_AFIO_AF GPIOB_PIN11 0 OR
     PIN_AFIO_AF GPIOB_CAN2_RX 9 OR PIN_AFIO_AF GPIOB_CAN2_TX 9 OR PIN_AFIO_AF GPIOB_PIN14 0 OR PIN_AFIO_AF GPIOB_PIN15 0"

definition VAL_GPIOC_MODER :: "32 word" where
  "VAL_GPIOC_MODER =
     PIN_MODE_ANALOG GPIOC_EBS_LINE_READ OR PIN_MODE_ANALOG GPIOC_EBS_ACTUATOR_READ OR PIN_MODE_ANALOG GPIOC_PRESSURE_RAD_READ OR
     PIN_MODE_ANALOG GPIOC_SERVICE_TANK_READ OR PIN_MODE_ANALOG GPIOC_POSITION_RACK_READ OR
     PIN_MODE_ANALOG GPIOC_STEARING_POS_READ OR PIN_MODE_INPUT GPIOC_PIN6 OR PIN_MODE_ALTERNATE GPIOC_MCLK OR
     PIN_MODE_INPUT GPIOC_PIN8 OR PIN_MODE_INPUT GPIOC_PIN9 OR PIN_MODE_ALTERNATE GPIOC_SCLK OR PIN_MODE_INPUT GPIOC_PIN11 OR
     PIN_MODE_ALTERNATE GPIOC_SDIN OR PIN_MODE_INPUT GPIOC_ASMS_READ OR PIN_MODE_INPUT GPIOC_CLAMPED_SENS_READ OR
     PIN_MODE_INPUT GPIOC_EBS_OK_READ"

definition VAL_GPIOC_OTYPER :: "32 word" where
  "VAL_GPIOC_OTYPER =
     PIN_OTYPE_PUSHPULL GPIOC_EBS_LINE_READ OR PIN_OTYPE_PUSHPULL GPIOC_EBS_ACTUATOR_READ OR
     PIN_OTYPE_PUSHPULL GPIOC_PRESSURE_RAD_READ OR PIN_OTYPE_PUSHPULL GPIOC_SERVICE_TANK_READ OR
     PIN_OTYPE_PUSHPULL GPIOC_POSITION_RACK_READ OR PIN_OTYPE_PUSHPULL GPIOC_STEARING_POS_READ OR PIN_OTYPE_PUSHPULL GPIOC_PIN6 OR
     PIN_OTYPE_PUSHPULL GPIOC_MCLK OR PIN_OTYPE_PUSHPULL GPIOC_PIN8 OR PIN_OTYPE_PUSHPULL GPIOC_PIN9 OR
     PIN_OTYPE_PUSHPULL GPIOC_SCLK OR PIN_OTYPE_PUSHPULL GPIOC_PIN11 OR PIN_OTYPE_PUSHPULL GPIOC_SDIN OR
     PIN_OTYPE_PUSHPULL GPIOC_ASMS_READ OR PIN_OTYPE_PUSHPULL GPIOC_CLAMPED_SENS_READ OR PIN_OTYPE_PUSHPULL GPIOC_EBS_OK_READ"

definition VAL_GPIOC_OSPEEDR :: "32 word" where
  "VAL_GPIOC_OSPEEDR =
     PIN_OSPEED_HIGH GPIOC_EBS_LINE_READ OR PIN_OSPEED_HIGH GPIOC_EBS_ACTUATOR_READ OR PIN_OSPEED_HIGH GPIOC_PRESSURE_RAD_READ OR
     PIN_OSPEED_HIGH GPIOC_SERVICE_TANK_READ OR PIN_OSPEED_HIGH GPIOC_POSITION_RACK_READ OR
     PIN_OSPEED_HIGH GPIOC_STEARING_POS_READ OR PIN_OSPEED_HIGH GPIOC_PIN6 OR PIN_OSPEED_HIGH GPIOC_MCLK OR
     PIN_OSPEED_HIGH GPIOC_PIN8 OR PIN_OSPEED_HIGH GPIOC_PIN9 OR PIN_OSPEED_HIGH GPIOC_SCLK OR PIN_OSPEED_HIGH GPIOC_PIN11 OR
     PIN_OSPEED_HIGH GPIOC_SDIN OR PIN_OSPEED_HIGH GPIOC_ASMS_READ OR PIN_OSPEED_HIGH GPIOC_CLAMPED_SENS_READ OR
     PIN_OSPEED_HIGH GPIOC_EBS_OK_READ"

definition VAL_GPIOC_PUPDR :: "32 word" where
  "VAL_GPIOC_PUPDR =
     PIN_PUPDR_FLOATING GPIOC_EBS_LINE_READ OR PIN_PUPDR_PULLUP GPIOC_EBS_ACTUATOR_READ OR
     PIN_PUPDR_PULLUP GPIOC_PRESSURE_RAD_READ OR PIN_PUPDR_PULLUP GPIOC_SERVICE_TANK_READ OR
     PIN_PUPDR_PULLUP GPIOC_POSITION_RACK_READ OR PIN_PUPDR_PULLUP GPIOC_STEARING_POS_READ OR PIN_PUPDR_PULLUP GPIOC_PIN6 OR
     PIN_PUPDR_FLOATING GPIOC_MCLK OR PIN_PUPDR_PULLUP GPIOC_PIN8 OR PIN_PUPDR_PULLUP GPIOC_PIN9 OR PIN_PUPDR_FLOATING GPIOC_SCLK OR
     PIN_PUPDR_PULLUP GPIOC_PIN11 OR PIN_PUPDR_FLOATING GPIOC_SDIN OR PIN_PUPDR_PULLUP GPIOC_ASMS_READ OR
     PIN_PUPDR_PULLUP GPIOC_CLAMPED_SENS_READ OR PIN_PUPDR_PULLUP GPIOC_EBS_OK_READ"

definition VAL_GPIOC_ODR :: "32 word" where
  "VAL_GPIOC_ODR =
     PIN_ODR_HIGH GPIOC_EBS_LINE_READ OR PIN_ODR_HIGH GPIOC_EBS_ACTUATOR_READ OR PIN_ODR_HIGH GPIOC_PRESSURE_RAD_READ OR
     PIN_ODR_HIGH GPIOC_SERVICE_TANK_READ OR PIN_ODR_HIGH GPIOC_POSITION_RACK_READ OR PIN_ODR_HIGH GPIOC_STEARING_POS_READ OR
     PIN_ODR_HIGH GPIOC_PIN6 OR PIN_ODR_HIGH GPIOC_MCLK OR PIN_ODR_HIGH GPIOC_PIN8 OR PIN_ODR_HIGH GPIOC_PIN9 OR
     PIN_ODR_HIGH GPIOC_SCLK OR PIN_ODR_HIGH GPIOC_PIN11 OR PIN_ODR_HIGH GPIOC_SDIN OR PIN_ODR_HIGH GPIOC_ASMS_READ OR
     PIN_ODR_HIGH GPIOC_CLAMPED_SENS_READ OR PIN_ODR_HIGH GPIOC_EBS_OK_READ"

definition VAL_GPIOC_AFRL :: "32 word" where
  "VAL_GPIOC_AFRL =
     PIN_AFIO_AF GPIOC_EBS_LINE_READ 0 OR PIN_AFIO_AF GPIOC_EBS_ACTUATOR_READ 0 OR PIN_AFIO_AF GPIOC_PRESSURE_RAD_READ 0 OR
     PIN_AFIO_AF GPIOC_SERVICE_TANK_READ 0 OR PIN_AFIO_AF GPIOC_POSITION_RACK_READ 0 OR PIN_AFIO_AF GPIOC_STEARING_POS_READ 0 OR
     PIN_AFIO_AF GPIOC_PIN6 0 OR PIN_AFIO_AF GPIOC_MCLK 6"

definition VAL_GPIOC_AFRH :: "32 word" where
  "VAL_GPIOC_AFRH =
     PIN_AFIO_AF GPIOC_PIN8 0 OR PIN_AFIO_AF GPIOC_PIN9 0 OR PIN_AFIO_AF GPIOC_SCLK 6 OR PIN_AFIO_AF GPIOC_PIN11 0 OR
     PIN_AFIO_AF GPIOC_SDIN 6 OR PIN_AFIO_AF GPIOC_ASMS_READ 0 OR PIN_AFIO_AF GPIOC_CLAMPED_SENS_READ 0 OR
     PIN_AFIO_AF GPIOC_EBS_OK_READ 0"

definition VAL_GPIOD_MODER :: "32 word" where
  "VAL_GPIOD_MODER =
     PIN_MODE_OUTPUT GPIOD_HEART_BEAT OR PIN_MODE_OUTPUT GPIOD_RACK_RIGHT OR PIN_MODE_OUTPUT GPIOD_RACK_LEFT OR
     PIN_MODE_OUTPUT GPIOD_SERVICE_BREAK OR PIN_MODE_OUTPUT GPIOD_REDUNDENCY OR PIN_MODE_OUTPUT GPIOD_GPIOD_OVER_CURRENT OR
     PIN_MODE_OUTPUT GPIOD_SHUTDOWN OR PIN_MODE_OUTPUT GPIOD_SPARE OR PIN_MODE_OUTPUT GPIOD_CLAMP_SET OR
     PIN_MODE_OUTPUT GPIOD_COMPRESSOR OR PIN_MODE_OUTPUT GPIOD_EBS_RELIEF OR PIN_MODE_OUTPUT GPIOD_EBS_SPEAKER OR
     PIN_MODE_OUTPUT GPIOD_FINISHED OR PIN_MODE_OUTPUT GPIOD_LED3 OR PIN_MODE_OUTPUT GPIOD_LED5 OR PIN_MODE_OUTPUT GPIOD_LED6"

definition VAL_GPIOD_OTYPER :: "32 word" where
  "VAL_GPIOD_OTYPER =
     PIN_OTYPE_PUSHPULL GPIOD_HEART_BEAT OR PIN_OTYPE_PUSHPULL GPIOD_RACK_RIGHT OR PIN_OTYPE_PUSHPULL GPIOD_RACK_LEFT OR
     PIN_OTYPE_PUSHPULL GPIOD_SERVICE_BREAK OR PIN_OTYPE_PUSHPULL GPIOD_REDUNDENCY OR PIN_OTYPE_PUSHPULL GPIOD_GPIOD_OVER_CURRENT OR
     PIN_OTYPE_PUSHPULL GPIOD_SHUTDOWN OR PIN_OTYPE_PUSHPULL GPIOD_SPARE OR PIN_OTYPE_PUSHPULL GPIOD_CLAMP_SET OR
     PIN_OTYPE_PUSHPULL GPIOD_COMPRESSOR OR PIN_OTYPE_PUSHPULL GPIOD_EBS_RELIEF OR PIN_OTYPE_PUSHPULL GPIOD_EBS_SPEAKER OR
     PIN_OTYPE_PUSHPULL GPIOD_FINISHED OR PIN_OTYPE_PUSHPULL GPIOD_LED3 OR PIN_OTYPE_PUSHPULL GPIOD_LED5 OR
     PIN_OTYPE_PUSHPULL GPIOD_LED6"

definition VAL_GPIOD_OSPEEDR :: "32 word" where
  "VAL_GPIOD_OSPEEDR =
     PIN_OSPEED_HIGH GPIOD_HEART_BEAT OR PIN_OSPEED_HIGH GPIOD_RACK_RIGHT OR PIN_OSPEED_HIGH GPIOD_RACK_LEFT OR
     PIN_OSPEED_HIGH GPIOD_SERVICE_BREAK OR PIN_OSPEED_HIGH GPIOD_REDUNDENCY OR PIN_OSPEED_HIGH GPIOD_GPIOD_OVER_CURRENT OR
     PIN_OSPEED_HIGH GPIOD_SHUTDOWN OR PIN_OSPEED_HIGH GPIOD_SPARE OR PIN_OSPEED_HIGH GPIOD_CLAMP_SET OR
     PIN_OSPEED_HIGH GPIOD_COMPRESSOR OR PIN_OSPEED_HIGH GPIOD_EBS_RELIEF OR PIN_OSPEED_HIGH GPIOD_EBS_SPEAKER OR
     PIN_OSPEED_HIGH GPIOD_FINISHED OR PIN_OSPEED_HIGH GPIOD_LED3 OR PIN_OSPEED_HIGH GPIOD_LED5 OR PIN_OSPEED_HIGH GPIOD_LED6"

definition VAL_GPIOD_PUPDR :: "32 word" where
  "VAL_GPIOD_PUPDR =
     PIN_PUPDR_PULLUP GPIOD_HEART_BEAT OR PIN_PUPDR_PULLUP GPIOD_RACK_RIGHT OR PIN_PUPDR_PULLUP GPIOD_RACK_LEFT OR
     PIN_PUPDR_PULLUP GPIOD_SERVICE_BREAK OR PIN_PUPDR_PULLUP GPIOD_REDUNDENCY OR PIN_PUPDR_FLOATING GPIOD_GPIOD_OVER_CURRENT OR
     PIN_PUPDR_PULLUP GPIOD_SHUTDOWN OR PIN_PUPDR_PULLUP GPIOD_SPARE OR PIN_PUPDR_PULLUP GPIOD_CLAMP_SET OR
     PIN_PUPDR_PULLUP GPIOD_COMPRESSOR OR PIN_PUPDR_PULLUP GPIOD_EBS_RELIEF OR PIN_PUPDR_PULLUP GPIOD_EBS_SPEAKER OR
     PIN_PUPDR_PULLUP GPIOD_FINISHED OR PIN_PUPDR_FLOATING GPIOD_LED3 OR PIN_PUPDR_FLOATING GPIOD_LED5 OR
     PIN_PUPDR_FLOATING GPIOD_LED6"

definition VAL_GPIOD_ODR :: "32 word" where
  "VAL_GPIOD_ODR =
     PIN_ODR_LOW GPIOD_HEART_BEAT OR PIN_ODR_LOW GPIOD_RACK_RIGHT OR PIN_ODR_LOW GPIOD_RACK_LEFT OR
     PIN_ODR_LOW GPIOD_SERVICE_BREAK OR PIN_ODR_LOW GPIOD_REDUNDENCY OR PIN_ODR_HIGH GPIOD_GPIOD_OVER_CURRENT OR
     PIN_ODR_LOW GPIOD_SHUTDOWN OR PIN_ODR_LOW GPIOD_SPARE OR PIN_ODR_LOW GPIOD_CLAMP_SET OR PIN_ODR_LOW GPIOD_COMPRESSOR OR
     PIN_ODR_LOW GPIOD_EBS_RELIEF OR PIN_ODR_LOW GPIOD_EBS_SPEAKER OR PIN_ODR_LOW GPIOD_FINISHED OR PIN_ODR_LOW GPIOD_LED3 OR
     PIN_ODR_LOW GPIOD_LED5 OR PIN_ODR_LOW GPIOD_LED6"

definition VAL_GPIOD_AFRL :: "32 word" where
  "VAL_GPIOD_AFRL =
     PIN_AFIO_AF GPIOD_HEART_BEAT 0 OR PIN_AFIO_AF GPIOD_RACK_RIGHT 0 OR PIN_AFIO_AF GPIOD_RACK_LEFT 0 OR
     PIN_AFIO_AF GPIOD_SERVICE_BREAK 0 OR PIN_AFIO_AF GPIOD_REDUNDENCY 0 OR PIN_AFIO_AF GPIOD_GPIOD_OVER_CURRENT 0 OR
     PIN_AFIO_AF GPIOD_SHUTDOWN 0 OR PIN_AFIO_AF GPIOD_SPARE 0"

definition VAL_GPIOD_AFRH :: "32 word" where
  "VAL_GPIOD_AFRH =
     PIN_AFIO_AF GPIOD_CLAMP_SET 0 OR PIN_AFIO_AF GPIOD_COMPRESSOR 0 OR PIN_AFIO_AF GPIOD_EBS_RELIEF 0 OR
     PIN_AFIO_AF GPIOD_EBS_SPEAKER 0 OR PIN_AFIO_AF GPIOD_FINISHED 0 OR PIN_AFIO_AF GPIOD_LED3 0 OR PIN_AFIO_AF GPIOD_LED5 0 OR
     PIN_AFIO_AF GPIOD_LED6 0"

definition VAL_GPIOE_MODER :: "32 word" where
  "VAL_GPIOE_MODER =
     PIN_MODE_INPUT GPIOE_INT1 OR PIN_MODE_INPUT GPIOE_INT2 OR PIN_MODE_INPUT GPIOE_PIN2 OR PIN_MODE_OUTPUT GPIOE_CS_SPI OR
     PIN_MODE_INPUT GPIOE_PIN4 OR PIN_MODE_INPUT GPIOE_PIN5 OR PIN_MODE_INPUT GPIOE_PIN6 OR PIN_MODE_INPUT GPIOE_PIN7 OR
     PIN_MODE_INPUT GPIOE_PIN8 OR PIN_MODE_INPUT GPIOE_PIN9 OR PIN_MODE_INPUT GPIOE_PIN10 OR PIN_MODE_INPUT GPIOE_PIN11 OR
     PIN_MODE_INPUT GPIOE_PIN12 OR PIN_MODE_INPUT GPIOE_PIN13 OR PIN_MODE_INPUT GPIOE_PIN14 OR PIN_MODE_INPUT GPIOE_PIN15"

definition VAL_GPIOE_OTYPER :: "32 word" where
  "VAL_GPIOE_OTYPER =
     PIN_OTYPE_PUSHPULL GPIOE_INT1 OR PIN_OTYPE_PUSHPULL GPIOE_INT2 OR PIN_OTYPE_PUSHPULL GPIOE_PIN2 OR
     PIN_OTYPE_PUSHPULL GPIOE_CS_SPI OR PIN_OTYPE_PUSHPULL GPIOE_PIN4 OR PIN_OTYPE_PUSHPULL GPIOE_PIN5 OR
     PIN_OTYPE_PUSHPULL GPIOE_PIN6 OR PIN_OTYPE_PUSHPULL GPIOE_PIN7 OR PIN_OTYPE_PUSHPULL GPIOE_PIN8 OR
     PIN_OTYPE_PUSHPULL GPIOE_PIN9 OR PIN_OTYPE_PUSHPULL GPIOE_PIN10 OR PIN_OTYPE_PUSHPULL GPIOE_PIN11 OR
     PIN_OTYPE_PUSHPULL GPIOE_PIN12 OR PIN_OTYPE_PUSHPULL GPIOE_PIN13 OR PIN_OTYPE_PUSHPULL GPIOE_PIN14 OR
     PIN_OTYPE_PUSHPULL GPIOE_PIN15"

definition VAL_GPIOE_OSPEEDR :: "32 word" where
  "VAL_GPIOE_OSPEEDR =
     PIN_OSPEED_HIGH GPIOE_INT1 OR PIN_OSPEED_HIGH GPIOE_INT2 OR PIN_OSPEED_HIGH GPIOE_PIN2 OR PIN_OSPEED_HIGH GPIOE_CS_SPI OR
     PIN_OSPEED_HIGH GPIOE_PIN4 OR PIN_OSPEED_HIGH GPIOE_PIN5 OR PIN_OSPEED_HIGH GPIOE_PIN6 OR PIN_OSPEED_HIGH GPIOE_PIN7 OR
     PIN_OSPEED_HIGH GPIOE_PIN8 OR PIN_OSPEED_HIGH GPIOE_PIN9 OR PIN_OSPEED_HIGH GPIOE_PIN10 OR PIN_OSPEED_HIGH GPIOE_PIN11 OR
     PIN_OSPEED_HIGH GPIOE_PIN12 OR PIN_OSPEED_HIGH GPIOE_PIN13 OR PIN_OSPEED_HIGH GPIOE_PIN14 OR PIN_OSPEED_HIGH GPIOE_PIN15"

definition VAL_GPIOE_PUPDR :: "32 word" where
  "VAL_GPIOE_PUPDR =
     PIN_PUPDR_FLOATING GPIOE_INT1 OR PIN_PUPDR_FLOATING GPIOE_INT2 OR PIN_PUPDR_FLOATING GPIOE_PIN2 OR
     PIN_PUPDR_FLOATING GPIOE_CS_SPI OR PIN_PUPDR_FLOATING GPIOE_PIN4 OR PIN_PUPDR_FLOATING GPIOE_PIN5 OR
     PIN_PUPDR_FLOATING GPIOE_PIN6 OR PIN_PUPDR_FLOATING GPIOE_PIN7 OR PIN_PUPDR_FLOATING GPIOE_PIN8 OR
     PIN_PUPDR_FLOATING GPIOE_PIN9 OR PIN_PUPDR_FLOATING GPIOE_PIN10 OR PIN_PUPDR_FLOATING GPIOE_PIN11 OR
     PIN_PUPDR_FLOATING GPIOE_PIN12 OR PIN_PUPDR_FLOATING GPIOE_PIN13 OR PIN_PUPDR_FLOATING GPIOE_PIN14 OR
     PIN_PUPDR_FLOATING GPIOE_PIN15"

definition VAL_GPIOE_ODR :: "32 word" where
  "VAL_GPIOE_ODR =
     PIN_ODR_HIGH GPIOE_INT1 OR PIN_ODR_HIGH GPIOE_INT2 OR PIN_ODR_HIGH GPIOE_PIN2 OR PIN_ODR_HIGH GPIOE_CS_SPI OR
     PIN_ODR_HIGH GPIOE_PIN4 OR PIN_ODR_HIGH GPIOE_PIN5 OR PIN_ODR_HIGH GPIOE_PIN6 OR PIN_ODR_HIGH GPIOE_PIN7 OR
     PIN_ODR_HIGH GPIOE_PIN8 OR PIN_ODR_HIGH GPIOE_PIN9 OR PIN_ODR_HIGH GPIOE_PIN10 OR PIN_ODR_HIGH GPIOE_PIN11 OR
     PIN_ODR_HIGH GPIOE_PIN12 OR PIN_ODR_HIGH GPIOE_PIN13 OR PIN_ODR_HIGH GPIOE_PIN14 OR PIN_ODR_HIGH GPIOE_PIN15"

definition VAL_GPIOE_AFRL :: "32 word" where
  "VAL_GPIOE_AFRL =
     PIN_AFIO_AF GPIOE_INT1 0 OR PIN_AFIO_AF GPIOE_INT2 0 OR PIN_AFIO_AF GPIOE_PIN2 0 OR PIN_AFIO_AF GPIOE_CS_SPI 0 OR
     PIN_AFIO_AF GPIOE_PIN4 0 OR PIN_AFIO_AF GPIOE_PIN5 0 OR PIN_AFIO_AF GPIOE_PIN6 0 OR PIN_AFIO_AF GPIOE_PIN7 0"

definition VAL_GPIOE_AFRH :: "32 word" where
  "VAL_GPIOE_AFRH =
     PIN_AFIO_AF GPIOE_PIN8 0 OR PIN_AFIO_AF GPIOE_PIN9 0 OR PIN_AFIO_AF GPIOE_PIN10 0 OR PIN_AFIO_AF GPIOE_PIN11 0 OR
     PIN_AFIO_AF GPIOE_PIN12 0 OR PIN_AFIO_AF GPIOE_PIN13 0 OR PIN_AFIO_AF GPIOE_PIN14 0 OR PIN_AFIO_AF GPIOE_PIN15 0"

text \<open>The values as numbers.\<close>

lemma port_A:
  "VAL_GPIOA_MODER = 0x2960AA00"
  "VAL_GPIOA_OTYPER = 0x0"
  "VAL_GPIOA_OSPEEDR = 0xFFFFABFF"
  "VAL_GPIOA_PUPDR = 0x40010054"
  "VAL_GPIOA_ODR = 0xFFFF"
  "VAL_GPIOA_AFRL = 0x55560000"
  "VAL_GPIOA_AFRH = 0xA00"
  unfolding VAL_GPIOA_MODER_def VAL_GPIOA_OTYPER_def VAL_GPIOA_OSPEEDR_def VAL_GPIOA_PUPDR_def VAL_GPIOA_ODR_def VAL_GPIOA_AFRL_def VAL_GPIOA_AFRH_def
  by (simp_all add: pin_defs pad_defs)

lemma port_B:
  "VAL_GPIOB_MODER = 0xA0AA88A"
  "VAL_GPIOB_OTYPER = 0x0"
  "VAL_GPIOB_OSPEEDR = 0xFFFAFFFF"
  "VAL_GPIOB_PUPDR = 0x50505515"
  "VAL_GPIOB_ODR = 0xFFFF"
  "VAL_GPIOB_AFRL = 0x22200022"
  "VAL_GPIOB_AFRH = 0x990099"
  unfolding VAL_GPIOB_MODER_def VAL_GPIOB_OTYPER_def VAL_GPIOB_OSPEEDR_def VAL_GPIOB_PUPDR_def VAL_GPIOB_ODR_def VAL_GPIOB_AFRL_def VAL_GPIOB_AFRH_def
  by (simp_all add: pin_defs pad_defs)

lemma port_C:
  "VAL_GPIOC_MODER = 0x2208FFF"
  "VAL_GPIOC_OTYPER = 0x0"
  "VAL_GPIOC_OSPEEDR = 0xFFFFFFFF"
  "VAL_GPIOC_PUPDR = 0x54451554"
  "VAL_GPIOC_ODR = 0xFFFF"
  "VAL_GPIOC_AFRL = 0x60000000"
  "VAL_GPIOC_AFRH = 0x60600"
  unfolding VAL_GPIOC_MODER_def VAL_GPIOC_OTYPER_def VAL_GPIOC_OSPEEDR_def VAL_GPIOC_PUPDR_def VAL_GPIOC_ODR_def VAL_GPIOC_AFRL_def VAL_GPIOC_AFRH_def
  by (simp_all add: pin_defs pad_defs)

lemma port_D:
  "VAL_GPIOD_MODER = 0x55555555"
  "VAL_GPIOD_OTYPER = 0x0"
  "VAL_GPIOD_OSPEEDR = 0xFFFFFFFF"
  "VAL_GPIOD_PUPDR = 0x1555155"
  "VAL_GPIOD_ODR = 0x20"
  "VAL_GPIOD_AFRL = 0x0"
  "VAL_GPIOD_AFRH = 0x0"
  unfolding VAL_GPIOD_MODER_def VAL_GPIOD_OTYPER_def VAL_GPIOD_OSPEEDR_def VAL_GPIOD_PUPDR_def VAL_GPIOD_ODR_def VAL_GPIOD_AFRL_def VAL_GPIOD_AFRH_def
  by (simp_all add: pin_defs pad_defs)

lemma port_E:
  "VAL_GPIOE_MODER = 0x40"
  "VAL_GPIOE_OTYPER = 0x0"
  "VAL_GPIOE_OSPEEDR = 0xFFFFFFFF"
  "VAL_GPIOE_PUPDR = 0x0"
  "VAL_GPIOE_ODR = 0xFFFF"
  "VAL_GPIOE_AFRL = 0x0"
  "VAL_GPIOE_AFRH = 0x0"
  unfolding VAL_GPIOE_MODER_def VAL_GPIOE_OTYPER_def VAL_GPIOE_OSPEEDR_def VAL_GPIOE_PUPDR_def VAL_GPIOE_ODR_def VAL_GPIOE_AFRL_def VAL_GPIOE_AFRH_def
  by (simp_all add: pin_defs pad_defs)

section \<open>Initialization\<close>

record gpio_setup =
  set_moder :: "32 word"
  set_otyper :: "32 word"
  set_ospeedr :: "32 word"
  set_pupdr :: "32 word"
  set_odr :: "32 word"
  set_afrl :: "32 word"
  set_afrh :: "32 word"

definition gpio_default_config :: "ioportid \<Rightarrow> gpio_setup" where
  "gpio_default_config port = (case port of
     GPIOA \<Rightarrow> \<lparr>set_moder = VAL_GPIOA_MODER, set_otyper = VAL_GPIOA_OTYPER, set_ospeedr = VAL_GPIOA_OSPEEDR, set_pupdr = VAL_GPIOA_PUPDR,
       set_odr = VAL_GPIOA_ODR, set_afrl = VAL_GPIOA_AFRL, set_afrh = VAL_GPIOA_AFRH\<rparr>
   | GPIOB \<Rightarrow> \<lparr>set_moder = VAL_GPIOB_MODER, set_otyper = VAL_GPIOB_OTYPER, set_ospeedr = VAL_GPIOB_OSPEEDR, set_pupdr = VAL_GPIOB_PUPDR,
       set_odr = VAL_GPIOB_ODR, set_afrl = VAL_GPIOB_AFRL, set_afrh = VAL_GPIOB_AFRH\<rparr>
   | GPIOC \<Rightarrow> \<lparr>set_moder = VAL_GPIOC_MODER, set_otyper = VAL_GPIOC_OTYPER, set_ospeedr = VAL_GPIOC_OSPEEDR, set_pupdr = VAL_GPIOC_PUPDR,
       set_odr = VAL_GPIOC_ODR, set_afrl = VAL_GPIOC_AFRL, set_afrh = VAL_GPIOC_AFRH\<rparr>
   | GPIOD \<Rightarrow> \<lparr>set_moder = VAL_GPIOD_MODER, set_otyper = VAL_GPIOD_OTYPER, set_ospeedr = VAL_GPIOD_OSPEEDR, set_pupdr = VAL_GPIOD_PUPDR,
       set_odr = VAL_GPIOD_ODR, set_afrl = VAL_GPIOD_AFRL, set_afrh = VAL_GPIOD_AFRH\<rparr>
   | GPIOE \<Rightarrow> \<lparr>set_moder = VAL_GPIOE_MODER, set_otyper = VAL_GPIOE_OTYPER, set_ospeedr = VAL_GPIOE_OSPEEDR, set_pupdr = VAL_GPIOE_PUPDR,
       set_odr = VAL_GPIOE_ODR, set_afrl = VAL_GPIOE_AFRL, set_afrh = VAL_GPIOE_AFRH\<rparr>)"

definition gpio_init :: "gpio_setup \<Rightarrow> stm32_gpio \<Rightarrow> stm32_gpio" where
  "gpio_init c p =
     (let p = p\<lparr>OTYPER := set_otyper c\<rparr>;
          p = p\<lparr>OSPEEDR := set_ospeedr c\<rparr>;
          p = p\<lparr>PUPDR := set_pupdr c\<rparr>;
          p = p\<lparr>ODR := set_odr c\<rparr>;
          p = p\<lparr>AFRL := set_afrl c\<rparr>;
          p = p\<lparr>AFRH := set_afrh c\<rparr>
      in p\<lparr>MODER := set_moder c\<rparr>)"

text \<open>The clocks of the ports are on; the reset before leaves nothing that is not written here.\<close>

definition stm32_gpio_init :: "gpio \<Rightarrow> gpio" where
  "stm32_gpio_init g =
     (let g = g(GPIOA := gpio_init (gpio_default_config GPIOA) (g GPIOA));
          g = g(GPIOB := gpio_init (gpio_default_config GPIOB) (g GPIOB));
          g = g(GPIOC := gpio_init (gpio_default_config GPIOC) (g GPIOC));
          g = g(GPIOD := gpio_init (gpio_default_config GPIOD) (g GPIOD))
      in g(GPIOE := gpio_init (gpio_default_config GPIOE) (g GPIOE)))"

section \<open>What a pin is\<close>

definition pad_mode :: "gpio \<Rightarrow> ioline \<Rightarrow> nat" where
  "pad_mode g l = unat (take_bit 2 (drop_bit (2 * snd l) (MODER (g (fst l)))))"

definition pad_alternate :: "gpio \<Rightarrow> ioline \<Rightarrow> nat" where
  "pad_alternate g l = unat (take_bit 4 (drop_bit (4 * (snd l mod 8)) (if snd l < 8 then AFRL (g (fst l)) else AFRH (g (fst l)))))"

definition input_pin :: "gpio \<Rightarrow> ioline \<Rightarrow> bool" where "input_pin g l \<longleftrightarrow> pad_mode g l = 0"
definition output_pin :: "gpio \<Rightarrow> ioline \<Rightarrow> bool" where "output_pin g l \<longleftrightarrow> pad_mode g l = 1"
definition alternate_pin :: "gpio \<Rightarrow> ioline \<Rightarrow> nat \<Rightarrow> bool" where
  "alternate_pin g l f \<longleftrightarrow> pad_mode g l = 2 \<and> pad_alternate g l = f"
definition analog_pin :: "gpio \<Rightarrow> ioline \<Rightarrow> bool" where "analog_pin g l \<longleftrightarrow> pad_mode g l = 3"

lemma board_ports:
  "MODER (stm32_gpio_init g p) = set_moder (gpio_default_config p)" "ODR (stm32_gpio_init g p) = set_odr (gpio_default_config p)"
  "AFRL (stm32_gpio_init g p) = set_afrl (gpio_default_config p)" "AFRH (stm32_gpio_init g p) = set_afrh (gpio_default_config p)"
  by (cases p; simp add: stm32_gpio_init_def gpio_init_def)+

lemmas board_eval = pad_mode_def pad_alternate_def board_ports gpio_default_config_def take_bit_eq_mod drop_bit_eq_div
  port_A port_B port_C port_D port_E

text \<open>The lines the communication thread drives are outputs and low from the start; the three it reads are inputs.\<close>

definition command_lines :: "ioline list" where
  "command_lines = [LINE_HEART_BEAT, LINE_RACK_RIGHT, LINE_RACK_LEFT, LINE_SERVICE_BREAK, LINE_REDUNDENCY, LINE_SHUTDOWN, LINE_SPARE,
     LINE_CLAMP_SET, LINE_COMPRESSOR, LINE_EBS_RELIEF, LINE_EBS_SPEAKER, LINE_FINISHED, LINE_LED3, LINE_LED5, LINE_LED6]"

lemma board_outputs: "l \<in> set command_lines \<Longrightarrow> output_pin (stm32_gpio_init g) l \<and> \<not> line_out (stm32_gpio_init g) l"
  by (auto simp: command_lines_def output_pin_def line_out_def line_defs board_eval)

lemma board_inputs: "l \<in> {LINE_ASMS_READ, LINE_CLAMPED_SENS_READ, LINE_EBS_OK_READ} \<Longrightarrow> input_pin (stm32_gpio_init g) l"
  by (auto simp: input_pin_def line_defs board_eval)

text \<open>Timers 3 and 4 are alternate function 2 of their pins, CAN1 is function 9, and six pins of port C are analog.\<close>

lemma board_alternates:
  "n \<in> {GPIOB_PWM_LINEAR_ACTUATOR, GPIOB_PWM_PRESSURE, GPIOB_PWM_ASSI_RED, GPIOB_PWM_ASSI_GREEN, GPIOB_PWM_ASSI_BLUE} \<Longrightarrow>
     alternate_pin (stm32_gpio_init g) (GPIOB, n) 2"
  "n \<in> {GPIOB_CAN1_RX, GPIOB_CAN1_TX} \<Longrightarrow> alternate_pin (stm32_gpio_init g) (GPIOB, n) 9"
  "n < 6 \<Longrightarrow> analog_pin (stm32_gpio_init g) (GPIOC, n)"
proof -
  show "n \<in> {GPIOB_PWM_LINEAR_ACTUATOR, GPIOB_PWM_PRESSURE, GPIOB_PWM_ASSI_RED, GPIOB_PWM_ASSI_GREEN, GPIOB_PWM_ASSI_BLUE} \<Longrightarrow>
     alternate_pin (stm32_gpio_init g) (GPIOB, n) 2" "n \<in> {GPIOB_CAN1_RX, GPIOB_CAN1_TX} \<Longrightarrow> alternate_pin (stm32_gpio_init g) (GPIOB, n) 9"
    by (auto simp: alternate_pin_def board_eval pad_defs)
  show "analog_pin (stm32_gpio_init g) (GPIOC, n)" if "n < 6"
  proof -
    have "n \<in> {0, 1, 2, 3, 4, 5}" using that by auto
    then show ?thesis by (auto simp: analog_pin_def board_eval)
  qed
qed

text \<open>
  The two data lines of USB are function 10 of pins 11 and 12 of port A. The board makes them outputs, and the USB
  driver does not change that.
\<close>

lemma board_usb_lines: "n \<in> {GPIOA_PIN11, GPIOA_PIN12} \<Longrightarrow> output_pin (stm32_gpio_init g) (GPIOA, n) \<and> line_out (stm32_gpio_init g) (GPIOA, n)"
  by (auto simp: output_pin_def line_out_def board_eval pad_defs)

end
