(* ===== verification/AppMain.thy ===== *)
theory AppMain
  imports CommSafe AdcFaults CanRx SduNode KernelTypes Blinker Board
begin

text \<open>
  How the application starts: \<^verbatim>\<open>halInit\<close> and \<^verbatim>\<open>main\<close> of \<^verbatim>\<open>src/src/main.c\<close>, which bring the drivers of all
  parts up and create the threads. What they establish is what the properties of the parts start from.
\<close>

section \<open>State\<close>

record node_sys =
  node_app :: app
  node_adc :: ADCDriver
  node_can :: CANDriver
  node_usb :: SerialUSB

section \<open>Initialization\<close>

text \<open>
  The drivers in the order of \<^verbatim>\<open>halInit\<close>; \<^verbatim>\<open>dmaInit\<close> is called by \<^verbatim>\<open>hal_lld_init\<close>. \<^verbatim>\<open>palInit\<close> sets up
  callbacks of pins, which are not used. \<^verbatim>\<open>osalInit\<close> and \<^verbatim>\<open>boardInit\<close> are empty, \<^verbatim>\<open>stInit\<close> sets up the timer of the kernel
  (see \<open>VTimers\<close>), and the rest of \<^verbatim>\<open>hal_lld_init\<close> resets peripherals and sets clocks.
\<close>

definition halInit :: "node_sys \<Rightarrow> node_sys" where
  "halInit s =
     (let s = s\<lparr>node_adc := dmaInit (node_adc s)\<rparr>;
          s = s\<lparr>node_adc := adcInit (node_adc s)\<rparr>;
          s = s\<lparr>node_can := canInit (node_can s)\<rparr>;
          s = s\<lparr>node_app := (node_app s)\<lparr>PWMD3 := pwm_lld_init (PWMD3 (node_app s)), PWMD4 := pwm_lld_init (PWMD4 (node_app s))\<rparr>\<rparr>;
          s = s\<lparr>node_usb := usbObjectInit (node_usb s)\<rparr>
      in s\<lparr>node_usb := sduInit (node_usb s)\<rparr>)"

definition ADCinit :: "node_sys \<Rightarrow> node_sys result" where
  "ADCinit s =
     (let g = ports (node_app s);
          g = palSetGroupMode g GPIOC (PAL_PORT_BIT 0) 0 PAL_MODE_INPUT_ANALOG;
          g = palSetGroupMode g GPIOC (PAL_PORT_BIT 1) 0 PAL_MODE_INPUT_ANALOG;
          g = palSetGroupMode g GPIOC (PAL_PORT_BIT 2) 0 PAL_MODE_INPUT_ANALOG;
          g = palSetGroupMode g GPIOC (PAL_PORT_BIT 3) 0 PAL_MODE_INPUT_ANALOG;
          g = palSetGroupMode g GPIOC (PAL_PORT_BIT 4) 0 PAL_MODE_INPUT_ANALOG;
          g = palSetGroupMode g GPIOC (PAL_PORT_BIT 5) 0 PAL_MODE_INPUT_ANALOG;
          s = s\<lparr>node_app := (node_app s)\<lparr>ports := g\<rparr>\<rparr>
      in bindE (adcStart None (node_adc s)) (\<lambda>d. Inr (s\<lparr>node_adc := d\<rparr>)))"

definition pwmcfg :: PWMConfig where
  "pwmcfg = \<lparr>frequency = 100000, cfg_period = 10, cfg_callback = None,
     cfg_channels = [\<lparr>ch_mode = PWM_OUTPUT_ACTIVE_HIGH, ch_callback = None\<rparr>, \<lparr>ch_mode = PWM_OUTPUT_ACTIVE_HIGH, ch_callback = None\<rparr>,
       \<lparr>ch_mode = PWM_OUTPUT_ACTIVE_HIGH, ch_callback = None\<rparr>, \<lparr>ch_mode = PWM_OUTPUT_ACTIVE_HIGH, ch_callback = None\<rparr>],
     cfg_cr2 = 0, cfg_dier = 0\<rparr>"

definition PWMInit :: "app \<Rightarrow> app result" where
  "PWMInit a =
     bindE (pwmStart (PWMD3 a) pwmcfg) (\<lambda>d3.
     bindE (pwmStart (PWMD4 a) pwmcfg) (\<lambda>d4.
     bindE (pwmEnableChannel d3 1 (PWM_PERCENTAGE_TO_WIDTH d3 0)) (\<lambda>d3.
     bindE (pwmEnableChannel d3 2 (PWM_PERCENTAGE_TO_WIDTH d3 0)) (\<lambda>d3.
     bindE (pwmEnableChannel d3 3 (PWM_PERCENTAGE_TO_WIDTH d3 0)) (\<lambda>d3.
     bindE (pwmEnableChannel d4 0 (PWM_PERCENTAGE_TO_WIDTH d4 0)) (\<lambda>d4.
     bindE (pwmEnableChannel d4 1 (PWM_PERCENTAGE_TO_WIDTH d4 0)) (\<lambda>d4.
       Inr (a\<lparr>PWMD3 := d3, PWMD4 := d4\<rparr>))))))))"

text \<open>
  \<^verbatim>\<open>main\<close> up to the creation of the threads. \<^verbatim>\<open>chSysInit\<close>, which it calls after \<^verbatim>\<open>halInit\<close>, starts the kernel and touches
  none of these states (\<open>KernelBoot\<close>); \<^verbatim>\<open>portab_setup\<close> is empty.
\<close>

definition main_drivers :: "node_sys \<Rightarrow> node_sys result" where
  "main_drivers s =
     (let s = halInit s in
      bindE (main_usb (node_usb s)) (\<lambda>w.
      bindE (ADCinit (s\<lparr>node_usb := w\<rparr>)) (\<lambda>s.
      bindE (PWMInit (node_app s)) (\<lambda>a.
      bindE (canStart (Some cancfg) (node_can s)) (\<lambda>c.
        Inr (s\<lparr>node_app := a, node_can := c\<rparr>))))))"

lemma halInit_effect:
  "node_adc (halInit s) = adcInit (dmaInit (node_adc s))" "node_can (halInit s) = canInit (node_can s)"
  "node_usb (halInit s) = usbObjectInit (node_usb s)"
  "node_app (halInit s) = (node_app s)\<lparr>PWMD3 := pwm_lld_init (PWMD3 (node_app s)), PWMD4 := pwm_lld_init (PWMD4 (node_app s))\<rparr>"
  by (simp_all add: halInit_def Let_def sduInit_def)

section \<open>Pins\<close>

text \<open>The six pads as the loop of \<^verbatim>\<open>_pal_lld_setgroupmode\<close> leaves them: analog, without pull-up, slowest.\<close>

definition analog_pads :: "stm32_gpio \<Rightarrow> stm32_gpio" where
  "analog_pads p = p\<lparr>OTYPER := OTYPER p AND NOT 0x3F, OSPEEDR := OSPEEDR p AND NOT 0xFFF, PUPDR := PUPDR p AND NOT 0xFFF,
     MODER := MODER p OR 0xFFF, AFRL := AFRL p AND NOT 0xFFFFFF\<rparr>"

lemma and_not_or: "(w AND NOT v) OR v = w OR v" for w v :: "32 word"
  by (rule bit_word_eqI) (auto simp: bit_simps)

lemma setgroupmode_analog:
  "palSetGroupMode (palSetGroupMode (palSetGroupMode (palSetGroupMode (palSetGroupMode (palSetGroupMode g
     GPIOC (PAL_PORT_BIT 0) 0 PAL_MODE_INPUT_ANALOG) GPIOC (PAL_PORT_BIT 1) 0 PAL_MODE_INPUT_ANALOG)
     GPIOC (PAL_PORT_BIT 2) 0 PAL_MODE_INPUT_ANALOG) GPIOC (PAL_PORT_BIT 3) 0 PAL_MODE_INPUT_ANALOG)
     GPIOC (PAL_PORT_BIT 4) 0 PAL_MODE_INPUT_ANALOG) GPIOC (PAL_PORT_BIT 5) 0 PAL_MODE_INPUT_ANALOG =
   g(GPIOC := analog_pads (g GPIOC))"
proof -
  have m: "(w AND -4) OR 3 = w OR 3" "(w AND -13) OR 12 = w OR 12" "(w AND -49) OR 48 = w OR 48" "(w AND -193) OR 192 = w OR 192"
    "(w AND -769) OR 768 = w OR 768" "(w AND -3073) OR 3072 = w OR 3072" for w :: "32 word"
    using and_not_or [of w 3] and_not_or [of w 12] and_not_or [of w 48] and_not_or [of w 192] and_not_or [of w 768] and_not_or [of w 3072]
    by simp_all
  show ?thesis
    by (simp add: palSetGroupMode_def pal_lld_setgroupmode_def PAL_PORT_BIT_def pal_mode_defs setgroupmode_loop.simps setmode_pad_def
        Let_def analog_pads_def m and.assoc or.assoc)
qed

lemma ADCinit_effect:
  assumes "adc_state (node_adc s) = ADC_STOP" "\<not> bit (dma_streams_mask (node_adc s)) 12" "adc_grpp (node_adc s) = None"
    "dmamode_ok (node_adc s)"
  obtains d where "ADCinit s = Inr (s\<lparr>node_app := (node_app s)\<lparr>ports := (ports (node_app s))(GPIOC := analog_pads (ports (node_app s) GPIOC))\<rparr>,
      node_adc := d\<rparr>)" "idle d" "dmamode_ok d" "dma_vector d 60" "adc_vector d = adc_vector (node_adc s)"
    "adc_thread d = adc_thread (node_adc s)" "adc_naps d = adc_naps (node_adc s)" "dma_sys.ram d = dma_sys.ram (node_adc s)"
proof -
  obtain d where d: "adcStart None (node_adc s) = Inr d" "adc_state d = ADC_READY" "installed d" "\<not> AdcSpec.enabled d" "dma_flags 12 d = 0"
    "adc_grpp d = adc_grpp (node_adc s)" "dma_sys.ram d = dma_sys.ram (node_adc s)" "adc_dmamode d = adc_dmamode (node_adc s)"
    "adc_thread d = adc_thread (node_adc s)" "dma_vector d 60" "adc_vector d = adc_vector (node_adc s)" "adc_naps d = adc_naps (node_adc s)"
    using start_installs [OF assms(1,2), of None] by metis
  have "ADCinit s = Inr (s\<lparr>node_app := (node_app s)\<lparr>ports := (ports (node_app s))(GPIOC := analog_pads (ports (node_app s) GPIOC))\<rparr>,
      node_adc := d\<rparr>)"
    unfolding ADCinit_def Let_def setgroupmode_analog by (simp add: d(1))
  moreover have "idle d" "dmamode_ok d" using d assms(3,4) by (simp_all add: idle_def dmamode_ok_def)
  ultimately show ?thesis using that d by blast
qed

section \<open>PWM channels\<close>

lemma pwmStart_cfg:
  assumes "pwm_state d = PWM_STOP" "channels d = 4"
  obtains d' where "pwmStart d pwmcfg = Inr d'" "pwm_state d' = PWM_READY" "channels d' = 4" "period d' = 10" "pwm_inv d'" "PWMDriver.enabled d' = 0"
    "CCR (tim d') = (\<lambda>_. 0)"
proof -
  have s: "pwmStart d pwmcfg \<noteq> Inl e" for e
    using assms by (cases d) (simp add: pwmStart_def pwm_lld_start_def pwmcfg_def STM32_TIMCLK1_def Let_def)
  then obtain d' where d': "pwmStart d pwmcfg = Inr d'" by (cases "pwmStart d pwmcfg") auto
  then have "pwm_state d' = PWM_READY" "channels d' = 4" "period d' = 10" "PWMDriver.enabled d' = 0" "CCR (tim d') = (\<lambda>_. 0)"
    "clock d' = STM32_TIMCLK1" "pwm_config d' = Some pwmcfg" "PSC (tim d') = 839" "ARR (tim d') = 9"
    using assms by (auto simp: pwmStart_def pwm_lld_start_def pwmcfg_def STM32_TIMCLK1_def Let_def tim_reset_def)
  then show ?thesis using that [of d'] d' by (simp add: pwm_inv_def pwmcfg_def STM32_TIMCLK1_def)
qed

lemma enable_zero:
  assumes "pwm_inv d" "pwm_state d = PWM_READY" "ch < 4"
  shows "pwmEnableChannel d ch (PWM_PERCENTAGE_TO_WIDTH d 0) =
      Inr (d\<lparr>enabled := PWMDriver.enabled d OR push_bit ch 1, tim := (tim d)\<lparr>CCR := (CCR (tim d))(ch := 0)\<rparr>\<rparr>)"
    "pwm_inv (d\<lparr>enabled := PWMDriver.enabled d OR push_bit ch 1, tim := (tim d)\<lparr>CCR := (CCR (tim d))(ch := 0)\<rparr>\<rparr>)"
proof -
  show "pwmEnableChannel d ch (PWM_PERCENTAGE_TO_WIDTH d 0) =
      Inr (d\<lparr>enabled := PWMDriver.enabled d OR push_bit ch 1, tim := (tim d)\<lparr>CCR := (CCR (tim d))(ch := 0)\<rparr>\<rparr>)"
    using assms by (simp add: pwm_inv_def pwmEnableChannel_def pwmEnableChannelI_def pwm_lld_enable_channel_def
        PWM_PERCENTAGE_TO_WIDTH_def PWM_FRACTION_TO_WIDTH_def)
  then show "pwm_inv (d\<lparr>enabled := PWMDriver.enabled d OR push_bit ch 1, tim := (tim d)\<lparr>CCR := (CCR (tim d))(ch := 0)\<rparr>\<rparr>)"
    using pwm_step_inv [of d "PwmEnableChannel ch (PWM_PERCENTAGE_TO_WIDTH d 0)"] assms(1) by simp
qed

lemma PWMInit_effect:
  assumes "pwm_state (PWMD3 a) = PWM_STOP" "channels (PWMD3 a) = 4" "pwm_state (PWMD4 a) = PWM_STOP" "channels (PWMD4 a) = 4"
  obtains d3 d4 where "PWMInit a = Inr (a\<lparr>PWMD3 := d3, PWMD4 := d4\<rparr>)" "pwm_inv d3" "pwm_state d3 = PWM_READY" "pwm_inv d4"
    "pwm_state d4 = PWM_READY" "PWMDriver.enabled d3 = 14" "PWMDriver.enabled d4 = 3" "CCR (tim d3) = (\<lambda>_. 0)" "CCR (tim d4) = (\<lambda>_. 0)"
    "period d3 = 10" "period d4 = 10"
proof -
  define en :: "nat \<Rightarrow> PWMDriver \<Rightarrow> PWMDriver" where
    "en = (\<lambda>ch d. d\<lparr>enabled := PWMDriver.enabled d OR push_bit ch 1, tim := (tim d)\<lparr>CCR := (CCR (tim d))(ch := 0)\<rparr>\<rparr>)"
  have e: "pwmEnableChannel d ch (PWM_PERCENTAGE_TO_WIDTH d 0) = Inr (en ch d)" "pwm_inv (en ch d)" "pwm_state (en ch d) = PWM_READY"
    if "pwm_inv d" "pwm_state d = PWM_READY" "ch < 4" for d ch
    using enable_zero [OF that] that(2) by (simp_all add: en_def)
  obtain a3 where a3: "pwmStart (PWMD3 a) pwmcfg = Inr a3" "pwm_state a3 = PWM_READY" "period a3 = 10" "pwm_inv a3" "PWMDriver.enabled a3 = 0"
    "CCR (tim a3) = (\<lambda>_. 0)"
    using pwmStart_cfg [OF assms(1,2)] by metis
  obtain a4 where a4: "pwmStart (PWMD4 a) pwmcfg = Inr a4" "pwm_state a4 = PWM_READY" "period a4 = 10" "pwm_inv a4" "PWMDriver.enabled a4 = 0"
    "CCR (tim a4) = (\<lambda>_. 0)"
    using pwmStart_cfg [OF assms(3,4)] by metis
  have "PWMInit a = Inr (a\<lparr>PWMD3 := en 3 (en 2 (en 1 a3)), PWMD4 := en 1 (en 0 a4)\<rparr>)"
    by (simp add: PWMInit_def a3 a4 e)
  moreover have "PWMDriver.enabled (en 3 (en 2 (en 1 a3))) = 14" "PWMDriver.enabled (en 1 (en 0 a4)) = 3" "CCR (tim (en 3 (en 2 (en 1 a3)))) = (\<lambda>_. 0)"
    "CCR (tim (en 1 (en 0 a4))) = (\<lambda>_. 0)" "period (en 3 (en 2 (en 1 a3))) = 10" "period (en 1 (en 0 a4)) = 10"
    using a3 a4 by (auto simp: en_def)
  moreover have "pwm_inv (en 3 (en 2 (en 1 a3)))" "pwm_inv (en 1 (en 0 a4))" using a3 a4 e by simp_all
  moreover have "pwm_state (en 3 (en 2 (en 1 a3))) = PWM_READY" "pwm_state (en 1 (en 0 a4)) = PWM_READY" using a3 a4 by (simp_all add: en_def)
  ultimately show ?thesis using that by blast
qed

section \<open>Threads\<close>

text \<open>The priorities of the five threads in the order \<^verbatim>\<open>main\<close> creates them: two for CAN, communication, LEDs, ADC.\<close>

definition main_threads :: "nat list" where
  "main_threads = [HIGHPRIO, HIGHPRIO, NORMALPRIO, NORMALPRIO, NORMALPRIO]"

text \<open>A thread of higher priority than its creator runs before the call returns, any other one waits.\<close>

lemma chThdCreateStatic_runs:
  assumes inv: "kernel_inv i S D s" and t: "th_state (thr s) t = CH_STATE_FINAL" "t \<notin> D" and p: "0 < p" "p \<le> HIGHPRIO"
  shows "\<exists>s'. chThdCreateStatic t p s = Some (Inr s') \<and> kernel_inv i S D s' \<and>
    (if prio (thr s) (current (thr s)) < p
     then current (thr s') = t \<and> th_state (thr s') (current (thr s)) = CH_STATE_READY
     else current (thr s') = current (thr s) \<and> th_state (thr s') t = CH_STATE_READY)"
proof -
  obtain T L ds where ok: "kernel_ok i S D T L ds s" and ord: "in_order (thr s)" using inv by (auto simp: kernel_inv_def)
  obtain s' where s': "chThdCreateStatic t p s = Some (Inr s')" "kernel_inv i S D s'"
    using chThdCreateStatic_ok [OF ok ord t p] by (auto simp: kernel_returns_def kernel_inv_def)
  have ct: "t \<noteq> current (thr s)" using t(1) kernel_inv_runs(1) [OF inv, of "current (thr s)"] by auto
  show ?thesis
  proof (cases "prio (thr s) (current (thr s)) < p")
    case False
    then show ?thesis using s' lower_stays_ready [OF s'(1) _ p(2) ct] by auto
  next
    case True
    let ?c = "current (thr s)"
    let ?x = "(thread_init t p (thr s))\<lparr>th_u := (th_u (thread_init t p (thr s)))(t := U_rdymsg MSG_OK)\<rparr>"
    have x: "thr (vtimers.more_update (thread_init t p) s) = thread_init t p (thr s)" "current ?x = ?c"
      "prio (thread_init t p (thr s)) t = p" "prio (thread_init t p (thr s)) ?c = prio (thr s) ?c" "cont ?x = cont (thr s)"
      using ct by (cases s; simp add: thread_init_def)+
    have none: "cont (thr s) t = None"
    proof -
      obtain Q pl where k: "sched_inv Q pl S (thr s)" "waits {} ds (vt_par s) pl (thr s)" using ok by (auto simp: kernel_ok_def)
      then have "pl t = Off" using place_of_state(2) t(1) by (auto simp: sched_inv_def)
      then show ?thesis using waitsD(2) [OF k(2), of t] by (cases "cont (thr s) t") auto
    qed
    have "bindP (on_threads (\<lambda>_. bindP (chSchReadyI ?c ?x) (\<lambda>x.
        Some (Inr (x\<lparr>current := t, th_state := (th_state x)(t := CH_STATE_CURRENT)\<rparr>)))) (vtimers.more_update (thread_init t p) s))
        (\<lambda>s. Some (chSysSwitch s)) = Some (Inr s')"
      using s'(1) p x True by (simp add: chThdCreateStatic_def chSchWakeupS_def Let_def thread_init_def split: if_splits)
    then obtain y where y: "chSchReadyI ?c ?x = Some (Inr y)"
      "chSysSwitch (vtimers.more_update (\<lambda>_. y\<lparr>current := t, th_state := (th_state y)(t := CH_STATE_CURRENT)\<rparr>)
         (vtimers.more_update (thread_init t p) s)) = Inr s'"
      by (auto simp: on_threads_def dest!: bindP_InrD)
    have c: "cont y = cont (thr s)" "th_state y ?c = CH_STATE_READY"
      using y(1) x(5) by (auto simp: chSchReadyI_def ready_with_def Let_def split: if_splits dest!: bindP_InrD)
    then have "thr s' = y\<lparr>current := t, th_state := (th_state y)(t := CH_STATE_CURRENT)\<rparr>"
      using y(2) none by (cases s) (auto simp: chSysSwitch_def Let_def)
    then show ?thesis using s' True c ct by simp
  qed
qed

text \<open>So \<^verbatim>\<open>main\<close>, of normal priority, goes on after the two CAN threads have run up to their first wait.\<close>

lemma main_creates:
  assumes "kernel_inv i S D s" "prio (thr s) (current (thr s)) = NORMALPRIO" "th_state (thr s) t = CH_STATE_FINAL" "t \<notin> D" "k < 5"
  shows "\<exists>s'. chThdCreateStatic t (main_threads ! k) s = Some (Inr s') \<and> kernel_inv i S D s' \<and>
    current (thr s') = (if k < 2 then t else current (thr s))"
proof -
  have "k \<in> {0, 1, 2, 3, 4}" using assms(5) by auto
  then have p: "0 < main_threads ! k" "main_threads ! k \<le> HIGHPRIO" "NORMALPRIO < main_threads ! k \<longleftrightarrow> k < 2"
    by (auto simp: main_threads_def HIGHPRIO_def NORMALPRIO_def)
  show ?thesis using chThdCreateStatic_runs [OF assms(1,3,4) p(1,2)] p(3) assms(2) by (auto split: if_splits)
qed

section \<open>The whole start\<close>

text \<open>
  Before \<^verbatim>\<open>main\<close>: pins as the board sets them up, cleared static variables, no interrupt vector enabled, and a controller
  that answers the CAN driver.
\<close>

definition node_reset :: "nat \<Rightarrow> nat \<Rightarrow> nat \<Rightarrow> can_event nap list \<Rightarrow> node_sys \<Rightarrow> bool" where
  "node_reset a b lc ns s \<longleftrightarrow> (\<exists>g. ports (node_app s) = stm32_gpio_init g) \<and>
     readBuffer (node_app s) = replicate 128 NUL \<and> writeBuffer (node_app s) = replicate 256 NUL \<and> length (samples (node_app s)) = 24 \<and>
     \<not> dma_vector (node_adc s) 60 \<and> placed a b lc \<and> (\<exists>m. node_usb s = SduNode.power_on m a b lc) \<and>
     node_can s = can_power_on (Ev InitAck # Expire # ns)"

text \<open>
  What a command drives is at rest: an output that is low, or a pulse of width 0 on a channel that is enabled and has its
  pin. The pins of the channels are those of the data sheet, the first of a timer has number 0.
\<close>

fun at_rest :: "app \<Rightarrow> target \<Rightarrow> bool" where
  "at_rest a (OutLine l) \<longleftrightarrow> output_pin (ports a) l \<and> \<not> line_out (ports a) l"
| "at_rest a (Pwm3 ch) \<longleftrightarrow> bit (PWMDriver.enabled (PWMD3 a)) ch \<and> CCR (tim (PWMD3 a)) ch = 0 \<and>
     alternate_pin (ports a) (GPIOB, if ch = 1 then 5 else if ch = 2 then 0 else 1) 2"
| "at_rest a (Pwm4 ch) \<longleftrightarrow> bit (PWMDriver.enabled (PWMD4 a)) ch \<and> CCR (tim (PWMD4 a)) ch = 0 \<and>
     alternate_pin (ports a) (GPIOB, if ch = 0 then 6 else 7) 2"

lemma rest_ports:
  assumes "ports a = (stm32_gpio_init g)(GPIOC := analog_pads (stm32_gpio_init g GPIOC))" "PWMDriver.enabled (PWMD3 a) = 14"
    "PWMDriver.enabled (PWMD4 a) = 3" "CCR (tim (PWMD3 a)) = (\<lambda>_. 0)" "CCR (tim (PWMD4 a)) = (\<lambda>_. 0)"
  shows "list_all (at_rest a \<circ> snd) sensor_table" "n < 6 \<Longrightarrow> analog_pin (ports a) (GPIOC, n)"
    "l \<in> {LINE_ASMS_READ, LINE_CLAMPED_SENS_READ, LINE_EBS_OK_READ} \<Longrightarrow> input_pin (ports a) l"
proof -
  have out: "at_rest a (OutLine l)" if "l \<in> set command_lines" for l
  proof -
    have "fst l = GPIOD" using that by (auto simp: command_lines_def line_defs)
    then show ?thesis using board_outputs [OF that, of g] by (simp add: assms(1) output_pin_def pad_mode_def line_out_def)
  qed
  have alt: "alternate_pin (ports a) (GPIOB, n) 2" if "n \<in> {0, 1, 5, 6, 7}" for n
    using board_alternates(1) [of n g] that
    by (auto simp: assms(1) alternate_pin_def pad_mode_def pad_alternate_def pad_defs)
  show "list_all (at_rest a \<circ> snd) sensor_table"
    using assms(2-5) alt by (simp add: sensor_table_def out command_lines_def del: at_rest.simps(1))
  have "MODER (analog_pads (stm32_gpio_init g GPIOC)) = MODER (stm32_gpio_init g GPIOC)"
    by (simp add: analog_pads_def board_ports gpio_default_config_def port_C)
  then have "pad_mode (ports a) l = pad_mode (stm32_gpio_init g) l" for l by (simp add: assms(1) pad_mode_def)
  then show "n < 6 \<Longrightarrow> analog_pin (ports a) (GPIOC, n)"
    "l \<in> {LINE_ASMS_READ, LINE_CLAMPED_SENS_READ, LINE_EBS_OK_READ} \<Longrightarrow> input_pin (ports a) l"
    using board_alternates(3) [of n g] board_inputs [of l g] by (simp_all add: analog_pin_def input_pin_def)
qed

text \<open>
  C28. The start of the application establishes what the other properties assume. From reset, \<^verbatim>\<open>halInit\<close> and
  \<^verbatim>\<open>main\<close> up to the creation of the threads run without a failed assertion. Afterwards the communication thread starts
  in its loop invariant (C1 to C3), the ADC driver is ready for the sampling thread (C37), the USB and serial drivers are
  in their invariant and connected (C8), the CAN driver is ready, and a receiver that registers now is not deaf
  (C35). Everything that a command can drive is at rest until the first command: the twelve lines are outputs and low,
  and the five PWM channels are on, on their pins, with pulses of width 0. The six pins of the ADC are analog, the
  three lines the status report reads are inputs, and apart from the analog pins none has changed since the board set
  it up.
\<close>

theorem main_establishes_invariants:
  assumes "node_reset a b lc ns s"
  shows "\<exists>t. main_drivers s = Inr t \<and> comm_inv (node_app t) \<and>
    ports (node_app t) = (ports (node_app s))(GPIOC := analog_pads (ports (node_app s) GPIOC)) \<and>
    list_all (at_rest (node_app t) \<circ> snd) sensor_table \<and> (\<forall>n < 6. analog_pin (ports (node_app t)) (GPIOC, n)) \<and>
    (\<forall>l \<in> {LINE_ASMS_READ, LINE_CLAMPED_SENS_READ, LINE_EBS_OK_READ}. input_pin (ports (node_app t)) l) \<and>
    idle (node_adc t) \<and> dmamode_ok (node_adc t) \<and> dma_vector (node_adc t) 60 \<and> adc_vector (node_adc t) \<and>
      adc_thread (node_adc t) = None \<and>
    sdu_ok lc (node_usb t) \<and> usb_config (node_usb t) \<and> usb_state (node_usb t) = USB_READY \<and>
    rx_ok False (can_rx_register (node_can t)) \<and> ev_naps (node_can t) = ns"
proof -
  obtain g where g: "ports (node_app s) = stm32_gpio_init g" using assms by (auto simp: node_reset_def)
  obtain m where r: "readBuffer (node_app s) = replicate 128 NUL" "writeBuffer (node_app s) = replicate 256 NUL"
    "length (samples (node_app s)) = 24" "\<not> dma_vector (node_adc s) 60" "placed a b lc" "node_usb s = SduNode.power_on m a b lc"
    "node_can s = can_power_on (Ev InitAck # Expire # ns)"
    using assms by (auto simp: node_reset_def)
  let ?h = "halInit s"
  note h = halInit_effect [of s]
  obtain w where w: "main_usb (node_usb ?h) = Inr w" "sdu_ok lc w" "usb_config w" "usb_state w = USB_READY"
    unfolding h r using main_usb_ok [OF r(5)] by blast
  let ?u = "?h\<lparr>node_usb := w\<rparr>"
  have u: "adc_state (node_adc ?u) = ADC_STOP" "\<not> bit (dma_streams_mask (node_adc ?u)) 12" "adc_grpp (node_adc ?u) = None"
    "dmamode_ok (node_adc ?u)"
    by (simp_all add: h adcInit_dmamode)
  obtain d where d: "ADCinit ?u = Inr (?u\<lparr>node_app := (node_app ?u)\<lparr>ports := (ports (node_app ?u))(GPIOC := analog_pads (ports (node_app ?u) GPIOC))\<rparr>,
      node_adc := d\<rparr>)" "idle d" "dmamode_ok d" "dma_vector d 60" "adc_vector d = adc_vector (node_adc ?u)"
      "adc_thread d = adc_thread (node_adc ?u)"
    using ADCinit_effect [OF u] by metis
  let ?a = "(node_app ?u)\<lparr>ports := (ports (node_app ?u))(GPIOC := analog_pads (ports (node_app ?u) GPIOC))\<rparr>"
  have p: "pwm_state (PWMD3 ?a) = PWM_STOP" "channels (PWMD3 ?a) = 4" "pwm_state (PWMD4 ?a) = PWM_STOP" "channels (PWMD4 ?a) = 4"
    by (simp_all add: h pwm_lld_init_def pwmObjectInit_def)
  obtain d3 d4 where pw: "PWMInit ?a = Inr (?a\<lparr>PWMD3 := d3, PWMD4 := d4\<rparr>)" "pwm_inv d3" "pwm_state d3 = PWM_READY" "pwm_inv d4"
    "pwm_state d4 = PWM_READY" "PWMDriver.enabled d3 = 14" "PWMDriver.enabled d4 = 3" "CCR (tim d3) = (\<lambda>_. 0)" "CCR (tim d4) = (\<lambda>_. 0)"
    using PWMInit_effect [OF p] by metis
  obtain c where c: "can_started ns = Inr c" "can_state c = CAN_READY" "IER c = CAN_IER_START" "fifo c = (\<lambda>_. [])" "ev_naps c = ns"
    using can_started_fields [of ns] by metis
  let ?t = "?u\<lparr>node_app := ?a\<lparr>PWMD3 := d3, PWMD4 := d4\<rparr>, node_adc := d, node_can := c\<rparr>"
  have "main_drivers s = Inr ?t"
    using w(1) d(1) pw(1) c(1) by (simp add: main_drivers_def Let_def can_started_def h r)
  moreover have "comm_inv (node_app ?t)" using pw r by (simp add: comm_inv_def h)
  moreover have "rx_ok False (can_rx_register (node_can ?t))"
    using c IER_START hears_registered by (simp add: rx_ok_def can_rx_register_def)
  moreover have "ports (node_app ?t) = (stm32_gpio_init g)(GPIOC := analog_pads (stm32_gpio_init g GPIOC))" by (simp add: h g)
  from rest_ports [OF this] pw have "list_all (at_rest (node_app ?t) \<circ> snd) sensor_table"
    "\<forall>n < 6. analog_pin (ports (node_app ?t)) (GPIOC, n)"
    "\<forall>l \<in> {LINE_ASMS_READ, LINE_CLAMPED_SENS_READ, LINE_EBS_OK_READ}. input_pin (ports (node_app ?t)) l"
    by simp_all
  ultimately show ?thesis using w d pw c by (intro exI [of _ ?t]) (simp add: h)
qed

definition demo_node :: node_sys where
  "demo_node = \<lparr>node_app = idle_app\<lparr>ports := stm32_gpio_init (ports idle_app)\<rparr>, node_adc = adc_power_on [],
     node_can = can_power_on [Ev InitAck, Expire], node_usb = SduNode.power_on (\<lambda>_. 0) 0x20000800 0x20000B00 0x20000700\<rparr>"

theorem main_establishes_invariants_witness:
  "\<exists>t. main_drivers demo_node = Inr t \<and> comm_inv (node_app t) \<and> \<not> line_out (ports (node_app t)) LINE_SHUTDOWN \<and>
     output_pin (ports (node_app t)) LINE_SHUTDOWN \<and> analog_pin (ports (node_app t)) (GPIOC, 5) \<and> idle (node_adc t) \<and>
     usb_state (node_usb t) = USB_READY"
proof -
  have "node_reset 0x20000800 0x20000B00 0x20000700 [] demo_node"
    by (simp add: node_reset_def demo_node_def idle_app_def adc_power_on_def placed_def) blast
  from main_establishes_invariants [OF this] show ?thesis
    by (elim exE conjE) (auto simp: sensor_table_def)
qed

end
