(* ===== verification/Spec2Isabelle.thy ===== *)
theory Spec2Isabelle
  imports CommSafe SduChannel SduLive SchedSpec CanRx AdcFaults AppMain
begin

text \<open>
  A model of the firmware of a service node on an STM32F4: an application of a few threads
  (\<^verbatim>\<open>src/src/source\<close>) on ChibiOS/RT and ChibiOS/HAL (\<^verbatim>\<open>src/src/chibios182/os\<close>; paths below that start
  with \<^verbatim>\<open>os/\<close> are relative to \<^verbatim>\<open>src/src/chibios182\<close>). A host sends requests over a USB serial port; the
  node sets output lines and servo positions and answers with its state. The bytes travel

    USB controller, \<^verbatim>\<open>hal_usb_lld.c\<close>, to USB driver, \<^verbatim>\<open>hal_usb.c\<close>, to serial driver,
    \<^verbatim>\<open>hal_serial_usb.c\<close>, to queues of buffers, \<^verbatim>\<open>hal_buffers.c\<close>, to \<^verbatim>\<open>communicationThread.c\<close>,

  and back. Every sleep on the way is a service of the kernel: a queue of threads, a timeout by a virtual
  timer, the scheduler. The first four parts below follow this path; the
  kernel is the last of them. The fifth part is the CAN driver, which two other threads use, and waiting for events; the
  sixth is the ADC driver, which samples the voltages that the node reports; the last is \<^verbatim>\<open>main\<close>, which starts them all.


  PART 1, THE APPLICATION

  \<^bold>\<open>Prelude\<close>: the result type of all operations. \<open>'a res\<close> is the error \<open>Halt\<close> (a failed check or
  assertion: the build has \<^verbatim>\<open>CH_DBG_ENABLE_CHECKS\<close> and \<^verbatim>\<open>CH_DBG_ENABLE_ASSERTS\<close> on, so it stops the system),
  \<open>Fault\<close> (an access C does not define) or blocked, or a value. \<open>None\<close> of an option around it is a call
  that never returns. Memory is a map from addresses to bytes. The locale \<open>keeps\<close> is the contract of a
  component whose operations keep an invariant, \<open>keeps_total\<close> extends it by the promise that they return.
  \<^bold>\<open>CLib\<close>: \<^verbatim>\<open>strtok_r\<close>, \<^verbatim>\<open>strstr\<close>, \<^verbatim>\<open>atoi\<close>, \<^verbatim>\<open>sprintf\<close>, \<^verbatim>\<open>memset\<close> on arrays of fixed length.
  \<^bold>\<open>Pal\<close>: output lines and their modes (\<^verbatim>\<open>hal_pal.h\<close>, \<^verbatim>\<open>GPIOv2/hal_pal_lld.c\<close>).
  \<^bold>\<open>Pwm\<close>: the PWM driver and its timer back end (\<^verbatim>\<open>hal_pwm.c\<close>, \<^verbatim>\<open>TIMv1/hal_pwm_lld.c\<close>), with the
  interpretation \<open>pwmk\<close> of \<open>keeps\<close>.
  \<^bold>\<open>Comm\<close>: \<^verbatim>\<open>communicationThread.c\<close>, function by function, on the record \<open>app\<close> of its static
  buffers and the drivers it reaches. \<^bold>\<open>CommProps\<close>: the functional lemmas of each function.
  \<^bold>\<open>CommSpec\<close>: an abstract protocol without buffers or tokens, and the refinement C1.
  \<^bold>\<open>CommSafe\<close>: any input whatever; the interpretation \<open>commk\<close> of \<open>keeps_total\<close>; C2 to C4. C4 shows
  the inputs that make the thread read through a null pointer or past its buffer.


  PART 2, THE QUEUES OF BUFFERS

  \<^bold>\<open>BufferQueues\<close>: all of \<^verbatim>\<open>hal_buffers.c\<close> on the byte memory. What the rest of the system does
  while a reader or writer sleeps, or between two of its critical sections, is a script in the state
  (\<open>naps\<close>, \<open>gaps\<close>): a list of events, each interpreted by a parameter \<open>env\<close>; a sleep with nothing left in
  the script blocks. \<^bold>\<open>BufferRing\<close>: the ring of slots. \<^bold>\<open>BufferWait\<close>: the locale \<open>bq_sleeper\<close>, what an
  environment may do and what a sleeper then finds. \<^bold>\<open>BufferInput\<close> and \<^bold>\<open>BufferOutput\<close>: the locales
  \<open>ibq_reader\<close> and \<open>obq_writer\<close> (with \<open>bq_sleeper\<close> as a sublocale) and the proof that the two kinds of
  queue are byte streams, first in, first out (C5, C6). The interpretations \<open>rx\<close> and \<open>tx\<close> take a device
  that posts and empties buffers as environment; the ones of \<open>SduChannel\<close> take the USB driver itself.


  PART 3, USB

  \<^bold>\<open>UsbDriver\<close>: \<^verbatim>\<open>hal_usb.c\<close> with the macros of \<^verbatim>\<open>hal_usb.h\<close>: device states, endpoints, the
  state machine of endpoint 0 and the standard requests. \<^bold>\<open>UsbIsr\<close>: the interrupt routine and the FIFO
  loops of \<^verbatim>\<open>OTGv1/hal_usb_lld.c\<close>; what the controller presents is the record \<open>otg_irq\<close>.
  \<^bold>\<open>UsbFifo\<close>: C7. \<^bold>\<open>UsbEp0\<close>: the locale \<open>usb_client\<close>, the contract of the configuration callbacks,
  and under it the invariant of endpoint 0. \<^bold>\<open>SerialUsb\<close>: \<^verbatim>\<open>hal_serial_usb.c\<close>. \<^bold>\<open>Usbcfg\<close>:
  \<^verbatim>\<open>usbcfg.c\<close>. \<^bold>\<open>SduInv\<close>, \<^bold>\<open>SduSteps\<close>: the invariant \<open>sdu_ok\<close> of the serial driver over both
  queues and endpoint 1, kept by every callback. \<^bold>\<open>SduClient\<close>: the interpretation \<open>node\<close> of
  \<open>usb_client\<close> on the configuration of the application. \<^bold>\<open>SduNode\<close>: \<open>hw_ok\<close>, the interrupts the
  controller can raise in a state; \<open>node_inv\<close>; the interpretation \<open>nodek\<close>; C8. \<^bold>\<open>SduControl\<close>: whole
  control transfers, C11 to C14. \<^bold>\<open>SduChannel\<close>: the interpretations \<open>sdu_rd\<close> and \<open>sdu_wr\<close> of the queue
  contracts with the bus as environment, hence C9 and C10. \<^bold>\<open>SduLive\<close>: C15, and in C16 its limit.

  Hypotheses about the host, all of them documented behaviour of a USB host and all of them met by the
  witnesses: it acknowledges what it was sent, raises only interrupts of transactions under way, starts no
  control transfer inside another one and gives no address to a configured device (\<open>hw_ok\<close>,
  \<open>line_step\<close>). C13 and C14 show that the last two are needed: the code stops when they are broken.


  PART 4, THE KERNEL

  \<^bold>\<open>KernelRing\<close>: circular doubly linked lists over link fields that are functions from addresses to
  addresses. \<^bold>\<open>VTimers\<close>: \<^verbatim>\<open>chvt.c\<close>, \<^verbatim>\<open>chvt.h\<close> in tickless mode with the counter of
  \<^verbatim>\<open>hal_st_lld.h\<close>; the script \<open>lags\<close> says how far the counter advances before each reading, so time
  passes inside a routine. \<^bold>\<open>VTimersSet\<close>: the list of deadlines in unbounded time that the deltas encode,
  and setting a timer. \<^bold>\<open>VTimersTick\<close>: resetting, the interrupt, and the locale \<open>vt_callbacks\<close> of what a
  callback may do. \<^bold>\<open>VTimersSpec\<close>: the contract \<open>vt_good\<close>. \<^bold>\<open>TimerSpec\<close>: C19 to C22.
  \<^bold>\<open>Sched\<close>: \<^verbatim>\<open>chschd.c\<close>, \<^verbatim>\<open>chschd.h\<close>, thread references, queues and creation of
  \<^verbatim>\<open>chthreads.c\<close>, the counting semaphores of \<^verbatim>\<open>chsem.c\<close>, \<^verbatim>\<open>chSysInit\<close>. A routine that switches
  threads ends where the other thread runs; the rest of the sleeper's critical section is its continuation
  \<open>cont\<close>, which \<open>chSysSwitch\<close> runs when the sleeper gets the processor back. \<^bold>\<open>SchedInv\<close>: every thread
  has a place (running, in a queue, behind a reference, asleep, starting, absent), and the fields agree with
  it. \<^bold>\<open>SchedMoves\<close>: how operations move threads. \<^bold>\<open>SchedWake\<close>: waking, and the interpretation
  \<open>timeouts\<close> of \<open>vt_callbacks\<close> on the wakeup callback. \<^bold>\<open>KernelWait\<close>, \<^bold>\<open>KernelSleep\<close>,
  \<^bold>\<open>KernelWake\<close>, \<^bold>\<open>KernelOps\<close>, \<^bold>\<open>KernelIops\<close>: every operation keeps \<open>kernel_inv\<close>, the
  invariant of timers and scheduler together. \<^bold>\<open>Kernel\<close>: the events of a kernel (a call of the running
  thread, an interrupt with the calls of its handler, the timer interrupt, a tick) and runs of them.
  \<^bold>\<open>KernelBoot\<close>: \<^verbatim>\<open>chSysInit\<close> from a cleared memory establishes the invariant.
  \<^bold>\<open>KernelSpec\<close>: C17 and C18, for all runs from the start. \<^bold>\<open>KernelTypes\<close>: the union in a thread
  object always holds the member that the state of the thread calls for (C40). \<^bold>\<open>SchedSpec\<close>: the ready list is the
  stable sort of the library (C23), the alarm is not late (C24), and where the kernel leaves its contract
  (C25 to C27, C29).

  Bounds. Timeouts are below \<open>2 ^ 31\<close> ticks (C26, C27 show what happens near \<open>2 ^ 32\<close>). The timer
  interrupt is served before the base time is \<open>2 ^ 31\<close> ticks old, and no single \<open>lag\<close> inside it exceeds 2
  ticks, which is \<^verbatim>\<open>CH_CFG_ST_TIMEDELTA\<close>. Priorities are positive (C25). \<open>kernel_guard\<close> collects these
  rules with those of the interface: queues and semaphores were initialized, an interrupt handler does not
  sleep, the idle thread does not sleep. A run that keeps them never stops; the theorem says so, it does not
  assume it. No fuel is used: loops that may not end are \<open>partial_function (option)\<close>, and the
  properties state that they return.

  Idealizations. Interrupt masking is implicit, an operation is one critical section. The counter of a
  semaphore is unbounded. The address of a timer and of its thread are related by \<open>stack_vt p = Suc p\<close>; the
  headers \<open>RLIST\<close> and \<open>VTLIST\<close> are address 0 of their stores. A thread in state \<open>CH_STATE_FINAL\<close> is an
  address without a thread. Working areas, port contexts, the registry and statistics are left out.


  PART 5, EVENTS AND CAN

  \<^bold>\<open>Events\<close>: \<^verbatim>\<open>chevents.c\<close>: registration, signals, the six waits and dispatching, on the record
  \<open>evt_sys\<close> that drivers extend. The locale \<open>evt_waiter\<close> states what the rest of the system does to a thread
  that waits: it is ready exactly when an event of its mask is pending; \<open>evt_client\<close> extends it by what each event
  adds, and \<open>signals\<close> is its interpretation on \<^verbatim>\<open>chEvtSignal\<close>. C30, C31.
  \<^bold>\<open>Can\<close>: \<^verbatim>\<open>hal_can.c\<close>, \<^verbatim>\<open>hal_can.h\<close> and \<^verbatim>\<open>CANv1/hal_can_lld.c\<close>, with the controller in the
  state: mailboxes, FIFOs, status and interrupt enable registers. \<open>can_step\<close> is one event of the bus, an interrupt or a
  call of another thread; the script \<open>ev_naps\<close> of a sleep lists them. Which empty mailbox the controller offers is a
  function \<open>tx_code\<close> in the state, of which \<open>hw_code\<close> demands only that the mailbox is empty.
  \<^bold>\<open>CanFrame\<close>: frames keep their meaning from driver to driver (C32). \<^bold>\<open>CanSend\<close>: \<open>traffic\<close>, the
  multiset of all frames handed over, shows that none is lost or doubled (C33); a sender that sleep mode forgets
  (C34). \<^bold>\<open>CanRx\<close>: the two CAN threads of \<^verbatim>\<open>main.c\<close>; the invariant \<open>rx_ok\<close> under which the receiver
  hears of every frame (C35), and the start-up order that breaks it (C36).


  PART 6, DMA AND ADC

  \<^bold>\<open>Dma\<close>: the helper driver \<^verbatim>\<open>DMAv2/stm32_dma.c\<close>, its table of streams, its sixteen interrupt
  handlers, and the controller: \<open>dma_request\<close> stores one half word. \<^bold>\<open>Adc\<close>: \<^verbatim>\<open>hal_adc.c\<close>,
  \<^verbatim>\<open>hal_adc.h\<close>, \<^verbatim>\<open>ADCv2/hal_adc_lld.c\<close> and \<^verbatim>\<open>adcThread.c\<close> on a state that extends that of the
  DMA. \<open>adc_step\<close> is one event: a conversion, an overrun, a DMA error, one of the two vectors, a call that stops
  the conversion; the script \<open>adc_naps\<close> of a wait lists them. \<^bold>\<open>AdcSpec\<close>: the invariant \<open>adc_inv\<close>, by
  which all transfers stay in the buffer, and the interpretation \<open>adck\<close> of \<open>keeps_total\<close>.
  \<^bold>\<open>AdcConvert\<close>: what the buffer holds when the thread goes on (C37). \<^bold>\<open>AdcFaults\<close>: any use the
  interface allows (C38), and the error callback whose conversion the driver forgets (C39).

  The samples lie in the memory that \<open>processStatus\<close> of part 1 reads, where they are a list of the state; the
  thread writes them through \<open>ram\<close>. \<^verbatim>\<open>adcAcquireBus\<close> and \<^verbatim>\<open>adcReleaseBus\<close> are calls of the mutex.


  PART 7, THE START

  \<^bold>\<open>Board\<close>: the pins as \<^verbatim>\<open>board.h\<close> configures them, and \<^verbatim>\<open>stm32_gpio_init\<close> of \<^verbatim>\<open>board.c\<close>.
  \<^bold>\<open>AppMain\<close>: \<^verbatim>\<open>halInit\<close> and \<^verbatim>\<open>main\<close> on the states of all parts side by side. C28 composes them: what they
  establish is what C1 to C3, C8, C35 and C37 start from, and every output is at rest. \<open>main_creates\<close> shows which of the five threads run at once.
  \<^bold>\<open>Blinker\<close>: \<^verbatim>\<open>usbThreadFunction\<close>, which shows the flags of the serial port on two LEDs; none gets lost
  (\<open>usbThread_turn_shows_flags\<close>). In both threads that wait for events, what happens between two calls falls into the
  next sleep.


  READING THE PROPERTIES

  Properties that need hypotheses are followed by a witness that applies them at a concrete input. Properties
  of kind error are about the code as it is: they show reachable inputs on which it stops or leaves its
  contract. The simplification bundle \<open>kernel_eval\<close> runs the kernel of the witnesses symbolically.


  NOT MODELLED

  Mutexes, condition variables, messages, memory pools, the registry and dynamic threads, which the application does not use.
  Register programming without program logic (clock tree, endpoint registers of the USB
  controller) is a log of calls or absent. Other ports, drivers, demos and the vendored device headers are
  not part of the firmware.
\<close>

end
